(* ===== verification/Prelude.thy ===== *)
theory Prelude
  imports Main "HOL-Library.Word" "HOL-Library.Char_ord" "HOL-Library.List_Lexorder"
    "HOL-Library.Product_Lexorder" "HOL-Library.Multiset" "HOL-Library.AList"
begin

text \<open>
  What every component shares: the Go types the code is written in (fixed width words, unbounded
  big integers, byte strings), results that carry an error or a run-time panic, Go's two integer
  divisions, decimal and hexadecimal rendering and parsing, and the collections of rewrite rules
  the component proofs use.

  A Go map that the code only looks up is a partial function; one it iterates is an association
  list with distinct keys, whose order stands for the order in which that run iterates it, so a
  theorem about every list is a theorem about every iteration order.
\<close>

named_theorems go_simps \<open>equations of the Go primitives\<close>
named_theorems result_simps \<open>equations of results and of their sequencing\<close>

type_synonym u8 = "8 word"
type_synonym u32 = "32 word"
type_synonym u64 = "64 word"
type_synonym i32 = "32 word"
type_synonym address = "160 word"
type_synonym hash = "256 word"

section \<open>Results\<close>

text \<open>
  A Go function that returns \<open>(T, error)\<close> is a function into a sum: \<open>Inl (Fail e)\<close> for a
  returned error, \<open>Inl Panic\<close> for a run-time panic (a division by zero, an index out of range),
  which no caller of this program recovers from.
\<close>

datatype 'e fault = Panic | Fail 'e

type_synonym ('e, 'a) go = "'e fault + 'a"

definition bindR :: "'x + 'a \<Rightarrow> ('a \<Rightarrow> 'x + 'b) \<Rightarrow> 'x + 'b" where
  "bindR m f = (case m of Inl e \<Rightarrow> Inl e | Inr a \<Rightarrow> f a)"

lemma bindR_simps [simp, result_simps]:
  "bindR (Inl e) f = Inl e"
  "bindR (Inr a) f = f a"
  by (simp_all add: bindR_def)

lemma bindR_Inr_iff [result_simps]:
  "bindR m f = Inr b \<longleftrightarrow> (\<exists>a. m = Inr a \<and> f a = Inr b)"
  by (cases m) auto

lemma bindR_Inl_iff [result_simps]:
  "bindR m f = Inl e \<longleftrightarrow> m = Inl e \<or> (\<exists>a. m = Inr a \<and> f a = Inl e)"
  by (cases m) auto

lemma bindR_cong [fundef_cong]:
  "m = m' \<Longrightarrow> (\<And>a. m' = Inr a \<Longrightarrow> f a = f' a) \<Longrightarrow> bindR m f = bindR m' f'"
  by (cases m') auto

definition guardR :: "bool \<Rightarrow> 'x \<Rightarrow> 'x + unit" where
  "guardR b e = (if b then Inr () else Inl e)"

lemma guardR_iff [simp, result_simps]:
  "guardR b e = Inr u \<longleftrightarrow> b"
  "guardR b e = Inl e' \<longleftrightarrow> \<not> b \<and> e' = e"
  by (auto simp: guardR_def)

primrec mapR :: "('a \<Rightarrow> 'x + 'b) \<Rightarrow> 'a list \<Rightarrow> 'x + 'b list" where
  "mapR f [] = Inr []"
| "mapR f (x # xs) = bindR (f x) (\<lambda>y. bindR (mapR f xs) (\<lambda>ys. Inr (y # ys)))"

primrec foldR :: "('s \<Rightarrow> 'a \<Rightarrow> 'x + 's) \<Rightarrow> 's \<Rightarrow> 'a list \<Rightarrow> 'x + 's" where
  "foldR f s [] = Inr s"
| "foldR f s (x # xs) = bindR (f s x) (\<lambda>s'. foldR f s' xs)"

lemma mapR_Inr_iff [result_simps]:
  "mapR f xs = Inr ys \<longleftrightarrow> list_all2 (\<lambda>x y. f x = Inr y) xs ys"
  by (induction xs arbitrary: ys) (auto simp: bindR_Inr_iff list_all2_Cons1)

lemma mapR_length: "mapR f xs = Inr ys \<Longrightarrow> length ys = length xs"
  by (auto simp: mapR_Inr_iff dest: list_all2_lengthD)

lemma foldR_append: "foldR f s (xs @ ys) = bindR (foldR f s xs) (\<lambda>s'. foldR f s' ys)"
  by (induction xs arbitrary: s) (auto simp: bindR_def split: sum.splits)

lemma foldR_invariant:
  assumes "foldR f s xs = Inr s'" and "P s"
    and "\<And>s x s'. x \<in> set xs \<Longrightarrow> P s \<Longrightarrow> f s x = Inr s' \<Longrightarrow> P s'"
  shows "P s'"
  using assms by (induction xs arbitrary: s) (auto simp: bindR_Inr_iff)

section \<open>Big integers\<close>

text \<open>
  \<open>math/big\<close>: \<open>Div\<close> and \<open>Mod\<close> are Euclidean (the remainder is never negative), \<open>Quo\<close> truncates
  towards zero, and each panics on a zero divisor. \<open>BitLen\<close> is the length of the absolute value.
\<close>

definition big_div :: "int \<Rightarrow> int \<Rightarrow> int option" where
  "big_div a b = (if b = 0 then None else Some (if b > 0 then a div b else - (a div (- b))))"

definition big_quo :: "int \<Rightarrow> int \<Rightarrow> int option" where
  "big_quo a b = (if b = 0 then None else Some (sgn a * sgn b * (\<bar>a\<bar> div \<bar>b\<bar>)))"

definition big_mod :: "int \<Rightarrow> int \<Rightarrow> int option" where
  "big_mod a b = (if b = 0 then None else Some (a mod \<bar>b\<bar>))"

definition is_uint64 :: "int \<Rightarrow> bool" where
  "is_uint64 a \<longleftrightarrow> 0 \<le> a \<and> a < 2 ^ 64"

text \<open>\<open>v.BitLen() > bits\<close>\<close>

definition bitlen_gt :: "int \<Rightarrow> nat \<Rightarrow> bool" where
  "bitlen_gt v bits \<longleftrightarrow> 2 ^ bits \<le> \<bar>v\<bar>"

lemma big_div_pos [simp, go_simps]: "b > 0 \<Longrightarrow> big_div a b = Some (a div b)"
  by (simp add: big_div_def)

lemma big_div_zero [simp, go_simps]: "big_div a 0 = None"
  by (simp add: big_div_def)

lemma big_quo_nonneg [simp, go_simps]: "0 \<le> a \<Longrightarrow> 0 < b \<Longrightarrow> big_quo a b = Some (a div b)"
  by (cases "a = 0") (auto simp: big_quo_def)

lemma big_quo_zero [simp, go_simps]: "big_quo a 0 = None"
  by (simp add: big_quo_def)

lemma big_mod_pos [simp, go_simps]: "b > 0 \<Longrightarrow> big_mod a b = Some (a mod b)"
  by (simp add: big_mod_def)

lemma big_div_Some_iff: "(\<exists>q. big_div a b = Some q) \<longleftrightarrow> b \<noteq> 0"
  by (auto simp: big_div_def)

text \<open>Go's divide, as a result: a zero divisor is a panic.\<close>

definition or_panic :: "'a option \<Rightarrow> ('e, 'a) go" where
  "or_panic m = (case m of None \<Rightarrow> Inl Panic | Some a \<Rightarrow> Inr a)"

lemma or_panic_simps [simp, result_simps]:
  "or_panic None = Inl Panic"
  "or_panic (Some a) = Inr a"
  by (simp_all add: or_panic_def)

lemma or_panic_Inr_iff [result_simps]: "or_panic m = Inr a \<longleftrightarrow> m = Some a"
  by (cases m) auto

section \<open>Durations\<close>

text \<open>
  \<open>time.Duration(n) * time.Second\<close>: signed 64-bit nanoseconds. The product wraps beyond 292 years;
  below, it reads as the seconds do.
\<close>

lemma sint_duration:
  fixes s :: u64
  assumes "unat s < 9223372036"
  shows "sint (s * 1000000000) = int (unat s) * 1000000000"
proof -
  have nat: "unat (s * 1000000000) = unat s * 1000000000"
    using assms unat_mult_lem [of s 1000000000] by simp
  have "uint (s * 1000000000) = int (unat (s * 1000000000))" by simp
  then have wide: "uint (s * 1000000000) = int (unat s) * 1000000000" unfolding nat by simp
  have "signed_take_bit 63 (x * 1000000000) = x * 1000000000" if "0 \<le> x" "x < 9223372036" for x :: int
    using that by (intro signed_take_bit_int_eq_self) simp_all
  from this [of "int (unat s)"] have "signed_take_bit 63 (int (unat s) * 1000000000) = int (unat s) * 1000000000"
    using assms by linarith
  then show ?thesis unfolding sint_uint wide by simp
qed

section \<open>Sorting\<close>

text \<open>
  \<open>sort.Slice\<close> is \<open>sort_key\<close> on the key its comparison compares. Go promises no order among equal
  keys; where keys are distinct the result depends on the elements alone.
\<close>

lemma sort_key_strict: "distinct (map f xs) \<Longrightarrow> sorted_wrt (\<lambda>x y. f x < f y) (sort_key f xs)"
proof -
  assume "distinct (map f xs)"
  then have "distinct (map f (sort_key f xs))" by (metis mset_eq_imp_distinct_iff mset_map mset_sort)
  moreover have "sorted (map f (sort_key f xs))" by simp
  ultimately have "sorted_wrt (<) (map f (sort_key f xs))" by (simp add: strict_sorted_iff)
  then show ?thesis by (simp add: sorted_wrt_map)
qed

lemma sort_key_permuted: "mset xs = mset ys \<Longrightarrow> inj_on f (set xs) \<Longrightarrow> sort_key f xs = sort_key f ys"
  by (rule sort_key_inj_key_eq) simp_all

end
