(* ===== verification/Redaction.thy ===== *)
theory Redaction
  imports GoText
begin

text \<open>
  \<open>types.go\<close>, the boundary errors cross: \<open>publicURLPattern\<close>, \<open>redactEndpoints\<close> and \<open>PublicError\<close>.
  The pattern is \<open>(?i)\b(?:https?|wss?)://[^\s"'<>]+\<close>, matched over the bytes of the message the
  way Go's regexp matches it: leftmost match first, \<open>\b\<close> an ASCII word boundary, and the case
  folding of the letter s reaching U+017F (the bytes C5 BF).
\<close>

section \<open>The endpoint pattern\<close>

definition is_word_byte :: "char \<Rightarrow> bool" where
  "is_word_byte c \<longleftrightarrow> (let n = (of_char c :: nat) in
     48 \<le> n \<and> n \<le> 57 \<or> 65 \<le> n \<and> n \<le> 90 \<or> 97 \<le> n \<and> n \<le> 122 \<or> n = 95)"

text \<open>What \<open>[^\s"'<>]\<close> excludes: tab, newline, form feed, return, space, both quotes, angle brackets.\<close>

definition url_stop :: "char \<Rightarrow> bool" where
  "url_stop c \<longleftrightarrow> (of_char c :: nat) \<in> {9, 10, 12, 13, 32, 34, 39, 60, 62}"

text \<open>One letter of the scheme, either case.\<close>

fun eat_letter :: "char \<Rightarrow> char \<Rightarrow> string \<Rightarrow> string option" where
  "eat_letter u l [] = None"
| "eat_letter u l (c # s) = (if c = u \<or> c = l then Some s else None)"

fun eat_s :: "string \<Rightarrow> string option" where
  "eat_s (c # s) = (if c = CHR ''s'' \<or> c = CHR ''S'' then Some s
     else if c = CHR 0xC5 then (case s of d # t \<Rightarrow> if d = CHR 0xBF then Some t else None | [] \<Rightarrow> None)
     else None)"
| "eat_s [] = None"

definition eat_optional_s :: "string \<Rightarrow> string" where
  "eat_optional_s s = (case eat_s s of Some r \<Rightarrow> r | None \<Rightarrow> s)"

definition eat_slashes :: "string \<Rightarrow> string option" where
  "eat_slashes s = Option.bind (eat_letter CHR '':'' CHR '':'' s) (\<lambda>s.
     Option.bind (eat_letter CHR ''/'' CHR ''/'' s) (eat_letter CHR ''/'' CHR ''/''))"

definition eat_http :: "string \<Rightarrow> string option" where
  "eat_http s = Option.bind (eat_letter CHR ''H'' CHR ''h'' s) (\<lambda>s.
     Option.bind (eat_letter CHR ''T'' CHR ''t'' s) (\<lambda>s.
     Option.bind (eat_letter CHR ''T'' CHR ''t'' s) (\<lambda>s.
     eat_letter CHR ''P'' CHR ''p'' s)))"

definition eat_ws :: "string \<Rightarrow> string option" where
  "eat_ws s = Option.bind (eat_letter CHR ''W'' CHR ''w'' s) eat_s"

text \<open>The text after \<open>https?://\<close> or \<open>wss?://\<close> at the head of \<open>s\<close>.\<close>

definition url_scheme :: "string \<Rightarrow> string option" where
  "url_scheme s = (case eat_http s of
       Some r \<Rightarrow> eat_slashes (eat_optional_s r)
     | None \<Rightarrow> (case eat_ws s of Some r \<Rightarrow> eat_slashes (eat_optional_s r) | None \<Rightarrow> None))"

text \<open>The text left after a match at the head of \<open>s\<close>, which a word byte precedes or not.\<close>

definition url_match :: "bool \<Rightarrow> string \<Rightarrow> string option" where
  "url_match after_word s = (if after_word then None else case url_scheme s of
       None \<Rightarrow> None
     | Some r \<Rightarrow> (case r of [] \<Rightarrow> None
         | c # _ \<Rightarrow> if url_stop c then None else Some (dropWhile (\<lambda>c. \<not> url_stop c) r)))"

fun has_url :: "bool \<Rightarrow> string \<Rightarrow> bool" where
  "has_url after_word [] = False"
| "has_url after_word (c # s) \<longleftrightarrow> url_match after_word (c # s) \<noteq> None \<or> has_url (is_word_byte c) s"

lemma eat_letter_length: "eat_letter u l s = Some r \<Longrightarrow> length r < length s"
  by (cases s) (auto split: if_splits)

lemma eat_s_length: "eat_s s = Some r \<Longrightarrow> length r < length s"
  by (cases s rule: eat_s.cases) (auto split: if_splits list.splits)

lemma eat_optional_s_length: "length (eat_optional_s s) \<le> length s"
  by (auto simp: eat_optional_s_def dest: eat_s_length split: option.split)

lemma eat_slashes_length: "eat_slashes s = Some r \<Longrightarrow> length r < length s"
  by (auto simp: eat_slashes_def dest!: eat_letter_length split: Option.bind_splits)

lemma eat_http_length: "eat_http s = Some r \<Longrightarrow> length r < length s"
  by (auto simp: eat_http_def dest!: eat_letter_length split: Option.bind_splits)

lemma eat_ws_length: "eat_ws s = Some r \<Longrightarrow> length r < length s"
  by (auto simp: eat_ws_def dest!: eat_letter_length eat_s_length split: Option.bind_splits)

lemma url_scheme_length: "url_scheme s = Some r \<Longrightarrow> length r < length s"
proof -
  assume r: "url_scheme s = Some r"
  then obtain t where t: "length t < length s" "eat_slashes (eat_optional_s t) = Some r"
    by (auto simp: url_scheme_def dest: eat_http_length eat_ws_length split: option.splits)
  show ?thesis using eat_slashes_length [OF t(2)] eat_optional_s_length [of t] t(1) by linarith
qed

lemma url_match_Some:
  assumes "url_match w s = Some r"
  obtains t where "url_scheme s = Some t" and "t \<noteq> []" and "\<not> url_stop (hd t)"
    and "r = dropWhile (\<lambda>c. \<not> url_stop c) t"
  using assms by (auto simp: url_match_def split: if_splits option.splits list.splits)

lemma url_match_length: "url_match w s = Some r \<Longrightarrow> length r < length s"
  by (erule url_match_Some) (auto dest!: url_scheme_length
      intro: le_less_trans [OF length_dropWhile_le])

section \<open>Redaction\<close>

text \<open>\<open>publicURLPattern.ReplaceAllString(message, "[redacted URL]")\<close>\<close>

definition url_marker :: string where
  "url_marker = ''[redacted URL]''"

function redact_urls :: "bool \<Rightarrow> string \<Rightarrow> string" where
  "redact_urls w [] = []"
| "redact_urls w (c # s) = (case url_match w (c # s) of
       Some r \<Rightarrow> url_marker
         @ redact_urls (is_word_byte (last (take (length (c # s) - length r) (c # s)))) r
     | None \<Rightarrow> c # redact_urls (is_word_byte c) s)"
  by pat_completeness auto
termination
  by (relation "measure (\<lambda>(w, s). length s)") (auto dest: url_match_length)

text \<open>An error is its message and what it wraps; \<open>Unwrap\<close> keeps the cause of a redacted one.\<close>

datatype go_error = PlainError (error_text: string) | RedactedError (error_text: string) (cause: go_error)

definition redactEndpoints :: "go_error option \<Rightarrow> go_error option" where
  "redactEndpoints err = (case err of None \<Rightarrow> None
     | Some e \<Rightarrow> (let message = error_text e; redacted = redact_urls False message in
         if redacted = message then Some e else Some (RedactedError redacted e)))"

definition PublicError :: "go_error option \<Rightarrow> string" where
  "PublicError err = (case err of None \<Rightarrow> []
     | Some e \<Rightarrow> (let message = redact_urls False (takeWhile (\<lambda>c. c \<noteq> CHR ''\<newline>'') (error_text e)) in
         if length message > 500 then take 500 message else message))"

section \<open>No endpoint survives redaction\<close>

text \<open>
  \<open>masks s t\<close>: \<open>t\<close> reads as \<open>s\<close> up to the first redaction, which stands where \<open>s\<close> has a
  byte that may start a match.
\<close>

inductive masks :: "string \<Rightarrow> string \<Rightarrow> bool" where
  nil: "masks [] []"
| same: "masks s t \<Longrightarrow> masks (c # s) (c # t)"
| masked: "\<not> url_stop x \<Longrightarrow> masks (x # s) (CHR ''['' # t)"

inductive_cases masks_nilE [elim!]: "masks s []"
inductive_cases masks_consE: "masks s (c # t)"

text \<open>A reader of text follows a mask: what it reads after the mask, it reads before it.\<close>

definition reads_masked :: "(string \<Rightarrow> string option) \<Rightarrow> bool" where
  "reads_masked f \<longleftrightarrow> (\<forall>s t r. masks s t \<longrightarrow> f t = Some r \<longrightarrow> (\<exists>q. f s = Some q \<and> masks q r))"

lemma reads_maskedD: "reads_masked f \<Longrightarrow> masks s t \<Longrightarrow> f t = Some r \<Longrightarrow> \<exists>q. f s = Some q \<and> masks q r"
  by (auto simp: reads_masked_def)

lemma reads_masked_bind:
  "reads_masked f \<Longrightarrow> reads_masked g \<Longrightarrow> reads_masked (\<lambda>s. Option.bind (f s) g)"
  unfolding reads_masked_def by (auto simp: bind_eq_Some_conv) blast

lemma reads_masked_letter: "u \<noteq> CHR ''['' \<Longrightarrow> l \<noteq> CHR ''['' \<Longrightarrow> reads_masked (eat_letter u l)"
  unfolding reads_masked_def
proof (intro allI impI)
  fix s t r
  assume "u \<noteq> CHR ''[''" "l \<noteq> CHR ''[''" "masks s t" "eat_letter u l t = Some r"
  then show "\<exists>q. eat_letter u l s = Some q \<and> masks q r"
    by (cases t) (auto elim: masks_consE split: if_splits)
qed

lemma reads_masked_s: "reads_masked eat_s"
  unfolding reads_masked_def
proof (intro allI impI)
  fix s t r
  assume "masks s t" "eat_s t = Some r"
  then show "\<exists>q. eat_s s = Some q \<and> masks q r"
    by (cases t rule: eat_s.cases) (auto elim!: masks_consE split: if_splits list.splits)
qed

lemma reads_masked_slashes: "reads_masked eat_slashes"
  unfolding eat_slashes_def [abs_def] by (intro reads_masked_bind reads_masked_letter) simp_all

lemma reads_masked_http: "reads_masked eat_http"
  unfolding eat_http_def [abs_def] by (intro reads_masked_bind reads_masked_letter) simp_all

lemma reads_masked_ws: "reads_masked eat_ws"
  unfolding eat_ws_def [abs_def]
  by (intro reads_masked_bind reads_masked_letter reads_masked_s) simp_all

lemmas masks_eat_slashes = reads_maskedD [OF reads_masked_slashes]
lemmas masks_eat_http = reads_maskedD [OF reads_masked_http]
lemmas masks_eat_ws = reads_maskedD [OF reads_masked_ws]
lemmas masks_eat_s = reads_maskedD [OF reads_masked_s]

lemma masks_head: "masks s (c # t) \<Longrightarrow> c \<noteq> CHR ''['' \<Longrightarrow> \<exists>s'. s = c # s' \<and> masks s' t"
  by (auto elim: masks_consE)

lemma eat_slashes_head: "eat_slashes s = Some r \<Longrightarrow> \<exists>t. s = CHR '':'' # t"
  by (cases s) (auto simp: eat_slashes_def split: if_splits)

lemma masks_eat_optional_s:
  assumes "masks s t" and "eat_slashes (eat_optional_s t) = Some r"
  shows "\<exists>q. eat_slashes (eat_optional_s s) = Some q \<and> masks q r"
proof (cases "eat_s t")
  case None
  then have slashes: "eat_slashes t = Some r" using assms(2) by (simp add: eat_optional_s_def)
  then obtain t' where "t = CHR '':'' # t'" by (auto dest: eat_slashes_head)
  then obtain s' where "s = CHR '':'' # s'" using masks_head [of s "CHR '':''" t'] assms(1) by auto
  then have "eat_optional_s s = s" by (simp add: eat_optional_s_def)
  then show ?thesis using masks_eat_slashes [OF assms(1) slashes] by simp
next
  case (Some t')
  then obtain s' where "eat_s s = Some s'" "masks s' t'" using masks_eat_s assms(1) by blast
  then show ?thesis using masks_eat_slashes [of s' t' r] assms(2) Some
    by (simp add: eat_optional_s_def)
qed

lemma eat_ws_not_http: "eat_ws s = Some r \<Longrightarrow> eat_http s = None"
  by (cases s) (auto simp: eat_ws_def eat_http_def split: if_splits)

lemma masks_url_scheme:
  assumes "masks s t" and "url_scheme t = Some r"
  shows "\<exists>q. url_scheme s = Some q \<and> masks q r"
proof (cases "eat_http t")
  case (Some t')
  then obtain s' where "eat_http s = Some s'" "masks s' t'" using masks_eat_http assms(1) by blast
  then show ?thesis using masks_eat_optional_s [of s' t' r] assms(2) Some
    by (simp add: url_scheme_def)
next
  case None
  then obtain t' where t': "eat_ws t = Some t'" "eat_slashes (eat_optional_s t') = Some r"
    using assms(2) by (auto simp: url_scheme_def split: option.splits)
  then obtain s' where s': "eat_ws s = Some s'" "masks s' t'" using masks_eat_ws assms(1) by blast
  then show ?thesis using masks_eat_optional_s [of s' t' r] t' eat_ws_not_http [OF s'(1)]
    by (simp add: url_scheme_def)
qed

lemma masks_url_match:
  assumes "masks s t" and "url_match w t = Some r"
  shows "url_match w s \<noteq> None"
proof -
  from assms(2) obtain c t' where t: "\<not> w" "url_scheme t = Some (c # t')" "\<not> url_stop c"
    by (auto simp: url_match_def split: if_splits option.splits list.splits)
  then obtain q where q: "url_scheme s = Some q" "masks q (c # t')" using masks_url_scheme assms(1) by blast
  then obtain x s' where "q = x # s'" "\<not> url_stop x" using t(3) by (auto elim: masks_consE)
  then show ?thesis using t q by (simp add: url_match_def)
qed

lemma eat_http_letter: "eat_http (c # s) = Some r \<Longrightarrow> c \<in> set ''Hh''"
  by (auto simp: eat_http_def split: if_splits)

lemma eat_ws_letter: "eat_ws (c # s) = Some r \<Longrightarrow> c \<in> set ''Ww''"
  by (auto simp: eat_ws_def split: if_splits)

lemma scheme_letter_not_stop: "c \<in> set ''HhWw'' \<Longrightarrow> \<not> url_stop c"
  unfolding list.set insert_iff empty_iff by (elim disjE FalseE; hypsubst; code_simp)

lemma url_scheme_letter: "url_scheme (c # s) = Some r \<Longrightarrow> \<not> url_stop c"
proof -
  assume "url_scheme (c # s) = Some r"
  then have "c \<in> set ''HhWw''"
    by (cases "eat_http (c # s)"; cases "eat_ws (c # s)")
      (use eat_http_letter [of c s] eat_ws_letter [of c s] in \<open>auto simp: url_scheme_def\<close>)
  then show ?thesis by (rule scheme_letter_not_stop)
qed

lemma redact_masks: "masks s (redact_urls w s)"
proof (induction w s rule: redact_urls.induct)
  case (1 w)
  show ?case by (auto intro: masks.intros)
next
  case (2 w c s)
  show ?case
  proof (cases "url_match w (c # s)")
    case None
    with 2 show ?thesis by (auto intro: masks.same)
  next
    case (Some r)
    then obtain t where "url_scheme (c # s) = Some t" by (auto elim: url_match_Some)
    then have "\<not> url_stop c" by (auto dest: url_scheme_letter)
    with Some show ?thesis by (auto simp: url_marker_def intro: masks.masked)
  qed
qed

lemma url_match_stop: "url_stop c \<Longrightarrow> url_match w (c # s) = None"
  by (cases "url_match w (c # s)") (auto elim!: url_match_Some dest: url_scheme_letter)

lemma has_url_marker:
  "has_url w (url_marker @ s) \<longleftrightarrow> has_url False s"
  by (simp add: url_marker_def url_match_def url_scheme_def eat_http_def eat_ws_def is_word_byte_def)

lemma redact_no_url: "\<not> has_url w (redact_urls w s)"
proof (induction w s rule: redact_urls.induct)
  case (1 w)
  show ?case by simp
next
  case (2 w c s)
  show ?case
  proof (cases "url_match w (c # s)")
    case None
    have "masks (c # s) (c # redact_urls (is_word_byte c) s)" by (intro masks.same redact_masks)
    then have "url_match w (c # redact_urls (is_word_byte c) s) = None"
      using masks_url_match None by (metis not_None_eq)
    then show ?thesis using 2(1) [OF None] None by simp
  next
    case (Some r)
    define v where "v = is_word_byte (last (take (length (c # s) - length r) (c # s)))"
    have IH: "\<not> has_url v (redact_urls v r)" using 2(2) [OF Some] by (simp add: v_def)
    have "\<not> has_url False (redact_urls v r)"
    proof (cases r)
      case Nil
      then show ?thesis by simp
    next
      case (Cons d r')
      obtain t where "d # r' = dropWhile (\<lambda>c. \<not> url_stop c) t" using Some Cons by (metis url_match_Some)
      then have "url_stop d" by (metis hd_dropWhile list.distinct(1) list.sel(1))
      then show ?thesis using IH Cons by (simp add: url_match_stop)
    qed
    moreover have "redact_urls w (c # s) = url_marker @ redact_urls v r"
      using Some by (simp add: v_def)
    ultimately show ?thesis by (simp only: has_url_marker simp_thms)
  qed
qed

section \<open>What a public error shows\<close>

text \<open>Cutting a message short cannot bring an endpoint back.\<close>

definition reads_prefix :: "(string \<Rightarrow> string option) \<Rightarrow> bool" where
  "reads_prefix f \<longleftrightarrow> (\<forall>s r u. f s = Some r \<longrightarrow> f (s @ u) = Some (r @ u))"

lemma reads_prefixD: "reads_prefix f \<Longrightarrow> f s = Some r \<Longrightarrow> f (s @ u) = Some (r @ u)"
  by (simp add: reads_prefix_def)

lemma reads_prefix_bind:
  "reads_prefix f \<Longrightarrow> reads_prefix g \<Longrightarrow> reads_prefix (\<lambda>s. Option.bind (f s) g)"
  unfolding reads_prefix_def by (auto simp: bind_eq_Some_conv)

lemma reads_prefix_letter: "reads_prefix (eat_letter u l)"
  unfolding reads_prefix_def
proof (intro allI impI)
  fix s r v
  assume "eat_letter u l s = Some r"
  then show "eat_letter u l (s @ v) = Some (r @ v)" by (cases s) (auto split: if_splits)
qed

lemma reads_prefix_s: "reads_prefix eat_s"
  unfolding reads_prefix_def
proof (intro allI impI)
  fix s r v
  assume "eat_s s = Some r"
  then show "eat_s (s @ v) = Some (r @ v)"
    by (cases s rule: eat_s.cases) (auto split: if_splits list.splits)
qed

lemma reads_prefix_slashes: "reads_prefix eat_slashes"
  unfolding eat_slashes_def [abs_def] by (intro reads_prefix_bind reads_prefix_letter)

lemma reads_prefix_http: "reads_prefix eat_http"
  unfolding eat_http_def [abs_def] by (intro reads_prefix_bind reads_prefix_letter)

lemma reads_prefix_ws: "reads_prefix eat_ws"
  unfolding eat_ws_def [abs_def] by (intro reads_prefix_bind reads_prefix_letter reads_prefix_s)

lemma eat_optional_s_append:
  assumes "eat_slashes (eat_optional_s s) = Some r"
  shows "eat_slashes (eat_optional_s (s @ u)) = Some (r @ u)"
proof (cases "eat_s s")
  case None
  then have slashes: "eat_slashes s = Some r" using assms by (simp add: eat_optional_s_def)
  then obtain t where "s = CHR '':'' # t" by (auto dest: eat_slashes_head)
  then have "eat_optional_s (s @ u) = s @ u" by (simp add: eat_optional_s_def)
  then show ?thesis using reads_prefixD [OF reads_prefix_slashes slashes] by simp
next
  case (Some t)
  then have "eat_s (s @ u) = Some (t @ u)" by (rule reads_prefixD [OF reads_prefix_s])
  then show ?thesis using Some assms reads_prefixD [OF reads_prefix_slashes, of t r u]
    by (simp add: eat_optional_s_def)
qed

lemma url_scheme_append:
  assumes "url_scheme s = Some r"
  shows "url_scheme (s @ u) = Some (r @ u)"
proof (cases "eat_http s")
  case (Some t)
  then have "eat_http (s @ u) = Some (t @ u)" by (rule reads_prefixD [OF reads_prefix_http])
  then show ?thesis using assms Some eat_optional_s_append [of t r u] by (simp add: url_scheme_def)
next
  case None
  then obtain t where t: "eat_ws s = Some t" "eat_slashes (eat_optional_s t) = Some r"
    using assms by (auto simp: url_scheme_def split: option.splits)
  then have ws: "eat_ws (s @ u) = Some (t @ u)" by (intro reads_prefixD [OF reads_prefix_ws])
  then show ?thesis using eat_ws_not_http [OF ws] eat_optional_s_append [OF t(2)]
    by (simp add: url_scheme_def)
qed

lemma url_match_append: "url_match w s \<noteq> None \<Longrightarrow> url_match w (s @ u) \<noteq> None"
  by (auto simp: url_match_def url_scheme_append split: if_splits option.splits list.splits)

lemma has_url_append: "has_url w s \<Longrightarrow> has_url w (s @ u)"
proof (induction s arbitrary: w)
  case (Cons c s)
  then show ?case using url_match_append [of w "c # s" u] by auto
qed simp

lemma has_url_take: "has_url w (take n s) \<Longrightarrow> has_url w s"
  using has_url_append [of w "take n s" "drop n s"] by simp

text \<open>Redaction adds no byte but those of its marker, so it adds no line break.\<close>

definition reads_within :: "(string \<Rightarrow> string option) \<Rightarrow> bool" where
  "reads_within f \<longleftrightarrow> (\<forall>s r. f s = Some r \<longrightarrow> set r \<subseteq> set s)"

lemma reads_withinD: "reads_within f \<Longrightarrow> f s = Some r \<Longrightarrow> set r \<subseteq> set s"
  by (simp add: reads_within_def)

lemma reads_within_bind:
  "reads_within f \<Longrightarrow> reads_within g \<Longrightarrow> reads_within (\<lambda>s. Option.bind (f s) g)"
  unfolding reads_within_def by (auto simp: bind_eq_Some_conv) blast

lemma reads_within_letter: "reads_within (eat_letter u l)"
  unfolding reads_within_def
proof (intro allI impI)
  fix s r
  assume "eat_letter u l s = Some r"
  then show "set r \<subseteq> set s" by (cases s) (auto split: if_splits)
qed

lemma reads_within_s: "reads_within eat_s"
  unfolding reads_within_def
proof (intro allI impI)
  fix s r
  assume "eat_s s = Some r"
  then show "set r \<subseteq> set s" by (cases s rule: eat_s.cases) (auto split: if_splits list.splits)
qed

lemma reads_within_optional_s: "set (eat_optional_s s) \<subseteq> set s"
  using reads_withinD [OF reads_within_s] by (auto simp: eat_optional_s_def split: option.splits)

lemma reads_within_scheme: "url_scheme s = Some r \<Longrightarrow> set r \<subseteq> set s"
proof -
  have http: "reads_within eat_http"
    unfolding eat_http_def [abs_def] by (intro reads_within_bind reads_within_letter)
  have ws: "reads_within eat_ws"
    unfolding eat_ws_def [abs_def] by (intro reads_within_bind reads_within_letter reads_within_s)
  have slashes: "reads_within eat_slashes"
    unfolding eat_slashes_def [abs_def] by (intro reads_within_bind reads_within_letter)
  assume "url_scheme s = Some r"
  then obtain t where t: "eat_http s = Some t \<or> eat_ws s = Some t" "eat_slashes (eat_optional_s t) = Some r"
    by (auto simp: url_scheme_def split: option.splits)
  have "set t \<subseteq> set s" using t(1) reads_withinD [OF http] reads_withinD [OF ws] by blast
  then show ?thesis using reads_withinD [OF slashes t(2)] reads_within_optional_s [of t] by blast
qed

lemma redact_urls_set: "set (redact_urls w s) \<subseteq> set s \<union> set url_marker"
proof (induction w s rule: redact_urls.induct)
  case (2 w c s)
  show ?case
  proof (cases "url_match w (c # s)")
    case None
    then show ?thesis using 2(1) [OF None] by auto
  next
    case (Some r)
    then obtain t where t: "url_scheme (c # s) = Some t" "r = dropWhile (\<lambda>c. \<not> url_stop c) t"
      by (metis url_match_Some)
    have "set r \<subseteq> set (c # s)"
      using reads_within_scheme [OF t(1)] t(2) by (auto dest: set_dropWhileD)
    then show ?thesis using 2(2) [OF Some] Some by auto
  qed
qed simp

lemma marker_one_line: "CHR ''\<newline>'' \<notin> set url_marker"
  unfolding url_marker_def by code_simp

text \<open>C22: whatever error an adapter, a transport or the host's provider returns, the message a
  response shows holds no match of the endpoint pattern, fits on one line and has at most 500
  bytes.\<close>

theorem public_error_shows_no_endpoint:
  "\<not> has_url False (PublicError err) \<and> length (PublicError err) \<le> 500
     \<and> CHR ''\<newline>'' \<notin> set (PublicError err)"
proof (cases err)
  case None
  then show ?thesis by (simp add: PublicError_def)
next
  case (Some e)
  define line where "line = takeWhile (\<lambda>c. c \<noteq> CHR ''\<newline>'') (error_text e)"
  have shown: "PublicError err = take 500 (redact_urls False line)"
    by (simp add: PublicError_def Some line_def Let_def)
  have line: "CHR ''\<newline>'' \<notin> set line"
    unfolding line_def using set_takeWhileD by fastforce
  have one: "CHR ''\<newline>'' \<notin> set (redact_urls False line)"
    using redact_urls_set [of False line] marker_one_line line by blast
  have "\<not> has_url False (PublicError err)"
    unfolding shown using has_url_take redact_no_url by blast
  moreover have "length (PublicError err) \<le> 500" unfolding shown by simp
  moreover have "CHR ''\<newline>'' \<notin> set (PublicError err)"
    unfolding shown using one in_set_takeD by metis
  ultimately show ?thesis by blast
qed

end
