(* ===== verification/Float64.thy ===== *)
theory Float64
  imports Prelude Complex_Main
begin

text \<open>
  Go's \<open>float64\<close>, as the valuation uses it: a finite value is the rational it denotes, and
  arithmetic rounds the exact result to the nearest value of the binary64 format, ties to even.
  \<open>big.Rat.Float64\<close> is the same rounding. The sign of a zero is not kept: no code of the
  repository observes it.
\<close>

datatype f64 = Fin rat | Inf bool | NaN

section \<open>Rounding\<close>

fun bits_of :: "nat \<Rightarrow> nat" where
  "bits_of n = (if n = 0 then 0 else Suc (bits_of (n div 2)))"

declare bits_of.simps [simp del]

definition floor_log2 :: "rat \<Rightarrow> int" where
  "floor_log2 q = (let (n, d) = quotient_of q;
       k = int (bits_of (nat n)) - int (bits_of (nat d))
     in if 2 powi k \<le> q then k else k - 1)"

definition round_half_even :: "rat \<Rightarrow> int" where
  "round_half_even x = (let f = \<lfloor>x\<rfloor>; r = x - of_int f in
     if r < 1 / 2 then f else if r > 1 / 2 then f + 1 else if even f then f else f + 1)"

text \<open>The exponent of the last place of the binary64 value next to \<open>a > 0\<close>.\<close>

definition ulp_exp :: "rat \<Rightarrow> int" where
  "ulp_exp a = max (floor_log2 a - 52) (- 1074)"

definition round_pos :: "rat \<Rightarrow> rat" where
  "round_pos a = of_int (round_half_even (a / 2 powi ulp_exp a)) * 2 powi ulp_exp a"

definition round64 :: "rat \<Rightarrow> f64" where
  "round64 q = (if q = 0 then Fin 0
     else let v = round_pos \<bar>q\<bar> in
       if v \<ge> 2 ^ 1024 then Inf (q < 0) else Fin (if q < 0 then - v else v))"

lemma bits_of_bounds: "n > 0 \<Longrightarrow> bits_of n > 0 \<and> 2 ^ (bits_of n - 1) \<le> n \<and> n < 2 ^ bits_of n"
proof (induction n rule: bits_of.induct)
  case (1 n)
  show ?case
  proof (cases "n div 2 = 0")
    case True
    with 1 have "n = 1" by linarith
    then show ?thesis by (simp add: bits_of.simps)
  next
    case False
    define b where "b = bits_of (n div 2)"
    have IH: "b > 0" "2 ^ (b - 1) \<le> n div 2" "n div 2 < 2 ^ b"
      using 1 False by (auto simp: b_def)
    have "bits_of n = Suc b" using 1 by (subst bits_of.simps) (simp add: b_def)
    moreover have "2 ^ b \<le> n"
    proof -
      have "(2::nat) ^ b = 2 * 2 ^ (b - 1)" using IH(1) by (cases b) auto
      then show ?thesis using IH(2) by linarith
    qed
    moreover have "n < 2 ^ Suc b" using IH(3) by simp
    ultimately show ?thesis by simp
  qed
qed

lemma floor_log2_bounds:
  assumes "q > 0"
  shows "2 powi floor_log2 q \<le> q \<and> q < 2 powi (floor_log2 q + 1)"
proof -
  obtain n d where q: "quotient_of q = (n, d)" by (cases "quotient_of q")
  have d: "d > 0" and eq: "q = of_int n / of_int d"
    using quotient_of_denom_pos [OF q] quotient_of_div [OF q] by auto
  have n: "n > 0" using assms d eq by (simp add: zero_less_divide_iff)
  define a b where "a = bits_of (nat n)" and "b = bits_of (nat d)"
  define k where "k = int a - int b"
  have A: "a > 0" "2 ^ (a - 1) \<le> n" "n < 2 ^ a"
    using bits_of_bounds [of "nat n"] n by (auto simp: a_def nat_less_iff le_nat_iff)
  have B: "b > 0" "2 ^ (b - 1) \<le> d" "d < 2 ^ b"
    using bits_of_bounds [of "nat d"] d by (auto simp: b_def nat_less_iff le_nat_iff)
  have A': "(2::rat) powi (int a - 1) \<le> of_int n" "(of_int n :: rat) < 2 powi int a"
  proof -
    have "of_int (2 ^ (a - 1)) \<le> (of_int n :: rat)" using A(2) by (simp only: of_int_le_iff)
    then show "(2::rat) powi (int a - 1) \<le> of_int n"
      using A(1) by (simp add: power_int_def nat_diff_distrib)
    have "(of_int n :: rat) < of_int (2 ^ a)" using A(3) by (simp only: of_int_less_iff)
    then show "(of_int n :: rat) < 2 powi int a" by simp
  qed
  have B': "(2::rat) powi (int b - 1) \<le> of_int d" "(of_int d :: rat) < 2 powi int b"
  proof -
    have "of_int (2 ^ (b - 1)) \<le> (of_int d :: rat)" using B(2) by (simp only: of_int_le_iff)
    then show "(2::rat) powi (int b - 1) \<le> of_int d"
      using B(1) by (simp add: power_int_def nat_diff_distrib)
    have "(of_int d :: rat) < of_int (2 ^ b)" using B(3) by (simp only: of_int_less_iff)
    then show "(of_int d :: rat) < 2 powi int b" by simp
  qed
  have dpos: "(0::rat) < of_int d" using d by simp
  have low: "2 powi (k - 1) \<le> q"
  proof -
    have "2 powi (k - 1) * of_int d \<le> 2 powi (k - 1) * (2 powi int b :: rat)"
      using B'(2) by (intro mult_left_mono) auto
    also have "\<dots> = 2 powi (int a - 1)"
      using power_int_add [of "2::rat" "k - 1" "int b"] by (simp add: k_def)
    finally show ?thesis using A'(1) dpos unfolding eq by (simp add: pos_le_divide_eq)
  qed
  have high: "q < 2 powi (k + 1)"
  proof -
    have "(2::rat) powi int a = 2 powi (k + 1) * 2 powi (int b - 1)"
      using power_int_add [of "2::rat" "k + 1" "int b - 1"] by (simp add: k_def)
    also have "\<dots> \<le> 2 powi (k + 1) * of_int d" using B'(1) by (intro mult_left_mono) auto
    finally have "(of_int n :: rat) < 2 powi (k + 1) * of_int d" using A'(2) by linarith
    then show ?thesis using dpos unfolding eq by (simp only: pos_divide_less_eq)
  qed
  have "floor_log2 q = (if 2 powi k \<le> q then k else k - 1)"
    by (simp add: floor_log2_def q Let_def k_def a_def b_def)
  then show ?thesis using low high by auto
qed

lemma floor_log2_less_iff: "q > 0 \<Longrightarrow> q < 2 powi e \<Longrightarrow> floor_log2 q < e"
proof (rule ccontr)
  assume "q > 0" "q < 2 powi e" "\<not> floor_log2 q < e"
  then have "(2::rat) powi e \<le> 2 powi floor_log2 q" by (intro power_int_increasing) auto
  then show False using floor_log2_bounds [OF \<open>q > 0\<close>] \<open>q < 2 powi e\<close> by linarith
qed

lemma round_half_even_error: "\<bar>of_int (round_half_even x) - x\<bar> \<le> 1 / 2"
  unfolding round_half_even_def Let_def
  using of_int_floor_le [of x] floor_correct [of x] by (auto simp: abs_le_iff)

lemma round_half_even_of_int [simp]: "round_half_even (of_int i) = i"
  by (simp add: round_half_even_def)

lemma round_half_even_nonneg: "0 \<le> x \<Longrightarrow> 0 \<le> round_half_even x"
  by (auto simp: round_half_even_def Let_def)

lemma round_half_even_lower: "of_int i \<le> x \<Longrightarrow> i \<le> round_half_even x"
proof -
  assume "of_int i \<le> x"
  then have "i \<le> \<lfloor>x\<rfloor>" by (simp add: le_floor_iff)
  then show ?thesis by (auto simp: round_half_even_def Let_def)
qed

lemma round_pos_nonneg: "0 \<le> a \<Longrightarrow> 0 \<le> round_pos a"
  by (simp add: round_pos_def round_half_even_nonneg)

text \<open>
  Rounding moves a value by at most half a unit in its last place: at most \<open>2 ^ -53\<close> of the value
  itself in the normal range.
\<close>

lemma round_pos_error_ulp: "\<bar>round_pos a - a\<bar> \<le> 2 powi (ulp_exp a - 1)"
proof -
  define u where "u = (2::rat) powi ulp_exp a"
  have u: "u > 0" by (simp add: u_def)
  have "round_pos a - a = (of_int (round_half_even (a / u)) - a / u) * u"
    using u by (simp add: round_pos_def u_def algebra_simps)
  then have "\<bar>round_pos a - a\<bar> = \<bar>of_int (round_half_even (a / u)) - a / u\<bar> * u"
    using u by (simp add: abs_mult)
  also have "\<dots> \<le> 1 / 2 * u"
    using round_half_even_error u by (intro mult_right_mono) auto
  also have "\<dots> = 2 powi (ulp_exp a - 1)"
    by (simp add: u_def power_int_diff)
  finally show ?thesis .
qed

lemma round_pos_error:
  assumes "2 powi (- 1022) \<le> a"
  shows "\<bar>round_pos a - a\<bar> \<le> a * 2 powi (- 53)"
proof -
  have a: "a > 0" using assms by (rule less_le_trans [rotated]) simp
  have "- 1022 \<le> floor_log2 a"
  proof (rule ccontr)
    assume "\<not> - 1022 \<le> floor_log2 a"
    then have "(2::rat) powi (floor_log2 a + 1) \<le> 2 powi (- 1022)"
      by (intro power_int_increasing) auto
    then show False using floor_log2_bounds [OF a] assms by linarith
  qed
  then have u: "ulp_exp a - 1 = floor_log2 a + (- 53)" by (simp add: ulp_exp_def)
  have "\<bar>round_pos a - a\<bar> \<le> 2 powi (ulp_exp a - 1)" by (rule round_pos_error_ulp)
  also have "\<dots> = 2 powi floor_log2 a * 2 powi (- 53)" unfolding u by (rule power_int_add) simp
  also have "\<dots> \<le> a * 2 powi (- 53)" using floor_log2_bounds [OF a] by (intro mult_right_mono) auto
  finally show ?thesis .
qed

section \<open>Representable values\<close>

definition representable :: "rat \<Rightarrow> bool" where
  "representable q \<longleftrightarrow> (\<exists>m e. q = of_int m * 2 powi e \<and> \<bar>m\<bar> < 2 ^ 53 \<and> - 1074 \<le> e) \<and> \<bar>q\<bar> < 2 ^ 1024"

lemma round_pos_exact:
  assumes "a > 0" and "a = of_int m * 2 powi e" and "m < 2 ^ 53" and "- 1074 \<le> e"
  shows "round_pos a = a"
proof -
  have "a < 2 powi (53 + e)"
  proof -
    have "(of_int m :: rat) < of_int (2 ^ 53)" using assms(3) by (simp only: of_int_less_iff)
    then have "a < 2 ^ 53 * 2 powi e" unfolding assms(2) by (intro mult_strict_right_mono) auto
    also have "\<dots> = 2 powi (53 + e)" using power_int_add [of "2::rat" 53 e] by simp
    finally show ?thesis .
  qed
  then have "floor_log2 a < 53 + e" using assms(1) by (rule floor_log2_less_iff [rotated])
  then have ue: "ulp_exp a \<le> e" using assms(4) by (simp add: ulp_exp_def)
  define k where "k = nat (e - ulp_exp a)"
  have split: "(2::rat) powi e = 2 ^ k * 2 powi ulp_exp a"
    using ue power_int_add [of "2::rat" "int k" "ulp_exp a"]
    by (simp add: k_def flip: power_int_of_nat)
  then have aeq: "a = of_int (m * 2 ^ k) * 2 powi ulp_exp a" using assms(2) by simp
  have "a / 2 powi ulp_exp a = of_int (m * 2 ^ k)"
    by (rule iffD2 [OF nonzero_divide_eq_eq aeq]) simp
  then have rhe: "round_half_even (a / 2 powi ulp_exp a) = m * 2 ^ k"
    by (simp only: round_half_even_of_int)
  show ?thesis unfolding round_pos_def rhe by (rule aeq [symmetric])
qed

lemma round64_exact:
  assumes "representable q"
  shows "round64 q = Fin q"
proof (cases "q = 0")
  case True
  then show ?thesis by (simp add: round64_def)
next
  case False
  from assms obtain m e where me: "q = of_int m * 2 powi e" "\<bar>m\<bar> < 2 ^ 53" "- 1074 \<le> e"
    and lim: "\<bar>q\<bar> < 2 ^ 1024"
    by (auto simp: representable_def)
  have "\<bar>q\<bar> = of_int \<bar>m\<bar> * 2 powi e" unfolding me(1) by (simp add: abs_mult)
  then have "round_pos \<bar>q\<bar> = \<bar>q\<bar>" using me False by (intro round_pos_exact) auto
  then show ?thesis using False lim by (auto simp: round64_def Let_def)
qed

lemma round64_zero [simp]: "round64 0 = Fin 0"
  by (simp add: round64_def)

text \<open>A rounded value keeps its sign, and a finite one in the normal range is close.\<close>

lemma round64_sign:
  "0 \<le> q \<Longrightarrow> round64 q = Inf False \<or> (\<exists>v \<ge> 0. round64 q = Fin v)"
  "q \<le> 0 \<Longrightarrow> round64 q = Inf True \<or> (\<exists>v \<le> 0. round64 q = Fin v)"
  by (auto simp: round64_def Let_def round_pos_nonneg)

lemma round64_error:
  assumes "round64 q = Fin v" and "2 powi (- 1022) \<le> \<bar>q\<bar>"
  shows "\<bar>v - q\<bar> \<le> \<bar>q\<bar> * 2 powi (- 53)"
proof -
  have "q \<noteq> 0" using assms(2) by auto
  then have v: "v = (if q < 0 then - round_pos \<bar>q\<bar> else round_pos \<bar>q\<bar>)"
    using assms(1) by (auto simp: round64_def Let_def split: if_splits)
  have "\<bar>round_pos \<bar>q\<bar> - \<bar>q\<bar>\<bar> \<le> \<bar>q\<bar> * 2 powi (- 53)" using assms(2) by (rule round_pos_error)
  then show ?thesis unfolding v by (cases "q < 0") (auto simp: abs_le_iff abs_if split: if_splits)
qed

text \<open>Below the normal range the last place is fixed: half a unit of it at most.\<close>

lemma round64_error_small:
  assumes "round64 q = Fin v" and "\<bar>q\<bar> < 2 powi (- 1022)"
  shows "\<bar>v - q\<bar> \<le> 2 powi (- 1075)"
proof (cases "q = 0")
  case False
  then have "floor_log2 \<bar>q\<bar> < - 1022" using assms(2) by (intro floor_log2_less_iff) auto
  then have "ulp_exp \<bar>q\<bar> = - 1074" by (simp add: ulp_exp_def)
  then have "\<bar>round_pos \<bar>q\<bar> - \<bar>q\<bar>\<bar> \<le> 2 powi (- 1075)" using round_pos_error_ulp [of "\<bar>q\<bar>"] by simp
  moreover have "v = (if q < 0 then - round_pos \<bar>q\<bar> else round_pos \<bar>q\<bar>)"
    using assms(1) False by (auto simp: round64_def Let_def split: if_splits)
  ultimately show ?thesis by (cases "q < 0") (auto simp: abs_le_iff abs_if split: if_splits)
qed (use assms in simp)

section \<open>The nearest value of the format\<close>

lemma round_half_even_cases:
  "round_half_even x = \<lfloor>x\<rfloor> \<and> x - of_int \<lfloor>x\<rfloor> \<le> 1 / 2 \<or> round_half_even x = \<lfloor>x\<rfloor> + 1 \<and> 1 / 2 \<le> x - of_int \<lfloor>x\<rfloor>"
  by (auto simp: round_half_even_def Let_def)

lemma round_half_even_nearest: "\<bar>of_int (round_half_even x) - x\<bar> \<le> \<bar>of_int i - x\<bar>"
proof -
  have near: "\<bar>of_int (round_half_even x) - x\<bar> \<le> x - of_int \<lfloor>x\<rfloor>"
      "\<bar>of_int (round_half_even x) - x\<bar> \<le> of_int \<lfloor>x\<rfloor> + 1 - x"
    using round_half_even_cases [of x] of_int_floor_le [of x] floor_correct [of x] by auto
  show ?thesis
  proof (cases "i \<le> \<lfloor>x\<rfloor>")
    case True
    then have "(of_int i :: rat) \<le> of_int \<lfloor>x\<rfloor>" by simp
    then show ?thesis using near(1) of_int_floor_le [of x] by linarith
  next
    case False
    then have "(of_int (\<lfloor>x\<rfloor> + 1) :: rat) \<le> of_int i" by (simp only: of_int_le_iff)
    then show ?thesis using near(2) by simp
  qed
qed

lemma round_half_even_upper:
  assumes "x \<le> of_int i"
  shows "round_half_even x \<le> i"
proof (cases "\<lfloor>x\<rfloor> < i")
  case True
  then show ?thesis by (auto simp: round_half_even_def Let_def)
next
  case False
  then have "(of_int i :: rat) \<le> of_int \<lfloor>x\<rfloor>" by simp
  then have "x = of_int i" using of_int_floor_le [of x] assms by linarith
  then show ?thesis by simp
qed

text \<open>A multiple of the last place of \<open>a\<close> is no nearer to it than its rounding.\<close>

lemma round_pos_nearest_multiple: "\<bar>round_pos a - a\<bar> \<le> \<bar>of_int i * 2 powi ulp_exp a - a\<bar>"
proof -
  define u where "u = (2::rat) powi ulp_exp a"
  have u: "u > 0" by (simp add: u_def)
  have scale: "\<bar>of_int j * u - a\<bar> = \<bar>of_int j - a / u\<bar> * u" for j
  proof -
    have "of_int j * u - a = (of_int j - a / u) * u" using u by (simp add: algebra_simps)
    then show ?thesis using u by (simp add: abs_mult)
  qed
  have "\<bar>of_int (round_half_even (a / u)) - a / u\<bar> * u \<le> \<bar>of_int i - a / u\<bar> * u"
    using u round_half_even_nearest by (intro mult_right_mono) auto
  then show ?thesis unfolding round_pos_def u_def [symmetric] scale .
qed

lemma power_split: "- k \<le> e \<Longrightarrow> (2::rat) powi e = of_int (2 ^ nat (e + k)) * 2 powi (- k)"
  using power_int_add [of "2::rat" "int (nat (e + k))" "- k"] by (simp flip: power_int_of_nat)

text \<open>No value of the format is nearer to a positive number than its rounding.\<close>

lemma round_pos_nearest:
  assumes "a > 0" and "representable y"
  shows "\<bar>round_pos a - a\<bar> \<le> \<bar>y - a\<bar>"
proof -
  obtain m e where y: "y = of_int m * 2 powi e" "\<bar>m\<bar> < 2 ^ 53" "- 1074 \<le> e"
    using assms(2) by (auto simp: representable_def)
  show ?thesis
  proof (cases "ulp_exp a \<le> e")
    case True
    then have "y = of_int (m * 2 ^ nat (e - ulp_exp a)) * 2 powi ulp_exp a"
      using power_split [of "- ulp_exp a" e] y(1) by simp
    then show ?thesis using round_pos_nearest_multiple [of a "m * 2 ^ nat (e - ulp_exp a)"] by simp
  next
    case False
    then have ulp: "ulp_exp a = floor_log2 a - 52" using y(3) by (auto simp: ulp_exp_def)
    have "\<bar>of_int m :: rat\<bar> \<le> 2 ^ 53" using y(2) by (metis less_imp_le of_int_abs of_int_le_numeral_power_cancel_iff)
    then have "\<bar>y\<bar> \<le> 2 ^ 53 * 2 powi e" unfolding y(1) by (simp add: abs_mult)
    also have "\<dots> = 2 powi (53 + e)" using power_int_add [of "2::rat" 53 e] by simp
    also have "\<dots> \<le> 2 powi floor_log2 a" using False ulp by (intro power_int_increasing) auto
    finally have low: "\<bar>y\<bar> \<le> 2 powi floor_log2 a" .
    have "(2::rat) powi floor_log2 a = of_int (2 ^ 52) * 2 powi ulp_exp a"
      using power_split [of "- ulp_exp a" "floor_log2 a"] by (simp add: ulp)
    then have "\<bar>round_pos a - a\<bar> \<le> \<bar>2 powi floor_log2 a - a\<bar>" using round_pos_nearest_multiple by metis
    then show ?thesis using low floor_log2_bounds [OF assms(1)] by linarith
  qed
qed

lemma round_pos_representable:
  assumes "a > 0" and "round_pos a < 2 ^ 1024"
  shows "representable (round_pos a)"
proof -
  define n where "n = round_half_even (a / 2 powi ulp_exp a)"
  have n: "round_pos a = of_int n * 2 powi ulp_exp a" by (simp add: round_pos_def n_def)
  have "floor_log2 a + 1 \<le> 53 + ulp_exp a" by (simp add: ulp_exp_def)
  then have "(2::rat) powi (floor_log2 a + 1) \<le> 2 powi (53 + ulp_exp a)" by (intro power_int_increasing) auto
  also have "\<dots> = of_int (2 ^ 53) * 2 powi ulp_exp a" using power_int_add [of "2::rat" 53 "ulp_exp a"] by simp
  finally have "a \<le> of_int (2 ^ 53) * 2 powi ulp_exp a" using floor_log2_bounds [OF assms(1)] by linarith
  then have "a / 2 powi ulp_exp a \<le> of_int (2 ^ 53)" by (intro divide_le_eq [THEN iffD2]) simp
  then have le: "n \<le> 2 ^ 53" unfolding n_def by (rule round_half_even_upper)
  have pos: "0 \<le> n" unfolding n_def using assms(1) by (intro round_half_even_nonneg) simp
  have small: "\<bar>round_pos a\<bar> < 2 ^ 1024" using assms round_pos_nonneg [of a] by simp
  have exp: "- 1074 \<le> ulp_exp a" by (simp add: ulp_exp_def)
  show ?thesis
  proof (cases "n = 2 ^ 53")
    case True
    have "round_pos a = of_int (2 ^ 52) * 2 powi (ulp_exp a + 1)"
      unfolding n True using power_int_add [of "2::rat" "ulp_exp a" 1] by simp
    moreover have "\<bar>2 ^ 52 :: int\<bar> < 2 ^ 53" "- 1074 \<le> ulp_exp a + 1" using exp by simp_all
    ultimately show ?thesis using small unfolding representable_def by blast
  next
    case False
    then have "\<bar>n\<bar> < 2 ^ 53" using le pos by linarith
    then show ?thesis using small exp n unfolding representable_def by blast
  qed
qed

lemma representable_uminus [simp]: "representable (- q) \<longleftrightarrow> representable q"
proof -
  have "representable (- q)" if q: "representable q" for q
  proof -
    obtain m e where "q = of_int m * 2 powi e" "\<bar>m\<bar> < 2 ^ 53" "- 1074 \<le> e" "\<bar>q\<bar> < 2 ^ 1024"
      using q unfolding representable_def by blast
    then show ?thesis unfolding representable_def by (intro conjI exI [of _ "- m"] exI [of _ e]) simp_all
  qed
  from this [of q] this [of "- q"] show ?thesis by auto
qed

lemma representable_zero: "representable 0"
  unfolding representable_def by (intro conjI exI [of _ 0] exI [of _ 0]) simp_all

text \<open>The rounding of a number, where finite, is in the format, and nothing in the format is nearer.\<close>

lemma round64_nearest:
  assumes "round64 q = Fin v"
  shows "representable v \<and> (\<forall>y. representable y \<longrightarrow> \<bar>v - q\<bar> \<le> \<bar>y - q\<bar>)"
proof (cases "q = 0")
  case True
  then show ?thesis using assms representable_zero by simp
next
  case False
  then have v: "v = (if q < 0 then - round_pos \<bar>q\<bar> else round_pos \<bar>q\<bar>)" and fin: "round_pos \<bar>q\<bar> < 2 ^ 1024"
    using assms by (auto simp: round64_def Let_def split: if_splits)
  have a: "\<bar>q\<bar> > 0" using False by simp
  have "\<bar>v - q\<bar> \<le> \<bar>y - q\<bar>" if y: "representable y" for y
  proof (cases "q < 0")
    case True
    then have "\<bar>round_pos \<bar>q\<bar> - \<bar>q\<bar>\<bar> \<le> \<bar>- y - \<bar>q\<bar>\<bar>" using round_pos_nearest [OF a, of "- y"] y by simp
    then show ?thesis using True by (simp add: v abs_if split: if_splits)
  next
    case False
    then show ?thesis using round_pos_nearest [OF a y] by (simp add: v)
  qed
  moreover have "representable v"
    using round_pos_representable [OF a fin] unfolding v by (cases "q < 0") (simp_all only: if_True if_False representable_uminus)
  ultimately show ?thesis by blast
qed

section \<open>Values that do not overflow\<close>

lemma round64_finite:
  assumes "\<bar>q\<bar> \<le> 2 ^ 1023"
  shows "\<exists>v. round64 q = Fin v"
proof (cases "q = 0")
  case False
  have "round_pos \<bar>q\<bar> < 2 ^ 1024"
  proof (cases "2 powi (- 1022) \<le> \<bar>q\<bar>")
    case True
    have "round_pos \<bar>q\<bar> \<le> \<bar>q\<bar> + \<bar>q\<bar> * 2 powi (- 53)" using round_pos_error [OF True] by linarith
    also have "\<dots> \<le> \<bar>q\<bar> + \<bar>q\<bar> * (1 / 2)"
      using power_int_increasing [of "- 53" "- 1" "2::rat"]
      by (intro add_left_mono mult_left_mono) (auto simp: power_int_minus)
    also have "\<dots> < 2 * 2 ^ 1023"
    proof -
      have "\<bar>q\<bar> + \<bar>q\<bar> * (1 / 2) < 2 * \<bar>q\<bar>" using False by simp
      also have "\<dots> \<le> 2 * 2 ^ 1023" using assms by simp
      finally show ?thesis .
    qed
    finally show ?thesis by simp
  next
    case small: False
    have "floor_log2 \<bar>q\<bar> < - 1022" using False small by (intro floor_log2_less_iff) auto
    then have "ulp_exp \<bar>q\<bar> = - 1074" by (simp add: ulp_exp_def)
    then have "(2::rat) powi (ulp_exp \<bar>q\<bar> - 1) \<le> 2 powi 0" by (intro power_int_increasing) auto
    then have "\<bar>round_pos \<bar>q\<bar> - \<bar>q\<bar>\<bar> \<le> 2 powi 0"
      by (rule order_trans [OF round_pos_error_ulp])
    then have "round_pos \<bar>q\<bar> \<le> \<bar>q\<bar> + 1" by (simp only: power_int_0_right abs_le_iff) linarith
    moreover have "(2::rat) powi (- 1022) \<le> 2 powi 0" by (intro power_int_increasing) auto
    then have "\<bar>q\<bar> \<le> 2 powi 0" by (rule order_trans [rotated]) (use small in \<open>simp only: not_le less_imp_le\<close>)
    then have "\<bar>q\<bar> \<le> 1" by (simp only: power_int_0_right)
    ultimately have "round_pos \<bar>q\<bar> < 4" by linarith
    then show ?thesis by (rule less_trans) simp
  qed
  then show ?thesis by (auto simp: round64_def Let_def)
qed simp

section \<open>Arithmetic and comparison\<close>

fun f64_add :: "f64 \<Rightarrow> f64 \<Rightarrow> f64" where
  "f64_add (Fin a) (Fin b) = round64 (a + b)"
| "f64_add NaN _ = NaN"
| "f64_add _ NaN = NaN"
| "f64_add (Inf s) (Inf t) = (if s = t then Inf s else NaN)"
| "f64_add (Inf s) (Fin _) = Inf s"
| "f64_add (Fin _) (Inf t) = Inf t"

fun f64_neg :: "f64 \<Rightarrow> f64" where
  "f64_neg (Fin a) = Fin (- a)"
| "f64_neg (Inf s) = Inf (\<not> s)"
| "f64_neg NaN = NaN"

definition f64_sub :: "f64 \<Rightarrow> f64 \<Rightarrow> f64" where
  "f64_sub a b = f64_add a (f64_neg b)"

text \<open>\<open>a < b\<close> and \<open>a \<le> b\<close>: false when either is a NaN.\<close>

fun f64_less :: "f64 \<Rightarrow> f64 \<Rightarrow> bool" where
  "f64_less (Fin a) (Fin b) = (a < b)"
| "f64_less (Inf s) (Inf t) = (s \<and> \<not> t)"
| "f64_less (Inf s) (Fin _) = s"
| "f64_less (Fin _) (Inf t) = (\<not> t)"
| "f64_less _ _ = False"

fun f64_le :: "f64 \<Rightarrow> f64 \<Rightarrow> bool" where
  "f64_le NaN _ = False"
| "f64_le _ NaN = False"
| "f64_le a b = (f64_less a b \<or> a = b)"

fun is_finite64 :: "f64 \<Rightarrow> bool" where
  "is_finite64 (Fin _) = True"
| "is_finite64 _ = False"

text \<open>\<open>new(big.Rat).SetFloat64(f)\<close>: nil unless the value is finite.\<close>

fun rat_of_f64 :: "f64 \<Rightarrow> rat option" where
  "rat_of_f64 (Fin a) = Some a"
| "rat_of_f64 _ = None"

lemma not_finite64_iff: "\<not> is_finite64 x \<longleftrightarrow> x = NaN \<or> (\<exists>s. x = Inf s)"
  by (cases x) auto

lemma rat_of_f64_Some_iff: "rat_of_f64 x = Some a \<longleftrightarrow> x = Fin a"
  by (cases x) auto

lemma f64_add_zero: "representable q \<Longrightarrow> f64_add (Fin 0) (Fin q) = Fin q"
  by (simp add: round64_exact)

lemma representable_of_int: "\<bar>m\<bar> < 2 ^ 53 \<Longrightarrow> representable (of_int m)"
proof -
  assume m: "\<bar>m\<bar> < 2 ^ 53"
  then have "(of_int \<bar>m\<bar> :: rat) < of_int (2 ^ 53)" by (simp only: of_int_less_iff)
  also have "(of_int (2 ^ 53) :: rat) < 2 ^ 1024" by simp
  finally have "\<bar>of_int m :: rat\<bar> < 2 ^ 1024" by simp
  moreover have "(of_int m :: rat) = of_int m * 2 powi 0" by simp
  ultimately show ?thesis using m unfolding representable_def
    by (intro conjI exI [of _ m] exI [of _ 0]) simp_all
qed

end
