(* ===== verification/Types.thy ===== *)
theory Types
  imports Redaction Float64
begin

text \<open>
  \<open>types.go\<close>, the data every component passes on: chains, blocks, tokens, components, groups,
  snapshots and the response. A Go pointer that may be nil is an option, a \<open>[]common.Address\<close>
  whose nil differs from an empty slice is an option of a list, and a metadata map is an
  association list.
\<close>

section \<open>Chains\<close>

type_synonym chain_id = u64

definition Ethereum :: chain_id where "Ethereum = 1"
definition BSC :: chain_id where "BSC = 56"
definition Base :: chain_id where "Base = 8453"
definition Arbitrum :: chain_id where "Arbitrum = 42161"
definition Polygon :: chain_id where "Polygon = 137"
definition Monad :: chain_id where "Monad = 143"
definition Plasma :: chain_id where "Plasma = 9745"
definition Avalanche :: chain_id where "Avalanche = 43114"
definition Optimism :: chain_id where "Optimism = 10"
definition HyperEVM :: chain_id where "HyperEVM = 999"
definition Robinhood :: chain_id where "Robinhood = 4663"

lemmas chain_defs = Ethereum_def BSC_def Base_def Arbitrum_def Polygon_def Monad_def Plasma_def
  Avalanche_def Optimism_def HyperEVM_def Robinhood_def

definition SupportedChainIDs :: "chain_id list" where
  "SupportedChainIDs = [Ethereum, BSC, Base, Arbitrum, Polygon, Monad, Plasma, Avalanche, Optimism,
     HyperEVM, Robinhood]"

lemma SupportedChainIDs_distinct: "distinct SupportedChainIDs"
  by (simp add: SupportedChainIDs_def chain_defs)

section \<open>Blocks, tokens and components\<close>

record block_ref =
  block_chain :: chain_id
  block_number :: u64
  block_hash :: hash
  block_timestamp :: u64
  block_fixed :: bool

record token =
  tok_chain :: chain_id
  tok_address :: address
  tok_symbol :: string
  tok_decimals :: u8

record source =
  src_contract :: address
  src_method :: string
  src_holds :: "address list option"

record price_basis =
  basis_token :: token
  basis_ratio :: string

datatype meta_value = MetaString string | MetaBool bool | MetaInt int | MetaAddress address
  | MetaAddresses "address list"

type_synonym metadata = "(string \<times> meta_value) list"

record component =
  comp_kind :: string
  comp_token :: token
  comp_amount :: string
  comp_denominator :: string
  comp_price :: "f64 option"
  comp_value :: "f64 option"
  comp_basis :: "price_basis option"
  comp_source :: source
  comp_metadata :: metadata

text \<open>\<open>Component.priceToken\<close>\<close>

definition priceToken :: "component \<Rightarrow> token" where
  "priceToken c = (case comp_basis c of Some b \<Rightarrow> basis_token b | None \<Rightarrow> comp_token c)"

definition NewComponent :: "string \<Rightarrow> token \<Rightarrow> int \<Rightarrow> source \<Rightarrow> component" where
  "NewComponent kind token amount src =
     \<lparr>comp_kind = kind, comp_token = token, comp_amount = show_int amount, comp_denominator = [],
      comp_price = None, comp_value = None, comp_basis = None, comp_source = src,
      comp_metadata = []\<rparr>"

record group =
  grp_id :: string
  grp_market :: string
  grp_label :: string
  grp_components :: "component list"
  grp_policy :: string
  grp_value :: "f64 option"
  grp_metadata :: metadata

record snapshot =
  snap_protocol :: string
  snap_name :: string
  snap_chain :: chain_id
  snap_account :: address
  snap_block :: block_ref
  snap_groups :: "group list"
  snap_policy :: string
  snap_value :: "f64 option"

record scan_error =
  err_scope :: string
  err_chain :: chain_id
  err_protocol :: string
  err_name :: string
  err_message :: string

record protocol_info =
  info_id :: string
  info_name :: string
  info_chains :: "chain_id list"

record protocol_summary =
  sum_protocol :: string
  sum_name :: string
  sum_total :: f64
  sum_asset :: f64
  sum_debt :: f64
  sum_reward :: f64
  sum_priced :: nat
  sum_count :: nat
  sum_chains :: "chain_id list"

record response =
  resp_schema :: nat
  resp_address :: address
  resp_supported :: "protocol_info list"
  resp_snapshots :: "snapshot list"
  resp_summaries :: "protocol_summary list"
  resp_errors :: "scan_error list"
  resp_blocks :: "chain_id \<rightharpoonup> u64"
  resp_prices :: "string \<rightharpoonup> f64"

section \<open>Addresses\<close>

text \<open>
  \<open>ParseAddress\<close>, over go-ethereum's \<open>common.IsHexAddress\<close> and \<open>common.HexToAddress\<close>.
\<close>

definition ParseAddress :: "(string \<Rightarrow> bool) \<Rightarrow> (string \<Rightarrow> address) \<Rightarrow> string \<Rightarrow> address option" where
  "ParseAddress is_hex_address hex_to_address value =
     (if is_hex_address value then Some (hex_to_address value) else None)"

text \<open>
  go-ethereum's \<open>Address.Hex\<close> is a parameter \<open>addr_hex\<close> of what renders addresses. The code relies
  on one thing: lower-cased, the renderings of two addresses differ. The plain hexadecimal
  rendering \<open>address_hex\<close> is an instance.
\<close>

definition lower_char :: "char \<Rightarrow> char" where
  "lower_char c = (let n = (of_char c :: nat) in if 65 \<le> n \<and> n \<le> 90 then char_of (n + 32) else c)"

definition ToLower :: "string \<Rightarrow> string" where
  "ToLower s = map lower_char s"

definition hex_names :: "(address \<Rightarrow> string) \<Rightarrow> bool" where
  "hex_names addr_hex \<longleftrightarrow> (\<forall>a b. ToLower (addr_hex a) = ToLower (addr_hex b) \<longrightarrow> a = b)"

lemma hex_namesD: "hex_names addr_hex \<Longrightarrow> ToLower (addr_hex a) = ToLower (addr_hex b) \<longleftrightarrow> a = b"
  by (auto simp: hex_names_def)

lemma lower_hex_char [simp]: "n < 16 \<Longrightarrow> lower_char (hex_char n) = hex_char n"
  by (auto simp: lower_char_def of_char_hex_char Let_def)

lemma lower_hex_fixed [simp]: "map lower_char (hex_fixed k n) = hex_fixed k n"
  by (induction k arbitrary: n) auto

lemma ToLower_address_hex [simp]: "ToLower (address_hex a) = address_hex a"
  by (simp add: ToLower_def address_hex_def) code_simp

lemma hex_names_address_hex: "hex_names address_hex"
  by (simp add: hex_names_def)

end
