(* ===== verification/Registry.thy ===== *)
theory Registry
  imports Types
begin

text \<open>
  \<open>adapter.go\<close>: deployment and availability windows, the registration of adapters against the
  availability table, and the chains a deployment map claims. A window constructor that panics is
  \<open>None\<close>; a registration error is a constructor of \<open>registry_error\<close>. Block bounds are inclusive and
  a deactivation block of 0 means no end.
\<close>

section \<open>Windows\<close>

record deploymentWindow =
  ActivationBlock :: u64
  DeactivationBlock :: u64

record availabilityWindow =
  window_bounds :: deploymentWindow
  configured :: bool

definition deployment_ActiveAt :: "deploymentWindow \<Rightarrow> u64 \<Rightarrow> bool" where
  "deployment_ActiveAt d block = (if block < ActivationBlock d then False
     else DeactivationBlock d = 0 \<or> block \<le> DeactivationBlock d)"

definition window_ActiveAt :: "availabilityWindow \<Rightarrow> u64 \<Rightarrow> bool" where
  "window_ActiveAt w block \<longleftrightarrow> configured w \<and> deployment_ActiveAt (window_bounds w) block"

definition availableFromGenesis :: availabilityWindow where
  "availableFromGenesis = \<lparr>window_bounds = \<lparr>ActivationBlock = 0, DeactivationBlock = 0\<rparr>, configured = True\<rparr>"

definition availableFrom :: "u64 \<Rightarrow> availabilityWindow option" where
  "availableFrom block = (if block = 0 then None
     else Some \<lparr>window_bounds = \<lparr>ActivationBlock = block, DeactivationBlock = 0\<rparr>, configured = True\<rparr>)"

definition availableBetween :: "u64 \<Rightarrow> u64 \<Rightarrow> availabilityWindow option" where
  "availableBetween firstBlock lastBlock = (if firstBlock = 0 then None
     else if lastBlock = 0 then None
     else if lastBlock < firstBlock then None
     else Some \<lparr>window_bounds = \<lparr>ActivationBlock = firstBlock, DeactivationBlock = lastBlock\<rparr>,
                configured = True\<rparr>)"

section \<open>Registration\<close>

type_synonym chain_availability = "(chain_id \<times> availabilityWindow list) list"

text \<open>What an adapter answers for one chain, block and account: groups, and an error beside them.\<close>

type_synonym positions = "block_ref \<Rightarrow> address \<Rightarrow> group list \<times> go_error option"

record adapter =
  adapter_info :: protocol_info
  adapter_positions :: positions

record registeredAdapter =
  reg_adapter :: adapter
  reg_availability :: chain_availability

text \<open>A Go map lookup of a slice: an absent key reads as nil.\<close>

definition windows_of :: "chain_availability \<Rightarrow> chain_id \<Rightarrow> availabilityWindow list" where
  "windows_of availability chain = (case map_of availability chain of Some ws \<Rightarrow> ws | None \<Rightarrow> [])"

definition registered_ActiveAt :: "registeredAdapter \<Rightarrow> chain_id \<Rightarrow> u64 \<Rightarrow> bool" where
  "registered_ActiveAt r chain block \<longleftrightarrow>
     list_ex (\<lambda>w. window_ActiveAt w block) (windows_of (reg_availability r) chain)"

datatype registry_error = DuplicateAdapter string
  | DuplicateChain string chain_id
  | NoAvailability string chain_id
  | NotConfigured string chain_id nat
  | ImplicitGenesis string chain_id nat
  | EndsBeforeStart string chain_id nat
  | NotOrdered string chain_id
  | Overlap string chain_id
  | UnadvertisedChain string chain_id
  | UnknownProtocol string

text \<open>One window of one advertised chain, with the window before it (none at index 0).\<close>

definition check_window ::
  "string \<Rightarrow> chain_id \<Rightarrow> nat \<Rightarrow> availabilityWindow option \<Rightarrow> availabilityWindow \<Rightarrow> registry_error + unit" where
  "check_window protocolID chain index previous window = (let bounds = window_bounds window in
     if \<not> configured window then Inl (NotConfigured protocolID chain index)
     else if ActivationBlock bounds = 0 \<and> DeactivationBlock bounds \<noteq> 0
       then Inl (ImplicitGenesis protocolID chain index)
     else if DeactivationBlock bounds \<noteq> 0 \<and> DeactivationBlock bounds < ActivationBlock bounds
       then Inl (EndsBeforeStart protocolID chain index)
     else (case previous of
         None \<Rightarrow> Inr ()
       | Some p \<Rightarrow>
           if ActivationBlock bounds \<le> ActivationBlock (window_bounds p)
             then Inl (NotOrdered protocolID chain)
           else if DeactivationBlock (window_bounds p) = 0
               \<or> ActivationBlock bounds \<le> DeactivationBlock (window_bounds p)
             then Inl (Overlap protocolID chain)
           else Inr ()))"

fun check_windows ::
  "string \<Rightarrow> chain_id \<Rightarrow> nat \<Rightarrow> availabilityWindow option \<Rightarrow> availabilityWindow list \<Rightarrow> registry_error + unit" where
  "check_windows protocolID chain index previous [] = Inr ()"
| "check_windows protocolID chain index previous (w # ws) =
     bindR (check_window protocolID chain index previous w)
       (\<lambda>_. check_windows protocolID chain (Suc index) (Some w) ws)"

text \<open>The loop over \<open>info.Chains\<close>, with the chains already advertised.\<close>

fun check_chains :: "string \<Rightarrow> chain_availability \<Rightarrow> chain_id list \<Rightarrow> chain_id list \<Rightarrow> registry_error + unit" where
  "check_chains protocolID availability advertised [] = Inr ()"
| "check_chains protocolID availability advertised (chain # ids) =
     (if chain \<in> set advertised then Inl (DuplicateChain protocolID chain)
      else if windows_of availability chain = [] then Inl (NoAvailability protocolID chain)
      else bindR (check_windows protocolID chain 0 None (windows_of availability chain))
        (\<lambda>_. check_chains protocolID availability (chain # advertised) ids))"

text \<open>The loop over the availability map's keys: the first key no chain advertises.\<close>

fun check_advertised :: "string \<Rightarrow> chain_id list \<Rightarrow> chain_id list \<Rightarrow> registry_error + unit" where
  "check_advertised protocolID advertised [] = Inr ()"
| "check_advertised protocolID advertised (chain # ids) =
     (if chain \<in> set advertised then check_advertised protocolID advertised ids
      else Inl (UnadvertisedChain protocolID chain))"

type_synonym availability_table = "(string \<times> chain_availability) list"
type_synonym registrations = "(string \<times> registeredAdapter) list"

definition table_of :: "availability_table \<Rightarrow> string \<Rightarrow> chain_availability" where
  "table_of table protocolID = (case map_of table protocolID of Some a \<Rightarrow> a | None \<Rightarrow> [])"

definition register_adapter ::
  "availability_table \<Rightarrow> registrations \<Rightarrow> adapter \<Rightarrow> registry_error + registrations" where
  "register_adapter table registrations a = (let info = adapter_info a; protocolID = info_id info;
       availability = table_of table protocolID in
     if protocolID \<in> fst ` set registrations then Inl (DuplicateAdapter protocolID)
     else bindR (check_chains protocolID availability [] (info_chains info)) (\<lambda>_.
       bindR (check_advertised protocolID (info_chains info) (map fst availability)) (\<lambda>_.
       Inr (registrations @ [(protocolID, \<lparr>reg_adapter = a, reg_availability = availability\<rparr>)]))))"

fun check_known :: "registrations \<Rightarrow> string list \<Rightarrow> registry_error + unit" where
  "check_known registrations [] = Inr ()"
| "check_known registrations (protocolID # ids) =
     (if protocolID \<in> fst ` set registrations then check_known registrations ids
      else Inl (UnknownProtocol protocolID))"

definition registerAdapters :: "adapter list \<Rightarrow> availability_table \<Rightarrow> registry_error + registrations" where
  "registerAdapters adapters table =
     bindR (foldR (register_adapter table) [] adapters) (\<lambda>registrations.
       bindR (check_known registrations (map fst table)) (\<lambda>_. Inr registrations))"

text \<open>\<open>mustRegisterAdapters\<close> panics on an error.\<close>

definition mustRegisterAdapters :: "adapter list \<Rightarrow> availability_table \<Rightarrow> registrations option" where
  "mustRegisterAdapters adapters table =
     (case registerAdapters adapters table of Inl _ \<Rightarrow> None | Inr regs \<Rightarrow> Some regs)"

section \<open>Chains\<close>

fun supportsChain :: "chain_id list \<Rightarrow> chain_id \<Rightarrow> bool" where
  "supportsChain [] chain = False"
| "supportsChain (candidate # ids) chain = (if candidate = chain then True else supportsChain ids chain)"

text \<open>\<open>deploymentChains\<close> over a map's entries; \<open>None\<close> is its panic.\<close>

definition deploymentChains :: "(chain_id \<times> 'a) list \<Rightarrow> chain_id list option" where
  "deploymentChains deployments =
     (let ids = filter (\<lambda>c. map_of deployments c \<noteq> None) SupportedChainIDs in
      if length ids \<noteq> length deployments then None else Some ids)"

lemma supportsChain_set: "supportsChain ids c \<longleftrightarrow> c \<in> set ids"
  by (induction ids) auto

section \<open>What registration accepts\<close>

text \<open>
  The contract of an accepted window list: every window is configured and not empty, and each but
  the last ends before the next starts.
\<close>

definition window_ok :: "availabilityWindow \<Rightarrow> bool" where
  "window_ok w \<longleftrightarrow> configured w
     \<and> (DeactivationBlock (window_bounds w) = 0
        \<or> 0 < ActivationBlock (window_bounds w)
          \<and> ActivationBlock (window_bounds w) \<le> DeactivationBlock (window_bounds w))"

definition window_before :: "availabilityWindow \<Rightarrow> availabilityWindow \<Rightarrow> bool" where
  "window_before v w \<longleftrightarrow> DeactivationBlock (window_bounds v) \<noteq> 0
     \<and> DeactivationBlock (window_bounds v) < ActivationBlock (window_bounds w)"

definition windows_ok :: "availabilityWindow list \<Rightarrow> bool" where
  "windows_ok ws \<longleftrightarrow> ws \<noteq> [] \<and> list_all window_ok ws \<and> sorted_wrt window_before ws"

lemma check_window_ok:
  "check_window p c i prev w = Inr () \<longleftrightarrow>
     window_ok w \<and> (\<forall>v. prev = Some v \<longrightarrow> ActivationBlock (window_bounds v) < ActivationBlock (window_bounds w)
        \<and> window_before v w)"
  by (auto simp: check_window_def window_ok_def window_before_def Let_def not_le not_less word_neq_0_conv
      split: option.split)

lemma window_before_trans: "window_before u v \<Longrightarrow> window_ok v \<Longrightarrow> window_before v w \<Longrightarrow> window_before u w"
  by (auto simp: window_before_def window_ok_def)

lemma window_before_start: "window_ok v \<Longrightarrow> window_before v w \<Longrightarrow>
    ActivationBlock (window_bounds v) < ActivationBlock (window_bounds w)"
  by (auto simp: window_before_def window_ok_def)

lemma check_windows_ok:
  "check_windows p c i prev ws = Inr () \<longleftrightarrow>
     list_all window_ok ws \<and> sorted_wrt window_before ws
     \<and> (\<forall>v w. prev = Some v \<longrightarrow> ws \<noteq> [] \<longrightarrow> w = hd ws \<longrightarrow>
          ActivationBlock (window_bounds v) < ActivationBlock (window_bounds w) \<and> window_before v w)"
proof (induction p c i prev ws rule: check_windows.induct)
  case (2 p c i prev w ws)
  have trans: "window_before w (hd ws) \<and> list_all window_ok ws \<and> sorted_wrt window_before ws
      \<Longrightarrow> ws \<noteq> [] \<Longrightarrow> \<forall>x\<in>set ws. window_before w x"
    by (cases ws) (auto intro: window_before_trans)
  show ?case
    by (cases ws) (use 2 trans window_before_start in \<open>auto simp: bindR_Inr_iff check_window_ok\<close>)
qed simp

lemma check_chains_ok:
  "check_chains p av adv cs = Inr () \<longleftrightarrow>
     distinct cs \<and> set cs \<inter> set adv = {} \<and> (\<forall>c\<in>set cs. windows_ok (windows_of av c))"
  by (induction p av adv cs rule: check_chains.induct)
    (auto simp: bindR_Inr_iff check_windows_ok windows_ok_def)

lemma check_advertised_ok: "check_advertised p adv cs = Inr () \<longleftrightarrow> set cs \<subseteq> set adv"
  by (induction p adv cs rule: check_advertised.induct) auto

lemma check_known_ok: "check_known regs ids = Inr () \<longleftrightarrow> set ids \<subseteq> fst ` set regs"
  by (induction regs ids rule: check_known.induct) auto

definition registration_ok :: "availability_table \<Rightarrow> adapter \<Rightarrow> bool" where
  "registration_ok table a \<longleftrightarrow> (let info = adapter_info a; availability = table_of table (info_id info) in
     distinct (info_chains info) \<and> set (info_chains info) = fst ` set availability
     \<and> (\<forall>c\<in>set (info_chains info). windows_ok (windows_of availability c)))"

lemma windows_of_absent: "c \<notin> fst ` set av \<Longrightarrow> windows_of av c = []"
  by (simp add: windows_of_def map_of_eq_None_iff [THEN iffD2])

lemma register_adapter_ok:
  "register_adapter table regs a = Inr regs' \<longleftrightarrow>
     info_id (adapter_info a) \<notin> fst ` set regs \<and> registration_ok table a
     \<and> regs' = regs @ [(info_id (adapter_info a),
         \<lparr>reg_adapter = a, reg_availability = table_of table (info_id (adapter_info a))\<rparr>)]"
  using windows_of_absent [of _ "table_of table (info_id (adapter_info a))"]
  by (auto simp: register_adapter_def registration_ok_def Let_def bindR_Inr_iff check_chains_ok
      check_advertised_ok windows_ok_def)

text \<open>The registrations an accepted adapter list gives, in its order.\<close>

definition registrations_of :: "availability_table \<Rightarrow> adapter list \<Rightarrow> registrations" where
  "registrations_of table adapters = map (\<lambda>a. (info_id (adapter_info a),
     \<lparr>reg_adapter = a, reg_availability = table_of table (info_id (adapter_info a))\<rparr>)) adapters"

lemma foldR_register_ok:
  "foldR (register_adapter table) regs adapters = Inr regs' \<longleftrightarrow>
     distinct (map (info_id \<circ> adapter_info) adapters)
     \<and> (\<forall>a\<in>set adapters. info_id (adapter_info a) \<notin> fst ` set regs \<and> registration_ok table a)
     \<and> regs' = regs @ registrations_of table adapters"
proof (induction adapters arbitrary: regs)
  case (Cons a as)
  let ?id = "\<lambda>a. info_id (adapter_info a)"
  let ?r = "(?id a, \<lparr>reg_adapter = a, reg_availability = table_of table (?id a)\<rparr>)"
  have rest: "(\<forall>b\<in>set as. ?id b \<notin> fst ` set (regs @ [?r]) \<and> registration_ok table b) \<longleftrightarrow>
      ?id a \<notin> ?id ` set as \<and> (\<forall>b\<in>set as. ?id b \<notin> fst ` set regs \<and> registration_ok table b)"
    by (auto simp: image_iff)
  have "foldR (register_adapter table) regs (a # as) = Inr regs' \<longleftrightarrow>
      ?id a \<notin> fst ` set regs \<and> registration_ok table a
      \<and> foldR (register_adapter table) (regs @ [?r]) as = Inr regs'"
    by (simp only: foldR.simps bindR_Inr_iff register_adapter_ok) blast
  also have "\<dots> \<longleftrightarrow> ?id a \<notin> fst ` set regs \<and> registration_ok table a
      \<and> distinct (map (info_id \<circ> adapter_info) as)
      \<and> (?id a \<notin> ?id ` set as \<and> (\<forall>b\<in>set as. ?id b \<notin> fst ` set regs \<and> registration_ok table b))
      \<and> regs' = regs @ ?r # registrations_of table as"
    by (simp only: Cons.IH rest) (simp add: comp_def)
  finally show ?case by (auto simp: registrations_of_def comp_def simp del: foldR.simps)
qed (auto simp: registrations_of_def)

lemma registrations_of_ids: "fst ` set (registrations_of table adapters) = (info_id \<circ> adapter_info) ` set adapters"
  by (auto simp: registrations_of_def image_image)

lemma registerAdapters_ok:
  "registerAdapters adapters table = Inr regs \<longleftrightarrow>
     distinct (map (info_id \<circ> adapter_info) adapters)
     \<and> (\<forall>a\<in>set adapters. registration_ok table a)
     \<and> fst ` set table \<subseteq> (info_id \<circ> adapter_info) ` set adapters
     \<and> regs = registrations_of table adapters"
  by (auto simp: registerAdapters_def bindR_Inr_iff foldR_register_ok check_known_ok registrations_of_ids)

lemma windows_ok_at_most_one:
  assumes "windows_ok ws" and "i < j" and "j < length ws"
  shows "\<not> (window_ActiveAt (ws ! i) b \<and> window_ActiveAt (ws ! j) b)"
proof -
  have "window_before (ws ! i) (ws ! j)"
    using assms sorted_wrt_nth_less [of window_before ws i j] by (auto simp: windows_ok_def)
  then show ?thesis by (auto simp: window_before_def window_ActiveAt_def deployment_ActiveAt_def split: if_splits)
qed

section \<open>The properties of registration\<close>

text \<open>C19: registration succeeds exactly on an adapter list with distinct protocol identities whose
  every adapter advertises each chain once, the chains it advertises are exactly the chains its
  availability names, each with a non-empty list of configured, non-empty windows in block order
  that do not overlap, and on a table that names no other protocol; it then registers every adapter
  with its own availability. Every other input is an error.\<close>

theorem registration_exact:
  "registerAdapters adapters table = Inr regs \<longleftrightarrow>
     distinct (map (info_id \<circ> adapter_info) adapters)
     \<and> list_all (registration_ok table) adapters
     \<and> fst ` set table \<subseteq> (info_id \<circ> adapter_info) ` set adapters
     \<and> regs = registrations_of table adapters"
  by (simp add: registerAdapters_ok list_all_iff)

text \<open>Whatever block a registered adapter is asked about, at most one window of a chain
  admits it, and a chain the adapter does not advertise is active at no block.\<close>

lemma registered_windows_disjoint:
  assumes "registerAdapters adapters table = Inr regs" and "(p, r) \<in> set regs"
  shows "card {i. i < length (windows_of (reg_availability r) c)
            \<and> window_ActiveAt (windows_of (reg_availability r) c ! i) b} \<le> 1
     \<and> (registered_ActiveAt r c b \<longrightarrow> c \<in> set (info_chains (adapter_info (reg_adapter r))))"
proof -
  let ?ws = "windows_of (reg_availability r) c"
  obtain a where a: "a \<in> set adapters" "reg_adapter r = a"
      "reg_availability r = table_of table (info_id (adapter_info a))"
    using assms by (auto simp: registerAdapters_ok registrations_of_def)
  then have ok: "registration_ok table a" using assms by (auto simp: registerAdapters_ok)
  show ?thesis
  proof (cases "c \<in> set (info_chains (adapter_info a))")
    case True
    then have "windows_ok ?ws" using ok a by (auto simp: registration_ok_def Let_def)
    then have "x = y" if "x < length ?ws" "window_ActiveAt (?ws ! x) b"
        "y < length ?ws" "window_ActiveAt (?ws ! y) b" for x y
      using that windows_ok_at_most_one by (metis linorder_neqE_nat)
    then show ?thesis using True a by (auto intro!: card_le_Suc0_iff_eq [THEN iffD2] simp: card_le_Suc0_iff_eq)
  next
    case False
    then have "?ws = []" using ok a by (intro windows_of_absent) (auto simp: registration_ok_def Let_def)
    then show ?thesis by (simp add: registered_ActiveAt_def)
  qed
qed

text \<open>The chains a deployment map claims are its keys, in the canonical order of the engine;
  the constructor panics exactly when the map names a chain the engine does not support.\<close>

lemma deploymentChains_canonical:
  assumes "distinct (map fst deployments)"
  shows "deploymentChains deployments = (if fst ` set deployments \<subseteq> set SupportedChainIDs
     then Some (filter (\<lambda>c. c \<in> fst ` set deployments) SupportedChainIDs) else None)"
proof -
  let ?keys = "fst ` set deployments"
  let ?f = "filter (\<lambda>c. c \<in> ?keys) SupportedChainIDs"
  have "distinct ?f" using SupportedChainIDs_distinct by simp
  then have "length ?f = card (?keys \<inter> set SupportedChainIDs)"
    by (simp add: distinct_card [symmetric] Int_def conj_commute)
  moreover have "length deployments = card ?keys"
    using assms by (metis distinct_card length_map list.set_map)
  ultimately have "length ?f = length deployments \<longleftrightarrow> ?keys \<subseteq> set SupportedChainIDs"
    using card_subset_eq [of ?keys "?keys \<inter> set SupportedChainIDs"] by (auto simp: inf.absorb1)
  then show ?thesis by (simp add: deploymentChains_def Let_def map_of_eq_None_iff)
qed

end
