(* ===== verification/Availability.thy ===== *)
theory Availability
  imports Registry
begin

text \<open>
  \<open>protocol_availability.go\<close>: the table of the blocks from which each protocol runs on each chain,
  in the file's order, in two halves. A window whose constructor panics would stop the package's
  initialisation: \<open>initialized\<close> is \<open>None\<close> then.
\<close>

type_synonym raw_table = "(string \<times> (chain_id \<times> availabilityWindow option list) list) list"

text \<open>\<open>staderPolygonDeployment.tokenActivationBlock\<close> of \<open>stader.go\<close>\<close>

definition staderPolygonTokenActivationBlock :: u64 where
  "staderPolygonTokenActivationBlock = 27403468"

definition availabilityTable1 :: raw_table where
  "availabilityTable1 = [
     (''aave-v3'', [
        (Ethereum, [availableFrom 16291078]), (BSC, [availableFrom 46367909]),
        (Base, [availableFrom 25954709]), (Arbitrum, [availableFrom 302650382]),
        (Polygon, [availableFrom 25826028]), (Monad, [availableFrom 81909763]),
        (Plasma, [availableFrom 489197]), (Avalanche, [availableFrom 11970506]),
        (Optimism, [availableFrom 4365693])]),
     (''aave-v2'', [
        (Ethereum, [availableFrom 10927018]), (Polygon, [availableFrom 12687302]),
        (Avalanche, [availableFrom 4607174])]),
     (''spark'', [
        (Ethereum, [availableFrom 16776391]), (Base, [availableFrom 27123520]),
        (Arbitrum, [availableFrom 311940473]), (Avalanche, [availableFrom 69983672]),
        (Optimism, [availableFrom 136322256])]),
     (''kinza'', [
        (BSC, [availableFrom 29232063])]),
     (''seamless'', [
        (Base, [availableFrom 3318562])]),
     (''compound-v2'', [
        (Ethereum, [availableFrom 10271924])]),
     (''moonwell'', [
        (Base, [availableFrom 2162402]), (Optimism, [availableFrom 122531304])]),
     (''flux-finance'', [
        (Ethereum, [availableFrom 16520940])]),
     (''sonne'', [
        (Base, [availableFrom 2492954]), (Optimism, [availableFrom 25840175])]),
     (''lodestar'', [
        (Arbitrum, [availableFrom 111013008])]),
     (''venus'', [
        (Ethereum, [availableFrom 18890246]), (BSC, [availableFrom 2471694]),
        (Base, [availableFrom 23341263]), (Arbitrum, [availableFrom 215551349]),
        (Optimism, [availableFrom 126048098])]),
     (''compound-v3'', [
        (Ethereum, [availableFrom 15331586]), (Base, [availableFrom 2197588]),
        (Arbitrum, [availableFrom 87335214]), (Polygon, [availableFrom 39412367]),
        (Optimism, [availableFrom 118406276])]),
     (''fluid-lite'', [
        (Ethereum, [availableFrom 16609585])]),
     (''cap'', [
        (Ethereum, [availableFrom 22874057])]),
     (''ethena'', [
        (Ethereum, [availableFrom 18571359])]),
     (''usdd'', [
        (Ethereum, [availableFrom 23275147]), (BSC, [availableFrom 63887220])]),
     (''unitas'', [
        (BSC, [availableFrom 69059010])]),
     (''liquid-collective'', [
        (Ethereum, [availableFrom 15676402])]),
     (''lido'', [
        (Ethereum, [availableFrom 11473216])]),
     (''meth-protocol'', [
        (Ethereum, [availableFrom 18290599])]),
     (''etherfi'', [
        (Ethereum, [availableFrom 17664324]), (BSC, [availableFrom 38098558]),
        (Base, [availableFrom 13524685]), (Arbitrum, [availableFrom 156547814]),
        (Optimism, [availableFrom 120917167])]),
     (''frax-ether'', [
        (Ethereum, [availableFrom 15686046])]),
     (''renzo'', [
        (Ethereum, [availableFrom 18722779]), (BSC, [availableFrom 36596546]),
        (Base, [availableFrom 12682160]), (Arbitrum, [availableFrom 185410162])]),
     (''aster'', [
        (BSC, [availableFrom 43713424])]),
     (''fxprotocol'', [
        (Ethereum, [availableFrom 17818955])]),
     (''rocketpool'', [
        (Ethereum, [availableFrom 13325532])]),
     (''stader'', [
        (Ethereum, [availableFrom 17416153]), (BSC, [availableFrom 19907065]),
        (Polygon, [availableFrom staderPolygonTokenActivationBlock])]),
     (''olympus'', [
        (Ethereum, [availableFrom 13803969])]),
     (''fraxlend'', [
        (Ethereum, [availableFrom 15993000])]),
     (''aave-v4'', [
        (Ethereum, [availableFrom 24720887]), (Avalanche, [availableFrom 89721368])])]"

definition availabilityTable2 :: raw_table where
  "availabilityTable2 = [
     (''makerdao'', [
        (Ethereum, [availableFrom 10091068])]),
     (''sky'', [
        (Ethereum, [availableFrom 20677434])]),
     (''maple'', [
        (Ethereum, [availableFrom 16162315])]),
     (''liquity-v1'', [
        (Ethereum, [availableFrom 12178557])]),
     (''crvusd'', [
        (Ethereum, [availableFrom 17257955])]),
     (''curve-lending'', [
        (Ethereum, [availableFrom 19422660]), (Arbitrum, [availableFrom 193652535]),
        (Optimism, [availableFrom 125072267])]),
     (''vesper'', [
        (Ethereum, [availableFrom 11407993]), (Base, [availableFrom 15153629]),
        (Avalanche, [availableFrom 9452892]), (Optimism, [availableFrom 75560596])]),
     (''yearn-v3'', [
        (Ethereum, [availableFrom 18817046]), (Base, [availableFrom 17834110]),
        (Arbitrum, [availableFrom 173129408]), (Polygon, [availableFrom 48951031])]),
     (''beefy'', [
        (Ethereum, [availableFrom 15982782]), (BSC, [availableFrom 1174856]),
        (Base, [availableFrom 2572135]), (Arbitrum, [availableFrom 3005534]),
        (Polygon, [availableFrom 14272076]), (Monad, [availableFrom 38165449]),
        (Plasma, [availableFrom 2013105]), (Avalanche, [availableFrom 3052900]),
        (Optimism, [availableFrom 17722021])]),
     (''stakewise'', [
        (Ethereum, [availableFrom 18470152])]),
     (''lista'', [
        (Ethereum, [availableFrom 23445769]), (BSC, [availableFrom 20324823])]),
     (''euler-v2'', [
        (Ethereum, [availableFrom 20529207]), (BSC, [availableFrom 46370645]),
        (Base, [availableFrom 22282353]), (Arbitrum, [availableFrom 300690886]),
        (Polygon, [availableFrom 86932963]), (Monad, [availableFrom 30858592]),
        (Plasma, [availableFrom 511021]), (Avalanche, [availableFrom 56805710])]),
     (''morpho-blue'', [
        (Ethereum, [availableFrom 18883124]), (BSC, [availableFrom 54344680]),
        (Base, [availableFrom 13977148]), (Arbitrum, [availableFrom 296446593]),
        (Polygon, [availableFrom 66931042]), (Monad, [availableFrom 31907457]),
        (Plasma, [availableFrom 2919883]), (Avalanche, [availableFrom 75313888]),
        (Optimism, [availableFrom 130770075])]),
     (''pendle'', [
        (Ethereum, [availableFrom 16032048]), (BSC, [availableFrom 29484198]),
        (Base, [availableFrom 22350319]), (Arbitrum, [availableFrom 62977844]),
        (Monad, [availableFrom 75580673]), (Plasma, [availableFrom 1887231]),
        (Optimism, [availableFrom 108061318])]),
     (''fluid'', [
        (Ethereum, [availableFrom 19245687]), (BSC, [availableFrom 71737128]),
        (Base, [availableFrom 38678564]), (Arbitrum, [availableFrom 228709698]),
        (Polygon, [availableFrom 79090648]), (Plasma, [availableFrom 8682622])]),
     (''uniswap-v3'', [
        (Ethereum, [availableFrom 12369651]), (BSC, [availableFrom 26324045]),
        (Base, [availableFrom 1371714]), (Arbitrum, [availableFrom 173]),
        (Polygon, [availableFrom 22760586]), (Monad, [availableFrom 29255879]),
        (Plasma, [availableFrom 430178]), (Avalanche, [availableFrom 27833025]),
        (Optimism, [Some availableFromGenesis])]),
     (''uniswap-v4'', [
        (Ethereum, [availableFrom 21689089]), (BSC, [availableFrom 45970613]),
        (Base, [availableFrom 25350993]), (Arbitrum, [availableFrom 297842893]),
        (Polygon, [availableFrom 66980399]), (Monad, [availableFrom 29255924]),
        (Avalanche, [availableFrom 56195389]), (Optimism, [availableFrom 130947685])]),
     (''wallet'', [
        (Ethereum, [Some availableFromGenesis]), (BSC, [Some availableFromGenesis]),
        (Base, [Some availableFromGenesis]), (Arbitrum, [Some availableFromGenesis]),
        (Polygon, [Some availableFromGenesis]), (Monad, [Some availableFromGenesis]),
        (Plasma, [Some availableFromGenesis]), (Avalanche, [Some availableFromGenesis]),
        (Optimism, [Some availableFromGenesis]), (HyperEVM, [Some availableFromGenesis]),
        (Robinhood, [Some availableFromGenesis])])]"

primrec initialized_windows :: "availabilityWindow option list \<Rightarrow> availabilityWindow list option" where
  "initialized_windows [] = Some []"
| "initialized_windows (w # ws) = (case w of None \<Rightarrow> None | Some v \<Rightarrow>
     map_option (\<lambda>vs. v # vs) (initialized_windows ws))"

primrec initialized_chains :: "(chain_id \<times> availabilityWindow option list) list \<Rightarrow> chain_availability option" where
  "initialized_chains [] = Some []"
| "initialized_chains (c # cs) = (case initialized_windows (snd c) of None \<Rightarrow> None | Some ws \<Rightarrow>
     map_option (\<lambda>rest. (fst c, ws) # rest) (initialized_chains cs))"

primrec initialized :: "raw_table \<Rightarrow> availability_table option" where
  "initialized [] = Some []"
| "initialized (p # ps) = (case initialized_chains (snd p) of None \<Rightarrow> None | Some av \<Rightarrow>
     map_option (\<lambda>rest. (fst p, av) # rest) (initialized ps))"

definition protocolAvailabilityByID :: "availability_table option" where
  "protocolAvailabilityByID = initialized (availabilityTable1 @ availabilityTable2)"

section \<open>The table registers\<close>

definition chain_rows_ok :: "chain_availability \<Rightarrow> bool" where
  "chain_rows_ok av \<longleftrightarrow> distinct (map fst av) \<and> list_all (\<lambda>r. windows_ok (snd r)) av
     \<and> list_all (\<lambda>r. fst r \<in> set SupportedChainIDs) av"

definition table_ok :: "availability_table \<Rightarrow> bool" where
  "table_ok t \<longleftrightarrow> distinct (map fst t) \<and> list_all (\<lambda>r. chain_rows_ok (snd r)) t"

lemma table_initialized_ok:
  "case protocolAvailabilityByID of None \<Rightarrow> False | Some t \<Rightarrow> table_ok t"
  by code_simp

lemma table_initialized: "\<exists>table. protocolAvailabilityByID = Some table \<and> table_ok table"
  using table_initialized_ok by (auto split: option.splits)

text \<open>An adapter that advertises the chains of its row, each once.\<close>

definition advertises :: "availability_table \<Rightarrow> adapter \<Rightarrow> bool" where
  "advertises table a \<longleftrightarrow> distinct (info_chains (adapter_info a))
     \<and> set (info_chains (adapter_info a)) = fst ` set (table_of table (info_id (adapter_info a)))"

lemma table_ok_registration:
  assumes "table_ok table" and "advertises table a" and "info_id (adapter_info a) \<in> fst ` set table"
  shows "registration_ok table a"
proof -
  let ?id = "info_id (adapter_info a)"
  obtain av where av: "map_of table ?id = Some av"
    using assms(3) by (metis map_of_eq_None_iff not_None_eq)
  then have rows: "chain_rows_ok av"
    using assms(1) by (auto simp: table_ok_def list_all_iff dest: map_of_SomeD)
  have "windows_ok (windows_of av c)" if "c \<in> fst ` set av" for c
  proof -
    obtain ws where "map_of av c = Some ws" using \<open>c \<in> fst ` set av\<close> by (metis map_of_eq_None_iff not_None_eq)
    then show ?thesis using rows
      by (auto simp: windows_of_def chain_rows_ok_def list_all_iff dest: map_of_SomeD)
  qed
  then show ?thesis using assms(2) av by (simp add: registration_ok_def Let_def advertises_def table_of_def)
qed

text \<open>The table initialises without a panic, names only chains the engine supports, and any
  adapter list whose identities are the table's, each once, and whose chains are its row's, each
  once, registers whole: the table itself can never make start-up fail.\<close>

lemma availability_table_registers:
  "case protocolAvailabilityByID of None \<Rightarrow> False | Some table \<Rightarrow>
     (\<forall>row \<in> set table. fst ` set (snd row) \<subseteq> set SupportedChainIDs)
     \<and> (\<forall>adapters. distinct (map (info_id \<circ> adapter_info) adapters)
          \<longrightarrow> (info_id \<circ> adapter_info) ` set adapters = fst ` set table
          \<longrightarrow> list_all (advertises table) adapters
          \<longrightarrow> registerAdapters adapters table = Inr (registrations_of table adapters))"
proof -
  obtain table where t: "protocolAvailabilityByID = Some table" "table_ok table"
    using table_initialized by blast
  have "registerAdapters adapters table = Inr (registrations_of table adapters)"
    if "distinct (map (info_id \<circ> adapter_info) adapters)"
      "(info_id \<circ> adapter_info) ` set adapters = fst ` set table"
      "list_all (advertises table) adapters" for adapters
  proof -
    have "registration_ok table a" if "a \<in> set adapters" for a
    proof (rule table_ok_registration [OF t(2)])
      show "advertises table a" using \<open>list_all _ _\<close> that by (simp add: list_all_iff)
      show "info_id (adapter_info a) \<in> fst ` set table"
        using \<open>_ = fst ` set table\<close> that by (metis comp_apply imageI)
    qed
    then show ?thesis using that by (simp add: registerAdapters_ok)
  qed
  moreover have "\<forall>row \<in> set table. fst ` set (snd row) \<subseteq> set SupportedChainIDs"
    using t(2) by (auto simp: table_ok_def chain_rows_ok_def list_all_iff)
  ultimately show ?thesis unfolding t(1) option.case by blast
qed

end
