(* ===== verification/Abi.thy ===== *)
theory Abi
  imports Types
begin

text \<open>
  \<open>abi.go\<close>: the typed reads of a decoded contract result. A decoded \<open>[]any\<close> is a list of
  \<open>abi_value\<close>s, one constructor per Go type the readers test for and one for any other; a nil
  \<open>*big.Int\<close> is \<open>None\<close>. Go's \<open>int\<close> index may be negative.
\<close>

datatype abi_value = AbiInt "int option" | AbiInts "int option list" | AbiAddress address
  | AbiAddresses "address list" | AbiBytes32 hash | AbiBool bool | AbiString string | AbiU8 u8
  | AbiU64 u64 | AbiOther string

datatype abi_error = MissingResult int | WrongType int | NilItem int nat

definition value_at :: "abi_value list \<Rightarrow> int \<Rightarrow> abi_error + abi_value" where
  "value_at vs index = (if index < 0 \<or> index \<ge> int (length vs) then Inl (MissingResult index)
     else Inr (vs ! nat index))"

definition BigIntAt :: "abi_value list \<Rightarrow> int \<Rightarrow> abi_error + int" where
  "BigIntAt vs index = bindR (value_at vs index)
     (\<lambda>v. case v of AbiInt (Some i) \<Rightarrow> Inr i | _ \<Rightarrow> Inl (WrongType index))"

fun big_items :: "int \<Rightarrow> nat \<Rightarrow> int option list \<Rightarrow> abi_error + int list" where
  "big_items index itemIndex [] = Inr []"
| "big_items index itemIndex (None # items) = Inl (NilItem index itemIndex)"
| "big_items index itemIndex (Some i # items) =
     bindR (big_items index (Suc itemIndex) items) (\<lambda>is. Inr (i # is))"

definition BigIntSliceAt :: "abi_value list \<Rightarrow> int \<Rightarrow> abi_error + int list" where
  "BigIntSliceAt vs index = bindR (value_at vs index)
     (\<lambda>v. case v of AbiInts items \<Rightarrow> big_items index 0 items | _ \<Rightarrow> Inl (WrongType index))"

definition AddressAt :: "abi_value list \<Rightarrow> int \<Rightarrow> abi_error + address" where
  "AddressAt vs index = bindR (value_at vs index)
     (\<lambda>v. case v of AbiAddress a \<Rightarrow> Inr a | _ \<Rightarrow> Inl (WrongType index))"

definition AddressSliceAt :: "abi_value list \<Rightarrow> int \<Rightarrow> abi_error + address list" where
  "AddressSliceAt vs index = bindR (value_at vs index)
     (\<lambda>v. case v of AbiAddresses as \<Rightarrow> Inr as | _ \<Rightarrow> Inl (WrongType index))"

definition Bytes32At :: "abi_value list \<Rightarrow> int \<Rightarrow> abi_error + hash" where
  "Bytes32At vs index = bindR (value_at vs index)
     (\<lambda>v. case v of AbiBytes32 h \<Rightarrow> Inr h | _ \<Rightarrow> Inl (WrongType index))"

definition BoolAt :: "abi_value list \<Rightarrow> int \<Rightarrow> abi_error + bool" where
  "BoolAt vs index = bindR (value_at vs index)
     (\<lambda>v. case v of AbiBool b \<Rightarrow> Inr b | _ \<Rightarrow> Inl (WrongType index))"

definition StringAt :: "abi_value list \<Rightarrow> int \<Rightarrow> abi_error + string" where
  "StringAt vs index = bindR (value_at vs index)
     (\<lambda>v. case v of AbiString s \<Rightarrow> Inr s | _ \<Rightarrow> Inl (WrongType index))"

definition Uint8At :: "abi_value list \<Rightarrow> int \<Rightarrow> abi_error + u8" where
  "Uint8At vs index = bindR (value_at vs index)
     (\<lambda>v. case v of AbiU8 w \<Rightarrow> Inr w | _ \<Rightarrow> Inl (WrongType index))"

definition Uint64At :: "abi_value list \<Rightarrow> int \<Rightarrow> abi_error + u64" where
  "Uint64At vs index = bindR (value_at vs index)
     (\<lambda>v. case v of AbiU64 w \<Rightarrow> Inr w | _ \<Rightarrow> Inl (WrongType index))"

text \<open>The 32 bytes of a word, most significant first, and \<open>bytes.TrimRight\<close> of its NUL bytes.\<close>

primrec big_endian :: "nat \<Rightarrow> nat \<Rightarrow> string" where
  "big_endian 0 n = []"
| "big_endian (Suc k) n = big_endian k (n div 256) @ [char_of (n mod 256)]"

definition trim_nul :: "string \<Rightarrow> string" where
  "trim_nul s = rev (dropWhile (\<lambda>c. (of_char c :: nat) = 0) (rev s))"

definition Bytes32StringAt :: "abi_value list \<Rightarrow> int \<Rightarrow> abi_error + string" where
  "Bytes32StringAt vs index = bindR (value_at vs index)
     (\<lambda>v. case v of AbiBytes32 h \<Rightarrow> Inr (trim_nul (big_endian 32 (unat h))) | _ \<Rightarrow> Inl (WrongType index))"

section \<open>Contract calls\<close>

text \<open>
  \<open>ContractCall\<close> of \<open>rpc.go\<close>, its ABI identified by the method it names. A client's answers are
  parameters of what calls it: \<open>call\<close> for \<open>RPCClient.Call\<close> and \<open>calls\<close> for \<open>ParallelCalls\<close>.
\<close>

record contract_call =
  call_contract :: address
  call_from :: address
  call_method :: string
  call_args :: "abi_value list"

text \<open>A call with no \<open>From\<close>.\<close>

definition view_call :: "address \<Rightarrow> string \<Rightarrow> abi_value list \<Rightarrow> contract_call" where
  "view_call contract meth args = \<lparr>call_contract = contract, call_from = 0, call_method = meth, call_args = args\<rparr>"

type_synonym 'e call_fn = "address \<Rightarrow> string \<Rightarrow> abi_value list \<Rightarrow> 'e + abi_value list"
type_synonym 'e calls_fn = "contract_call list \<Rightarrow> 'e + abi_value list list"

text \<open>A Go index: out of range panics.\<close>

definition index_or_panic :: "'a list \<Rightarrow> nat \<Rightarrow> ('e, 'a) go" where
  "index_or_panic xs i = (if i < length xs then Inr (xs ! i) else Inl Panic)"

lemma index_or_panic_Inr [result_simps]: "index_or_panic xs i = Inr x \<longleftrightarrow> i < length xs \<and> x = xs ! i"
  by (auto simp: index_or_panic_def)

text \<open>Lift an error of one component into the error type of its caller.\<close>

definition liftE :: "('x \<Rightarrow> 'y) \<Rightarrow> 'x + 'a \<Rightarrow> ('y, 'a) go" where
  "liftE f m = (case m of Inl e \<Rightarrow> Inl (Fail (f e)) | Inr a \<Rightarrow> Inr a)"

lemma liftE_simps [simp, result_simps]:
  "liftE f (Inl e) = Inl (Fail (f e))"
  "liftE f (Inr a) = Inr a"
  by (simp_all add: liftE_def)

lemma liftE_Inr [result_simps]: "liftE f m = Inr a \<longleftrightarrow> m = Inr a"
  by (cases m) auto

end
