(* ===== verification/Accounts.thy ===== *)
theory Accounts
  imports Abi Registry
begin

text \<open>
  \<open>accounts.go\<close>: the accounts a wallet answers for. On Ethereum, from the block Instadapp's list
  contract exists, they are the wallet and the accounts of a doubly linked list the contract keeps;
  the traversal is bounded by the declared count and checks every edge of the list.
\<close>

definition instadappList :: address where
  "instadappList = 0x4c8a1BEb8a87765788946D6B19C6C6355194AbEb"

definition instadappListDeployment :: deploymentWindow where
  "instadappListDeployment = \<lparr>ActivationBlock = 9747258, DeactivationBlock = 0\<rparr>"

record attributedAccount =
  att_address :: address
  att_attribution :: string
  att_source :: string

datatype account_error = EnumerateFailed go_error
  | CallFailed go_error
  | BadResult abi_error
  | CountExceedsBound u64
  | EmptyListWithEndpoints
  | NonEmptyListWithoutEndpoint
  | EndedEarly
  | ListCycle
  | InconsistentPrevious
  | ZeroAccount
  | DuplicateAccount
  | TailMismatch

definition direct_account :: "address \<Rightarrow> attributedAccount" where
  "direct_account owner = \<lparr>att_address = owner, att_attribution = ''wallet'', att_source = ''direct''\<rparr>"

definition dsa_account :: "address \<Rightarrow> attributedAccount" where
  "dsa_account a = \<lparr>att_address = a, att_attribution = ''instadapp-dsa'', att_source = ''instadapp-list''\<rparr>"

text \<open>One account of the list: its address and its previous and next edges.\<close>

definition account_row :: "go_error calls_fn \<Rightarrow> address \<Rightarrow> u64 \<Rightarrow> (account_error, address \<times> u64 \<times> u64) go" where
  "account_row calls owner current =
     bindR (liftE CallFailed (calls
       [view_call instadappList ''accountAddr'' [AbiU64 current],
        view_call instadappList ''userList'' [AbiAddress owner, AbiU64 current]])) (\<lambda>rows.
     bindR (index_or_panic rows 0) (\<lambda>row0.
     bindR (liftE BadResult (AddressAt row0 0)) (\<lambda>address.
     bindR (index_or_panic rows 1) (\<lambda>row1.
     bindR (liftE BadResult (Uint64At row1 0)) (\<lambda>edgePrevious.
     bindR (liftE BadResult (Uint64At row1 1)) (\<lambda>edgeNext.
     Inr (address, edgePrevious, edgeNext)))))))"

text \<open>The loop of \<open>count\<close> steps: seen identities and addresses, the result so far, the two cursors.\<close>

fun account_loop :: "(u64 \<Rightarrow> (account_error, address \<times> u64 \<times> u64) go) \<Rightarrow> nat \<Rightarrow> u64 list \<Rightarrow> address list
    \<Rightarrow> attributedAccount list \<Rightarrow> u64 \<Rightarrow> u64 \<Rightarrow> (account_error, attributedAccount list \<times> u64 \<times> u64) go" where
  "account_loop row 0 seenIDs seenAddresses result previous current = Inr (result, previous, current)"
| "account_loop row (Suc n) seenIDs seenAddresses result previous current =
     (if current = 0 then Inl (Fail EndedEarly)
      else if current \<in> set seenIDs then Inl (Fail ListCycle)
      else bindR (row current) (\<lambda>(address, edgePrevious, edgeNext).
        if edgePrevious \<noteq> previous then Inl (Fail InconsistentPrevious)
        else if address = 0 then Inl (Fail ZeroAccount)
        else if address \<in> set seenAddresses then Inl (Fail DuplicateAccount)
        else account_loop row n (current # seenIDs) (address # seenAddresses)
          (result @ [dsa_account address]) current edgeNext))"

definition resolveAccountScope ::
  "go_error call_fn \<Rightarrow> go_error calls_fn \<Rightarrow> block_ref \<Rightarrow> address \<Rightarrow> (account_error, attributedAccount list) go" where
  "resolveAccountScope call calls block owner = (let direct = direct_account owner in
     if block_chain block \<noteq> Ethereum
         \<or> \<not> deployment_ActiveAt instadappListDeployment (block_number block) then Inr [direct]
     else bindR (liftE EnumerateFailed (call instadappList ''userLink'' [AbiAddress owner])) (\<lambda>header.
       bindR (liftE BadResult (Uint64At header 0)) (\<lambda>first.
       bindR (liftE BadResult (Uint64At header 1)) (\<lambda>last.
       bindR (liftE BadResult (Uint64At header 2)) (\<lambda>count.
       if count > 256 then Inl (Fail (CountExceedsBound count))
       else if count = 0 then
         (if first \<noteq> 0 \<or> last \<noteq> 0 then Inl (Fail EmptyListWithEndpoints) else Inr [direct])
       else if first = 0 \<or> last = 0 then Inl (Fail NonEmptyListWithoutEndpoint)
       else bindR (account_loop (account_row calls owner) (unat count) [] [owner] [direct] 0 first)
         (\<lambda>(result, previous, current).
           if previous \<noteq> last \<or> current \<noteq> 0 then Inl (Fail TailMismatch) else Inr result))))))"

section \<open>The linked list\<close>

text \<open>
  \<open>linked row p c ids addresses p' c'\<close>: from the previous cursor \<open>p\<close> and the current cursor \<open>c\<close>
  the contract's edges lead through \<open>ids\<close>, whose accounts are \<open>addresses\<close>, to \<open>p'\<close> and \<open>c'\<close>.
\<close>

fun linked :: "(u64 \<Rightarrow> (account_error, address \<times> u64 \<times> u64) go) \<Rightarrow> u64 \<Rightarrow> u64 \<Rightarrow> u64 list
    \<Rightarrow> address list \<Rightarrow> u64 \<Rightarrow> u64 \<Rightarrow> bool" where
  "linked row p c [] [] p' c' \<longleftrightarrow> p' = p \<and> c' = c"
| "linked row p c (i # ids) (a # as) p' c' \<longleftrightarrow>
     c = i \<and> (case row i of Inl _ \<Rightarrow> False
       | Inr (b, prev, nxt) \<Rightarrow> b = a \<and> prev = p \<and> linked row i nxt ids as p' c')"
| "linked row p c _ _ p' c' \<longleftrightarrow> False"

lemma linked_length: "linked row p c ids as p' c' \<Longrightarrow> length as = length ids"
  by (induction row p c ids as p' c' rule: linked.induct) (auto split: sum.splits)

definition fresh_walk :: "u64 list \<Rightarrow> address list \<Rightarrow> u64 list \<Rightarrow> address list \<Rightarrow> bool" where
  "fresh_walk seenIDs seenAddresses ids as \<longleftrightarrow>
     distinct ids \<and> 0 \<notin> set ids \<and> set ids \<inter> set seenIDs = {}
     \<and> distinct as \<and> 0 \<notin> set as \<and> set as \<inter> set seenAddresses = {}"

lemma fresh_walk_Cons:
  "fresh_walk sids sas (i # ids) (a # as) \<longleftrightarrow>
     i \<noteq> 0 \<and> i \<notin> set sids \<and> a \<noteq> 0 \<and> a \<notin> set sas \<and> fresh_walk (i # sids) (a # sas) ids as"
  by (auto simp: fresh_walk_def)

lemma account_loop_sound:
  "account_loop row n sids sas result p c = Inr (res, p', c') \<Longrightarrow>
     \<exists>ids as. length ids = n \<and> linked row p c ids as p' c' \<and> fresh_walk sids sas ids as
       \<and> res = result @ map dsa_account as"
proof (induction row n sids sas result p c rule: account_loop.induct)
  case (1 row sids sas result p c)
  then show ?case by (intro exI [of _ "[]"]) (simp add: fresh_walk_def)
next
  case (2 row n sids sas result p c)
  then obtain a nxt where row: "c \<noteq> 0" "c \<notin> set sids" "row c = Inr (a, p, nxt)" "a \<noteq> 0" "a \<notin> set sas"
      and rest: "account_loop row n (c # sids) (a # sas) (result @ [dsa_account a]) c nxt = Inr (res, p', c')"
    by (auto simp: bindR_Inr_iff split: if_splits)
  from 2(1) [OF row(1,2) row(3) refl refl _ row(4,5) rest] obtain ids as where
      "length ids = n" "linked row c nxt ids as p' c'" "fresh_walk (c # sids) (a # sas) ids as"
      "res = (result @ [dsa_account a]) @ map dsa_account as" by auto
  then show ?case using row
    by (intro exI [of _ "c # ids"] exI [of _ "a # as"]) (simp add: fresh_walk_Cons)
qed

lemma account_loop_complete:
  "linked row p c ids as p' c' \<Longrightarrow> fresh_walk sids sas ids as \<Longrightarrow>
     account_loop row (length ids) sids sas result p c = Inr (result @ map dsa_account as, p', c')"
  by (induction row p c ids as p' c' arbitrary: sids sas result rule: linked.induct)
    (auto simp: fresh_walk_Cons split: sum.splits prod.splits)

text \<open>The list the contract declares: its header and the walk its edges make from end to end.\<close>

definition declared_list :: "go_error call_fn \<Rightarrow> go_error calls_fn \<Rightarrow> address \<Rightarrow> address list \<Rightarrow> bool" where
  "declared_list call calls owner as \<longleftrightarrow> (\<exists>header first last ids.
     call instadappList ''userLink'' [AbiAddress owner] = Inr header
     \<and> Uint64At header 0 = Inr first \<and> Uint64At header 1 = Inr last
     \<and> Uint64At header 2 = Inr (of_nat (length ids)) \<and> length ids \<le> 256
     \<and> (if ids = [] then first = 0 else first \<noteq> 0) \<and> (if ids = [] then last = 0 else last \<noteq> 0)
     \<and> linked (account_row calls owner) 0 first ids as last 0
     \<and> fresh_walk [] [owner] ids as)"

definition list_deployed :: "block_ref \<Rightarrow> bool" where
  "list_deployed block \<longleftrightarrow> block_chain block = Ethereum \<and> 9747258 \<le> block_number block"

lemma list_deployed_iff:
  "list_deployed block \<longleftrightarrow> \<not> (block_chain block \<noteq> Ethereum
     \<or> \<not> deployment_ActiveAt instadappListDeployment (block_number block))"
  by (auto simp: list_deployed_def deployment_ActiveAt_def instadappListDeployment_def)

lemma unat_count: "(n :: u64) \<le> 256 \<Longrightarrow> unat n \<le> 256"
  by (simp add: word_le_nat_alt)

lemma unat_of_length: "k \<le> 256 \<Longrightarrow> unat (of_nat k :: u64) = k"
  by (simp add: unat_of_nat)

lemma of_length_bound: "k \<le> 256 \<Longrightarrow> (of_nat k :: u64) \<le> 256"
  by (simp add: word_le_nat_alt unat_of_length)

lemma of_length_zero: "k \<le> 256 \<Longrightarrow> (of_nat k :: u64) = 0 \<longleftrightarrow> k = 0"
  using unat_of_length [of k] unat_eq_0 [of "of_nat k :: u64"] by linarith

lemma resolve_sound:
  assumes "list_deployed block" and "resolveAccountScope call calls block owner = Inr accounts"
  shows "\<exists>as. declared_list call calls owner as \<and> accounts = direct_account owner # map dsa_account as"
proof -
  obtain header first last n where header: "call instadappList ''userLink'' [AbiAddress owner] = Inr header"
      "Uint64At header 0 = Inr first" "Uint64At header 1 = Inr last" "Uint64At header 2 = Inr n"
    and n: "n \<le> 256" and rest: "(if n = 0 then (if first \<noteq> 0 \<or> last \<noteq> 0 then Inl (Fail EmptyListWithEndpoints)
         else Inr [direct_account owner])
       else if first = 0 \<or> last = 0 then Inl (Fail NonEmptyListWithoutEndpoint)
       else bindR (account_loop (account_row calls owner) (unat n) [] [owner] [direct_account owner] 0 first)
         (\<lambda>(result, previous, current).
           if previous \<noteq> last \<or> current \<noteq> 0 then Inl (Fail TailMismatch) else Inr result)) = Inr accounts"
    using assms unfolding resolveAccountScope_def Let_def list_deployed_iff
    by (auto simp: bindR_Inr_iff liftE_Inr not_less split: if_split_asm)
  show ?thesis
  proof (cases "n = 0")
    case True
    then have "declared_list call calls owner []" "accounts = [direct_account owner]"
      using header rest by (auto simp: declared_list_def fresh_walk_def split: if_splits)
    then show ?thesis by (intro exI [of _ "[]"]) simp
  next
    case False
    then have ends: "first \<noteq> 0" "last \<noteq> 0"
      and loop: "account_loop (account_row calls owner) (unat n) [] [owner] [direct_account owner] 0 first
        = Inr (accounts, last, 0)"
      using rest by (auto simp: bindR_Inr_iff split: if_splits)
    from account_loop_sound [OF loop] obtain ids as where walk: "length ids = unat n"
        "linked (account_row calls owner) 0 first ids as last 0" "fresh_walk [] [owner] ids as"
        "accounts = [direct_account owner] @ map dsa_account as" by blast
    have "ids \<noteq> []" using walk(1) False by (auto simp: unat_eq_0)
    then have "declared_list call calls owner as"
      using header ends walk(1-3) unat_count [OF n]
      by (auto simp: declared_list_def intro!: exI [of _ ids])
    then show ?thesis using walk(4) by auto
  qed
qed

lemma resolve_complete:
  assumes "list_deployed block" and "declared_list call calls owner as"
  shows "resolveAccountScope call calls block owner = Inr (direct_account owner # map dsa_account as)"
proof -
  from assms(2) obtain header first last ids where d:
      "call instadappList ''userLink'' [AbiAddress owner] = Inr header"
      "Uint64At header 0 = Inr first" "Uint64At header 1 = Inr last"
      "Uint64At header 2 = Inr (of_nat (length ids))" "length ids \<le> 256"
      "if ids = [] then first = 0 else first \<noteq> 0" "if ids = [] then last = 0 else last \<noteq> 0"
      "linked (account_row calls owner) 0 first ids as last 0" "fresh_walk [] [owner] ids as"
    unfolding declared_list_def by blast
  note bound = of_length_bound [OF d(5)] of_length_zero [OF d(5)] unat_of_length [OF d(5)]
  have loop: "account_loop (account_row calls owner) (length ids) [] [owner] [direct_account owner] 0 first
      = Inr ([direct_account owner] @ map dsa_account as, last, 0)"
    by (rule account_loop_complete [OF d(8,9)])
  have "as = []" if "ids = []" using linked_length [OF d(8)] that by simp
  then show ?thesis
    using assms(1) d(1-4,6,7) bound loop unfolding resolveAccountScope_def Let_def list_deployed_iff
    by (simp add: not_less)
qed

text \<open>C21: where the list contract is deployed, the accounts of a wallet are the wallet itself and
  then, in list order, the accounts of the list the contract declares, and resolution succeeds
  exactly when the contract's answers describe such a list: at most 256 non-zero distinct
  identities, doubly linked from the declared head to the declared tail, whose addresses are
  non-zero, distinct and not the wallet. Everywhere else they are the wallet alone.\<close>

theorem resolveAccountScope_exact:
  "resolveAccountScope call calls block owner = Inr accounts \<longleftrightarrow>
     (if list_deployed block
      then (\<exists>as. declared_list call calls owner as \<and> accounts = direct_account owner # map dsa_account as)
      else accounts = [direct_account owner])"
proof (cases "list_deployed block")
  case True
  then show ?thesis using resolve_sound resolve_complete by auto
next
  case False
  then show ?thesis unfolding resolveAccountScope_def Let_def list_deployed_iff by auto
qed

text \<open>No address is attributed twice and none but the wallet can be the wallet or the zero
  address, so no position is counted for two accounts of one scope.\<close>

lemma resolved_accounts_distinct:
  assumes "resolveAccountScope call calls block owner = Inr accounts"
  shows "distinct (map att_address accounts) \<and> hd accounts = direct_account owner
     \<and> length accounts \<le> 257 \<and> 0 \<notin> att_address ` set (tl accounts)"
proof (cases "list_deployed block")
  case True
  then obtain as where as: "declared_list call calls owner as"
      "accounts = direct_account owner # map dsa_account as" using resolve_sound assms by blast
  then obtain first last ids where "length ids \<le> 256" "fresh_walk [] [owner] ids as"
      "linked (account_row calls owner) 0 first ids as last 0" by (auto simp: declared_list_def)
  moreover have "map att_address (map dsa_account as) = as" by (simp add: dsa_account_def comp_def)
  ultimately show ?thesis using as(2) linked_length
    by (auto simp: fresh_walk_def direct_account_def dsa_account_def comp_def dest: linked_length)
next
  case False
  then have "accounts = [direct_account owner]"
    using assms unfolding resolveAccountScope_def Let_def list_deployed_iff by auto
  then show ?thesis by simp
qed

text \<open>A wallet with two list accounts, 7 and 9.\<close>

definition demo_block :: block_ref where
  "demo_block = \<lparr>block_chain = Ethereum, block_number = 20000000, block_hash = 0, block_timestamp = 0,
     block_fixed = False\<rparr>"

definition demo_call :: "go_error call_fn" where
  "demo_call contract meth args = Inr [AbiU64 7, AbiU64 9, AbiU64 2]"

definition demo_calls :: "go_error calls_fn" where
  "demo_calls cs = (if call_args (hd cs) = [AbiU64 7]
     then Inr [[AbiAddress 71], [AbiU64 0, AbiU64 9]] else Inr [[AbiAddress 91], [AbiU64 7, AbiU64 0]])"

lemma demo_accounts: "resolveAccountScope demo_call demo_calls demo_block 5
    = Inr [direct_account 5, dsa_account 71, dsa_account 91]"
  by code_simp

end
