(* ===== verification/Pricing.thy ===== *)
theory Pricing
  imports Types
begin

text \<open>
  \<open>pricing.go\<close>: the identity of assets, the key of a price, the provider calls a scan makes and
  what it keeps of their answers. A \<open>time.Time\<close> is the seconds since year 1 the time package keeps,
  a signed 64-bit count whose zero is the zero time; a live block is valued at the zero time. A
  price provider is a record of its two methods' answers.
\<close>

section \<open>Assets and keys\<close>

type_synonym asset_id = "chain_id \<times> address"

definition AssetForToken :: "token \<Rightarrow> asset_id" where
  "AssetForToken t = (tok_chain t, tok_address t)"

definition chainPriceNames :: "(chain_id \<times> string) list" where
  "chainPriceNames = [(Ethereum, ''ethereum''), (BSC, ''bsc''), (Base, ''base''), (Arbitrum, ''arbitrum''),
     (Polygon, ''polygon''), (Monad, ''monad''), (Plasma, ''plasma''), (Avalanche, ''avalanche''),
     (Optimism, ''optimism''), (HyperEVM, ''hyperevm''), (Robinhood, ''robinhood'')]"

definition chainPriceName :: "chain_id \<Rightarrow> string" where
  "chainPriceName c = (case map_of chainPriceNames c of Some n \<Rightarrow> n | None \<Rightarrow> [])"

definition PriceKey :: "(address \<Rightarrow> string) \<Rightarrow> token \<Rightarrow> string" where
  "PriceKey addr_hex t = chainPriceName (tok_chain t) @ '':'' @ ToLower (addr_hex (tok_address t))"

section \<open>Provider queries\<close>

type_synonym instant = u64

definition unixToInternal :: u64 where
  "unixToInternal = 62135596800"

definition valuationInstant :: "block_ref \<Rightarrow> instant" where
  "valuationInstant b = (if \<not> block_fixed b then 0 else block_timestamp b + unixToInternal)"

record priceQuery =
  query_at :: instant
  query_tokens :: "token list"

type_synonym buckets = "(instant \<times> token list) list"

text \<open>\<open>byInstant[at] = append(byInstant[at], token)\<close>\<close>

fun append_at :: "instant \<Rightarrow> token \<Rightarrow> buckets \<Rightarrow> buckets" where
  "append_at moment t [] = [(moment, [t])]"
| "append_at moment t ((i, ts) # bs) = (if i = moment then (i, ts @ [t]) # bs else (i, ts) # append_at moment t bs)"

text \<open>The body of the innermost loop: one component of a snapshot valued at \<open>moment\<close>.\<close>

definition collect_component ::
  "instant \<Rightarrow> asset_id list \<times> buckets \<Rightarrow> component \<Rightarrow> asset_id list \<times> buckets" where
  "collect_component moment state c = (case state of (seen, byInstant) \<Rightarrow>
     if comp_amount c = ''0'' then state
     else let t = priceToken c; asset = AssetForToken t in
       if asset \<in> set seen then state else (asset # seen, append_at moment t byInstant))"

definition collect_snapshot :: "asset_id list \<times> buckets \<Rightarrow> snapshot \<Rightarrow> asset_id list \<times> buckets" where
  "collect_snapshot state s = foldl (\<lambda>state g.
     foldl (collect_component (valuationInstant (snap_block s))) state (grp_components g)) state (snap_groups s)"

definition price_buckets :: "snapshot list \<Rightarrow> buckets" where
  "price_buckets snapshots = snd (foldl collect_snapshot ([], []) snapshots)"

text \<open>The two sorts: tokens by key, queries by instant (\<open>Before\<close> compares signed seconds).\<close>

definition bucket_query :: "(address \<Rightarrow> string) \<Rightarrow> instant \<times> token list \<Rightarrow> priceQuery" where
  "bucket_query addr_hex b = \<lparr>query_at = fst b, query_tokens = sort_key (PriceKey addr_hex) (snd b)\<rparr>"

definition bucket_queries :: "(address \<Rightarrow> string) \<Rightarrow> buckets \<Rightarrow> priceQuery list" where
  "bucket_queries addr_hex byInstant =
     sort_key (\<lambda>q. sint (query_at q)) (map (bucket_query addr_hex) byInstant)"

definition collectPriceQueries :: "(address \<Rightarrow> string) \<Rightarrow> snapshot list \<Rightarrow> priceQuery list" where
  "collectPriceQueries addr_hex snapshots = bucket_queries addr_hex (price_buckets snapshots)"

section \<open>Fetching\<close>

record priceFailure =
  failure_asset :: "asset_id option"
  failure_message :: string

record priceResult =
  result_prices :: "asset_id \<rightharpoonup> f64"
  result_failures :: "priceFailure list"

record priceProvider =
  USDPrices :: "token list \<Rightarrow> priceResult"
  USDPricesAt :: "token list \<Rightarrow> instant \<Rightarrow> priceResult"

type_synonym prices = "string \<rightharpoonup> f64"

definition query_result :: "priceProvider \<Rightarrow> priceQuery \<Rightarrow> priceResult" where
  "query_result provider q = (if query_at q = 0 then USDPrices provider (query_tokens q)
     else USDPricesAt provider (query_tokens q) (query_at q))"

definition keep_price :: "(address \<Rightarrow> string) \<Rightarrow> priceResult \<Rightarrow> prices \<Rightarrow> token \<Rightarrow> prices" where
  "keep_price addr_hex result ps t = (case result_prices result (AssetForToken t) of
       Some price \<Rightarrow> ps(PriceKey addr_hex t \<mapsto> price) | None \<Rightarrow> ps)"

definition pricing_error :: "priceFailure \<Rightarrow> scan_error" where
  "pricing_error f = \<lparr>err_scope = ''pricing'',
     err_chain = (case failure_asset f of Some a \<Rightarrow> fst a | None \<Rightarrow> 0), err_protocol = [], err_name = [],
     err_message = PublicError (Some (PlainError (failure_message f)))\<rparr>"

definition fetch_query ::
  "(address \<Rightarrow> string) \<Rightarrow> priceProvider \<Rightarrow> prices \<times> scan_error list \<Rightarrow> priceQuery \<Rightarrow> prices \<times> scan_error list" where
  "fetch_query addr_hex provider state q = (let result = query_result provider q in
     (foldl (keep_price addr_hex result) (fst state) (query_tokens q),
      snd state @ map pricing_error (result_failures result)))"

definition fetchPrices ::
  "(address \<Rightarrow> string) \<Rightarrow> priceProvider option \<Rightarrow> snapshot list \<Rightarrow> prices \<times> scan_error list" where
  "fetchPrices addr_hex provider snapshots = (let queries = collectPriceQueries addr_hex snapshots in
     if queries = [] then (Map.empty, [])
     else case provider of
       None \<Rightarrow> (Map.empty, [\<lparr>err_scope = ''pricing'', err_chain = 0, err_protocol = [], err_name = [],
                 err_message = ''price provider is not configured''\<rparr>])
     | Some p \<Rightarrow> foldl (fetch_query addr_hex p) (Map.empty, []) queries)"

section \<open>Keys identify assets\<close>

lemma chainPriceName_known:
  "c \<in> set SupportedChainIDs \<Longrightarrow> \<exists>n. map_of chainPriceNames c = Some n \<and> chainPriceName c = n
     \<and> (c, n) \<in> set chainPriceNames"
  by (auto simp: SupportedChainIDs_def chainPriceNames_def chainPriceName_def chain_defs)

lemma chainPriceNames_no_colon: "list_all (\<lambda>r. CHR '':'' \<notin> set (snd r)) chainPriceNames"
  by code_simp

lemma chainPriceNames_distinct: "distinct (map snd chainPriceNames)"
  by code_simp

lemma colon_split:
  "CHR '':'' \<notin> set a \<Longrightarrow> CHR '':'' \<notin> set b \<Longrightarrow> a @ CHR '':'' # s = b @ CHR '':'' # t \<longleftrightarrow> a = b \<and> s = t"
  by (auto simp: append_eq_append_conv2 Cons_eq_append_conv append_eq_Cons_conv)

lemma chainPriceName_inject:
  assumes "c \<in> set SupportedChainIDs" and "d \<in> set SupportedChainIDs"
  shows "chainPriceName c = chainPriceName d \<longleftrightarrow> c = d"
proof
  assume "chainPriceName c = chainPriceName d"
  then have "(c, chainPriceName c) \<in> set chainPriceNames" "(d, chainPriceName c) \<in> set chainPriceNames"
    using chainPriceName_known [OF assms(1)] chainPriceName_known [OF assms(2)] by auto
  then show "c = d" using chainPriceNames_distinct by (metis distinct_map fst_conv inj_onD snd_conv)
qed simp

lemma PriceKey_inject:
  assumes "hex_names addr_hex"
    and "tok_chain s \<in> set SupportedChainIDs" and "tok_chain t \<in> set SupportedChainIDs"
  shows "PriceKey addr_hex s = PriceKey addr_hex t \<longleftrightarrow> AssetForToken s = AssetForToken t"
proof -
  have "CHR '':'' \<notin> set (chainPriceName (tok_chain u))" if "tok_chain u \<in> set SupportedChainIDs" for u :: token
    using chainPriceName_known [OF that] chainPriceNames_no_colon by (auto simp: list_all_iff)
  then have "PriceKey addr_hex s = PriceKey addr_hex t \<longleftrightarrow>
      chainPriceName (tok_chain s) = chainPriceName (tok_chain t)
      \<and> ToLower (addr_hex (tok_address s)) = ToLower (addr_hex (tok_address t))"
    using assms(2,3) by (simp add: PriceKey_def colon_split)
  then show ?thesis
    using chainPriceName_inject [OF assms(2,3)] hex_namesD [OF assms(1)] by (auto simp: AssetForToken_def)
qed

section \<open>What is asked\<close>

text \<open>The moments and tokens the components of a scan are priced by, zero amounts left out.\<close>

definition priced_uses :: "snapshot list \<Rightarrow> (instant \<times> token) list" where
  "priced_uses snapshots = concat (map (\<lambda>s. map (\<lambda>c. (valuationInstant (snap_block s), priceToken c))
     (filter (\<lambda>c. comp_amount c \<noteq> ''0'') (concat (map grp_components (snap_groups s))))) snapshots)"

definition use_asset :: "instant \<times> token \<Rightarrow> asset_id" where
  "use_asset u = AssetForToken (snd u)"

definition collect_use :: "asset_id list \<times> buckets \<Rightarrow> instant \<times> token \<Rightarrow> asset_id list \<times> buckets" where
  "collect_use state u = (if use_asset u \<in> set (fst state) then state
     else (use_asset u # fst state, append_at (fst u) (snd u) (snd state)))"

lemma collect_components:
  "foldl (collect_component m) state cs
     = foldl collect_use state (map (\<lambda>c. (m, priceToken c)) (filter (\<lambda>c. comp_amount c \<noteq> ''0'') cs))"
  by (induction cs arbitrary: state) (auto simp: collect_component_def collect_use_def use_asset_def Let_def split: prod.splits)

lemma collect_groups:
  "foldl (\<lambda>state g. foldl (collect_component m) state (grp_components g)) state gs
     = foldl collect_use state (map (\<lambda>c. (m, priceToken c))
         (filter (\<lambda>c. comp_amount c \<noteq> ''0'') (concat (map grp_components gs))))"
  by (induction gs arbitrary: state) (simp_all add: collect_components)

lemma collect_snapshots:
  "foldl collect_snapshot state ss = foldl collect_use state (priced_uses ss)"
  by (induction ss arbitrary: state) (simp_all add: collect_snapshot_def collect_groups priced_uses_def)

lemma price_buckets_uses: "price_buckets ss = snd (foldl collect_use ([], []) (priced_uses ss))"
  by (simp add: price_buckets_def collect_snapshots)

definition bucket_uses :: "buckets \<Rightarrow> (instant \<times> token) list" where
  "bucket_uses bs = concat (map (\<lambda>b. map (Pair (fst b)) (snd b)) bs)"

lemma append_at_uses: "mset (bucket_uses (append_at m t bs)) = add_mset (m, t) (mset (bucket_uses bs))"
  by (induction m t bs rule: append_at.induct) (auto simp: bucket_uses_def)

lemma append_at_keys: "fst ` set (append_at m t bs) = insert m (fst ` set bs)"
  by (induction m t bs rule: append_at.induct) auto

lemma append_at_distinct: "distinct (map fst bs) \<Longrightarrow> distinct (map fst (append_at m t bs))"
  by (induction m t bs rule: append_at.induct) (auto simp: append_at_keys)

lemma append_at_nonempty: "list_all (\<lambda>b. snd b \<noteq> []) bs \<Longrightarrow> list_all (\<lambda>b. snd b \<noteq> []) (append_at m t bs)"
  by (induction m t bs rule: append_at.induct) auto

text \<open>What the seen assets and the buckets hold after the uses \<open>us\<close>.\<close>

definition collected :: "(instant \<times> token) list \<Rightarrow> asset_id list \<times> buckets \<Rightarrow> bool" where
  "collected us state \<longleftrightarrow> (case state of (seen, bs) \<Rightarrow>
     distinct (map fst bs) \<and> list_all (\<lambda>b. snd b \<noteq> []) bs
     \<and> distinct (map use_asset (bucket_uses bs)) \<and> set (bucket_uses bs) \<subseteq> set us
     \<and> use_asset ` set (bucket_uses bs) = set seen \<and> set seen = use_asset ` set us)"

lemma collected_step:
  assumes "collected us state"
  shows "collected (us @ [u]) (collect_use state u)"
proof -
  obtain seen bs where state: "state = (seen, bs)" by fastforce
  show ?thesis
  proof (cases "use_asset u \<in> set seen")
    case True
    then show ?thesis using assms by (auto simp: state collected_def collect_use_def)
  next
    case False
    let ?bs = "append_at (fst u) (snd u) bs"
    have uses: "mset (bucket_uses ?bs) = add_mset u (mset (bucket_uses bs))"
      using append_at_uses [of "fst u" "snd u" bs] by simp
    then have "mset (map use_asset (bucket_uses ?bs)) = mset (map use_asset (u # bucket_uses bs))" by simp
    moreover have "distinct (map use_asset (u # bucket_uses bs))"
      using assms False by (simp add: collected_def state)
    ultimately have "distinct (map use_asset (bucket_uses ?bs))" using mset_eq_imp_distinct_iff by blast
    moreover have "set (bucket_uses ?bs) = insert u (set (bucket_uses bs))"
      using uses by (metis set_mset_add_mset_insert set_mset_mset)
    ultimately show ?thesis using assms False append_at_distinct append_at_nonempty
      by (auto simp: state collected_def collect_use_def)
  qed
qed

lemma collected_uses: "collected us (foldl collect_use ([], []) us)"
proof (induction us rule: rev_induct)
  case Nil
  then show ?case by (simp add: collected_def bucket_uses_def)
next
  case (snoc u us)
  then show ?case using collected_step by simp
qed

lemma price_buckets_collected:
  "distinct (map fst (price_buckets ss)) \<and> list_all (\<lambda>b. snd b \<noteq> []) (price_buckets ss)
   \<and> distinct (map use_asset (bucket_uses (price_buckets ss)))
   \<and> set (bucket_uses (price_buckets ss)) \<subseteq> set (priced_uses ss)
   \<and> use_asset ` set (bucket_uses (price_buckets ss)) = use_asset ` set (priced_uses ss)"
  using collected_uses [of "priced_uses ss"]
  by (simp add: collected_def price_buckets_uses split: prod.splits)

text \<open>The order in which Go iterates the buckets is lost in the second sort.\<close>

lemma bucket_queries_order_free:
  assumes "mset bs = mset bs'" and "distinct (map fst bs)"
  shows "bucket_queries addr_hex bs = bucket_queries addr_hex bs'"
  unfolding bucket_queries_def
proof (rule sort_key_permuted)
  show "mset (map (bucket_query addr_hex) bs) = mset (map (bucket_query addr_hex) bs')"
    using assms(1) by simp
  show "inj_on (\<lambda>q. sint (query_at q)) (set (map (bucket_query addr_hex) bs))"
    using assms(2) by (auto simp: inj_on_def bucket_query_def distinct_map dest!: signed_word_eqI)
qed

lemma bucket_queries_strict:
  assumes "distinct (map fst bs)"
  shows "sorted_wrt (\<lambda>p q. sint (query_at p) < sint (query_at q)) (bucket_queries addr_hex bs)"
  unfolding bucket_queries_def
proof (rule sort_key_strict)
  have "map (\<lambda>q. sint (query_at q)) (map (bucket_query addr_hex) bs) = map sint (map fst bs)"
    by (simp add: bucket_query_def)
  then show "distinct (map (\<lambda>q. sint (query_at q)) (map (bucket_query addr_hex) bs))"
    using assms by (metis distinct_map inj_on_def signed_word_eqI)
qed

definition query_uses :: "priceQuery list \<Rightarrow> (instant \<times> token) list" where
  "query_uses qs = concat (map (\<lambda>q. map (Pair (query_at q)) (query_tokens q)) qs)"

lemma query_uses_buckets: "mset (query_uses (bucket_queries addr_hex bs)) = mset (bucket_uses bs)"
proof -
  have "mset (query_uses (bucket_queries addr_hex bs))
      = mset (query_uses (map (bucket_query addr_hex) bs))"
    unfolding query_uses_def bucket_queries_def mset_concat by (simp add: multiset.map_comp comp_assoc flip: sum_mset_sum_list)
  also have "\<dots> = mset (bucket_uses bs)"
    by (induction bs) (auto simp: query_uses_def bucket_uses_def bucket_query_def)
  finally show ?thesis .
qed

lemma query_uses_collected:
  defines "us ss addr_hex \<equiv> query_uses (collectPriceQueries addr_hex ss)"
  shows "distinct (map use_asset (us ss addr_hex)) \<and> set (us ss addr_hex) \<subseteq> set (priced_uses ss)
   \<and> use_asset ` set (us ss addr_hex) = use_asset ` set (priced_uses ss)"
proof -
  have m: "mset (us ss addr_hex) = mset (bucket_uses (price_buckets ss))"
    by (simp add: us_def collectPriceQueries_def query_uses_buckets)
  then have "distinct (map use_asset (us ss addr_hex)) \<longleftrightarrow> distinct (map use_asset (bucket_uses (price_buckets ss)))"
    by (intro mset_eq_imp_distinct_iff) simp
  moreover have "set (us ss addr_hex) = set (bucket_uses (price_buckets ss))" using m by (rule mset_eq_setD)
  ultimately show ?thesis using price_buckets_collected [of ss] by simp
qed

text \<open>The provider is asked about exactly the assets some component with a non-zero amount is
  priced by, each in one query and at the moment of a snapshot that holds it; queries are never
  empty, come in strictly increasing order of their moments with the live one first, and list
  their tokens in key order.\<close>

lemma price_queries_exact:
  "distinct (map use_asset (query_uses (collectPriceQueries addr_hex ss)))
   \<and> use_asset ` set (query_uses (collectPriceQueries addr_hex ss)) = use_asset ` set (priced_uses ss)
   \<and> set (query_uses (collectPriceQueries addr_hex ss)) \<subseteq> set (priced_uses ss)
   \<and> sorted_wrt (\<lambda>p q. sint (query_at p) < sint (query_at q)) (collectPriceQueries addr_hex ss)
   \<and> list_all (\<lambda>q. query_tokens q \<noteq> [] \<and> sorted (map (PriceKey addr_hex) (query_tokens q)))
       (collectPriceQueries addr_hex ss)"
proof -
  have "sorted_wrt (\<lambda>p q. sint (query_at p) < sint (query_at q)) (collectPriceQueries addr_hex ss)"
    using bucket_queries_strict price_buckets_collected by (simp add: collectPriceQueries_def)
  moreover have "list_all (\<lambda>q. query_tokens q \<noteq> [] \<and> sorted (map (PriceKey addr_hex) (query_tokens q)))
       (collectPriceQueries addr_hex ss)"
  proof -
    have "sort_key (PriceKey addr_hex) ts \<noteq> []" if "ts \<noteq> []" for ts
      using that by (metis length_0_conv length_sort)
    then show ?thesis using price_buckets_collected [of ss]
      by (auto simp: collectPriceQueries_def bucket_queries_def bucket_query_def list_all_iff)
  qed
  ultimately show ?thesis using query_uses_collected by blast
qed

section \<open>What is kept\<close>

definition supported_uses :: "snapshot list \<Rightarrow> bool" where
  "supported_uses ss \<longleftrightarrow> list_all (\<lambda>u. tok_chain (snd u) \<in> set SupportedChainIDs) (priced_uses ss)"

type_synonym query_tokens_pairs = "(priceQuery \<times> token) list"

definition asked_pairs :: "priceQuery list \<Rightarrow> query_tokens_pairs" where
  "asked_pairs qs = concat (map (\<lambda>q. map (Pair q) (query_tokens q)) qs)"

definition keep_pair :: "(address \<Rightarrow> string) \<Rightarrow> priceProvider \<Rightarrow> prices \<Rightarrow> priceQuery \<times> token \<Rightarrow> prices" where
  "keep_pair addr_hex p ps qt = keep_price addr_hex (query_result p (fst qt)) ps (snd qt)"

lemma foldl_keep_pairs:
  "foldl (keep_price addr_hex (query_result p q)) ps ts = foldl (keep_pair addr_hex p) ps (map (Pair q) ts)"
  by (induction ts arbitrary: ps) (simp_all add: keep_pair_def)

lemma foldl_fetch:
  "foldl (fetch_query addr_hex p) (ps, es) qs = (foldl (keep_pair addr_hex p) ps (asked_pairs qs),
     es @ map pricing_error (concat (map (\<lambda>q. result_failures (query_result p q)) qs)))"
  by (induction qs arbitrary: ps es)
    (simp_all add: fetch_query_def Let_def asked_pairs_def foldl_keep_pairs)

definition pair_key :: "(address \<Rightarrow> string) \<Rightarrow> priceQuery \<times> token \<Rightarrow> string" where
  "pair_key addr_hex qt = PriceKey addr_hex (snd qt)"

definition quoted :: "priceProvider \<Rightarrow> priceQuery \<times> token \<Rightarrow> f64 option" where
  "quoted p qt = result_prices (query_result p (fst qt)) (AssetForToken (snd qt))"

lemma keep_pair_other: "k \<noteq> pair_key addr_hex x \<Longrightarrow> keep_pair addr_hex p ps x k = ps k"
  by (simp add: keep_pair_def keep_price_def pair_key_def split: option.split)

lemma keep_pair_same: "ps (pair_key addr_hex x) = None \<Longrightarrow>
    keep_pair addr_hex p ps x (pair_key addr_hex x) = quoted p x"
  by (simp add: keep_pair_def keep_price_def pair_key_def quoted_def split: option.split)

lemma keep_pairs_other:
  "k \<notin> pair_key addr_hex ` set xs \<Longrightarrow> foldl (keep_pair addr_hex p) ps xs k = ps k"
  by (induction xs arbitrary: ps) (auto simp: keep_pair_other)

lemma keep_pairs_same:
  "distinct (map (pair_key addr_hex) xs) \<Longrightarrow> x \<in> set xs \<Longrightarrow> \<forall>y \<in> set xs. ps (pair_key addr_hex y) = None
     \<Longrightarrow> foldl (keep_pair addr_hex p) ps xs (pair_key addr_hex x) = quoted p x"
proof (induction xs arbitrary: ps)
  case (Cons y ys)
  show ?case
  proof (cases "x = y")
    case True
    then show ?thesis using Cons.prems by (simp add: keep_pairs_other keep_pair_same)
  next
    case False
    have "\<forall>z \<in> set ys. keep_pair addr_hex p ps y (pair_key addr_hex z) = None"
    proof
      fix z assume "z \<in> set ys"
      then have "pair_key addr_hex z \<noteq> pair_key addr_hex y" using Cons.prems(1) by (auto simp: image_iff)
      then show "keep_pair addr_hex p ps y (pair_key addr_hex z) = None"
        using Cons.prems(3) \<open>z \<in> set ys\<close> by (simp add: keep_pair_other)
    qed
    then show ?thesis using Cons False by simp
  qed
qed simp

lemma asked_pairs_uses: "map (\<lambda>x. (query_at (fst x), snd x)) (asked_pairs qs) = query_uses qs"
  by (induction qs) (simp_all add: asked_pairs_def query_uses_def)

lemma asked_keys_distinct:
  assumes "hex_names addr_hex" and "supported_uses ss"
  shows "distinct (map (pair_key addr_hex) (asked_pairs (collectPriceQueries addr_hex ss)))"
proof -
  let ?us = "query_uses (collectPriceQueries addr_hex ss)"
  have chains: "tok_chain (snd u) \<in> set SupportedChainIDs" if "u \<in> set ?us" for u
    using that query_uses_collected [of addr_hex ss] assms(2) by (auto simp: supported_uses_def list_all_iff)
  have "inj_on use_asset (set ?us)" "distinct ?us"
    using query_uses_collected [of addr_hex ss] by (simp_all add: distinct_map)
  then have "inj_on (\<lambda>u. PriceKey addr_hex (snd u)) (set ?us)"
    using chains PriceKey_inject [OF assms(1)] by (auto simp: inj_on_def use_asset_def)
  then have "distinct (map (\<lambda>u. PriceKey addr_hex (snd u)) ?us)" using \<open>distinct ?us\<close> by (simp add: distinct_map)
  then show ?thesis
    by (simp add: pair_key_def [abs_def] comp_def flip: asked_pairs_uses)
qed

text \<open>Over supported chains, the price kept for a token a query asks about is the quote that
  query's call gave for the token's asset, so a component of a fixed block is never valued at a
  live quote and no quote lands under another asset's key; no other key has a price, and every
  failure of every call is reported with its message redacted.\<close>

lemma fetched_prices_exact:
  assumes "hex_names addr_hex" and "supported_uses ss"
  shows "(\<forall>q \<in> set (collectPriceQueries addr_hex ss). \<forall>t \<in> set (query_tokens q).
       fst (fetchPrices addr_hex (Some p) ss) (PriceKey addr_hex t)
         = result_prices (if query_at q = 0 then USDPrices p (query_tokens q)
             else USDPricesAt p (query_tokens q) (query_at q)) (AssetForToken t))
   \<and> dom (fst (fetchPrices addr_hex (Some p) ss))
       \<subseteq> PriceKey addr_hex ` snd ` set (query_uses (collectPriceQueries addr_hex ss))
   \<and> snd (fetchPrices addr_hex (Some p) ss) = map pricing_error
       (concat (map (\<lambda>q. result_failures (query_result p q)) (collectPriceQueries addr_hex ss)))"
proof -
  let ?qs = "collectPriceQueries addr_hex ss"
  have fetch: "fetchPrices addr_hex (Some p) ss = (foldl (keep_pair addr_hex p) Map.empty (asked_pairs ?qs),
      map pricing_error (concat (map (\<lambda>q. result_failures (query_result p q)) ?qs)))"
    by (simp add: fetchPrices_def Let_def foldl_fetch asked_pairs_def)
  have "fst (fetchPrices addr_hex (Some p) ss) (PriceKey addr_hex t)
      = result_prices (query_result p q) (AssetForToken t)"
    if "q \<in> set ?qs" "t \<in> set (query_tokens q)" for q t
  proof -
    have "(q, t) \<in> set (asked_pairs ?qs)" using that by (auto simp: asked_pairs_def)
    from keep_pairs_same [OF asked_keys_distinct [OF assms] this, of Map.empty p]
    show ?thesis by (simp add: fetch quoted_def pair_key_def)
  qed
  moreover have "dom (fst (fetchPrices addr_hex (Some p) ss)) \<subseteq> PriceKey addr_hex ` snd ` set (query_uses ?qs)"
  proof
    fix k assume "k \<in> dom (fst (fetchPrices addr_hex (Some p) ss))"
    then have "k \<in> pair_key addr_hex ` set (asked_pairs ?qs)"
      using keep_pairs_other [of k addr_hex "asked_pairs ?qs" p Map.empty] by (cases "k \<in> pair_key addr_hex ` set (asked_pairs ?qs)") (simp_all add: fetch dom_def)
    then show "k \<in> PriceKey addr_hex ` snd ` set (query_uses ?qs)"
      by (simp add: pair_key_def [abs_def] image_image flip: asked_pairs_uses)
  qed
  ultimately show ?thesis by (simp add: fetch query_result_def)
qed

text \<open>A scan with a live token and one valued at a fixed block.\<close>

definition demo_token :: "chain_id \<Rightarrow> address \<Rightarrow> token" where
  "demo_token c a = \<lparr>tok_chain = c, tok_address = a, tok_symbol = ''T'', tok_decimals = 18\<rparr>"

definition demo_snapshot :: "chain_id \<Rightarrow> bool \<Rightarrow> address \<Rightarrow> snapshot" where
  "demo_snapshot c fixed a = \<lparr>snap_protocol = ''wallet'', snap_name = ''Wallet'', snap_chain = c,
     snap_account = 1, snap_block = \<lparr>block_chain = c, block_number = 9, block_hash = 0,
       block_timestamp = 1700000000, block_fixed = fixed\<rparr>,
     snap_groups = [\<lparr>grp_id = ''g'', grp_market = [], grp_label = [],
       grp_components = [NewComponent ''asset'' (demo_token c a) 7
         \<lparr>src_contract = a, src_method = ''balanceOf'', src_holds = None\<rparr>],
       grp_policy = [], grp_value = None, grp_metadata = []\<rparr>], snap_policy = [], snap_value = None\<rparr>"

end
