(* ===== verification/Valuation.thy ===== *)
theory Valuation
  imports Pricing
begin

text \<open>
  \<open>valuation.go\<close>: the USD price and value of a component, and the valuation of a whole scan. The
  code writes prices and values into the snapshots it is given and stops at the first component it
  cannot value, so a valuation returns the snapshots as far as it wrote them beside its result.
\<close>

section \<open>One component\<close>

datatype valuation_error = InvalidBasisRatio string | BasisPriceNotRepresentable f64
  | DerivedPriceUnusable f64 | InvalidPrice f64 | InvalidAmount string | InvalidDenominator string
  | PriceNotRepresentable f64 | ValueNotFinite

definition priceBasisRatioOne :: int where
  "priceBasisRatioOne = 10 ^ 18"

text \<open>\<open>price <= 0 || math.IsInf(price, 0) || math.IsNaN(price)\<close>\<close>

definition unusable_price :: "f64 \<Rightarrow> bool" where
  "unusable_price x \<longleftrightarrow> f64_le x (Fin 0) \<or> (\<exists>s \<in> {True, False}. x = Inf s) \<or> x = NaN"

lemma usable_price_iff: "\<not> unusable_price x \<longleftrightarrow> (\<exists>p > 0. x = Fin p)"
  by (cases x) (auto simp: unusable_price_def)

text \<open>No price is \<open>Inr None\<close>.\<close>

definition componentPrice ::
  "(address \<Rightarrow> string) \<Rightarrow> component \<Rightarrow> prices \<Rightarrow> valuation_error + f64 option" where
  "componentPrice addr_hex c ps = (case ps (PriceKey addr_hex (priceToken c)) of
     None \<Rightarrow> Inr None
   | Some price \<Rightarrow> (case comp_basis c of
       None \<Rightarrow> Inr (Some price)
     | Some b \<Rightarrow> (case set_string10 (basis_ratio b) of
         None \<Rightarrow> Inl (InvalidBasisRatio (basis_ratio b))
       | Some ratio \<Rightarrow>
           if ratio \<le> 0 then Inl (InvalidBasisRatio (basis_ratio b))
           else (case rat_of_f64 price of
             None \<Rightarrow> Inl (BasisPriceNotRepresentable price)
           | Some basisPrice \<Rightarrow>
               let derivedPrice = round64 (of_int ratio / of_int priceBasisRatioOne * basisPrice) in
               if unusable_price derivedPrice then Inl (DerivedPriceUnusable derivedPrice)
               else Inr (Some derivedPrice)))))"

definition component_denominator :: "component \<Rightarrow> valuation_error + int" where
  "component_denominator c = (if comp_denominator c = [] then Inr 1
     else case set_string10 (comp_denominator c) of
       None \<Rightarrow> Inl (InvalidDenominator (comp_denominator c))
     | Some d \<Rightarrow> if d \<le> 0 then Inl (InvalidDenominator (comp_denominator c)) else Inr d)"

definition componentValueUSD :: "component \<Rightarrow> f64 \<Rightarrow> valuation_error + f64" where
  "componentValueUSD c price =
     (if unusable_price price then Inl (InvalidPrice price)
      else case set_string10 (comp_amount c) of
        None \<Rightarrow> Inl (InvalidAmount (comp_amount c))
      | Some amount \<Rightarrow> bindR (component_denominator c) (\<lambda>denominator.
          let scale = (10::int) ^ unat (tok_decimals (comp_token c));
              quantity = (of_int amount / of_int denominator) / of_int scale
          in case rat_of_f64 price of
               None \<Rightarrow> Inl (PriceNotRepresentable price)
             | Some priceRat \<Rightarrow> (let value = round64 (quantity * priceRat) in
                 if \<not> is_finite64 value then Inl ValueNotFinite else Inr value)))"

definition applyFloorZero :: "f64 \<Rightarrow> string \<Rightarrow> f64" where
  "applyFloorZero value policy =
     (if policy = ''floor-zero'' \<and> f64_less value (Fin 0) then Fin 0 else value)"

section \<open>A whole scan\<close>

text \<open>The summary a protocol's snapshots accumulate, with the set of its chains as a list.\<close>

record summaryState =
  st_summary :: protocol_summary
  st_chains :: "chain_id list"

datatype scan_valuation_error = ValuationFailed string string valuation_error

text \<open>The price and the value of a component, none when it has no price.\<close>

definition price_component ::
  "(address \<Rightarrow> string) \<Rightarrow> prices \<Rightarrow> component \<Rightarrow> valuation_error + (f64 \<times> f64) option" where
  "price_component addr_hex ps c = bindR (componentPrice addr_hex c ps) (\<lambda>priced.
     case priced of None \<Rightarrow> Inr None
     | Some price \<Rightarrow> bindR (componentValueUSD c price) (\<lambda>value. Inr (Some (price, value))))"

definition add_value :: "string \<Rightarrow> f64 \<Rightarrow> protocol_summary \<Rightarrow> protocol_summary" where
  "add_value kind value s = (let s = s\<lparr>sum_priced := sum_priced s + 1\<rparr> in
     if kind = ''debt'' then s\<lparr>sum_debt := f64_add (sum_debt s) value\<rparr>
     else if kind = ''reward'' then s\<lparr>sum_reward := f64_add (sum_reward s) value\<rparr>
     else s\<lparr>sum_asset := f64_add (sum_asset s) value\<rparr>)"

definition add_total :: "string \<Rightarrow> f64 \<Rightarrow> f64 \<Rightarrow> f64" where
  "add_total kind value tot = (if kind = ''debt'' then f64_sub tot value else f64_add tot value)"

text \<open>
  The loop over a group's components: the summary, the group's totalal and whether one is priced.
\<close>

fun value_components :: "(address \<Rightarrow> string) \<Rightarrow> prices \<Rightarrow> string \<Rightarrow> component list
    \<Rightarrow> protocol_summary \<Rightarrow> f64 \<Rightarrow> bool
    \<Rightarrow> component list \<times> (scan_valuation_error + protocol_summary \<times> f64 \<times> bool)" where
  "value_components addr_hex ps pid [] s tot priced = ([], Inr (s, tot, priced))"
| "value_components addr_hex ps pid (c # cs) s tot priced =
     (let s = s\<lparr>sum_count := sum_count s + 1\<rparr> in
      case price_component addr_hex ps c of
        Inl e \<Rightarrow> (c # cs, Inl (ValuationFailed pid (tok_symbol (comp_token c)) e))
      | Inr None \<Rightarrow> (let (cs', r) = value_components addr_hex ps pid cs s tot priced in (c # cs', r))
      | Inr (Some (price, value)) \<Rightarrow>
          (let c' = c\<lparr>comp_price := Some price, comp_value := Some value\<rparr>;
               (cs', r) = value_components addr_hex ps pid cs (add_value (comp_kind c) value s)
                 (add_total (comp_kind c) value tot) True
           in (c' # cs', r)))"

text \<open>The loop over a snapshot's groups.\<close>

fun value_groups :: "(address \<Rightarrow> string) \<Rightarrow> prices \<Rightarrow> string \<Rightarrow> group list
    \<Rightarrow> protocol_summary \<Rightarrow> f64 \<Rightarrow> bool
    \<Rightarrow> group list \<times> (scan_valuation_error + protocol_summary \<times> f64 \<times> bool)" where
  "value_groups addr_hex ps pid [] s tot priced = ([], Inr (s, tot, priced))"
| "value_groups addr_hex ps pid (g # gs) s tot priced =
     (let (cs, r) = value_components addr_hex ps pid (grp_components g) s (Fin 0) False;
          g' = g\<lparr>grp_components := cs\<rparr>
      in case r of
        Inl e \<Rightarrow> (g' # gs, Inl e)
      | Inr (s', groupTotal, groupPriced) \<Rightarrow>
          if groupPriced then
            (let v = applyFloorZero groupTotal (grp_policy g);
                 (gs', r') = value_groups addr_hex ps pid gs s' (f64_add tot v) True
             in (g'\<lparr>grp_value := Some v\<rparr> # gs', r'))
          else
            (let (gs', r') = value_groups addr_hex ps pid gs s' tot priced in (g' # gs', r')))"

type_synonym summary_states = "(string \<times> summaryState) list"

definition new_state :: "snapshot \<Rightarrow> summaryState" where
  "new_state snap = \<lparr>st_summary = \<lparr>sum_protocol = snap_protocol snap, sum_name = snap_name snap,
     sum_total = Fin 0, sum_asset = Fin 0, sum_debt = Fin 0, sum_reward = Fin 0, sum_priced = 0,
     sum_count = 0, sum_chains = []\<rparr>, st_chains = []\<rparr>"

definition enter_snapshot :: "summary_states \<Rightarrow> snapshot \<Rightarrow> summaryState" where
  "enter_snapshot states snap = (let st = (case map_of states (snap_protocol snap) of
        Some st \<Rightarrow> st | None \<Rightarrow> new_state snap)
     in st\<lparr>st_chains := List.insert (snap_chain snap) (st_chains st)\<rparr>)"

fun value_snapshots :: "(address \<Rightarrow> string) \<Rightarrow> prices \<Rightarrow> snapshot list \<Rightarrow> summary_states
    \<Rightarrow> snapshot list \<times> (scan_valuation_error + summary_states)" where
  "value_snapshots addr_hex ps [] states = ([], Inr states)"
| "value_snapshots addr_hex ps (snap # snaps) states =
     (let st = enter_snapshot states snap;
          (gs, r) = value_groups addr_hex ps (snap_protocol snap) (snap_groups snap) (st_summary st) (Fin 0) False;
          snap' = snap\<lparr>snap_groups := gs\<rparr>
      in case r of
        Inl e \<Rightarrow> (snap' # snaps, Inl e)
      | Inr (s, tot, priced) \<Rightarrow>
          if priced then
            (let v = applyFloorZero tot (snap_policy snap);
                 s' = s\<lparr>sum_total := f64_add (sum_total s) v\<rparr>;
                 (snaps', r') = value_snapshots addr_hex ps snaps
                   (AList.update (snap_protocol snap) (st\<lparr>st_summary := s'\<rparr>) states)
             in (snap'\<lparr>snap_value := Some v\<rparr> # snaps', r'))
          else
            (let (snaps', r') = value_snapshots addr_hex ps snaps
                   (AList.update (snap_protocol snap) (st\<lparr>st_summary := s\<rparr>) states)
             in (snap' # snaps', r')))"

text \<open>The summaries in the order of the protocols; \<open>append\<close> grows the summary the state keeps.\<close>

fun protocol_summaries :: "summary_states \<Rightarrow> protocol_info list \<Rightarrow> protocol_summary list" where
  "protocol_summaries states [] = []"
| "protocol_summaries states (p # ps) = (case map_of states (info_id p) of
       None \<Rightarrow> protocol_summaries states ps
     | Some st \<Rightarrow> (let s = (st_summary st)\<lparr>sum_chains := sum_chains (st_summary st)
           @ filter (\<lambda>c. c \<in> set (st_chains st)) SupportedChainIDs\<rparr> in
         s # protocol_summaries (AList.update (info_id p) (st\<lparr>st_summary := s\<rparr>) states) ps))"

definition applyValuations :: "(address \<Rightarrow> string) \<Rightarrow> snapshot list \<Rightarrow> prices \<Rightarrow> protocol_info list
    \<Rightarrow> snapshot list \<times> (scan_valuation_error + protocol_summary list)" where
  "applyValuations addr_hex snaps ps protocols =
     (let (snaps', r) = value_snapshots addr_hex ps snaps [] in
      (snaps', bindR r (\<lambda>states. Inr (protocol_summaries states protocols))))"

section \<open>Accuracy of one value\<close>

lemma component_denominator_pos: "component_denominator c = Inr d \<Longrightarrow> d > 0"
  by (auto simp: component_denominator_def split: if_splits option.splits)

definition exact_value :: "int \<Rightarrow> int \<Rightarrow> u8 \<Rightarrow> rat \<Rightarrow> rat" where
  "exact_value amount denominator decimals price =
     of_int amount / of_int denominator / of_int (10 ^ unat decimals) * price"

text \<open>
  One rounding to the binary64 format: the result is of the format, of the sign of the exact number,
  and nothing of the format is nearer to it. That makes the relative error \<open>2 ^ -53\<close> at most where the
  exact number is at least the smallest normal one, \<open>2 ^ -1022\<close>, and the absolute error
  \<open>2 ^ -1075\<close> at most below it, where no relative bound holds.
\<close>

definition rounds_to :: "rat \<Rightarrow> rat \<Rightarrow> bool" where
  "rounds_to q x \<longleftrightarrow> (0 \<le> q \<longrightarrow> 0 \<le> x) \<and> (q \<le> 0 \<longrightarrow> x \<le> 0)
     \<and> representable x \<and> (\<forall>y. representable y \<longrightarrow> \<bar>x - q\<bar> \<le> \<bar>y - q\<bar>)
     \<and> (2 powi (- 1022) \<le> \<bar>q\<bar> \<longrightarrow> \<bar>x - q\<bar> \<le> \<bar>q\<bar> * 2 powi (- 53))
     \<and> (\<bar>q\<bar> < 2 powi (- 1022) \<longrightarrow> \<bar>x - q\<bar> \<le> 2 powi (- 1075))"

lemma round64_rounds: "round64 q = Fin x \<Longrightarrow> rounds_to q x"
  using round64_sign [of q] round64_error [of q x] round64_error_small [of q x] round64_nearest [of q x]
  by (auto simp: rounds_to_def)

text \<open>C8: a component's value, when the code gives one, is finite and is the exact product of the
  amount over its denominator, the token's scale and the price, rounded once: a nearest value of the
  binary64 format, of the sign of the amount, with a relative error of at most \<open>2 ^ -53\<close> where the exact
  product is at least \<open>2 ^ -1022\<close> in absolute value, and an absolute error of at most \<open>2 ^ -1075\<close>
  where it is smaller. The price was positive and finite.\<close>

theorem componentValueUSD_accurate:
  assumes "componentValueUSD c price = Inr v"
  shows "\<exists>p amount d x. price = Fin p \<and> 0 < p \<and> set_string10 (comp_amount c) = Some amount
     \<and> component_denominator c = Inr d \<and> 0 < d \<and> v = Fin x
     \<and> rounds_to (exact_value amount d (tok_decimals (comp_token c)) p) x"
proof -
  from assms obtain p where p: "price = Fin p" "0 < p"
    using usable_price_iff by (auto simp: componentValueUSD_def split: if_splits)
  from assms obtain amount d where a: "set_string10 (comp_amount c) = Some amount"
      "component_denominator c = Inr d" "v = round64 (exact_value amount d (tok_decimals (comp_token c)) p)"
      "is_finite64 v"
    by (auto simp: componentValueUSD_def p bindR_Inr_iff Let_def exact_value_def
        split: if_splits option.splits)
  obtain x where "v = Fin x" using a(4) by (cases v) simp_all
  then show ?thesis using p a component_denominator_pos [OF a(2)] round64_rounds by auto
qed

theorem componentValueUSD_accurate_witness:
  "componentValueUSD (NewComponent ''asset'' (demo_token Base 5) 7
       \<lparr>src_contract = 5, src_method = [], src_holds = None\<rparr>) (Fin (10 ^ 18)) = Inr (Fin 7)
   \<and> rounds_to (exact_value 7 1 18 (10 ^ 18)) 7"
proof -
  let ?c = "NewComponent ''asset'' (demo_token Base 5) 7 \<lparr>src_contract = 5, src_method = [], src_holds = None\<rparr>"
  have "representable 7" using representable_of_int [of 7] by simp
  then have run: "componentValueUSD ?c (Fin (10 ^ 18)) = Inr (Fin 7)"
    by (simp add: componentValueUSD_def unusable_price_def NewComponent_def component_denominator_def
        demo_token_def round64_exact)
  from componentValueUSD_accurate [OF run] show ?thesis
    using run by (auto simp: NewComponent_def component_denominator_def demo_token_def)
qed

text \<open>A component with a price basis is priced by the basis token's quote times the ratio over
  \<open>10 ^ 18\<close>, rounded once, and only when that is a positive finite number; one without a basis is
  priced by its own token's quote unchanged.\<close>

lemma componentPrice_basis:
  assumes "componentPrice addr_hex c ps = Inr (Some price)"
  shows "\<exists>quote. ps (PriceKey addr_hex (priceToken c)) = Some quote
     \<and> (case comp_basis c of None \<Rightarrow> price = quote
        | Some b \<Rightarrow> (\<exists>ratio q x. set_string10 (basis_ratio b) = Some ratio \<and> 0 < ratio \<and> quote = Fin q
            \<and> price = Fin x \<and> 0 < x \<and> rounds_to (of_int ratio / 10 ^ 18 * q) x))"
proof (cases "comp_basis c")
  case None
  then show ?thesis using assms by (auto simp: componentPrice_def split: option.splits)
next
  case (Some b)
  from assms obtain quote where quote: "ps (PriceKey addr_hex (priceToken c)) = Some quote"
    by (auto simp: componentPrice_def split: option.splits)
  from assms obtain ratio q where r: "set_string10 (basis_ratio b) = Some ratio" "0 < ratio"
      "quote = Fin q" "price = round64 (of_int ratio / 10 ^ 18 * q)" "\<not> unusable_price price"
    by (auto simp: componentPrice_def quote Some Let_def rat_of_f64_Some_iff priceBasisRatioOne_def not_le
        split: option.splits if_splits)
  then obtain x where "price = Fin x" "0 < x" using usable_price_iff by blast
  then show ?thesis using r quote Some round64_rounds by auto
qed

section \<open>What a valuation may touch\<close>

definition bare_component :: "component \<Rightarrow> component" where
  "bare_component c = c\<lparr>comp_price := None, comp_value := None\<rparr>"

definition bare_group :: "group \<Rightarrow> group" where
  "bare_group g = g\<lparr>grp_components := map bare_component (grp_components g), grp_value := None\<rparr>"

definition bare_snapshot :: "snapshot \<Rightarrow> snapshot" where
  "bare_snapshot s = s\<lparr>snap_groups := map bare_group (snap_groups s), snap_value := None\<rparr>"

lemma value_components_bare:
  "map bare_component (fst (value_components addr_hex ps pid cs s tot priced)) = map bare_component cs"
  by (induction addr_hex ps pid cs s tot priced rule: value_components.induct)
    (auto simp: Let_def bare_component_def split: sum.splits option.splits prod.splits)

lemma value_groups_bare:
  "map bare_group (fst (value_groups addr_hex ps pid gs s tot priced)) = map bare_group gs"
proof (induction addr_hex ps pid gs s tot priced rule: value_groups.induct)
  case (2 addr_hex ps pid g gs s tot priced)
  obtain cs r where run: "value_components addr_hex ps pid (grp_components g) s (Fin 0) False = (cs, r)"
    by fastforce
  then have "map bare_component cs = map bare_component (grp_components g)"
    using value_components_bare by (metis fst_conv)
  then show ?case using 2 by (auto simp: run Let_def bare_group_def split: sum.splits prod.splits)
qed simp

lemma value_snapshots_bare:
  "map bare_snapshot (fst (value_snapshots addr_hex ps snaps states)) = map bare_snapshot snaps"
proof (induction addr_hex ps snaps states rule: value_snapshots.induct)
  case (2 addr_hex ps snap snaps states)
  let ?st = "enter_snapshot states snap"
  obtain gs r where run: "value_groups addr_hex ps (snap_protocol snap) (snap_groups snap) (st_summary ?st)
      (Fin 0) False = (gs, r)" by fastforce
  then have "map bare_group gs = map bare_group (snap_groups snap)"
    using value_groups_bare by (metis fst_conv)
  then show ?case using 2 by (auto simp: run Let_def bare_snapshot_def split: sum.splits prod.splits)
qed simp

section \<open>What a valuation computes\<close>

text \<open>
  The specification, over the components alone: the price and value of each, the net value of a
  group and of a snapshot, and the summary of a protocol.
\<close>

definition component_ok :: "(address \<Rightarrow> string) \<Rightarrow> prices \<Rightarrow> component \<Rightarrow> bool" where
  "component_ok addr_hex ps c \<longleftrightarrow> \<not> isl (price_component addr_hex ps c)"

definition component_worth :: "(address \<Rightarrow> string) \<Rightarrow> prices \<Rightarrow> component \<Rightarrow> (f64 \<times> f64) option" where
  "component_worth addr_hex ps c = (case price_component addr_hex ps c of Inl e \<Rightarrow> None | Inr v \<Rightarrow> v)"

lemma component_ok_worth: "component_ok addr_hex ps c \<Longrightarrow>
    price_component addr_hex ps c = Inr (component_worth addr_hex ps c)"
  by (auto simp: component_ok_def component_worth_def split: sum.splits)

definition valued_component :: "(address \<Rightarrow> string) \<Rightarrow> prices \<Rightarrow> component \<Rightarrow> component" where
  "valued_component addr_hex ps c = (case component_worth addr_hex ps c of None \<Rightarrow> c
     | Some (price, value) \<Rightarrow> c\<lparr>comp_price := Some price, comp_value := Some value\<rparr>)"

text \<open>The values of the components of the kinds \<open>P\<close>, in order.\<close>

definition worths :: "(address \<Rightarrow> string) \<Rightarrow> prices \<Rightarrow> (string \<Rightarrow> bool) \<Rightarrow> component list \<Rightarrow> f64 list" where
  "worths addr_hex ps P cs = List.map_filter (\<lambda>c. if P (comp_kind c)
     then map_option snd (component_worth addr_hex ps c) else None) cs"

definition float_sum :: "f64 \<Rightarrow> f64 list \<Rightarrow> f64" where
  "float_sum a xs = foldl f64_add a xs"

definition group_net :: "(address \<Rightarrow> string) \<Rightarrow> prices \<Rightarrow> f64 \<Rightarrow> component list \<Rightarrow> f64" where
  "group_net addr_hex ps a cs = foldl (\<lambda>t c. case component_worth addr_hex ps c of None \<Rightarrow> t
     | Some (price, value) \<Rightarrow> if comp_kind c = ''debt'' then f64_sub t value else f64_add t value) a cs"

definition group_value :: "(address \<Rightarrow> string) \<Rightarrow> prices \<Rightarrow> group \<Rightarrow> f64 option" where
  "group_value addr_hex ps g = (if list_ex (\<lambda>c. component_worth addr_hex ps c \<noteq> None) (grp_components g)
     then Some (applyFloorZero (group_net addr_hex ps (Fin 0) (grp_components g)) (grp_policy g)) else None)"

definition valued_group :: "(address \<Rightarrow> string) \<Rightarrow> prices \<Rightarrow> group \<Rightarrow> group" where
  "valued_group addr_hex ps g = (let g' = g\<lparr>grp_components := map (valued_component addr_hex ps) (grp_components g)\<rparr>
     in case group_value addr_hex ps g of None \<Rightarrow> g' | Some v \<Rightarrow> g'\<lparr>grp_value := Some v\<rparr>)"

definition snapshot_value :: "(address \<Rightarrow> string) \<Rightarrow> prices \<Rightarrow> snapshot \<Rightarrow> f64 option" where
  "snapshot_value addr_hex ps s = (let vs = List.map_filter (group_value addr_hex ps) (snap_groups s) in
     if vs = [] then None else Some (applyFloorZero (float_sum (Fin 0) vs) (snap_policy s)))"

definition valued_snapshot :: "(address \<Rightarrow> string) \<Rightarrow> prices \<Rightarrow> snapshot \<Rightarrow> snapshot" where
  "valued_snapshot addr_hex ps s = (let s' = s\<lparr>snap_groups := map (valued_group addr_hex ps) (snap_groups s)\<rparr>
     in case snapshot_value addr_hex ps s of None \<Rightarrow> s' | Some v \<Rightarrow> s'\<lparr>snap_value := Some v\<rparr>)"

definition snap_components :: "snapshot \<Rightarrow> component list" where
  "snap_components s = concat (map grp_components (snap_groups s))"

definition add_components :: "(address \<Rightarrow> string) \<Rightarrow> prices \<Rightarrow> protocol_summary \<Rightarrow> component list \<Rightarrow> protocol_summary" where
  "add_components addr_hex ps s cs = s\<lparr>
     sum_count := sum_count s + length cs,
     sum_priced := sum_priced s + length (worths addr_hex ps (\<lambda>_. True) cs),
     sum_debt := float_sum (sum_debt s) (worths addr_hex ps (\<lambda>k. k = ''debt'') cs),
     sum_reward := float_sum (sum_reward s) (worths addr_hex ps (\<lambda>k. k = ''reward'') cs),
     sum_asset := float_sum (sum_asset s) (worths addr_hex ps (\<lambda>k. k \<noteq> ''debt'' \<and> k \<noteq> ''reward'') cs)\<rparr>"

lemma value_components_exact:
  "list_all (component_ok addr_hex ps) cs \<Longrightarrow>
   value_components addr_hex ps pid cs s tot priced = (map (valued_component addr_hex ps) cs,
     Inr (add_components addr_hex ps s cs, group_net addr_hex ps tot cs,
       priced \<or> list_ex (\<lambda>c. component_worth addr_hex ps c \<noteq> None) cs))"
proof (induction cs arbitrary: s tot priced)
  case Nil
  then show ?case by (simp add: add_components_def worths_def group_net_def float_sum_def List.map_filter_def)
next
  case (Cons c cs)
  then have "price_component addr_hex ps c = Inr (component_worth addr_hex ps c)"
    using component_ok_worth by simp
  then show ?case using Cons
    by (cases "component_worth addr_hex ps c")
      (auto simp: Let_def add_components_def worths_def group_net_def float_sum_def valued_component_def
        add_value_def add_total_def map_filter_simps split: prod.splits)
qed

lemma add_components_append:
  "add_components addr_hex ps (add_components addr_hex ps s cs) ds = add_components addr_hex ps s (cs @ ds)"
  by (simp add: add_components_def worths_def float_sum_def List.map_filter_def)

lemma value_groups_exact:
  "list_all (component_ok addr_hex ps) (concat (map grp_components gs)) \<Longrightarrow>
   value_groups addr_hex ps pid gs s tot priced = (map (valued_group addr_hex ps) gs,
     Inr (add_components addr_hex ps s (concat (map grp_components gs)),
       float_sum tot (List.map_filter (group_value addr_hex ps) gs),
       priced \<or> List.map_filter (group_value addr_hex ps) gs \<noteq> []))"
proof (induction gs arbitrary: s tot priced)
  case Nil
  then show ?case by (simp add: add_components_def worths_def float_sum_def List.map_filter_def)
next
  case (Cons g gs)
  have ok: "list_all (component_ok addr_hex ps) (grp_components g)" using Cons.prems by simp
  show ?case
  proof (cases "group_value addr_hex ps g")
    case None
    then have "\<not> list_ex (\<lambda>c. component_worth addr_hex ps c \<noteq> None) (grp_components g)"
      by (simp add: group_value_def split: if_splits)
    then show ?thesis using Cons None
      by (simp add: Let_def value_components_exact [OF ok] valued_group_def add_components_append map_filter_simps)
  next
    case (Some v)
    then have "list_ex (\<lambda>c. component_worth addr_hex ps c \<noteq> None) (grp_components g)"
      "v = applyFloorZero (group_net addr_hex ps (Fin 0) (grp_components g)) (grp_policy g)"
      by (simp_all add: group_value_def split: if_splits)
    then show ?thesis using Cons Some
      by (simp add: Let_def value_components_exact [OF ok] valued_group_def add_components_append
          map_filter_simps float_sum_def)
  qed
qed

text \<open>The summary of a protocol over the snapshots \<open>snaps\<close> that are its own.\<close>

definition summary_base :: "(address \<Rightarrow> string) \<Rightarrow> prices \<Rightarrow> snapshot list \<Rightarrow> protocol_summary" where
  "summary_base addr_hex ps snaps = (let cs = concat (map snap_components snaps) in
     \<lparr>sum_protocol = snap_protocol (hd snaps), sum_name = snap_name (hd snaps),
      sum_total = float_sum (Fin 0) (List.map_filter (snapshot_value addr_hex ps) snaps),
      sum_asset = float_sum (Fin 0) (worths addr_hex ps (\<lambda>k. k \<noteq> ''debt'' \<and> k \<noteq> ''reward'') cs),
      sum_debt = float_sum (Fin 0) (worths addr_hex ps (\<lambda>k. k = ''debt'') cs),
      sum_reward = float_sum (Fin 0) (worths addr_hex ps (\<lambda>k. k = ''reward'') cs),
      sum_priced = length (worths addr_hex ps (\<lambda>_. True) cs), sum_count = length cs, sum_chains = []\<rparr>)"

definition step_state :: "(address \<Rightarrow> string) \<Rightarrow> prices \<Rightarrow> summary_states \<Rightarrow> snapshot \<Rightarrow> summary_states" where
  "step_state addr_hex ps states snap = (let st = enter_snapshot states snap;
       s = add_components addr_hex ps (st_summary st) (snap_components snap);
       s' = (case snapshot_value addr_hex ps snap of None \<Rightarrow> s | Some v \<Rightarrow> s\<lparr>sum_total := f64_add (sum_total s) v\<rparr>)
     in AList.update (snap_protocol snap) (st\<lparr>st_summary := s'\<rparr>) states)"

lemma value_snapshots_exact:
  "list_all (component_ok addr_hex ps) (concat (map snap_components snaps)) \<Longrightarrow>
   value_snapshots addr_hex ps snaps states = (map (valued_snapshot addr_hex ps) snaps,
     Inr (foldl (step_state addr_hex ps) states snaps))"
proof (induction snaps arbitrary: states)
  case (Cons snap snaps)
  have ok: "list_all (component_ok addr_hex ps) (concat (map grp_components (snap_groups snap)))"
    using Cons.prems by (simp add: snap_components_def)
  show ?case
  proof (cases "snapshot_value addr_hex ps snap")
    case None
    then have "List.map_filter (group_value addr_hex ps) (snap_groups snap) = []"
      by (simp add: snapshot_value_def Let_def split: if_splits)
    then show ?thesis using Cons None
      by (simp add: Let_def value_groups_exact [OF ok] valued_snapshot_def step_state_def snap_components_def)
  next
    case (Some v)
    then have "List.map_filter (group_value addr_hex ps) (snap_groups snap) \<noteq> []"
      "v = applyFloorZero (float_sum (Fin 0) (List.map_filter (group_value addr_hex ps) (snap_groups snap)))
         (snap_policy snap)"
      by (simp_all add: snapshot_value_def Let_def split: if_splits)
    then show ?thesis using Cons Some
      by (simp add: Let_def value_groups_exact [OF ok] valued_snapshot_def step_state_def snap_components_def)
  qed
qed simp

abbreviation of_protocol :: "string \<Rightarrow> snapshot list \<Rightarrow> snapshot list" where
  "of_protocol pid \<equiv> filter (\<lambda>s. snap_protocol s = pid)"

text \<open>The state of a protocol after the snapshots \<open>snaps\<close>.\<close>

definition state_holds :: "(address \<Rightarrow> string) \<Rightarrow> prices \<Rightarrow> snapshot list \<Rightarrow> summaryState option \<Rightarrow> bool" where
  "state_holds addr_hex ps own st \<longleftrightarrow> (case st of None \<Rightarrow> own = []
     | Some st \<Rightarrow> own \<noteq> [] \<and> st_summary st = summary_base addr_hex ps own
         \<and> set (st_chains st) = snap_chain ` set own)"

lemma summary_base_single:
  "summary_base addr_hex ps [snap] = (let s = add_components addr_hex ps (st_summary (new_state snap)) (snap_components snap)
     in case snapshot_value addr_hex ps snap of None \<Rightarrow> s | Some v \<Rightarrow> s\<lparr>sum_total := f64_add (sum_total s) v\<rparr>)"
  by (simp add: summary_base_def add_components_def new_state_def map_filter_simps float_sum_def Let_def split: option.split)

lemma summary_base_snoc:
  "own \<noteq> [] \<Longrightarrow> snap_protocol snap = snap_protocol (hd own) \<Longrightarrow>
   summary_base addr_hex ps (own @ [snap]) = (let s = add_components addr_hex ps (summary_base addr_hex ps own) (snap_components snap)
     in case snapshot_value addr_hex ps snap of None \<Rightarrow> s | Some v \<Rightarrow> s\<lparr>sum_total := f64_add (sum_total s) v\<rparr>)"
  by (simp add: summary_base_def add_components_def float_sum_def Let_def worths_def List.map_filter_def split: option.split)

lemma states_hold:
  "state_holds addr_hex ps (of_protocol pid snaps) (map_of (foldl (step_state addr_hex ps) [] snaps) pid)"
proof (induction snaps rule: rev_induct)
  case Nil
  then show ?case by (simp add: state_holds_def)
next
  case (snoc snap snaps)
  define states where "states = foldl (step_state addr_hex ps) [] snaps"
  have hold: "state_holds addr_hex ps (of_protocol pid snaps) (map_of states pid)"
    using snoc by (simp add: states_def)
  have "state_holds addr_hex ps (of_protocol pid (snaps @ [snap])) (map_of (step_state addr_hex ps states snap) pid)"
  proof (cases "snap_protocol snap = pid")
    case False
    then show ?thesis using hold by (simp add: step_state_def Let_def update_conv)
  next
    case True
    show ?thesis
    proof (cases "map_of states pid")
      case None
      then have "of_protocol pid snaps = []" using hold by (simp add: state_holds_def)
      then show ?thesis using True None
        by (simp add: state_holds_def step_state_def Let_def update_conv enter_snapshot_def
            summary_base_single new_state_def split: option.split)
    next
      case (Some st)
      let ?own = "of_protocol pid snaps"
      have own: "?own \<noteq> []" "st_summary st = summary_base addr_hex ps ?own" "set (st_chains st) = snap_chain ` set ?own"
        using hold Some by (simp_all add: state_holds_def)
      then have "snap_protocol (hd ?own) = pid" by (metis (mono_tags, lifting) hd_in_set mem_Collect_eq set_filter)
      then show ?thesis using True Some own
        by (simp add: state_holds_def step_state_def Let_def update_conv enter_snapshot_def summary_base_snoc
            split: option.split)
    qed
  qed  then show ?case by (simp add: states_def)
qed

definition protocol_summary_of :: "(address \<Rightarrow> string) \<Rightarrow> prices \<Rightarrow> snapshot list \<Rightarrow> protocol_info \<Rightarrow> protocol_summary option" where
  "protocol_summary_of addr_hex ps snaps p = (let own = of_protocol (info_id p) snaps in
     if own = [] then None
     else Some ((summary_base addr_hex ps own)\<lparr>sum_chains := filter (\<lambda>c. c \<in> snap_chain ` set own) SupportedChainIDs\<rparr>))"

lemma protocol_summaries_exact:
  assumes "distinct (map info_id protocols)"
    and "\<forall>p \<in> set protocols. state_holds addr_hex ps (of_protocol (info_id p) snaps) (map_of states (info_id p))"
  shows "protocol_summaries states protocols = List.map_filter (protocol_summary_of addr_hex ps snaps) protocols"
  using assms
proof (induction protocols arbitrary: states)
  case (Cons p protocols)
  show ?case
  proof (cases "map_of states (info_id p)")
    case None
    then have "protocol_summary_of addr_hex ps snaps p = None"
      using Cons.prems(2) by (simp add: state_holds_def protocol_summary_of_def)
    then show ?thesis using Cons None by (simp add: map_filter_simps)
  next
    case (Some st)
    let ?own = "of_protocol (info_id p) snaps"
    let ?s = "(summary_base addr_hex ps ?own)\<lparr>sum_chains := filter (\<lambda>c. c \<in> snap_chain ` set ?own) SupportedChainIDs\<rparr>"
    let ?states = "AList.update (info_id p) (st\<lparr>st_summary := ?s\<rparr>) states"
    have own: "?own \<noteq> []" "st_summary st = summary_base addr_hex ps ?own" "set (st_chains st) = snap_chain ` set ?own"
      using Cons.prems(2) Some by (simp_all add: state_holds_def)
    have "sum_chains (summary_base addr_hex ps ?own) = []" by (simp add: summary_base_def Let_def)
    then have "protocol_summaries states (p # protocols) = ?s # protocol_summaries ?states protocols"
      using Some own by (simp add: Let_def)
    moreover have "\<forall>q \<in> set protocols. state_holds addr_hex ps (of_protocol (info_id q) snaps) (map_of ?states (info_id q))"
    proof
      fix q assume q: "q \<in> set protocols"
      then have "info_id q \<noteq> info_id p" using Cons.prems(1) by (auto simp: image_iff)
      then show "state_holds addr_hex ps (of_protocol (info_id q) snaps) (map_of ?states (info_id q))"
        using Cons.prems(2) q by (simp add: update_conv)
    qed
    ultimately show ?thesis using Cons own by (simp add: map_filter_simps protocol_summary_of_def Let_def)
  qed
qed (simp add: map_filter_simps)

section \<open>The properties of a valuation\<close>

text \<open>A valuation touches nothing but prices and values: whether it succeeds or stops, the
  snapshots keep every group, component, amount, token and source, in order.\<close>

lemma applyValuations_frame:
  "map bare_snapshot (fst (applyValuations addr_hex snaps ps protocols)) = map bare_snapshot snaps"
  using value_snapshots_bare [of addr_hex ps snaps "[]"] by (simp add: applyValuations_def split_beta)

text \<open>C7: when every component can be valued the scan is: each component that has a price gets it
  and its value, a group's value is the sum of its values with debts subtracted, floored where its
  policy says so, a snapshot's the floored sum of its groups', and there is one summary per
  protocol that has a snapshot, in the order of the protocols, whose counts, totals by kind, net
  total and chains are those of its own snapshots.\<close>

theorem applyValuations_exact:
  assumes "distinct (map info_id protocols)"
    and "list_all (component_ok addr_hex ps) (concat (map snap_components snaps))"
  shows "applyValuations addr_hex snaps ps protocols = (map (valued_snapshot addr_hex ps) snaps,
     Inr (List.map_filter (protocol_summary_of addr_hex ps snaps) protocols))"
proof -
  have "\<forall>p \<in> set protocols. state_holds addr_hex ps (of_protocol (info_id p) snaps)
      (map_of (foldl (step_state addr_hex ps) [] snaps) (info_id p))" using states_hold by blast
  from protocol_summaries_exact [OF assms(1) this] show ?thesis
    by (simp add: applyValuations_def value_snapshots_exact [OF assms(2)])
qed

text \<open>A floored position never reports a negative net value.\<close>

lemma floored_never_negative:
  assumes "grp_policy g = ''floor-zero''" and "snap_policy s = ''floor-zero''"
    and "grp_value g = None" and "snap_value s = None"
  shows "(case grp_value (valued_group addr_hex ps g) of None \<Rightarrow> True | Some v \<Rightarrow> \<not> f64_less v (Fin 0))
     \<and> (case snap_value (valued_snapshot addr_hex ps s) of None \<Rightarrow> True | Some v \<Rightarrow> \<not> f64_less v (Fin 0))"
proof -
  have floor: "\<not> f64_less (applyFloorZero v ''floor-zero'') (Fin 0)" for v
    by (simp add: applyFloorZero_def)
  show ?thesis using assms floor
    by (auto simp: valued_group_def valued_snapshot_def group_value_def snapshot_value_def Let_def split: option.split)
qed

definition floored_snapshot :: snapshot where
  "floored_snapshot = (demo_snapshot Base False 5)\<lparr>snap_policy := ''floor-zero'',
     snap_groups := map (\<lambda>g. g\<lparr>grp_policy := ''floor-zero'',
       grp_components := map (\<lambda>c. c\<lparr>comp_kind := ''debt''\<rparr>) (grp_components g)\<rparr>)
       (snap_groups (demo_snapshot Base False 5))\<rparr>"

text \<open>A debt of 7 units of \<open>10 ^ -18\<close> at a price of \<open>10 ^ 18\<close>.\<close>

lemma representable_7: "representable 7" "representable (- 7)"
  using representable_of_int [of 7] representable_of_int [of "- 7"] by simp_all

lemma floored_component:
  "component_worth address_hex [PriceKey address_hex (demo_token Base 5) \<mapsto> Fin (10 ^ 18)]
     ((NewComponent ''asset'' (demo_token Base 5) 7 \<lparr>src_contract = 5, src_method = ''balanceOf'', src_holds = None\<rparr>)
       \<lparr>comp_kind := ''debt''\<rparr>) = Some (Fin (10 ^ 18), Fin 7)"
  by (simp add: component_worth_def price_component_def componentPrice_def priceToken_def NewComponent_def
      componentValueUSD_def unusable_price_def component_denominator_def demo_token_def
      round64_exact [OF representable_7(1)])

theorem applyValuations_exact_witness:
  "applyValuations address_hex [floored_snapshot] [PriceKey address_hex (demo_token Base 5) \<mapsto> Fin (10 ^ 18)]
     [\<lparr>info_id = ''wallet'', info_name = ''Wallet'', info_chains = [Base]\<rparr>]
   = ([valued_snapshot address_hex [PriceKey address_hex (demo_token Base 5) \<mapsto> Fin (10 ^ 18)] floored_snapshot],
      Inr [\<lparr>sum_protocol = ''wallet'', sum_name = ''Wallet'', sum_total = Fin 0, sum_asset = Fin 0,
        sum_debt = Fin 7, sum_reward = Fin 0, sum_priced = 1, sum_count = 1, sum_chains = [Base]\<rparr>])"
proof -
  let ?ps = "[PriceKey address_hex (demo_token Base 5) \<mapsto> Fin (10 ^ 18)]"
  let ?p = "\<lparr>info_id = ''wallet'', info_name = ''Wallet'', info_chains = [Base]\<rparr>"
  have ok: "list_all (component_ok address_hex ?ps) (concat (map snap_components [floored_snapshot]))"
    using floored_component
    by (auto simp: component_ok_def component_worth_def floored_snapshot_def demo_snapshot_def snap_components_def
        split: sum.splits)
  have "protocol_summary_of address_hex ?ps [floored_snapshot] ?p = Some \<lparr>sum_protocol = ''wallet'', sum_name = ''Wallet'',
      sum_total = Fin 0, sum_asset = Fin 0, sum_debt = Fin 7, sum_reward = Fin 0, sum_priced = 1, sum_count = 1,
      sum_chains = [Base]\<rparr>"
    using floored_component round64_exact [OF representable_7(1)] round64_exact [OF representable_7(2)]
    by (simp add: protocol_summary_of_def summary_base_def snapshot_value_def floored_snapshot_def demo_snapshot_def
        map_filter_simps group_value_def group_net_def f64_sub_def applyFloorZero_def float_sum_def snap_components_def
        worths_def SupportedChainIDs_def chain_defs)
  then show ?thesis using applyValuations_exact [OF _ ok, of "[?p]"] by (simp add: map_filter_simps)
qed

end
