(* ===== verification/Wallet.thy ===== *)
theory Wallet
  imports Types
begin

text \<open>
  \<open>wallet.go\<close>: the native balance group, the token contracts a protocol position already counted,
  and the removal of wallet holdings those positions report. A client's \<open>NativeBalance\<close> is a
  parameter.
\<close>

definition walletProtocolID :: string where
  "walletProtocolID = ''wallet''"

definition walletNativeCoin :: "(chain_id \<times> string \<times> address) list" where
  "walletNativeCoin = [
     (Ethereum, ''ETH'', 0xC02aaA39b223FE8D0A0e5C4F27eAD9083C756Cc2),
     (BSC, ''BNB'', 0xbb4CdB9CBd36B01bD1cBaEBF2De08d9173bc095c),
     (Base, ''ETH'', 0x4200000000000000000000000000000000000006),
     (Arbitrum, ''ETH'', 0x82aF49447D8a07e3bd95BD0d56f35241523fBab1),
     (Polygon, ''POL'', 0x0d500B1d8E8eF31E21C99d1Db9A6444d3ADf1270),
     (Monad, ''MON'', 0x3bd359C1119dA7Da1D913D1C4D2B7c461115433A),
     (Plasma, ''XPL'', 0x6100E367285b01F48D07953803A2d8dCA5D19873),
     (Avalanche, ''AVAX'', 0xB31f66AA3C1e785363F0875A1B74E27b85FD66c7),
     (Optimism, ''ETH'', 0x4200000000000000000000000000000000000006),
     (HyperEVM, ''HYPE'', 0x5555555555555555555555555555555555555555),
     (Robinhood, ''ETH'', 0x0Bd7D308f8E1639FAb988df18A8011f41EAcAD73)]"

definition newWalletAdapter_info :: protocol_info where
  "newWalletAdapter_info = \<lparr>info_id = walletProtocolID, info_name = ''Wallet'', info_chains = SupportedChainIDs\<rparr>"

definition walletNativeGroupID :: string where
  "walletNativeGroupID = ''wallet:native''"

definition walletTokenGroupID :: "(address \<Rightarrow> string) \<Rightarrow> address \<Rightarrow> string" where
  "walletTokenGroupID addr_hex a = ''wallet:token:'' @ ToLower (addr_hex a)"

datatype wallet_error = NativeBalanceFailed string go_error

text \<open>The group of a native amount of a coin (the same in both places that build it).\<close>

definition native_group_of :: "chain_id \<Rightarrow> string \<times> address \<Rightarrow> int \<Rightarrow> source \<Rightarrow> group" where
  "native_group_of chain coin amount src =
     (let t = \<lparr>tok_chain = chain, tok_address = snd coin, tok_symbol = fst coin, tok_decimals = 18\<rparr>;
          c = (NewComponent ''asset'' t amount src)\<lparr>comp_metadata := [(''native'', MetaBool True)]\<rparr>
      in \<lparr>grp_id = walletNativeGroupID, grp_market = [], grp_label = fst coin, grp_components = [c],
          grp_policy = [], grp_value = None, grp_metadata = [(''holding'', MetaString ''native'')]\<rparr>)"

definition nativeGroup ::
  "(block_ref \<Rightarrow> address \<Rightarrow> go_error + int) \<Rightarrow> block_ref \<Rightarrow> address \<Rightarrow> wallet_error + group list" where
  "nativeGroup native_balance block account = (case map_of walletNativeCoin (block_chain block) of
     None \<Rightarrow> Inr []
   | Some coin \<Rightarrow> (case native_balance block account of
       Inl e \<Rightarrow> Inl (NativeBalanceFailed (fst coin) e)
     | Inr balance \<Rightarrow>
         if balance = 0 then Inr []
         else Inr [native_group_of (block_chain block) coin balance
           \<lparr>src_contract = 0, src_method = ''eth_getBalance'', src_holds = None\<rparr>]))"

section \<open>Holdings a position already counted\<close>

type_synonym holdingScope = "chain_id \<times> address"

definition groupAccount :: "snapshot \<Rightarrow> group \<Rightarrow> address" where
  "groupAccount s g = (case map_of (grp_metadata g) ''attributedAccount'' of
     Some (MetaAddress a) \<Rightarrow> a | _ \<Rightarrow> snap_account s)"

definition heldContracts :: "source \<Rightarrow> address list" where
  "heldContracts src = (case src_holds src of
     Some holds \<Rightarrow> holds
   | None \<Rightarrow> if src_contract src = 0 \<or> \<not> contains ''balanceOf'' (src_method src) then []
       else [src_contract src])"

text \<open>
  The nested map, as its entries: an inner map exists only with an entry, so the outer map is empty
  exactly when there is none.
\<close>

definition group_held :: "snapshot \<Rightarrow> group \<Rightarrow> (holdingScope \<times> address) list" where
  "group_held s g = map (Pair (snap_chain s, groupAccount s g))
     (concat (map (heldContracts \<circ> comp_source) (grp_components g)))"

definition walletHeldContracts :: "snapshot list \<Rightarrow> (holdingScope \<times> address) list" where
  "walletHeldContracts snapshots = concat (map (\<lambda>s. if snap_protocol s = walletProtocolID then []
     else concat (map (group_held s) (snap_groups s))) snapshots)"

definition duplicate_holding :: "(holdingScope \<times> address) list \<Rightarrow> snapshot \<Rightarrow> group \<Rightarrow> bool" where
  "duplicate_holding held s g \<longleftrightarrow>
     length (grp_components g) = 1 \<and> map_of (grp_metadata g) ''holding'' = Some (MetaString ''token'')
     \<and> ((snap_chain s, groupAccount s g), tok_address (comp_token (grp_components g ! 0))) \<in> set held"

definition suppress_snapshot :: "(holdingScope \<times> address) list \<Rightarrow> snapshot \<Rightarrow> snapshot list" where
  "suppress_snapshot held s = (if snap_protocol s \<noteq> walletProtocolID \<or> held = [] then [s]
     else let groups = filter (\<lambda>g. \<not> duplicate_holding held s g) (snap_groups s) in
       if groups = [] then [] else [s\<lparr>snap_groups := groups\<rparr>])"

definition suppressDuplicateHoldings :: "snapshot list \<Rightarrow> snapshot list" where
  "suppressDuplicateHoldings snapshots =
     concat (map (suppress_snapshot (walletHeldContracts snapshots)) snapshots)"

section \<open>No balance is counted twice, and nothing else is dropped\<close>

text \<open>The groups of a scan, each with its snapshot's identity.\<close>

definition placed_groups :: "snapshot list \<Rightarrow> (snapshot \<times> group) list" where
  "placed_groups ss = concat (map (\<lambda>s. map (Pair (s\<lparr>snap_groups := []\<rparr>)) (snap_groups s)) ss)"

text \<open>
  What counting twice means, apart from the code's map of held contracts. A group is its attributed
  account's, or its snapshot's account's when it names none. A source counts a token's balance when
  it declares the token as held or, declaring nothing, when it is a balance read of that contract.
  A wallet group is counted twice when it is a token holding of one component whose token a
  position of another protocol, on the same chain and for the same account, counted.
\<close>

definition owned_by :: "snapshot \<Rightarrow> group \<Rightarrow> address \<Rightarrow> bool" where
  "owned_by s g a \<longleftrightarrow> map_of (grp_metadata g) ''attributedAccount'' = Some (MetaAddress a)
     \<or> a = snap_account s \<and> (\<forall>b. map_of (grp_metadata g) ''attributedAccount'' \<noteq> Some (MetaAddress b))"

definition counts_balance :: "source \<Rightarrow> address \<Rightarrow> bool" where
  "counts_balance src token \<longleftrightarrow> (\<exists>holds. src_holds src = Some holds \<and> token \<in> set holds)
     \<or> src_holds src = None \<and> src_contract src = token \<and> token \<noteq> 0
       \<and> (\<exists>before after. src_method src = before @ ''balanceOf'' @ after)"

definition double_counted :: "snapshot list \<Rightarrow> snapshot \<times> group \<Rightarrow> bool" where
  "double_counted ss = (\<lambda>(s, g). snap_protocol s = ''wallet''
     \<and> map_of (grp_metadata g) ''holding'' = Some (MetaString ''token'')
     \<and> (\<exists>c p h d a. grp_components g = [c] \<and> owned_by s g a
         \<and> p \<in> set ss \<and> snap_protocol p \<noteq> ''wallet'' \<and> snap_chain p = snap_chain s
         \<and> h \<in> set (snap_groups p) \<and> owned_by p h a
         \<and> d \<in> set (grp_components h) \<and> counts_balance (comp_source d) (tok_address (comp_token c))))"

lemma is_prefix_iff: "is_prefix p s \<longleftrightarrow> (\<exists>after. s = p @ after)"
  by (induction p s rule: is_prefix.induct) auto

lemma contains_iff: "contains p s \<longleftrightarrow> (\<exists>before after. s = before @ p @ after)"
proof (induction s)
  case (Cons c s)
  have "(\<exists>before after. c # s = before @ p @ after)
      \<longleftrightarrow> (\<exists>after. c # s = p @ after) \<or> (\<exists>before after. s = before @ p @ after)"
  proof
    assume "\<exists>before after. c # s = before @ p @ after"
    then obtain before after where "c # s = before @ p @ after" by blast
    then show "(\<exists>after. c # s = p @ after) \<or> (\<exists>before after. s = before @ p @ after)" by (cases before) auto
  next
    assume "(\<exists>after. c # s = p @ after) \<or> (\<exists>before after. s = before @ p @ after)"
    then show "\<exists>before after. c # s = before @ p @ after" by (metis append_Cons append_Nil)
  qed
  then show ?case using Cons by (simp add: is_prefix_iff)
qed auto

lemma owned_by_account: "owned_by s g a \<longleftrightarrow> groupAccount s g = a"
  by (auto simp: owned_by_def groupAccount_def split: option.splits meta_value.splits)

lemma counts_balance_held: "counts_balance src token \<longleftrightarrow> token \<in> set (heldContracts src)"
  by (auto simp: counts_balance_def heldContracts_def contains_iff split: option.splits)

lemma held_by_position:
  "((chain, a), token) \<in> set (walletHeldContracts ss) \<longleftrightarrow> (\<exists>p h d. p \<in> set ss \<and> snap_protocol p \<noteq> walletProtocolID
     \<and> snap_chain p = chain \<and> h \<in> set (snap_groups p) \<and> groupAccount p h = a
     \<and> d \<in> set (grp_components h) \<and> token \<in> set (heldContracts (comp_source d)))"
  by (fastforce simp: walletHeldContracts_def group_held_def)

lemma double_counted_duplicate:
  "double_counted ss sg \<longleftrightarrow> snap_protocol (fst sg) = walletProtocolID
     \<and> duplicate_holding (walletHeldContracts ss) (fst sg) (snd sg)"
  by (cases sg) (auto simp: double_counted_def duplicate_holding_def owned_by_account counts_balance_held
      held_by_position walletProtocolID_def length_Suc_conv; blast)

lemma groupAccount_groups [simp]: "groupAccount (s\<lparr>snap_groups := gs\<rparr>) g = groupAccount s g"
  by (simp add: groupAccount_def split: option.split meta_value.split)

lemma duplicate_holding_groups [simp]:
  "duplicate_holding held (s\<lparr>snap_groups := gs\<rparr>) g = duplicate_holding held s g"
  by (simp add: duplicate_holding_def)

lemma duplicate_holding_nil [simp]: "\<not> duplicate_holding [] s g"
  by (simp add: duplicate_holding_def)

lemma held_suppressed: "walletHeldContracts (suppress_snapshot held s) = walletHeldContracts [s]"
  by (simp add: suppress_snapshot_def walletHeldContracts_def Let_def)

lemma held_append: "walletHeldContracts (ss @ ts) = walletHeldContracts ss @ walletHeldContracts ts"
  by (simp add: walletHeldContracts_def)

lemma held_concat_suppressed:
  "walletHeldContracts (concat (map (suppress_snapshot held) ss)) = walletHeldContracts ss"
proof (induction ss)
  case (Cons s ss)
  then show ?case using held_append [of "[s]" ss] by (simp add: held_append held_suppressed)
qed simp

lemma placed_append: "placed_groups (ss @ ts) = placed_groups ss @ placed_groups ts"
  by (simp add: placed_groups_def)

lemma placed_suppressed:
  "placed_groups (suppress_snapshot held s) = filter (\<lambda>sg. \<not> (snap_protocol (fst sg) = walletProtocolID
     \<and> duplicate_holding held (fst sg) (snd sg))) (placed_groups [s])"
  by (auto simp: placed_groups_def suppress_snapshot_def Let_def filter_map comp_def filter_empty_conv
      intro: filter_True [symmetric])

lemma suppressed_groups:
  "placed_groups (suppressDuplicateHoldings ss) = filter (\<lambda>sg. \<not> double_counted ss sg) (placed_groups ss)"
proof -
  have "placed_groups (concat (map (suppress_snapshot held) ts)) = filter (\<lambda>sg.
      \<not> (snap_protocol (fst sg) = walletProtocolID \<and> duplicate_holding held (fst sg) (snd sg))) (placed_groups ts)"
    for held ts
  proof (induction ts)
    case (Cons t ts)
    then show ?case using placed_append [of "[t]" ts] by (simp add: placed_append placed_suppressed)
  qed (simp add: placed_groups_def)
  then show ?thesis by (simp add: suppressDuplicateHoldings_def double_counted_duplicate)
qed

lemma suppressed_positions:
  "filter (\<lambda>s. snap_protocol s \<noteq> walletProtocolID) (suppressDuplicateHoldings ss)
      = filter (\<lambda>s. snap_protocol s \<noteq> walletProtocolID) ss"
proof -
  have "filter (\<lambda>s. snap_protocol s \<noteq> walletProtocolID) (concat (map (suppress_snapshot held) ts))
      = filter (\<lambda>s. snap_protocol s \<noteq> walletProtocolID) ts" for held ts
    by (induction ts) (simp_all add: suppress_snapshot_def Let_def)
  then show ?thesis by (simp add: suppressDuplicateHoldings_def)
qed

text \<open>Suppression is idempotent.\<close>

lemma suppressDuplicateHoldings_stable:
  "suppressDuplicateHoldings (suppressDuplicateHoldings ss) = suppressDuplicateHoldings ss"
proof -
  have again: "concat (map (suppress_snapshot held) (suppress_snapshot held s)) = suppress_snapshot held s" for held s
    by (simp add: suppress_snapshot_def Let_def filter_empty_conv)
  have "concat (map (suppress_snapshot held) (concat (map (suppress_snapshot held) ts)))
      = concat (map (suppress_snapshot held) ts)" for held ts
    by (induction ts) (simp_all add: again)
  then show ?thesis
    by (simp add: suppressDuplicateHoldings_def [of "suppressDuplicateHoldings ss"])
      (simp add: suppressDuplicateHoldings_def held_concat_suppressed)
qed

text \<open>C18: the groups of a scan after suppression are those before it, in order and unchanged, less
  exactly the wallet's groups that are counted twice: token holdings of one component whose token a
  position of another protocol on the same chain and for the same account declares as held, or,
  declaring nothing, read the balance of. Every snapshot of a position survives whole, and what the
  positions hold is not changed by it.\<close>

theorem suppressDuplicateHoldings_exact:
  "placed_groups (suppressDuplicateHoldings ss) = filter (\<lambda>sg. \<not> double_counted ss sg) (placed_groups ss)
   \<and> filter (\<lambda>s. snap_protocol s \<noteq> ''wallet'') (suppressDuplicateHoldings ss) = filter (\<lambda>s. snap_protocol s \<noteq> ''wallet'') ss
   \<and> walletHeldContracts (suppressDuplicateHoldings ss) = walletHeldContracts ss"
  by (intro conjI suppressed_groups suppressed_positions [unfolded walletProtocolID_def])
    (simp add: suppressDuplicateHoldings_def held_concat_suppressed)

end
