(* ===== verification/Rpc.thy ===== *)
theory Rpc
  imports Abi
begin

text \<open>
  \<open>rpc.go\<close>: which transport errors are retried, the three retry loops, the batches of sixteen, the
  settled head, and \<open>readToken\<close> and \<open>executionReverted\<close> beside them. The transport is a parameter:
  what it answers to each attempt. The wait between attempts is a parameter too, \<open>Some e\<close> when the
  context ended during it.
\<close>

section \<open>Errors\<close>

text \<open>
  An error as \<open>errors.As\<close> and \<open>errors.Is\<close> see it through its wrapping: its message, the status of
  an \<open>rpc.HTTPError\<close> in its chain, the code and message of an \<open>rpc.Error\<close>, and whether
  \<open>errEmptyContractResult\<close> is in it.
\<close>

record rpc_error =
  re_text :: string
  re_http :: "int option"
  re_code :: "(int \<times> string) option"
  re_empty :: bool

definition plain_error :: "string \<Rightarrow> rpc_error" where
  "plain_error s = \<lparr>re_text = s, re_http = None, re_code = None, re_empty = False\<rparr>"

text \<open>\<open>fmt.Errorf("...: %w", err)\<close>\<close>

definition wrap :: "string \<Rightarrow> rpc_error \<Rightarrow> rpc_error" where
  "wrap prefix e = e\<lparr>re_text := prefix @ re_text e\<rparr>"

text \<open>\<open>redactEndpoints\<close> changes the message and keeps the cause reachable.\<close>

definition redact_error :: "rpc_error \<Rightarrow> rpc_error" where
  "redact_error e = e\<lparr>re_text := redact_urls False (re_text e)\<rparr>"

definition retryableRPCError :: "rpc_error option \<Rightarrow> bool" where
  "retryableRPCError err = (case err of None \<Rightarrow> False
     | Some e \<Rightarrow> (case re_http e of
         Some status \<Rightarrow> status = 429 \<or> status = 502 \<or> status = 503 \<or> status = 504
       | None \<Rightarrow> (case re_code e of
           Some (code, text) \<Rightarrow>
             if code = - 32005 \<or> code = - 32009 then True
             else if code = - 32000 then (let message = ToLower text in
               contains ''header not found'' message \<or> contains ''unknown block'' message
               \<or> contains ''block not found'' message \<or> contains ''beyond the latest block'' message)
             else False
         | None \<Rightarrow> True)))"

definition executionReverted :: "rpc_error option \<Rightarrow> bool" where
  "executionReverted err = (case err of None \<Rightarrow> False
     | Some e \<Rightarrow> (case re_code e of Some (code, text) \<Rightarrow> code = 3 | None \<Rightarrow> False)
        \<or> (let message = ToLower (re_text e) in contains ''execution reverted'' message
           \<or> contains ''nonexistent token'' message \<or> contains ''invalid token id'' message))"

section \<open>The retry loops\<close>

definition rpcAttempts :: nat where
  "rpcAttempts = 3"

text \<open>
  The loop the three calls share. \<open>answer i\<close> is what attempt \<open>i\<close> gives once its batch elements are
  classified, \<open>wait i\<close> whether the context ends in the wait after it. With the result come the
  attempts observed, each with its error.
\<close>

fun attempt_loop :: "string \<Rightarrow> (nat \<Rightarrow> rpc_error + 'r) \<Rightarrow> (nat \<Rightarrow> rpc_error option) \<Rightarrow> nat \<Rightarrow> nat
    \<Rightarrow> rpc_error \<Rightarrow> (rpc_error + 'r) \<times> rpc_error option list" where
  "attempt_loop label answer wait attempt 0 lastErr =
     (Inl (wrap (label @ show_nat rpcAttempts @ '' attempts: '') lastErr), [])"
| "attempt_loop label answer wait attempt (Suc left) lastErr = (case answer attempt of
       Inr r \<Rightarrow> (Inr r, [None])
     | Inl e \<Rightarrow>
         if \<not> retryableRPCError (Some e) then (Inl e, [Some e])
         else if attempt + 1 < rpcAttempts then (case wait attempt of
             Some ended \<Rightarrow> (Inl ended, [Some e])
           | None \<Rightarrow> (let (r, seen) = attempt_loop label answer wait (Suc attempt) left e in (r, Some e # seen)))
         else (let (r, seen) = attempt_loop label answer wait (Suc attempt) left e in (r, Some e # seen)))"

definition callRaw :: "(nat \<Rightarrow> rpc_error + 'r) \<Rightarrow> (nat \<Rightarrow> rpc_error option)
    \<Rightarrow> (rpc_error + 'r) \<times> rpc_error option list" where
  "callRaw answer wait = attempt_loop ''RPC failed after '' answer wait 0 rpcAttempts (plain_error [])"

definition redact_result :: "rpc_error + 'r \<Rightarrow> rpc_error + 'r" where
  "redact_result r = (case r of Inl e \<Rightarrow> Inl (redact_error e) | Inr a \<Rightarrow> Inr a)"

definition rpc_call :: "(nat \<Rightarrow> rpc_error + 'r) \<Rightarrow> (nat \<Rightarrow> rpc_error option) \<Rightarrow> rpc_error + 'r" where
  "rpc_call answer wait = redact_result (fst (callRaw answer wait))"

text \<open>A batch element answers with an error or with its raw bytes.\<close>

type_synonym element = "rpc_error + string"

text \<open>The first element \<open>blame\<close> holds against, as the error of the whole batch.\<close>

fun blamed_element :: "(rpc_error option \<Rightarrow> bool) \<Rightarrow> nat \<Rightarrow> element list \<Rightarrow> rpc_error option" where
  "blamed_element blame index [] = None"
| "blamed_element blame index (Inr raw # es) = blamed_element blame (Suc index) es"
| "blamed_element blame index (Inl e # es) =
     (if blame (Some e) then Some (wrap (''batch element '' @ show_nat index @ '': '') e)
      else blamed_element blame (Suc index) es)"

definition classify_batch :: "(rpc_error option \<Rightarrow> bool) \<Rightarrow> rpc_error + element list \<Rightarrow> rpc_error + element list" where
  "classify_batch blame answer = bindR answer (\<lambda>es. case blamed_element blame 0 es of
     Some e \<Rightarrow> Inl e | None \<Rightarrow> Inr es)"

text \<open>Every element error fails the batch.\<close>

definition batchCallRaw :: "(nat \<Rightarrow> rpc_error + element list) \<Rightarrow> (nat \<Rightarrow> rpc_error option)
    \<Rightarrow> (rpc_error + element list) \<times> rpc_error option list" where
  "batchCallRaw answer wait = attempt_loop ''RPC batch failed after ''
     (\<lambda>i. classify_batch (\<lambda>err. err \<noteq> None) (answer i)) wait 0 rpcAttempts (plain_error [])"

text \<open>Only a retryable element error fails the batch.\<close>

definition batchCallTransportRaw :: "(nat \<Rightarrow> rpc_error + element list) \<Rightarrow> (nat \<Rightarrow> rpc_error option)
    \<Rightarrow> (rpc_error + element list) \<times> rpc_error option list" where
  "batchCallTransportRaw answer wait = attempt_loop ''RPC batch failed after ''
     (\<lambda>i. classify_batch retryableRPCError (answer i)) wait 0 rpcAttempts (plain_error [])"

definition batchCall :: "(nat \<Rightarrow> rpc_error + element list) \<Rightarrow> (nat \<Rightarrow> rpc_error option) \<Rightarrow> rpc_error + element list" where
  "batchCall answer wait = redact_result (fst (batchCallRaw answer wait))"

definition batchCallTransport :: "(nat \<Rightarrow> rpc_error + element list) \<Rightarrow> (nat \<Rightarrow> rpc_error option) \<Rightarrow> rpc_error + element list" where
  "batchCallTransport answer wait = redact_result (fst (batchCallTransportRaw answer wait))"

fun all_same :: "string \<Rightarrow> string list \<Rightarrow> bool" where
  "all_same meth [] = True"
| "all_same meth (m # ms) = (if m \<noteq> meth then False else all_same meth ms)"

definition batchMethod :: "string list \<Rightarrow> string" where
  "batchMethod methods = (case methods of [] \<Rightarrow> ''batch''
     | m # ms \<Rightarrow> if all_same m ms then m else ''batch'')"

section \<open>Batches of sixteen\<close>

text \<open>
  go-ethereum's ABI encoder and decoder, the transport's answer to the batch that starts at an
  index (with its retries: what \<open>batchCall\<close> or \<open>batchCallTransport\<close> returned), and the rendering of
  an address.
\<close>

record transport =
  abi_pack :: "contract_call \<Rightarrow> rpc_error + string"
  abi_unpack :: "contract_call \<Rightarrow> string \<Rightarrow> rpc_error + abi_value list"
  addr_text :: "address \<Rightarrow> string"

definition batchSize :: nat where
  "batchSize = 16"

type_synonym call_object = "address \<times> string \<times> address option"

definition contractCallObject :: "contract_call \<Rightarrow> string \<Rightarrow> call_object" where
  "contractCallObject c bytes = (call_contract c, bytes, if call_from c \<noteq> 0 then Some (call_from c) else None)"

text \<open>The calls of one batch, encoded; \<open>start + offset\<close> names a failing one.\<close>

fun encode_batch :: "transport \<Rightarrow> nat \<Rightarrow> contract_call list \<Rightarrow> rpc_error + call_object list" where
  "encode_batch t index [] = Inr []"
| "encode_batch t index (c # cs) = (case abi_pack t c of
       Inl e \<Rightarrow> Inl (wrap (''call '' @ show_nat index @ '' encode '' @ call_method c @ '': '') e)
     | Inr bytes \<Rightarrow> bindR (encode_batch t (Suc index) cs) (\<lambda>objects. Inr (contractCallObject c bytes # objects)))"

fun decode_batch :: "transport \<Rightarrow> nat \<Rightarrow> contract_call list \<Rightarrow> string list \<Rightarrow> rpc_error + abi_value list list" where
  "decode_batch t index (c # cs) (raw # raws) = (case abi_unpack t c raw of
       Inl e \<Rightarrow> Inl (wrap (''call '' @ show_nat index @ '' decode '' @ addr_text t (call_contract c) @ '' ''
         @ call_method c @ '': '') e)
     | Inr vs \<Rightarrow> bindR (decode_batch t (Suc index) cs raws) (\<lambda>rows. Inr (vs # rows)))"
| "decode_batch t index _ _ = Inr []"

text \<open>The raw bytes of a batch none of whose elements failed.\<close>

definition raws_of :: "element list \<Rightarrow> string list" where
  "raws_of es = map (\<lambda>e. case e of Inr raw \<Rightarrow> raw | Inl _ \<Rightarrow> []) es"

definition range_error :: "string \<Rightarrow> nat \<Rightarrow> nat \<Rightarrow> rpc_error \<Rightarrow> rpc_error" where
  "range_error what start n = wrap (what @ show_nat start @ ''-'' @ show_nat (start + n - 1) @ '': '')"

text \<open>\<open>ParallelCalls\<close> from the index \<open>start\<close>; \<open>send start objects\<close> is the batch's answer.\<close>

function parallel_calls :: "transport \<Rightarrow> (nat \<Rightarrow> call_object list \<Rightarrow> rpc_error + element list)
    \<Rightarrow> nat \<Rightarrow> contract_call list \<Rightarrow> rpc_error + abi_value list list" where
  "parallel_calls t send start calls = (if calls = [] then Inr []
     else let batch = take batchSize calls in
       bindR (encode_batch t start batch) (\<lambda>objects. case send start objects of
         Inl e \<Rightarrow> Inl (range_error ''calls '' start (length batch) e)
       | Inr es \<Rightarrow> bindR (decode_batch t start batch (raws_of es)) (\<lambda>rows.
           bindR (parallel_calls t send (start + batchSize) (drop batchSize calls)) (\<lambda>rest. Inr (rows @ rest)))))"
  by pat_completeness auto
termination
  by (relation "measure (\<lambda>(t, send, start, calls). length calls)") (auto simp: batchSize_def)

declare parallel_calls.simps [simp del]

definition ParallelCalls :: "transport \<Rightarrow> (nat \<Rightarrow> call_object list \<Rightarrow> rpc_error + element list)
    \<Rightarrow> contract_call list \<Rightarrow> rpc_error + abi_value list list" where
  "ParallelCalls t send calls = parallel_calls t send 0 calls"

text \<open>One result of \<open>ParallelCallsAllowFailure\<close>: its error or its values.\<close>

type_synonym call_result = "rpc_error + abi_value list"

definition element_result :: "transport \<Rightarrow> contract_call \<Rightarrow> element \<Rightarrow> call_result" where
  "element_result t c e = (case e of
     Inl err \<Rightarrow> Inl (wrap (addr_text t (call_contract c) @ '' '' @ call_method c @ '': '') err)
   | Inr raw \<Rightarrow> (case abi_unpack t c raw of
       Inr vs \<Rightarrow> Inr vs
     | Inl err \<Rightarrow> (let err = (if length raw = 0 then (wrap ''empty contract return data: '' err)\<lparr>re_empty := True\<rparr> else err)
         in Inl (wrap (''decode '' @ addr_text t (call_contract c) @ '' '' @ call_method c @ '': '') err))))"

function allow_failure_calls :: "transport \<Rightarrow> (nat \<Rightarrow> call_object list \<Rightarrow> rpc_error + element list)
    \<Rightarrow> nat \<Rightarrow> contract_call list \<Rightarrow> rpc_error + call_result list" where
  "allow_failure_calls t send start calls = (if calls = [] then Inr []
     else let batch = take batchSize calls in
       bindR (encode_batch t start batch) (\<lambda>objects. case send start objects of
         Inl e \<Rightarrow> Inl (range_error ''calls '' start (length batch) e)
       | Inr es \<Rightarrow> bindR (allow_failure_calls t send (start + batchSize) (drop batchSize calls))
           (\<lambda>rest. Inr (map2 (element_result t) batch es @ rest))))"
  by pat_completeness auto
termination
  by (relation "measure (\<lambda>(t, send, start, calls). length calls)") (auto simp: batchSize_def)

declare allow_failure_calls.simps [simp del]

definition ParallelCallsAllowFailure :: "transport \<Rightarrow> (nat \<Rightarrow> call_object list \<Rightarrow> rpc_error + element list)
    \<Rightarrow> contract_call list \<Rightarrow> rpc_error + call_result list" where
  "ParallelCallsAllowFailure t send calls = allow_failure_calls t send 0 calls"

text \<open>\<open>DeployedAt\<close>: an account with code answers \<open>eth_getCode\<close> with bytes.\<close>

function deployed_batches :: "(nat \<Rightarrow> address list \<Rightarrow> rpc_error + element list) \<Rightarrow> nat \<Rightarrow> address list
    \<Rightarrow> rpc_error + bool list" where
  "deployed_batches send start addresses = (if addresses = [] then Inr []
     else let batch = take batchSize addresses in
       case send start batch of
         Inl e \<Rightarrow> Inl (range_error ''code '' start (length batch) e)
       | Inr es \<Rightarrow> bindR (deployed_batches send (start + batchSize) (drop batchSize addresses))
           (\<lambda>rest. Inr (map (\<lambda>raw. length raw > 0) (raws_of es) @ rest)))"
  by pat_completeness auto
termination
  by (relation "measure (\<lambda>(send, start, addresses). length addresses)") (auto simp: batchSize_def)

declare deployed_batches.simps [simp del]

definition DeployedAt :: "(nat \<Rightarrow> address list \<Rightarrow> rpc_error + element list) \<Rightarrow> address list \<Rightarrow> rpc_error + bool list" where
  "DeployedAt send addresses = deployed_batches send 0 addresses"

section \<open>Blocks and tokens\<close>

record rpcBlock =
  rb_number :: u64
  rb_hash :: hash
  rb_timestamp :: u64

datatype block_tag = Latest | Number u64

text \<open>\<open>blockByTag\<close> over the answer of \<open>eth_getBlockByNumber\<close>; the tag's text is a parameter.\<close>

definition blockByTag :: "chain_id \<Rightarrow> (block_tag \<Rightarrow> string) \<Rightarrow> (block_tag \<Rightarrow> rpc_error + rpcBlock) \<Rightarrow> block_tag
    \<Rightarrow> rpc_error + block_ref" where
  "blockByTag chain tag_text get tag = (case get tag of Inl e \<Rightarrow> Inl e
     | Inr b \<Rightarrow> if rb_hash b = 0 then Inl (plain_error (''block '' @ tag_text tag @ '' did not include a hash''))
         else Inr \<lparr>block_chain = chain, block_number = rb_number b, block_hash = rb_hash b,
           block_timestamp = rb_timestamp b, block_fixed = False\<rparr>)"

definition LatestSettledBlock :: "(block_tag \<Rightarrow> rpc_error + block_ref) \<Rightarrow> u64 \<Rightarrow> rpc_error + block_ref" where
  "LatestSettledBlock block_by lag = (case block_by Latest of Inl e \<Rightarrow> Inl e
     | Inr head \<Rightarrow> if lag = 0 \<or> block_number head \<le> lag then Inr head
         else block_by (Number (block_number head - lag)))"

text \<open>
  \<open>readToken\<close> of \<open>compound_v3.go\<close>: a symbol read as a string, or as bytes32 where that fails or is
  empty. \<open>decimals\<close> is the one row \<open>ParallelCalls\<close> gives for its single call, \<open>abi_text\<close> the message
  of a decoding error.
\<close>

definition string_symbol :: "(abi_error \<Rightarrow> string) \<Rightarrow> rpc_error + abi_value list \<Rightarrow> string + string" where
  "string_symbol abi_text row = (case row of Inl e \<Rightarrow> Inl (re_text e)
     | Inr vs \<Rightarrow> (case StringAt vs 0 of Inl e \<Rightarrow> Inl (abi_text e)
         | Inr s \<Rightarrow> if s = [] then Inl ''<nil>'' else Inr s))"

definition bytes32_symbol :: "(abi_error \<Rightarrow> string) \<Rightarrow> string \<Rightarrow> rpc_error + abi_value list \<Rightarrow> rpc_error + string" where
  "bytes32_symbol abi_text string_error row = (case row of
       Inl e \<Rightarrow> Inl (wrap (''read token symbol as string ('' @ string_error @ '') or bytes32: '') e)
     | Inr vs \<Rightarrow> (case Bytes32StringAt vs 0 of
         Inl e \<Rightarrow> Inl (plain_error (''decode token symbol bytes32: '' @ abi_text e))
       | Inr s \<Rightarrow> if s = [] then Inl (plain_error ''decode token symbol bytes32: empty symbol'') else Inr s))"

record token_reads =
  read_decimals :: "address \<Rightarrow> rpc_error + abi_value list"
  read_string_symbol :: "address \<Rightarrow> rpc_error + abi_value list"
  read_bytes32_symbol :: "address \<Rightarrow> rpc_error + abi_value list"

definition readToken :: "(abi_error \<Rightarrow> string) \<Rightarrow> token_reads \<Rightarrow> block_ref \<Rightarrow> address \<Rightarrow> rpc_error + token" where
  "readToken abi_text reads block a = bindR (read_decimals reads a) (\<lambda>row.
     bindR (case string_symbol abi_text (read_string_symbol reads a) of
         Inr s \<Rightarrow> Inr s
       | Inl e \<Rightarrow> bytes32_symbol abi_text e (read_bytes32_symbol reads a)) (\<lambda>symbol.
     case Uint8At row 0 of
       Inl e \<Rightarrow> Inl (plain_error (abi_text e))
     | Inr decimals \<Rightarrow> Inr \<lparr>tok_chain = block_chain block, tok_address = a, tok_symbol = symbol, tok_decimals = decimals\<rparr>))"

lemma readToken_names:
  "readToken abi_text reads block a = Inr t \<Longrightarrow> tok_address t = a \<and> tok_chain t = block_chain block"
  by (cases "read_decimals reads a"; cases "Uint8At (projr (read_decimals reads a)) 0")
    (auto simp: readToken_def bindR_Inr_iff)

section \<open>The properties of calls\<close>

definition attempt_error :: "rpc_error + 'r \<Rightarrow> rpc_error option" where
  "attempt_error a = (case a of Inl e \<Rightarrow> Some e | Inr _ \<Rightarrow> None)"

text \<open>
  What a retry loop returned against what its attempts answered: the attempts made were one to
  three, all but the last failed in a way worth retrying, and the result is the last one's: its
  answer, its error unchanged if retrying it is pointless, the context's end in the wait after it,
  or, after three, its error under the label.
\<close>

definition retried :: "string \<Rightarrow> (nat \<Rightarrow> rpc_error + 'r) \<Rightarrow> (nat \<Rightarrow> rpc_error option)
    \<Rightarrow> (rpc_error + 'r) \<times> rpc_error option list \<Rightarrow> bool" where
  "retried label answer wait run \<longleftrightarrow> (case run of (r, seen) \<Rightarrow>
     1 \<le> length seen \<and> length seen \<le> 3
     \<and> seen = map (\<lambda>i. attempt_error (answer i)) [0..<length seen]
     \<and> list_all retryableRPCError (butlast seen)
     \<and> (case r of
          Inr a \<Rightarrow> answer (length seen - 1) = Inr a
        | Inl e \<Rightarrow> (case answer (length seen - 1) of Inr _ \<Rightarrow> False
            | Inl f \<Rightarrow> if \<not> retryableRPCError (Some f) then e = f
                else if length seen < 3 then wait (length seen - 1) = Some e
                else e = wrap (label @ ''3 attempts: '') f)))"

lemma show_rpcAttempts: "show_nat rpcAttempts = ''3''"
  unfolding rpcAttempts_def by code_simp

lemma attempt_loop_retried: "retried label answer wait (attempt_loop label answer wait 0 rpcAttempts e)"
proof -
  have three: "rpcAttempts = Suc (Suc (Suc 0))" by (simp add: rpcAttempts_def)
  show ?thesis
    unfolding attempt_loop.simps(2) attempt_loop.simps(1) show_rpcAttempts three
    by (cases "answer 0"; cases "answer (Suc 0)"; cases "answer (Suc (Suc 0))"; cases "wait 0"; cases "wait (Suc 0)")
      (simp_all add: retried_def attempt_error_def numeral_3_eq_3 show_rpcAttempts [unfolded three])
qed

text \<open>C26: a call makes at most three attempts, stops at the first answer or at the first error that
  is not worth retrying, and returns what its last attempt or the wait after it gave; the same
  holds of both kinds of batch, whose attempts also fail by an element.\<close>

theorem rpc_calls_retried:
  "retried ''RPC failed after '' answer wait (callRaw answer wait)
   \<and> retried ''RPC batch failed after '' (\<lambda>i. classify_batch (\<lambda>err. err \<noteq> None) (batches i)) wait
       (batchCallRaw batches wait)
   \<and> retried ''RPC batch failed after '' (\<lambda>i. classify_batch retryableRPCError (batches i)) wait
       (batchCallTransportRaw batches wait)"
  by (simp add: callRaw_def batchCallRaw_def batchCallTransportRaw_def attempt_loop_retried)

lemma retried_answer: "retried label answer wait (Inr a, seen) \<Longrightarrow> \<exists>i < 3. answer i = Inr a"
  unfolding retried_def by (intro exI [of _ "length seen - 1"]) auto

lemma attempt_loop_answer: "fst (attempt_loop label answer wait 0 rpcAttempts e) = Inr a \<Longrightarrow> \<exists>i. answer i = Inr a"
proof -
  assume "fst (attempt_loop label answer wait 0 rpcAttempts e) = Inr a"
  then obtain seen where "attempt_loop label answer wait 0 rpcAttempts e = (Inr a, seen)" by (cases "attempt_loop label answer wait 0 rpcAttempts e") auto
  then have "retried label answer wait (Inr a, seen)" using attempt_loop_retried [of label answer wait e] by simp
  from retried_answer [OF this] show ?thesis by (elim exE conjE) (rule exI)
qed

lemma blamed_element_None: "blamed_element blame i es = None \<longleftrightarrow>
    list_all (\<lambda>e. case e of Inl err \<Rightarrow> \<not> blame (Some err) | Inr _ \<Rightarrow> True) es"
  by (induction blame i es rule: blamed_element.induct) auto

lemma classify_batch_Inr: "classify_batch blame answer = Inr es \<longleftrightarrow> answer = Inr es
    \<and> list_all (\<lambda>e. case e of Inl err \<Rightarrow> \<not> blame (Some err) | Inr _ \<Rightarrow> True) es"
  by (auto simp: classify_batch_def bindR_Inr_iff blamed_element_None split: option.splits)

text \<open>A batch that succeeds has no failed element, and one that tolerates failures keeps only
  element errors that no retry would have cured (a revert, never a throttled or lagging node).\<close>

lemma batch_elements_settled:
  "(case batchCall answer wait of Inl _ \<Rightarrow> True | Inr es \<Rightarrow> list_all (\<lambda>e. \<not> isl e) es)
   \<and> (case batchCallTransport answer wait of Inl _ \<Rightarrow> True
      | Inr es \<Rightarrow> list_all (\<lambda>e. case e of Inl err \<Rightarrow> \<not> retryableRPCError (Some err) | Inr _ \<Rightarrow> True) es)"
proof -
  have "list_all (\<lambda>e. \<not> isl e) es" if "batchCall answer wait = Inr es" for es
  proof -
    have "fst (batchCallRaw answer wait) = Inr es"
      using that by (simp add: batchCall_def redact_result_def split: sum.splits)
    then obtain i where "classify_batch (\<lambda>err. err \<noteq> None) (answer i) = Inr es"
      unfolding batchCallRaw_def using attempt_loop_answer by fast
    then show ?thesis by (auto simp: classify_batch_Inr list_all_iff isl_def split: sum.splits)
  qed
  moreover have "list_all (\<lambda>e. case e of Inl err \<Rightarrow> \<not> retryableRPCError (Some err) | Inr _ \<Rightarrow> True) es"
    if "batchCallTransport answer wait = Inr es" for es
  proof -
    have "fst (batchCallTransportRaw answer wait) = Inr es"
      using that by (simp add: batchCallTransport_def redact_result_def split: sum.splits)
    then obtain i where "classify_batch retryableRPCError (answer i) = Inr es"
      unfolding batchCallTransportRaw_def using attempt_loop_answer by fast
    then show ?thesis by (simp add: classify_batch_Inr)
  qed
  ultimately show ?thesis by (simp split: sum.split)
qed

section \<open>Batching is transparent\<close>

text \<open>The encoder takes every call, and the transport answers each object by \<open>reply\<close>.\<close>

definition encodes :: "transport \<Rightarrow> (contract_call \<Rightarrow> string) \<Rightarrow> contract_call list \<Rightarrow> bool" where
  "encodes t enc calls \<longleftrightarrow> list_all (\<lambda>c. abi_pack t c = Inr (enc c)) calls"

definition answers :: "(nat \<Rightarrow> 'o list \<Rightarrow> rpc_error + element list) \<Rightarrow> ('o \<Rightarrow> element) \<Rightarrow> bool" where
  "answers send reply \<longleftrightarrow> (\<forall>start objects. length objects \<le> batchSize \<longrightarrow> send start objects = Inr (map reply objects))"

lemma encode_batch_ok: "encodes t enc cs \<Longrightarrow>
    encode_batch t i cs = Inr (map (\<lambda>c. contractCallObject c (enc c)) cs)"
  by (induction t i cs rule: encode_batch.induct) (simp_all add: encodes_def)

lemma encodes_take_drop: "encodes t enc cs \<Longrightarrow> encodes t enc (take n cs) \<and> encodes t enc (drop n cs)"
  by (auto simp: encodes_def list_all_iff dest: in_set_takeD in_set_dropD)

lemma decode_batch_append: "length raws = length cs \<Longrightarrow>
    decode_batch t i (cs @ ds) (raws @ raws') =
      bindR (decode_batch t i cs raws) (\<lambda>rows. bindR (decode_batch t (i + length cs) ds raws') (\<lambda>rest. Inr (rows @ rest)))"
proof (induction t i cs raws rule: decode_batch.induct)
  case (1 t i c cs raw raws)
  then show ?case
    by (cases "abi_unpack t c raw") (auto simp: bindR_def split: sum.splits)
qed (auto simp: bindR_def split: sum.splits)

lemma raws_of_map_Inr: "raws_of (map (Inr \<circ> f) xs) = map f xs"
  by (simp add: raws_of_def)

lemma answersD: "answers send reply \<Longrightarrow> length objects \<le> batchSize \<Longrightarrow> send start objects = Inr (map reply objects)"
  by (simp add: answers_def)

lemma drop_batch_shorter: "calls \<noteq> [] \<Longrightarrow> length (drop batchSize calls) < length calls"
  by (simp add: batchSize_def)

lemma parallel_calls_whole:
  assumes "answers send (\<lambda>object. Inr (raw object))" and "encodes t enc calls"
  shows "parallel_calls t send start calls
     = decode_batch t start calls (map (\<lambda>c. raw (contractCallObject c (enc c))) calls)"
  using assms(2)
proof (induction calls arbitrary: start rule: length_induct)
  case (1 calls)
  let ?raws = "\<lambda>cs. map (\<lambda>c. raw (contractCallObject c (enc c))) cs"
  let ?b = "take batchSize calls" and ?d = "drop batchSize calls"
  show ?case
  proof (cases "calls = []")
    case True
    then show ?thesis by (simp add: parallel_calls.simps)
  next
    case False
    have enc: "encodes t enc ?b" "encodes t enc ?d" using encodes_take_drop 1(2) by blast+
    note b = encode_batch_ok [OF enc(1), of start]
    have sent: "send start (map (\<lambda>c. contractCallObject c (enc c)) ?b)
        = Inr (map (\<lambda>object. Inr (raw object)) (map (\<lambda>c. contractCallObject c (enc c)) ?b))"
      using answersD [OF assms(1)] by simp
    have raws: "raws_of (map (\<lambda>object. Inr (raw object)) (map (\<lambda>c. contractCallObject c (enc c)) ?b)) = ?raws ?b"
      by (simp add: raws_of_def)
    have rest: "parallel_calls t send (start + batchSize) ?d = decode_batch t (start + batchSize) ?d (?raws ?d)"
      using 1(1) drop_batch_shorter [OF False] enc(2) by blast
    have "parallel_calls t send start calls = bindR (decode_batch t start ?b (?raws ?b))
        (\<lambda>rows. bindR (decode_batch t (start + batchSize) ?d (?raws ?d)) (\<lambda>rest. Inr (rows @ rest)))"
      using False unfolding parallel_calls.simps [of t send start calls] Let_def b bindR_simps sent sum.case raws rest
      by simp
    also have "\<dots> = decode_batch t start (?b @ ?d) (?raws ?b @ ?raws ?d)"
    proof (cases "?d = []")
      case True
      then show ?thesis by (simp add: bindR_def split: sum.split)
    next
      case False
      then have "length ?b = batchSize" by simp
      then show ?thesis using decode_batch_append [of "?raws ?b" ?b t start ?d "?raws ?d"] by simp
    qed
    also have "\<dots> = decode_batch t start calls (?raws calls)" by (simp flip: map_append)
    finally show ?thesis .
  qed
qed

lemma allow_failure_calls_whole:
  assumes "answers send reply" and "encodes t enc calls"
  shows "allow_failure_calls t send start calls
     = Inr (map (\<lambda>c. element_result t c (reply (contractCallObject c (enc c)))) calls)"
  using assms(2)
proof (induction calls arbitrary: start rule: length_induct)
  case (1 calls)
  let ?b = "take batchSize calls" and ?d = "drop batchSize calls"
  let ?f = "\<lambda>c. element_result t c (reply (contractCallObject c (enc c)))"
  show ?case
  proof (cases "calls = []")
    case True
    then show ?thesis by (simp add: allow_failure_calls.simps)
  next
    case False
    have enc: "encodes t enc ?b" "encodes t enc ?d" using encodes_take_drop 1(2) by blast+
    note b = encode_batch_ok [OF enc(1), of start]
    have sent: "send start (map (\<lambda>c. contractCallObject c (enc c)) ?b)
        = Inr (map reply (map (\<lambda>c. contractCallObject c (enc c)) ?b))"
      using answersD [OF assms(1)] by simp
    have rest: "allow_failure_calls t send (start + batchSize) ?d = Inr (map ?f ?d)"
      using 1(1) drop_batch_shorter [OF False] enc(2) by blast
    have zip: "map2 (element_result t) cs (map (\<lambda>c. reply (contractCallObject c (enc c))) cs) = map ?f cs" for cs
      by (induction cs) simp_all
    have "allow_failure_calls t send start calls = Inr (map ?f ?b @ map ?f ?d)"
      using False unfolding allow_failure_calls.simps [of t send start calls] Let_def b bindR_simps sent sum.case rest
      by (simp add: zip comp_def)
    then show ?thesis by (simp flip: map_append)
  qed
qed

text \<open>Sending calls in batches of sixteen changes nothing but the number of round trips. Where the
  encoder takes every call and the transport answers each object on its own, strict calls decode
  to the row of every call in order (or fail at the first that does not decode, named by its index
  in the whole list), and tolerant calls give every call its own result.\<close>

lemma batching_transparent:
  assumes "encodes t enc calls"
    and "answers send (\<lambda>object. Inr (raw object))" and "answers send' reply"
  shows "ParallelCalls t send calls = decode_batch t 0 calls (map (\<lambda>c. raw (contractCallObject c (enc c))) calls)
     \<and> ParallelCallsAllowFailure t send' calls
         = Inr (map (\<lambda>c. element_result t c (reply (contractCallObject c (enc c)))) calls)"
  using parallel_calls_whole [OF assms(2,1)] allow_failure_calls_whole [OF assms(3,1)]
  by (simp add: ParallelCalls_def ParallelCallsAllowFailure_def)

end
