(* ===== verification/Utf8.thy ===== *)
theory Utf8
  imports GoText
begin

text \<open>
  What the code uses of Go's \<open>unicode/utf8\<close>, \<open>unicode\<close> and \<open>strings.TrimSpace\<close>: strict UTF-8
  decoding into runes with the bytes of each, the white space, control and format (Cf) characters,
  and the trimming of white space; and \<open>validatedWalletTokenSymbol\<close> of \<open>wallet_provider.go\<close>, which
  is written in them.
\<close>

section \<open>Runes\<close>

definition byte_val :: "char \<Rightarrow> nat" where
  "byte_val c = of_char c"

definition between :: "nat \<Rightarrow> nat \<Rightarrow> nat \<Rightarrow> bool" where
  "between lo hi n \<longleftrightarrow> lo \<le> n \<and> n \<le> hi"

text \<open>The continuation bytes \<open>k\<close> of a rune, whose first one lies in \<open>lo..hi\<close>.\<close>

fun continuation :: "nat \<Rightarrow> nat \<Rightarrow> nat \<Rightarrow> nat \<Rightarrow> string \<Rightarrow> (nat \<times> string) option" where
  "continuation lo hi 0 a s = Some (a, s)"
| "continuation lo hi (Suc k) a [] = None"
| "continuation lo hi (Suc k) a (c # s) =
     (if between lo hi (byte_val c) then continuation 128 191 k (a * 64 + (byte_val c - 128)) s else None)"

text \<open>How many bytes follow a first byte, the range of the next one, and the bits it carries.\<close>

definition first_byte :: "nat \<Rightarrow> (nat \<times> nat \<times> nat \<times> nat) option" where
  "first_byte n = (if n < 128 then Some (0, 0, 0, n)
     else if between 194 223 n then Some (1, 128, 191, n - 192)
     else if n = 224 then Some (2, 160, 191, 0)
     else if n = 237 then Some (2, 128, 159, 13)
     else if between 225 239 n then Some (2, 128, 191, n - 224)
     else if n = 240 then Some (3, 144, 191, 0)
     else if between 241 243 n then Some (3, 128, 191, n - 240)
     else if n = 244 then Some (3, 128, 143, 4)
     else None)"

type_synonym rune = "nat \<times> string"

definition decode_rune :: "char \<Rightarrow> string \<Rightarrow> (rune \<times> string) option" where
  "decode_rune c s = (case first_byte (byte_val c) of None \<Rightarrow> None
     | Some (k, lo, hi, a) \<Rightarrow> (case continuation lo hi k a s of None \<Rightarrow> None
         | Some (r, rest) \<Rightarrow> Some ((r, c # take k s), rest)))"

lemma continuation_rest: "continuation lo hi k a s = Some (r, rest) \<Longrightarrow> rest = drop k s \<and> k \<le> length s"
  by (induction lo hi k a s rule: continuation.induct) (auto split: if_splits)

lemma decode_rune_rest:
  "decode_rune c s = Some ((r, bytes), rest) \<Longrightarrow> bytes @ rest = c # s \<and> length rest \<le> length s"
  by (auto simp: decode_rune_def dest!: continuation_rest split: option.splits)

text \<open>The runes of a valid string; \<open>None\<close> where \<open>utf8.ValidString\<close> is false.\<close>

function runes :: "string \<Rightarrow> rune list option" where
  "runes [] = Some []"
| "runes (c # s) = (case decode_rune c s of None \<Rightarrow> None
     | Some (r, rest) \<Rightarrow> map_option (\<lambda>rs. r # rs) (runes rest))"
  by pat_completeness auto
termination
  by (relation "measure length") (auto dest: decode_rune_rest)

definition ValidString :: "string \<Rightarrow> bool" where
  "ValidString s \<longleftrightarrow> runes s \<noteq> None"

definition rune_bytes :: "rune list \<Rightarrow> string" where
  "rune_bytes rs = concat (map snd rs)"

lemma runes_bytes: "runes s = Some rs \<Longrightarrow> rune_bytes rs = s"
proof (induction s arbitrary: rs rule: runes.induct)
  case (2 c s)
  then show ?case
    by (auto simp: rune_bytes_def dest: decode_rune_rest split: option.splits)
qed (simp add: rune_bytes_def)

section \<open>Classes of characters\<close>

definition IsSpace :: "nat \<Rightarrow> bool" where
  "IsSpace n \<longleftrightarrow> between 9 13 n \<or> n = 32 \<or> n = 133 \<or> n = 160 \<or> n = 0x1680 \<or> between 0x2000 0x200A n
     \<or> n = 0x2028 \<or> n = 0x2029 \<or> n = 0x202F \<or> n = 0x205F \<or> n = 0x3000"

definition IsControl :: "nat \<Rightarrow> bool" where
  "IsControl n \<longleftrightarrow> n < 32 \<or> between 127 159 n"

text \<open>\<open>unicode.Cf\<close> of the Unicode 15 tables Go ships.\<close>

definition IsFormat :: "nat \<Rightarrow> bool" where
  "IsFormat n \<longleftrightarrow> n = 0xAD \<or> between 0x600 0x605 n \<or> n = 0x61C \<or> n = 0x6DD \<or> n = 0x70F
     \<or> between 0x890 0x891 n \<or> n = 0x8E2 \<or> n = 0x180E \<or> between 0x200B 0x200F n \<or> between 0x202A 0x202E n
     \<or> between 0x2060 0x2064 n \<or> between 0x2066 0x206F n \<or> n = 0xFEFF \<or> between 0xFFF9 0xFFFB n
     \<or> n = 0x110BD \<or> n = 0x110CD \<or> between 0x13430 0x1343F n \<or> between 0x1BCA0 0x1BCA3 n
     \<or> between 0x1D173 0x1D17A n \<or> n = 0xE0001 \<or> between 0xE0020 0xE007F n"

definition trim_runes :: "rune list \<Rightarrow> rune list" where
  "trim_runes rs = rev (dropWhile (IsSpace \<circ> fst) (rev (dropWhile (IsSpace \<circ> fst) rs)))"

text \<open>\<open>strings.TrimSpace\<close> of a valid string.\<close>

definition TrimSpace :: "rune list \<Rightarrow> string" where
  "TrimSpace rs = rune_bytes (trim_runes rs)"

section \<open>Token symbols\<close>

datatype symbol_error = SymbolNotUtf8 | SymbolControl | SymbolEmpty | SymbolTooLong

definition maxWalletTokenSymbolBytes :: nat where
  "maxWalletTokenSymbolBytes = 64"

definition validatedWalletTokenSymbol :: "string \<Rightarrow> symbol_error + string" where
  "validatedWalletTokenSymbol symbol = (case runes symbol of None \<Rightarrow> Inl SymbolNotUtf8
     | Some rs \<Rightarrow>
         if list_ex (\<lambda>r. IsControl (fst r) \<or> IsFormat (fst r)) rs then Inl SymbolControl
         else let trimmed = TrimSpace rs in
           if trimmed = [] then Inl SymbolEmpty
           else if length trimmed > maxWalletTokenSymbolBytes then Inl SymbolTooLong
           else Inr trimmed)"

lemma continuation_local:
  "continuation lo hi k a s = Some (v, u) \<Longrightarrow> continuation lo hi k a (take k s @ t) = Some (v, t)"
  by (induction lo hi k a s rule: continuation.induct) (auto split: if_splits)

text \<open>A rune read from some text: whatever follows its bytes, they read as it.\<close>

definition good_rune :: "rune \<Rightarrow> bool" where
  "good_rune r \<longleftrightarrow> (case snd r of [] \<Rightarrow> False | c # b \<Rightarrow> \<forall>t. decode_rune c (b @ t) = Some (r, t))"

lemma decode_rune_good: "decode_rune c s = Some (r, rest) \<Longrightarrow> good_rune r"
proof -
  assume "decode_rune c s = Some (r, rest)"
  then obtain k lo hi a v where d: "first_byte (byte_val c) = Some (k, lo, hi, a)"
      "continuation lo hi k a s = Some (v, rest)" "r = (v, c # take k s)"
    by (auto simp: decode_rune_def split: option.splits)
  have "decode_rune c (take k s @ t) = Some (r, t)" for t
    using d continuation_local [OF d(2)] continuation_rest [OF d(2)] by (simp add: decode_rune_def)
  then show ?thesis using d(3) by (simp add: good_rune_def)
qed

lemma runes_good: "runes s = Some rs \<Longrightarrow> list_all good_rune rs"
  by (induction s arbitrary: rs rule: runes.induct) (auto dest: decode_rune_good split: option.splits)

lemma good_runes: "list_all good_rune rs \<Longrightarrow> runes (rune_bytes rs) = Some rs"
proof (induction rs)
  case (Cons r rs)
  then obtain c b where r: "snd r = c # b" "\<forall>t. decode_rune c (b @ t) = Some (r, t)"
    by (auto simp: good_rune_def split: list.splits)
  then show ?case using Cons by (simp add: rune_bytes_def)
qed (simp add: rune_bytes_def)

lemma trim_runes_set: "set (trim_runes rs) \<subseteq> set rs"
  unfolding trim_runes_def set_rev using set_dropWhileD by (metis set_rev subsetI)

lemma dropWhile_rev_keeps_head:
  "xs \<noteq> [] \<Longrightarrow> \<not> P (hd xs) \<Longrightarrow> rev (dropWhile P (rev xs)) \<noteq> [] \<and> hd (rev (dropWhile P (rev xs))) = hd xs"
proof (induction xs rule: rev_induct)
  case (snoc x xs)
  then show ?case by (cases "xs = []") (auto simp: hd_append)
qed simp

lemma trim_runes_ends:
  assumes "trim_runes rs \<noteq> []"
  shows "\<not> IsSpace (fst (hd (trim_runes rs))) \<and> \<not> IsSpace (fst (last (trim_runes rs)))"
proof -
  let ?P = "IsSpace \<circ> fst"
  let ?xs = "dropWhile ?P rs"
  have "?xs \<noteq> []"
  proof
    assume "?xs = []"
    then have "trim_runes rs = []" by (simp only: trim_runes_def rev.simps dropWhile.simps)
    then show False using assms by contradiction
  qed
  then have "\<not> ?P (hd ?xs)" by (rule hd_dropWhile)
  from dropWhile_rev_keeps_head [where P = "IsSpace \<circ> fst", OF \<open>?xs \<noteq> []\<close> this]
  have h: "rev (dropWhile ?P (rev ?xs)) \<noteq> [] \<and> hd (rev (dropWhile ?P (rev ?xs))) = hd ?xs" .
  then have "dropWhile ?P (rev ?xs) \<noteq> []" by (metis rev_is_Nil_conv)
  then have "\<not> ?P (hd (dropWhile ?P (rev ?xs)))" by (rule hd_dropWhile)
  then show ?thesis using h \<open>\<not> ?P (hd ?xs)\<close> by (simp add: trim_runes_def last_rev comp_def)
qed

lemma trim_runes_fixed:
  "xs \<noteq> [] \<Longrightarrow> \<not> IsSpace (fst (hd xs)) \<Longrightarrow> \<not> IsSpace (fst (last xs)) \<Longrightarrow> trim_runes xs = xs"
proof -
  assume xs: "xs \<noteq> []" "\<not> IsSpace (fst (hd xs))" "\<not> IsSpace (fst (last xs))"
  then obtain x xs' where x: "xs = x # xs'" by (cases xs) auto
  then have "dropWhile (IsSpace \<circ> fst) xs = xs" using xs by simp
  moreover have "dropWhile (IsSpace \<circ> fst) (rev xs) = rev xs"
  proof (cases "rev xs")
    case (Cons y ys)
    then have "last xs = y" using hd_rev [of xs] by simp
    then show ?thesis using xs(3) Cons by simp
  qed simp
  ultimately show ?thesis by (simp add: trim_runes_def)
qed

text \<open>A symbol the wallet shows is valid UTF-8 of 1 to 64 bytes, has no control or format
  character and no white space at either end; and validating it again changes nothing, so a symbol
  kept in the token cache is one a later scan would accept.\<close>

lemma validated_symbol_clean:
  assumes "validatedWalletTokenSymbol symbol = Inr shown"
  shows "validatedWalletTokenSymbol shown = Inr shown \<and> 1 \<le> length shown \<and> length shown \<le> 64
     \<and> (\<exists>rs. runes shown = Some rs \<and> list_all (\<lambda>r. \<not> IsControl (fst r) \<and> \<not> IsFormat (fst r)) rs
          \<and> \<not> IsSpace (fst (hd rs)) \<and> \<not> IsSpace (fst (last rs)))"
proof -
  from assms obtain rs where rs: "runes symbol = Some rs"
      "list_all (\<lambda>r. \<not> IsControl (fst r) \<and> \<not> IsFormat (fst r)) rs"
      "shown = TrimSpace rs" "shown \<noteq> []" "length shown \<le> 64"
    by (auto simp: validatedWalletTokenSymbol_def Let_def maxWalletTokenSymbolBytes_def list_ex_iff list_all_iff
        split: option.splits if_splits)
  let ?ts = "trim_runes rs"
  have clean: "list_all (\<lambda>r. \<not> IsControl (fst r) \<and> \<not> IsFormat (fst r)) ?ts"
    using rs(2) trim_runes_set [of rs] by (auto simp: list_all_iff)
  have "list_all good_rune ?ts"
    using runes_good [OF rs(1)] trim_runes_set [of rs] by (auto simp: list_all_iff)
  then have shown: "runes shown = Some ?ts" by (simp add: rs(3) TrimSpace_def good_runes)
  have "?ts \<noteq> []" using rs(3,4) by (auto simp: TrimSpace_def rune_bytes_def)
  note ends = trim_runes_ends [OF this]
  have "trim_runes ?ts = ?ts" using trim_runes_fixed \<open>?ts \<noteq> []\<close> ends by blast
  then have "TrimSpace ?ts = shown" by (simp add: rs(3) TrimSpace_def)
  then have "validatedWalletTokenSymbol shown = Inr shown"
    using shown clean rs(4,5)
    by (auto simp: validatedWalletTokenSymbol_def Let_def maxWalletTokenSymbolBytes_def list_ex_iff list_all_iff)
  then show ?thesis using shown clean ends rs(4,5) by (auto simp: Suc_le_eq)
qed

end
