(* ===== verification/WalletProvider.thy ===== *)
theory WalletProvider
  imports Wallet Accounts Pricing
begin

text \<open>
  \<open>wallet_provider.go\<close>, from the host's provider to what a scan keeps of its answer:
  \<open>LiveWalletSample\<close>, \<open>walletProviderAmountsUsable\<close> and \<open>configureWalletBalances\<close>. Of a chain's
  scan only the fields these read and write are here; the engine's record extends them. The
  provider's answer is a parameter. Maps the code iterates are lists in their iteration order.
\<close>

section \<open>The provider's answer\<close>

record walletBalance =
  bal_token :: token
  bal_amount :: string
  bal_native :: bool
  bal_complete :: bool

record walletBalanceAccount =
  wa_block :: "block_ref option"
  wa_discovery_only :: bool
  wa_account :: address
  wa_balances :: "walletBalance list"

record walletBalanceChain =
  wc_block :: block_ref
  wc_accounts :: "walletBalanceAccount list"

record walletBalanceFailure =
  wf_chain :: chain_id
  wf_account :: address
  wf_asset :: "asset_id option"
  wf_message :: string
  wf_unsupported :: bool

record walletBalanceResult =
  wr_chains :: "walletBalanceChain list"
  wr_failures :: "walletBalanceFailure list"

type_synonym wallet_target = "chain_id \<times> address"

record walletBalanceRequest =
  req_root :: address
  req_targets :: "wallet_target list"
  req_pins :: "(chain_id \<times> block_ref) list"

type_synonym wallet_provider = "walletBalanceRequest \<Rightarrow> go_error + walletBalanceResult"

text \<open>\<open>walletBalanceFailureError\<close> of a failure, its message redacted.\<close>

definition walletBalanceFailureError :: "(address \<Rightarrow> string) \<Rightarrow> walletBalanceFailure \<Rightarrow> string" where
  "walletBalanceFailureError addr_hex f =
     (let message = (if wf_message f = [] then ''unspecified failure'' else wf_message f)
      in ''wallet balance provider''
         @ (if wf_account f \<noteq> 0 then '' account '' @ addr_hex (wf_account f) else [])
         @ (case wf_asset f of Some a \<Rightarrow> '' token '' @ addr_hex (snd a) | None \<Rightarrow> [])
         @ '': '' @ redact_urls False message)"

datatype wallet_issue = ProviderNotConfigured
  | ProviderFailed go_error
  | ProviderReported string
  | AccountBlockOfOtherChain
  | NoChainResult
  | DuplicateChainResults
  | UnexpectedAccount address
  | DuplicateAccountResult address
  | NoAccountResults
  | NoAccountResult address
  | IncompleteBlockMetadata
  | BlockHashMismatch u64
  | BlockTimestampMismatch u64
  | HistoricalCoverageGap

section \<open>A chain's scan\<close>

record walletProviderAccount =
  wp_balances :: "walletBalance list"
  wp_direct :: bool

text \<open>\<open>walletProviderAccounts\<close> is nil until the chain is configured.\<close>

record wallet_scan =
  cs_block :: block_ref
  cs_accounts :: "attributedAccount list"
  cs_wallet_errors :: "wallet_issue list"
  cs_wallet_coverage :: "wallet_issue list"
  cs_provider_accounts :: "(address \<times> walletProviderAccount) list option"

definition add_error :: "wallet_issue \<Rightarrow> wallet_scan \<Rightarrow> wallet_scan" where
  "add_error e s = s\<lparr>cs_wallet_errors := cs_wallet_errors s @ [e]\<rparr>"

definition add_coverage :: "wallet_issue \<Rightarrow> wallet_scan \<Rightarrow> wallet_scan" where
  "add_coverage e s = s\<lparr>cs_wallet_coverage := cs_wallet_coverage s @ [e]\<rparr>"

section \<open>Which samples stand for the pin\<close>

text \<open>
  Seconds and nanoseconds are Go's 64-bit \<open>time.Duration\<close>: the product \<open>time.Duration(gap)*time.Second\<close>
  wraps, and the comparison is signed.
\<close>

definition LiveWalletSampleWindow :: u64 where
  "LiveWalletSampleWindow = 120 * 1000000000"

definition LiveWalletSample :: "block_ref \<Rightarrow> block_ref \<Rightarrow> bool" where
  "LiveWalletSample block pin =
     (if block_fixed pin \<or> block_timestamp block = 0 \<or> block_timestamp pin = 0 then False
      else let gap = max (block_timestamp block) (block_timestamp pin)
               - min (block_timestamp block) (block_timestamp pin)
        in gap * 1000000000 \<le>s LiveWalletSampleWindow)"

text \<open>\<open>walletProviderAmountsUsable\<close> returns the answer and the scan with its error.\<close>

definition walletProviderAmountsUsable :: "wallet_scan \<Rightarrow> block_ref \<Rightarrow> bool \<times> wallet_scan" where
  "walletProviderAmountsUsable chain block =
     (if block_number block = 0 \<or> block_hash block = 0
        then (False, add_error IncompleteBlockMetadata chain)
      else if block_number block \<noteq> block_number (cs_block chain)
        then (LiveWalletSample block (cs_block chain), chain)
      else if block_hash block \<noteq> block_hash (cs_block chain)
        then (False, add_error (BlockHashMismatch (block_number block)) chain)
      else if block_timestamp block \<noteq> 0 \<and> block_timestamp block \<noteq> block_timestamp (cs_block chain)
        then (False, add_error (BlockTimestampMismatch (block_number block)) chain)
      else (True, chain))"

section \<open>Configuring one chain\<close>

text \<open>
  The loop over a chain result's accounts: the accounts kept so far (\<open>resultAccounts\<close>), those seen
  twice, and the scan.
\<close>

definition result_account_step :: "address list \<Rightarrow> address list
    \<Rightarrow> (address \<times> walletBalanceAccount) list \<times> address list \<times> wallet_scan \<Rightarrow> walletBalanceAccount
    \<Rightarrow> (address \<times> walletBalanceAccount) list \<times> address list \<times> wallet_scan" where
  "result_account_step targets failed state ra = (case state of (kept, duplicates, chain) \<Rightarrow>
     let a = wa_account ra in
     if a \<notin> set targets then (kept, duplicates, add_error (UnexpectedAccount a) chain)
     else if a \<in> set failed then state
     else if a \<in> set duplicates then state
     else if a \<in> fst ` set kept
       then (AList.delete a kept, a # duplicates, add_error (DuplicateAccountResult a) chain)
     else (kept @ [(a, ra)], duplicates, chain))"

definition result_accounts :: "address list \<Rightarrow> address list \<Rightarrow> walletBalanceAccount list \<Rightarrow> wallet_scan
    \<Rightarrow> (address \<times> walletBalanceAccount) list \<times> address list \<times> wallet_scan" where
  "result_accounts targets failed accounts chain =
     foldl (result_account_step targets failed) ([], [], chain) accounts"

text \<open>The loop over the kept accounts: the provider accounts, whether a historical sample leaves a gap.\<close>

definition provider_account_step :: "chain_id \<Rightarrow> block_ref
    \<Rightarrow> (address \<times> walletProviderAccount) list \<times> bool \<times> wallet_scan \<Rightarrow> address \<times> walletBalanceAccount
    \<Rightarrow> (address \<times> walletProviderAccount) list \<times> bool \<times> wallet_scan" where
  "provider_account_step chainID chain_block state entry = (case (state, entry) of
     ((accounts, gap, chain), (account, ra)) \<Rightarrow>
       let providerBlock = (case wa_block ra of Some b \<Rightarrow> b | None \<Rightarrow> chain_block) in
       if wa_block ra \<noteq> None \<and> block_chain providerBlock \<noteq> chainID
         then (accounts, gap, add_error AccountBlockOfOtherChain chain)
       else let (usable, chain') = walletProviderAmountsUsable chain providerBlock;
                direct = (usable \<and> \<not> wa_discovery_only ra)
         in (accounts @ [(account, \<lparr>wp_balances = wa_balances ra, wp_direct = direct\<rparr>)],
             gap \<or> (block_fixed (cs_block chain) \<and> \<not> direct), chain'))"

text \<open>The loop over the chain's accounts that reports those with no provider account.\<close>

definition missing_account_step :: "(address \<times> walletProviderAccount) list \<Rightarrow> address list \<Rightarrow> address list
    \<Rightarrow> wallet_scan \<Rightarrow> attributedAccount \<Rightarrow> wallet_scan" where
  "missing_account_step accounts failed duplicates chain account = (let a = att_address account in
     if a \<in> fst ` set accounts then chain
     else if a \<in> set failed then chain
     else if a \<in> set duplicates then chain
     else add_error (NoAccountResult a) chain)"

text \<open>
  The body of the loop over the requested chains: whether a failure covers the whole chain, the
  accounts a failure covers, the chain's result and whether there was more than one.
\<close>

definition configure_chain :: "chain_id \<Rightarrow> bool \<Rightarrow> address list \<Rightarrow> walletBalanceChain option \<Rightarrow> bool
    \<Rightarrow> wallet_scan \<Rightarrow> wallet_scan" where
  "configure_chain chainID chain_failed failed result duplicated chain =
     (let targets = map att_address (cs_accounts chain) in
      if chain_failed then chain
      else case result of
        None \<Rightarrow> if list_ex (\<lambda>a. a \<notin> set failed) targets then add_error NoChainResult chain else chain
      | Some providerChain \<Rightarrow>
          if duplicated then add_error DuplicateChainResults chain
          else let (kept, duplicates, chain) = result_accounts targets failed (wc_accounts providerChain) chain in
            if kept = [] then
              (if list_ex (\<lambda>a. a \<notin> set failed \<and> a \<notin> set duplicates) targets
               then add_error NoAccountResults chain else chain)
            else let (accounts, gap, chain) =
                   foldl (provider_account_step chainID (wc_block providerChain)) ([], False, chain) kept;
                 chain = (if gap then add_coverage HistoricalCoverageGap chain else chain);
                 chain = chain\<lparr>cs_provider_accounts := Some accounts\<rparr>
              in foldl (missing_account_step accounts failed duplicates) chain (cs_accounts chain))"

section \<open>Configuring a scan\<close>

type_synonym chain_scans = "(chain_id \<times> wallet_scan) list"

text \<open>The supported chains among the scan's, in canonical order.\<close>

definition requested_chains :: "chain_scans \<Rightarrow> chain_id list" where
  "requested_chains scans = filter (\<lambda>c. map_of scans c \<noteq> None) SupportedChainIDs"

definition chain_targets :: "chain_scans \<Rightarrow> chain_id \<Rightarrow> wallet_target list" where
  "chain_targets scans c = (case map_of scans c of None \<Rightarrow> []
     | Some chain \<Rightarrow> map (\<lambda>a. (c, att_address a)) (cs_accounts chain))"

definition wallet_request :: "(address \<Rightarrow> string) \<Rightarrow> address \<Rightarrow> chain_scans \<Rightarrow> walletBalanceRequest" where
  "wallet_request addr_hex rootAccount scans = \<lparr>req_root = rootAccount,
     req_targets = sort_key (\<lambda>t. (fst t, ToLower (addr_hex (snd t))))
       (concat (map (chain_targets scans) (requested_chains scans))),
     req_pins = map (\<lambda>c. (c, cs_block (the (map_of scans c)))) (requested_chains scans)\<rparr>"

text \<open>A failure is reported on its chain, as coverage when the provider does not serve it.\<close>

definition report_failure :: "(address \<Rightarrow> string) \<Rightarrow> walletBalanceFailure \<Rightarrow> wallet_scan \<Rightarrow> wallet_scan" where
  "report_failure addr_hex f chain = (let issue = ProviderReported (walletBalanceFailureError addr_hex f) in
     if wf_unsupported f then add_coverage issue chain else add_error issue chain)"

definition report_failures :: "(address \<Rightarrow> string) \<Rightarrow> walletBalanceResult \<Rightarrow> chain_id \<Rightarrow> wallet_scan \<Rightarrow> wallet_scan" where
  "report_failures addr_hex result c chain =
     foldl (\<lambda>chain f. if wf_chain f = c then report_failure addr_hex f chain else chain) chain (wr_failures result)"

definition failed_chain :: "walletBalanceResult \<Rightarrow> chain_id \<Rightarrow> bool" where
  "failed_chain result c = list_ex (\<lambda>f. wf_chain f = c \<and> wf_account f = 0) (wr_failures result)"

definition failed_accounts :: "walletBalanceResult \<Rightarrow> chain_id \<Rightarrow> address list" where
  "failed_accounts result c =
     map wf_account (filter (\<lambda>f. wf_chain f = c \<and> wf_account f \<noteq> 0) (wr_failures result))"

definition chain_results :: "walletBalanceResult \<Rightarrow> chain_id \<Rightarrow> walletBalanceChain list" where
  "chain_results result c = filter (\<lambda>r. block_chain (wc_block r) = c) (wr_chains result)"

text \<open>\<open>configureWalletBalances\<close>; a chain's part of the answer touches that chain's scan only.\<close>

definition configure_result :: "(address \<Rightarrow> string) \<Rightarrow> walletBalanceResult \<Rightarrow> chain_id \<Rightarrow> wallet_scan \<Rightarrow> wallet_scan" where
  "configure_result addr_hex result c chain =
     configure_chain c (failed_chain result c) (failed_accounts result c)
       (case chain_results result c of [] \<Rightarrow> None | r # _ \<Rightarrow> Some r)
       (length (chain_results result c) > 1) (report_failures addr_hex result c chain)"

definition configureWalletBalances ::
  "(address \<Rightarrow> string) \<Rightarrow> wallet_provider option \<Rightarrow> address \<Rightarrow> chain_scans \<Rightarrow> chain_scans" where
  "configureWalletBalances addr_hex provider rootAccount scans = (case provider of
     None \<Rightarrow> map (\<lambda>(c, chain). (c, add_error ProviderNotConfigured chain)) scans
   | Some ask \<Rightarrow>
       (let request = wallet_request addr_hex rootAccount scans;
            requested = requested_chains scans
        in if req_targets request = [] then scans
           else case ask request of
             Inl e \<Rightarrow> map (\<lambda>(c, chain). (c, if c \<in> set requested
                 then add_error (ProviderFailed (the (redactEndpoints (Some e)))) chain else chain)) scans
           | Inr result \<Rightarrow> map (\<lambda>(c, chain). (c, if c \<in> set requested
                 then configure_result addr_hex result c chain else chain)) scans))"

section \<open>Samples that stand for the pin\<close>

text \<open>A sample at the pin itself, or one \<open>LiveWalletSample\<close> accepts; never for an index's amounts.\<close>

definition verified_sample :: "block_ref \<Rightarrow> block_ref \<Rightarrow> bool" where
  "verified_sample pin block \<longleftrightarrow> block_number block \<noteq> 0 \<and> block_hash block \<noteq> 0
     \<and> (if block_number block = block_number pin
        then block_hash block = block_hash pin
          \<and> (block_timestamp block = 0 \<or> block_timestamp block = block_timestamp pin)
        else LiveWalletSample block pin)"

lemma usable_iff: "fst (walletProviderAmountsUsable chain block) \<longleftrightarrow> verified_sample (cs_block chain) block"
  by (simp add: walletProviderAmountsUsable_def verified_sample_def)

text \<open>What no step of the configuration changes, and the errors it only adds to.\<close>

definition grows :: "wallet_scan \<Rightarrow> wallet_scan \<Rightarrow> bool" where
  "grows a b \<longleftrightarrow> cs_block b = cs_block a \<and> cs_accounts b = cs_accounts a
     \<and> (\<exists>es. cs_wallet_errors b = cs_wallet_errors a @ es) \<and> (\<exists>cs. cs_wallet_coverage b = cs_wallet_coverage a @ cs)"

lemma grows_refl [simp]: "grows a a"
  by (simp add: grows_def)

lemma grows_trans: "grows a b \<Longrightarrow> grows b c \<Longrightarrow> grows a c"
  by (auto simp: grows_def)

lemma grows_add [simp]: "grows a (add_error e a)" "grows a (add_coverage e a)"
  by (simp_all add: grows_def add_error_def add_coverage_def)

lemma grows_usable: "grows chain (snd (walletProviderAmountsUsable chain block))"
  by (simp add: walletProviderAmountsUsable_def)

text \<open>The accounts kept: distinct, requested, not failed, each a result of the provider.\<close>

definition kept_ok :: "address list \<Rightarrow> address list \<Rightarrow> walletBalanceAccount list
    \<Rightarrow> (address \<times> walletBalanceAccount) list \<Rightarrow> bool" where
  "kept_ok targets failed accounts kept \<longleftrightarrow> distinct (map fst kept)
     \<and> list_all (\<lambda>e. fst e = wa_account (snd e) \<and> fst e \<in> set targets \<and> fst e \<notin> set failed
         \<and> filter (\<lambda>ra. wa_account ra = fst e) accounts = [snd e]) kept"

text \<open>
  The state after the results \<open>accounts\<close>: an account is kept when it has one result, a duplicate
  when it has more, and every duplicate was reported.
\<close>

definition results_ok :: "address list \<Rightarrow> address list \<Rightarrow> walletBalanceAccount list \<Rightarrow> wallet_scan
    \<Rightarrow> (address \<times> walletBalanceAccount) list \<times> address list \<times> wallet_scan \<Rightarrow> bool" where
  "results_ok targets failed accounts chain0 state \<longleftrightarrow> (case state of (kept, duplicates, chain) \<Rightarrow>
     kept_ok targets failed accounts kept \<and> grows chain0 chain
     \<and> list_all (\<lambda>a. DuplicateAccountResult a \<in> set (cs_wallet_errors chain)) duplicates
     \<and> set duplicates \<inter> fst ` set kept = {}
     \<and> (\<forall>a. a \<in> set targets \<longrightarrow> a \<notin> set failed \<longrightarrow> a \<in> wa_account ` set accounts
          \<longrightarrow> a \<in> fst ` set kept \<or> a \<in> set duplicates))"

lemma results_ok_step:
  assumes "results_ok targets failed accounts chain0 state"
  shows "results_ok targets failed (accounts @ [ra]) chain0 (result_account_step targets failed state ra)"
proof -
  obtain kept duplicates chain where state: "state = (kept, duplicates, chain)" by (cases state)
  let ?a = "wa_account ra"
  have ok: "kept_ok targets failed accounts kept" "grows chain0 chain"
      "list_all (\<lambda>a. DuplicateAccountResult a \<in> set (cs_wallet_errors chain)) duplicates"
      "set duplicates \<inter> fst ` set kept = {}"
    and covered: "\<And>a. a \<in> set targets \<Longrightarrow> a \<notin> set failed \<Longrightarrow> a \<in> wa_account ` set accounts
       \<Longrightarrow> a \<in> fst ` set kept \<or> a \<in> set duplicates"
    using assms by (auto simp: results_ok_def state)
  have keep: "kept_ok targets failed (accounts @ [ra]) kept'"
    if "kept_ok targets failed accounts kept'" "?a \<notin> fst ` set kept'" for kept'
    using that by (auto simp: kept_ok_def list_all_iff)
  consider "?a \<notin> set targets" | "?a \<in> set targets" "?a \<in> set failed"
    | "?a \<in> set targets" "?a \<notin> set failed" "?a \<in> set duplicates"
    | "?a \<in> set targets" "?a \<notin> set failed" "?a \<notin> set duplicates" "?a \<in> fst ` set kept"
    | "?a \<in> set targets" "?a \<notin> set failed" "?a \<notin> set duplicates" "?a \<notin> fst ` set kept" by blast
  then show ?thesis
  proof cases
    case 1
    then have "?a \<notin> fst ` set kept" using ok(1) by (auto simp: kept_ok_def list_all_iff)
    note keep [OF ok(1) this]
    then show ?thesis using 1 ok covered grows_trans [OF ok(2) grows_add(1)]
      by (auto simp: results_ok_def state result_account_step_def Let_def add_error_def list_all_iff)
  next
    case 2
    then have "?a \<notin> fst ` set kept" using ok(1) by (auto simp: kept_ok_def list_all_iff)
    note keep [OF ok(1) this]
    then show ?thesis using 2 ok covered by (auto simp: results_ok_def state result_account_step_def Let_def)
  next
    case 3
    then have "?a \<notin> fst ` set kept" using ok(4) by blast
    note keep [OF ok(1) this]
    then show ?thesis using 3 ok covered by (auto simp: results_ok_def state result_account_step_def Let_def)
  next
    case 4
    have "kept_ok targets failed accounts (AList.delete ?a kept)"
      using ok(1) by (auto simp: kept_ok_def list_all_iff AList.delete_eq distinct_map_filter)
    moreover have keys: "fst ` set (AList.delete ?a kept) = fst ` set kept - {?a}"
      by (auto simp: AList.delete_eq image_iff)
    then have "?a \<notin> fst ` set (AList.delete ?a kept)" by blast
    ultimately have "kept_ok targets failed (accounts @ [ra]) (AList.delete ?a kept)" by (rule keep)
    moreover have "\<And>a. a \<in> set targets \<Longrightarrow> a \<notin> set failed \<Longrightarrow> a \<in> wa_account ` set (accounts @ [ra])
        \<Longrightarrow> a \<in> fst ` set (AList.delete ?a kept) \<or> a \<in> set (?a # duplicates)"
      using covered keys by auto
    ultimately show ?thesis using 4 ok(3,4) keys grows_trans [OF ok(2) grows_add(1)]
      by (auto simp: results_ok_def state result_account_step_def Let_def add_error_def list_all_iff)
  next
    case 5
    then have "?a \<notin> wa_account ` set accounts" using covered by blast
    then have "filter (\<lambda>r. wa_account r = ?a) accounts = []"
      by (auto simp: filter_empty_conv image_iff)
    then have "kept_ok targets failed (accounts @ [ra]) (kept @ [(?a, ra)])"
      using keep [OF ok(1) 5(4)] 5 by (auto simp: kept_ok_def)
    then show ?thesis using 5 ok(2-4) covered
      by (auto simp: results_ok_def state result_account_step_def Let_def)
  qed
qed

lemma result_accounts_ok:
  "results_ok targets failed accounts chain (result_accounts targets failed accounts chain)"
proof (induction accounts rule: rev_induct)
  case Nil
  then show ?case by (simp add: results_ok_def result_accounts_def kept_ok_def)
next
  case (snoc ra accounts)
  then show ?case using results_ok_step by (simp add: result_accounts_def)
qed

text \<open>The provider account of one kept result, none when its block is another chain's.\<close>

definition sample_block :: "block_ref \<Rightarrow> walletBalanceAccount \<Rightarrow> block_ref" where
  "sample_block chain_block ra = (case wa_block ra of Some b \<Rightarrow> b | None \<Rightarrow> chain_block)"

definition provider_entry :: "chain_id \<Rightarrow> block_ref \<Rightarrow> block_ref \<Rightarrow> address \<times> walletBalanceAccount
    \<Rightarrow> (address \<times> walletProviderAccount) option" where
  "provider_entry chainID chain_block pin e =
     (if wa_block (snd e) \<noteq> None \<and> block_chain (sample_block chain_block (snd e)) \<noteq> chainID then None
      else Some (fst e, \<lparr>wp_balances = wa_balances (snd e),
        wp_direct = (verified_sample pin (sample_block chain_block (snd e)) \<and> \<not> wa_discovery_only (snd e))\<rparr>))"

lemma provider_account_fold:
  "foldl (provider_account_step chainID chain_block) (accounts, gap, chain) kept = (accounts', gap', chain') \<Longrightarrow>
     accounts' = accounts @ List.map_filter (provider_entry chainID chain_block (cs_block chain)) kept
     \<and> grows chain chain' \<and> cs_provider_accounts chain' = cs_provider_accounts chain"
proof (induction kept arbitrary: accounts gap chain)
  case Nil
  then show ?case by (simp add: map_filter_simps)
next
  case (Cons e kept)
  let ?block = "sample_block chain_block (snd e)"
  show ?case
  proof (cases "wa_block (snd e) \<noteq> None \<and> block_chain ?block \<noteq> chainID")
    case True
    let ?chain = "add_error AccountBlockOfOtherChain chain"
    have "provider_account_step chainID chain_block (accounts, gap, chain) e = (accounts, gap, ?chain)"
      using True by (cases e) (auto simp: provider_account_step_def sample_block_def)
    then have "foldl (provider_account_step chainID chain_block) (accounts, gap, ?chain) kept = (accounts', gap', chain')"
      using Cons.prems by simp
    note IH = Cons.IH [OF this]
    then show ?thesis using True grows_trans [OF grows_add(1)]
      by (auto simp: provider_entry_def map_filter_simps add_error_def)
  next
    case False
    let ?chain = "snd (walletProviderAmountsUsable chain ?block)"
    define gap2 where "gap2 = (gap \<or> block_fixed (cs_block chain)
      \<and> \<not> (verified_sample (cs_block chain) ?block \<and> \<not> wa_discovery_only (snd e)))"
    have "provider_account_step chainID chain_block (accounts, gap, chain) e =
        (accounts @ [the (provider_entry chainID chain_block (cs_block chain) e)], gap2, ?chain)"
    proof (cases "walletProviderAmountsUsable chain ?block")
      case (Pair usable chain2)
      then have "usable = verified_sample (cs_block chain) ?block" using usable_iff [of chain ?block] by simp
      then show ?thesis using False Pair
        by (cases e) (auto simp: provider_account_step_def provider_entry_def Let_def gap2_def simp flip: sample_block_def)
    qed
    then have "foldl (provider_account_step chainID chain_block)
        (accounts @ [the (provider_entry chainID chain_block (cs_block chain) e)], gap2, ?chain) kept = (accounts', gap', chain')"
      using Cons.prems by simp
    note IH = Cons.IH [OF this]
    have "cs_block ?chain = cs_block chain" "cs_provider_accounts ?chain = cs_provider_accounts chain"
      by (simp_all add: walletProviderAmountsUsable_def add_error_def)
    then show ?thesis using IH False grows_trans [OF grows_usable]
      by (auto simp: provider_entry_def map_filter_simps)
  qed
qed

lemma missing_account_fold:
  "foldl (missing_account_step accounts failed duplicates) chain as =
     chain\<lparr>cs_wallet_errors := cs_wallet_errors chain @ map NoAccountResult
       (filter (\<lambda>a. a \<notin> fst ` set accounts \<and> a \<notin> set failed \<and> a \<notin> set duplicates) (map att_address as))\<rparr>"
  by (induction as arbitrary: chain) (auto simp: missing_account_step_def Let_def add_error_def)

lemma map_filter_entries:
  "List.map_filter (provider_entry c b pin) kept = accounts \<Longrightarrow> (a, wp) \<in> set accounts \<Longrightarrow>
     \<exists>ra. (a, ra) \<in> set kept \<and> wp_balances wp = wa_balances ra
       \<and> wp_direct wp = (verified_sample pin (sample_block b ra) \<and> \<not> wa_discovery_only ra)"
  by (auto simp: map_filter_def provider_entry_def split: if_splits) blast+

text \<open>
  The outcome of one chain: either its provider accounts were set, from the single result each of
  them has, or they are as before.
\<close>

lemma configure_chain_outcome:
  assumes "configure_chain c chain_failed failed result duplicated chain = chain'"
  shows "grows chain chain' \<and>
    (cs_provider_accounts chain' = cs_provider_accounts chain \<or>
     (\<exists>pc accounts. \<not> chain_failed \<and> result = Some pc \<and> \<not> duplicated \<and> cs_provider_accounts chain' = Some accounts
        \<and> (\<forall>(a, wp) \<in> set accounts. \<exists>ra. a \<in> att_address ` set (cs_accounts chain) \<and> a \<notin> set failed
             \<and> filter (\<lambda>r. wa_account r = a) (wc_accounts pc) = [ra] \<and> wp_balances wp = wa_balances ra
             \<and> wp_direct wp = (verified_sample (cs_block chain) (sample_block (wc_block pc) ra) \<and> \<not> wa_discovery_only ra))))"
proof -
  let ?targets = "map att_address (cs_accounts chain)"
  consider "chain_failed" | "\<not> chain_failed" "result = None" | pc where "\<not> chain_failed" "result = Some pc" "duplicated"
    | pc where "\<not> chain_failed" "result = Some pc" "\<not> duplicated" by (cases result) blast+
  then show ?thesis
  proof cases
    case 4
    obtain kept duplicates chain1 where run: "result_accounts ?targets failed (wc_accounts pc) chain = (kept, duplicates, chain1)"
      by (cases "result_accounts ?targets failed (wc_accounts pc) chain")
    have ok: "kept_ok ?targets failed (wc_accounts pc) kept" "grows chain chain1"
      using result_accounts_ok [of ?targets failed "wc_accounts pc" chain] by (simp_all add: results_ok_def run)
    have same: "cs_provider_accounts chain1 = cs_provider_accounts chain"
    proof -
      have "cs_provider_accounts (snd (snd (foldl (result_account_step ts fs) (k, d, s) ras))) = cs_provider_accounts s" for ts fs k d s ras
      proof (induction ras arbitrary: k d s)
        case (Cons ra ras)
        obtain k' d' s' where st: "result_account_step ts fs (k, d, s) ra = (k', d', s')" by (cases "result_account_step ts fs (k, d, s) ra")
        then have "cs_provider_accounts s' = cs_provider_accounts s"
          by (auto simp: result_account_step_def Let_def add_error_def split: if_splits)
        then show ?case using Cons [of k' d' s'] st by simp
      qed simp
      then show ?thesis using run by (metis result_accounts_def snd_conv)
    qed
    show ?thesis
    proof (cases "kept = []")
      case True
      then show ?thesis using 4 assms run ok same grows_trans [OF ok(2) grows_add(1)]
        by (auto simp: configure_chain_def add_error_def split: if_splits)
    next
      case False
      obtain accounts gap chain2 where fold: "foldl (provider_account_step c (wc_block pc)) ([], False, chain1) kept = (accounts, gap, chain2)"
        by (cases "foldl (provider_account_step c (wc_block pc)) ([], False, chain1) kept")
      have pin: "cs_block chain1 = cs_block chain" using ok(2) by (simp add: grows_def)
      have entries: "accounts = List.map_filter (provider_entry c (wc_block pc) (cs_block chain)) kept" and g: "grows chain1 chain2"
        using provider_account_fold [OF fold] pin by auto
      define chain3 where "chain3 = (if gap then add_coverage HistoricalCoverageGap chain2 else chain2)"
      have run2: "chain' = foldl (missing_account_step accounts failed duplicates) (chain3\<lparr>cs_provider_accounts := Some accounts\<rparr>)
          (cs_accounts (chain3\<lparr>cs_provider_accounts := Some accounts\<rparr>))"
        using assms 4 False run fold by (simp add: configure_chain_def Let_def chain3_def)
      have "grows chain2 chain3" by (simp add: chain3_def)
      then have "grows chain chain3" using ok(2) g grows_trans by blast
      then have "grows chain chain'" unfolding run2 missing_account_fold by (auto simp: grows_def)
      moreover have "cs_provider_accounts chain' = Some accounts" unfolding run2 missing_account_fold by simp
      moreover have "\<exists>ra. a \<in> att_address ` set (cs_accounts chain) \<and> a \<notin> set failed
             \<and> filter (\<lambda>r. wa_account r = a) (wc_accounts pc) = [ra] \<and> wp_balances wp = wa_balances ra
             \<and> wp_direct wp = (verified_sample (cs_block chain) (sample_block (wc_block pc) ra) \<and> \<not> wa_discovery_only ra)"
        if "(a, wp) \<in> set accounts" for a wp
      proof -
        from map_filter_entries [OF entries [symmetric] that] obtain ra where "(a, ra) \<in> set kept"
            "wp_balances wp = wa_balances ra"
            "wp_direct wp = (verified_sample (cs_block chain) (sample_block (wc_block pc) ra) \<and> \<not> wa_discovery_only ra)"
          by blast
        then show ?thesis using ok(1) by (auto simp: kept_ok_def list_all_iff)
      qed
      ultimately show ?thesis using 4 by blast
    qed
  qed (use assms in \<open>auto simp: configure_chain_def add_error_def grows_def Let_def split: if_splits\<close>)
qed

lemma report_failures_grows: "grows chain (report_failures addr_hex result c chain)
    \<and> cs_provider_accounts (report_failures addr_hex result c chain) = cs_provider_accounts chain"
proof -
  have "grows chain (foldl (\<lambda>chain f. if wf_chain f = c then report_failure addr_hex f chain else chain) chain fs)
    \<and> cs_provider_accounts (foldl (\<lambda>chain f. if wf_chain f = c then report_failure addr_hex f chain else chain) chain fs)
      = cs_provider_accounts chain" for fs
  proof (induction fs rule: rev_induct)
    case (snoc f fs)
    then show ?case using grows_trans [OF _ grows_add(1)] grows_trans [OF _ grows_add(2)]
      by (auto simp: report_failure_def Let_def) (simp_all add: add_error_def add_coverage_def)
  qed simp
  then show ?thesis by (simp add: report_failures_def)
qed

text \<open>The configured scan of a chain whose provider accounts were nil.\<close>

lemma configured_accounts:
  assumes "configure_result addr_hex result c chain = chain'"
    and "cs_provider_accounts chain = None" and "cs_provider_accounts chain' = Some accounts"
    and "(a, wp) \<in> set accounts"
  shows "\<exists>pc ra. chain_results result c = [pc] \<and> filter (\<lambda>r. wa_account r = a) (wc_accounts pc) = [ra]
     \<and> a \<in> att_address ` set (cs_accounts chain) \<and> a \<notin> set (failed_accounts result c) \<and> \<not> failed_chain result c
     \<and> wp_balances wp = wa_balances ra
     \<and> wp_direct wp = (verified_sample (cs_block chain) (sample_block (wc_block pc) ra) \<and> \<not> wa_discovery_only ra)"
proof -
  let ?start = "report_failures addr_hex result c chain"
  have start: "cs_provider_accounts ?start = None" "cs_block ?start = cs_block chain" "cs_accounts ?start = cs_accounts chain"
    using report_failures_grows [of chain addr_hex result c] assms(2) by (simp_all add: grows_def)
  from configure_chain_outcome [OF assms(1) [unfolded configure_result_def]] start assms(3)
  obtain pc where pc: "\<not> failed_chain result c"
      "(case chain_results result c of [] \<Rightarrow> None | r # _ \<Rightarrow> Some r) = Some pc"
      "\<not> length (chain_results result c) > 1"
      "\<forall>(a, wp) \<in> set accounts. \<exists>ra. a \<in> att_address ` set (cs_accounts chain) \<and> a \<notin> set (failed_accounts result c)
         \<and> filter (\<lambda>r. wa_account r = a) (wc_accounts pc) = [ra] \<and> wp_balances wp = wa_balances ra
         \<and> wp_direct wp = (verified_sample (cs_block chain) (sample_block (wc_block pc) ra) \<and> \<not> wa_discovery_only ra)"
    by auto
  have "chain_results result c = [pc]" using pc(2,3) by (cases "chain_results result c") auto
  then show ?thesis using pc(1,4) assms(4) by fast
qed

lemma map_of_map_values: "map_of (map (\<lambda>(k, v). (k, f k v)) xs) c = map_option (f c) (map_of xs c)"
  by (induction xs) auto

text \<open>C3: the provider's amounts are used directly only where they stand for the scan's block. An
  account marked direct is one the scan asked for, covered by no reported failure, with exactly one
  result in exactly one result of its chain; it carries that result's balances, they are not an
  index's, and they were sampled at the pin (number and hash, and the time if given) or, on a live
  scan, at a block \<open>LiveWalletSample\<close> accepts.\<close>

theorem direct_amounts_verified:
  assumes "(c, chain) \<in> set scans" and "distinct (map fst scans)" and "cs_provider_accounts chain = None"
    and "map_of (configureWalletBalances addr_hex (Some ask) rootAccount scans) c = Some chain'"
    and "cs_provider_accounts chain' = Some accounts" and "(a, wp) \<in> set accounts" and "wp_direct wp"
  shows "\<exists>result pc ra. ask (wallet_request addr_hex rootAccount scans) = Inr result
     \<and> chain_results result c = [pc] \<and> filter (\<lambda>r. wa_account r = a) (wc_accounts pc) = [ra]
     \<and> a \<in> att_address ` set (cs_accounts chain) \<and> a \<notin> set (failed_accounts result c) \<and> \<not> failed_chain result c
     \<and> wp_balances wp = wa_balances ra \<and> \<not> wa_discovery_only ra
     \<and> verified_sample (cs_block chain) (sample_block (wc_block pc) ra)"
proof -
  let ?request = "wallet_request addr_hex rootAccount scans"
  have chain: "map_of scans c = Some chain" using assms(1,2) by simp
  show ?thesis
  proof (cases "ask ?request")
    case (Inl e)
    then show ?thesis using assms(3-5) chain
      by (auto simp: configureWalletBalances_def Let_def add_error_def map_of_map_values split: if_splits)
  next
    case (Inr result)
    have "chain' = chain \<or> configure_result addr_hex result c chain = chain'"
      using assms(4) chain Inr by (auto simp: configureWalletBalances_def Let_def map_of_map_values split: if_splits)
    then have "configure_result addr_hex result c chain = chain'" using assms(3,5) by auto
    from configured_accounts [OF this assms(3,5,6)] show ?thesis using Inr assms(7) by blast
  qed
qed

text \<open>A live scan on Base with one account, and a provider that answers at the pin.\<close>

definition demo_pin :: block_ref where
  "demo_pin = \<lparr>block_chain = Base, block_number = 100, block_hash = 7, block_timestamp = 1700000000,
     block_fixed = False\<rparr>"

definition demo_wallet_scan :: wallet_scan where
  "demo_wallet_scan = \<lparr>cs_block = demo_pin, cs_accounts = [direct_account 5], cs_wallet_errors = [],
     cs_wallet_coverage = [], cs_provider_accounts = None\<rparr>"

definition demo_ask :: wallet_provider where
  "demo_ask request = Inr \<lparr>wr_chains = [\<lparr>wc_block = demo_pin, wc_accounts =
       [\<lparr>wa_block = None, wa_discovery_only = False, wa_account = 5, wa_balances = []\<rparr>]\<rparr>], wr_failures = []\<rparr>"

lemma demo_configured:
  "configureWalletBalances address_hex (Some demo_ask) 5 [(Base, demo_wallet_scan)] =
     [(Base, demo_wallet_scan\<lparr>cs_provider_accounts := Some [(5, \<lparr>wp_balances = [], wp_direct = True\<rparr>)]\<rparr>)]"
  by (simp add: configureWalletBalances_def wallet_request_def requested_chains_def chain_targets_def demo_wallet_scan_def
      SupportedChainIDs_def chain_defs demo_ask_def configure_result_def failed_chain_def failed_accounts_def chain_results_def
      report_failures_def configure_chain_def result_accounts_def result_account_step_def provider_account_step_def
      walletProviderAmountsUsable_def demo_pin_def missing_account_step_def direct_account_def Let_def)

theorem direct_amounts_verified_witness:
  "map_of (configureWalletBalances address_hex (Some demo_ask) 5 [(Base, demo_wallet_scan)]) Base
     = Some (demo_wallet_scan\<lparr>cs_provider_accounts := Some [(5, \<lparr>wp_balances = [], wp_direct = True\<rparr>)]\<rparr>)
   \<and> (\<exists>b. verified_sample demo_pin b)"
proof -
  have run: "map_of (configureWalletBalances address_hex (Some demo_ask) 5 [(Base, demo_wallet_scan)]) Base
     = Some (demo_wallet_scan\<lparr>cs_provider_accounts := Some [(5, \<lparr>wp_balances = [], wp_direct = True\<rparr>)]\<rparr>)"
    by (simp add: demo_configured)
  have "\<exists>b. verified_sample (cs_block demo_wallet_scan) b"
    using direct_amounts_verified [OF _ _ _ run, of demo_wallet_scan "[(5, \<lparr>wp_balances = [], wp_direct = True\<rparr>)]" 5
        "\<lparr>wp_balances = [], wp_direct = True\<rparr>"]
    by (auto simp: demo_wallet_scan_def)
  then show ?thesis using run by (simp add: demo_wallet_scan_def)
qed

section \<open>No account is left out in silence\<close>

lemma grows_errors: "grows a b \<Longrightarrow> cs_wallet_errors a \<noteq> [] \<Longrightarrow> cs_wallet_errors b \<noteq> []"
  by (auto simp: grows_def)

lemma grows_coverage: "grows a b \<Longrightarrow> cs_wallet_coverage a \<noteq> [] \<Longrightarrow> cs_wallet_coverage b \<noteq> []"
  by (auto simp: grows_def)

lemma configure_chain_covers:
  assumes "configure_chain c False failed result duplicated chain = chain'"
    and "a \<in> att_address ` set (cs_accounts chain)" and "a \<notin> set failed"
  shows "(\<exists>accounts. cs_provider_accounts chain' = Some accounts \<and> a \<in> fst ` set accounts)
     \<or> cs_wallet_errors chain' \<noteq> []"
proof -
  let ?targets = "map att_address (cs_accounts chain)"
  have a: "a \<in> set ?targets" using assms(2) by simp
  consider "result = None" | pc where "result = Some pc" "duplicated" | pc where "result = Some pc" "\<not> duplicated"
    by (cases result) auto
  then show ?thesis
  proof cases
    case 1
    then show ?thesis using assms a by (auto simp: configure_chain_def add_error_def list_ex_iff Let_def split: if_splits)
  next
    case 2
    then show ?thesis using assms by (auto simp: configure_chain_def add_error_def Let_def)
  next
    case 3
    obtain kept duplicates chain1 where run: "result_accounts ?targets failed (wc_accounts pc) chain = (kept, duplicates, chain1)"
      by (cases "result_accounts ?targets failed (wc_accounts pc) chain")
    have ok: "grows chain chain1" "list_all (\<lambda>d. DuplicateAccountResult d \<in> set (cs_wallet_errors chain1)) duplicates"
      using result_accounts_ok [of ?targets failed "wc_accounts pc" chain] by (simp_all add: results_ok_def run)
    have dup: "cs_wallet_errors chain1 \<noteq> []" if "a \<in> set duplicates" using ok(2) that by (auto simp: list_all_iff)
    show ?thesis
    proof (cases "kept = []")
      case True
      then show ?thesis using 3 assms(1) run a assms(3) dup
        by (auto simp: configure_chain_def add_error_def list_ex_iff split: if_splits)
    next
      case False
      obtain accounts gap chain2 where fold: "foldl (provider_account_step c (wc_block pc)) ([], False, chain1) kept = (accounts, gap, chain2)"
        by (cases "foldl (provider_account_step c (wc_block pc)) ([], False, chain1) kept")
      have g: "grows chain1 chain2" using provider_account_fold [OF fold] by simp
      define chain3 where "chain3 = (if gap then add_coverage HistoricalCoverageGap chain2 else chain2)"
      have run2: "chain' = foldl (missing_account_step accounts failed duplicates) (chain3\<lparr>cs_provider_accounts := Some accounts\<rparr>)
          (cs_accounts (chain3\<lparr>cs_provider_accounts := Some accounts\<rparr>))"
        using assms 3 False run fold by (simp add: configure_chain_def Let_def chain3_def)
      have g3: "grows chain1 chain3" using g grows_trans [OF g grows_add(2)] by (simp add: chain3_def)
      then have "cs_accounts chain3 = cs_accounts chain" using ok(1) by (simp add: grows_def)
      then have errors: "cs_wallet_errors chain' = cs_wallet_errors chain3 @ map NoAccountResult (filter
          (\<lambda>a. a \<notin> fst ` set accounts \<and> a \<notin> set failed \<and> a \<notin> set duplicates) ?targets)"
        and set: "cs_provider_accounts chain' = Some accounts"
        unfolding run2 missing_account_fold by simp_all
      show ?thesis
      proof (cases "a \<in> fst ` set accounts \<or> a \<in> set duplicates")
        case True
        then show ?thesis using set dup grows_errors [OF g3] errors by auto
      next
        case False
        then have "NoAccountResult a \<in> set (cs_wallet_errors chain')" using a assms(3) unfolding errors by auto
        then show ?thesis by auto
      qed
    qed
  qed
qed

lemma report_failures_report:
  assumes "f \<in> set (wr_failures result)" and "wf_chain f = c"
  shows "cs_wallet_errors (report_failures addr_hex result c chain) \<noteq> []
     \<or> cs_wallet_coverage (report_failures addr_hex result c chain) \<noteq> []"
proof -
  let ?step = "\<lambda>chain f. if wf_chain f = c then report_failure addr_hex f chain else chain"
  have step: "cs_wallet_errors s \<noteq> [] \<or> cs_wallet_coverage s \<noteq> [] \<Longrightarrow>
      cs_wallet_errors (?step s g) \<noteq> [] \<or> cs_wallet_coverage (?step s g) \<noteq> []" for s g
    by (simp add: report_failure_def Let_def add_error_def add_coverage_def)
  have keep: "cs_wallet_errors s \<noteq> [] \<or> cs_wallet_coverage s \<noteq> [] \<Longrightarrow>
      cs_wallet_errors (foldl ?step s fs) \<noteq> [] \<or> cs_wallet_coverage (foldl ?step s fs) \<noteq> []" for s fs
  proof (induction fs arbitrary: s)
    case (Cons g fs)
    show ?case unfolding foldl.simps by (rule Cons.IH, rule step, rule Cons.prems)
  qed simp
  obtain xs ys where "wr_failures result = xs @ f # ys" using assms(1) by (meson split_list)
  moreover have "cs_wallet_errors (?step s f) \<noteq> [] \<or> cs_wallet_coverage (?step s f) \<noteq> []" for s
    using assms(2) by (simp add: report_failure_def Let_def add_error_def add_coverage_def)
  ultimately show ?thesis unfolding report_failures_def by (simp only: foldl_append foldl.simps) (rule keep)
qed

text \<open>C4: no account of a requested chain is left out in silence. After the provider answered, each
  account of a supported chain has provider amounts, or its chain carries an error or a coverage
  note that the response shows.\<close>

theorem no_silent_gap:
  assumes "configure_result addr_hex result c chain = chain'"
    and "cs_wallet_errors chain = []" and "cs_wallet_coverage chain = []"
    and "a \<in> att_address ` set (cs_accounts chain)"
  shows "(\<exists>accounts. cs_provider_accounts chain' = Some accounts \<and> a \<in> fst ` set accounts)
     \<or> cs_wallet_errors chain' \<noteq> [] \<or> cs_wallet_coverage chain' \<noteq> []"
proof -
  let ?start = "report_failures addr_hex result c chain"
  have start: "cs_accounts ?start = cs_accounts chain"
    using report_failures_grows [of chain addr_hex result c] by (simp add: grows_def)
  note run = assms(1) [unfolded configure_result_def]
  show ?thesis
  proof (cases "failed_chain result c \<or> a \<in> set (failed_accounts result c)")
    case True
    then obtain f where "f \<in> set (wr_failures result)" "wf_chain f = c"
      by (auto simp: failed_chain_def failed_accounts_def list_ex_iff)
    then have "cs_wallet_errors ?start \<noteq> [] \<or> cs_wallet_coverage ?start \<noteq> []" by (rule report_failures_report)
    moreover have "grows ?start chain'" using configure_chain_outcome [OF run] by blast
    ultimately show ?thesis using grows_errors grows_coverage by blast
  next
    case False
    then have "configure_chain c False (failed_accounts result c)
       (case chain_results result c of [] \<Rightarrow> None | r # _ \<Rightarrow> Some r) (length (chain_results result c) > 1) ?start = chain'"
      using run by simp
    from configure_chain_covers [OF this, of a] show ?thesis using start assms(4) False by auto
  qed
qed

theorem no_silent_gap_witness:
  "let chain' = configure_result address_hex \<lparr>wr_chains = [], wr_failures = []\<rparr> Base demo_wallet_scan in
     cs_provider_accounts chain' = None \<and> cs_wallet_errors chain' = [NoChainResult]
     \<and> (cs_wallet_errors chain' \<noteq> [] \<or> cs_wallet_coverage chain' \<noteq> [])"
proof -
  have run: "configure_result address_hex \<lparr>wr_chains = [], wr_failures = []\<rparr> Base demo_wallet_scan
      = add_error NoChainResult demo_wallet_scan"
    by (simp add: configure_result_def failed_chain_def failed_accounts_def chain_results_def report_failures_def
        configure_chain_def demo_wallet_scan_def)
  from no_silent_gap [OF run, of 5] show ?thesis
    unfolding run Let_def by (simp add: add_error_def demo_wallet_scan_def direct_account_def)
qed

section \<open>The live window\<close>

lemma live_gap:
  assumes "\<not> block_fixed pin" and "block_timestamp block \<noteq> 0" and "block_timestamp pin \<noteq> 0"
    and "max (unat (block_timestamp block)) (unat (block_timestamp pin))
       - min (unat (block_timestamp block)) (unat (block_timestamp pin)) < 9223372036"
  shows "LiveWalletSample block pin \<longleftrightarrow> max (unat (block_timestamp block)) (unat (block_timestamp pin))
       - min (unat (block_timestamp block)) (unat (block_timestamp pin)) \<le> 120"
proof -
  define g where "g = max (block_timestamp block) (block_timestamp pin) - min (block_timestamp block) (block_timestamp pin)"
  have "min (block_timestamp block) (block_timestamp pin) \<le> max (block_timestamp block) (block_timestamp pin)"
    by (auto simp: min_def max_def)
  then have g: "unat g = max (unat (block_timestamp block)) (unat (block_timestamp pin))
       - min (unat (block_timestamp block)) (unat (block_timestamp pin))"
    unfolding g_def by (subst unat_sub) (auto simp: max_def min_def word_le_nat_alt)
  have small: "unat g < 9223372036" using assms(4) g by simp
  from small have "sint (g * 1000000000) = int (unat g) * 1000000000" by (rule sint_duration)
  then have "LiveWalletSample block pin \<longleftrightarrow> int (unat g) * 1000000000 \<le> sint LiveWalletSampleWindow"
    using assms(1-3) by (simp add: LiveWalletSample_def Let_def g_def word_sle_eq)
  also have "sint LiveWalletSampleWindow = 120 * 1000000000"
    unfolding LiveWalletSampleWindow_def by code_simp
  finally show ?thesis using g by auto
qed

text \<open>C32: on a live scan whose two block times are known and less than 292 years apart, a sample is
  taken for the pin exactly when the times are at most two minutes apart; beyond that the duration
  wraps: a block time 292 years and some months ahead of the pin's is accepted as a live sample.\<close>

theorem LiveWalletSample_window:
  assumes "\<not> block_fixed pin" and "block_timestamp block \<noteq> 0" and "block_timestamp pin \<noteq> 0"
    and "max (unat (block_timestamp block)) (unat (block_timestamp pin))
       - min (unat (block_timestamp block)) (unat (block_timestamp pin)) < 9223372036"
  shows "(LiveWalletSample block pin \<longleftrightarrow> max (unat (block_timestamp block)) (unat (block_timestamp pin))
       - min (unat (block_timestamp block)) (unat (block_timestamp pin)) \<le> 120)
     \<and> LiveWalletSample (pin\<lparr>block_timestamp := 10923372037\<rparr>) (pin\<lparr>block_timestamp := 1700000000\<rparr>)"
proof -
  have "LiveWalletSample (pin\<lparr>block_timestamp := 10923372037\<rparr>) (pin\<lparr>block_timestamp := 1700000000\<rparr>)"
    using assms(1) by (simp add: LiveWalletSample_def LiveWalletSampleWindow_def max_def min_def word_sle_eq)
  then show ?thesis using live_gap [OF assms] by blast
qed

theorem LiveWalletSample_window_witness:
  "LiveWalletSample (demo_pin\<lparr>block_timestamp := 1700000120\<rparr>) demo_pin
   \<and> \<not> LiveWalletSample (demo_pin\<lparr>block_timestamp := 1700000121\<rparr>) demo_pin"
  using LiveWalletSample_window [of demo_pin "demo_pin\<lparr>block_timestamp := 1700000120\<rparr>"]
    LiveWalletSample_window [of demo_pin "demo_pin\<lparr>block_timestamp := 1700000121\<rparr>"]
  by (simp add: demo_pin_def)

end
