(* ===== verification/WalletGroups.thy ===== *)
theory WalletGroups
  imports WalletProvider Rpc Utf8
begin

text \<open>
  \<open>wallet_provider.go\<close>, from an account's provider rows to the groups the wallet reports: amounts,
  the token metadata cache and the blocklist, and the two readers, the one that trusts the rows'
  amounts and the one that reads every amount again at the settled block. The RPC client's answers
  are a record of parameters.
\<close>

section \<open>Amounts\<close>

datatype row_failure = AmountEmpty
  | AmountInvalid string
  | TokenChainMismatch chain_id chain_id
  | DuplicateNative
  | NoNativeIdentity chain_id
  | EmptyTokenAddress
  | DuplicateToken address
  | MetadataFailed address rpc_error
  | NativeFailed string rpc_error
  | CodeFailed rpc_error
  | BalancesFailed rpc_error
  | BalanceFailed address rpc_error
  | BalanceUndecodable address abi_error

definition parseWalletBalanceAmount :: "string \<Rightarrow> row_failure + int" where
  "parseWalletBalanceAmount raw =
     (if raw = [] then Inl AmountEmpty
      else if \<not> list_all is_digit raw then Inl (AmountInvalid raw)
      else case set_string10 raw of None \<Rightarrow> Inl (AmountInvalid raw) | Some amount \<Rightarrow> Inr amount)"

section \<open>The token cache and the blocklist\<close>

text \<open>
  What one account's read changes: the engine's token cache (nil keeps nothing), the tokens noted
  as not reported, and the tokens listed with the host.
\<close>

record blockedToken =
  blocked_token :: asset_id
  blocked_account :: address
  blocked_block :: block_ref
  blocked_reason :: string

record walletRun =
  run_tokens :: "(asset_id \<times> token) list option"
  run_notes :: "address list"
  run_listed :: "blockedToken list"

definition walletTokenCacheEntries :: nat where
  "walletTokenCacheEntries = 100000"

definition cache_load :: "asset_id \<Rightarrow> walletRun \<Rightarrow> token option" where
  "cache_load asset run = (case run_tokens run of None \<Rightarrow> None | Some tokens \<Rightarrow> map_of tokens asset)"

definition cache_store :: "token \<Rightarrow> walletRun \<Rightarrow> walletRun" where
  "cache_store t run = (case run_tokens run of None \<Rightarrow> run
     | Some tokens \<Rightarrow> if length tokens < walletTokenCacheEntries
         then run\<lparr>run_tokens := Some (AList.update (AssetForToken t) t tokens)\<rparr> else run)"

text \<open>A host's blocklist: which of some tokens are listed; \<open>None\<close> for no blocklist or a nil cache.\<close>

type_synonym blocklist = "(asset_id list \<Rightarrow> asset_id list) option"

definition withoutBlocked :: "blocklist \<Rightarrow> walletBalance list \<Rightarrow> walletRun \<Rightarrow> walletBalance list \<times> walletRun" where
  "withoutBlocked blocklist balances run = (case blocklist of None \<Rightarrow> (balances, run)
     | Some list_blocked \<Rightarrow>
        (let assets = map (AssetForToken \<circ> bal_token) (filter (\<lambda>b. \<not> bal_native b) balances) in
         if assets = [] then (balances, run)
         else let blocked = list_blocked assets in
           if blocked = [] then (balances, run)
           else let drop_row = (\<lambda>b. AssetForToken (bal_token b) \<in> set blocked \<and> \<not> bal_native b) in
             (filter (\<lambda>b. \<not> drop_row b) balances,
              run\<lparr>run_notes := run_notes run @ map (tok_address \<circ> bal_token) (filter drop_row balances)\<rparr>)))"

definition blockReverted :: "blocklist \<Rightarrow> block_ref \<Rightarrow> address \<Rightarrow> token \<Rightarrow> rpc_error \<Rightarrow> walletRun \<Rightarrow> walletRun" where
  "blockReverted blocklist block account t err run =
     (let run = run\<lparr>run_notes := run_notes run @ [tok_address t]\<rparr> in
      case blocklist of None \<Rightarrow> run
      | Some _ \<Rightarrow> run\<lparr>run_listed := run_listed run @ [\<lparr>blocked_token = AssetForToken t, blocked_account = account,
          blocked_block = block, blocked_reason = PublicError (Some (PlainError (re_text err)))\<rparr>]\<rparr>)"

section \<open>Token metadata\<close>

text \<open>The client's reads at a block.\<close>

record wallet_client =
  cl_native :: "address \<Rightarrow> rpc_error + int"
  cl_deployed :: "address list \<Rightarrow> rpc_error + bool list"
  cl_calls :: "contract_call list \<Rightarrow> rpc_error + call_result list"
  cl_token :: "address \<Rightarrow> rpc_error + token"

definition symbol_text :: "symbol_error \<Rightarrow> string" where
  "symbol_text e = (case e of SymbolNotUtf8 \<Rightarrow> ''token symbol is not valid UTF-8''
     | SymbolControl \<Rightarrow> ''token symbol contains a control or format character''
     | SymbolEmpty \<Rightarrow> ''token symbol is empty''
     | SymbolTooLong \<Rightarrow> ''token symbol exceeds 64 bytes'')"

definition providerWalletToken :: "(address \<Rightarrow> rpc_error + token) option \<Rightarrow> token \<Rightarrow> bool \<Rightarrow> walletRun
    \<Rightarrow> (rpc_error + token) \<times> walletRun" where
  "providerWalletToken read provided metadataComplete run =
     (case (if metadataComplete \<and> tok_decimals provided \<le> 36
            then (case validatedWalletTokenSymbol (tok_symbol provided) of Inr s \<Rightarrow> Some s | Inl _ \<Rightarrow> None) else None) of
        Some symbol \<Rightarrow> (Inr (provided\<lparr>tok_symbol := symbol\<rparr>), run)
      | None \<Rightarrow> (case cache_load (AssetForToken provided) run of
          Some t \<Rightarrow> (Inr t, run)
        | None \<Rightarrow> (case read of
            None \<Rightarrow> (Inl (plain_error ''RPC client is not configured for metadata enrichment''), run)
          | Some read_token \<Rightarrow> (case read_token (tok_address provided) of
              Inl e \<Rightarrow> (Inl e, run)
            | Inr t \<Rightarrow>
                if tok_decimals t > 36 then (Inl (plain_error ''on-chain token decimals are invalid''), run)
                else (case validatedWalletTokenSymbol (tok_symbol t) of
                  Inl e \<Rightarrow> (Inl (plain_error (''on-chain token symbol: '' @ symbol_text e)), run)
                | Inr symbol \<Rightarrow> (let t = t\<lparr>tok_symbol := symbol\<rparr> in (Inr t, cache_store t run)))))))"

section \<open>Rows whose amounts are trusted\<close>

definition token_group :: "(address \<Rightarrow> string) \<Rightarrow> token \<Rightarrow> int \<Rightarrow> group" where
  "token_group addr_hex t amount = \<lparr>grp_id = walletTokenGroupID addr_hex (tok_address t), grp_market = [],
     grp_label = tok_symbol t,
     grp_components = [NewComponent ''asset'' t amount
       \<lparr>src_contract = tok_address t, src_method = ''balanceOf'', src_holds = None\<rparr>],
     grp_policy = [], grp_value = None, grp_metadata = [(''holding'', MetaString ''token'')]\<rparr>"

definition native_source :: source where
  "native_source = \<lparr>src_contract = 0, src_method = ''eth_getBalance'', src_holds = None\<rparr>"

text \<open>The tokens seen, whether the native balance was, the groups and failures so far, the run.\<close>

record directState =
  ds_seen :: "address list"
  ds_native :: bool
  ds_groups :: "group list"
  ds_failures :: "row_failure list"
  ds_run :: walletRun

definition direct_fail :: "row_failure \<Rightarrow> directState \<Rightarrow> directState" where
  "direct_fail f s = s\<lparr>ds_failures := ds_failures s @ [f]\<rparr>"

definition direct_token :: "(address \<Rightarrow> string) \<Rightarrow> blocklist \<Rightarrow> wallet_client option \<Rightarrow> block_ref \<Rightarrow> address
    \<Rightarrow> walletBalance \<Rightarrow> int \<Rightarrow> directState \<Rightarrow> directState" where
  "direct_token addr_hex blocklist client block account b amount s =
     (let s = s\<lparr>ds_seen := tok_address (bal_token b) # ds_seen s\<rparr>;
          (r, run) = providerWalletToken (map_option cl_token client) (bal_token b) (bal_complete b) (ds_run s);
          s = s\<lparr>ds_run := run\<rparr>
      in case r of
        Inl e \<Rightarrow> if executionReverted (Some e)
            then s\<lparr>ds_run := blockReverted blocklist block account (bal_token b) e (ds_run s)\<rparr>
            else direct_fail (MetadataFailed (tok_address (bal_token b)) e) s
      | Inr t \<Rightarrow> s\<lparr>ds_groups := ds_groups s @ [token_group addr_hex t amount]\<rparr>)"

definition direct_row :: "(address \<Rightarrow> string) \<Rightarrow> blocklist \<Rightarrow> wallet_client option \<Rightarrow> block_ref \<Rightarrow> chain_id \<Rightarrow> address
    \<Rightarrow> directState \<Rightarrow> walletBalance \<Rightarrow> directState" where
  "direct_row addr_hex blocklist client block chainID account s b =
     (case parseWalletBalanceAmount (bal_amount b) of
        Inl e \<Rightarrow> direct_fail e s
      | Inr amount \<Rightarrow>
          if amount = 0 then s
          else if tok_chain (bal_token b) \<noteq> chainID
            then direct_fail (TokenChainMismatch (tok_chain (bal_token b)) chainID) s
          else if bal_native b then
            (if ds_native s then direct_fail DuplicateNative s
             else let s = s\<lparr>ds_native := True\<rparr> in
               case map_of walletNativeCoin chainID of
                 None \<Rightarrow> direct_fail (NoNativeIdentity chainID) s
               | Some coin \<Rightarrow> s\<lparr>ds_groups := ds_groups s @ [native_group_of chainID coin amount native_source]\<rparr>)
          else if tok_address (bal_token b) = 0 then direct_fail EmptyTokenAddress s
          else if tok_address (bal_token b) \<in> set (ds_seen s)
            then direct_fail (DuplicateToken (tok_address (bal_token b))) s
          else direct_token addr_hex blocklist client block account b amount s)"

definition directProviderWalletGroups :: "(address \<Rightarrow> string) \<Rightarrow> blocklist \<Rightarrow> wallet_client option \<Rightarrow> block_ref
    \<Rightarrow> chain_id \<Rightarrow> address \<Rightarrow> walletBalance list \<Rightarrow> walletRun \<Rightarrow> group list \<times> row_failure list \<times> walletRun" where
  "directProviderWalletGroups addr_hex blocklist client block chainID account balances run =
     (let s = foldl (direct_row addr_hex blocklist client block chainID account)
         \<lparr>ds_seen = [], ds_native = False, ds_groups = [], ds_failures = [], ds_run = run\<rparr> balances
      in (sort_key grp_id (ds_groups s), ds_failures s, ds_run s))"

section \<open>Rows that only discover tokens\<close>

text \<open>The rows kept as candidates, the tokens seen and the failures so far.\<close>

definition candidate_row :: "chain_id \<Rightarrow> walletBalance list \<times> address list \<times> row_failure list \<Rightarrow> walletBalance
    \<Rightarrow> walletBalance list \<times> address list \<times> row_failure list" where
  "candidate_row chainID state b = (case state of (candidates, seen, failures) \<Rightarrow>
     let failures = (case parseWalletBalanceAmount (bal_amount b) of Inl e \<Rightarrow> failures @ [e] | Inr _ \<Rightarrow> failures);
         a = tok_address (bal_token b) in
     if bal_native b then (candidates, seen, failures)
     else if tok_chain (bal_token b) \<noteq> chainID
       then (candidates, seen, failures @ [TokenChainMismatch (tok_chain (bal_token b)) chainID])
     else if a = 0 then (candidates, seen, failures @ [EmptyTokenAddress])
     else if a \<in> set seen then (candidates, seen, failures @ [DuplicateToken a])
     else (candidates @ [b], a # seen, failures))"

definition discovered_native :: "wallet_client \<Rightarrow> chain_id \<Rightarrow> address \<Rightarrow> group list \<times> row_failure list" where
  "discovered_native client chainID account = (case map_of walletNativeCoin chainID of
     None \<Rightarrow> ([], [])
   | Some coin \<Rightarrow> (case cl_native client account of
       Inl e \<Rightarrow> ([], [NativeFailed (fst coin) e])
     | Inr amount \<Rightarrow> if amount \<noteq> 0 then ([native_group_of chainID coin amount native_source], []) else ([], [])))"

text \<open>One candidate and the result of its \<open>balanceOf\<close>.\<close>

definition discovered_row :: "(address \<Rightarrow> string) \<Rightarrow> blocklist \<Rightarrow> wallet_client \<Rightarrow> block_ref \<Rightarrow> address
    \<Rightarrow> group list \<times> row_failure list \<times> walletRun \<Rightarrow> walletBalance \<times> call_result
    \<Rightarrow> group list \<times> row_failure list \<times> walletRun" where
  "discovered_row addr_hex blocklist client block account state entry = (case (state, entry) of
     ((groups, failures, run), (candidate, row)) \<Rightarrow> let a = tok_address (bal_token candidate) in
       case row of
         Inl e \<Rightarrow> if re_empty e then state
           else if executionReverted (Some e)
             then (groups, failures, blockReverted blocklist block account (bal_token candidate) e run)
           else (groups, failures @ [BalanceFailed a e], run)
       | Inr vs \<Rightarrow> (case BigIntAt vs 0 of
           Inl e \<Rightarrow> (groups, failures @ [BalanceUndecodable a e], run)
         | Inr amount \<Rightarrow>
             if amount = 0 then state
             else (case providerWalletToken (Some (cl_token client)) (bal_token candidate) (bal_complete candidate) run of
               (Inl e, run) \<Rightarrow> if executionReverted (Some e)
                   then (groups, failures, blockReverted blocklist block account (bal_token candidate) e run)
                   else (groups, failures @ [MetadataFailed a e], run)
             | (Inr t, run) \<Rightarrow> (groups @ [token_group addr_hex t amount], failures, run))))"

definition balance_calls :: "address \<Rightarrow> walletBalance list \<Rightarrow> contract_call list" where
  "balance_calls account candidates =
     map (\<lambda>b. view_call (tok_address (bal_token b)) ''balanceOf'' [AbiAddress account]) candidates"

text \<open>At a fixed block, the candidates that had code there; \<open>Inl\<close> when that could not be read.\<close>

definition existing_candidates :: "wallet_client \<Rightarrow> block_ref \<Rightarrow> walletBalance list \<Rightarrow> rpc_error + walletBalance list" where
  "existing_candidates client block candidates =
     (if block_fixed block \<and> candidates \<noteq> [] then
        (case cl_deployed client (map (tok_address \<circ> bal_token) candidates) of
           Inl e \<Rightarrow> Inl e
         | Inr deployed \<Rightarrow> Inr (map fst (filter snd (zip candidates deployed))))
      else Inr candidates)"

definition discoveredProviderWalletGroups :: "(address \<Rightarrow> string) \<Rightarrow> blocklist \<Rightarrow> wallet_client \<Rightarrow> block_ref
    \<Rightarrow> chain_id \<Rightarrow> address \<Rightarrow> walletBalance list \<Rightarrow> walletRun \<Rightarrow> group list \<times> row_failure list \<times> walletRun" where
  "discoveredProviderWalletGroups addr_hex blocklist client block chainID account balances run =
     (let (groups, failures) = discovered_native client chainID account;
          (candidates, seen, failures) = foldl (candidate_row chainID) ([], [], failures) balances
      in case existing_candidates client block candidates of
        Inl e \<Rightarrow> (groups, failures @ [CodeFailed e], run)
      | Inr candidates \<Rightarrow>
          if candidates = [] then (sort_key grp_id groups, failures, run)
          else (case cl_calls client (balance_calls account candidates) of
            Inl e \<Rightarrow> (groups, failures @ [BalancesFailed e], run)
          | Inr rows \<Rightarrow>
              (let (groups, failures, run) = foldl (discovered_row addr_hex blocklist client block account)
                   (groups, failures, run) (zip candidates rows)
               in (sort_key grp_id groups, failures, run))))"

definition providerWalletGroups :: "(address \<Rightarrow> string) \<Rightarrow> blocklist \<Rightarrow> wallet_client \<Rightarrow> block_ref \<Rightarrow> chain_id
    \<Rightarrow> address \<Rightarrow> walletProviderAccount \<Rightarrow> walletRun \<Rightarrow> group list \<times> row_failure list \<times> walletRun" where
  "providerWalletGroups addr_hex blocklist client block chainID accountAddress account run =
     (let (balances, run) = withoutBlocked blocklist (wp_balances account) run in
      if wp_direct account
      then directProviderWalletGroups addr_hex blocklist (Some client) block chainID accountAddress balances run
      else discoveredProviderWalletGroups addr_hex blocklist client block chainID accountAddress balances run)"

section \<open>Every row is accounted for\<close>

text \<open>A cache whose entries are under their own asset.\<close>

definition cache_ok :: "walletRun \<Rightarrow> bool" where
  "cache_ok run \<longleftrightarrow> (case run_tokens run of None \<Rightarrow> True
     | Some tokens \<Rightarrow> list_all (\<lambda>e. fst e = AssetForToken (snd e)) tokens)"

text \<open>
  A reader of token metadata: what it answers for an address is that address's token. The
  wallet's token lookup, cache included, then answers with the token it was asked about.
\<close>

locale token_reader =
  fixes read :: "address \<Rightarrow> rpc_error + token" and chain :: chain_id
  assumes names: "read a = Inr t \<Longrightarrow> tok_address t = a \<and> tok_chain t = chain"
begin

lemma cache_load_asset: "cache_ok run \<Longrightarrow> cache_load asset run = Some t \<Longrightarrow> AssetForToken t = asset"
  by (auto simp: cache_ok_def cache_load_def list_all_iff split: option.splits dest!: map_of_SomeD)

lemma cache_store_ok: "cache_ok run \<Longrightarrow> cache_ok (cache_store t run)"
proof -
  have "list_all (\<lambda>e. fst e = AssetForToken (snd e)) (AList.update (AssetForToken t) t tokens)"
    if "list_all (\<lambda>e. fst e = AssetForToken (snd e)) tokens" for tokens
    using that by (induction tokens) auto
  then show "cache_ok run \<Longrightarrow> cache_ok (cache_store t run)"
    by (auto simp: cache_ok_def cache_store_def split: option.splits)
qed

lemma token_names:
  assumes "cache_ok run" and "tok_chain provided = chain"
    and "providerWalletToken (Some read) provided whole run = (r, run')"
  shows "cache_ok run' \<and> (case r of Inl _ \<Rightarrow> run' = run | Inr t \<Rightarrow> AssetForToken t = AssetForToken provided)
    \<and> run_notes run' = run_notes run \<and> run_listed run' = run_listed run"
proof -
  have same: "run_notes (cache_store t run) = run_notes run \<and> run_listed (cache_store t run) = run_listed run" for t
    by (simp add: cache_store_def split: option.split)
  show ?thesis
    using assms names [of "tok_address provided"] same cache_store_ok [OF assms(1)] cache_load_asset [OF assms(1)]
    by (auto simp: providerWalletToken_def Let_def AssetForToken_def split: if_splits option.splits sum.splits)
qed

end

interpretation on_chain: token_reader "readToken abi_text reads block" "block_chain block"
  for abi_text :: "abi_error \<Rightarrow> string" and reads :: token_reads and block :: block_ref
  by unfold_locales (rule readToken_names)

lemma walletTokenGroupID_inject:
  "hex_names addr_hex \<Longrightarrow> walletTokenGroupID addr_hex a = walletTokenGroupID addr_hex b \<longleftrightarrow> a = b"
  by (simp add: walletTokenGroupID_def hex_namesD)

lemma native_not_token: "walletNativeGroupID \<noteq> walletTokenGroupID addr_hex a"
  by (simp add: walletNativeGroupID_def walletTokenGroupID_def)

lemma blockReverted_simps [simp]:
  "run_notes (blockReverted bl block account t e run) = run_notes run @ [tok_address t]"
  "run_tokens (blockReverted bl block account t e run) = run_tokens run"
  by (simp_all add: blockReverted_def Let_def split: option.split)

lemma providerWalletToken_notes:
  "providerWalletToken read t whole run = (r, run') \<Longrightarrow> run_notes run' = run_notes run"
  by (auto simp: providerWalletToken_def cache_store_def Let_def split: if_splits option.splits sum.splits)

text \<open>A row that says something: its amount does not parse, or is not zero.\<close>

definition speaks :: "walletBalance \<Rightarrow> bool" where
  "speaks b \<longleftrightarrow> parseWalletBalanceAmount (bal_amount b) \<noteq> Inr 0"

definition outcomes :: "directState \<Rightarrow> nat" where
  "outcomes s = length (ds_groups s) + length (ds_failures s) + length (run_notes (ds_run s))"

lemma direct_token_outcomes:
  "outcomes (direct_token addr_hex bl client block account b amount s) = Suc (outcomes s)"
proof -
  obtain r run where read: "providerWalletToken (map_option cl_token client) (bal_token b) (bal_complete b) (ds_run s) = (r, run)"
    by fastforce
  then have "run_notes run = run_notes (ds_run s)" by (rule providerWalletToken_notes)
  then show ?thesis using read
    by (simp add: direct_token_def Let_def outcomes_def direct_fail_def split: sum.split)
qed

lemma direct_row_outcomes:
  "outcomes (direct_row addr_hex bl client block chainID account s b) = outcomes s + (if speaks b then 1 else 0)"
  by (auto simp: direct_row_def Let_def speaks_def direct_token_outcomes split: sum.split option.split)
    (auto simp: outcomes_def direct_fail_def)

text \<open>Reading trusted rows drops nothing in silence: every row whose amount is not zero ends in
  exactly one of a group, a reported failure or a coverage note.\<close>

lemma direct_rows_accounted:
  "case directProviderWalletGroups addr_hex bl client block chainID account balances run of
     (groups, failures, run') \<Rightarrow>
       length groups + length failures + length (run_notes run')
         = length (run_notes run) + length (filter speaks balances)"
proof -
  have "outcomes (foldl (direct_row addr_hex bl client block chainID account) s balances)
      = outcomes s + length (filter speaks balances)" for s
    by (induction balances arbitrary: s) (simp_all add: direct_row_outcomes)
  then show ?thesis by (simp add: directProviderWalletGroups_def Let_def outcomes_def)
qed

text \<open>The groups so far: one per token seen, and the native one only once it was.\<close>

definition direct_ok :: "(address \<Rightarrow> string) \<Rightarrow> directState \<Rightarrow> bool" where
  "direct_ok addr_hex s \<longleftrightarrow> cache_ok (ds_run s) \<and> distinct (map grp_id (ds_groups s))
     \<and> grp_id ` set (ds_groups s) \<subseteq> (if ds_native s then {walletNativeGroupID} else {})
         \<union> walletTokenGroupID addr_hex ` set (ds_seen s)"

lemma direct_fail_ok [simp]: "direct_ok addr_hex (direct_fail f s) \<longleftrightarrow> direct_ok addr_hex s"
  by (simp add: direct_ok_def direct_fail_def)

lemma direct_row_ok:
  assumes ok: "direct_ok addr_hex s" and hex: "hex_names addr_hex"
    and client: "client = Some c" "cl_token c = readToken abi_text reads block" "block_chain block = chainID"
  shows "direct_ok addr_hex (direct_row addr_hex bl client block chainID account s b)"
proof -
  have token: "direct_ok addr_hex (direct_token addr_hex bl client block account b amount s)"
    if "tok_address (bal_token b) \<notin> set (ds_seen s)" "tok_chain (bal_token b) = chainID" for amount
  proof -
    obtain r run where read: "providerWalletToken (Some (readToken abi_text reads block)) (bal_token b) (bal_complete b) (ds_run s) = (r, run)"
      by fastforce
    have names: "cache_ok run" "case r of Inl _ \<Rightarrow> True | Inr t \<Rightarrow> tok_address t = tok_address (bal_token b)"
      using on_chain.token_names [OF _ _ read] ok that(2) client(3)
      by (auto simp: direct_ok_def AssetForToken_def split: sum.splits)
    have fresh: "walletTokenGroupID addr_hex (tok_address (bal_token b)) \<notin> grp_id ` set (ds_groups s)"
    proof
      let ?a = "tok_address (bal_token b)"
      assume "walletTokenGroupID addr_hex ?a \<in> grp_id ` set (ds_groups s)"
      then have "walletTokenGroupID addr_hex ?a \<in> {walletNativeGroupID} \<union> walletTokenGroupID addr_hex ` set (ds_seen s)"
        using ok by (auto simp: direct_ok_def split: if_splits)
      then have "walletTokenGroupID addr_hex ?a \<in> walletTokenGroupID addr_hex ` set (ds_seen s)"
        using native_not_token [of addr_hex ?a] by auto
      then show False using that(1) walletTokenGroupID_inject [OF hex] by auto
    qed
    have cache: "cache_ok (blockReverted bl block account t e run)" for t e
      using names(1) by (simp add: cache_ok_def)
    show ?thesis using ok names fresh cache read client
      by (cases r) (auto simp: direct_token_def Let_def direct_ok_def direct_fail_def token_group_def)
  qed
  have native: "direct_ok addr_hex (direct_fail f (s\<lparr>ds_native := True\<rparr>))"
      "direct_ok addr_hex (s\<lparr>ds_native := True, ds_groups := ds_groups s @ [native_group_of chainID coin amount src]\<rparr>)"
    if "\<not> ds_native s" for f coin amount src
    using ok that native_not_token [of addr_hex] by (auto simp: direct_ok_def direct_fail_def native_group_of_def Let_def)
  show ?thesis
  proof (cases "parseWalletBalanceAmount (bal_amount b)")
    case (Inl e)
    then show ?thesis using ok by (simp add: direct_row_def)
  next
    case (Inr amount)
    show ?thesis
      unfolding direct_row_def Inr sum.case Let_def using ok token native
      by (auto split: option.split)
  qed
qed

text \<open>No token and no native balance is reported twice: the groups of an account's trusted rows
  have distinct identities and come in their order, whatever the provider repeated, whether a
  token's metadata came from the row, the cache or the chain.\<close>

lemma direct_groups_distinct:
  assumes "hex_names addr_hex" and "cl_token client = readToken abi_text reads block"
    and "block_chain block = chainID" and "cache_ok run"
    and "directProviderWalletGroups addr_hex bl (Some client) block chainID account balances run = (groups, failures, run')"
  shows "distinct (map grp_id groups) \<and> sorted (map grp_id groups) \<and> cache_ok run'"
proof -
  define s0 where "s0 = \<lparr>ds_seen = [], ds_native = False, ds_groups = [], ds_failures = [], ds_run = run\<rparr>"
  define s where "s = foldl (direct_row addr_hex bl (Some client) block chainID account) s0 balances"
  have "direct_ok addr_hex s \<Longrightarrow> direct_ok addr_hex (foldl (direct_row addr_hex bl (Some client) block chainID account) s balances)" for s
    by (induction balances arbitrary: s) (auto intro: direct_row_ok [OF _ assms(1) refl assms(2,3)])
  moreover have "direct_ok addr_hex s0" using assms(4) by (simp add: direct_ok_def s0_def)
  ultimately have "direct_ok addr_hex s" unfolding s_def by blast
  then have ok: "cache_ok (ds_run s)" "distinct (map grp_id (ds_groups s))" by (simp_all add: direct_ok_def)
  have "distinct (map grp_id (sort_key grp_id (ds_groups s)))"
    using ok(2) by (rule mset_eq_imp_distinct_iff [THEN iffD1, rotated]) simp
  moreover have "groups = sort_key grp_id (ds_groups s)" "run' = ds_run s"
    using assms(5) by (simp_all add: directProviderWalletGroups_def Let_def flip: s0_def s_def)
  ultimately show ?thesis using ok(1) by (simp only: sorted_sort_key simp_thms)
qed

definition demo_reads :: token_reads where
  "demo_reads = \<lparr>read_decimals = (\<lambda>a. Inr [AbiU8 6]), read_string_symbol = (\<lambda>a. Inr [AbiString ''USDC'']),
     read_bytes32_symbol = (\<lambda>a. Inl (plain_error ''none''))\<rparr>"

definition demo_client :: wallet_client where
  "demo_client = \<lparr>cl_native = (\<lambda>a. Inr 3), cl_deployed = (\<lambda>as. Inr (map (\<lambda>a. True) as)),
     cl_calls = (\<lambda>cs. Inr (map (\<lambda>c. Inr [AbiInt (Some 40)]) cs)),
     cl_token = readToken (\<lambda>e. ''bad result'') demo_reads demo_pin\<rparr>"

definition demo_rows :: "walletBalance list" where
  "demo_rows = [\<lparr>bal_token = demo_token Base 9, bal_amount = ''7'', bal_native = False, bal_complete = False\<rparr>,
     \<lparr>bal_token = demo_token Base 9, bal_amount = ''8'', bal_native = False, bal_complete = False\<rparr>]"

definition empty_run :: walletRun where
  "empty_run = \<lparr>run_tokens = Some [], run_notes = [], run_listed = []\<rparr>"

lemma demo_direct_token:
  "providerWalletToken (Some (readToken (\<lambda>e. ''bad result'') demo_reads demo_pin)) (demo_token Base 9) False empty_run
     = (Inr \<lparr>tok_chain = Base, tok_address = 9, tok_symbol = ''USDC'', tok_decimals = 6\<rparr>,
        empty_run\<lparr>run_tokens := Some [((Base, 9), \<lparr>tok_chain = Base, tok_address = 9, tok_symbol = ''USDC'', tok_decimals = 6\<rparr>)]\<rparr>)"
proof -
  have "validatedWalletTokenSymbol ''USDC'' = Inr ''USDC''"
    by (simp add: validatedWalletTokenSymbol_def decode_rune_def first_byte_def byte_val_def IsControl_def IsFormat_def
        between_def TrimSpace_def trim_runes_def rune_bytes_def IsSpace_def maxWalletTokenSymbolBytes_def)
  then show ?thesis
    by (simp add: providerWalletToken_def readToken_def demo_reads_def Uint8At_def value_at_def string_symbol_def
        StringAt_def cache_load_def cache_store_def empty_run_def demo_token_def AssetForToken_def demo_pin_def
        walletTokenCacheEntries_def Let_def)
qed

lemma demo_amounts: "parseWalletBalanceAmount ''7'' = Inr 7" "parseWalletBalanceAmount ''8'' = Inr 8"
  by code_simp+

lemma demo_direct:
  "directProviderWalletGroups address_hex None (Some demo_client) demo_pin Base 5 demo_rows empty_run
     = ([token_group address_hex \<lparr>tok_chain = Base, tok_address = 9, tok_symbol = ''USDC'', tok_decimals = 6\<rparr> 7],
        [DuplicateToken 9],
        empty_run\<lparr>run_tokens := Some [((Base, 9), \<lparr>tok_chain = Base, tok_address = 9, tok_symbol = ''USDC'', tok_decimals = 6\<rparr>)]\<rparr>)"
proof -
  have fields: "tok_address (demo_token Base 9) = 9" "tok_chain (demo_token Base 9) = Base" by (simp_all add: demo_token_def)
  show ?thesis
    using demo_direct_token
    by (simp add: directProviderWalletGroups_def demo_rows_def direct_row_def direct_token_def direct_fail_def fields
        demo_amounts demo_client_def Let_def)
qed

text \<open>
  A group whose amount the chain gave at the settled block: the native balance, or the balance a
  \<open>balanceOf\<close> of a candidate returned, not zero.
\<close>

definition from_chain :: "(address \<Rightarrow> string) \<Rightarrow> wallet_client \<Rightarrow> chain_id \<Rightarrow> address \<Rightarrow> group \<Rightarrow> bool" where
  "from_chain addr_hex client chainID account g \<longleftrightarrow>
     (\<exists>coin amount. map_of walletNativeCoin chainID = Some coin \<and> cl_native client account = Inr amount
        \<and> amount \<noteq> 0 \<and> g = native_group_of chainID coin amount native_source)
     \<or> (\<exists>calls rows i vs amount t. cl_calls client calls = Inr rows \<and> i < length calls \<and> i < length rows
          \<and> call_method (calls ! i) = ''balanceOf'' \<and> call_args (calls ! i) = [AbiAddress account]
          \<and> rows ! i = Inr vs \<and> BigIntAt vs 0 = Inr amount \<and> amount \<noteq> 0 \<and> g = token_group addr_hex t amount)"

text \<open>Where a provider's rows only discover tokens, no amount of theirs is ever reported: every
  group's amount was read from the chain at the scan's own block and is not zero.\<close>

lemma discovered_amounts_from_chain:
  "list_all (from_chain addr_hex client chainID account)
     (fst (discoveredProviderWalletGroups addr_hex bl client block chainID account balances run))"
proof -
  have native: "list_all (from_chain addr_hex client chainID account) (fst (discovered_native client chainID account))"
    by (auto simp: discovered_native_def from_chain_def split: option.split sum.split)
  have step: "list_all (from_chain addr_hex client chainID account) (fst (discovered_row addr_hex bl client block account st (b, row)))"
    if st: "list_all (from_chain addr_hex client chainID account) (fst st)"
      and call: "cl_calls client calls = Inr rows" "i < length calls" "i < length rows" "rows ! i = row"
        "call_method (calls ! i) = ''balanceOf''" "call_args (calls ! i) = [AbiAddress account]" for st b row calls rows i
  proof -
    obtain groups failures run' where s: "st = (groups, failures, run')" by (cases st)
    have new: "from_chain addr_hex client chainID account (token_group addr_hex t amount)"
      if "row = Inr vs" "BigIntAt vs 0 = Inr amount" "amount \<noteq> 0" for vs amount t
      using that call unfolding from_chain_def by blast
    show ?thesis using st new
      by (auto simp: s discovered_row_def Let_def split: sum.split prod.split)
  qed
  have fold: "list_all (from_chain addr_hex client chainID account)
      (fst (foldl (discovered_row addr_hex bl client block account) st es))"
    if "list_all (from_chain addr_hex client chainID account) (fst st)"
      "\<forall>(b, row) \<in> set es. \<exists>calls rows i. cl_calls client calls = Inr rows \<and> i < length calls \<and> i < length rows
         \<and> rows ! i = row \<and> call_method (calls ! i) = ''balanceOf'' \<and> call_args (calls ! i) = [AbiAddress account]" for st es
    using that
  proof (induction es arbitrary: st)
    case (Cons e es)
    obtain b row where e: "e = (b, row)" by (cases e)
    then have "list_all (from_chain addr_hex client chainID account) (fst (discovered_row addr_hex bl client block account st e))"
      using Cons.prems step by fastforce
    then show ?case using Cons by simp
  qed simp
  have rows: "\<forall>(b, row) \<in> set (zip candidates rows). \<exists>calls rows i. cl_calls client calls = Inr rows \<and> i < length calls
       \<and> i < length rows \<and> rows ! i = row \<and> call_method (calls ! i) = ''balanceOf'' \<and> call_args (calls ! i) = [AbiAddress account]"
    if "cl_calls client (balance_calls account candidates) = Inr rows" for candidates rows
  proof (clarify)
    fix b row assume "(b, row) \<in> set (zip candidates rows)"
    then obtain i where "i < length candidates" "i < length rows" "rows ! i = row" by (auto simp: set_zip)
    then show "\<exists>calls rows i. cl_calls client calls = Inr rows \<and> i < length calls
       \<and> i < length rows \<and> rows ! i = row \<and> call_method (calls ! i) = ''balanceOf'' \<and> call_args (calls ! i) = [AbiAddress account]"
      using that by (intro exI [of _ "balance_calls account candidates"] exI [of _ rows] exI [of _ i])
        (simp add: balance_calls_def view_call_def)
  qed
  have whole: "list_all (from_chain addr_hex client chainID account)
      (fst (foldl (discovered_row addr_hex bl client block account)
        (fst (discovered_native client chainID account), failures, run) (zip candidates rows)))"
    if "cl_calls client (balance_calls account candidates) = Inr rows" for candidates rows failures
    using fold [OF _ rows [OF that], of "(fst (discovered_native client chainID account), failures, run)"] native by simp
  have sorted: "list_all (from_chain addr_hex client chainID account) (sort_key grp_id gs)"
    if "list_all (from_chain addr_hex client chainID account) gs" for gs
    using that by (simp add: list_all_iff)
  show ?thesis
    using whole sorted native
    by (simp add: discoveredProviderWalletGroups_def split_beta split: sum.split)
qed

end
