(* ===== verification/Machines.thy ===== *)
theory Machines
  imports Types
begin

text \<open>
  The concurrent state of one scan, as machines whose steps are the code's atomic actions: the
  indexer lane of \<open>sentio_lane.go\<close>, and the memo, the coverage sink and the scope of
  \<open>scan_scope.go\<close>. A machine is an executable function of an event and a state, \<open>None\<close> where the
  action is not possible; a step is an action that is.
\<close>

section \<open>Machines and their invariants\<close>

definition steps :: "('e \<Rightarrow> 's \<Rightarrow> 's option) \<Rightarrow> 's \<Rightarrow> 's \<Rightarrow> bool" where
  "steps act s s' \<longleftrightarrow> (\<exists>e. act e s = Some s')"

primrec run_events :: "('e \<Rightarrow> 's \<Rightarrow> 's option) \<Rightarrow> 'e list \<Rightarrow> 's \<Rightarrow> 's option" where
  "run_events act [] s = Some s"
| "run_events act (e # es) s = (case act e s of None \<Rightarrow> None | Some s' \<Rightarrow> run_events act es s')"

lemma run_events_steps: "run_events act es s = Some s' \<Longrightarrow> (steps act)\<^sup>*\<^sup>* s s'"
proof (induction es arbitrary: s)
  case (Cons e es)
  then obtain t where t: "act e s = Some t" "run_events act es t = Some s'" by (auto split: option.splits)
  then have "steps act s t" by (auto simp: steps_def)
  then show ?case using Cons.IH [OF t(2)] by (rule converse_rtranclp_into_rtranclp)
qed simp

locale machine =
  fixes act :: "'e \<Rightarrow> 's \<Rightarrow> 's option" and start :: 's and inv :: "'s \<Rightarrow> bool"
  assumes inv_start: "inv start"
    and inv_act: "inv s \<Longrightarrow> act e s = Some s' \<Longrightarrow> inv s'"
begin

lemma inv_reachable: "(steps act)\<^sup>*\<^sup>* start s \<Longrightarrow> inv s"
  by (induction rule: rtranclp_induct) (auto simp: steps_def inv_start intro: inv_act)

end

section \<open>The indexer lane\<close>

definition defaultIndexerConcurrency :: int where
  "defaultIndexerConcurrency = 4"

text \<open>
  A caller of \<open>acquire\<close>: not there yet, about to try a free slot, refused by the try, counted and
  blocked, in possession of a slot or past the end of its context but still counted (its deferred
  decrement is to come), returned with a slot, done with it, or returned with its context's error.
\<close>

datatype lane_phase = Outside | Trying | Refused | Waiting | Taken | Leaving | Holding | Released | GaveUp

record laneStats =
  stats_capacity :: nat
  stats_in_use :: nat
  stats_waiting :: nat

text \<open>A call of \<open>stats\<close>: none made, the slots read and the waiters not yet, or returned.\<close>

datatype lane_reading = NoStats | SlotsRead nat nat | StatsReturned laneStats

record lane =
  lane_capacity :: nat
  lane_slots :: nat
  lane_waiting :: nat
  lane_phase_of :: "nat \<Rightarrow> lane_phase"
  lane_ended :: "nat \<Rightarrow> bool"
  lane_reading_of :: "nat \<Rightarrow> lane_reading"

definition newIndexerLane :: "int \<Rightarrow> lane" where
  "newIndexerLane concurrency =
     \<lparr>lane_capacity = nat (if concurrency \<le> 0 then defaultIndexerConcurrency else concurrency),
      lane_slots = 0, lane_waiting = 0, lane_phase_of = (\<lambda>_. Outside), lane_ended = (\<lambda>_. False),
      lane_reading_of = (\<lambda>_. NoStats)\<rparr>"

datatype lane_event = Enter nat | TrySlot nat | StartWaiting nat | Admit nat | GiveUp nat | Uncount nat
  | ReleaseSlot nat | ContextEnds nat | ReadSlots nat | ReadWaiting nat

definition set_phase :: "nat \<Rightarrow> lane_phase \<Rightarrow> lane \<Rightarrow> lane" where
  "set_phase c p l = l\<lparr>lane_phase_of := (lane_phase_of l)(c := p)\<rparr>"

text \<open>
  \<open>stats\<close> reads the slots in use and then the count of waiters: two atomic reads, between which
  callers move.
\<close>

definition lane_read_slots :: "nat \<Rightarrow> lane \<Rightarrow> lane option" where
  "lane_read_slots r l = (case lane_reading_of l r of
       SlotsRead _ _ \<Rightarrow> None
     | _ \<Rightarrow> Some (l\<lparr>lane_reading_of := (lane_reading_of l)(r := SlotsRead (lane_capacity l) (lane_slots l))\<rparr>))"

definition lane_read_waiting :: "nat \<Rightarrow> lane \<Rightarrow> lane option" where
  "lane_read_waiting r l = (case lane_reading_of l r of
       SlotsRead slots used \<Rightarrow> Some (l\<lparr>lane_reading_of := (lane_reading_of l)(r := StatsReturned
         \<lparr>stats_capacity = slots, stats_in_use = used, stats_waiting = lane_waiting l\<rparr>)\<rparr>)
     | _ \<Rightarrow> None)"

text \<open>
  \<open>acquire\<close>: the context is looked at; a live one tries a slot without waiting. Refused, or with an
  ended context, the caller is counted, then takes a slot or finds its context ended, and only
  then, as it returns, is it no longer counted. \<open>release\<close> receives from the channel, which blocks
  on an empty one; \<open>once\<close> makes a second release do nothing.
\<close>

fun lane_act :: "lane_event \<Rightarrow> lane \<Rightarrow> lane option" where
  "lane_act (Enter c) l = (if lane_phase_of l c \<noteq> Outside then None
     else Some (set_phase c (if lane_ended l c then Refused else Trying) l))"
| "lane_act (TrySlot c) l = (if lane_phase_of l c \<noteq> Trying then None
     else if lane_slots l < lane_capacity l
       then Some (set_phase c Holding (l\<lparr>lane_slots := lane_slots l + 1\<rparr>))
     else Some (set_phase c Refused l))"
| "lane_act (StartWaiting c) l = (if lane_phase_of l c \<noteq> Refused then None
     else Some (set_phase c Waiting (l\<lparr>lane_waiting := lane_waiting l + 1\<rparr>)))"
| "lane_act (Admit c) l = (if lane_phase_of l c \<noteq> Waiting \<or> lane_slots l \<ge> lane_capacity l then None
     else Some (set_phase c Taken (l\<lparr>lane_slots := lane_slots l + 1\<rparr>)))"
| "lane_act (GiveUp c) l = (if lane_phase_of l c \<noteq> Waiting \<or> \<not> lane_ended l c then None
     else Some (set_phase c Leaving l))"
| "lane_act (Uncount c) l = (case lane_phase_of l c of
       Taken \<Rightarrow> Some (set_phase c Holding (l\<lparr>lane_waiting := lane_waiting l - 1\<rparr>))
     | Leaving \<Rightarrow> Some (set_phase c GaveUp (l\<lparr>lane_waiting := lane_waiting l - 1\<rparr>))
     | _ \<Rightarrow> None)"
| "lane_act (ReleaseSlot c) l = (case lane_phase_of l c of
       Holding \<Rightarrow> if lane_slots l = 0 then None
         else Some (set_phase c Released (l\<lparr>lane_slots := lane_slots l - 1\<rparr>))
     | Released \<Rightarrow> Some l
     | _ \<Rightarrow> None)"
| "lane_act (ContextEnds c) l = Some (l\<lparr>lane_ended := (lane_ended l)(c := True)\<rparr>)"
| "lane_act (ReadSlots r) l = lane_read_slots r l"
| "lane_act (ReadWaiting r) l = lane_read_waiting r l"

definition in_phases :: "lane_phase set \<Rightarrow> lane \<Rightarrow> nat set" where
  "in_phases P l = {c. lane_phase_of l c \<in> P}"

definition reading_ok :: "nat \<Rightarrow> lane_reading \<Rightarrow> bool" where
  "reading_ok capacity r = (case r of
       NoStats \<Rightarrow> True
     | SlotsRead slots used \<Rightarrow> slots = capacity \<and> used \<le> capacity
     | StatsReturned s \<Rightarrow> stats_capacity s = capacity \<and> stats_in_use s \<le> capacity)"

text \<open>
  The slots taken are the callers in possession of one, whether they have returned or not; the
  count of waiters is the callers between their increment and their decrement. A caller in
  possession of a slot that has not returned is in both.
\<close>

definition lane_inv :: "nat \<Rightarrow> lane \<Rightarrow> bool" where
  "lane_inv capacity l \<longleftrightarrow> lane_capacity l = capacity \<and> lane_slots l \<le> capacity
     \<and> finite (in_phases {Taken, Holding} l) \<and> card (in_phases {Taken, Holding} l) = lane_slots l
     \<and> finite (in_phases {Waiting, Taken, Leaving} l)
     \<and> card (in_phases {Waiting, Taken, Leaving} l) = lane_waiting l
     \<and> (\<forall>c. lane_phase_of l c \<in> {Leaving, GaveUp} \<longrightarrow> lane_ended l c)
     \<and> (\<forall>r. reading_ok capacity (lane_reading_of l r))"

lemma lane_invD:
  assumes "lane_inv n l"
  shows "lane_capacity l = n" and "lane_slots l \<le> n"
    and "finite (in_phases {Taken, Holding} l)" and "card (in_phases {Taken, Holding} l) = lane_slots l"
    and "finite (in_phases {Waiting, Taken, Leaving} l)"
    and "card (in_phases {Waiting, Taken, Leaving} l) = lane_waiting l"
    and "lane_phase_of l c \<in> {Leaving, GaveUp} \<Longrightarrow> lane_ended l c"
    and "reading_ok n (lane_reading_of l r)"
  using assms unfolding lane_inv_def by blast+

lemma in_phases_other [simp]:
  "in_phases P (l\<lparr>lane_slots := n\<rparr>) = in_phases P l"
  "in_phases P (l\<lparr>lane_waiting := n\<rparr>) = in_phases P l"
  "in_phases P (l\<lparr>lane_ended := f\<rparr>) = in_phases P l"
  "in_phases P (l\<lparr>lane_reading_of := g\<rparr>) = in_phases P l"
  by (simp_all add: in_phases_def)

lemma set_phase_other [simp]:
  "lane_slots (set_phase c q l) = lane_slots l" "lane_waiting (set_phase c q l) = lane_waiting l"
  "lane_capacity (set_phase c q l) = lane_capacity l" "lane_ended (set_phase c q l) = lane_ended l"
  "lane_reading_of (set_phase c q l) = lane_reading_of l"
  "lane_phase_of (set_phase c q l) = (lane_phase_of l)(c := q)"
  by (simp_all add: set_phase_def)

lemma move_phases:
  assumes "finite (in_phases P l)"
  shows "finite (in_phases P (set_phase c q l))"
    and "card (in_phases P (set_phase c q l)) + (if lane_phase_of l c \<in> P then 1 else 0)
       = card (in_phases P l) + (if q \<in> P then 1 else 0)"
proof -
  have set: "in_phases P (set_phase c q l) = (if q \<in> P then insert c (in_phases P l) else in_phases P l - {c})"
    by (auto simp: in_phases_def)
  have c: "c \<in> in_phases P l \<longleftrightarrow> lane_phase_of l c \<in> P" by (simp add: in_phases_def)
  show "finite (in_phases P (set_phase c q l))" using assms by (simp add: set)
  show "card (in_phases P (set_phase c q l)) + (if lane_phase_of l c \<in> P then 1 else 0)
       = card (in_phases P l) + (if q \<in> P then 1 else 0)"
    using assms c card_Suc_Diff1 [OF assms, of c] by (auto simp: set card_insert_if)
qed

text \<open>A step of a caller keeps the invariant when the two counters move as its phase does.\<close>

lemma lane_inv_move:
  assumes inv: "lane_inv n l" and "slots \<le> n"
    and slots: "slots + (if lane_phase_of l c \<in> {Taken, Holding} then 1 else 0)
      = lane_slots l + (if q \<in> {Taken, Holding} then 1 else 0)"
    and waiting: "waiting + (if lane_phase_of l c \<in> {Waiting, Taken, Leaving} then 1 else 0)
      = lane_waiting l + (if q \<in> {Waiting, Taken, Leaving} then 1 else 0)"
    and gone: "q \<in> {Leaving, GaveUp} \<Longrightarrow> lane_ended l c"
  shows "lane_inv n (set_phase c q (l\<lparr>lane_slots := slots, lane_waiting := waiting\<rparr>))"
proof -
  let ?l = "l\<lparr>lane_slots := slots, lane_waiting := waiting\<rparr>"
  have fin: "finite (in_phases {Taken, Holding} ?l)" "finite (in_phases {Waiting, Taken, Leaving} ?l)"
    using lane_invD(3,5) [OF inv] by simp_all
  have "card (in_phases {Taken, Holding} (set_phase c q ?l)) = slots"
    using move_phases(2) [OF fin(1), of c q] slots lane_invD(4) [OF inv] by simp
  moreover have "card (in_phases {Waiting, Taken, Leaving} (set_phase c q ?l)) = waiting"
    using move_phases(2) [OF fin(2), of c q] waiting lane_invD(6) [OF inv] by simp
  ultimately show ?thesis
    unfolding lane_inv_def
    using move_phases(1) [OF fin(1)] move_phases(1) [OF fin(2)] lane_invD(1,7,8) [OF inv] assms(2) gone by simp
qed

lemma lane_update_same [simp]:
  "l\<lparr>lane_slots := n, lane_waiting := lane_waiting l\<rparr> = l\<lparr>lane_slots := n\<rparr>"
  "l\<lparr>lane_slots := lane_slots l, lane_waiting := n\<rparr> = l\<lparr>lane_waiting := n\<rparr>"
  "l\<lparr>lane_slots := lane_slots l\<rparr> = l"
  by (cases l; simp)+

lemma in_phases_pos:
  assumes "finite (in_phases P l)" and "lane_phase_of l c \<in> P"
  shows "0 < card (in_phases P l)"
proof -
  have "c \<in> in_phases P l" using assms(2) by (simp add: in_phases_def)
  then show ?thesis using assms(1) card_gt_0_iff by blast
qed

lemma lane_reading_inv:
  assumes "lane_inv n l" and "lane_read_slots r l = Some l' \<or> lane_read_waiting r l = Some l'"
  shows "lane_inv n l'"
proof -
  obtain x where l': "l' = l\<lparr>lane_reading_of := (lane_reading_of l)(r := x)\<rparr>" and x: "reading_ok n x"
    using assms(2) lane_invD(1,2) [OF assms(1)] lane_invD(8) [OF assms(1), of r]
    by (auto simp: lane_read_slots_def lane_read_waiting_def reading_ok_def split: lane_reading.splits)
  then show ?thesis using lane_invD [OF assms(1)] unfolding lane_inv_def by simp
qed

lemma lane_inv_act:
  assumes inv: "lane_inv n l" and act: "lane_act e l = Some l'"
  shows "lane_inv n l'"
proof (cases e)
  case (Enter c)
  then show ?thesis
    using act lane_invD(2) [OF inv] lane_inv_move [OF inv, of "lane_slots l" c "lane_phase_of l' c" "lane_waiting l"]
    by (auto split: if_splits)
next
  case (TrySlot c)
  then show ?thesis
    using act lane_invD(1,2) [OF inv] lane_inv_move [OF inv, of "lane_slots l" c Refused "lane_waiting l"]
      lane_inv_move [OF inv, of "lane_slots l + 1" c Holding "lane_waiting l"] by (auto split: if_splits)
next
  case (StartWaiting c)
  then show ?thesis
    using act lane_invD(2) [OF inv] lane_inv_move [OF inv, of "lane_slots l" c Waiting "lane_waiting l + 1"]
    by (auto split: if_splits)
next
  case (Admit c)
  then show ?thesis
    using act lane_invD(1,2) [OF inv] lane_inv_move [OF inv, of "lane_slots l + 1" c Taken "lane_waiting l"]
    by (auto split: if_splits)
next
  case (GiveUp c)
  then show ?thesis
    using act lane_invD(2) [OF inv] lane_inv_move [OF inv, of "lane_slots l" c Leaving "lane_waiting l"]
    by (auto split: if_splits)
next
  case (Uncount c)
  then have "lane_phase_of l c \<in> {Waiting, Taken, Leaving}" using act by (auto split: lane_phase.splits)
  then have "0 < lane_waiting l" using in_phases_pos [OF lane_invD(5) [OF inv]] lane_invD(6) [OF inv] by simp
  then show ?thesis
    using Uncount act lane_invD(2) [OF inv] lane_invD(7) [OF inv, of c]
      lane_inv_move [OF inv, of "lane_slots l" c Holding "lane_waiting l - 1"]
      lane_inv_move [OF inv, of "lane_slots l" c GaveUp "lane_waiting l - 1"]
    by (auto split: lane_phase.splits)
next
  case (ReleaseSlot c)
  then show ?thesis
    using act inv lane_invD(2) [OF inv] lane_inv_move [OF inv, of "lane_slots l - 1" c Released "lane_waiting l"]
    by (auto split: lane_phase.splits if_splits)
next
  case (ContextEnds c)
  then show ?thesis using act lane_invD [OF inv] unfolding lane_inv_def by auto
next
  case (ReadSlots r)
  then show ?thesis using act lane_reading_inv [OF inv, of r l'] by simp
next
  case (ReadWaiting r)
  then show ?thesis using act lane_reading_inv [OF inv, of r l'] by simp
qed

lemma lane_inv_start: "lane_inv (lane_capacity (newIndexerLane n)) (newIndexerLane n)"
  by (simp add: lane_inv_def newIndexerLane_def in_phases_def reading_ok_def)

interpretation indexer_lane: machine lane_act "newIndexerLane n" "lane_inv (lane_capacity (newIndexerLane n))" for n
  by unfold_locales (rule lane_inv_start, rule lane_inv_act)

text \<open>C23: however its callers interleave, the callers in possession of a slot, returned from
  \<open>acquire\<close> or about to, are exactly the slots taken and never more than the capacity, which is at
  least one; the count of waiters is exactly the callers that wait or have settled and not yet
  been counted off, so a caller may for a moment be in both. A call of \<open>stats\<close> reads the first
  number at one moment and the second at a later one, and never reports more slots in use than
  the capacity. A caller waiting while a slot is free can take it; one leaves or has given up only
  when its context has ended; a caller that has settled can always be counted off, and one that holds
  a slot can always give it back without blocking, where giving it back again changes nothing.\<close>

theorem lane_bounded:
  assumes "(steps lane_act)\<^sup>*\<^sup>* (newIndexerLane n) l"
  shows "lane_capacity l = nat (if n \<le> 0 then 4 else n) \<and> 0 < lane_capacity l
     \<and> card {c. lane_phase_of l c = Taken \<or> lane_phase_of l c = Holding} = lane_slots l
     \<and> lane_slots l \<le> lane_capacity l
     \<and> card {c. lane_phase_of l c = Waiting \<or> lane_phase_of l c = Taken \<or> lane_phase_of l c = Leaving} = lane_waiting l
     \<and> (\<forall>r l'. lane_act (ReadSlots r) l = Some l' \<longrightarrow> lane_reading_of l' r = SlotsRead (lane_capacity l)
           (card {c. lane_phase_of l c = Taken \<or> lane_phase_of l c = Holding}))
     \<and> (\<forall>r l' slots used. lane_reading_of l r = SlotsRead slots used \<and> lane_act (ReadWaiting r) l = Some l' \<longrightarrow>
           lane_reading_of l' r = StatsReturned \<lparr>stats_capacity = slots, stats_in_use = used, stats_waiting =
             card {c. lane_phase_of l c = Waiting \<or> lane_phase_of l c = Taken \<or> lane_phase_of l c = Leaving}\<rparr>)
     \<and> (\<forall>r s. lane_reading_of l r = StatsReturned s \<longrightarrow>
           stats_capacity s = lane_capacity l \<and> stats_in_use s \<le> lane_capacity l)
     \<and> (\<forall>c. lane_phase_of l c = Waiting \<and> card {d. lane_phase_of l d = Taken \<or> lane_phase_of l d = Holding} < lane_capacity l \<longrightarrow>
           (\<exists>l'. lane_act (Admit c) l = Some l' \<and> lane_phase_of l' c = Taken))
     \<and> (\<forall>c. lane_phase_of l c = Leaving \<or> lane_phase_of l c = GaveUp \<longrightarrow> lane_ended l c)
     \<and> (\<forall>c. lane_phase_of l c = Taken \<or> lane_phase_of l c = Leaving \<longrightarrow>
           (\<exists>l'. lane_act (Uncount c) l = Some l' \<and> lane_waiting l' + 1 = lane_waiting l))
     \<and> (\<forall>c. lane_phase_of l c = Holding \<longrightarrow> (\<exists>l'. lane_act (ReleaseSlot c) l = Some l'
           \<and> lane_slots l' + 1 = lane_slots l \<and> lane_act (ReleaseSlot c) l' = Some l'))"
proof -
  have inv: "lane_inv (lane_capacity (newIndexerLane n)) l" using assms by (rule indexer_lane.inv_reachable)
  have cap: "lane_capacity l = nat (if n \<le> 0 then 4 else n)" "0 < lane_capacity l"
    using lane_invD(1) [OF inv] by (simp_all add: newIndexerLane_def defaultIndexerConcurrency_def)
  have taken: "{c. lane_phase_of l c = Taken \<or> lane_phase_of l c = Holding} = in_phases {Taken, Holding} l"
    and counted: "{c. lane_phase_of l c = Waiting \<or> lane_phase_of l c = Taken \<or> lane_phase_of l c = Leaving}
      = in_phases {Waiting, Taken, Leaving} l"
    by (simp_all add: in_phases_def)
  have give: "\<exists>l'. lane_act (ReleaseSlot c) l = Some l' \<and> lane_slots l' + 1 = lane_slots l \<and> lane_act (ReleaseSlot c) l' = Some l'"
    if "lane_phase_of l c = Holding" for c
    using in_phases_pos [OF lane_invD(3) [OF inv], of c] that lane_invD(4) [OF inv] by simp
  have off: "\<exists>l'. lane_act (Uncount c) l = Some l' \<and> lane_waiting l' + 1 = lane_waiting l"
    if "lane_phase_of l c = Taken \<or> lane_phase_of l c = Leaving" for c
    using in_phases_pos [OF lane_invD(5) [OF inv], of c] that lane_invD(6) [OF inv] by auto
  have stats: "stats_capacity s = lane_capacity l \<and> stats_in_use s \<le> lane_capacity l"
    if "lane_reading_of l r = StatsReturned s" for r s
    using lane_invD(8) [OF inv, of r] that lane_invD(1) [OF inv] by (simp add: reading_ok_def)
  show ?thesis
    unfolding taken counted lane_invD(4,6) [OF inv]
    using cap lane_invD(2) [OF inv] lane_invD(1) [OF inv] lane_invD(7) [OF inv] stats give off
    by (intro conjI allI impI) (auto simp del: lane_act.simps(4,6,7) simp: lane_act.simps(4) lane_read_slots_def lane_read_waiting_def split: lane_reading.splits)
qed

theorem lane_bounded_witness:
  "\<exists>l. run_events lane_act [Enter 0, TrySlot 0, Enter 1, TrySlot 1, StartWaiting 1, ReleaseSlot 0, ReadSlots 7, Admit 1, ReadWaiting 7]
        (newIndexerLane 1) = Some l
     \<and> lane_reading_of l 7 = StatsReturned \<lparr>stats_capacity = 1, stats_in_use = 0, stats_waiting = 1\<rparr>
     \<and> card {c. lane_phase_of l c = Taken \<or> lane_phase_of l c = Holding} = 1"
proof -
  obtain l where l: "run_events lane_act [Enter 0, TrySlot 0, Enter 1, TrySlot 1, StartWaiting 1, ReleaseSlot 0, ReadSlots 7, Admit 1, ReadWaiting 7]
        (newIndexerLane 1) = Some l"
      "lane_slots l = 1" "lane_reading_of l 7 = StatsReturned \<lparr>stats_capacity = 1, stats_in_use = 0, stats_waiting = 1\<rparr>"
    by (simp add: newIndexerLane_def lane_read_slots_def lane_read_waiting_def)
  from lane_bounded [OF run_events_steps [OF l(1)]] l show ?thesis by simp
qed

section \<open>The memo of a scan\<close>

text \<open>
  An entry is claimed by its owner until its value is set and its done channel closed. A caller of
  \<open>once\<close> owns the computation or waits for the entry, and ends with a value, or with nothing when
  its context ends first; \<open>start\<close> claims for the background unless someone already did. The log
  records every computation begun.
\<close>

datatype 'v memo_entry = Claimed nat | Done 'v

datatype 'v memo_phase = Idle | Computing string | Background string | Blocked string | Returned string "'v option" | Spent

record 'v memo =
  memo_entries :: "string \<rightharpoonup> 'v memo_entry"
  memo_phase_of :: "nat \<Rightarrow> 'v memo_phase"
  memo_ended :: "nat \<Rightarrow> bool"
  memo_log :: "string list"

definition newScanMemo :: "'v memo" where
  "newScanMemo = \<lparr>memo_entries = Map.empty, memo_phase_of = (\<lambda>_. Idle), memo_ended = (\<lambda>_. False), memo_log = []\<rparr>"

datatype 'v memo_event = Once nat string | Start nat string | Computed nat 'v | Woken nat | Left nat | CallerEnds nat

definition memo_phase :: "nat \<Rightarrow> 'v memo_phase \<Rightarrow> 'v memo \<Rightarrow> 'v memo" where
  "memo_phase c p m = m\<lparr>memo_phase_of := (memo_phase_of m)(c := p)\<rparr>"

text \<open>\<open>claim\<close>, under the mutex: whether the caller now owns the key.\<close>

definition memo_claim :: "nat \<Rightarrow> string \<Rightarrow> 'v memo \<Rightarrow> bool \<times> 'v memo" where
  "memo_claim c key m = (case memo_entries m key of
       Some _ \<Rightarrow> (False, m)
     | None \<Rightarrow> (True, m\<lparr>memo_entries := (memo_entries m)(key \<mapsto> Claimed c), memo_log := memo_log m @ [key]\<rparr>))"

fun memo_act :: "'v memo_event \<Rightarrow> 'v memo \<Rightarrow> 'v memo option" where
  "memo_act (Once c key) m = (if memo_phase_of m c \<noteq> Idle then None
     else let (owner, m) = memo_claim c key m in
       Some (memo_phase c (if owner then Computing key else Blocked key) m))"
| "memo_act (Start c key) m = (if memo_phase_of m c \<noteq> Idle then None
     else let (owner, m) = memo_claim c key m in
       Some (memo_phase c (if owner then Background key else Spent) m))"
| "memo_act (Computed c v) m = (case memo_phase_of m c of
       Computing key \<Rightarrow> Some (memo_phase c (Returned key (Some v))
         (m\<lparr>memo_entries := (memo_entries m)(key \<mapsto> Done v)\<rparr>))
     | Background key \<Rightarrow> Some (memo_phase c Spent (m\<lparr>memo_entries := (memo_entries m)(key \<mapsto> Done v)\<rparr>))
     | _ \<Rightarrow> None)"
| "memo_act (Woken c) m = (case memo_phase_of m c of
       Blocked key \<Rightarrow> (case memo_entries m key of
           Some (Done v) \<Rightarrow> Some (memo_phase c (Returned key (Some v)) m) | _ \<Rightarrow> None)
     | _ \<Rightarrow> None)"
| "memo_act (Left c) m = (case memo_phase_of m c of
       Blocked key \<Rightarrow> if memo_ended m c then Some (memo_phase c (Returned key None) m) else None
     | _ \<Rightarrow> None)"
| "memo_act (CallerEnds c) m = Some (m\<lparr>memo_ended := (memo_ended m)(c := True)\<rparr>)"

text \<open>What an entry is for a caller in a phase.\<close>

fun phase_ok :: "(string \<rightharpoonup> 'v memo_entry) \<Rightarrow> nat \<Rightarrow> 'v memo_phase \<Rightarrow> bool" where
  "phase_ok entries c (Computing key) = (entries key = Some (Claimed c))"
| "phase_ok entries c (Background key) = (entries key = Some (Claimed c))"
| "phase_ok entries c (Blocked key) = (entries key \<noteq> None)"
| "phase_ok entries c (Returned key (Some v)) = (entries key = Some (Done v))"
| "phase_ok entries c _ = True"

definition owns :: "string \<Rightarrow> 'v memo_phase \<Rightarrow> bool" where
  "owns key p \<longleftrightarrow> p = Computing key \<or> p = Background key"

definition memo_inv :: "'v memo \<Rightarrow> bool" where
  "memo_inv m \<longleftrightarrow> distinct (memo_log m) \<and> set (memo_log m) = dom (memo_entries m)
     \<and> (\<forall>c. phase_ok (memo_entries m) c (memo_phase_of m c))
     \<and> (\<forall>key c. memo_entries m key = Some (Claimed c) \<longrightarrow> owns key (memo_phase_of m c))"

lemma memo_invD:
  assumes "memo_inv m"
  shows "phase_ok (memo_entries m) c (memo_phase_of m c)"
    and "memo_entries m key = Some (Claimed c) \<Longrightarrow> owns key (memo_phase_of m c)"
    and "distinct (memo_log m)" and "set (memo_log m) = dom (memo_entries m)"
  using assms by (auto simp: memo_inv_def)

lemma memo_inv_start: "memo_inv newScanMemo"
  by (simp add: memo_inv_def newScanMemo_def)

lemma phase_ok_claim: "phase_ok entries d p \<Longrightarrow> entries key = None \<Longrightarrow> phase_ok (entries(key \<mapsto> Claimed c)) d p"
  by (cases "(entries, d, p)" rule: phase_ok.cases) auto

lemma phase_ok_done:
  "phase_ok entries d p \<Longrightarrow> entries key = Some (Claimed c) \<Longrightarrow> d \<noteq> c \<Longrightarrow> phase_ok (entries(key \<mapsto> Done v)) d p"
  by (cases "(entries, d, p)" rule: phase_ok.cases) auto

text \<open>A caller not owning an entry moves to a phase the entries allow.\<close>

lemma memo_inv_move:
  assumes "memo_inv m" and "\<And>key. \<not> owns key (memo_phase_of m c)" and "phase_ok (memo_entries m) c p"
  shows "memo_inv (memo_phase c p m)"
  unfolding memo_inv_def
proof (intro conjI allI impI)
  fix d
  show "phase_ok (memo_entries (memo_phase c p m)) d (memo_phase_of (memo_phase c p m) d)"
    using assms(3) memo_invD(1) [OF assms(1)] by (simp add: memo_phase_def)
next
  fix key d
  assume "memo_entries (memo_phase c p m) key = Some (Claimed d)"
  then have "owns key (memo_phase_of m d)" using memo_invD(2) [OF assms(1)] by (simp add: memo_phase_def)
  then show "owns key (memo_phase_of (memo_phase c p m) d)" using assms(2) by (auto simp: memo_phase_def)
qed (use memo_invD(3,4) [OF assms(1)] in \<open>simp_all add: memo_phase_def\<close>)

lemma memo_inv_own:
  assumes "memo_inv m" and "memo_phase_of m c = Idle" and "memo_entries m key = None" and "owns key p"
  shows "memo_inv (memo_phase c p (m\<lparr>memo_entries := (memo_entries m)(key \<mapsto> Claimed c), memo_log := memo_log m @ [key]\<rparr>))"
  unfolding memo_inv_def
proof (intro conjI allI impI)
  fix d
  let ?m = "memo_phase c p (m\<lparr>memo_entries := (memo_entries m)(key \<mapsto> Claimed c), memo_log := memo_log m @ [key]\<rparr>)"
  show "phase_ok (memo_entries ?m) d (memo_phase_of ?m d)"
    using assms(4) phase_ok_claim [OF memo_invD(1) [OF assms(1), of d] assms(3)]
    by (auto simp: memo_phase_def owns_def)
next
  fix k d
  let ?m = "memo_phase c p (m\<lparr>memo_entries := (memo_entries m)(key \<mapsto> Claimed c), memo_log := memo_log m @ [key]\<rparr>)"
  assume k: "memo_entries ?m k = Some (Claimed d)"
  show "owns k (memo_phase_of ?m d)"
  proof (cases "k = key")
    case True
    then show ?thesis using k assms(4) by (auto simp: memo_phase_def)
  next
    case False
    then have "owns k (memo_phase_of m d)" using k memo_invD(2) [OF assms(1)] by (simp add: memo_phase_def)
    then show ?thesis using assms(2) by (auto simp: memo_phase_def owns_def)
  qed
qed (use memo_invD(3,4) [OF assms(1)] assms(3) in \<open>auto simp: memo_phase_def dom_def\<close>)

lemma memo_inv_done:
  assumes "memo_inv m" and "owns key (memo_phase_of m c)"
    and "p = Returned key (Some v) \<or> p = Spent"
  shows "memo_inv (memo_phase c p (m\<lparr>memo_entries := (memo_entries m)(key \<mapsto> Done v)\<rparr>))"
  unfolding memo_inv_def
proof (intro conjI allI impI)
  have own: "memo_entries m key = Some (Claimed c)" using memo_invD(1) [OF assms(1), of c] assms(2) by (auto simp: owns_def)
  let ?m = "memo_phase c p (m\<lparr>memo_entries := (memo_entries m)(key \<mapsto> Done v)\<rparr>)"
  fix d
  show "phase_ok (memo_entries ?m) d (memo_phase_of ?m d)"
    using assms(3) phase_ok_done [OF memo_invD(1) [OF assms(1), of d] own] by (auto simp: memo_phase_def)
next
  let ?m = "memo_phase c p (m\<lparr>memo_entries := (memo_entries m)(key \<mapsto> Done v)\<rparr>)"
  fix k d
  assume k: "memo_entries ?m k = Some (Claimed d)"
  then have "k \<noteq> key" "owns k (memo_phase_of m d)"
    using memo_invD(2) [OF assms(1)] by (auto simp: memo_phase_def split: if_splits)
  then show "owns k (memo_phase_of ?m d)" using assms(2) by (auto simp: memo_phase_def owns_def)
next
  have own: "memo_entries m key = Some (Claimed c)" using memo_invD(1) [OF assms(1), of c] assms(2) by (auto simp: owns_def)
  show "set (memo_log (memo_phase c p (m\<lparr>memo_entries := (memo_entries m)(key \<mapsto> Done v)\<rparr>)))
      = dom (memo_entries (memo_phase c p (m\<lparr>memo_entries := (memo_entries m)(key \<mapsto> Done v)\<rparr>)))"
    using own memo_invD(4) [OF assms(1)] by (auto simp: memo_phase_def)
qed (use memo_invD(3) [OF assms(1)] in \<open>simp add: memo_phase_def\<close>)

lemma memo_inv_act:
  assumes "memo_inv m" and "memo_act e m = Some m'"
  shows "memo_inv m'"
proof (cases e)
  case (Once c key)
  then have idle: "memo_phase_of m c = Idle" using assms(2) by (simp split: if_splits)
  then show ?thesis
    using assms Once memo_inv_own [OF assms(1) idle, of key "Computing key"] memo_inv_move [OF assms(1), of c "Blocked key"]
    by (cases "memo_entries m key") (auto simp: memo_claim_def owns_def)
next
  case (Start c key)
  then have idle: "memo_phase_of m c = Idle" using assms(2) by (simp split: if_splits)
  then show ?thesis
    using assms Start memo_inv_own [OF assms(1) idle, of key "Background key"] memo_inv_move [OF assms(1), of c Spent]
    by (cases "memo_entries m key") (auto simp: memo_claim_def owns_def)
next
  case (Computed c v)
  then show ?thesis using assms memo_inv_done [OF assms(1), of _ c]
    by (cases "memo_phase_of m c") (auto simp: owns_def)
next
  case (Woken c)
  then obtain key v where w: "memo_phase_of m c = Blocked key" "memo_entries m key = Some (Done v)"
      "m' = memo_phase c (Returned key (Some v)) m"
    using assms(2) by (auto split: memo_phase.splits option.splits memo_entry.splits)
  then show ?thesis using memo_inv_move [OF assms(1), of c "Returned key (Some v)"] by (simp add: owns_def)
next
  case (Left c)
  then obtain key where w: "memo_phase_of m c = Blocked key" "m' = memo_phase c (Returned key None) m"
    using assms(2) by (auto split: memo_phase.splits if_splits)
  then show ?thesis using memo_inv_move [OF assms(1), of c "Returned key None"] by (simp add: owns_def)
next
  case (CallerEnds c)
  then show ?thesis using assms by (auto simp: memo_inv_def)
qed

interpretation scan_memo: machine memo_act newScanMemo memo_inv
  by unfold_locales (rule memo_inv_start, rule memo_inv_act)

text \<open>C24: a memo computes each key at most once in a scan, whoever asks and in whatever order, a
  background start included; every caller that returns a value returns the one that computation
  gave, and only a caller whose context ended returns none.\<close>

theorem memo_computes_once:
  assumes "(steps memo_act)\<^sup>*\<^sup>* newScanMemo m"
  shows "distinct (memo_log m)
     \<and> (\<forall>c d key v w. memo_phase_of m c = Returned key (Some v) \<longrightarrow> memo_phase_of m d = Returned key (Some w) \<longrightarrow> v = w)
     \<and> (\<forall>c key. memo_phase_of m c = Blocked key \<longrightarrow> (\<exists>v. memo_entries m key = Some (Done v) \<and> memo_act (Woken c) m \<noteq> None)
          \<or> (\<exists>d. memo_phase_of m d = Computing key \<or> memo_phase_of m d = Background key))"
proof -
  have inv: "memo_inv m" using assms by (rule scan_memo.inv_reachable)
  have "v = w" if "memo_phase_of m c = Returned key (Some v)" "memo_phase_of m d = Returned key (Some w)" for c d key v w
    using memo_invD(1) [OF inv, of c] memo_invD(1) [OF inv, of d] that by simp
  moreover have "(\<exists>v. memo_entries m key = Some (Done v) \<and> memo_act (Woken c) m \<noteq> None)
      \<or> (\<exists>d. memo_phase_of m d = Computing key \<or> memo_phase_of m d = Background key)"
    if blocked: "memo_phase_of m c = Blocked key" for c key
  proof -
    obtain e where e: "memo_entries m key = Some e" using memo_invD(1) [OF inv, of c] blocked by auto
    show ?thesis
    proof (cases e)
      case (Claimed d)
      then show ?thesis using memo_invD(2) [OF inv] e by (auto simp: owns_def)
    next
      case (Done v)
      then show ?thesis using blocked e by simp
    qed
  qed
  ultimately show ?thesis using memo_invD(3) [OF inv] by blast
qed

theorem memo_computes_once_witness:
  "\<exists>m. run_events memo_act [Start 0 ''presence'', Once 1 ''presence'', Computed 0 (7::nat), Woken 1] newScanMemo = Some m
     \<and> memo_phase_of m 1 = Returned ''presence'' (Some 7) \<and> distinct (memo_log m)"
proof -
  obtain m where m: "run_events memo_act [Start 0 ''presence'', Once 1 ''presence'', Computed 0 (7::nat), Woken 1] newScanMemo = Some m"
      "memo_phase_of m 1 = Returned ''presence'' (Some 7)"
    by (simp add: newScanMemo_def memo_claim_def memo_phase_def Let_def)
  from memo_computes_once [OF run_events_steps [OF m(1)]] m show ?thesis by blast
qed

end
