(* ===== verification/SentioClient.thy ===== *)
theory SentioClient
  imports Machines
begin

text \<open>
  \<open>sentio.go\<close>, the client of the host's indexers: one round trip and what makes it worth retrying,
  the attempts of a request with the lane slot each one holds, and \<open>graphql\<close>. The processor status is the
  theories ProcessorStatus and StatusRefresh. HTTP and JSON are parameters: what the transport answered,
  what a body decodes to.
\<close>

section \<open>Round trips\<close>

record indexer_config =
  SQLURL :: string
  GraphQLURL :: string
  StatusURL :: string
  ProcessorVersion :: string

text \<open>
  What came of one request: it could not be built, the transport or the read of the body failed, or
  the status and the whole body. A decoder gives an error or what it decoded.
\<close>

datatype http_answer = NotBuilt go_error | TransportFailed go_error | ReadFailed go_error | Responded int string

datatype client_error = Underlying go_error | HTTPError int string | ResponseTooLarge | NoAPIKey

definition sentioResponseLimit :: nat where
  "sentioResponseLimit = 4 * 1024 * 1024"

text \<open>\<open>roundTrip\<close>: with an error, whether another attempt may answer differently.\<close>

definition roundTrip :: "(string \<Rightarrow> go_error + 'r) \<Rightarrow> http_answer \<Rightarrow> (bool \<times> client_error) + 'r" where
  "roundTrip decode answer = (case answer of
       NotBuilt e \<Rightarrow> Inl (False, Underlying e)
     | TransportFailed e \<Rightarrow> Inl (True, Underlying e)
     | ReadFailed e \<Rightarrow> Inl (True, Underlying e)
     | Responded status whole \<Rightarrow> (let body = take (sentioResponseLimit + 1) whole in
         if status \<noteq> 200 then Inl (status = 429 \<or> status \<ge> 500, HTTPError status (take 300 body))
         else if length body > sentioResponseLimit then Inl (False, ResponseTooLarge)
         else (case decode body of Inl e \<Rightarrow> Inl (True, Underlying e) | Inr r \<Rightarrow> Inr r)))"

lemma roundTrip_answers:
  "roundTrip decode answer = Inr r \<longleftrightarrow> (\<exists>whole. answer = Responded 200 whole \<and> length whole \<le> sentioResponseLimit
     \<and> decode whole = Inr r)"
  by (cases answer) (auto simp: roundTrip_def Let_def min_def split: sum.splits if_splits)

section \<open>Attempts\<close>

text \<open>
  What one request does to the lane and the network, in order: it takes a slot, makes a round trip,
  gives the slot back, waits before a retry. A refused slot is a context that ended.
\<close>

datatype attempt_event = Acquired | Refused_slot | Trip nat | Freed | Backoff nat

datatype request_error = Refused_by go_error | Failed client_error | Ended_in_wait go_error | Gave_up nat client_error
  | Key_missing

text \<open>
  \<open>doJSONAttempts\<close>: \<open>gated\<close> when an \<open>admit\<close> is set; \<open>admission\<close>, \<open>answer\<close> and \<open>wait\<close> say what attempt
  \<open>i\<close> met. Messages are redacted where they are rendered.
\<close>

fun json_attempts :: "bool \<Rightarrow> (nat \<Rightarrow> go_error option) \<Rightarrow> (nat \<Rightarrow> (bool \<times> client_error) + 'r) \<Rightarrow> (nat \<Rightarrow> go_error option)
    \<Rightarrow> nat \<Rightarrow> nat \<Rightarrow> nat \<Rightarrow> client_error \<Rightarrow> (request_error + 'r) \<times> attempt_event list" where
  "json_attempts gated admission answer wait attempts i 0 lastErr = (Inl (Gave_up attempts lastErr), [])"
| "json_attempts gated admission answer wait attempts i (Suc left) lastErr =
     (case (if gated then admission i else None) of
       Some e \<Rightarrow> (Inl (Refused_by e), [Refused_slot])
     | None \<Rightarrow> (let trip = (if gated then [Acquired, Trip i, Freed] else [Trip i]) in
         case answer i of
           Inr r \<Rightarrow> (Inr r, trip)
         | Inl (retry, e) \<Rightarrow>
             if \<not> retry then (Inl (Failed e), trip)
             else if left = 0 then (Inl (Gave_up attempts e), trip)
             else case wait i of
               Some ended \<Rightarrow> (Inl (Ended_in_wait ended), trip @ [Backoff i])
             | None \<Rightarrow> (case json_attempts gated admission answer wait attempts (Suc i) left e of
                 (r, events) \<Rightarrow> (r, trip @ Backoff i # events))))"

definition doJSONAttempts :: "string \<Rightarrow> bool \<Rightarrow> nat \<Rightarrow> (nat \<Rightarrow> go_error option) \<Rightarrow> (nat \<Rightarrow> (bool \<times> client_error) + 'r)
    \<Rightarrow> (nat \<Rightarrow> go_error option) \<Rightarrow> (request_error + 'r) \<times> attempt_event list" where
  "doJSONAttempts apiKey gated attempts admission answer wait = (if apiKey = [] then (Inl Key_missing, [])
     else json_attempts gated admission answer wait attempts 0 attempts NoAPIKey)"

text \<open>A GraphQL response: its data and its error messages.\<close>

record graphQLEnvelope =
  envelope_data :: string
  envelope_errors :: "string list"

datatype graphql_error = Request_failed request_error | GraphQL_errors "string list" | Malformed_data go_error

definition graphql :: "string \<Rightarrow> (string \<Rightarrow> go_error + 'd) \<Rightarrow> (nat \<Rightarrow> go_error option)
    \<Rightarrow> (nat \<Rightarrow> (bool \<times> client_error) + graphQLEnvelope) \<Rightarrow> (nat \<Rightarrow> go_error option)
    \<Rightarrow> (graphql_error + 'd) \<times> attempt_event list" where
  "graphql apiKey decode admission answer wait =
     (case doJSONAttempts apiKey True 3 admission answer wait of (r, events) \<Rightarrow>
       (case r of Inl e \<Rightarrow> Inl (Request_failed e)
        | Inr envelope \<Rightarrow>
            if envelope_errors envelope \<noteq> [] then Inl (GraphQL_errors (envelope_errors envelope))
            else (case decode (envelope_data envelope) of Inl e \<Rightarrow> Inl (Malformed_data e) | Inr d \<Rightarrow> Inr d), events))"

text \<open>
  A run of events keeps the lane's discipline: a slot is held exactly around a round trip, never while
  the request waits, and is not held at the end.
\<close>

fun disciplined :: "bool \<Rightarrow> bool \<Rightarrow> attempt_event list \<Rightarrow> bool" where
  "disciplined gated held [] = (\<not> held)"
| "disciplined gated held (Acquired # es) = (gated \<and> \<not> held \<and> disciplined gated True es)"
| "disciplined gated held (Freed # es) = (held \<and> disciplined gated False es)"
| "disciplined gated held (Trip i # es) = (held = gated \<and> disciplined gated held es)"
| "disciplined gated held (Backoff i # es) = (\<not> held \<and> disciplined gated held es)"
| "disciplined gated held (Refused_slot # es) = (gated \<and> \<not> held \<and> es = [])"

definition trips :: "attempt_event list \<Rightarrow> nat list" where
  "trips es = concat (map (\<lambda>e. case e of Trip i \<Rightarrow> [i] | _ \<Rightarrow> []) es)"

lemma trips_simps [simp]:
  "trips [] = []" "trips (es @ fs) = trips es @ trips fs" "trips (Trip i # es) = i # trips es"
  "trips (Acquired # es) = trips es" "trips (Freed # es) = trips es" "trips (Backoff i # es) = trips es"
  "trips (Refused_slot # es) = trips es"
  by (simp_all add: trips_def)

text \<open>What the attempts from \<open>i\<close> on, at most \<open>left\<close> of them, may end with.\<close>

definition attempts_ok :: "bool \<Rightarrow> (nat \<Rightarrow> go_error option) \<Rightarrow> (nat \<Rightarrow> (bool \<times> client_error) + 'r) \<Rightarrow> (nat \<Rightarrow> go_error option)
    \<Rightarrow> nat \<Rightarrow> nat \<Rightarrow> (request_error + 'r) \<times> attempt_event list \<Rightarrow> bool" where
  "attempts_ok gated admission answer wait i left run \<longleftrightarrow> (case run of (r, events) \<Rightarrow>
     disciplined gated False events
     \<and> (\<exists>n. n \<le> left \<and> trips events = [i..<i + n]
         \<and> list_all (\<lambda>j. \<exists>e. answer j = Inl (True, e)) [i..<i + n - 1]
         \<and> (case r of
              Inr a \<Rightarrow> 0 < n \<and> answer (i + n - 1) = Inr a
            | Inl (Failed e) \<Rightarrow> 0 < n \<and> answer (i + n - 1) = Inl (False, e)
            | Inl (Gave_up m e) \<Rightarrow> n = left \<and> (0 < n \<longrightarrow> answer (i + n - 1) = Inl (True, e))
            | Inl (Ended_in_wait e) \<Rightarrow> 0 < n \<and> n < left \<and> wait (i + n - 1) = Some e \<and> (\<exists>f. answer (i + n - 1) = Inl (True, f))
            | Inl (Refused_by e) \<Rightarrow> gated \<and> n < left \<and> admission (i + n) = Some e
            | Inl Key_missing \<Rightarrow> False)))"

lemma attempts_ok_now:
  assumes "disciplined gated False events" "trips events = [i]"
    and "case r of Inr a \<Rightarrow> answer i = Inr a | Inl (Failed e) \<Rightarrow> answer i = Inl (False, e)
       | Inl (Gave_up m e) \<Rightarrow> left = 0 \<and> answer i = Inl (True, e)
       | Inl (Ended_in_wait e) \<Rightarrow> 0 < left \<and> wait i = Some e \<and> (\<exists>f. answer i = Inl (True, f)) | _ \<Rightarrow> False"
  shows "attempts_ok gated admission answer wait i (Suc left) (r, events)"
  unfolding attempts_ok_def using assms
  by (auto intro!: exI [of _ 1] split: sum.splits request_error.splits)

lemma disciplined_trip:
  "disciplined gated False ((if gated then [Acquired, Trip i, Freed] else [Trip i]) @ es) = disciplined gated False es"
  by simp

lemma trips_trip: "trips ((if gated then [Acquired, Trip i, Freed] else [Trip i]) @ es) = i # trips es"
  by simp

lemma attempts_ok_later:
  assumes "attempts_ok gated admission answer wait (Suc i) left (r, events)" and "answer i = Inl (True, e)" and "0 < left"
  shows "attempts_ok gated admission answer wait i (Suc left)
    (r, (if gated then [Acquired, Trip i, Freed] else [Trip i]) @ Backoff i # events)"
proof -
  obtain n where n: "n \<le> left" "trips events = [Suc i..<Suc i + n]" "disciplined gated False events"
      "list_all (\<lambda>j. \<exists>e. answer j = Inl (True, e)) [Suc i..<Suc i + n - 1]"
      "case r of
              Inr a \<Rightarrow> 0 < n \<and> answer (Suc i + n - 1) = Inr a
            | Inl (Failed e) \<Rightarrow> 0 < n \<and> answer (Suc i + n - 1) = Inl (False, e)
            | Inl (Gave_up m e) \<Rightarrow> n = left \<and> (0 < n \<longrightarrow> answer (Suc i + n - 1) = Inl (True, e))
            | Inl (Ended_in_wait e) \<Rightarrow> 0 < n \<and> n < left \<and> wait (Suc i + n - 1) = Some e \<and> (\<exists>f. answer (Suc i + n - 1) = Inl (True, f))
            | Inl (Refused_by e) \<Rightarrow> gated \<and> n < left \<and> admission (Suc i + n) = Some e
            | Inl Key_missing \<Rightarrow> False"
    using assms(1) by (auto simp: attempts_ok_def)
  have span: "[i..<i + Suc n] = i # [Suc i..<Suc i + n]" by (simp add: upt_conv_Cons)
  have retried: "list_all (\<lambda>j. \<exists>e. answer j = Inl (True, e)) [i..<i + Suc n - 1]"
  proof (cases "n = 0")
    case False
    then have "[i..<i + Suc n - 1] = i # [Suc i..<Suc i + n - 1]" by (simp add: upt_conv_Cons del: upt_Suc)
    then show ?thesis using n(4) assms(2) by (simp del: upt_Suc)
  qed simp
  show ?thesis
    unfolding attempts_ok_def disciplined_trip trips_trip prod.case
  proof (intro conjI exI [of _ "Suc n"])
    show "i # trips (Backoff i # events) = [i..<i + Suc n]" unfolding span using n(2) by simp
    show "list_all (\<lambda>j. \<exists>e. answer j = Inl (True, e)) [i..<i + Suc n - 1]" by (rule retried)
    show "disciplined gated False (Backoff i # events)" using n(3) by simp
    show "Suc n \<le> Suc left" using n(1) by simp
  qed (use n(1,5) assms(2,3) in \<open>cases r; auto split: request_error.splits\<close>)
qed

lemma json_attempts_ok:
  "attempts_ok gated admission answer wait i left (json_attempts gated admission answer wait attempts i left e)"
proof (induction left arbitrary: i e)
  case 0
  then show ?case by (simp add: attempts_ok_def)
next
  case (Suc left)
  let ?trip = "if gated then [Acquired, Trip i, Freed] else [Trip i]"
  consider x where "(if gated then admission i else None) = Some x"
    | "(if gated then admission i else None) = None" by (cases "if gated then admission i else None")
  then show ?case
  proof cases
    case 1
    then have "gated" "admission i = Some x" by (auto split: if_splits)
    then show ?thesis by (auto simp: attempts_ok_def intro!: exI [of _ 0])
  next
    case admitted: 2
    show ?thesis
    proof (cases "answer i")
      case (Inr r)
      then show ?thesis using admitted by (simp add: Let_def attempts_ok_now)
    next
      case (Inl f)
      then obtain retry err where f: "answer i = Inl (retry, err)" by (cases f) simp
      consider "\<not> retry" | "retry" "left = 0" | x where "retry" "0 < left" "wait i = Some x" | "retry" "0 < left" "wait i = None"
        by (cases "wait i") auto
      then show ?thesis
      proof cases
        case 4
        obtain r events where run: "json_attempts gated admission answer wait attempts (Suc i) left err = (r, events)"
          by (cases "json_attempts gated admission answer wait attempts (Suc i) left err")
        have ok: "attempts_ok gated admission answer wait (Suc i) left (r, events)" using Suc.IH [of "Suc i" err] run by simp
        from attempts_ok_later [OF ok] f 4 show ?thesis using admitted run by (simp add: Let_def)
      qed (use f admitted in \<open>simp_all add: Let_def attempts_ok_now\<close>)
    qed
  qed
qed

text \<open>A request makes at most its attempts, in order, and ends with what the last of them met.
  With a lane it holds a slot exactly around each round trip: it never waits, for a retry or for
  anything else, while holding one, and has given every slot back when it returns.\<close>

lemma request_slot_discipline:
  "(apiKey = [] \<and> doJSONAttempts apiKey gated attempts admission answer wait = (Inl Key_missing, []))
   \<or> attempts_ok gated admission answer wait 0 attempts (doJSONAttempts apiKey gated attempts admission answer wait)"
  using json_attempts_ok [of gated admission answer wait 0 attempts attempts NoAPIKey] by (simp add: doJSONAttempts_def)

end
