(* ===== verification/ProcessorStatus.thy ===== *)
theory ProcessorStatus
  imports SentioClient
begin

text \<open>
  The processor status of \<open>sentio.go\<close>: \<open>readChainStatuses\<close> over the decoded answer of the status
  endpoint and \<open>validateSentioChainStatuses\<close>. The cache in front of it and the refresh callers share
  are theory StatusRefresh.
\<close>

section \<open>Parsing a status\<close>

datatype status_error = InvalidConfig string | StatusRequestFailed request_error | InvalidChainID string | DuplicateChain chain_id
  | ProcessorReported chain_id string | InvalidBlock chain_id string | InvalidLatestBlock chain_id string
  | RunnableProcessors nat string | OmittedChain chain_id | ChainNotConfigured chain_id

record sentioChainStatus =
  st_state :: string
  st_processed :: u64
  st_latest :: u64
  st_err :: "status_error option"

record stateResponse =
  sr_chain :: string
  sr_processed :: string
  sr_latest :: string
  sr_state :: string
  sr_message :: string

text \<open>A processor of the answer; \<open>proc_version\<close> is the text \<open>fmt.Sprint\<close> gives of its version.\<close>

record processorResponse =
  proc_version :: string
  proc_version_state :: string
  proc_status :: string
  proc_states :: "stateResponse list"

definition runnable :: "string \<Rightarrow> processorResponse \<Rightarrow> bool" where
  "runnable version p \<longleftrightarrow> proc_version p = version
     \<and> (proc_version_state p = ''ACTIVE'' \<or> proc_version_state p = ''PENDING'') \<and> proc_status p = ''PROCESSING''"

text \<open>The status of a chain seen for the first time.\<close>

definition first_status :: "chain_id \<Rightarrow> stateResponse \<Rightarrow> sentioChainStatus" where
  "first_status c s = (let blank = \<lparr>st_state = sr_state s, st_processed = 0, st_latest = 0, st_err = None\<rparr> in
     if sr_message s \<noteq> [] then blank\<lparr>st_err := Some (ProcessorReported c (redact_urls False (sr_message s)))\<rparr>
     else case parse_uint64 (sr_processed s) of
       None \<Rightarrow> blank\<lparr>st_err := Some (InvalidBlock c (sr_processed s))\<rparr>
     | Some processed \<Rightarrow> (case parse_uint64 (sr_latest s) of
         None \<Rightarrow> blank\<lparr>st_err := Some (InvalidLatestBlock c (sr_latest s))\<rparr>
       | Some latest \<Rightarrow> \<lparr>st_state = sr_state s, st_processed = processed, st_latest = latest, st_err = None\<rparr>))"

type_synonym chain_statuses = "chain_id \<rightharpoonup> sentioChainStatus"

definition enter_state :: "chain_statuses \<Rightarrow> stateResponse \<Rightarrow> status_error + chain_statuses" where
  "enter_state known s = (case parse_uint64 (sr_chain s) of
       None \<Rightarrow> Inl (InvalidChainID (sr_chain s))
     | Some c \<Rightarrow> (case known c of
         Some previous \<Rightarrow> Inr (known(c \<mapsto> previous\<lparr>st_err := Some (DuplicateChain c)\<rparr>))
       | None \<Rightarrow> Inr (known(c \<mapsto> first_status c s))))"

definition enter_processor :: "string \<Rightarrow> nat \<times> chain_statuses \<Rightarrow> processorResponse \<Rightarrow> status_error + nat \<times> chain_statuses" where
  "enter_processor version seen p = (if \<not> runnable version p then Inr seen
     else bindR (foldR enter_state (snd seen) (proc_states p)) (\<lambda>known. Inr (fst seen + 1, known)))"

definition readChainStatuses :: "string \<Rightarrow> request_error + processorResponse list \<Rightarrow> status_error + chain_statuses" where
  "readChainStatuses version answer = (case answer of Inl e \<Rightarrow> Inl (StatusRequestFailed e)
     | Inr processors \<Rightarrow> bindR (foldR (enter_processor version) (0, Map.empty) processors) (\<lambda>(matched, known).
         if matched \<noteq> 1 then Inl (RunnableProcessors matched version) else Inr known))"

fun validateSentioChainStatuses :: "chain_statuses \<Rightarrow> chain_id list \<Rightarrow> status_error + chain_statuses" where
  "validateSentioChainStatuses known [] = Inr known"
| "validateSentioChainStatuses known (c # required) = (case known c of
       None \<Rightarrow> Inl (OmittedChain c)
     | Some status \<Rightarrow> (case st_err status of
         Some e \<Rightarrow> Inl e | None \<Rightarrow> validateSentioChainStatuses known required))"

text \<open>\<open>SentioIndexerConfig.validate\<close>; \<open>blank\<close> says whether a text trims to nothing.\<close>

definition validate_config :: "(string \<Rightarrow> bool) \<Rightarrow> indexer_config \<Rightarrow> status_error option" where
  "validate_config blank config = (if blank (GraphQLURL config) then Some (InvalidConfig ''GraphQL endpoint'')
     else if blank (StatusURL config) then Some (InvalidConfig ''status endpoint'')
     else if blank (ProcessorVersion config) then Some (InvalidConfig ''processor version'') else None)"

section \<open>What a parsed status says\<close>

text \<open>The states naming a chain; the chain's status is the first's, failed when there are more.\<close>

definition states_of :: "stateResponse list \<Rightarrow> chain_id \<Rightarrow> stateResponse list" where
  "states_of states c = filter (\<lambda>s. parse_uint64 (sr_chain s) = Some c) states"

definition status_of :: "stateResponse list \<Rightarrow> chain_statuses" where
  "status_of states c = (case states_of states c of [] \<Rightarrow> None
     | [s] \<Rightarrow> Some (first_status c s)
     | s # _ \<Rightarrow> Some ((first_status c s)\<lparr>st_err := Some (DuplicateChain c)\<rparr>))"

lemma status_of_snoc: "status_of (states @ [s]) c = (if parse_uint64 (sr_chain s) \<noteq> Some c then status_of states c
   else case status_of states c of None \<Rightarrow> Some (first_status c s)
     | Some previous \<Rightarrow> Some (previous\<lparr>st_err := Some (DuplicateChain c)\<rparr>))"
  by (auto simp: status_of_def states_of_def split: list.splits)

lemma enter_states: "foldR enter_state Map.empty states = Inr known \<longleftrightarrow>
    list_all (\<lambda>s. parse_uint64 (sr_chain s) \<noteq> None) states \<and> known = status_of states"
proof (induction states arbitrary: known rule: rev_induct)
  case Nil
  have "status_of [] = Map.empty" by (rule ext) (simp add: status_of_def states_of_def)
  then show ?case by (auto simp: eq_commute)
next
  case (snoc s states)
  have next_state: "enter_state (status_of states) s = (case parse_uint64 (sr_chain s) of
      None \<Rightarrow> Inl (InvalidChainID (sr_chain s)) | Some c \<Rightarrow> Inr (status_of (states @ [s])))"
    by (auto simp: enter_state_def status_of_snoc fun_eq_iff split: option.splits)
  show ?case using snoc.IH
    by (auto simp: foldR_append bindR_Inr_iff next_state split: option.splits)
qed

lemma enter_processors: "foldR (enter_processor version) seen ps = foldR (enter_processor version) seen (filter (runnable version) ps)"
  by (induction ps arbitrary: seen) (auto simp: enter_processor_def)

lemma enter_processor_runnable: "runnable version p \<Longrightarrow> enter_processor version seen p
    = bindR (foldR enter_state (snd seen) (proc_states p)) (\<lambda>known. Inr (fst seen + 1, known))"
  by (simp add: enter_processor_def)

lemma enter_processor_skipped: "\<not> runnable version p \<Longrightarrow> enter_processor version seen p = Inr seen"
  by (simp add: enter_processor_def)

lemma enter_processors_count: "foldR (enter_processor version) (n, known) ps = Inr (m, known')
    \<Longrightarrow> m = n + length (filter (runnable version) ps)"
proof (induction ps arbitrary: n known)
  case (Cons p ps)
  show ?case
  proof (cases "runnable version p")
    case True
    then obtain mid where "foldR (enter_processor version) (n + 1, mid) ps = Inr (m, known')"
      using Cons.prems by (auto simp: enter_processor_runnable bindR_Inr_iff)
    from Cons.IH [OF this] True show ?thesis by simp
  next
    case False
    then have "foldR (enter_processor version) (n, known) ps = Inr (m, known')"
      using Cons.prems by (simp add: enter_processor_skipped)
    from Cons.IH [OF this] False show ?thesis by simp
  qed
qed simp

text \<open>A status is accepted exactly when one processor of the configured version runs and every
  chain identity it names parses; each chain then has the status its one state describes, an error
  of its own when the state carries one or does not parse, and an error when it is named twice.\<close>

lemma status_parse_exact:
  "readChainStatuses version (Inr processors) = Inr known \<longleftrightarrow>
     (\<exists>p. filter (runnable version) processors = [p]
        \<and> list_all (\<lambda>s. parse_uint64 (sr_chain s) \<noteq> None) (proc_states p) \<and> known = status_of (proc_states p))"
proof -
  let ?run = "filter (runnable version) processors"
  have step: "readChainStatuses version (Inr processors)
      = bindR (foldR (enter_processor version) (0, Map.empty) ?run) (\<lambda>(matched, known).
         if matched \<noteq> 1 then Inl (RunnableProcessors matched version) else Inr known)"
    using enter_processors [of version "(0, Map.empty)" processors] by (simp add: readChainStatuses_def)
  show ?thesis
  proof (cases "\<exists>p. ?run = [p]")
    case True
    then obtain p where run: "?run = [p]" by blast
    then have "p \<in> set ?run" by simp
    then have "runnable version p" by simp
    then show ?thesis
      unfolding step run by (auto simp: enter_processor_runnable enter_states bindR_Inr_iff)
  next
    case False
    have "length (filter (runnable version) ?run) = length ?run" by simp
    then have "m = length ?run" if "foldR (enter_processor version) (0, Map.empty) ?run = Inr (m, c)" for m c
      using enter_processors_count [OF that] by simp
    moreover have "length ?run \<noteq> 1" using False by (auto simp: length_Suc_conv)
    ultimately show ?thesis unfolding step using False by (auto simp: bindR_Inr_iff split: if_splits)
  qed
qed

end
