(* ===== verification/StatusRefresh.thy ===== *)
theory StatusRefresh
  imports ProcessorStatus
begin

text \<open>
  \<open>chainStatuses\<close> and \<open>startStatusRefresh\<close> of \<open>sentio.go\<close> as a machine, for one status key: the cached
  entry, the refresh in flight, its two last actions (the entry under the mutex, then the closed
  channel), and the callers that look, wait and return. \<open>'r\<close> is what a read gives; a caller
  validates it afterwards. Every action takes one step of \<open>sc_now\<close>, and the clock moves by actions
  of its own.
\<close>

section \<open>The machine\<close>

definition sentioStatusCacheTTL :: nat where
  "sentioStatusCacheTTL = 30"

text \<open>A read of the status remembers the step it started at.\<close>

datatype 'r read = NotStarted | Running nat | Published nat "'r" | Closed nat "'r"

text \<open>
  A caller remembers the step it called at, whether it forces a newer entry, and the read that was
  in flight when it first looked and is too early for it.
\<close>

record call =
  began :: nat
  forced :: bool
  tooEarly :: "nat option"

datatype 'r caller = Absent | Looking call | Waiting_on call nat
  | Answered_cache call nat nat "'r" | Answered_read call nat "'r" | Gone

record 'r status_client =
  sc_now :: nat
  sc_clock :: nat
  sc_cache :: "(nat \<times> 'r) option"
  sc_flight :: "nat option"
  sc_next :: nat
  sc_read :: "nat \<Rightarrow> 'r read"
  sc_caller :: "nat \<Rightarrow> 'r caller"
  sc_ended :: "nat \<Rightarrow> bool"

definition newStatusClient :: "'r status_client" where
  "newStatusClient = \<lparr>sc_now = 0, sc_clock = 0, sc_cache = None, sc_flight = None, sc_next = 0,
     sc_read = (\<lambda>_. NotStarted), sc_caller = (\<lambda>_. Absent), sc_ended = (\<lambda>_. False)\<rparr>"

datatype 'r status_event = Tick | Enter nat bool | Look nat | Publish nat "'r" | Close nat | Wake nat | Give_up nat | Ends nat

definition set_caller :: "nat \<Rightarrow> 'r caller \<Rightarrow> 'r status_client \<Rightarrow> 'r status_client" where
  "set_caller c p s = s\<lparr>sc_now := sc_now s + 1, sc_caller := (sc_caller s)(c := p)\<rparr>"

definition fresh :: "'r status_client \<Rightarrow> nat \<Rightarrow> bool" where
  "fresh s at_time \<longleftrightarrow> sc_clock s - at_time < sentioStatusCacheTTL"

text \<open>\<open>startStatusRefresh\<close>, called with the mutex held.\<close>

definition startStatusRefresh :: "'r status_client \<Rightarrow> 'r status_client" where
  "startStatusRefresh s = s\<lparr>sc_flight := Some (sc_next s), sc_next := sc_next s + 1,
     sc_read := (sc_read s)(sc_next s := Running (sc_now s))\<rparr>"

text \<open>One pass of the loop, up to the select, under the mutex.\<close>

definition look :: "nat \<Rightarrow> call \<Rightarrow> 'r status_client \<Rightarrow> 'r status_client" where
  "look c k s = (case sc_cache s of
       Some (t, r) \<Rightarrow> if \<not> forced k \<and> fresh s t then set_caller c (Answered_cache k t (sc_clock s) r) s
         else (case sc_flight s of
             None \<Rightarrow> set_caller c (Waiting_on k (sc_next s)) (startStatusRefresh s)
           | Some i \<Rightarrow> set_caller c (Waiting_on
               (if forced k \<and> tooEarly k = None then k\<lparr>tooEarly := Some i\<rparr> else k) i) s)
     | None \<Rightarrow> (case sc_flight s of
             None \<Rightarrow> set_caller c (Waiting_on k (sc_next s)) (startStatusRefresh s)
           | Some i \<Rightarrow> set_caller c (Waiting_on
               (if forced k \<and> tooEarly k = None then k\<lparr>tooEarly := Some i\<rparr> else k) i) s))"

text \<open>
  \<open>keeps r\<close> holds of a read without an error, which is cached. A caller whose context has ended stops
  at the top of the loop or in the select.
\<close>

fun status_act :: "('r \<Rightarrow> bool) \<Rightarrow> 'r status_event \<Rightarrow> 'r status_client \<Rightarrow> 'r status_client option" where
  "status_act keeps Tick s = Some (s\<lparr>sc_now := sc_now s + 1, sc_clock := sc_clock s + 1\<rparr>)"
| "status_act keeps (Enter c force) s = (case sc_caller s c of
       Absent \<Rightarrow> Some (set_caller c (Looking \<lparr>began = sc_now s, forced = force, tooEarly = None\<rparr>) s)
     | _ \<Rightarrow> None)"
| "status_act keeps (Look c) s = (case sc_caller s c of
       Looking k \<Rightarrow> Some (if sc_ended s c then set_caller c Gone s else look c k s)
     | _ \<Rightarrow> None)"
| "status_act keeps (Publish i r) s = (case sc_read s i of
       Running started \<Rightarrow> Some (s\<lparr>sc_now := sc_now s + 1, sc_flight := None,
         sc_cache := (if keeps r then Some (sc_clock s, r) else sc_cache s),
         sc_read := (sc_read s)(i := Published started r)\<rparr>)
     | _ \<Rightarrow> None)"
| "status_act keeps (Close i) s = (case sc_read s i of
       Published started r \<Rightarrow> Some (s\<lparr>sc_now := sc_now s + 1, sc_read := (sc_read s)(i := Closed started r)\<rparr>)
     | _ \<Rightarrow> None)"
| "status_act keeps (Wake c) s = (case sc_caller s c of
       Waiting_on k i \<Rightarrow> (case sc_read s i of
           Closed started r \<Rightarrow> Some (set_caller c (if tooEarly k = Some i then Looking k else Answered_read k i r) s)
         | _ \<Rightarrow> None)
     | _ \<Rightarrow> None)"
| "status_act keeps (Give_up c) s = (case sc_caller s c of
       Waiting_on k i \<Rightarrow> if sc_ended s c then Some (set_caller c Gone s) else None
     | _ \<Rightarrow> None)"
| "status_act keeps (Ends c) s = Some (s\<lparr>sc_now := sc_now s + 1, sc_ended := (sc_ended s)(c := True)\<rparr>)"

section \<open>The invariant\<close>

primrec started :: "'r read \<Rightarrow> nat option" where
  "started NotStarted = None"
| "started (Running n) = Some n"
| "started (Published n r) = Some n"
| "started (Closed n r) = Some n"

text \<open>Reads are numbered in order; at most the last runs, and it is the one in flight.\<close>

definition reads_ok :: "nat \<Rightarrow> nat option \<Rightarrow> nat \<Rightarrow> (nat \<Rightarrow> 'r read) \<Rightarrow> bool" where
  "reads_ok now flight next_id rd \<longleftrightarrow>
     (\<forall>i. started (rd i) \<noteq> None \<longleftrightarrow> i < next_id)
     \<and> (\<forall>i n. started (rd i) = Some n \<longrightarrow> n < now)
     \<and> (\<forall>i. (\<exists>n. rd i = Running n) \<longleftrightarrow> flight = Some i)
     \<and> (\<forall>i. flight = Some i \<longrightarrow> next_id = Suc i)"

text \<open>A call's too early read ran when it looked, so every later read started after the call.\<close>

definition call_ok :: "nat \<Rightarrow> nat \<Rightarrow> (nat \<Rightarrow> 'r read) \<Rightarrow> call \<Rightarrow> bool" where
  "call_ok now next_id rd k \<longleftrightarrow> began k < now
     \<and> (case tooEarly k of None \<Rightarrow> True
        | Some e \<Rightarrow> e < next_id \<and> (\<forall>i n. e < i \<longrightarrow> started (rd i) = Some n \<longrightarrow> began k < n))"

text \<open>The read \<open>i\<close> is one the call may take: if it forces, it started after the call.\<close>

definition takes :: "(nat \<Rightarrow> 'r read) \<Rightarrow> call \<Rightarrow> nat \<Rightarrow> bool" where
  "takes rd k i \<longleftrightarrow> (forced k \<longrightarrow> (\<exists>n. started (rd i) = Some n \<and> began k < n))"

definition not_running :: "'r read \<Rightarrow> bool" where
  "not_running r \<longleftrightarrow> (\<forall>n. r \<noteq> Running n)"

fun caller_ok :: "nat \<Rightarrow> nat \<Rightarrow> (nat \<Rightarrow> 'r read) \<Rightarrow> 'r caller \<Rightarrow> bool" where
  "caller_ok now next_id rd (Looking k) = (call_ok now next_id rd k
     \<and> (case tooEarly k of None \<Rightarrow> True | Some e \<Rightarrow> not_running (rd e)))"
| "caller_ok now next_id rd (Waiting_on k i) = (call_ok now next_id rd k \<and> i < next_id
     \<and> (tooEarly k = Some i \<or> takes rd k i))"
| "caller_ok now next_id rd (Answered_cache k t checked r) = (\<not> forced k \<and> checked - t < sentioStatusCacheTTL)"
| "caller_ok now next_id rd (Answered_read k i r) = (takes rd k i \<and> (\<exists>n. rd i = Closed n r))"
| "caller_ok now next_id rd _ = True"

definition status_inv :: "'r status_client \<Rightarrow> bool" where
  "status_inv s \<longleftrightarrow> reads_ok (sc_now s) (sc_flight s) (sc_next s) (sc_read s)
     \<and> (\<forall>c. caller_ok (sc_now s) (sc_next s) (sc_read s) (sc_caller s c))"

text \<open>What a step may do to the reads: start new ones now, and move one along.\<close>

definition reads_grow :: "nat \<Rightarrow> (nat \<Rightarrow> 'r read) \<Rightarrow> (nat \<Rightarrow> 'r read) \<Rightarrow> nat \<Rightarrow> bool" where
  "reads_grow now rd rd' next_id \<longleftrightarrow>
     (\<forall>i. i < next_id \<longrightarrow> started (rd' i) = started (rd i))
     \<and> (\<forall>i n. next_id \<le> i \<longrightarrow> started (rd' i) = Some n \<longrightarrow> n = now)
     \<and> (\<forall>i. i < next_id \<longrightarrow> not_running (rd i) \<longrightarrow> not_running (rd' i))
     \<and> (\<forall>i n r. rd i = Closed n r \<longrightarrow> rd' i = Closed n r)"

lemma reads_growD:
  assumes "reads_grow now rd rd' next_id"
  shows "i < next_id \<Longrightarrow> started (rd' i) = started (rd i)"
    and "next_id \<le> i \<Longrightarrow> started (rd' i) = Some n \<Longrightarrow> n = now"
    and "i < next_id \<Longrightarrow> not_running (rd i) \<Longrightarrow> not_running (rd' i)"
    and "rd i = Closed n r \<Longrightarrow> rd' i = Closed n r"
  using assms by (auto simp: reads_grow_def)

lemma call_ok_grows:
  assumes "reads_grow now rd rd' next_id" and "call_ok now next_id rd k" and "next_id \<le> next_id'"
  shows "call_ok (Suc now) next_id' rd' k"
proof (cases "tooEarly k")
  case None
  then show ?thesis using assms(2) by (simp add: call_ok_def)
next
  case (Some e)
  have "began k < n" if "e < i" "started (rd' i) = Some n" for i n
  proof (cases "i < next_id")
    case True
    then show ?thesis using reads_growD(1) [OF assms(1) True] that assms(2) Some by (simp add: call_ok_def)
  next
    case False
    then show ?thesis using reads_growD(2) [OF assms(1) _ that(2)] assms(2) by (simp add: call_ok_def)
  qed
  then show ?thesis using assms(2,3) Some by (simp add: call_ok_def)
qed

lemma takes_grows: "reads_grow now rd rd' next_id \<Longrightarrow> i < next_id \<Longrightarrow> takes rd k i \<Longrightarrow> takes rd' k i"
  by (simp add: takes_def reads_growD(1))

lemma caller_ok_grows:
  assumes "reads_grow now rd rd' next_id" and "caller_ok now next_id rd p" and "next_id \<le> next_id'"
    and "\<And>i. started (rd i) \<noteq> None \<longleftrightarrow> i < next_id"
  shows "caller_ok (Suc now) next_id' rd' p"
proof (cases p)
  case (Looking k)
  then have k: "call_ok now next_id rd k" "case tooEarly k of None \<Rightarrow> True | Some e \<Rightarrow> not_running (rd e)"
    using assms(2) by auto
  have "case tooEarly k of None \<Rightarrow> True | Some e \<Rightarrow> not_running (rd' e)"
    using k reads_growD(3) [OF assms(1)] by (auto simp: call_ok_def split: option.splits)
  then show ?thesis using Looking call_ok_grows [OF assms(1) k(1) assms(3)] by simp
next
  case (Waiting_on k i)
  then show ?thesis using assms call_ok_grows [OF assms(1) _ assms(3)] takes_grows [OF assms(1), of i k] by auto
next
  case (Answered_read k i r)
  then obtain n where n: "rd i = Closed n r" "takes rd k i" using assms(2) by auto
  then have "started (rd i) = Some n" by simp
  then have "i < next_id" using assms(4) [of i] by simp
  then show ?thesis using Answered_read n takes_grows [OF assms(1)] reads_growD(4) [OF assms(1)] by auto
qed (use assms(2) in auto)

lemma status_invD:
  assumes "status_inv s"
  shows "started (sc_read s i) \<noteq> None \<longleftrightarrow> i < sc_next s"
    and "started (sc_read s i) = Some n \<Longrightarrow> n < sc_now s"
    and "(\<exists>n. sc_read s i = Running n) \<longleftrightarrow> sc_flight s = Some i"
    and "sc_flight s = Some i \<Longrightarrow> sc_next s = Suc i"
    and "caller_ok (sc_now s) (sc_next s) (sc_read s) (sc_caller s c)"
  using assms unfolding status_inv_def reads_ok_def by blast+

text \<open>A step that moves one caller and lets the reads grow.\<close>

lemma status_inv_step:
  assumes "status_inv s" and "reads_grow (sc_now s) (sc_read s) (sc_read s') (sc_next s)"
    and "sc_now s' = Suc (sc_now s)" and "sc_next s \<le> sc_next s'"
    and "reads_ok (sc_now s') (sc_flight s') (sc_next s') (sc_read s')"
    and "\<And>d. d \<noteq> c \<Longrightarrow> sc_caller s' d = sc_caller s d"
    and "caller_ok (sc_now s') (sc_next s') (sc_read s') (sc_caller s' c)"
  shows "status_inv s'"
  unfolding status_inv_def
proof (intro conjI allI)
  fix d
  show "caller_ok (sc_now s') (sc_next s') (sc_read s') (sc_caller s' d)"
  proof (cases "d = c")
    case False
    have "caller_ok (Suc (sc_now s)) (sc_next s') (sc_read s') (sc_caller s d)"
      by (rule caller_ok_grows [OF assms(2) status_invD(5) [OF assms(1)] assms(4) status_invD(1) [OF assms(1)]])
    then show ?thesis using False assms(3,6) by simp
  qed (use assms(7) in simp)
qed (rule assms(5))

lemma reads_grow_refl [simp]: "reads_grow now rd rd (sc_next s) \<longleftrightarrow> (\<forall>i n. sc_next s \<le> i \<longrightarrow> started (rd i) = Some n \<longrightarrow> n = now)"
  by (auto simp: reads_grow_def)

lemma reads_grow_same:
  assumes "status_inv s"
  shows "reads_grow (sc_now s) (sc_read s) (sc_read s) (sc_next s)"
  using status_invD(1) [OF assms] by (auto simp: reads_grow_def) (metis not_le option.discI)

lemma reads_ok_later: "reads_ok now flight n rd \<Longrightarrow> reads_ok (Suc now) flight n rd"
  unfolding reads_ok_def by (meson less_SucI)

lemma status_inv_reads: "status_inv s \<Longrightarrow> reads_ok (Suc (sc_now s)) (sc_flight s) (sc_next s) (sc_read s)"
  by (simp add: status_inv_def reads_ok_later)

text \<open>A step that only moves one caller.\<close>

lemma status_inv_set_caller:
  assumes "status_inv s" and "caller_ok (Suc (sc_now s)) (sc_next s) (sc_read s) p"
  shows "status_inv (set_caller c p s)"
  by (rule status_inv_step [OF assms(1), where c = c])
    (use assms(2) reads_grow_same [OF assms(1)] status_inv_reads [OF assms(1)] in \<open>simp_all add: set_caller_def\<close>)

lemma caller_ok_now:
  assumes "status_inv s"
  shows "caller_ok (Suc (sc_now s)) (sc_next s) (sc_read s) (sc_caller s c)"
  by (rule caller_ok_grows [OF reads_grow_same [OF assms] status_invD(5) [OF assms] order_refl status_invD(1) [OF assms]])

lemma status_inv_idle:
  assumes "status_inv s" and "reads_grow (sc_now s) (sc_read s) (sc_read s') (sc_next s)"
    and "sc_now s' = Suc (sc_now s)" and "sc_next s' = sc_next s" and "sc_caller s' = sc_caller s"
    and "reads_ok (sc_now s') (sc_flight s') (sc_next s') (sc_read s')"
  shows "status_inv s'"
  unfolding status_inv_def
  using caller_ok_grows [OF assms(2) status_invD(5) [OF assms(1)] _ status_invD(1) [OF assms(1)]] assms
  by simp

text \<open>A read moves along: running to published, published to closed.\<close>

lemma reads_grow_move:
  assumes "status_inv s" and "started (sc_read s i) = started r" and "not_running r"
    and "\<And>n v. sc_read s i = Closed n v \<Longrightarrow> r = Closed n v"
  shows "reads_grow (sc_now s) (sc_read s) ((sc_read s)(i := r)) (sc_next s)"
proof -
  have "started (sc_read s j) = None" if "sc_next s \<le> j" for j
    using status_invD(1) [OF assms(1), of j] that by auto
  then show ?thesis using assms(2-4) by (auto simp: reads_grow_def)
qed

lemma reads_ok_move:
  assumes "reads_ok now flight n rd" and "started (rd i) = started r" and "not_running r"
    and "flight = Some i \<and> flight' = None \<or> flight' = flight \<and> not_running (rd i)"
  shows "reads_ok now flight' n (rd(i := r))"
proof -
  have st: "started ((rd(i := r)) j) = started (rd j)" for j using assms(2) by simp
  have flight: "(\<exists>m. (rd(i := r)) j = Running m) \<longleftrightarrow> flight' = Some j" for j
  proof (cases "j = i")
    case True
    then show ?thesis using assms(1,3,4) by (auto simp: reads_ok_def not_running_def)
  next
    case False
    have "(\<exists>m. rd j = Running m) \<longleftrightarrow> flight = Some j" using assms(1) by (simp add: reads_ok_def)
    then show ?thesis using False assms(4) by auto
  qed
  have "flight' = Some j \<Longrightarrow> n = Suc j" for j using assms(1,4) by (auto simp: reads_ok_def)
  then show ?thesis using assms(1) st flight unfolding reads_ok_def by simp
qed

lemma status_inv_publish:
  assumes "status_inv s" and "sc_read s i = Running n"
  shows "status_inv (s\<lparr>sc_now := sc_now s + 1, sc_flight := None, sc_cache := cache,
    sc_read := (sc_read s)(i := Published n r)\<rparr>)"
proof -
  have "sc_flight s = Some i" using status_invD(3) [OF assms(1), of i] assms(2) by auto
  then have "reads_ok (Suc (sc_now s)) None (sc_next s) ((sc_read s)(i := Published n r))"
    using assms(2) by (intro reads_ok_move [OF status_inv_reads [OF assms(1)]]) (simp_all add: not_running_def)
  moreover have "reads_grow (sc_now s) (sc_read s) ((sc_read s)(i := Published n r)) (sc_next s)"
    using assms(2) by (intro reads_grow_move [OF assms(1)]) (simp_all add: not_running_def)
  ultimately show ?thesis by (intro status_inv_idle [OF assms(1)]) simp_all
qed

lemma status_inv_close:
  assumes "status_inv s" and "sc_read s i = Published n r"
  shows "status_inv (s\<lparr>sc_now := sc_now s + 1, sc_read := (sc_read s)(i := Closed n r)\<rparr>)"
proof -
  have "reads_ok (Suc (sc_now s)) (sc_flight s) (sc_next s) ((sc_read s)(i := Closed n r))"
    using assms(2) by (intro reads_ok_move [OF status_inv_reads [OF assms(1)]]) (simp_all add: not_running_def)
  moreover have "reads_grow (sc_now s) (sc_read s) ((sc_read s)(i := Closed n r)) (sc_next s)"
    using assms(2) by (intro reads_grow_move [OF assms(1)]) (simp_all add: not_running_def)
  ultimately show ?thesis by (intro status_inv_idle [OF assms(1)]) simp_all
qed

lemma status_inv_start_read:
  assumes "status_inv s" and "sc_flight s = None" and "call_ok (sc_now s) (sc_next s) (sc_read s) k"
  shows "status_inv (set_caller c (Waiting_on k (sc_next s)) (startStatusRefresh s))"
proof -
  let ?rd = "(sc_read s)(sc_next s := Running (sc_now s))"
  have blank: "started (sc_read s j) = None" if "sc_next s \<le> j" for j
    using status_invD(1) [OF assms(1), of j] that by auto
  have still: "sc_read s j \<noteq> Running m" for j m using status_invD(3) [OF assms(1), of j] assms(2) by auto
  have unclosed: "sc_read s (sc_next s) \<noteq> Closed n r" for n r
  proof
    assume "sc_read s (sc_next s) = Closed n r"
    then show False using blank [of "sc_next s"] by simp
  qed
  have grow: "reads_grow (sc_now s) (sc_read s) ?rd (sc_next s)"
    unfolding reads_grow_def using blank unclosed by (auto simp: not_running_def split: if_splits)
  have "call_ok (Suc (sc_now s)) (Suc (sc_next s)) ?rd k"
    by (rule call_ok_grows [OF grow assms(3)]) simp
  moreover have "takes ?rd k (sc_next s)" using assms(3) by (simp add: takes_def call_ok_def)
  moreover have "reads_ok (Suc (sc_now s)) (Some (sc_next s)) (Suc (sc_next s)) ?rd"
    using status_inv_reads [OF assms(1)] assms(2) still by (auto simp: reads_ok_def less_Suc_eq)
  ultimately show ?thesis
    by (intro status_inv_step [OF assms(1), where c = c]) (use grow in \<open>simp_all add: set_caller_def startStatusRefresh_def\<close>)
qed

lemma status_inv_share_read:
  assumes "status_inv s" and "sc_flight s = Some i" and "caller_ok (sc_now s) (sc_next s) (sc_read s) (Looking k)"
  shows "status_inv (set_caller c (Waiting_on (if forced k \<and> tooEarly k = None then k\<lparr>tooEarly := Some i\<rparr> else k) i) s)"
proof (rule status_inv_set_caller [OF assms(1)])
  have next_id: "sc_next s = Suc i" by (rule status_invD(4) [OF assms(1,2)])
  obtain m where run: "sc_read s i = Running m" using status_invD(3) [OF assms(1), of i] assms(2) by auto
  have unread: "started (sc_read s j) = None" if "i < j" for j
    using status_invD(1) [OF assms(1), of j] that next_id by auto
  have ok: "call_ok (Suc (sc_now s)) (sc_next s) (sc_read s) k"
    using call_ok_grows [OF reads_grow_same [OF assms(1)]] assms(3) by simp
  show "caller_ok (Suc (sc_now s)) (sc_next s) (sc_read s)
      (Waiting_on (if forced k \<and> tooEarly k = None then k\<lparr>tooEarly := Some i\<rparr> else k) i)"
  proof (cases "forced k \<and> tooEarly k = None")
    case True
    then show ?thesis using ok unread next_id by (simp add: call_ok_def)
  next
    case False
    have "takes (sc_read s) k i" if "forced k" "tooEarly k = Some e" for e
    proof -
      have "not_running (sc_read s e)" "e < sc_next s" using assms(3) that by (auto simp: call_ok_def)
      then have "e < i" using run next_id by (cases "e = i") (auto simp: not_running_def)
      then show ?thesis using ok that run by (auto simp: takes_def call_ok_def)
    qed
    then have "takes (sc_read s) k i" using False by (cases "tooEarly k") (auto simp: takes_def)
    then show ?thesis using False ok next_id by auto
  qed
qed

lemma status_inv_look:
  assumes "status_inv s" and "sc_caller s c = Looking k"
  shows "status_inv (look c k s)"
proof -
  have ok: "caller_ok (sc_now s) (sc_next s) (sc_read s) (Looking k)" using status_invD(5) [OF assms(1), of c] assms(2) by simp
  have cached: "status_inv (set_caller c (Answered_cache k t (sc_clock s) r) s)" if "\<not> forced k" "fresh s t" for t r
    using status_inv_set_caller [OF assms(1)] that by (simp add: fresh_def)
  have refreshed: "status_inv (case sc_flight s of
             None \<Rightarrow> set_caller c (Waiting_on k (sc_next s)) (startStatusRefresh s)
           | Some i \<Rightarrow> set_caller c (Waiting_on
               (if forced k \<and> tooEarly k = None then k\<lparr>tooEarly := Some i\<rparr> else k) i) s)"
    using status_inv_start_read [OF assms(1)] status_inv_share_read [OF assms(1) _ ok] ok
    by (cases "sc_flight s") simp_all
  show ?thesis unfolding look_def using cached refreshed by (cases "sc_cache s") (simp_all split: prod.split)
qed

lemma status_inv_act:
  assumes "status_inv s" and act: "status_act keeps e s = Some s'"
  shows "status_inv s'"
proof (cases e)
  case Tick
  then show ?thesis using act reads_grow_same [OF assms(1)] status_inv_reads [OF assms(1)]
    by (auto intro!: status_inv_idle [OF assms(1)])
next
  case (Enter c force)
  then have "s' = set_caller c (Looking \<lparr>began = sc_now s, forced = force, tooEarly = None\<rparr>) s"
    using act by (simp split: caller.splits)
  then show ?thesis using status_inv_set_caller [OF assms(1)] by (simp add: call_ok_def)
next
  case (Look c)
  then obtain k where k: "sc_caller s c = Looking k" "s' = (if sc_ended s c then set_caller c Gone s else look c k s)"
    using act by (auto split: caller.splits)
  then show ?thesis using status_inv_look [OF assms(1) k(1)] status_inv_set_caller [OF assms(1), of Gone c] by simp
next
  case (Publish i r)
  then show ?thesis using act status_inv_publish [OF assms(1)] by (auto split: read.splits)
next
  case (Close i)
  then show ?thesis using act status_inv_close [OF assms(1)] by (auto split: read.splits)
next
  case (Wake c)
  then obtain k i n r where k: "sc_caller s c = Waiting_on k i" "sc_read s i = Closed n r"
      "s' = set_caller c (if tooEarly k = Some i then Looking k else Answered_read k i r) s"
    using act by (auto split: caller.splits read.splits)
  have "caller_ok (Suc (sc_now s)) (sc_next s) (sc_read s) (Waiting_on k i)"
    using caller_ok_now [OF assms(1), of c] k(1) by simp
  then show ?thesis unfolding k(3) using k(2)
    by (intro status_inv_set_caller [OF assms(1)]) (auto simp: not_running_def)
next
  case (Give_up c)
  then have "s' = set_caller c Gone s" using act by (simp split: caller.splits if_splits)
  then show ?thesis using status_inv_set_caller [OF assms(1)] by simp
next
  case (Ends c)
  then show ?thesis using act reads_grow_same [OF assms(1)] status_inv_reads [OF assms(1)]
    by (auto intro!: status_inv_idle [OF assms(1)])
qed

lemma status_inv_start: "status_inv newStatusClient"
  by (simp add: status_inv_def newStatusClient_def reads_ok_def)

interpretation status_client: machine "status_act keeps" newStatusClient status_inv for keeps
  by unfold_locales (rule status_inv_start, rule status_inv_act)

text \<open>C20: however callers, reads and the clock interleave, at most one status read runs; a caller
  that forces a newer entry is answered only by a read that started after it called, whatever was
  in flight, and one that does not is answered by an entry younger than thirty seconds when it was
  looked up or by a read; an answer from a read is that read's own.\<close>

theorem status_refresh_shared:
  assumes "(steps (status_act keeps))\<^sup>*\<^sup>* newStatusClient s"
  shows "(\<forall>i j m n. sc_read s i = Running m \<longrightarrow> sc_read s j = Running n \<longrightarrow> i = j)
     \<and> (\<forall>c k t checked r. sc_caller s c = Answered_cache k t checked r \<longrightarrow> \<not> forced k \<and> checked - t < 30)
     \<and> (\<forall>c k i r. sc_caller s c = Answered_read k i r \<longrightarrow>
          (\<exists>n. sc_read s i = Closed n r \<and> (forced k \<longrightarrow> began k < n)))"
proof -
  have inv: "status_inv s" using assms by (rule status_client.inv_reachable)
  have "i = j" if "sc_read s i = Running m" "sc_read s j = Running n" for i j m n
    using status_invD(3) [OF inv, of i] status_invD(3) [OF inv, of j] that by auto
  moreover have "\<not> forced k \<and> checked - t < 30" if "sc_caller s c = Answered_cache k t checked r" for c k t checked r
    using status_invD(5) [OF inv, of c] that by (simp add: sentioStatusCacheTTL_def)
  moreover have "\<exists>n. sc_read s i = Closed n r \<and> (forced k \<longrightarrow> began k < n)" if "sc_caller s c = Answered_read k i r" for c k i r
    using status_invD(5) [OF inv, of c] that by (auto simp: takes_def)
  ultimately show ?thesis by blast
qed

text \<open>A forced caller that finds a read in flight waits it out and takes the next.\<close>

theorem status_refresh_shared_witness:
  "\<exists>s :: nat status_client. run_events (status_act (\<lambda>_. True)) [Enter 0 False, Look 0, Enter 1 True, Look 1, Publish 0 7, Close 0,
       Wake 1, Look 1, Publish 1 8, Close 1, Wake 1] newStatusClient = Some s
     \<and> sc_caller s 1 = Answered_read \<lparr>began = 2, forced = True, tooEarly = Some 0\<rparr> 1 8
     \<and> (\<exists>n. sc_read s 1 = Closed n 8 \<and> 2 < n)"
proof -
  obtain s :: "nat status_client" where s: "run_events (status_act (\<lambda>_. True)) [Enter 0 False, Look 0, Enter 1 True, Look 1, Publish 0 7, Close 0,
       Wake 1, Look 1, Publish 1 8, Close 1, Wake 1] newStatusClient = Some s"
    and one: "sc_caller s 1 = Answered_read \<lparr>began = 2, forced = True, tooEarly = Some 0\<rparr> 1 8"
    by (simp add: newStatusClient_def set_caller_def look_def startStatusRefresh_def)
  from status_refresh_shared [OF run_events_steps [OF s]] one
  have "\<exists>n. sc_read s 1 = Closed n 8 \<and> 2 < n" by fastforce
  with s one show ?thesis by blast
qed

end
