(* ===== verification/Engine.thy ===== *)
theory Engine
  imports WalletProvider Valuation
begin

text \<open>
  \<open>engine.go\<close>: what an engine serves, the groups of an attributed account, the lifetimes of presence
  probes, the set-up of chains, the deployments of a scan, what reading one contributes, and the
  response \<open>ScanWithOptions\<close> assembles. The goroutines append their contributions under a mutex in
  whatever order they finish: the order is an argument of the scan. RPC clients, the readers of
  positions and when the contexts end are arguments too.
\<close>

section \<open>Options\<close>

record scanOptions =
  opt_protocols :: "string list"
  opt_chains :: "chain_id list"
  opt_blocks :: "chain_id \<rightharpoonup> u64"

definition includesProtocol :: "scanOptions \<Rightarrow> string \<Rightarrow> bool" where
  "includesProtocol options p \<longleftrightarrow> opt_protocols options = [] \<or> p \<in> set (opt_protocols options)"

definition includesChain :: "scanOptions \<Rightarrow> chain_id \<Rightarrow> bool" where
  "includesChain options c \<longleftrightarrow> opt_chains options = [] \<or> c \<in> set (opt_chains options)"

section \<open>The engine\<close>

record engine =
  eng_rpcURLs :: "chain_id \<Rightarrow> string"
  eng_adapters :: "adapter list"
  eng_registrations :: registrations
  eng_headLag :: u64
  eng_disabled :: "chain_id list"
  eng_workers :: int

definition defaultHeadLagBlocks :: u64 where
  "defaultHeadLagBlocks = 4"

definition defaultScanWorkers :: int where
  "defaultScanWorkers = 3"

definition headLagBlocks :: "u64 \<Rightarrow> u64" where
  "headLagBlocks configured_lag = (if configured_lag = 0 then defaultHeadLagBlocks else configured_lag)"

definition engine_workers :: "engine \<Rightarrow> int" where
  "engine_workers e = (if eng_workers e \<le> 0 then defaultScanWorkers else eng_workers e)"

text \<open>
  \<open>NewEngineWithConfig\<close> over its adapter list and the availability table: it panics on a registration
  error and on a disabled chain that is not supported.
\<close>

definition NewEngineWithConfig :: "(chain_id \<Rightarrow> string) \<Rightarrow> adapter list \<Rightarrow> availability_table \<Rightarrow> u64 \<Rightarrow> chain_id list \<Rightarrow> int
    \<Rightarrow> engine option" where
  "NewEngineWithConfig urls adapters table lag disabled workers =
     (case mustRegisterAdapters adapters table of None \<Rightarrow> None
      | Some regs \<Rightarrow> if list_ex (\<lambda>c. \<not> supportsChain SupportedChainIDs c) disabled then None
          else Some \<lparr>eng_rpcURLs = urls, eng_adapters = adapters, eng_registrations = regs,
            eng_headLag = headLagBlocks lag, eng_disabled = disabled, eng_workers = workers\<rparr>)"

definition chainDisabled :: "engine \<Rightarrow> chain_id \<Rightarrow> bool" where
  "chainDisabled e c \<longleftrightarrow> c \<in> set (eng_disabled e)"

definition Chains :: "engine \<Rightarrow> chain_id list" where
  "Chains e = filter (\<lambda>c. \<not> chainDisabled e c) SupportedChainIDs"

definition served_info :: "engine \<Rightarrow> protocol_info \<Rightarrow> protocol_info option" where
  "served_info e info = (if eng_disabled e = [] then Some info
     else let kept = filter (\<lambda>c. \<not> chainDisabled e c) (info_chains info) in
       if kept = [] then None else Some (info\<lparr>info_chains := kept\<rparr>))"

definition Protocols :: "engine \<Rightarrow> protocol_info list" where
  "Protocols e = List.map_filter (served_info e \<circ> adapter_info) (eng_adapters e)"

section \<open>Attributed accounts\<close>

definition attributed_group :: "(address \<Rightarrow> string) \<Rightarrow> attributedAccount \<Rightarrow> group \<Rightarrow> group" where
  "attributed_group addr_hex account g = g\<lparr>
     grp_id := ''attributed:'' @ att_attribution account @ '':'' @ ToLower (addr_hex (att_address account)) @ '':'' @ grp_id g,
     grp_metadata := AList.update ''accountAttributionSource'' (MetaString (att_source account))
       (AList.update ''accountAttribution'' (MetaString (att_attribution account))
         (AList.update ''attributedAccount'' (MetaAddress (att_address account)) (grp_metadata g)))\<rparr>"

definition attributedGroups :: "(address \<Rightarrow> string) \<Rightarrow> group list \<Rightarrow> attributedAccount \<Rightarrow> address \<Rightarrow> group list" where
  "attributedGroups addr_hex groups account root_address = (if att_address account = root_address then groups
     else map (attributed_group addr_hex account) groups)"

section \<open>Lifetimes of presence probes\<close>

text \<open>The protocols with deployments left, and the protocols whose probes were cancelled, in order.\<close>

record presenceLifetimes =
  pl_remaining :: "string \<rightharpoonup> nat"
  pl_cancelled :: "string list"

definition track_probes :: "(string \<Rightarrow> nat) \<Rightarrow> presenceLifetimes \<Rightarrow> string \<Rightarrow> presenceLifetimes" where
  "track_probes deployments l p = (if deployments p = 0 then l\<lparr>pl_cancelled := pl_cancelled l @ [p]\<rparr>
     else l\<lparr>pl_remaining := (pl_remaining l)(p \<mapsto> deployments p)\<rparr>)"

definition newPresenceLifetimes :: "string list \<Rightarrow> (string \<Rightarrow> nat) \<Rightarrow> presenceLifetimes" where
  "newPresenceLifetimes cancel deployments =
     foldl (track_probes deployments) \<lparr>pl_remaining = Map.empty, pl_cancelled = []\<rparr> cancel"

definition probes_done :: "presenceLifetimes \<Rightarrow> string \<Rightarrow> presenceLifetimes" where
  "probes_done l p = (case pl_remaining l p of None \<Rightarrow> l
     | Some remaining \<Rightarrow> if remaining > 1 then l\<lparr>pl_remaining := (pl_remaining l)(p \<mapsto> remaining - 1)\<rparr>
         else l\<lparr>pl_remaining := (pl_remaining l)(p := None), pl_cancelled := pl_cancelled l @ [p]\<rparr>)"

section \<open>Setting up chains\<close>

record chain_client =
  cn_settled :: "u64 \<Rightarrow> go_error + block_ref"
  cn_block :: "u64 \<Rightarrow> go_error + block_ref"
  cn_scope :: "block_ref \<Rightarrow> go_error + attributedAccount list"

text \<open>
  What a scan meets: the dialled clients; the wallet's reader of provider rows; what a deployment's
  index reads noted; whether collection had stopped when a chain failed, or when a deployment
  reported; how many deployments were dispatched before it stopped, and whether it stopped during
  wallet discovery; whether the pricing context had ended; how errors render.
\<close>

record scan_world =
  w_dial :: "chain_id \<Rightarrow> go_error + chain_client"
  w_wallet_groups :: "chain_id \<Rightarrow> block_ref \<Rightarrow> address \<Rightarrow> walletProviderAccount \<Rightarrow> group list \<times> go_error option"
  w_wallet_provider :: "wallet_provider option"
  w_prices :: "priceProvider option"
  w_coverage :: "string \<Rightarrow> chain_id \<Rightarrow> go_error list"
  w_setup_stopped :: "chain_id \<Rightarrow> bool"
  w_read_stopped :: "string \<Rightarrow> chain_id \<Rightarrow> bool"
  w_dispatched :: nat
  w_discovery_stopped :: bool
  w_pricing_ended :: bool
  w_hex :: "address \<Rightarrow> string"
  w_valuation_text :: "valuation_error \<Rightarrow> string"

definition incompleteScope :: string where "incompleteScope = ''incomplete''"
definition chainNotSetUpMessage :: string where "chainNotSetUpMessage = ''chain not set up before the scan stopped''"
definition notReadMessage :: string where "notReadMessage = ''not read before the scan stopped''"
definition stoppedMessage :: string where "stoppedMessage = ''stopped before it finished reading''"
definition pricesNotFetchedMessage :: string where
  "pricesNotFetchedMessage = ''prices not all fetched before the scan stopped''"

definition chain_error :: "string \<Rightarrow> chain_id \<Rightarrow> string \<Rightarrow> scan_error" where
  "chain_error scope c message = \<lparr>err_scope = scope, err_chain = c, err_protocol = [], err_name = [], err_message = message\<rparr>"

definition chainFailed :: "scan_world \<Rightarrow> chain_id \<Rightarrow> go_error \<Rightarrow> scan_error" where
  "chainFailed w c e = (if w_setup_stopped w c then chain_error incompleteScope c chainNotSetUpMessage
     else chain_error ''chain'' c (PublicError (Some e)))"

datatype chain_setup = Skipped | SetupFailed scan_error | SetUp wallet_scan

definition pin_block :: "engine \<Rightarrow> scanOptions \<Rightarrow> chain_client \<Rightarrow> chain_id \<Rightarrow> go_error + block_ref" where
  "pin_block e options client c = (case opt_blocks options c of
       Some number \<Rightarrow> bindR (cn_block client number) (\<lambda>b. Inr (b\<lparr>block_fixed := True\<rparr>))
     | None \<Rightarrow> cn_settled client (eng_headLag e))"

definition setup_chain :: "engine \<Rightarrow> scan_world \<Rightarrow> scanOptions \<Rightarrow> chain_id \<Rightarrow> chain_setup" where
  "setup_chain e w options c = (if \<not> includesChain options c then Skipped
     else if chainDisabled e c then
       (if opt_chains options \<noteq> [] then SetupFailed (chain_error ''chain'' c ''chain is disabled'') else Skipped)
     else if eng_rpcURLs e c = [] then SetupFailed (chain_error ''chain'' c ''RPC URL is not configured'')
     else (case bindR (w_dial w c) (\<lambda>client. bindR (pin_block e options client c) (\<lambda>block.
         bindR (cn_scope client block) (\<lambda>accounts. Inr (block, accounts)))) of
       Inl err \<Rightarrow> SetupFailed (chainFailed w c err)
     | Inr (block, accounts) \<Rightarrow> SetUp \<lparr>cs_block = block, cs_accounts = accounts, cs_wallet_errors = [],
         cs_wallet_coverage = [], cs_provider_accounts = None\<rparr>))"

definition setup_errors :: "engine \<Rightarrow> scan_world \<Rightarrow> scanOptions \<Rightarrow> scan_error list" where
  "setup_errors e w options = concat (map (\<lambda>c. case setup_chain e w options c of SetupFailed err \<Rightarrow> [err] | _ \<Rightarrow> [])
     SupportedChainIDs)"

definition chain_scans_of :: "engine \<Rightarrow> scan_world \<Rightarrow> scanOptions \<Rightarrow> chain_scans" where
  "chain_scans_of e w options = concat (map (\<lambda>c. case setup_chain e w options c of SetUp s \<Rightarrow> [(c, s)] | _ \<Rightarrow> [])
     SupportedChainIDs)"

text \<open>The chains each account is read on, in canonical order, by the lower-case rendering of its address.\<close>

definition account_chains :: "(address \<Rightarrow> string) \<Rightarrow> chain_scans \<Rightarrow> string \<Rightarrow> chain_id list" where
  "account_chains addr_hex scans key =
     concat (map (\<lambda>(c, s). map (\<lambda>_. c) (filter (\<lambda>a. ToLower (addr_hex (att_address a)) = key) (cs_accounts s))) scans)"

section \<open>Deployments\<close>

record deployment =
  dep_registered :: registeredAdapter
  dep_chain :: chain_id

abbreviation dep_info :: "deployment \<Rightarrow> protocol_info" where
  "dep_info d \<equiv> adapter_info (reg_adapter (dep_registered d))"

definition adapter_deployments :: "engine \<Rightarrow> scanOptions \<Rightarrow> chain_scans \<Rightarrow> adapter \<Rightarrow> unit + deployment list" where
  "adapter_deployments e options scans a = (let info = adapter_info a in
     if \<not> includesProtocol options (info_id info) then Inr []
     else case map_of (eng_registrations e) (info_id info) of None \<Rightarrow> Inl ()
     | Some registration \<Rightarrow> Inr (map (\<lambda>c. \<lparr>dep_registered = registration, dep_chain = c\<rparr>)
         (filter (\<lambda>c. includesChain options c \<and> map_of scans c \<noteq> None) (info_chains info))))"

text \<open>All the deployments of a scan; an adapter without its registration is a panic.\<close>

definition scan_deployments :: "engine \<Rightarrow> scanOptions \<Rightarrow> chain_scans \<Rightarrow> unit + deployment list" where
  "scan_deployments e options scans = bindR (mapR (adapter_deployments e options scans) (eng_adapters e)) (\<lambda>ds. Inr (concat ds))"

definition is_wallet :: "deployment \<Rightarrow> bool" where
  "is_wallet d \<longleftrightarrow> info_id (dep_info d) = walletProtocolID"

section \<open>Reading one deployment\<close>

text \<open>\<open>errors.Join\<close>: the messages on a line each.\<close>

definition join_errors :: "go_error option \<Rightarrow> go_error \<Rightarrow> go_error" where
  "join_errors err e = (case err of None \<Rightarrow> PlainError (error_text e)
     | Some first \<Rightarrow> PlainError (error_text first @ CHR ''\<newline>'' # error_text e))"

text \<open>The accounts of the chain: the first error ends the loop, except in the wallet.\<close>

fun read_accounts :: "(address \<Rightarrow> string) \<Rightarrow> bool \<Rightarrow> (address \<Rightarrow> group list \<times> go_error option) \<Rightarrow> address
    \<Rightarrow> group list \<Rightarrow> go_error option \<Rightarrow> attributedAccount list \<Rightarrow> group list \<times> go_error option" where
  "read_accounts addr_hex wallet ask root_address groups err [] = (groups, err)"
| "read_accounts addr_hex wallet ask root_address groups err (a # as) =
     (let (gs, e) = ask (att_address a); groups = groups @ attributedGroups addr_hex gs a root_address in
      case e of
        None \<Rightarrow> read_accounts addr_hex wallet ask root_address groups err as
      | Some e \<Rightarrow> if wallet then read_accounts addr_hex wallet ask root_address groups (Some (join_errors err e)) as
          else (groups, Some (join_errors err e)))"

text \<open>What an account's read asks: the rows of the wallet's provider where discovery found some.\<close>

definition ask_account :: "scan_world \<Rightarrow> deployment \<Rightarrow> wallet_scan \<Rightarrow> address \<Rightarrow> group list \<times> go_error option" where
  "ask_account w d s a = (case (if is_wallet d then (case cs_provider_accounts s of Some rows \<Rightarrow> map_of rows a | None \<Rightarrow> None) else None) of
       Some rows \<Rightarrow> w_wallet_groups w (dep_chain d) (cs_block s) a rows
     | None \<Rightarrow> adapter_positions (reg_adapter (dep_registered d)) (cs_block s) a)"

section \<open>What an engine serves\<close>

lemma supportsChain_iff: "supportsChain cs c \<longleftrightarrow> c \<in> set cs"
  by (induction cs) auto

text \<open>No disabled chain is served: the chains are the supported ones less the disabled, in
  canonical order, and of every protocol the engine lists exactly its chains less the disabled, in
  the adapters' order, leaving out a protocol with none left; and an engine is made only when its
  disabled chains are supported and its adapters register.\<close>

lemma served_chains_exact:
  assumes "NewEngineWithConfig urls adapters table lag disabled workers = Some e"
  shows "set disabled \<subseteq> set SupportedChainIDs
     \<and> Chains e = filter (\<lambda>c. c \<notin> set disabled) SupportedChainIDs
     \<and> Protocols e = (if disabled = [] then map adapter_info adapters
         else filter (\<lambda>p. info_chains p \<noteq> []) (map ((\<lambda>p. p\<lparr>info_chains := filter (\<lambda>c. c \<notin> set disabled) (info_chains p)\<rparr>) \<circ> adapter_info) adapters))
     \<and> engine_workers e > 0 \<and> eng_headLag e \<noteq> 0"
proof -
  have e: "eng_adapters e = adapters" "eng_disabled e = disabled" "eng_headLag e = headLagBlocks lag"
    and supported: "set disabled \<subseteq> set SupportedChainIDs"
    using assms by (auto simp: NewEngineWithConfig_def supportsChain_iff list_ex_iff split: option.splits if_splits)
  have all: "List.map_filter (\<lambda>a. Some (f a)) as = map f as" for f :: "adapter \<Rightarrow> protocol_info" and as
    by (induction as) (simp_all add: map_filter_simps)
  have some: "List.map_filter (\<lambda>a. if f a = [] then None else Some (g a)) as
      = filter (\<lambda>p. info_chains p \<noteq> []) (map g as)"
    if "\<And>a. info_chains (g a) = f a" for f and g :: "adapter \<Rightarrow> protocol_info" and as
    by (induction as) (simp_all add: map_filter_simps that)
  have "Protocols e = (if disabled = [] then map adapter_info adapters
         else filter (\<lambda>p. info_chains p \<noteq> []) (map ((\<lambda>p. p\<lparr>info_chains := filter (\<lambda>c. c \<notin> set disabled) (info_chains p)\<rparr>) \<circ> adapter_info) adapters))"
    by (simp add: Protocols_def comp_def served_info_def e chainDisabled_def Let_def all some)
  then show ?thesis using supported e
    by (simp add: Chains_def chainDisabled_def engine_workers_def defaultScanWorkers_def headLagBlocks_def defaultHeadLagBlocks_def)
qed

section \<open>Attribution\<close>

lemma map_of_update: "map_of (AList.update k v al) = (map_of al)(k \<mapsto> v)"
  by (simp add: update_conv' fun_eq_iff)

text \<open>The groups of an attributed account belong to it: suppression looks for their holdings and
  theirs only under that account, whatever the adapter wrote, they keep their components and
  values, and two accounts of one attribution, or one account's two groups, never share a group
  identity.\<close>

lemma attributed_groups_belong:
  assumes "hex_names addr_hex" and "att_address a \<noteq> root_address" and "att_address b \<noteq> root_address"
    and "att_attribution a = att_attribution b" and "list_all (\<lambda>x. length (addr_hex x) = 42) [att_address a, att_address b]"
  shows "list_all (\<lambda>g. groupAccount s g = att_address a) (attributedGroups addr_hex gs a root_address)
     \<and> map grp_components (attributedGroups addr_hex gs a root_address) = map grp_components gs
     \<and> (\<forall>g h. grp_id (attributed_group addr_hex a g) = grp_id (attributed_group addr_hex b h)
          \<longleftrightarrow> att_address a = att_address b \<and> grp_id g = grp_id h)"
proof -
  have keys: "''attributedAccount'' \<noteq> ''accountAttribution''" "''attributedAccount'' \<noteq> ''accountAttributionSource''" by simp_all
  have "list_all (\<lambda>g. groupAccount s g = att_address a) (map (attributed_group addr_hex a) gs)"
    by (simp add: list_all_iff groupAccount_def attributed_group_def map_of_update)
  moreover have "map grp_components (map (attributed_group addr_hex a) gs) = map grp_components gs"
    by (simp add: attributed_group_def)
  moreover have "grp_id (attributed_group addr_hex a g) = grp_id (attributed_group addr_hex b h)
      \<longleftrightarrow> att_address a = att_address b \<and> grp_id g = grp_id h" for g h
  proof -
    have "length (ToLower (addr_hex (att_address a))) = length (ToLower (addr_hex (att_address b)))"
      using assms(5) by (simp add: ToLower_def)
    then show ?thesis using hex_namesD [OF assms(1)] assms(4)
      by (auto simp: attributed_group_def)
  qed
  ultimately show ?thesis using assms(2) by (simp add: attributedGroups_def)
qed

section \<open>Probes end with their last deployment\<close>

definition dones :: "string list \<Rightarrow> presenceLifetimes \<Rightarrow> presenceLifetimes" where
  "dones ps l = foldl probes_done l ps"

text \<open>What is left of each protocol after some reports, and which probes ended.\<close>

definition lifetimes_ok :: "string list \<Rightarrow> (string \<Rightarrow> nat) \<Rightarrow> string list \<Rightarrow> presenceLifetimes \<Rightarrow> bool" where
  "lifetimes_ok cancel deployments ps l \<longleftrightarrow>
     (\<forall>p. pl_remaining l p = (if p \<in> set cancel \<and> count_list ps p < deployments p
        then Some (deployments p - count_list ps p) else None))
     \<and> distinct (pl_cancelled l)
     \<and> (\<forall>p. p \<in> set (pl_cancelled l) \<longleftrightarrow> p \<in> set cancel \<and> deployments p \<le> count_list ps p)"

lemma lifetimes_ok_new:
  assumes "distinct cancel"
  shows "lifetimes_ok cancel deployments [] (newPresenceLifetimes cancel deployments)"
  using assms
proof (induction cancel rule: rev_induct)
  case Nil
  then show ?case by (simp add: lifetimes_ok_def newPresenceLifetimes_def)
next
  case (snoc p cancel)
  then have ok: "lifetimes_ok cancel deployments [] (newPresenceLifetimes cancel deployments)" by simp
  have next_l: "newPresenceLifetimes (cancel @ [p]) deployments = track_probes deployments (newPresenceLifetimes cancel deployments) p"
    by (simp add: newPresenceLifetimes_def)
  show ?case using ok snoc.prems unfolding next_l lifetimes_ok_def track_probes_def by auto
qed

lemma count_list_snoc: "count_list (ps @ [q]) p = count_list ps p + (if q = p then 1 else 0)"
  by simp

lemma lifetimes_ok_done:
  assumes "lifetimes_ok cancel deployments ps l"
  shows "lifetimes_ok cancel deployments (ps @ [q]) (probes_done l q)"
proof (cases "q \<in> set cancel \<and> count_list ps q < deployments q")
  case True
  then have left: "pl_remaining l q = Some (deployments q - count_list ps q)" using assms by (simp add: lifetimes_ok_def)
  show ?thesis
  proof (cases "deployments q - count_list ps q > 1")
    case more: True
    then show ?thesis using assms True left unfolding lifetimes_ok_def probes_done_def by (auto simp: fun_eq_iff)
  next
    case last_one: False
    then have "deployments q = Suc (count_list ps q)" using True by linarith
    then show ?thesis using assms True left unfolding lifetimes_ok_def probes_done_def by (auto simp: fun_eq_iff)
  qed
next
  case False
  then have "pl_remaining l q = None" using assms by (auto simp: lifetimes_ok_def)
  then show ?thesis using assms False unfolding lifetimes_ok_def probes_done_def by auto
qed

lemma lifetimes_ok_dones:
  assumes "distinct cancel"
  shows "lifetimes_ok cancel deployments ps (dones ps (newPresenceLifetimes cancel deployments))"
proof (induction ps rule: rev_induct)
  case Nil
  then show ?case using lifetimes_ok_new [OF assms] by (simp add: dones_def)
next
  case (snoc q ps)
  then show ?case using lifetimes_ok_done by (simp add: dones_def)
qed

text \<open>A protocol's presence probes are cancelled exactly when as many of its deployments as the
  scan has of it have reported, never before and only once, in whatever order the workers report;
  those of a protocol with no deployment are cancelled at once.\<close>

lemma probes_end_with_last_deployment:
  assumes "distinct cancel"
  shows "distinct (pl_cancelled (dones ps (newPresenceLifetimes cancel deployments)))
     \<and> set (pl_cancelled (dones ps (newPresenceLifetimes cancel deployments)))
        = {p \<in> set cancel. deployments p \<le> count_list ps p}"
  using lifetimes_ok_dones [OF assms, of deployments ps] by (auto simp: lifetimes_ok_def)

end
