(* ===== verification/Scan.thy ===== *)
theory Scan
  imports Engine
begin

text \<open>
  \<open>ScanWithOptions\<close> of \<open>engine.go\<close>: what each deployment read appends to the response, what is left
  unread, and the assembly that follows (suppression, order, prices, values, errors). \<open>job_order\<close> and
  \<open>setup_order\<close> are the orders in which this run's goroutines appended.
\<close>

section \<open>What one deployment appends\<close>

definition provider_text :: string where
  "provider_text = ''wallet balance provider ''"

definition issue_error :: "(address \<Rightarrow> string) \<Rightarrow> wallet_issue \<Rightarrow> go_error" where
  "issue_error addr_hex issue = PlainError (case issue of
       ProviderNotConfigured \<Rightarrow> ''wallet token discovery provider is not configured''
     | ProviderFailed e \<Rightarrow> ''wallet balance provider: '' @ error_text e
     | ProviderReported text \<Rightarrow> text
     | AccountBlockOfOtherChain \<Rightarrow> ''wallet balance provider contract: account block belongs to another chain''
     | NoChainResult \<Rightarrow> provider_text @ ''returned no chain result''
     | DuplicateChainResults \<Rightarrow> provider_text @ ''returned duplicate chain results''
     | UnexpectedAccount a \<Rightarrow> provider_text @ ''returned unexpected account '' @ addr_hex a
     | DuplicateAccountResult a \<Rightarrow> provider_text @ ''returned duplicate account '' @ addr_hex a
     | NoAccountResults \<Rightarrow> provider_text @ ''returned no account results''
     | NoAccountResult a \<Rightarrow> provider_text @ ''returned no result for account '' @ addr_hex a
     | IncompleteBlockMetadata \<Rightarrow> provider_text @ ''returned incomplete block metadata''
     | BlockHashMismatch n \<Rightarrow> ''wallet balance block hash mismatch at block '' @ show_u64 n
     | BlockTimestampMismatch n \<Rightarrow> ''wallet balance block timestamp mismatch at block '' @ show_u64 n
     | HistoricalCoverageGap \<Rightarrow> ''historical wallet token discovery is incomplete: provider holdings are from a different block; tokens held only at the requested block may be missing'')"

text \<open>Errors of a deployment, and the error that replaces its own once collection has stopped.\<close>

definition job_error :: "deployment \<Rightarrow> string \<Rightarrow> string \<Rightarrow> scan_error" where
  "job_error d scope message = \<lparr>err_scope = scope, err_chain = dep_chain d, err_protocol = info_id (dep_info d),
     err_name = info_name (dep_info d), err_message = message\<rparr>"

definition position_errors :: "scan_world \<Rightarrow> deployment \<Rightarrow> go_error option \<Rightarrow> scan_error list" where
  "position_errors w d err = (case err of None \<Rightarrow> []
     | Some _ \<Rightarrow> [if w_read_stopped w (info_id (dep_info d)) (dep_chain d) then job_error d incompleteScope stoppedMessage
         else job_error d ''protocol'' (PublicError err)])"

text \<open>Each coverage message once, in the order of its first note.\<close>

fun coverage_errors :: "deployment \<Rightarrow> string list \<Rightarrow> go_error list \<Rightarrow> scan_error list" where
  "coverage_errors d seen [] = []"
| "coverage_errors d seen (note # ns) = (let message = PublicError (Some note) in
     if message \<in> set seen then coverage_errors d seen ns
     else job_error d ''coverage'' message # coverage_errors d (message # seen) ns)"

definition wallet_errors :: "scan_world \<Rightarrow> deployment \<Rightarrow> wallet_scan \<Rightarrow> scan_error list" where
  "wallet_errors w d s = (if is_wallet d
     then map (\<lambda>i. job_error d ''protocol'' (PublicError (Some (issue_error (w_hex w) i)))) (cs_wallet_errors s)
       @ map (\<lambda>i. job_error d ''coverage'' (PublicError (Some (issue_error (w_hex w) i)))) (cs_wallet_coverage s)
     else [])"

definition job_snapshot :: "deployment \<Rightarrow> wallet_scan \<Rightarrow> address \<Rightarrow> group list \<Rightarrow> snapshot" where
  "job_snapshot d s root_address groups = \<lparr>snap_protocol = info_id (dep_info d), snap_name = info_name (dep_info d),
     snap_chain = dep_chain d, snap_account = root_address, snap_block = cs_block s, snap_groups = groups,
     snap_policy = ''floor-zero'', snap_value = None\<rparr>"

text \<open>\<open>read\<close>: the errors and the snapshot it appends, in one critical section.\<close>

definition contribution :: "scan_world \<Rightarrow> address \<Rightarrow> chain_scans \<Rightarrow> deployment \<Rightarrow> scan_error list \<times> snapshot list" where
  "contribution w root_address scans d = (case map_of scans (dep_chain d) of None \<Rightarrow> ([], [])
     | Some s \<Rightarrow> if \<not> registered_ActiveAt (dep_registered d) (dep_chain d) (block_number (cs_block s)) then ([], [])
         else (case read_accounts (w_hex w) (is_wallet d) (ask_account w d s) root_address [] None (cs_accounts s) of
           (groups, err) \<Rightarrow>
             (position_errors w d err @ coverage_errors d [] (w_coverage w (info_id (dep_info d)) (dep_chain d)) @ wallet_errors w d s,
              if groups = [] then [] else [job_snapshot d s root_address groups])))"

section \<open>The scan\<close>

text \<open>The scans a deployment reads: the wallet's after discovery configured them.\<close>

definition job_scans :: "scan_world \<Rightarrow> address \<Rightarrow> chain_scans \<Rightarrow> deployment \<Rightarrow> chain_scans" where
  "job_scans w root_address scans d = (if is_wallet d
     then configureWalletBalances (w_hex w) (w_wallet_provider w) root_address scans else scans)"

definition read_jobs :: "scan_world \<Rightarrow> deployment list \<Rightarrow> deployment list" where
  "read_jobs w ds = take (w_dispatched w) (filter (\<lambda>d. \<not> is_wallet d) ds)
     @ (if w_discovery_stopped w then [] else filter is_wallet ds)"

definition unread_jobs :: "scan_world \<Rightarrow> deployment list \<Rightarrow> deployment list" where
  "unread_jobs w ds = drop (w_dispatched w) (filter (\<lambda>d. \<not> is_wallet d) ds)
     @ (if w_discovery_stopped w then filter is_wallet ds else [])"

definition active_job :: "chain_scans \<Rightarrow> deployment \<Rightarrow> bool" where
  "active_job scans d \<longleftrightarrow> (case map_of scans (dep_chain d) of None \<Rightarrow> False
     | Some s \<Rightarrow> registered_ActiveAt (dep_registered d) (dep_chain d) (block_number (cs_block s)))"

definition unread_errors :: "scan_world \<Rightarrow> chain_scans \<Rightarrow> deployment list \<Rightarrow> scan_error list" where
  "unread_errors w scans ds = map (\<lambda>d. job_error d incompleteScope notReadMessage) (filter (active_job scans) (unread_jobs w ds))"

definition snap_key :: "snapshot \<Rightarrow> string \<times> chain_id" where
  "snap_key s = (snap_protocol s, snap_chain s)"

definition err_key :: "scan_error \<Rightarrow> string \<times> chain_id \<times> string \<times> string" where
  "err_key e = (err_scope e, err_chain e, err_protocol e, err_message e)"

definition valuation_error_of :: "scan_world \<Rightarrow> scan_valuation_error \<Rightarrow> scan_error" where
  "valuation_error_of w e = (case e of ValuationFailed pid symbol err \<Rightarrow>
     chain_error ''pricing'' 0 (PublicError (Some (PlainError (pid @ '' '' @ symbol @ '': '' @ w_valuation_text w err)))))"

text \<open>Pricing, valuation and the order of the errors, over what the scan collected.\<close>

definition finish_scan :: "scan_world \<Rightarrow> response \<Rightarrow> scan_error list \<Rightarrow> snapshot list \<Rightarrow> response" where
  "finish_scan w r errors snaps =
     (let snaps = sort_key snap_key (suppressDuplicateHoldings snaps);
          (ps, price_errors) = fetchPrices (w_hex w) (w_prices w) snaps;
          errors = errors @ (if price_errors \<noteq> [] \<and> w_pricing_ended w
              then [chain_error incompleteScope 0 pricesNotFetchedMessage] else []) @ price_errors;
          (snaps, valued) = applyValuations (w_hex w) snaps ps (resp_supported r);
          errors = errors @ (case valued of Inl e \<Rightarrow> [valuation_error_of w e] | Inr _ \<Rightarrow> [])
      in r\<lparr>resp_snapshots := snaps, resp_prices := ps, resp_errors := sort_key err_key errors,
           resp_summaries := (case valued of Inl _ \<Rightarrow> [] | Inr summaries \<Rightarrow> summaries)\<rparr>)"

definition new_response :: "engine \<Rightarrow> scanOptions \<Rightarrow> address \<Rightarrow> chain_scans \<Rightarrow> response" where
  "new_response e options root_address scans = \<lparr>resp_schema = 1, resp_address = root_address,
     resp_supported = filter (\<lambda>p. includesProtocol options (info_id p)) (Protocols e), resp_snapshots = [],
     resp_summaries = [], resp_errors = [], resp_blocks = (\<lambda>c. map_option (block_number \<circ> cs_block) (map_of scans c)),
     resp_prices = Map.empty\<rparr>"

definition ScanWithOptions :: "engine \<Rightarrow> scan_world \<Rightarrow> scanOptions \<Rightarrow> address \<Rightarrow> (deployment list \<Rightarrow> deployment list)
    \<Rightarrow> (scan_error list \<Rightarrow> scan_error list) \<Rightarrow> unit + response" where
  "ScanWithOptions e w options root_address job_order setup_order = (let scans = chain_scans_of e w options in
     bindR (scan_deployments e options scans) (\<lambda>ds.
       let reads = map (\<lambda>d. contribution w root_address (job_scans w root_address scans d) d) (job_order (read_jobs w ds)) in
       Inr (finish_scan w (new_response e options root_address scans)
         (setup_order (setup_errors e w options) @ concat (map fst reads) @ unread_errors w scans ds)
         (concat (map snd reads)))))"

section \<open>The deployments of an engine\<close>

definition registered_of :: "availability_table \<Rightarrow> adapter \<Rightarrow> registeredAdapter" where
  "registered_of table a = \<lparr>reg_adapter = a, reg_availability = table_of table (info_id (adapter_info a))\<rparr>"

definition deployments_of :: "availability_table \<Rightarrow> scanOptions \<Rightarrow> chain_scans \<Rightarrow> adapter \<Rightarrow> deployment list" where
  "deployments_of table options scans a = (if \<not> includesProtocol options (info_id (adapter_info a)) then []
     else map (\<lambda>c. \<lparr>dep_registered = registered_of table a, dep_chain = c\<rparr>)
       (filter (\<lambda>c. includesChain options c \<and> map_of scans c \<noteq> None) (info_chains (adapter_info a))))"

lemma engine_registered:
  assumes "NewEngineWithConfig urls adapters table lag disabled workers = Some e"
  shows "eng_adapters e = adapters" and "eng_registrations e = registrations_of table adapters"
    and "distinct (map (info_id \<circ> adapter_info) adapters)" and "a \<in> set adapters \<Longrightarrow> distinct (info_chains (adapter_info a))"
proof -
  have ok: "registerAdapters adapters table = Inr (eng_registrations e)" and e: "eng_adapters e = adapters"
    using assms by (auto simp: NewEngineWithConfig_def mustRegisterAdapters_def split: option.splits if_splits sum.splits)
  show "eng_adapters e = adapters" by (rule e)
  show "eng_registrations e = registrations_of table adapters"
    and "distinct (map (info_id \<circ> adapter_info) adapters)" using ok by (simp_all add: registerAdapters_ok)
  show "a \<in> set adapters \<Longrightarrow> distinct (info_chains (adapter_info a))"
    using ok by (simp add: registerAdapters_ok registration_ok_def Let_def)
qed

lemma registration_found:
  assumes "distinct (map (info_id \<circ> adapter_info) adapters)" and "a \<in> set adapters"
  shows "map_of (registrations_of table adapters) (info_id (adapter_info a)) = Some (registered_of table a)"
proof -
  have "map fst (registrations_of table adapters) = map (info_id \<circ> adapter_info) adapters"
    by (simp add: registrations_of_def)
  then show ?thesis using assms
    by (intro map_of_is_SomeI) (auto simp: registrations_of_def registered_of_def comp_def)
qed

lemma mapR_total: "(\<And>x. x \<in> set xs \<Longrightarrow> f x = Inr (g x)) \<Longrightarrow> mapR f xs = Inr (map g xs)"
  by (induction xs) simp_all

lemma scan_deployments_total:
  assumes "NewEngineWithConfig urls adapters table lag disabled workers = Some e"
  shows "scan_deployments e options scans = Inr (concat (map (deployments_of table options scans) adapters))"
proof -
  note engine = engine_registered [OF assms]
  have "adapter_deployments e options scans a = Inr (deployments_of table options scans a)" if "a \<in> set adapters" for a
    using registration_found [OF engine(3) that] by (simp add: adapter_deployments_def deployments_of_def engine Let_def)
  then show ?thesis by (simp add: scan_deployments_def engine(1) mapR_total)
qed

definition dep_key :: "deployment \<Rightarrow> string \<times> chain_id" where
  "dep_key d = (info_id (dep_info d), dep_chain d)"

lemma deployments_of_keys:
  "map dep_key (deployments_of table options scans a) = (if \<not> includesProtocol options (info_id (adapter_info a)) then []
     else map (Pair (info_id (adapter_info a)))
       (filter (\<lambda>c. includesChain options c \<and> map_of scans c \<noteq> None) (info_chains (adapter_info a))))"
  by (simp add: deployments_of_def dep_key_def registered_of_def)

lemma deployment_keys_distinct:
  assumes "distinct (map (info_id \<circ> adapter_info) adapters)"
    and "\<And>a. a \<in> set adapters \<Longrightarrow> distinct (info_chains (adapter_info a))"
  shows "distinct (map dep_key (concat (map (deployments_of table options scans) adapters)))"
  using assms
proof (induction adapters)
  case (Cons a as)
  have mine: "fst k = info_id (adapter_info a)" if "k \<in> set (map dep_key (deployments_of table options scans a))" for k
    using that unfolding deployments_of_keys by (auto split: if_splits)
  have theirs: "\<exists>b \<in> set as. fst k = info_id (adapter_info b)"
    if "k \<in> set (map dep_key (concat (map (deployments_of table options scans) as)))" for k
  proof -
    from that obtain b d where "b \<in> set as" "d \<in> set (deployments_of table options scans b)" "k = dep_key d" by auto
    then show ?thesis by (intro bexI [of _ b]) (auto simp: deployments_of_def registered_of_def dep_key_def split: if_splits)
  qed
  have "distinct (map dep_key (deployments_of table options scans a))"
    using Cons.prems(2) [of a] unfolding deployments_of_keys by (auto simp: distinct_map inj_on_def)
  moreover have "set (map dep_key (deployments_of table options scans a))
      \<inter> set (map dep_key (concat (map (deployments_of table options scans) as))) = {}"
  proof (rule ccontr)
    assume "set (map dep_key (deployments_of table options scans a))
      \<inter> set (map dep_key (concat (map (deployments_of table options scans) as))) \<noteq> {}"
    then obtain k where k: "k \<in> set (map dep_key (deployments_of table options scans a))"
        "k \<in> set (map dep_key (concat (map (deployments_of table options scans) as)))" by blast
    obtain b where "b \<in> set as" "fst k = info_id (adapter_info b)" using theirs [OF k(2)] by blast
    then have "info_id (adapter_info a) \<in> (info_id \<circ> adapter_info) ` set as" using mine [OF k(1)] by (auto intro!: image_eqI)
    then show False using Cons.prems(1) by simp
  qed
  ultimately show ?case using Cons by simp
qed simp

section \<open>The order of the goroutines\<close>

text \<open>Every error names its protocol by the name its adapter gives.\<close>

definition name_of :: "adapter list \<Rightarrow> string \<Rightarrow> string" where
  "name_of adapters p = (case find (\<lambda>a. info_id (adapter_info a) = p) adapters of
     Some a \<Rightarrow> info_name (adapter_info a) | None \<Rightarrow> [])"

definition named :: "adapter list \<Rightarrow> scan_error \<Rightarrow> bool" where
  "named adapters e \<longleftrightarrow> err_name e = name_of adapters (err_protocol e)"

lemma name_of_adapter:
  assumes "distinct (map (info_id \<circ> adapter_info) adapters)" and "a \<in> set adapters"
  shows "name_of adapters (info_id (adapter_info a)) = info_name (adapter_info a)"
  using assms by (induction adapters) (auto simp: name_of_def)

lemma name_of_none: "[] \<notin> (info_id \<circ> adapter_info) ` set adapters \<Longrightarrow> name_of adapters [] = []"
  by (induction adapters) (auto simp: name_of_def)

lemma err_key_inj: "list_all (named adapters) errors \<Longrightarrow> inj_on err_key (set errors)"
  by (rule inj_onI) (auto simp: list_all_iff named_def err_key_def intro!: scan_error.equality)

text \<open>The errors about no protocol.\<close>

definition nameless :: "scan_error \<Rightarrow> bool" where
  "nameless e \<longleftrightarrow> err_protocol e = [] \<and> err_name e = []"

lemma nameless_named: "[] \<notin> (info_id \<circ> adapter_info) ` set adapters \<Longrightarrow> nameless e \<Longrightarrow> named adapters e"
  by (simp add: nameless_def named_def name_of_none)

lemma fetchPrices_nameless: "list_all nameless (snd (fetchPrices addr_hex p ss))"
proof -
  have "list_all nameless (snd (foldl (fetch_query addr_hex q) st qs))" if "list_all nameless (snd st)" for q st qs
    using that
  proof (induction qs arbitrary: st)
    case (Cons x qs)
    have "list_all nameless (snd (fetch_query addr_hex q st x))"
      using Cons.prems by (auto simp: fetch_query_def Let_def list_all_iff nameless_def pricing_error_def)
    then show ?case using Cons.IH by simp
  qed simp
  then show ?thesis by (simp add: fetchPrices_def Let_def nameless_def split: option.splits)
qed

lemma setup_errors_nameless: "list_all nameless (setup_errors e w options)"
  by (auto simp: setup_errors_def list_all_iff setup_chain_def chainFailed_def chain_error_def nameless_def
      split: chain_setup.splits if_splits sum.splits)

text \<open>A deployment of one of the engine's adapters.\<close>

definition of_adapters :: "adapter list \<Rightarrow> deployment \<Rightarrow> bool" where
  "of_adapters adapters d \<longleftrightarrow> reg_adapter (dep_registered d) \<in> set adapters"

lemma job_error_named:
  "distinct (map (info_id \<circ> adapter_info) adapters) \<Longrightarrow> of_adapters adapters d \<Longrightarrow> named adapters (job_error d scope message)"
  by (simp add: named_def job_error_def of_adapters_def name_of_adapter)

lemma coverage_errors_jobs: "e \<in> set (coverage_errors d seen ns) \<Longrightarrow> \<exists>scope message. e = job_error d scope message"
  by (induction d seen ns rule: coverage_errors.induct) (auto simp: Let_def split: if_splits)

lemma contribution_errors: "e \<in> set (fst (contribution w root_address scans d)) \<Longrightarrow> \<exists>scope message. e = job_error d scope message"
  by (auto simp: contribution_def position_errors_def wallet_errors_def split: option.splits if_splits prod.splits
      dest!: coverage_errors_jobs)

lemma contribution_snaps: "s \<in> set (snd (contribution w root_address scans d)) \<Longrightarrow> snap_key s = dep_key d"
  by (auto simp: contribution_def job_snapshot_def snap_key_def dep_key_def split: option.splits if_splits prod.splits)

lemma contribution_snaps_length: "length (snd (contribution w root_address scans d)) \<le> 1"
  by (auto simp: contribution_def split: option.splits prod.splits)

text \<open>Suppression of a permutation is a permutation.\<close>

lemma suppress_snapshot_held: "set held = set held' \<Longrightarrow> suppress_snapshot held s = suppress_snapshot held' s"
  by (cases "held = []"; cases "held' = []") (auto simp: suppress_snapshot_def duplicate_holding_def)

lemma mset_concat_map: "mset xs = mset ys \<Longrightarrow> mset (concat (map f xs)) = mset (concat (map f ys))"
  by (metis mset_concat mset_map sum_mset_sum_list)

lemma suppress_permuted:
  assumes "mset ss = mset ts"
  shows "mset (suppressDuplicateHoldings ss) = mset (suppressDuplicateHoldings ts)"
proof -
  have sets: "set ss = set ts" using assms by (rule mset_eq_setD)
  have "set (walletHeldContracts ss) = set (walletHeldContracts ts)" using sets by (auto simp: walletHeldContracts_def)
  then have "suppress_snapshot (walletHeldContracts ss) = suppress_snapshot (walletHeldContracts ts)"
    by (intro ext suppress_snapshot_held)
  then show ?thesis using mset_concat_map [OF assms] by (simp add: suppressDuplicateHoldings_def)
qed

lemma suppress_keys: "s \<in> set (suppressDuplicateHoldings ss) \<Longrightarrow>
    \<exists>t \<in> set ss. snap_key s = snap_key t \<and> s \<in> set (suppress_snapshot (walletHeldContracts ss) t)"
proof -
  assume "s \<in> set (suppressDuplicateHoldings ss)"
  then obtain t where t: "t \<in> set ss" "s \<in> set (suppress_snapshot (walletHeldContracts ss) t)"
    by (auto simp: suppressDuplicateHoldings_def)
  have "snap_key s = snap_key t" using t(2) by (auto simp: suppress_snapshot_def snap_key_def Let_def split: if_splits)
  then show ?thesis using t by blast
qed

lemma suppress_key_inj:
  assumes "inj_on snap_key (set ss)"
  shows "inj_on snap_key (set (suppressDuplicateHoldings ss))"
proof (rule inj_onI)
  fix s t
  assume s: "s \<in> set (suppressDuplicateHoldings ss)" and t: "t \<in> set (suppressDuplicateHoldings ss)" and key: "snap_key s = snap_key t"
  obtain s' where s': "s' \<in> set ss" "snap_key s = snap_key s'" "s \<in> set (suppress_snapshot (walletHeldContracts ss) s')"
    using suppress_keys [OF s] by auto
  obtain t' where t': "t' \<in> set ss" "snap_key t = snap_key t'" "t \<in> set (suppress_snapshot (walletHeldContracts ss) t')"
    using suppress_keys [OF t] by auto
  have "s' = t'" using inj_onD [OF assms _ s'(1) t'(1)] key s'(2) t'(2) by simp
  then show "s = t" using s'(3) t'(3) by (auto simp: suppress_snapshot_def Let_def split: if_splits)
qed

lemma finish_scan_permuted:
  assumes "mset errors = mset errors'" and "mset snaps = mset snaps'" and "inj_on snap_key (set snaps)"
    and "list_all (named adapters) errors" and "[] \<notin> (info_id \<circ> adapter_info) ` set adapters"
  shows "finish_scan w r errors snaps = finish_scan w r errors' snaps'"
proof -
  have snaps: "sort_key snap_key (suppressDuplicateHoldings snaps) = sort_key snap_key (suppressDuplicateHoldings snaps')"
    by (rule sort_key_permuted [OF suppress_permuted [OF assms(2)] suppress_key_inj [OF assms(3)]])
  have sorted: "sort_key err_key (errors @ es) = sort_key err_key (errors' @ es)" if "list_all nameless es" for es
  proof (rule sort_key_permuted)
    have "list_all (named adapters) (errors @ es)"
      using that assms(4) nameless_named [OF assms(5)] by (auto simp: list_all_iff)
    then show "inj_on err_key (set (errors @ es))" by (rule err_key_inj)
  qed (use assms(1) in simp)
  obtain ps price_errors where prices: "fetchPrices (w_hex w) (w_prices w) (sort_key snap_key (suppressDuplicateHoldings snaps'))
      = (ps, price_errors)" by fastforce
  then have "list_all nameless price_errors" using fetchPrices_nameless by (metis snd_conv)
  moreover have "list_all nameless [chain_error incompleteScope 0 pricesNotFetchedMessage]"
    and "nameless (valuation_error_of w err)" for err
    by (simp_all add: nameless_def chain_error_def valuation_error_of_def split: scan_valuation_error.split)
  ultimately have tail: "list_all nameless ((if price_errors \<noteq> [] \<and> w_pricing_ended w
      then [chain_error incompleteScope 0 pricesNotFetchedMessage] else []) @ price_errors
      @ (case v of Inl err \<Rightarrow> [valuation_error_of w err] | Inr _ \<Rightarrow> []))" for v :: "scan_valuation_error + protocol_summary list"
    by (auto split: sum.split)
  show ?thesis
    unfolding finish_scan_def Let_def snaps prices split_beta fst_conv snd_conv append_assoc sorted [OF tail] ..
qed

lemma deployments_of_adapters: "d \<in> set (concat (map (deployments_of table options scans) adapters)) \<Longrightarrow> of_adapters adapters d"
  by (auto simp: deployments_of_def registered_of_def of_adapters_def split: if_splits)

lemma read_jobs_set: "set (read_jobs w ds) \<subseteq> set ds" "set (unread_jobs w ds) \<subseteq> set ds"
  by (auto simp: read_jobs_def unread_jobs_def dest: in_set_takeD in_set_dropD)

lemma reads_key_inj:
  assumes "inj_on dep_key (set ds)"
  shows "inj_on snap_key (set (concat (map (\<lambda>d. snd (contribution w root_address (f d) d)) ds)))"
proof (rule inj_onI)
  fix s t
  assume "s \<in> set (concat (map (\<lambda>d. snd (contribution w root_address (f d) d)) ds))"
    and "t \<in> set (concat (map (\<lambda>d. snd (contribution w root_address (f d) d)) ds))" and key: "snap_key s = snap_key t"
  then obtain d d' where d: "d \<in> set ds" "s \<in> set (snd (contribution w root_address (f d) d))"
    and d': "d' \<in> set ds" "t \<in> set (snd (contribution w root_address (f d') d'))" by auto
  then have "d = d'" using assms key contribution_snaps by (metis inj_onD)
  then show "s = t" using d d' contribution_snaps_length [of w root_address "f d" d]
    by (cases "snd (contribution w root_address (f d) d)") auto
qed

text \<open>C1: the response of a scan does not depend on the order in which its goroutines finish. Whatever
  order chains are set up in and deployments append their groups and errors in, the holdings that
  are suppressed, the assets that are priced, the totals and the order of every list are the same.\<close>

theorem scan_order_irrelevant:
  assumes "NewEngineWithConfig urls adapters table lag disabled workers = Some e"
    and "[] \<notin> (info_id \<circ> adapter_info) ` set adapters"
    and "mset (job_order (read_jobs w ds)) = mset (read_jobs w ds)"
    and "mset (setup_order (setup_errors e w options)) = mset (setup_errors e w options)"
    and "scan_deployments e options (chain_scans_of e w options) = Inr ds"
  shows "ScanWithOptions e w options root_address job_order setup_order = ScanWithOptions e w options root_address id id"
proof -
  note engine = engine_registered [OF assms(1)]
  let ?scans = "chain_scans_of e w options"
  let ?c = "\<lambda>d. contribution w root_address (job_scans w root_address ?scans d) d"
  have ds: "ds = concat (map (deployments_of table options ?scans) adapters)"
    using scan_deployments_total [OF assms(1)] assms(5) by simp
  have keys: "inj_on dep_key (set ds)"
    using deployment_keys_distinct [OF engine(3,4)] ds by (simp add: distinct_map)
  have reads: "set (job_order (read_jobs w ds)) = set (read_jobs w ds)" using mset_eq_setD [OF assms(3)] .
  have inj: "inj_on snap_key (set (concat (map (\<lambda>d. snd (?c d)) (job_order (read_jobs w ds)))))"
    using reads read_jobs_set(1) [of w ds] keys by (intro reads_key_inj) (auto intro: inj_on_subset)
  have job: "named adapters (job_error d scope message)" if "d \<in> set ds" for d scope message
    using that deployments_of_adapters ds job_error_named [OF engine(3)] by blast
  have "named adapters err" if "err \<in> set (concat (map (fst \<circ> ?c) (job_order (read_jobs w ds))))" for err
  proof -
    from that obtain d where "d \<in> set (read_jobs w ds)" "err \<in> set (fst (?c d))" using reads by auto
    then show ?thesis using contribution_errors job read_jobs_set(1) by (metis subsetD)
  qed
  moreover have "named adapters err" if "err \<in> set (unread_errors w ?scans ds)" for err
    using that job read_jobs_set(2) [of w ds] by (auto simp: unread_errors_def)
  moreover have "named adapters err" if "err \<in> set (setup_order (setup_errors e w options))" for err
    using that setup_errors_nameless [of e w options] nameless_named [OF assms(2)] mset_eq_setD [OF assms(4)]
    by (auto simp: list_all_iff)
  ultimately have named: "list_all (named adapters) (setup_order (setup_errors e w options)
      @ concat (map (fst \<circ> ?c) (job_order (read_jobs w ds))) @ unread_errors w ?scans ds)"
    by (auto simp: list_all_iff)
  have "finish_scan w r (setup_order (setup_errors e w options) @ concat (map (fst \<circ> ?c) (job_order (read_jobs w ds)))
        @ unread_errors w ?scans ds) (concat (map (snd \<circ> ?c) (job_order (read_jobs w ds))))
      = finish_scan w r (setup_errors e w options @ concat (map (fst \<circ> ?c) (read_jobs w ds))
        @ unread_errors w ?scans ds) (concat (map (snd \<circ> ?c) (read_jobs w ds)))" for r
    by (rule finish_scan_permuted [OF _ _ _ named assms(2)])
      (use assms(3,4) inj mset_concat_map [OF assms(3), of "fst \<circ> ?c"] mset_concat_map [OF assms(3), of "snd \<circ> ?c"]
        in \<open>simp_all add: comp_def\<close>)
  then show ?thesis using assms(5) by (simp add: ScanWithOptions_def Let_def comp_def)
qed

section \<open>Nothing is missing in silence\<close>

lemma applyValuations_bare: "map bare_snapshot (fst (applyValuations addr_hex snaps ps protocols)) = map bare_snapshot snaps"
  using value_snapshots_bare [of addr_hex ps snaps "[]"] by (simp add: applyValuations_def split_beta)

lemma finish_scan_errors: "set errors \<subseteq> set (resp_errors (finish_scan w r errors snaps))"
  by (auto simp: finish_scan_def Let_def split_beta)

lemma finish_scan_snaps: "map bare_snapshot (resp_snapshots (finish_scan w r errors snaps))
    = map bare_snapshot (sort_key snap_key (suppressDuplicateHoldings snaps))"
  by (simp add: finish_scan_def Let_def split_beta applyValuations_bare)

lemma finish_scan_blocks: "resp_blocks (finish_scan w r errors snaps) = resp_blocks r"
  by (simp add: finish_scan_def Let_def split_beta)

lemma suppress_keeps: "s \<in> set ss \<Longrightarrow> snap_protocol s \<noteq> walletProtocolID \<Longrightarrow> s \<in> set (suppressDuplicateHoldings ss)"
  unfolding suppressDuplicateHoldings_def by (auto simp: suppress_snapshot_def intro!: bexI [of _ s])

lemma map_of_setups: "distinct cs \<Longrightarrow> map_of (concat (map (\<lambda>c. case f c of SetUp s \<Rightarrow> [(c, s)] | _ \<Rightarrow> []) cs)) c
    = (if c \<in> set cs then case f c of SetUp s \<Rightarrow> Some s | _ \<Rightarrow> None else None)"
proof (induction cs)
  case (Cons d cs)
  then show ?case by (cases "f d") (auto simp: map_add_def split: option.splits)
qed simp

lemma chain_scans_of_map: "map_of (chain_scans_of e w options) c
    = (if c \<in> set SupportedChainIDs then case setup_chain e w options c of SetUp s \<Rightarrow> Some s | _ \<Rightarrow> None else None)"
  unfolding chain_scans_of_def by (rule map_of_setups [OF SupportedChainIDs_distinct])

section \<open>What a chain's set-up answers\<close>

text \<open>
  The pin of a chain: the block asked for, marked fixed, or the settled head; and a chain that is read is
  dialled, pinned and answers the accounts of the scan, while a failure of any of the three is the chain's.
\<close>

definition pin_answer :: "engine \<Rightarrow> scanOptions \<Rightarrow> chain_client \<Rightarrow> chain_id \<Rightarrow> go_error + block_ref" where
  "pin_answer e options client c = (case opt_blocks options c of
       None \<Rightarrow> cn_settled client (eng_headLag e)
     | Some n \<Rightarrow> (case cn_block client n of Inl err \<Rightarrow> Inl err | Inr b \<Rightarrow> Inr (b\<lparr>block_fixed := True\<rparr>)))"

definition chain_reads :: "engine \<Rightarrow> scan_world \<Rightarrow> scanOptions \<Rightarrow> chain_id \<Rightarrow> block_ref \<Rightarrow> attributedAccount list \<Rightarrow> bool" where
  "chain_reads e w options c block accounts \<longleftrightarrow> (\<exists>client. w_dial w c = Inr client
     \<and> pin_answer e options client c = Inr block \<and> cn_scope client block = Inr accounts)"

definition chain_fails :: "engine \<Rightarrow> scan_world \<Rightarrow> scanOptions \<Rightarrow> chain_id \<Rightarrow> go_error \<Rightarrow> bool" where
  "chain_fails e w options c err \<longleftrightarrow> w_dial w c = Inl err \<or> (\<exists>client. w_dial w c = Inr client
     \<and> (pin_answer e options client c = Inl err
       \<or> (\<exists>block. pin_answer e options client c = Inr block \<and> cn_scope client block = Inl err)))"

definition names_chain :: "response \<Rightarrow> chain_id \<Rightarrow> string \<Rightarrow> string \<Rightarrow> bool" where
  "names_chain r c scope message \<longleftrightarrow> (\<exists>x \<in> set (resp_errors r). err_scope x = scope \<and> err_chain x = c \<and> err_message x = message)"

text \<open>
  The three ways a chain may be missing without an error are spelled out: the scan did not ask for it, or
  it is disabled and the scan asked for no chain by name. Every other chain is pinned at the block the
  response gives or is named by an error: disabled, without an RPC URL, failed, or not set up in time.
\<close>

definition chain_accounted :: "engine \<Rightarrow> scan_world \<Rightarrow> scanOptions \<Rightarrow> response \<Rightarrow> chain_id \<Rightarrow> bool" where
  "chain_accounted e w options r c \<longleftrightarrow>
     (if opt_chains options \<noteq> [] \<and> c \<notin> set (opt_chains options) then resp_blocks r c = None
      else if c \<in> set (eng_disabled e) then resp_blocks r c = None \<and> (opt_chains options = [] \<or> names_chain r c ''chain'' ''chain is disabled'')
      else if eng_rpcURLs e c = [] then resp_blocks r c = None \<and> names_chain r c ''chain'' ''RPC URL is not configured''
      else (\<exists>block accounts. chain_reads e w options c block accounts \<and> resp_blocks r c = Some (block_number block))
        \<or> (\<exists>err. chain_fails e w options c err \<and> resp_blocks r c = None
            \<and> (if w_setup_stopped w c then names_chain r c ''incomplete'' ''chain not set up before the scan stopped''
               else names_chain r c ''chain'' (PublicError (Some err)))))"

lemma chain_setup_answer:
  assumes "includesChain options c" "\<not> chainDisabled e c" "eng_rpcURLs e c \<noteq> []"
  shows "(\<exists>block accounts. chain_reads e w options c block accounts \<and> setup_chain e w options c
        = SetUp \<lparr>cs_block = block, cs_accounts = accounts, cs_wallet_errors = [], cs_wallet_coverage = [], cs_provider_accounts = None\<rparr>)
    \<or> (\<exists>err. chain_fails e w options c err \<and> setup_chain e w options c = SetupFailed (chainFailed w c err))"
proof -
  have pin: "pin_block e options client c = pin_answer e options client c" for client
    by (auto simp: pin_block_def pin_answer_def split: option.split sum.split)
  show ?thesis
  proof (cases "w_dial w c")
    case (Inl err)
    then show ?thesis using assms by (simp add: setup_chain_def chain_fails_def)
  next
    case (Inr client)
    show ?thesis
    proof (cases "pin_answer e options client c")
      case (Inl err)
      then show ?thesis using assms Inr by (simp add: setup_chain_def chain_fails_def pin)
    next
      case pinned: (Inr block)
      show ?thesis using assms Inr pinned
        by (cases "cn_scope client block") (simp_all add: setup_chain_def chain_fails_def chain_reads_def pin)
    qed
  qed
qed

lemma chain_reads_set_up:
  assumes "includesChain options c" "\<not> chainDisabled e c" "eng_rpcURLs e c \<noteq> []" "chain_reads e w options c block accounts"
  shows "setup_chain e w options c
    = SetUp \<lparr>cs_block = block, cs_accounts = accounts, cs_wallet_errors = [], cs_wallet_coverage = [], cs_provider_accounts = None\<rparr>"
  using chain_setup_answer [OF assms(1-3), of w] assms(4) by (auto simp: chain_reads_def chain_fails_def)

lemma chain_is_accounted:
  assumes c: "c \<in> set SupportedChainIDs" and errors: "set (setup_errors e w options) \<subseteq> set (resp_errors r)"
    and blocks: "resp_blocks r c = map_option (block_number \<circ> cs_block) (map_of (chain_scans_of e w options) c)"
  shows "chain_accounted e w options r c"
proof -
  have named: "names_chain r c (err_scope err) (err_message err)" if "setup_chain e w options c = SetupFailed err" "err_chain err = c" for err
  proof -
    have "err \<in> set (setup_errors e w options)" using that(1) c unfolding setup_errors_def by (auto intro!: bexI [of _ c])
    then show ?thesis using errors that(2) by (auto simp: names_chain_def)
  qed
  have none: "resp_blocks r c = None" if "setup_chain e w options c = Skipped \<or> (\<exists>err. setup_chain e w options c = SetupFailed err)"
    using that blocks by (auto simp: chain_scans_of_map)
  consider "\<not> includesChain options c" | "includesChain options c" "chainDisabled e c" | "includesChain options c" "\<not> chainDisabled e c" "eng_rpcURLs e c = []"
    | "includesChain options c" "\<not> chainDisabled e c" "eng_rpcURLs e c \<noteq> []" by blast
  then show ?thesis
  proof cases
    case 1
    then show ?thesis using none by (auto simp: setup_chain_def chain_accounted_def includesChain_def)
  next
    case 2
    show ?thesis
    proof (cases "opt_chains options = []")
      case True
      then show ?thesis using 2 none by (auto simp: setup_chain_def chain_accounted_def chainDisabled_def)
    next
      case False
      then have set_up: "setup_chain e w options c = SetupFailed (chain_error ''chain'' c ''chain is disabled'')"
        using 2 by (simp add: setup_chain_def)
      from named [OF this] none set_up False 2 show ?thesis
        by (auto simp: chain_accounted_def chainDisabled_def chain_error_def includesChain_def)
    qed
  next
    case 3
    then have set_up: "setup_chain e w options c = SetupFailed (chain_error ''chain'' c ''RPC URL is not configured'')"
      by (simp add: setup_chain_def)
    from named [OF this] none set_up 3 show ?thesis
      by (auto simp: chain_accounted_def chainDisabled_def chain_error_def includesChain_def)
  next
    case 4
    from chain_setup_answer [OF this, of w] show ?thesis
    proof (elim disjE exE conjE)
      fix block accounts
      assume "chain_reads e w options c block accounts" "setup_chain e w options c
        = SetUp \<lparr>cs_block = block, cs_accounts = accounts, cs_wallet_errors = [], cs_wallet_coverage = [], cs_provider_accounts = None\<rparr>"
      then show ?thesis using blocks c 4 by (auto simp: chain_accounted_def chain_scans_of_map chainDisabled_def includesChain_def)
    next
      fix err
      assume err: "chain_fails e w options c err" and set_up: "setup_chain e w options c = SetupFailed (chainFailed w c err)"
      have "if w_setup_stopped w c then names_chain r c ''incomplete'' ''chain not set up before the scan stopped''
          else names_chain r c ''chain'' (PublicError (Some err))"
        using named [OF set_up] by (auto simp: chainFailed_def chain_error_def incompleteScope_def chainNotSetUpMessage_def split: if_splits)
      then show ?thesis using err none set_up 4 by (auto simp: chain_accounted_def chainDisabled_def includesChain_def)
    qed
  qed
qed

section \<open>What a deployment's read answers\<close>

text \<open>An error of the response about a deployment: its scope and, where given, its message.\<close>

definition names_job :: "response \<Rightarrow> deployment \<Rightarrow> string \<Rightarrow> string \<Rightarrow> bool" where
  "names_job r d scope message \<longleftrightarrow> (\<exists>x \<in> set (resp_errors r). err_scope x = scope \<and> err_chain x = dep_chain d
     \<and> err_protocol x = info_id (dep_info d) \<and> err_name x = info_name (dep_info d) \<and> err_message x = message)"

text \<open>
  A group of an account is accounted for when it is in the response under the deployment's protocol, chain,
  root account and block, as read but for prices and values, and named as the account's when that is not
  the root; or when it is the wallet's and a position in the response counts it (\<open>double_counted\<close>).
\<close>

definition group_accounted :: "(address \<Rightarrow> string) \<Rightarrow> address \<Rightarrow> response \<Rightarrow> deployment \<Rightarrow> wallet_scan \<Rightarrow> attributedAccount \<Rightarrow> group \<Rightarrow> bool" where
  "group_accounted addr_hex root_address r d s account g \<longleftrightarrow>
     (let g = (if att_address account = root_address then g else attributed_group addr_hex account g) in
      (\<exists>t \<in> set (resp_snapshots r). snap_protocol t = info_id (dep_info d) \<and> snap_name t = info_name (dep_info d)
         \<and> snap_chain t = dep_chain d \<and> snap_account t = root_address \<and> snap_block t = cs_block s
         \<and> bare_group g \<in> bare_group ` set (snap_groups t))
      \<or> double_counted (resp_snapshots r) (job_snapshot d s root_address [], g))"

text \<open>
  A deployment was read: every group of every account it reached is accounted for; it reached every account,
  or every one up to the first that failed where it is not the wallet's; a failure is an error of it, as is
  every coverage note and, for the wallet, all that discovery reported.
\<close>

definition job_reported :: "scan_world \<Rightarrow> address \<Rightarrow> response \<Rightarrow> deployment \<Rightarrow> wallet_scan \<Rightarrow> bool" where
  "job_reported w root_address r d s \<longleftrightarrow>
     (\<forall>before account later. cs_accounts s = before @ account # later
        \<and> (info_id (dep_info d) = ''wallet'' \<or> (\<forall>b \<in> set before. snd (ask_account w d s (att_address b)) = None)) \<longrightarrow>
          (\<forall>g \<in> set (fst (ask_account w d s (att_address account))). group_accounted (w_hex w) root_address r d s account g)
          \<and> (snd (ask_account w d s (att_address account)) \<noteq> None \<longrightarrow>
              (if w_read_stopped w (info_id (dep_info d)) (dep_chain d) then names_job r d ''incomplete'' ''stopped before it finished reading''
               else (\<exists>err. names_job r d ''protocol'' (PublicError (Some err))))))
     \<and> (\<forall>note \<in> set (w_coverage w (info_id (dep_info d)) (dep_chain d)). names_job r d ''coverage'' (PublicError (Some note)))
     \<and> (info_id (dep_info d) = ''wallet'' \<longrightarrow>
          (\<forall>issue \<in> set (cs_wallet_errors s). names_job r d ''protocol'' (PublicError (Some (issue_error (w_hex w) issue))))
          \<and> (\<forall>issue \<in> set (cs_wallet_coverage s). names_job r d ''coverage'' (PublicError (Some (issue_error (w_hex w) issue)))))"

text \<open>
  A deployment of an adapter on a chain the scan reads, at a pin its availability table opens, was read, or
  an error says it was not; the latter only when the scan stopped dispatching or stopped during discovery.
  The wallet's scan of the chain is what discovery made of it.
\<close>

definition deployment_accounted :: "availability_table \<Rightarrow> nat \<Rightarrow> engine \<Rightarrow> scan_world \<Rightarrow> scanOptions \<Rightarrow> address \<Rightarrow> response
    \<Rightarrow> adapter \<Rightarrow> chain_id \<Rightarrow> bool" where
  "deployment_accounted table n e w options root_address r a c \<longleftrightarrow>
     (\<forall>block accounts. c \<in> set SupportedChainIDs \<and> c \<notin> set (eng_disabled e) \<and> eng_rpcURLs e c \<noteq> []
        \<and> (opt_chains options = [] \<or> c \<in> set (opt_chains options))
        \<and> (opt_protocols options = [] \<or> info_id (adapter_info a) \<in> set (opt_protocols options))
        \<and> chain_reads e w options c block accounts
        \<and> list_ex (\<lambda>win. configured win \<and> ActivationBlock (window_bounds win) \<le> block_number block
            \<and> (DeactivationBlock (window_bounds win) = 0 \<or> block_number block \<le> DeactivationBlock (window_bounds win)))
          (windows_of (table_of table (info_id (adapter_info a))) c)
      \<longrightarrow> (let d = \<lparr>dep_registered = registered_of table a, dep_chain = c\<rparr>;
              fresh = \<lparr>cs_block = block, cs_accounts = accounts, cs_wallet_errors = [], cs_wallet_coverage = [], cs_provider_accounts = None\<rparr> in
          (if info_id (adapter_info a) = ''wallet'' then
             (\<exists>s. map_of (configureWalletBalances (w_hex w) (w_wallet_provider w) root_address (chain_scans_of e w options)) c = Some s
               \<and> cs_block s = block \<and> cs_accounts s = accounts \<and> job_reported w root_address r d s)
           else job_reported w root_address r d fresh)
          \<or> (names_job r d ''incomplete'' ''not read before the scan stopped'' \<and> (w_dispatched w < n \<or> w_discovery_stopped w))))"

lemma configured_scan:
  assumes "map_of scans c = Some s"
  shows "\<exists>s'. map_of (configureWalletBalances addr_hex provider root_address scans) c = Some s' \<and> grows s s'"
proof -
  have "grows s (configure_result addr_hex result c s)" for result
    using report_failures_grows [of s addr_hex result c]
      conjunct1 [OF configure_chain_outcome [OF refl, of "report_failures addr_hex result c s" c "failed_chain result c" "failed_accounts result c"]]
    unfolding configure_result_def by (meson grows_trans)
  then show ?thesis using assms by (auto simp: configureWalletBalances_def map_of_map_values Let_def split: option.split sum.split)
qed

text \<open>The groups and the error of an account the loop reaches are in what it returns.\<close>

lemma read_accounts_reach:
  assumes "read_accounts addr_hex wallet ask root_address groups err accounts = (groups', err')"
  shows "set groups \<subseteq> set groups' \<and> (err \<noteq> None \<longrightarrow> err' \<noteq> None)
    \<and> (accounts = before @ account # later \<and> (wallet \<or> (\<forall>b \<in> set before. snd (ask (att_address b)) = None)) \<longrightarrow>
        set (attributedGroups addr_hex (fst (ask (att_address account))) account root_address) \<subseteq> set groups'
        \<and> (snd (ask (att_address account)) \<noteq> None \<longrightarrow> err' \<noteq> None))"
  using assms
proof (induction accounts arbitrary: groups err before)
  case (Cons a as)
  obtain gs e where ask: "ask (att_address a) = (gs, e)" by fastforce
  show ?case
  proof (cases "e = None \<or> wallet")
    case True
    then have "read_accounts addr_hex wallet ask root_address (groups @ attributedGroups addr_hex gs a root_address)
        (case e of None \<Rightarrow> err | Some e \<Rightarrow> Some (join_errors err e)) as = (groups', err')"
      using Cons.prems by (auto simp: ask Let_def split: option.splits)
    note rest = Cons.IH [OF this]
    show ?thesis
    proof (cases before)
      case Nil
      then show ?thesis using rest [of "[]"] ask by (cases e) auto
    next
      case (Cons b bs)
      then show ?thesis using rest [of bs] by (cases e) auto
    qed
  next
    case False
    then show ?thesis using Cons.prems ask by (cases before) (auto simp: Let_def)
  qed
qed auto

lemma coverage_named: "note \<in> set ns \<Longrightarrow> PublicError (Some note) \<in> set seen \<or> job_error d ''coverage'' (PublicError (Some note)) \<in> set (coverage_errors d seen ns)"
  by (induction d seen ns rule: coverage_errors.induct) (auto simp: Let_def)

lemma names_jobI: "job_error d scope message \<in> set (resp_errors r) \<Longrightarrow> names_job r d scope message"
  unfolding names_job_def by (rule bexI [of _ "job_error d scope message"]) (simp_all add: job_error_def)

text \<open>Positions kept but for their prices and values count what they counted.\<close>

lemma bare_component_source: "bare_component c = bare_component d \<Longrightarrow> comp_source c = comp_source d"
  by (drule arg_cong [of _ _ comp_source]) (simp add: bare_component_def)

lemma bare_group_parts:
  assumes "bare_group g = bare_group h"
  shows "grp_metadata g = grp_metadata h" and "map bare_component (grp_components g) = map bare_component (grp_components h)"
  using arg_cong [OF assms, of grp_metadata] arg_cong [OF assms, of grp_components] by (simp_all add: bare_group_def)

lemma bare_snapshot_parts:
  assumes "bare_snapshot s = bare_snapshot t"
  shows "snap_protocol s = snap_protocol t" "snap_name s = snap_name t" "snap_chain s = snap_chain t" "snap_account s = snap_account t"
    "snap_block s = snap_block t" "map bare_group (snap_groups s) = map bare_group (snap_groups t)"
  using arg_cong [OF assms, of snap_protocol] arg_cong [OF assms, of snap_name] arg_cong [OF assms, of snap_chain] arg_cong [OF assms, of snap_account]
    arg_cong [OF assms, of snap_block] arg_cong [OF assms, of snap_groups] by (simp_all add: bare_snapshot_def)

lemma map_member: "map f xs = map f ys \<Longrightarrow> x \<in> set xs \<Longrightarrow> \<exists>y \<in> set ys. f y = f x"
  by (metis (no_types, lifting) imageE image_eqI list.set_map)

lemma double_counted_bare:
  assumes "double_counted ss sg" and "\<And>p. p \<in> set ss \<Longrightarrow> snap_protocol p \<noteq> ''wallet'' \<Longrightarrow> \<exists>q \<in> set ts. bare_snapshot q = bare_snapshot p"
  shows "double_counted ts sg"
proof -
  obtain s g where sg: "sg = (s, g)" by fastforce
  obtain c p h d a where parts: "snap_protocol s = ''wallet''" "map_of (grp_metadata g) ''holding'' = Some (MetaString ''token'')"
      "grp_components g = [c]" "owned_by s g a" "p \<in> set ss" "snap_protocol p \<noteq> ''wallet''" "snap_chain p = snap_chain s"
      "h \<in> set (snap_groups p)" "owned_by p h a" "d \<in> set (grp_components h)" "counts_balance (comp_source d) (tok_address (comp_token c))"
    using assms(1) unfolding sg double_counted_def prod.case by blast
  obtain q where q: "q \<in> set ts" "bare_snapshot q = bare_snapshot p" using assms(2) [OF parts(5,6)] by blast
  note same = bare_snapshot_parts [OF q(2)]
  obtain h' where h': "h' \<in> set (snap_groups q)" "bare_group h' = bare_group h" using map_member [OF same(6) [symmetric] parts(8)] by blast
  obtain d' where d': "d' \<in> set (grp_components h')" "bare_component d' = bare_component d"
    using map_member [OF bare_group_parts(2) [OF h'(2), symmetric] parts(10)] by blast
  have "owned_by q h' a" using parts(9) same(4) bare_group_parts(1) [OF h'(2)] by (simp add: owned_by_def)
  moreover have "counts_balance (comp_source d') (tok_address (comp_token c))" using parts(11) bare_component_source [OF d'(2)] by simp
  ultimately show ?thesis
    using parts(1-4,6,7) q(1) same(1,3) h'(1) d'(1) unfolding sg double_counted_def prod.case by metis
qed

text \<open>Reading a deployment reports it.\<close>

lemma contribution_reported:
  assumes scan: "map_of scans (dep_chain d) = Some s" and active: "registered_ActiveAt (dep_registered d) (dep_chain d) (block_number (cs_block s))"
    and errors: "set (fst (contribution w root_address scans d)) \<subseteq> set (resp_errors r)"
    and snaps: "\<And>sg. sg \<in> set (placed_groups (snd (contribution w root_address scans d))) \<Longrightarrow>
      (\<exists>t \<in> set (resp_snapshots r). \<exists>t'. bare_snapshot t = bare_snapshot t' \<and> t'\<lparr>snap_groups := []\<rparr> = fst sg \<and> snd sg \<in> set (snap_groups t'))
      \<or> double_counted (resp_snapshots r) sg"
  shows "job_reported w root_address r d s"
proof -
  obtain groups err where run: "read_accounts (w_hex w) (is_wallet d) (ask_account w d s) root_address [] None (cs_accounts s) = (groups, err)" by fastforce
  have contributed: "contribution w root_address scans d =
      (position_errors w d err @ coverage_errors d [] (w_coverage w (info_id (dep_info d)) (dep_chain d)) @ wallet_errors w d s,
       if groups = [] then [] else [job_snapshot d s root_address groups])"
    by (simp add: contribution_def scan active run)
  have wallet: "is_wallet d \<longleftrightarrow> info_id (dep_info d) = ''wallet''" by (simp add: is_wallet_def walletProtocolID_def)
  have shown: "group_accounted (w_hex w) root_address r d s account g"
    if g: "(if att_address account = root_address then g else attributed_group (w_hex w) account g) \<in> set groups" for account g
  proof -
    let ?g = "if att_address account = root_address then g else attributed_group (w_hex w) account g"
    have "(job_snapshot d s root_address [], ?g) \<in> set (placed_groups (snd (contribution w root_address scans d)))"
      using g by (auto simp: contributed placed_groups_def job_snapshot_def)
    from snaps [OF this] show ?thesis
    proof
      assume "\<exists>t \<in> set (resp_snapshots r). \<exists>t'. bare_snapshot t = bare_snapshot t' \<and> t'\<lparr>snap_groups := []\<rparr> = fst (job_snapshot d s root_address [], ?g)
        \<and> snd (job_snapshot d s root_address [], ?g) \<in> set (snap_groups t')"
      then obtain t t' where t: "t \<in> set (resp_snapshots r)" "bare_snapshot t = bare_snapshot t'"
          "t'\<lparr>snap_groups := []\<rparr> = job_snapshot d s root_address []" "?g \<in> set (snap_groups t')" by auto
      note same = bare_snapshot_parts [OF t(2)]
      have header: "snap_protocol t' = info_id (dep_info d) \<and> snap_name t' = info_name (dep_info d) \<and> snap_chain t' = dep_chain d
          \<and> snap_account t' = root_address \<and> snap_block t' = cs_block s"
        using arg_cong [OF t(3), of snap_protocol] arg_cong [OF t(3), of snap_name] arg_cong [OF t(3), of snap_chain]
          arg_cong [OF t(3), of snap_account] arg_cong [OF t(3), of snap_block] by (simp add: job_snapshot_def)
      obtain h where "h \<in> set (snap_groups t)" "bare_group h = bare_group ?g" using map_member [OF same(6) [symmetric] t(4)] by blast
      then have "bare_group ?g \<in> bare_group ` set (snap_groups t)" by (metis image_eqI)
      then show ?thesis using t(1) same(1-5) header unfolding group_accounted_def Let_def by metis
    qed (simp add: group_accounted_def Let_def)
  qed
  have account: "(\<forall>g \<in> set (fst (ask_account w d s (att_address account))). group_accounted (w_hex w) root_address r d s account g)
      \<and> (snd (ask_account w d s (att_address account)) \<noteq> None \<longrightarrow>
          (if w_read_stopped w (info_id (dep_info d)) (dep_chain d) then names_job r d ''incomplete'' ''stopped before it finished reading''
           else (\<exists>err. names_job r d ''protocol'' (PublicError (Some err)))))"
    if reached: "cs_accounts s = before @ account # later"
      "info_id (dep_info d) = ''wallet'' \<or> (\<forall>b \<in> set before. snd (ask_account w d s (att_address b)) = None)" for before account later
  proof -
    have in_groups: "set (attributedGroups (w_hex w) (fst (ask_account w d s (att_address account))) account root_address) \<subseteq> set groups"
        and failed: "snd (ask_account w d s (att_address account)) \<noteq> None \<longrightarrow> err \<noteq> None"
      using read_accounts_reach [OF run, of before account later] reached wallet by blast+
    have "group_accounted (w_hex w) root_address r d s account g" if "g \<in> set (fst (ask_account w d s (att_address account)))" for g
      using in_groups that by (intro shown) (auto simp: attributedGroups_def split: if_splits)
    moreover have "if w_read_stopped w (info_id (dep_info d)) (dep_chain d) then names_job r d ''incomplete'' ''stopped before it finished reading''
        else (\<exists>err. names_job r d ''protocol'' (PublicError (Some err)))" if "err \<noteq> None"
    proof -
      obtain e where e: "err = Some e" using \<open>err \<noteq> None\<close> by blast
      have "set (position_errors w d err) \<subseteq> set (resp_errors r)" using errors by (simp add: contributed)
      then show ?thesis unfolding e position_errors_def option.case incompleteScope_def stoppedMessage_def
        using names_jobI [of d _ _ r] by (auto split: if_splits)
    qed
    ultimately show ?thesis using failed by blast
  qed
  have noted: "names_job r d ''coverage'' (PublicError (Some msg))" if "msg \<in> set (w_coverage w (info_id (dep_info d)) (dep_chain d))" for msg
    using coverage_named [OF that, of "[]" d] errors by (intro names_jobI) (auto simp: contributed)
  have issues: "info_id (dep_info d) = ''wallet'' \<longrightarrow>
        (\<forall>issue \<in> set (cs_wallet_errors s). names_job r d ''protocol'' (PublicError (Some (issue_error (w_hex w) issue))))
        \<and> (\<forall>issue \<in> set (cs_wallet_coverage s). names_job r d ''coverage'' (PublicError (Some (issue_error (w_hex w) issue))))"
  proof
    assume "info_id (dep_info d) = ''wallet''"
    then have "set (map (\<lambda>i. job_error d ''protocol'' (PublicError (Some (issue_error (w_hex w) i)))) (cs_wallet_errors s)
        @ map (\<lambda>i. job_error d ''coverage'' (PublicError (Some (issue_error (w_hex w) i)))) (cs_wallet_coverage s)) \<subseteq> set (resp_errors r)"
      using errors by (simp add: contributed wallet_errors_def wallet)
    then show "(\<forall>issue \<in> set (cs_wallet_errors s). names_job r d ''protocol'' (PublicError (Some (issue_error (w_hex w) issue))))
        \<and> (\<forall>issue \<in> set (cs_wallet_coverage s). names_job r d ''coverage'' (PublicError (Some (issue_error (w_hex w) issue))))"
      by (auto intro!: names_jobI)
  qed
  show ?thesis unfolding job_reported_def using account noted issues by blast
qed

lemma read_or_unread: "d \<in> set ds \<Longrightarrow> d \<notin> set (read_jobs w ds) \<Longrightarrow> d \<in> set (unread_jobs w ds)"
proof -
  assume d: "d \<in> set ds" and unread: "d \<notin> set (read_jobs w ds)"
  have "set (filter (\<lambda>d. \<not> is_wallet d) ds) = set (take (w_dispatched w) (filter (\<lambda>d. \<not> is_wallet d) ds))
      \<union> set (drop (w_dispatched w) (filter (\<lambda>d. \<not> is_wallet d) ds))"
    unfolding set_append [symmetric] append_take_drop_id ..
  then show ?thesis using d unread by (cases "is_wallet d") (auto simp: read_jobs_def unread_jobs_def split: if_splits)
qed

lemma all_read:
  assumes "d \<in> set ds" "length ds \<le> w_dispatched w" "\<not> w_discovery_stopped w"
  shows "d \<in> set (read_jobs w ds)"
proof -
  have "length (filter (\<lambda>d. \<not> is_wallet d) ds) \<le> w_dispatched w" using assms(2) length_filter_le le_trans by blast
  then show ?thesis using assms(1,3) by (simp add: read_jobs_def)
qed

lemma deployments_bound: "length (concat (map (deployments_of table options scans) adapters)) \<le> sum_list (map (\<lambda>a. length (info_chains (adapter_info a))) adapters)"
proof (induction adapters)
  case (Cons a as)
  have "length (deployments_of table options scans a) \<le> length (info_chains (adapter_info a))" by (simp add: deployments_of_def)
  then show ?case using Cons by simp
qed simp

lemma scan_response:
  assumes "ScanWithOptions e w options root_address job_order setup_order = Inr r"
    and "scan_deployments e options (chain_scans_of e w options) = Inr ds"
    and "mset (job_order (read_jobs w ds)) = mset (read_jobs w ds)"
    and "mset (setup_order (setup_errors e w options)) = mset (setup_errors e w options)"
  defines "contributed \<equiv> \<lambda>d. contribution w root_address (job_scans w root_address (chain_scans_of e w options) d) d"
  shows "set (setup_errors e w options) \<subseteq> set (resp_errors r)"
    and "set (unread_errors w (chain_scans_of e w options) ds) \<subseteq> set (resp_errors r)"
    and "d \<in> set (read_jobs w ds) \<Longrightarrow> set (fst (contributed d)) \<subseteq> set (resp_errors r)"
    and "d \<in> set (read_jobs w ds) \<Longrightarrow> sg \<in> set (placed_groups (snd (contributed d))) \<Longrightarrow>
      (\<exists>t \<in> set (resp_snapshots r). \<exists>t'. bare_snapshot t = bare_snapshot t' \<and> t'\<lparr>snap_groups := []\<rparr> = fst sg \<and> snd sg \<in> set (snap_groups t'))
      \<or> double_counted (resp_snapshots r) sg"
    and "resp_blocks r c = map_option (block_number \<circ> cs_block) (map_of (chain_scans_of e w options) c)"
proof -
  let ?scans = "chain_scans_of e w options"
  let ?errors = "setup_order (setup_errors e w options) @ concat (map (fst \<circ> contributed) (job_order (read_jobs w ds))) @ unread_errors w ?scans ds"
  let ?snaps = "concat (map (snd \<circ> contributed) (job_order (read_jobs w ds)))"
  have r: "r = finish_scan w (new_response e options root_address ?scans) ?errors ?snaps"
    using assms(1,2) by (simp add: ScanWithOptions_def Let_def comp_def contributed_def)
  have reads: "set (job_order (read_jobs w ds)) = set (read_jobs w ds)" using mset_eq_setD [OF assms(3)] .
  have errors: "set ?errors \<subseteq> set (resp_errors r)" unfolding r by (rule finish_scan_errors)
  then show "set (setup_errors e w options) \<subseteq> set (resp_errors r)" using mset_eq_setD [OF assms(4)] by simp
  show "set (unread_errors w ?scans ds) \<subseteq> set (resp_errors r)" using errors by simp
  show "set (fst (contributed d)) \<subseteq> set (resp_errors r)" if "d \<in> set (read_jobs w ds)" using errors reads that by auto
  have snaps: "bare_snapshot ` set (resp_snapshots r) = bare_snapshot ` set (suppressDuplicateHoldings ?snaps)"
  proof -
    have "set (map bare_snapshot (resp_snapshots r)) = set (map bare_snapshot (sort_key snap_key (suppressDuplicateHoldings ?snaps)))"
      unfolding r finish_scan_snaps ..
    then show ?thesis by simp
  qed
  have kept: "\<exists>q \<in> set (resp_snapshots r). bare_snapshot q = bare_snapshot p" if "p \<in> set (suppressDuplicateHoldings ?snaps)" for p
    using snaps that by (metis imageE image_eqI)
  show "(\<exists>t \<in> set (resp_snapshots r). \<exists>t'. bare_snapshot t = bare_snapshot t' \<and> t'\<lparr>snap_groups := []\<rparr> = fst sg \<and> snd sg \<in> set (snap_groups t'))
      \<or> double_counted (resp_snapshots r) sg"
    if d: "d \<in> set (read_jobs w ds)" and sg: "sg \<in> set (placed_groups (snd (contributed d)))"
  proof (cases "double_counted ?snaps sg")
    case True
    then have "double_counted (resp_snapshots r) sg"
      by (rule double_counted_bare) (use kept suppress_keeps [unfolded walletProtocolID_def] in blast)
    then show ?thesis ..
  next
    case False
    have "sg \<in> set (placed_groups ?snaps)" using d sg reads by (auto simp: placed_groups_def)
    then have "sg \<in> set (placed_groups (suppressDuplicateHoldings ?snaps))" using False by (simp add: suppressed_groups)
    then obtain t' g where t': "t' \<in> set (suppressDuplicateHoldings ?snaps)" "g \<in> set (snap_groups t')" "sg = (t'\<lparr>snap_groups := []\<rparr>, g)"
      by (auto simp: placed_groups_def)
    then show ?thesis using kept [OF t'(1)] by auto
  qed
  show "resp_blocks r c = map_option (block_number \<circ> cs_block) (map_of ?scans c)" unfolding r finish_scan_blocks by (simp add: new_response_def)
qed

text \<open>C2: a scan leaves nothing out in silence. Of the supported chains, each one the scan asked for is pinned at the block
  the response gives or named by an error: as disabled, where it was asked for by name; as without an RPC URL; with
  the failure of its dialling, pinning or account scope; or as not set up before the scan stopped. Every deployment,
  the wallet's included, of a selected adapter on a chain so read, at a pin the availability table opens, was read,
  with every group of the accounts it reached in the response (a holding of the wallet a position in the response
  counts apart) and an error for every failure, note and discovery issue; or an error says it was not read, which
  happens only when dispatching or discovery stopped.\<close>

theorem scan_accounts_for_everything:
  assumes "NewEngineWithConfig urls adapters table lag disabled workers = Some e"
    and "ScanWithOptions e w options root_address job_order setup_order = Inr r"
    and "\<And>ds. mset (job_order ds) = mset ds" and "\<And>errs. mset (setup_order errs) = mset errs"
  shows "list_all (chain_accounted e w options r) SupportedChainIDs
     \<and> list_all (\<lambda>a. list_all (deployment_accounted table (sum_list (map (\<lambda>a. length (info_chains (adapter_info a))) adapters))
         e w options root_address r a) (info_chains (adapter_info a))) adapters"
proof -
  let ?scans = "chain_scans_of e w options" and ?n = "sum_list (map (\<lambda>a. length (info_chains (adapter_info a))) adapters)"
  define ds where "ds = concat (map (deployments_of table options ?scans) adapters)"
  have total: "scan_deployments e options ?scans = Inr ds" unfolding ds_def by (rule scan_deployments_total [OF assms(1)])
  note response = scan_response [OF assms(2) total assms(3) assms(4)]
  have chains: "chain_accounted e w options r c" if "c \<in> set SupportedChainIDs" for c
    using that response(1,5) by (rule chain_is_accounted)
  have "deployment_accounted table ?n e w options root_address r a c" if a: "a \<in> set adapters" "c \<in> set (info_chains (adapter_info a))" for a c
    unfolding deployment_accounted_def
  proof (intro allI impI, elim conjE)
    fix block accounts
    assume c: "c \<in> set SupportedChainIDs" "c \<notin> set (eng_disabled e)" "eng_rpcURLs e c \<noteq> []"
        "opt_chains options = [] \<or> c \<in> set (opt_chains options)"
        "opt_protocols options = [] \<or> info_id (adapter_info a) \<in> set (opt_protocols options)" "chain_reads e w options c block accounts"
      and opens: "list_ex (\<lambda>win. configured win \<and> ActivationBlock (window_bounds win) \<le> block_number block
            \<and> (DeactivationBlock (window_bounds win) = 0 \<or> block_number block \<le> DeactivationBlock (window_bounds win)))
          (windows_of (table_of table (info_id (adapter_info a))) c)"
    let ?d = "\<lparr>dep_registered = registered_of table a, dep_chain = c\<rparr>"
    let ?fresh = "\<lparr>cs_block = block, cs_accounts = accounts, cs_wallet_errors = [], cs_wallet_coverage = [], cs_provider_accounts = None\<rparr>"
    have set_up: "setup_chain e w options c = SetUp ?fresh"
      using c by (intro chain_reads_set_up) (simp_all add: includesChain_def chainDisabled_def)
    then have scan: "map_of ?scans c = Some ?fresh" using c(1) by (simp add: chain_scans_of_map)
    then have "?d \<in> set (deployments_of table options ?scans a)" using c(4,5) a(2) by (simp add: deployments_of_def includesChain_def includesProtocol_def)
    then have d: "?d \<in> set ds" using a(1) by (auto simp: ds_def)
    have info: "dep_info ?d = adapter_info a" by (simp add: registered_of_def)
    have active: "registered_ActiveAt (dep_registered ?d) (dep_chain ?d) (block_number block)"
      using opens unfolding registered_ActiveAt_def registered_of_def list_ex_iff window_ActiveAt_def deployment_ActiveAt_def by force
    obtain s where s: "map_of (job_scans w root_address ?scans ?d) c = Some s" "cs_block s = block" "cs_accounts s = accounts"
        "info_id (adapter_info a) \<noteq> ''wallet'' \<Longrightarrow> s = ?fresh"
        "info_id (adapter_info a) = ''wallet'' \<Longrightarrow> map_of (configureWalletBalances (w_hex w) (w_wallet_provider w) root_address ?scans) c = Some s"
    proof (cases "info_id (adapter_info a) = ''wallet''")
      case True
      obtain s where "map_of (configureWalletBalances (w_hex w) (w_wallet_provider w) root_address ?scans) c = Some s" "grows ?fresh s"
        using configured_scan [OF scan] by blast
      then show ?thesis using True by (intro that [of s]) (simp_all add: job_scans_def is_wallet_def registered_of_def walletProtocolID_def grows_def)
    next
      case False
      then show ?thesis using scan by (intro that [of ?fresh]) (simp_all add: job_scans_def is_wallet_def registered_of_def walletProtocolID_def)
    qed
    show "let d = ?d; fresh = ?fresh in
        (if info_id (adapter_info a) = ''wallet'' then
           (\<exists>s. map_of (configureWalletBalances (w_hex w) (w_wallet_provider w) root_address ?scans) c = Some s
             \<and> cs_block s = block \<and> cs_accounts s = accounts \<and> job_reported w root_address r d s)
         else job_reported w root_address r d fresh)
        \<or> (names_job r d ''incomplete'' ''not read before the scan stopped'' \<and> (w_dispatched w < ?n \<or> w_discovery_stopped w))"
    proof (cases "?d \<in> set (read_jobs w ds)")
      case True
      have "job_reported w root_address r ?d s"
        by (rule contribution_reported [OF _ _ response(3) [OF True] response(4) [OF True]]) (use s(1,2) active in simp_all)
      then show ?thesis using s(2-5) by auto
    next
      case False
      have "active_job ?scans ?d" using scan active by (simp add: active_job_def)
      then have "job_error ?d incompleteScope notReadMessage \<in> set (resp_errors r)"
        using read_or_unread [OF d False] response(2) by (auto simp: unread_errors_def)
      then have "names_job r ?d ''incomplete'' ''not read before the scan stopped''"
        unfolding incompleteScope_def notReadMessage_def by (rule names_jobI)
      moreover have "w_dispatched w < ?n \<or> w_discovery_stopped w"
        using all_read [OF d, of w] False deployments_bound [of table options ?scans adapters] unfolding ds_def [symmetric] by linarith
      ultimately show ?thesis by simp
    qed
  qed
  then show ?thesis using chains by (simp add: list_all_iff)
qed

section \<open>An engine at work\<close>

text \<open>One protocol on two chains; the dialled clients pin block 9 and read the account itself.\<close>

definition demo_adapter :: adapter where
  "demo_adapter = \<lparr>adapter_info = \<lparr>info_id = ''demo'', info_name = ''Demo'', info_chains = [Ethereum, Base]\<rparr>,
     adapter_positions = (\<lambda>b a. ([], Some (PlainError ''down'')))\<rparr>"

definition demo_table :: availability_table where
  "demo_table = [(''demo'', [(Ethereum, [\<lparr>window_bounds = \<lparr>ActivationBlock = 1, DeactivationBlock = 0\<rparr>, configured = True\<rparr>]),
     (Base, [\<lparr>window_bounds = \<lparr>ActivationBlock = 1, DeactivationBlock = 0\<rparr>, configured = True\<rparr>])])]"

definition demo_client :: "chain_id \<Rightarrow> chain_client" where
  "demo_client c = \<lparr>cn_settled = (\<lambda>_. Inr \<lparr>block_chain = c, block_number = 9, block_hash = 1, block_timestamp = 1, block_fixed = False\<rparr>),
     cn_block = (\<lambda>_. Inl (PlainError ''no block'')), cn_scope = (\<lambda>_. Inr [direct_account 5])\<rparr>"

definition demo_world :: scan_world where
  "demo_world = \<lparr>w_dial = (\<lambda>c. Inr (demo_client c)), w_wallet_groups = (\<lambda>_ _ _ _. ([], None)), w_wallet_provider = None,
     w_prices = None, w_coverage = (\<lambda>_ _. []), w_setup_stopped = (\<lambda>_. False), w_read_stopped = (\<lambda>_ _. False),
     w_dispatched = 1, w_discovery_stopped = False, w_pricing_ended = False, w_hex = address_hex, w_valuation_text = (\<lambda>_. [])\<rparr>"

definition demo_urls :: "chain_id \<Rightarrow> string" where
  "demo_urls c = (if c = Ethereum \<or> c = Base then ''https://node'' else [])"

lemma demo_engine: "\<exists>e. NewEngineWithConfig demo_urls [demo_adapter] demo_table 0 [] 0 = Some e"
  by (simp add: NewEngineWithConfig_def mustRegisterAdapters_def registerAdapters_def register_adapter_def table_of_def
      demo_adapter_def demo_table_def windows_of_def check_window_def chain_defs Let_def)

theorem scan_order_irrelevant_witness:
  "\<exists>e. NewEngineWithConfig demo_urls [demo_adapter] demo_table 0 [] 0 = Some e
     \<and> (\<forall>options. ScanWithOptions e demo_world options 5 rev rev = ScanWithOptions e demo_world options 5 id id)"
proof -
  obtain e where e: "NewEngineWithConfig demo_urls [demo_adapter] demo_table 0 [] 0 = Some e" using demo_engine by blast
  have ids: "[] \<notin> (info_id \<circ> adapter_info) ` set [demo_adapter]" by (simp add: demo_adapter_def)
  have "ScanWithOptions e demo_world options 5 rev rev = ScanWithOptions e demo_world options 5 id id" for options
    by (rule scan_order_irrelevant [OF e ids _ _ scan_deployments_total [OF e]]) simp_all
  with e show ?thesis by blast
qed

theorem scan_accounts_for_everything_witness:
  "\<exists>e r. NewEngineWithConfig demo_urls [demo_adapter] demo_table 0 [] 0 = Some e
     \<and> ScanWithOptions e demo_world \<lparr>opt_protocols = [], opt_chains = [], opt_blocks = Map.empty\<rparr> 5 rev rev = Inr r
     \<and> list_all (chain_accounted e demo_world \<lparr>opt_protocols = [], opt_chains = [], opt_blocks = Map.empty\<rparr> r) SupportedChainIDs"
proof -
  let ?options = "\<lparr>opt_protocols = [], opt_chains = [], opt_blocks = Map.empty\<rparr>"
  obtain e where e: "NewEngineWithConfig demo_urls [demo_adapter] demo_table 0 [] 0 = Some e" using demo_engine by blast
  obtain r where r: "ScanWithOptions e demo_world ?options 5 rev rev = Inr r"
    using scan_deployments_total [OF e, of ?options "chain_scans_of e demo_world ?options"] by (simp add: ScanWithOptions_def Let_def)
  have "list_all (chain_accounted e demo_world ?options r) SupportedChainIDs"
    by (rule conjunct1 [OF scan_accounts_for_everything [OF e r]]) simp_all
  with e r show ?thesis by blast
qed

end
