(* ===== verification/Checkpoint.thy ===== *)
theory Checkpoint
  imports ProcessorStatus
begin

text \<open>
  \<open>sentio_checkpoint.go\<close>: the block an index read asks at, and the validation of the checkpoint that
  certifies it. Times are words as in Go: seconds and milliseconds unsigned, durations signed
  nanoseconds of 64 bits.
\<close>

datatype index_error = StatusFailed status_error | StatusOmitted chain_id
  | BackfillIncomplete chain_id string u64 u64 | ShortOfPin chain_id u64 u64
  | AheadOfPin u64 u64 | CheckpointTimeAhead | StaleCheckpoint u64
  | NoStream | EntityTwice string | NoRowBound string | BadRowType string
  | GraphQLFailed go_error | CheckpointsOmitted | CheckpointsMalformed | ManyCheckpoints nat
  | InvalidCheckpointBlock string | InvalidCheckpointTime string | NoCheckpoint | StartUnread u64 go_error
  | AheadOfQuery u64 u64 | CheckpointChanged
  | RowsOmitted string | RowsMalformed string | PageTooLong nat string nat | RowWithoutID string
  | ForeignRow string string | RowsNotOrdered string | RowRejected go_error | TooManyRows int string
  | LookupOutsideRead

section \<open>The block of a read\<close>

definition accept_status :: "block_ref \<Rightarrow> chain_statuses \<Rightarrow> index_error + chain_statuses \<times> u64" where
  "accept_status block statuses = (case statuses (block_chain block) of
       None \<Rightarrow> Inl (StatusOmitted (block_chain block))
     | Some st \<Rightarrow>
         if st_state st \<noteq> ''PROCESSING_LATEST''
           then Inl (BackfillIncomplete (block_chain block) (st_state st) (st_processed st) (st_latest st))
         else if block_fixed block \<and> st_processed st < block_number block
           then Inl (ShortOfPin (block_chain block) (st_processed st) (block_number block))
         else Inr (statuses, min (block_number block) (st_processed st)))"

text \<open>\<open>read force\<close> is the processor status, read again when it trails a fixed pin.\<close>

definition trails_pin :: "block_ref \<Rightarrow> chain_statuses \<Rightarrow> bool" where
  "trails_pin block statuses \<longleftrightarrow> (case statuses (block_chain block) of None \<Rightarrow> False
     | Some st \<Rightarrow> block_fixed block \<and> st_processed st < block_number block)"

definition indexQueryBlock :: "block_ref \<Rightarrow> (bool \<Rightarrow> status_error + chain_statuses) \<Rightarrow> index_error + chain_statuses \<times> u64" where
  "indexQueryBlock block read = (case read False of Inl e \<Rightarrow> Inl (StatusFailed e)
     | Inr statuses \<Rightarrow> if trails_pin block statuses
         then (case read True of Inl e \<Rightarrow> Inl (StatusFailed e) | Inr statuses \<Rightarrow> accept_status block statuses)
         else accept_status block statuses)"

lemma accept_status_sound:
  assumes "accept_status block ss = Inr (statuses, q)"
  shows "\<exists>st. statuses = ss \<and> ss (block_chain block) = Some st \<and> st_state st = ''PROCESSING_LATEST''
      \<and> q = min (block_number block) (st_processed st) \<and> (block_fixed block \<longrightarrow> q = block_number block)"
proof -
  obtain st where st: "ss (block_chain block) = Some st" using assms by (auto simp: accept_status_def split: option.splits)
  then have "st_state st = ''PROCESSING_LATEST''" "\<not> (block_fixed block \<and> st_processed st < block_number block)"
      "statuses = ss" "q = min (block_number block) (st_processed st)"
    using assms by (auto simp: accept_status_def split: if_splits)
  then show ?thesis using st by (auto simp: min_def)
qed

text \<open>An index read asks at the pin or, on a live scan only, at the earlier block the processor
  has reached; it never asks past either, a fixed pin is asked at the pin itself, and only a status
  read anew can fail a fixed pin for trailing it.\<close>

lemma query_block_sound:
  assumes "indexQueryBlock block read = Inr (statuses, q)"
  shows "\<exists>st force. read force = Inr statuses \<and> statuses (block_chain block) = Some st \<and> st_state st = ''PROCESSING_LATEST''
     \<and> q = min (block_number block) (st_processed st) \<and> (block_fixed block \<longrightarrow> q = block_number block)
     \<and> (force \<longrightarrow> (\<exists>early. read False = Inr early \<and> trails_pin block early))"
proof -
  obtain early where early: "read False = Inr early" using assms by (auto simp: indexQueryBlock_def split: sum.splits)
  show ?thesis
  proof (cases "trails_pin block early")
    case True
    then obtain ss where ss: "read True = Inr ss" "accept_status block ss = Inr (statuses, q)"
      using assms early by (auto simp: indexQueryBlock_def split: sum.splits)
    obtain st where "statuses = ss" "ss (block_chain block) = Some st" "st_state st = ''PROCESSING_LATEST''"
        "q = min (block_number block) (st_processed st)" "block_fixed block \<longrightarrow> q = block_number block"
      using accept_status_sound [OF ss(2)] by blast
    then show ?thesis using ss(1) early True by (intro exI [of _ st] exI [of _ True]) simp
  next
    case False
    then have ok: "accept_status block early = Inr (statuses, q)" using assms early by (simp add: indexQueryBlock_def)
    obtain st where "statuses = early" "early (block_chain block) = Some st" "st_state st = ''PROCESSING_LATEST''"
        "q = min (block_number block) (st_processed st)" "block_fixed block \<longrightarrow> q = block_number block"
      using accept_status_sound [OF ok] by blast
    then show ?thesis using early by (intro exI [of _ st] exI [of _ False]) simp
  qed
qed

section \<open>The checkpoint of a read\<close>

definition indexMaxLag :: u64 where
  "indexMaxLag = 3600 * 1000000000"

definition indexBackfillMaxLag :: u64 where
  "indexBackfillMaxLag = (7 * 24 * 3600 + 30 * 60) * 1000000000"

record indexLagNote =
  note_checkpoint :: u64
  note_lag :: u64

definition checkIndexCheckpoint :: "block_ref \<Rightarrow> u64 \<Rightarrow> u64 \<Rightarrow> index_error + indexLagNote option" where
  "checkIndexCheckpoint block checkpointBlock checkpointMS =
     (if checkpointBlock > block_number block then Inl (AheadOfPin checkpointBlock (block_number block))
      else let checkpointSeconds = checkpointMS div 1000 in
        if checkpointSeconds > block_timestamp block + 60 then Inl CheckpointTimeAhead
        else if block_timestamp block \<le> checkpointSeconds then Inr None
        else let lag = (block_timestamp block - checkpointSeconds) * 1000000000 in
          if block_fixed block then
            (if indexBackfillMaxLag <s lag then Inl (StaleCheckpoint lag) else Inr None)
          else if indexMaxLag <s lag then Inr (Some \<lparr>note_checkpoint = checkpointBlock, note_lag = lag\<rparr>)
          else Inr None)"

text \<open>The lag as a number of seconds.\<close>

definition lag_seconds :: "block_ref \<Rightarrow> u64 \<Rightarrow> nat" where
  "lag_seconds block ms = unat (block_timestamp block) - unat ms div 1000"

lemma duration_less:
  assumes "unat s < 9223372036" and "bound < 9223372036"
  shows "(of_nat bound * 1000000000 :: u64) <s s * 1000000000 \<longleftrightarrow> bound < unat s"
proof -
  have "unat (of_nat bound :: u64) = bound" using assms(2) by (simp add: unat_of_nat take_bit_nat_eq_self_iff)
  then have "sint (of_nat bound * 1000000000 :: u64) = int bound * 1000000000"
    using sint_duration [of "of_nat bound"] assms(2) by simp
  then have "(of_nat bound * 1000000000 :: u64) <s s * 1000000000 \<longleftrightarrow> int bound * 1000000000 < int (unat s) * 1000000000"
    unfolding word_sless_alt sint_duration [OF assms(1)] by simp
  then show ?thesis by linarith
qed

text \<open>While times are those of this era (their difference in seconds fits a duration), a
  checkpoint certifies a read exactly when it is not past the pin in block or by more than a minute
  in time and, at a fixed pin, trails it by at most seven days and a half hour; a live read that
  trails by more than an hour is accepted with a note of the checkpoint.\<close>

lemma checkpoint_certified:
  assumes "unat (block_timestamp block) < 9223372036"
  shows "checkIndexCheckpoint block cp ms =
     (if unat cp > unat (block_number block) then Inl (AheadOfPin cp (block_number block))
      else if unat ms div 1000 > unat (block_timestamp block) + 60 then Inl CheckpointTimeAhead
      else if block_fixed block \<and> lag_seconds block ms > 606600
        then Inl (StaleCheckpoint (of_nat (lag_seconds block ms) * 1000000000))
      else if \<not> block_fixed block \<and> lag_seconds block ms > 3600
        then Inr (Some \<lparr>note_checkpoint = cp, note_lag = of_nat (lag_seconds block ms) * 1000000000\<rparr>)
      else Inr None)"
proof -
  have secs: "unat (ms div 1000) = unat ms div 1000" by (simp add: unat_div)
  have later: "unat (block_timestamp block + 60) = unat (block_timestamp block) + 60"
    using assms by (simp add: unat_add_lem [THEN iffD1])
  show ?thesis
  proof (cases "block_timestamp block \<le> ms div 1000")
    case True
    then have "lag_seconds block ms = 0" using secs by (simp add: lag_seconds_def word_le_nat_alt)
    then show ?thesis using True secs later by (simp add: checkIndexCheckpoint_def word_less_nat_alt Let_def)
  next
    case False
    define s where "s = block_timestamp block - ms div 1000"
    have s: "unat s = lag_seconds block ms"
      using False secs by (simp add: s_def lag_seconds_def unat_sub word_le_nat_alt)
    then have small: "unat s < 9223372036" using assms by (simp add: lag_seconds_def)
    have word: "of_nat (lag_seconds block ms) = s" unfolding s [symmetric] by simp
    have fixed_lag: "indexBackfillMaxLag <s s * 1000000000 \<longleftrightarrow> 606600 < lag_seconds block ms"
      using duration_less [OF small, of 606600] s by (simp add: indexBackfillMaxLag_def)
    have live_lag: "indexMaxLag <s s * 1000000000 \<longleftrightarrow> 3600 < lag_seconds block ms"
      using duration_less [OF small, of 3600] s by (simp add: indexMaxLag_def)
    show ?thesis using False secs later fixed_lag live_lag
      by (simp add: checkIndexCheckpoint_def word_less_nat_alt Let_def s_def [symmetric] word)
  qed
qed

end
