(* ===== verification/Index.thy ===== *)
theory Index
  imports Checkpoint
begin

text \<open>
  \<open>sentio_index.go\<close>: one deployed index as the kernel reads it. A read pages its entity streams by
  cursor at one block, holds every page to one checkpoint and certifies that checkpoint. The
  GraphQL endpoint is a parameter: what it answers to the structured query of a page. A stream's rows are
  decoded by the protocol that declared it.
\<close>

section \<open>Where clauses\<close>

datatype index_value = IntValue int | TextValue string | TextsValue "string list"

record indexWhere =
  where_prefix :: string
  where_terms :: "(string \<times> index_value) list"

fun join_with :: "string \<Rightarrow> string list \<Rightarrow> string" where
  "join_with sep [] = []"
| "join_with sep [x] = x"
| "join_with sep (x # y # ys) = x @ sep @ join_with sep (y # ys)"

text \<open>\<open>quoted\<close> renders a string as JSON does.\<close>

fun indexLiteral :: "(string \<Rightarrow> string) \<Rightarrow> index_value \<Rightarrow> string" where
  "indexLiteral quoted (TextValue s) = quoted s"
| "indexLiteral quoted (TextsValue ss) = ''['' @ join_with '', '' (map quoted ss) @ '']''"
| "indexLiteral quoted (IntValue n) = show_int n"

definition renderIndexWhere :: "(string \<Rightarrow> string) \<Rightarrow> indexWhere \<Rightarrow> string \<Rightarrow> string" where
  "renderIndexWhere quoted clause after = join_with '', ''
     (map (\<lambda>(field, v). field @ '': '' @ indexLiteral quoted v) (where_terms clause)
      @ (if where_prefix clause \<noteq> [] then [''id_starts_with: '' @ quoted (where_prefix clause)] else [])
      @ (if after \<noteq> [] then [''id_gt: '' @ quoted after] else []))"

text \<open>\<open>indexAccountPrefix\<close>: the prefix of every row an index keys by account on a chain.\<close>

definition indexAccountPrefix :: "(address \<Rightarrow> string) \<Rightarrow> chain_id \<Rightarrow> address \<Rightarrow> string" where
  "indexAccountPrefix addr_hex c a = show_u64 c @ '':'' @ ToLower (addr_hex a) @ '':''"

section \<open>Checkpoint rows\<close>

record checkpoint_row =
  row_block :: string
  row_ms :: string

record indexCheckpoint =
  cp_written :: bool
  cp_block :: u64
  cp_ms :: u64

datatype checkpoint_rows = CheckpointsAbsent | CheckpointsGarbled | CheckpointRows "checkpoint_row list"

definition parseIndexCheckpoint :: "checkpoint_row list option \<Rightarrow> index_error + indexCheckpoint" where
  "parseIndexCheckpoint decoded = (case decoded of None \<Rightarrow> Inl CheckpointsMalformed
     | Some [] \<Rightarrow> Inr \<lparr>cp_written = False, cp_block = 0, cp_ms = 0\<rparr>
     | Some [r] \<Rightarrow> (case parse_uint64 (row_block r) of None \<Rightarrow> Inl (InvalidCheckpointBlock (row_block r))
         | Some block \<Rightarrow> (case parse_uint64 (row_ms r) of None \<Rightarrow> Inl (InvalidCheckpointTime (row_ms r))
             | Some ms \<Rightarrow> Inr \<lparr>cp_written = True, cp_block = block, cp_ms = ms\<rparr>))
     | Some (r # s # rs) \<Rightarrow> Inl (ManyCheckpoints (length (r # s # rs))))"

definition pageCheckpoint :: "checkpoint_rows \<Rightarrow> index_error + indexCheckpoint" where
  "pageCheckpoint rows = (case rows of CheckpointsAbsent \<Rightarrow> Inl CheckpointsOmitted
     | CheckpointsGarbled \<Rightarrow> parseIndexCheckpoint None
     | CheckpointRows rs \<Rightarrow> parseIndexCheckpoint (Some rs))"

section \<open>Streams and cursors\<close>

definition indexPageSize :: int where
  "indexPageSize = 500"

text \<open>
  A stream of one entity on the chain being read: its clause, its row bound, and its \<open>take\<close>, which
  decodes one row. \<open>stream_bad_type\<close> names the field \<open>jsonFields\<close> refuses, if any.
\<close>

record ('r, 'v) index_stream =
  stream_entity :: string
  stream_account :: address
  stream_where :: indexWhere
  stream_max :: int
  stream_bad_type :: "string option"
  stream_take :: "string \<Rightarrow> 'r \<Rightarrow> go_error + 'v"

record ('r, 'v) indexCursor =
  cur_stream :: "('r, 'v) index_stream"
  cur_after :: string
  cur_rows :: int
  cur_done :: bool
  cur_taken :: "'v list"

definition cursor_first :: "('r, 'v) indexCursor \<Rightarrow> int" where
  "cursor_first c = min indexPageSize (stream_max (cur_stream c) + 1 - cur_rows c)"

text \<open>A row's identity, if it has one, with its raw body; the rows of one entity in a page.\<close>

datatype 'r page_rows = RowsAbsent | RowsGarbled | Rows "(string option \<times> 'r) list"

record 'r index_page =
  page_checkpoints :: checkpoint_rows
  page_rows :: "string \<Rightarrow> 'r page_rows"

text \<open>What a page asks of each open stream: the entity, how many rows, after which identity.\<close>

type_synonym page_request = "(string \<times> int \<times> indexWhere \<times> string) list"

definition page_request :: "('r, 'v) indexCursor list \<Rightarrow> page_request" where
  "page_request cursors = map (\<lambda>c. (stream_entity (cur_stream c), cursor_first c, stream_where (cur_stream c), cur_after c))
     (filter (\<lambda>c. \<not> cur_done c) cursors)"

text \<open>\<open>page\<close>: rows admitted one by one, then the bound, then whether the stream has ended.\<close>

fun admit_rows :: "('r, 'v) indexCursor \<Rightarrow> (string option \<times> 'r) list \<Rightarrow> index_error + ('r, 'v) indexCursor" where
  "admit_rows c [] = Inr c"
| "admit_rows c ((row_id, raw) # rows) = (let entity = stream_entity (cur_stream c) in
     case row_id of None \<Rightarrow> Inl (RowWithoutID entity)
     | Some i \<Rightarrow>
         if i = [] then Inl (RowWithoutID entity)
         else if \<not> is_prefix (where_prefix (stream_where (cur_stream c))) i then Inl (ForeignRow entity i)
         else if i \<le> cur_after c then Inl (RowsNotOrdered entity)
         else (case stream_take (cur_stream c) i raw of Inl e \<Rightarrow> Inl (RowRejected e)
           | Inr v \<Rightarrow> admit_rows (c\<lparr>cur_after := i, cur_rows := cur_rows c + 1, cur_taken := cur_taken c @ [v]\<rparr>) rows))"

definition cursor_page :: "(string \<Rightarrow> 'r page_rows) \<Rightarrow> ('r, 'v) indexCursor \<Rightarrow> index_error + ('r, 'v) indexCursor" where
  "cursor_page answer c = (let entity = stream_entity (cur_stream c); first = cursor_first c in
     case answer entity of RowsAbsent \<Rightarrow> Inl (RowsOmitted entity) | RowsGarbled \<Rightarrow> Inl (RowsMalformed entity)
     | Rows rows \<Rightarrow>
         if int (length rows) > first then Inl (PageTooLong (length rows) entity (nat first))
         else bindR (admit_rows c rows) (\<lambda>c'.
           if cur_rows c' > stream_max (cur_stream c') then Inl (TooManyRows (stream_max (cur_stream c')) entity)
           else Inr (c'\<lparr>cur_done := int (length rows) < first\<rparr>)))"

definition page_round :: "(string \<Rightarrow> 'r page_rows) \<Rightarrow> ('r, 'v) indexCursor \<Rightarrow> index_error + ('r, 'v) indexCursor" where
  "page_round answer c = (if cur_done c then Inr c else cursor_page answer c)"

section \<open>Certifying the checkpoint\<close>

text \<open>
  An index: its name, whether it probes, its chains, the start block that stands in for a checkpoint
  not yet written, and the header of that block when a client can read it.
\<close>

record sentio_index =
  ix_name :: string
  ix_probe :: bool
  ix_chains :: "chain_id list"
  ix_start :: "chain_id \<Rightarrow> u64"

definition certify :: "sentio_index \<Rightarrow> (u64 \<Rightarrow> go_error + block_ref) option \<Rightarrow> block_ref \<Rightarrow> u64 \<Rightarrow> indexCheckpoint
    \<Rightarrow> index_error + indexLagNote option" where
  "certify x client block queryBlock cp =
     bindR (if cp_written cp then Inr (cp_block cp, cp_ms cp)
       else let start = ix_start x (block_chain block) in
         case (if start = 0 then None else client) of None \<Rightarrow> Inl NoCheckpoint
         | Some header_at \<Rightarrow> (case header_at start of Inl e \<Rightarrow> Inl (StartUnread start e)
             | Inr header \<Rightarrow> Inr (start, block_timestamp header * 1000)))
       (\<lambda>(cp_at, ms). if cp_at > queryBlock then Inl (AheadOfQuery cp_at queryBlock)
          else checkIndexCheckpoint block cp_at ms)"

section \<open>The pages of a read\<close>

fun check_streams :: "string list \<Rightarrow> ('r, 'v) index_stream list \<Rightarrow> index_error + unit" where
  "check_streams entities [] = Inr ()"
| "check_streams entities (s # ss) = (if stream_entity s \<in> set entities then Inl (EntityTwice (stream_entity s))
     else if stream_max s \<le> 0 then Inl (NoRowBound (stream_entity s))
     else case stream_bad_type s of Some field \<Rightarrow> Inl (BadRowType field)
     | None \<Rightarrow> check_streams (stream_entity s # entities) ss)"

definition start_cursor :: "('r, 'v) index_stream \<Rightarrow> ('r, 'v) indexCursor" where
  "start_cursor s = \<lparr>cur_stream = s, cur_after = where_prefix (stream_where s), cur_rows = 0, cur_done = False, cur_taken = []\<rparr>"

text \<open>
  The loop, with fuel for its rounds: \<open>None\<close> is only its end. \<open>want\<close> is the checkpoint every page must
  carry; without one the first page's is certified and kept.
\<close>

fun page_loop :: "(indexCheckpoint \<Rightarrow> index_error + indexLagNote option) \<Rightarrow> (page_request \<Rightarrow> go_error + 'r index_page)
    \<Rightarrow> nat \<Rightarrow> ('r, 'v) indexCursor list \<Rightarrow> indexCheckpoint option \<Rightarrow> indexLagNote option
    \<Rightarrow> (index_error fault + ('r, 'v) indexCursor list \<times> indexCheckpoint \<times> indexLagNote option) option" where
  "page_loop cert ask 0 cursors want lag = None"
| "page_loop cert ask (Suc fuel) cursors want lag =
     (if list_all cur_done cursors then
        Some (case want of None \<Rightarrow> Inl Panic | Some cp \<Rightarrow> Inr (cursors, cp, lag))
      else case ask (page_request cursors) of Inl e \<Rightarrow> Some (Inl (Fail (GraphQLFailed e)))
      | Inr page \<Rightarrow> (case pageCheckpoint (page_checkpoints page) of Inl e \<Rightarrow> Some (Inl (Fail e))
          | Inr cp \<Rightarrow> (case (case want of None \<Rightarrow> bindR (cert cp) (\<lambda>lag. Inr (cp, lag))
                | Some w \<Rightarrow> if cp \<noteq> w then Inl CheckpointChanged else Inr (w, lag)) of
              Inl e \<Rightarrow> Some (Inl (Fail e))
            | Inr (w, lag) \<Rightarrow> (case mapR (page_round (page_rows page)) cursors of Inl e \<Rightarrow> Some (Inl (Fail e))
                | Inr cursors \<Rightarrow> page_loop cert ask fuel cursors (Some w) lag))))"

text \<open>One round for each row a stream may hold and one past it is always enough.\<close>

definition cursor_left :: "('r, 'v) indexCursor \<Rightarrow> nat" where
  "cursor_left c = (if cur_done c then 0 else nat (stream_max (cur_stream c) + 1 - cur_rows c))"

definition cursors_left :: "('r, 'v) indexCursor list \<Rightarrow> nat" where
  "cursors_left cs = sum_list (map cursor_left cs)"

definition index_pages :: "(indexCheckpoint \<Rightarrow> index_error + indexLagNote option) \<Rightarrow> (page_request \<Rightarrow> go_error + 'r index_page)
    \<Rightarrow> ('r, 'v) index_stream list \<Rightarrow> indexCheckpoint option
    \<Rightarrow> (index_error fault + 'v list list \<times> indexCheckpoint \<times> indexLagNote option) option" where
  "index_pages cert ask streams want = (if streams = [] then Some (Inl (Fail NoStream))
     else case check_streams [] streams of Inl e \<Rightarrow> Some (Inl (Fail e))
     | Inr _ \<Rightarrow> (let cursors = map start_cursor streams in
         map_option (\<lambda>r. bindR r (\<lambda>(cs, cp, lag). Inr (map cur_taken cs, cp, lag)))
           (page_loop cert ask (Suc (cursors_left cursors)) cursors want None)))"

section \<open>Paging ends\<close>

text \<open>A cursor within its bound; a page brings it closer to its end or ends it.\<close>

definition cursor_ok :: "('r, 'v) indexCursor \<Rightarrow> bool" where
  "cursor_ok c \<longleftrightarrow> 0 \<le> cur_rows c \<and> cur_rows c \<le> stream_max (cur_stream c)"

lemma admit_rows_progress: "admit_rows c rows = Inr c' \<Longrightarrow>
    cur_rows c' = cur_rows c + int (length rows) \<and> cur_stream c' = cur_stream c \<and> cur_done c' = cur_done c"
  by (induction c rows rule: admit_rows.induct) (auto simp: Let_def split: option.splits if_splits sum.splits)

lemma cursor_page_progress:
  assumes "cursor_page answer c = Inr c'" and "cursor_ok c" and "\<not> cur_done c"
  shows "cursor_ok c'" and "cursor_left c' < cursor_left c"
proof -
  obtain rows mid where rows: "answer (stream_entity (cur_stream c)) = Rows rows" "int (length rows) \<le> cursor_first c"
      "admit_rows c rows = Inr mid" "cur_rows mid \<le> stream_max (cur_stream mid)"
      "c' = mid\<lparr>cur_done := int (length rows) < cursor_first c\<rparr>"
    using assms(1) by (auto simp: cursor_page_def Let_def bindR_Inr_iff split: page_rows.splits if_splits)
  note mid = admit_rows_progress [OF rows(3)]
  have first: "1 \<le> cursor_first c" using assms(2) by (simp add: cursor_first_def cursor_ok_def indexPageSize_def)
  show "cursor_ok c'" using rows(4,5) mid assms(2) by (simp add: cursor_ok_def)
  show "cursor_left c' < cursor_left c"
    using rows(2,5) mid assms(2,3) first by (auto simp: cursor_left_def cursor_ok_def)
qed

lemma page_rounds_progress:
  assumes "mapR (page_round answer) cs = Inr cs'" and "list_all cursor_ok cs"
  shows "list_all cursor_ok cs' \<and> cursors_left cs' \<le> cursors_left cs
     \<and> (\<not> list_all cur_done cs \<longrightarrow> cursors_left cs' < cursors_left cs)"
  using assms
proof (induction cs arbitrary: cs')
  case (Cons c cs)
  obtain d ds where d: "page_round answer c = Inr d" "mapR (page_round answer) cs = Inr ds" "cs' = d # ds"
    using Cons.prems(1) by (auto simp: bindR_Inr_iff)
  have rest: "list_all cursor_ok ds" "cursors_left ds \<le> cursors_left cs"
      "\<not> list_all cur_done cs \<Longrightarrow> cursors_left ds < cursors_left cs"
    using Cons.IH [OF d(2)] Cons.prems(2) by auto
  show ?case
  proof (cases "cur_done c")
    case True
    then show ?thesis using d rest Cons.prems(2) by (auto simp: page_round_def cursors_left_def)
  next
    case False
    then have "cursor_page answer c = Inr d" using d(1) by (simp add: page_round_def)
    from cursor_page_progress [OF this _ False] show ?thesis using d rest Cons.prems(2)
      by (auto simp: cursors_left_def)
  qed
qed simp

lemma page_loop_ends: "list_all cursor_ok cs \<Longrightarrow> cursors_left cs < fuel \<Longrightarrow> page_loop cert ask fuel cs want lag \<noteq> None"
proof (induction fuel arbitrary: cs want lag)
  case (Suc fuel)
  have "page_loop cert ask fuel cs' w lag' \<noteq> None"
    if "mapR (page_round answer) cs = Inr cs'" "\<not> list_all cur_done cs" for answer cs' w lag'
    using page_rounds_progress [OF that(1) Suc.prems(1)] that(2) Suc.prems(2) Suc.IH [of cs'] by simp
  then show ?case by (auto split: sum.splits prod.splits)
qed simp

lemma check_streams_ok: "check_streams seen ss = Inr u \<longleftrightarrow>
    distinct (map stream_entity ss) \<and> set (map stream_entity ss) \<inter> set seen = {}
    \<and> list_all (\<lambda>s. 0 < stream_max s \<and> stream_bad_type s = None) ss"
  by (induction seen ss rule: check_streams.induct) (auto split: option.splits)

lemma start_cursors_ok: "check_streams [] ss = Inr u \<Longrightarrow> list_all cursor_ok (map start_cursor ss)"
  by (auto simp: check_streams_ok list_all_iff cursor_ok_def start_cursor_def)

lemma page_loop_no_panic:
  fixes cs :: "('r, 'v) indexCursor list"
  shows "want \<noteq> None \<or> \<not> list_all cur_done cs \<Longrightarrow> page_loop cert ask fuel cs want lag \<noteq> Some (Inl Panic)"
proof (induction fuel arbitrary: cs want lag)
  case (Suc fuel)
  have "page_loop cert ask fuel cs' (Some w) lag' \<noteq> Some (Inl Panic)" for cs' :: "('r, 'v) indexCursor list" and w lag'
    using Suc.IH [of "Some w" cs' lag'] by simp
  then show ?case using Suc.prems by (auto split: sum.splits prod.splits option.splits)
qed simp

declare page_loop.simps [simp del]

lemma index_pages_total:
  "index_pages cert ask streams want \<noteq> None \<and> index_pages cert ask streams want \<noteq> Some (Inl Panic)"
proof (cases "streams = [] \<or> isl (check_streams [] streams)")
  case True
  then show ?thesis by (auto simp: index_pages_def split: sum.splits)
next
  case False
  then have ok: "check_streams [] streams = Inr ()" by (cases "check_streams [] streams") auto
  let ?cs = "map start_cursor streams"
  let ?run = "page_loop cert ask (Suc (cursors_left ?cs)) ?cs want None"
  have "?run \<noteq> None" by (rule page_loop_ends [OF start_cursors_ok [OF ok] lessI])
  moreover have "?run \<noteq> Some (Inl Panic)"
    by (rule page_loop_no_panic) (use False in \<open>auto simp: start_cursor_def neq_Nil_conv\<close>)
  ultimately show ?thesis using False ok
    by (auto simp: index_pages_def Let_def bindR_def split: sum.splits)
qed

text \<open>C25: whatever the endpoint answers, a read ends: after at most as many pages as its streams may
  hold rows, and one more for each, it has returned or failed with an error, and it never reads a
  checkpoint it does not have.\<close>

theorem index_pages_end:
  "index_pages cert ask streams want \<noteq> None \<and> index_pages cert ask streams want \<noteq> Some (Inl Panic)"
  by (rule index_pages_total)

section \<open>Paging is complete\<close>

text \<open>
  An endpoint that answers from a store: at the read's block, the rows of an entity a clause selects
  have the clause's prefix and come in strict order of their identities; a page is the first of
  them after the cursor, with the same checkpoint rows every time.
\<close>

type_synonym 'r index_store = "string \<Rightarrow> indexWhere \<Rightarrow> (string \<times> 'r) list"

definition store_ok :: "'r index_store \<Rightarrow> bool" where
  "store_ok rows \<longleftrightarrow> (\<forall>entity clause. sorted_wrt (<) (map fst (rows entity clause))
     \<and> list_all (\<lambda>x. is_prefix (where_prefix clause) (fst x) \<and> fst x \<noteq> []) (rows entity clause))"

definition page_of :: "'r index_store \<Rightarrow> string \<Rightarrow> int \<Rightarrow> indexWhere \<Rightarrow> string \<Rightarrow> (string \<times> 'r) list" where
  "page_of rows entity first clause after = take (nat first) (filter (\<lambda>x. after < fst x) (rows entity clause))"

definition answers_from :: "'r index_store \<Rightarrow> checkpoint_rows \<Rightarrow> (page_request \<Rightarrow> go_error + 'r index_page) \<Rightarrow> bool" where
  "answers_from rows cps ask \<longleftrightarrow> (\<forall>request. distinct (map fst request) \<longrightarrow> (\<exists>page. ask request = Inr page \<and> page_checkpoints page = cps
     \<and> (\<forall>(entity, first, clause, after) \<in> set request.
          page_rows page entity = Rows (map (\<lambda>x. (Some (fst x), snd x)) (page_of rows entity first clause after)))))"

lemma page_request_entities: "map fst (page_request cs) = map (\<lambda>c. stream_entity (cur_stream c)) (filter (\<lambda>c. \<not> cur_done c) cs)"
  by (simp add: page_request_def comp_def)

lemma page_request_distinct: "distinct (map stream_entity (map cur_stream cs)) \<Longrightarrow> distinct (map fst (page_request cs))"
  by (simp add: page_request_entities comp_def distinct_map_filter)

text \<open>The rows of a stream beyond its prefix, whether they fit it, and what it decodes them to.\<close>

definition stream_rows :: "'r index_store \<Rightarrow> ('r, 'v) index_stream \<Rightarrow> (string \<times> 'r) list" where
  "stream_rows rows s = filter (\<lambda>x. where_prefix (stream_where s) < fst x) (rows (stream_entity s) (stream_where s))"

definition decodes :: "('r, 'v) index_stream \<Rightarrow> string \<times> 'r \<Rightarrow> bool" where
  "decodes s x \<longleftrightarrow> \<not> isl (stream_take s (fst x) (snd x))"

definition decoded :: "('r, 'v) index_stream \<Rightarrow> (string \<times> 'r) list \<Rightarrow> 'v list" where
  "decoded s xs = map (\<lambda>x. projr (stream_take s (fst x) (snd x))) xs"

definition stream_fits :: "'r index_store \<Rightarrow> ('r, 'v) index_stream \<Rightarrow> bool" where
  "stream_fits rows s \<longleftrightarrow> list_all (decodes s) (stream_rows rows s) \<and> int (length (stream_rows rows s)) \<le> stream_max s"

text \<open>A cursor that took the first \<open>k\<close> rows.\<close>

definition took :: "'r index_store \<Rightarrow> ('r, 'v) indexCursor \<Rightarrow> nat \<Rightarrow> bool" where
  "took rows c k \<longleftrightarrow> (let all = stream_rows rows (cur_stream c) in
     k \<le> length all \<and> cur_rows c = int k \<and> int k \<le> stream_max (cur_stream c)
     \<and> cur_taken c = decoded (cur_stream c) (take k all) \<and> list_all (decodes (cur_stream c)) (take k all)
     \<and> cur_after c = (if k = 0 then where_prefix (stream_where (cur_stream c)) else fst (all ! (k - 1)))
     \<and> (cur_done c \<longrightarrow> k = length all))"

lemma sorted_after:
  fixes xs :: "('a :: linorder \<times> 'b) list"
  assumes "sorted_wrt (<) (map fst xs)" and "0 < k" and "k \<le> length xs"
  shows "filter (\<lambda>x. fst (xs ! (k - 1)) < fst x) xs = drop k xs"
proof -
  have "filter (\<lambda>x. fst (xs ! (k - 1)) < fst x) (take k xs) = []"
  proof -
    have "\<not> fst (xs ! (k - 1)) < fst x" if "x \<in> set (take k xs)" for x
    proof -
      from that obtain i where i: "i < k" "x = xs ! i" using assms(3) by (auto simp: in_set_conv_nth)
      then have "fst (xs ! i) \<le> fst (xs ! (k - 1))"
        using assms sorted_wrt_nth_less [OF assms(1), of i "k - 1"] by (cases "i = k - 1") (auto intro: less_imp_le)
      then show ?thesis using i(2) by simp
    qed
    then show ?thesis by (simp add: filter_empty_conv)
  qed
  moreover have "filter (\<lambda>x. fst (xs ! (k - 1)) < fst x) (drop k xs) = drop k xs"
  proof -
    have "fst (xs ! (k - 1)) < fst x" if "x \<in> set (drop k xs)" for x
    proof -
      from that obtain i where i: "i < length xs - k" "x = xs ! (k + i)" by (auto simp: in_set_conv_nth)
      then show ?thesis using assms sorted_wrt_nth_less [OF assms(1), of "k - 1" "k + i"] by simp
    qed
    then show ?thesis by (simp add: filter_id_conv)
  qed
  ultimately show ?thesis
    using filter_append [of "\<lambda>x. fst (xs ! (k - 1)) < fst x" "take k xs" "drop k xs"] by simp
qed

lemma stream_rows_ok:
  assumes "store_ok rows"
  shows "sorted_wrt (<) (map fst (stream_rows rows s))"
    and "x \<in> set (stream_rows rows s) \<Longrightarrow> is_prefix (where_prefix (stream_where s)) (fst x) \<and> fst x \<noteq> []
       \<and> where_prefix (stream_where s) < fst x"
proof -
  let ?xs = "rows (stream_entity s) (stream_where s)"
  have all: "sorted_wrt (<) (map fst ?xs)" "list_all (\<lambda>x. is_prefix (where_prefix (stream_where s)) (fst x) \<and> fst x \<noteq> []) ?xs"
    using assms by (auto simp: store_ok_def)
  show "sorted_wrt (<) (map fst (stream_rows rows s))"
    using all(1) unfolding stream_rows_def by (simp add: sorted_wrt_map sorted_wrt_filter)
  show "x \<in> set (stream_rows rows s) \<Longrightarrow> is_prefix (where_prefix (stream_where s)) (fst x) \<and> fst x \<noteq> []
       \<and> where_prefix (stream_where s) < fst x"
    using all(2) by (auto simp: stream_rows_def list_all_iff)
qed

text \<open>The next page of a cursor is what follows the rows it took.\<close>

lemma page_of_next:
  assumes "store_ok rows" and "took rows c k"
  shows "page_of rows (stream_entity (cur_stream c)) n (stream_where (cur_stream c)) (cur_after c)
    = take (nat n) (drop k (stream_rows rows (cur_stream c)))"
proof (cases "k = 0")
  case True
  then show ?thesis using assms(2) by (simp add: page_of_def took_def stream_rows_def Let_def)
next
  case False
  let ?all = "stream_rows rows (cur_stream c)"
  have k: "k \<le> length ?all" "cur_after c = fst (?all ! (k - 1))" using assms(2) False by (auto simp: took_def Let_def)
  have "where_prefix (stream_where (cur_stream c)) < cur_after c"
    using stream_rows_ok(2) [OF assms(1), of "?all ! (k - 1)" "cur_stream c"] k False by simp
  then have "filter (\<lambda>x. cur_after c < fst x) (rows (stream_entity (cur_stream c)) (stream_where (cur_stream c)))
      = filter (\<lambda>x. cur_after c < fst x) ?all"
    by (auto simp: stream_rows_def intro!: filter_cong)
  also have "\<dots> = drop k ?all" using sorted_after [OF stream_rows_ok(1) [OF assms(1)]] k False by simp
  finally show ?thesis by (simp add: page_of_def)
qed

text \<open>Rows in order, beyond the cursor and within the prefix are admitted exactly when they decode.\<close>

lemma admit_rows_exact:
  assumes "sorted_wrt (<) (map fst xs)" and "list_all (\<lambda>x. cur_after c < fst x) xs"
    and "list_all (\<lambda>x. is_prefix (where_prefix (stream_where (cur_stream c))) (fst x) \<and> fst x \<noteq> []) xs"
  shows "(if list_all (decodes (cur_stream c)) xs
     then admit_rows c (map (\<lambda>x. (Some (fst x), snd x)) xs) = Inr (c\<lparr>cur_after := (if xs = [] then cur_after c else fst (last xs)),
       cur_rows := cur_rows c + int (length xs), cur_taken := cur_taken c @ decoded (cur_stream c) xs\<rparr>)
     else isl (admit_rows c (map (\<lambda>x. (Some (fst x), snd x)) xs)))"
  using assms
proof (induction xs arbitrary: c)
  case Nil
  then show ?case by (cases c) (simp add: decoded_def)
next
  case (Cons x xs)
  have head: "cur_after c < fst x" "fst x \<noteq> []" "is_prefix (where_prefix (stream_where (cur_stream c))) (fst x)"
    and new: "\<not> fst x \<le> cur_after c" using Cons.prems by auto
  show ?case
  proof (cases "stream_take (cur_stream c) (fst x) (snd x)")
    case (Inl e)
    then show ?thesis using head new by (simp add: decodes_def Let_def)
  next
    case (Inr v)
    let ?c = "c\<lparr>cur_after := fst x, cur_rows := cur_rows c + 1, cur_taken := cur_taken c @ [v]\<rparr>"
    have after: "list_all (\<lambda>x. cur_after ?c < fst x) xs" using Cons.prems(1) by (auto simp: list_all_iff)
    have sorted: "sorted_wrt (<) (map fst xs)" using Cons.prems(1) by simp
    have step: "admit_rows c (map (\<lambda>x. (Some (fst x), snd x)) (x # xs)) = admit_rows ?c (map (\<lambda>x. (Some (fst x), snd x)) xs)"
      using head new Inr by (simp add: Let_def)
    have rest: "list_all (\<lambda>x. is_prefix (where_prefix (stream_where (cur_stream ?c))) (fst x) \<and> fst x \<noteq> []) xs"
      using Cons.prems(3) by simp
    show ?thesis unfolding step using Cons.IH [OF sorted after rest] Inr
      by (auto simp: decodes_def decoded_def)
  qed
qed

lemma took_page:
  assumes "store_ok rows" and "took rows c k" and "\<not> cur_done c"
    and "answer (stream_entity (cur_stream c)) = Rows (map (\<lambda>x. (Some (fst x), snd x))
      (page_of rows (stream_entity (cur_stream c)) (cursor_first c) (stream_where (cur_stream c)) (cur_after c)))"
  shows "(\<exists>c' k'. cursor_page answer c = Inr c' \<and> took rows c' k' \<and> cur_stream c' = cur_stream c)
     \<or> (isl (cursor_page answer c) \<and> \<not> stream_fits rows (cur_stream c))"
proof -
  let ?all = "stream_rows rows (cur_stream c)"
  let ?first = "nat (cursor_first c)"
  let ?xs = "take ?first (drop k ?all)"
  let ?s = "cur_stream c"
  have k: "k \<le> length ?all" "cur_rows c = int k" "int k \<le> stream_max ?s" "cur_taken c = decoded ?s (take k ?all)"
      "list_all (decodes ?s) (take k ?all)" "cur_after c = (if k = 0 then where_prefix (stream_where ?s) else fst (?all ! (k - 1)))"
    using assms(2) by (auto simp: took_def Let_def)
  have first: "1 \<le> cursor_first c" using k(2,3) by (simp add: cursor_first_def indexPageSize_def)
  have answer: "answer (stream_entity ?s) = Rows (map (\<lambda>x. (Some (fst x), snd x)) ?xs)"
    using assms(4) page_of_next [OF assms(1,2)] by simp
  have len: "int (length ?xs) \<le> cursor_first c" using first by simp
  have members: "set ?xs \<subseteq> set ?all" by (auto dest: in_set_takeD in_set_dropD)
  have sorted: "sorted_wrt (<) (map fst ?xs)"
    using stream_rows_ok(1) [OF assms(1), of ?s] by (simp add: take_map [symmetric] drop_map [symmetric] sorted_wrt_take sorted_wrt_drop)
  have good: "list_all (\<lambda>x. is_prefix (where_prefix (stream_where ?s)) (fst x) \<and> fst x \<noteq> []) ?xs"
    using members stream_rows_ok(2) [OF assms(1)] by (auto simp: list_all_iff)
  have after: "list_all (\<lambda>x. cur_after c < fst x) ?xs"
  proof (cases "k = 0")
    case True
    then show ?thesis using members stream_rows_ok(2) [OF assms(1)] k(6) by (auto simp: list_all_iff)
  next
    case False
    have "drop k ?all = filter (\<lambda>x. fst (?all ! (k - 1)) < fst x) ?all"
      using sorted_after [OF stream_rows_ok(1) [OF assms(1)], of k ?s] False k(1) by simp
    then have "x \<in> set (drop k ?all) \<Longrightarrow> cur_after c < fst x" for x using k(6) False by (simp add: set_eq_iff)
    then show ?thesis by (auto simp: list_all_iff dest: in_set_takeD)
  qed
  note admitted = admit_rows_exact [OF sorted after good]
  show ?thesis
  proof (cases "list_all (decodes ?s) ?xs \<and> int (k + length ?xs) \<le> stream_max ?s")
    case True
    let ?c = "c\<lparr>cur_after := (if ?xs = [] then cur_after c else fst (last ?xs)), cur_rows := cur_rows c + int (length ?xs),
      cur_taken := cur_taken c @ decoded ?s ?xs\<rparr>"
    let ?d = "?c\<lparr>cur_done := int (length ?xs) < cursor_first c\<rparr>"
    have run: "cursor_page answer c = Inr ?d"
      using True admitted answer len k(2) by (simp add: cursor_page_def Let_def)
    have taken: "take (k + length ?xs) ?all = take k ?all @ ?xs"
      using take_add [of k "length ?xs" ?all] by (simp add: min_def)
    have last_row: "fst (last ?xs) = fst (?all ! (k + length ?xs - 1))" if "?xs \<noteq> []"
    proof -
      have short: "length ?xs - 1 < ?first" "length ?xs - 1 < length ?all - k" using that by auto
      have "last ?xs = ?xs ! (length ?xs - 1)" using that by (rule last_conv_nth)
      also have "\<dots> = drop k ?all ! (length ?xs - 1)" using short(1) by (rule nth_take)
      also have "\<dots> = ?all ! (k + (length ?xs - 1))" using k(1) by (rule nth_drop)
      also have "k + (length ?xs - 1) = k + length ?xs - 1" using that by (cases ?xs) auto
      finally show ?thesis by simp
    qed
    have "took rows ?d (k + length ?xs)"
      unfolding took_def Let_def
    proof (intro conjI)
      show "k + length ?xs \<le> length (stream_rows rows (cur_stream ?d))" using k(1) by simp
      show "cur_rows ?d = int (k + length ?xs)" using k(2) by simp
      show "int (k + length ?xs) \<le> stream_max (cur_stream ?d)" using True by simp
      show "cur_taken ?d = decoded (cur_stream ?d) (take (k + length ?xs) (stream_rows rows (cur_stream ?d)))"
        using taken k(4) by (simp add: decoded_def)
      show "list_all (decodes (cur_stream ?d)) (take (k + length ?xs) (stream_rows rows (cur_stream ?d)))"
        using taken k(5) True by simp
      show "cur_after ?d = (if k + length ?xs = 0 then where_prefix (stream_where (cur_stream ?d))
          else fst (stream_rows rows (cur_stream ?d) ! (k + length ?xs - 1)))"
      proof (cases "?xs = []")
        case True
        then have "length ?xs = 0" by (rule ssubst) (rule list.size(3))
        then show ?thesis unfolding True using k(6) by simp
      next
        case False
        then have "0 < length ?xs" by (rule length_greater_0_conv [THEN iffD2])
        then have "k + length ?xs \<noteq> 0" by linarith
        then have "(if k + length ?xs = 0 then where_prefix (stream_where ?s) else fst (?all ! (k + length ?xs - 1)))
            = fst (last ?xs)" unfolding last_row [OF False] by (rule if_not_P)
        then show ?thesis using False by (simp del: length_take)
      qed
      show "cur_done ?d \<longrightarrow> k + length ?xs = length (stream_rows rows (cur_stream ?d))" using k(1) by auto
    qed
    then show ?thesis using run by (intro disjI1 exI [of _ ?d] exI [of _ "k + length ?xs"]) simp
  next
    case False
    have "isl (cursor_page answer c)"
    proof (cases "list_all (decodes ?s) ?xs")
      case True
      then show ?thesis using False admitted answer len k(2) by (simp add: cursor_page_def Let_def)
    next
      case undecoded: False
      then show ?thesis using admitted answer len
        by (auto simp: cursor_page_def Let_def isl_def)
    qed
    moreover have "\<not> stream_fits rows ?s"
      using False members k(1) by (auto simp: stream_fits_def list_all_iff)
    ultimately show ?thesis by blast
  qed
qed

lemma took_rounds:
  assumes "store_ok rows" and "answers_from rows cps ask" and "ask (page_request cs) = Inr page"
    and "set ds \<subseteq> set cs" and "list_all (\<lambda>c. \<exists>k. took rows c k) ds" and distinct: "distinct (map stream_entity (map cur_stream cs))"
  shows "(\<exists>ds'. mapR (page_round (page_rows page)) ds = Inr ds' \<and> list_all (\<lambda>c. \<exists>k. took rows c k) ds'
       \<and> map cur_stream ds' = map cur_stream ds)
     \<or> (isl (mapR (page_round (page_rows page)) ds) \<and> \<not> list_all (stream_fits rows) (map cur_stream ds))"
  using assms(4,5)
proof (induction ds)
  case (Cons c ds)
  obtain k where k: "took rows c k" using Cons.prems(2) by auto
  have one: "(\<exists>c' k'. page_round (page_rows page) c = Inr c' \<and> took rows c' k' \<and> cur_stream c' = cur_stream c)
     \<or> (isl (page_round (page_rows page) c) \<and> \<not> stream_fits rows (cur_stream c))"
  proof (cases "cur_done c")
    case True
    then show ?thesis using k by (auto simp: page_round_def)
  next
    case False
    obtain other where other: "ask (page_request cs) = Inr other"
      "\<forall>(entity, first, clause, after) \<in> set (page_request cs).
          page_rows other entity = Rows (map (\<lambda>x. (Some (fst x), snd x)) (page_of rows entity first clause after))"
      using assms(2) page_request_distinct [OF distinct] unfolding answers_from_def by blast
    have "(stream_entity (cur_stream c), cursor_first c, stream_where (cur_stream c), cur_after c) \<in> set (page_request cs)"
      using Cons.prems(1) False by (auto simp: page_request_def)
    then have "page_rows page (stream_entity (cur_stream c)) = Rows (map (\<lambda>x. (Some (fst x), snd x))
      (page_of rows (stream_entity (cur_stream c)) (cursor_first c) (stream_where (cur_stream c)) (cur_after c)))"
      using other assms(3) by fastforce
    from took_page [where answer = "page_rows page", OF assms(1) k False this] False show ?thesis by (simp add: page_round_def)
  qed
  have rest: "(\<exists>ds'. mapR (page_round (page_rows page)) ds = Inr ds' \<and> list_all (\<lambda>c. \<exists>k. took rows c k) ds'
       \<and> map cur_stream ds' = map cur_stream ds)
     \<or> (isl (mapR (page_round (page_rows page)) ds) \<and> \<not> list_all (stream_fits rows) (map cur_stream ds))"
    using Cons by simp
  from one show ?case
  proof
    assume "\<exists>c' k'. page_round (page_rows page) c = Inr c' \<and> took rows c' k' \<and> cur_stream c' = cur_stream c"
    then obtain c' k' where c': "page_round (page_rows page) c = Inr c'" "took rows c' k'" "cur_stream c' = cur_stream c" by blast
    from rest show ?thesis using c' by (cases "mapR (page_round (page_rows page)) ds") auto
  next
    assume "isl (page_round (page_rows page) c) \<and> \<not> stream_fits rows (cur_stream c)"
    then show ?thesis by (cases "page_round (page_rows page) c") auto
  qed
qed simp

text \<open>Where the checkpoint is the wanted one, or can be certified, the loop returns every row or an error.\<close>

definition wanted :: "(indexCheckpoint \<Rightarrow> index_error + indexLagNote option) \<Rightarrow> indexCheckpoint \<Rightarrow> indexLagNote option
    \<Rightarrow> indexCheckpoint option \<Rightarrow> indexLagNote option \<Rightarrow> bool" where
  "wanted cert cp note want lag \<longleftrightarrow> (want = None \<and> cert cp = Inr note) \<or> (want = Some cp \<and> lag = note)"

definition loop_result :: "'r index_store \<Rightarrow> indexCheckpoint \<Rightarrow> indexLagNote option \<Rightarrow> ('r, 'v) index_stream list
    \<Rightarrow> (index_error fault + ('r, 'v) indexCursor list \<times> indexCheckpoint \<times> indexLagNote option) option \<Rightarrow> bool" where
  "loop_result rows cp note streams run \<longleftrightarrow> (if list_all (stream_fits rows) streams
     then (\<exists>cs. run = Some (Inr (cs, cp, note)) \<and> map cur_taken cs = map (\<lambda>s. decoded s (stream_rows rows s)) streams)
     else (\<exists>e. run = Some (Inl (Fail e))))"

lemma took_done: "took rows c k \<Longrightarrow> cur_done c \<Longrightarrow> stream_fits rows (cur_stream c)
    \<and> cur_taken c = decoded (cur_stream c) (stream_rows rows (cur_stream c))"
  by (auto simp: took_def stream_fits_def Let_def)

lemma took_ok: "took rows c k \<Longrightarrow> cursor_ok c"
  by (auto simp: took_def cursor_ok_def Let_def)

lemma page_loop_store:
  assumes "store_ok rows" and "answers_from rows cps ask" and "pageCheckpoint cps = Inr cp"
    and "list_all (\<lambda>c. \<exists>k. took rows c k) cs" and "cursors_left cs < fuel"
    and "want \<noteq> None \<or> \<not> list_all cur_done cs" and "wanted cert cp note want lag"
    and "distinct (map stream_entity (map cur_stream cs))"
  shows "loop_result rows cp note (map cur_stream cs) (page_loop cert ask fuel cs want lag)"
  using assms(4-8)
proof (induction fuel arbitrary: cs want lag)
  case (Suc fuel)
  show ?case
  proof (cases "list_all cur_done cs")
    case True
    then have want: "want = Some cp" "lag = note" using Suc.prems(3,4) by (auto simp: wanted_def)
    have all: "stream_fits rows (cur_stream c) \<and> cur_taken c = decoded (cur_stream c) (stream_rows rows (cur_stream c))"
      if "c \<in> set cs" for c
      using that True Suc.prems(1) took_done by (fastforce simp: list_all_iff)
    then show ?thesis using True want
      by (auto simp: loop_result_def page_loop.simps(2) list_all_iff)
  next
    case False
    obtain page where page: "ask (page_request cs) = Inr page" "page_checkpoints page = cps"
      using assms(2) page_request_distinct [OF Suc.prems(5)] unfolding answers_from_def by blast
    have cert: "(case want of None \<Rightarrow> bindR (cert cp) (\<lambda>lag. Inr (cp, lag))
        | Some w \<Rightarrow> if cp \<noteq> w then Inl CheckpointChanged else Inr (w, lag)) = Inr (cp, note)"
      using Suc.prems(4) by (auto simp: wanted_def)
    have step: "page_loop cert ask (Suc fuel) cs want lag = (case mapR (page_round (page_rows page)) cs of
        Inl e \<Rightarrow> Some (Inl (Fail e)) | Inr cs' \<Rightarrow> page_loop cert ask fuel cs' (Some cp) note)"
      unfolding page_loop.simps(2) page(1) using False cert page(2) assms(3) by simp
    consider ds' where "mapR (page_round (page_rows page)) cs = Inr ds'" "list_all (\<lambda>c. \<exists>k. took rows c k) ds'"
        "map cur_stream ds' = map cur_stream cs"
      | "isl (mapR (page_round (page_rows page)) cs)" "\<not> list_all (stream_fits rows) (map cur_stream cs)"
      using took_rounds [OF assms(1,2) page(1) order_refl Suc.prems(1,5)] by blast
    then show ?thesis
    proof cases
      case 1
      have "list_all cursor_ok cs" using Suc.prems(1) took_ok by (auto simp: list_all_iff)
      then have "cursors_left ds' < fuel" using page_rounds_progress [OF 1(1)] False Suc.prems(2) by simp
      then have "loop_result rows cp note (map cur_stream ds') (page_loop cert ask fuel ds' (Some cp) note)"
        by (intro Suc.IH [OF 1(2)]) (use Suc.prems(5) in \<open>simp_all add: wanted_def 1(3)\<close>)
      then show ?thesis unfolding step 1 by simp
    next
      case 2
      then show ?thesis unfolding step loop_result_def by (cases "mapR (page_round (page_rows page)) cs") auto
    qed
  qed
qed simp

lemma start_took: "0 < stream_max s \<Longrightarrow> took rows (start_cursor s) 0"
  by (simp add: took_def start_cursor_def decoded_def)

lemma index_pages_store:
  assumes "store_ok rows" and "answers_from rows cps ask" and "pageCheckpoint cps = Inr cp"
    and "streams \<noteq> []" and "check_streams [] streams = Inr ()" and "wanted cert cp note want None"
  shows "if list_all (stream_fits rows) streams
     then index_pages cert ask streams want = Some (Inr (map (\<lambda>s. decoded s (stream_rows rows s)) streams, cp, note))
     else (\<exists>e. index_pages cert ask streams want = Some (Inl (Fail e)))"
proof -
  let ?cs = "map start_cursor streams"
  have streams: "map cur_stream ?cs = streams" by (simp add: start_cursor_def comp_def)
  have "list_all (\<lambda>c. \<exists>k. took rows c k) ?cs"
    using assms(5) start_took by (fastforce simp: check_streams_ok list_all_iff)
  moreover have "\<not> list_all cur_done ?cs" using assms(4) by (auto simp: start_cursor_def neq_Nil_conv)
  ultimately have "loop_result rows cp note (map cur_stream ?cs)
      (page_loop cert ask (Suc (cursors_left ?cs)) ?cs want None)"
    by (intro page_loop_store [OF assms(1-3)]) (use assms(5,6) streams in \<open>auto simp: check_streams_ok\<close>)
  moreover note streams
  ultimately show ?thesis using assms(4,5)
    by (auto simp: index_pages_def loop_result_def Let_def)
qed

text \<open>C5: against an endpoint that answers from a store, a read is complete: it returns every row of
  every stream, decoded and in order, however many pages that takes, with the certified checkpoint;
  and it fails, rather than return some of the rows, when a stream holds more than it declares or a
  row does not decode.\<close>

theorem index_read_complete:
  assumes "store_ok rows" and "answers_from rows cps ask" and "pageCheckpoint cps = Inr cp" and "cert cp = Inr note"
    and "streams \<noteq> []" and "check_streams [] streams = Inr ()"
  shows "if list_all (stream_fits rows) streams
     then index_pages cert ask streams None = Some (Inr (map (\<lambda>s. decoded s (stream_rows rows s)) streams, cp, note))
     else (\<exists>e. index_pages cert ask streams None = Some (Inl (Fail e)))"
  by (rule index_pages_store [OF assms(1-3,5,6)]) (simp add: wanted_def assms(4))

text \<open>Two streams of a store of three rows, the second with none.\<close>

definition demo_rows :: "nat index_store" where
  "demo_rows entity clause = (if entity = ''positions'' \<and> where_prefix clause = ''8453:''
     then [(''8453:a'', 1), (''8453:b'', 2), (''8453:c'', 3)] else [])"

definition demo_stream :: "string \<Rightarrow> int \<Rightarrow> (nat, nat) index_stream" where
  "demo_stream entity bound = \<lparr>stream_entity = entity, stream_account = 5, stream_where = \<lparr>where_prefix = ''8453:'', where_terms = []\<rparr>,
     stream_max = bound, stream_bad_type = None, stream_take = (\<lambda>i n. Inr n)\<rparr>"

definition demo_page :: "page_request \<Rightarrow> go_error + nat index_page" where
  "demo_page request = Inr \<lparr>page_checkpoints = CheckpointRows [],
     page_rows = (\<lambda>entity. case map_of request entity of None \<Rightarrow> RowsAbsent
       | Some (first, clause, after) \<Rightarrow> Rows (map (\<lambda>x. (Some (fst x), snd x)) (page_of demo_rows entity first clause after)))\<rparr>"

lemma demo_store_ok: "store_ok demo_rows"
proof -
  have "sorted_wrt (<) [''8453:a'', ''8453:b'', ''8453:c'']" by code_simp
  moreover have "list_all (is_prefix ''8453:'') [''8453:a'', ''8453:b'', ''8453:c'']" by code_simp
  ultimately show ?thesis by (simp add: store_ok_def demo_rows_def)
qed

lemma demo_page_answers: "answers_from demo_rows (CheckpointRows []) demo_page"
  by (auto simp: answers_from_def demo_page_def)

definition demo_checkpoint :: indexCheckpoint where
  "demo_checkpoint = \<lparr>cp_written = False, cp_block = 0, cp_ms = 0\<rparr>"

theorem index_read_complete_witness:
  "index_pages (\<lambda>cp. Inr None) demo_page [demo_stream ''positions'' 5, demo_stream ''accounts'' 1] None
     = Some (Inr ([[1, 2, 3], []], demo_checkpoint, None))
   \<and> (\<exists>e. index_pages (\<lambda>cp. Inr None) demo_page [demo_stream ''positions'' 2] None = Some (Inl (Fail e)))"
proof -
  have cp: "pageCheckpoint (CheckpointRows []) = Inr demo_checkpoint"
    by (simp add: pageCheckpoint_def parseIndexCheckpoint_def demo_checkpoint_def)
  have rows: "stream_rows demo_rows (demo_stream ''positions'' n) = [(''8453:a'', 1), (''8453:b'', 2), (''8453:c'', 3)]"
    "stream_rows demo_rows (demo_stream ''accounts'' n) = []" for n
    by code_simp+
  have fits: "stream_fits demo_rows (demo_stream ''positions'' n) \<longleftrightarrow> 3 \<le> n"
    "stream_fits demo_rows (demo_stream ''accounts'' n) \<longleftrightarrow> 0 \<le> n" for n
    unfolding stream_fits_def rows by (simp_all add: decodes_def demo_stream_def)
  have taken: "decoded (demo_stream e n) xs = map snd xs" for e n xs
    by (simp add: decoded_def demo_stream_def)
  have ok: "check_streams [] [demo_stream ''positions'' 5, demo_stream ''accounts'' 1] = Inr ()"
    "check_streams [] [demo_stream ''positions'' 2] = Inr ()"
    by (simp_all add: demo_stream_def)
  note complete = index_read_complete [OF demo_store_ok demo_page_answers cp refl [of "Inr None"] list.distinct(2)]
  show ?thesis
    using complete [OF ok(1)] complete [OF ok(2)] by (simp add: fits rows taken)
qed

end
