(* ===== verification/Presence.thy ===== *)
theory Presence
  imports Index Registry
begin

text \<open>
  \<open>sentio_presence.go\<close> and the reads of \<open>sentio_index.go\<close> that rest on it: one request that asks every
  pinned chain whether an account has rows, and the reads a chain proven empty is spared. The verdict
  is computed once per scan (theory Machines); here it is a value. A request is the structured query
  behind the text \<open>presenceQuery\<close> renders.
\<close>

section \<open>Streams before their chain\<close>

record ('r, 'v) indexStream =
  decl_entity :: string
  decl_account :: address
  decl_where :: "chain_id \<Rightarrow> indexWhere"
  decl_max :: int
  decl_bad_type :: "string option"
  decl_take :: "chain_id \<Rightarrow> string \<Rightarrow> 'r \<Rightarrow> go_error + 'v"

definition on_chain :: "chain_id \<Rightarrow> ('r, 'v) indexStream \<Rightarrow> ('r, 'v) index_stream" where
  "on_chain c s = \<lparr>stream_entity = decl_entity s, stream_account = decl_account s, stream_where = decl_where s c,
     stream_max = decl_max s, stream_bad_type = decl_bad_type s, stream_take = decl_take s c\<rparr>"

section \<open>The probe\<close>

definition presenceMinChains :: nat where
  "presenceMinChains = 3"

record presenceProbe =
  pp_name :: string
  pp_chains :: "chain_id list"
  pp_fields :: "(string \<times> (chain_id \<Rightarrow> indexWhere)) list"

text \<open>Only streams that select one account's rows, under a prefix on every chain, can be proven empty.\<close>

definition provable_stream :: "chain_id list \<Rightarrow> address \<Rightarrow> ('r, 'v) indexStream \<Rightarrow> bool" where
  "provable_stream served account s \<longleftrightarrow> decl_account s \<noteq> 0 \<and> decl_account s = account
     \<and> list_all (\<lambda>c. where_prefix (decl_where s c) \<noteq> []) served"

definition probe_name :: "(string \<Rightarrow> string) \<Rightarrow> sentio_index \<Rightarrow> ('r, 'v) indexStream list \<Rightarrow> string" where
  "probe_name quoted x streams = ix_name x @ concat (map (\<lambda>s. ''/'' @ decl_entity s
     @ concat (map (\<lambda>c. CHR ''{'' # renderIndexWhere quoted (decl_where s c) [] @ ''}'') (ix_chains x))) streams)"

definition presenceProbe_of :: "(string \<Rightarrow> string) \<Rightarrow> sentio_index \<Rightarrow> ('r, 'v) indexStream list \<Rightarrow> (presenceProbe \<times> address) option" where
  "presenceProbe_of quoted x streams = (if \<not> ix_probe x \<or> streams = [] then None
     else let account = decl_account (hd streams) in
       if list_all (provable_stream (ix_chains x) account) streams
       then Some (\<lparr>pp_name = probe_name quoted x streams, pp_chains = ix_chains x,
         pp_fields = map (\<lambda>s. (decl_entity s, decl_where s)) streams\<rparr>, account)
       else None)"

section \<open>Its targets\<close>

type_synonym pins = "chain_id \<rightharpoonup> block_ref"

text \<open>\<open>pinnedFor\<close>: the pins of the chains the scan reads an account on.\<close>

definition pinnedFor :: "pins \<Rightarrow> (string \<Rightarrow> chain_id list) option \<Rightarrow> string \<Rightarrow> pins" where
  "pinnedFor pinned account_chains account = (case account_chains of None \<Rightarrow> pinned
     | Some cs \<Rightarrow> (\<lambda>c. if c \<in> set (cs account) then pinned c else None))"

record presenceTarget =
  pt_block :: block_ref
  pt_query :: u64

definition presence_target :: "pins \<Rightarrow> chain_statuses \<Rightarrow> chain_id \<Rightarrow> presenceTarget option" where
  "presence_target pinned statuses c = (case (pinned c, statuses c) of
       (Some block, Some st) \<Rightarrow>
         if st_err st \<noteq> None \<or> st_state st \<noteq> ''PROCESSING_LATEST'' then None
         else if block_fixed block \<and> st_processed st < block_number block then None
         else Some \<lparr>pt_block = block, pt_query = min (block_number block) (st_processed st)\<rparr>
     | _ \<Rightarrow> None)"

definition presenceTargets :: "presenceProbe \<Rightarrow> pins \<Rightarrow> chain_statuses \<Rightarrow> (chain_id \<times> presenceTarget) list" where
  "presenceTargets probe pinned statuses =
     List.map_filter (\<lambda>c. map_option (Pair c) (presence_target pinned statuses c)) (sort (remdups (pp_chains probe)))"

section \<open>Its request and verdict\<close>

text \<open>Per chain, the checkpoint and one row of each field, at the chain's own block.\<close>

type_synonym presence_request = "(chain_id \<times> u64 \<times> (string \<times> indexWhere) list) list"

definition presenceQuery :: "presenceProbe \<Rightarrow> (chain_id \<times> presenceTarget) list \<Rightarrow> presence_request" where
  "presenceQuery probe targets = map (\<lambda>(c, t). (c, pt_query t, map (\<lambda>(entity, clause). (entity, clause c)) (pp_fields probe))) targets"

record 'r presence_page =
  pr_checkpoint :: "chain_id \<Rightarrow> checkpoint_rows"
  pr_rows :: "nat \<Rightarrow> chain_id \<Rightarrow> 'r page_rows"

record presenceProof =
  pf_query :: u64
  pf_checkpoint :: u64
  pf_ms :: u64

definition no_row :: "'r page_rows \<Rightarrow> bool" where
  "no_row rows \<longleftrightarrow> (case rows of Rows [] \<Rightarrow> True | _ \<Rightarrow> False)"

definition presenceChainEmpty :: "presenceProbe \<Rightarrow> 'r presence_page \<Rightarrow> chain_id \<Rightarrow> presenceTarget \<Rightarrow> (u64 \<times> u64) option" where
  "presenceChainEmpty probe page c t = (case pageCheckpoint (pr_checkpoint page c) of Inl _ \<Rightarrow> None
     | Inr cp \<Rightarrow> if \<not> cp_written cp \<or> cp_block cp > pt_query t then None
         else (case checkIndexCheckpoint (pt_block t) (cp_block cp) (cp_ms cp) of
             Inr None \<Rightarrow> if list_all (\<lambda>i. no_row (pr_rows page i c)) [0..<length (pp_fields probe)]
               then Some (cp_block cp, cp_ms cp) else None
           | _ \<Rightarrow> None))"

definition runPresenceProbe :: "(presence_request \<Rightarrow> go_error + 'r presence_page) \<Rightarrow> presenceProbe
    \<Rightarrow> (chain_id \<times> presenceTarget) list \<Rightarrow> (chain_id \<rightharpoonup> presenceProof)" where
  "runPresenceProbe ask probe targets = (case ask (presenceQuery probe targets) of Inl _ \<Rightarrow> Map.empty
     | Inr page \<Rightarrow> (\<lambda>c. case map_of targets c of None \<Rightarrow> None
         | Some t \<Rightarrow> map_option (\<lambda>(cp, ms). \<lparr>pf_query = pt_query t, pf_checkpoint = cp, pf_ms = ms\<rparr>)
             (presenceChainEmpty probe page c t)))"

definition presence :: "(presence_request \<Rightarrow> go_error + 'r presence_page) \<Rightarrow> presenceProbe \<Rightarrow> pins \<Rightarrow> chain_statuses
    \<Rightarrow> (chain_id \<rightharpoonup> presenceProof)" where
  "presence ask probe pinned statuses = (let targets = presenceTargets probe pinned statuses in
     if length targets < presenceMinChains then Map.empty else runPresenceProbe ask probe targets)"

text \<open>\<open>prefetchPresence\<close> starts the probe only for an account read on enough of its chains.\<close>

definition prefetch_wanted :: "presenceProbe \<Rightarrow> pins \<Rightarrow> bool" where
  "prefetch_wanted probe pinned \<longleftrightarrow> length (filter (\<lambda>c. pinned c \<noteq> None) (pp_chains probe)) \<ge> presenceMinChains"

definition chainProvenEmpty :: "(chain_id \<rightharpoonup> presenceProof) \<Rightarrow> block_ref \<Rightarrow> presenceProof option" where
  "chainProvenEmpty proofs block = (case proofs (block_chain block) of None \<Rightarrow> None
     | Some p \<Rightarrow> if pf_query p > block_number block \<or> (block_fixed block \<and> pf_query p \<noteq> block_number block) then None
         else Some p)"

section \<open>The reads of an index\<close>

text \<open>\<open>chainStatusesForScan\<close>, over the status a refresh gave.\<close>

definition chainStatusesForScan :: "chain_id list \<Rightarrow> chain_id \<Rightarrow> (bool \<Rightarrow> status_error + chain_statuses) \<Rightarrow> bool
    \<Rightarrow> status_error + chain_statuses" where
  "chainStatusesForScan served c refresh force = (if \<not> supportsChain served c then Inl (ChainNotConfigured c)
     else bindR (refresh force) (\<lambda>known. validateSentioChainStatuses known [c]))"

record indexAt =
  at_block :: block_ref
  at_query :: u64
  at_checkpoint :: indexCheckpoint

text \<open>
  \<open>read\<close>: \<open>verdict\<close> is the probe's outcome for an account, \<open>ask q\<close> the endpoint at block \<open>q\<close>. It returns the
  rows of each stream, where it answered, and the lag it noted.
\<close>

definition index_read :: "(string \<Rightarrow> string) \<Rightarrow> sentio_index \<Rightarrow> (bool \<Rightarrow> status_error + chain_statuses)
    \<Rightarrow> (presenceProbe \<Rightarrow> address \<Rightarrow> chain_id \<rightharpoonup> presenceProof) \<Rightarrow> (u64 \<Rightarrow> go_error + block_ref) option
    \<Rightarrow> (u64 \<Rightarrow> page_request \<Rightarrow> go_error + 'r index_page) \<Rightarrow> block_ref \<Rightarrow> ('r, 'v) indexStream list
    \<Rightarrow> (index_error fault + 'v list list \<times> indexAt \<times> indexLagNote option) option" where
  "index_read quoted x refresh verdict client ask block streams =
     (case indexQueryBlock block (chainStatusesForScan (ix_chains x) (block_chain block) refresh) of Inl e \<Rightarrow> Some (Inl (Fail e))
      | Inr (statuses, q) \<Rightarrow>
         (case (case presenceProbe_of quoted x streams of None \<Rightarrow> None
             | Some (probe, account) \<Rightarrow> chainProvenEmpty (verdict probe account) block) of
           Some p \<Rightarrow> Some (Inr (map (\<lambda>_. []) streams, \<lparr>at_block = block, at_query = pf_query p,
             at_checkpoint = \<lparr>cp_written = True, cp_block = pf_checkpoint p, cp_ms = pf_ms p\<rparr>\<rparr>, None))
         | None \<Rightarrow> map_option (\<lambda>r. bindR r (\<lambda>(rows, cp, lag). Inr (rows, \<lparr>at_block = block, at_query = q, at_checkpoint = cp\<rparr>, lag)))
             (index_pages (certify x client block q) (ask q) (map (on_chain (block_chain block)) streams) None)))"

text \<open>\<open>indexAt.read\<close>: a lookup at the block and the checkpoint of an earlier read.\<close>

definition at_read :: "sentio_index \<Rightarrow> (u64 \<Rightarrow> page_request \<Rightarrow> go_error + 'r index_page) \<Rightarrow> indexAt option \<Rightarrow> ('r, 'v) indexStream list
    \<Rightarrow> (index_error fault + 'v list list) option" where
  "at_read x ask earlier streams = (case earlier of None \<Rightarrow> Some (Inl (Fail LookupOutsideRead))
     | Some a \<Rightarrow> map_option (\<lambda>r. bindR r (\<lambda>(rows, _). Inr rows))
         (index_pages (certify x None (at_block a) (at_query a)) (ask (at_query a))
            (map (on_chain (block_chain (at_block a))) streams) (Some (at_checkpoint a))))"

section \<open>The proof is exact\<close>

text \<open>
  What the index holds on each chain at each block, and an endpoint that answers the probe from it:
  the checkpoint rows of the block, and at most one of the rows each clause selects.
\<close>

type_synonym 'r index_history = "chain_id \<Rightarrow> u64 \<Rightarrow> 'r index_store"

definition probe_answers_from :: "'r index_history \<Rightarrow> (chain_id \<Rightarrow> u64 \<Rightarrow> checkpoint_rows)
    \<Rightarrow> (presence_request \<Rightarrow> go_error + 'r presence_page) \<Rightarrow> bool" where
  "probe_answers_from rows cps ask \<longleftrightarrow> (\<forall>request page. distinct (map fst request) \<and> ask request = Inr page \<longrightarrow>
     (\<forall>(c, q, fields) \<in> set request. pr_checkpoint page c = cps c q
        \<and> (\<forall>i < length fields. case fields ! i of (entity, clause) \<Rightarrow>
             pr_rows page i c = Rows (map (\<lambda>x. (Some (fst x), snd x)) (take 1 (rows c q entity clause))))))"

lemma presenceTargets_distinct: "distinct (map fst (presenceTargets probe pinned statuses))"
proof -
  have "distinct (map fst (List.map_filter (\<lambda>c. map_option (Pair c) (g c)) cs))" if "distinct cs"
    for g :: "chain_id \<Rightarrow> presenceTarget option" and cs
    using that by (induction cs) (auto simp: List.map_filter_def split: option.splits)
  then show ?thesis by (simp add: presenceTargets_def)
qed

lemma presenceTargets_sound:
  assumes "(c, t) \<in> set (presenceTargets probe pinned statuses)"
  shows "\<exists>block st. pinned c = Some block \<and> statuses c = Some st \<and> pt_block t = block
    \<and> pt_query t = min (block_number block) (st_processed st) \<and> (block_fixed block \<longrightarrow> pt_query t = block_number block)"
proof -
  have "presence_target pinned statuses c = Some t"
    using assms by (auto simp: presenceTargets_def List.map_filter_def)
  then show ?thesis
    by (cases "pinned c"; cases "statuses c") (auto simp: presence_target_def split: if_splits)
qed

lemma no_row_iff: "no_row rows \<longleftrightarrow> rows = Rows []"
  by (auto simp: no_row_def split: page_rows.splits list.splits)

text \<open>A proof: the rows of every field are none at its block, whose checkpoint is certified without a note.\<close>

lemma presence_proof:
  assumes "probe_answers_from rows cps ask" and "presence ask probe pinned statuses c = Some p"
  shows "\<exists>block. pinned c = Some block
    \<and> pageCheckpoint (cps c (pf_query p)) = Inr \<lparr>cp_written = True, cp_block = pf_checkpoint p, cp_ms = pf_ms p\<rparr>
    \<and> pf_checkpoint p \<le> pf_query p \<and> pf_query p \<le> block_number block
    \<and> checkIndexCheckpoint block (pf_checkpoint p) (pf_ms p) = Inr None
    \<and> (\<forall>(entity, clause) \<in> set (pp_fields probe). rows c (pf_query p) entity (clause c) = [])"
proof -
  let ?targets = "presenceTargets probe pinned statuses"
  let ?request = "presenceQuery probe ?targets"
  obtain page t cp ms where page: "ask ?request = Inr page" and t: "map_of ?targets c = Some t"
      and empty: "presenceChainEmpty probe page c t = Some (cp, ms)"
      and p: "p = \<lparr>pf_query = pt_query t, pf_checkpoint = cp, pf_ms = ms\<rparr>"
    using assms(2) by (auto simp: presence_def runPresenceProbe_def Let_def split: if_splits sum.splits option.splits)
  have target: "(c, t) \<in> set ?targets" using t by (rule map_of_SomeD)
  obtain block where block: "pinned c = Some block" "pt_block t = block" "pt_query t \<le> block_number block"
    using presenceTargets_sound [OF target] by auto
  have "map fst ?request = map fst ?targets" by (simp add: presenceQuery_def comp_def case_prod_beta)
  then have distinct: "distinct (map fst ?request)" using presenceTargets_distinct by metis
  let ?fields = "map (\<lambda>(entity, clause). (entity, clause c)) (pp_fields probe)"
  have "(c, pt_query t, ?fields) \<in> set ?request"
    using target by (force simp: presenceQuery_def)
  moreover have "\<forall>(c, q, fields) \<in> set ?request. pr_checkpoint page c = cps c q
      \<and> (\<forall>i < length fields. case fields ! i of (entity, clause) \<Rightarrow>
           pr_rows page i c = Rows (map (\<lambda>x. (Some (fst x), snd x)) (take 1 (rows c q entity clause))))"
    using assms(1) [unfolded probe_answers_from_def] distinct page by (elim allE impE) (rule conjI)
  ultimately have answer: "pr_checkpoint page c = cps c (pt_query t)
      \<and> (\<forall>i < length ?fields. case ?fields ! i of (entity, clause) \<Rightarrow>
         pr_rows page i c = Rows (map (\<lambda>x. (Some (fst x), snd x)) (take 1 (rows c (pt_query t) entity clause))))"
    by (auto dest!: bspec)
  obtain found where found: "pageCheckpoint (pr_checkpoint page c) = Inr found" "cp_written found" "cp_block found \<le> pt_query t"
      "checkIndexCheckpoint (pt_block t) (cp_block found) (cp_ms found) = Inr None"
      "\<forall>i < length (pp_fields probe). pr_rows page i c = Rows []" "cp = cp_block found" "ms = cp_ms found"
    using empty by (auto simp: presenceChainEmpty_def no_row_iff list_all_iff not_less
        split: sum.splits if_splits option.splits)
  have "rows c (pt_query t) entity (clause c) = []" if field: "(entity, clause) \<in> set (pp_fields probe)" for entity clause
  proof -
    obtain i where i: "i < length (pp_fields probe)" "pp_fields probe ! i = (entity, clause)"
      using field unfolding in_set_conv_nth by blast
    then have "pr_rows page i c = Rows (map (\<lambda>x. (Some (fst x), snd x)) (take 1 (rows c (pt_query t) entity (clause c))))"
      using answer by auto
    then show ?thesis using found(5) i(1) by simp
  qed
  moreover have "found = \<lparr>cp_written = True, cp_block = cp, cp_ms = ms\<rparr>" using found(2,6,7) by simp
  ultimately show ?thesis using found answer block p by auto
qed

text \<open>So the pages at the proof's block would have answered with no rows and the proof's checkpoint.\<close>

lemma proven_empty_pages:
  assumes "probe_answers_from rows cps probe_ask" and "presenceProbe_of quoted x streams = Some (probe, account)"
    and "presence probe_ask probe pinned statuses (block_chain block) = Some p" and "pinned (block_chain block) = Some block"
    and "store_ok (rows (block_chain block) (pf_query p))"
    and "answers_from (rows (block_chain block) (pf_query p)) (cps (block_chain block) (pf_query p)) ask"
    and "check_streams [] (map (on_chain (block_chain block)) streams) = Inr ()"
  shows "index_pages (certify x client block (pf_query p)) ask (map (on_chain (block_chain block)) streams) None
     = Some (Inr (map (\<lambda>_. []) streams, \<lparr>cp_written = True, cp_block = pf_checkpoint p, cp_ms = pf_ms p\<rparr>, None))"
proof -
  let ?c = "block_chain block"
  let ?cp = "\<lparr>cp_written = True, cp_block = pf_checkpoint p, cp_ms = pf_ms p\<rparr>"
  let ?streams = "map (on_chain ?c) streams"
  have probe: "pp_fields probe = map (\<lambda>s. (decl_entity s, decl_where s)) streams" "streams \<noteq> []"
    using assms(2) by (auto simp: presenceProbe_of_def Let_def split: if_splits)
  note proven = presence_proof [OF assms(1,3)]
  then have cp: "pageCheckpoint (cps ?c (pf_query p)) = Inr ?cp" "pf_checkpoint p \<le> pf_query p"
      "checkIndexCheckpoint block (pf_checkpoint p) (pf_ms p) = Inr None"
      and none: "\<forall>(entity, clause) \<in> set (pp_fields probe). rows ?c (pf_query p) entity (clause ?c) = []"
    using assms(4) by auto
  have certified: "certify x client block (pf_query p) ?cp = Inr None"
    using cp by (simp add: certify_def)
  have empty: "stream_rows (rows ?c (pf_query p)) (on_chain ?c s) = []" if "s \<in> set streams" for s
    using none that by (auto simp: probe(1) stream_rows_def on_chain_def)
  have "0 < decl_max s" if "s \<in> set streams" for s
    using assms(7) that by (auto simp: check_streams_ok list_all_iff on_chain_def)
  then have fits: "list_all (stream_fits (rows ?c (pf_query p))) ?streams"
    using empty by (fastforce simp: stream_fits_def list_all_iff on_chain_def)
  have none_taken: "map (\<lambda>s. decoded s (stream_rows (rows ?c (pf_query p)) s)) ?streams = map (\<lambda>_. []) streams"
    using empty by (simp add: decoded_def)
  have "wanted (certify x client block (pf_query p)) ?cp None None None"
    by (simp add: wanted_def certified)
  then show ?thesis
    using index_pages_store [OF assms(5,6) cp(1) _ assms(7)] probe(2) fits none_taken by simp
qed

text \<open>C6: the presence probe changes no answer: against an index that answers pages and probes from
  the same history, a read that returns (whether its pages ran or the probe spared them) returns
  exactly what its pages at the block it reports return: the same rows, checkpoint and lag note. That
  block is never past the pin, and is the pin itself when it is fixed.\<close>

theorem presence_transparent:
  assumes "\<And>c q. store_ok (rows c q)" and "\<And>c q. answers_from (rows c q) (cps c q) (ask c q)"
    and "probe_answers_from rows cps probe_ask" and "\<And>account b. pins account (block_chain block) = Some b \<Longrightarrow> b = block"
    and "check_streams [] (map (on_chain (block_chain block)) streams) = Inr ()"
    and "index_read quoted x refresh (\<lambda>probe account. presence probe_ask probe (pins account) statuses) client
      (ask (block_chain block)) block streams = Some (Inr (taken, a, lag))"
  shows "index_pages (certify x client block (at_query a)) (ask (block_chain block) (at_query a))
       (map (on_chain (block_chain block)) streams) None = Some (Inr (taken, at_checkpoint a, lag))
     \<and> at_block a = block \<and> at_query a \<le> block_number block \<and> (block_fixed block \<longrightarrow> at_query a = block_number block)"
proof -
  let ?c = "block_chain block"
  let ?proven = "case presenceProbe_of quoted x streams of None \<Rightarrow> None
    | Some (probe, account) \<Rightarrow> chainProvenEmpty (presence probe_ask probe (pins account) statuses) block"
  obtain known q where q: "indexQueryBlock block (chainStatusesForScan (ix_chains x) ?c refresh) = Inr (known, q)"
    using assms(6) by (auto simp: index_read_def split: sum.splits)
  show ?thesis
  proof (cases ?proven)
    case None
    have "at_query a = q \<and> at_block a = block
        \<and> index_pages (certify x client block q) (ask ?c q) (map (on_chain ?c) streams) None = Some (Inr (taken, at_checkpoint a, lag))"
      using assms(6) q None by (auto simp: index_read_def bindR_Inr_iff)
    then show ?thesis using query_block_sound [OF q] by auto
  next
    case (Some p)
    obtain probe account where probe: "presenceProbe_of quoted x streams = Some (probe, account)"
        "chainProvenEmpty (presence probe_ask probe (pins account) statuses) block = Some p"
      using Some by (auto split: option.splits)
    have p: "presence probe_ask probe (pins account) statuses ?c = Some p" "pf_query p \<le> block_number block"
        "block_fixed block \<longrightarrow> pf_query p = block_number block"
      using probe(2) by (auto simp: chainProvenEmpty_def split: option.splits if_splits)
    have pinned: "pins account ?c = Some block"
      using presence_proof [OF assms(3) p(1)] assms(4) by auto
    have "a = \<lparr>at_block = block, at_query = pf_query p,
        at_checkpoint = \<lparr>cp_written = True, cp_block = pf_checkpoint p, cp_ms = pf_ms p\<rparr>\<rparr>"
        "taken = map (\<lambda>_. []) streams" "lag = None"
      using assms(6) q Some by (simp_all add: index_read_def)
    then show ?thesis
      using proven_empty_pages [OF assms(3) probe(1) p(1) pinned assms(1,2,5)] p(2,3) by simp
  qed
qed

text \<open>An index of three chains that has written a checkpoint and no rows.\<close>

definition quiet_pin :: "chain_id \<Rightarrow> block_ref" where
  "quiet_pin c = \<lparr>block_chain = c, block_number = 100, block_hash = 1, block_timestamp = 1700000060, block_fixed = False\<rparr>"

definition quiet_index :: sentio_index where
  "quiet_index = \<lparr>ix_name = ''quiet'', ix_probe = True, ix_chains = [Ethereum, BSC, Base], ix_start = (\<lambda>_. 0)\<rparr>"

definition quiet_stream :: "(nat, nat) indexStream" where
  "quiet_stream = \<lparr>decl_entity = ''positions'', decl_account = 7, decl_where = (\<lambda>_. \<lparr>where_prefix = ''p'', where_terms = []\<rparr>),
     decl_max = 5, decl_bad_type = None, decl_take = (\<lambda>_ _ n. Inr n)\<rparr>"

definition quiet_checkpoint :: checkpoint_rows where
  "quiet_checkpoint = CheckpointRows [\<lparr>row_block = show_u64 5, row_ms = show_u64 1700000000000\<rparr>]"

definition quiet_status :: chain_statuses where
  "quiet_status = (\<lambda>_. Some \<lparr>st_state = ''PROCESSING_LATEST'', st_processed = 90, st_latest = 95, st_err = None\<rparr>)"

definition quiet_answer :: "nat presence_page" where
  "quiet_answer = \<lparr>pr_checkpoint = (\<lambda>_. quiet_checkpoint), pr_rows = (\<lambda>_ _. Rows [])\<rparr>"

definition quiet_page :: "nat index_page" where
  "quiet_page = \<lparr>page_checkpoints = quiet_checkpoint, page_rows = (\<lambda>_. Rows [])\<rparr>"

theorem presence_transparent_witness:
  "index_read id quiet_index (\<lambda>_. Inr quiet_status)
       (\<lambda>probe account. presence (\<lambda>_. Inr quiet_answer) probe (\<lambda>c. Some (quiet_pin c)) quiet_status) None
       (\<lambda>_ _. Inr quiet_page) (quiet_pin Base) [quiet_stream]
     = Some (Inr ([[]], \<lparr>at_block = quiet_pin Base, at_query = 90,
         at_checkpoint = \<lparr>cp_written = True, cp_block = 5, cp_ms = 1700000000000\<rparr>\<rparr>, None))
   \<and> index_pages (certify quiet_index None (quiet_pin Base) 90) (\<lambda>_. Inr quiet_page) [on_chain Base quiet_stream] None
     = Some (Inr ([[]], \<lparr>cp_written = True, cp_block = 5, cp_ms = 1700000000000\<rparr>, None))"
proof -
  let ?read = "index_read id quiet_index (\<lambda>_. Inr quiet_status)
       (\<lambda>probe account. presence (\<lambda>_. Inr quiet_answer) probe (\<lambda>c. Some (quiet_pin c)) quiet_status) None
       (\<lambda>_ _. Inr quiet_page) (quiet_pin Base) [quiet_stream]"
  have cp: "pageCheckpoint quiet_checkpoint = Inr \<lparr>cp_written = True, cp_block = 5, cp_ms = 1700000000000\<rparr>"
    by (simp add: pageCheckpoint_def quiet_checkpoint_def parseIndexCheckpoint_def)
  have chain: "block_chain (quiet_pin Base) = Base" by (simp add: quiet_pin_def)
  have run: "?read = Some (Inr ([[]], \<lparr>at_block = quiet_pin Base, at_query = 90,
         at_checkpoint = \<lparr>cp_written = True, cp_block = 5, cp_ms = 1700000000000\<rparr>\<rparr>, None))"
  proof -
    let ?fields = "[(''positions'', \<lambda>_. \<lparr>where_prefix = ''p'', where_terms = []\<rparr>)]"
    have query: "indexQueryBlock (quiet_pin Base) (chainStatusesForScan (ix_chains quiet_index) Base (\<lambda>_. Inr quiet_status))
        = Inr (quiet_status, 90)"
      by (simp add: indexQueryBlock_def trails_pin_def accept_status_def chainStatusesForScan_def quiet_pin_def quiet_status_def
          quiet_index_def min_def)
    obtain name where probe: "presenceProbe_of id quiet_index [quiet_stream]
        = Some (\<lparr>pp_name = name, pp_chains = [Ethereum, BSC, Base], pp_fields = ?fields\<rparr>, 7)"
      by (simp add: presenceProbe_of_def quiet_index_def quiet_stream_def provable_stream_def)
    have target: "presence_target (\<lambda>c. Some (quiet_pin c)) quiet_status c = Some \<lparr>pt_block = quiet_pin c, pt_query = 90\<rparr>" for c
      by (simp add: presence_target_def quiet_pin_def quiet_status_def min_def)
    have empty: "presenceChainEmpty \<lparr>pp_name = name, pp_chains = [Ethereum, BSC, Base], pp_fields = ?fields\<rparr> quiet_answer c
        \<lparr>pt_block = quiet_pin c, pt_query = 90\<rparr> = Some (5, 1700000000000)" for c
      by (simp add: presenceChainEmpty_def quiet_answer_def cp quiet_pin_def checkIndexCheckpoint_def no_row_def indexMaxLag_def)
    have chains: "Base \<noteq> Ethereum" "BSC \<noteq> Base" "Ethereum \<noteq> BSC" by (simp_all add: Ethereum_def BSC_def Base_def)
    have "presence (\<lambda>_. Inr quiet_answer) \<lparr>pp_name = name, pp_chains = [Ethereum, BSC, Base], pp_fields = ?fields\<rparr>
        (\<lambda>c. Some (quiet_pin c)) quiet_status Base = Some \<lparr>pf_query = 90, pf_checkpoint = 5, pf_ms = 1700000000000\<rparr>"
      by (simp add: presence_def presenceTargets_def target presenceMinChains_def runPresenceProbe_def empty chains chains [symmetric])
    then show ?thesis
      unfolding index_read_def chain query probe by (simp add: chainProvenEmpty_def chain) (simp add: quiet_pin_def)
  qed
  have store: "store_ok (\<lambda>_ _. [] :: (string \<times> nat) list)" by (simp add: store_ok_def)
  have pages: "answers_from (\<lambda>_ _. []) quiet_checkpoint (\<lambda>_. Inr quiet_page)"
    by (simp add: answers_from_def quiet_page_def page_of_def)
  have probes: "probe_answers_from (\<lambda>_ _ _ _. []) (\<lambda>_ _. quiet_checkpoint) (\<lambda>_. Inr quiet_answer)"
    by (simp add: probe_answers_from_def quiet_answer_def case_prod_beta)
  have streams: "check_streams [] (map (on_chain (block_chain (quiet_pin Base))) [quiet_stream]) = Inr ()"
    by (simp add: on_chain_def quiet_stream_def)
  have pin: "b = quiet_pin Base" if "Some (quiet_pin (block_chain (quiet_pin Base))) = Some b" for b
    using that unfolding chain by simp
  note exact = presence_transparent [where pins = "\<lambda>_ c. Some (quiet_pin c)", OF store pages probes pin streams run]
  then show ?thesis unfolding run by (simp add: chain)
qed

end
