(* ===== verification/FixedPoint.thy ===== *)
theory FixedPoint
  imports Prelude
begin

text \<open>
  Interfaces of the integer mathematics the adapters share: a rounding multiplication of fixed-point
  numbers, a growth counter that wraps at a power of two, and the two amounts of a concentrated
  liquidity position. Theories Uniswap, SuiClmm, Lending and Suilend provide them.
\<close>

section \<open>Go's divisions\<close>

text \<open>\<open>Quo\<close> and \<open>Div\<close> of the prelude as results: both panic on a zero divisor.\<close>

definition quo :: "int \<Rightarrow> int \<Rightarrow> ('e, int) go" where
  "quo a b = or_panic (big_quo a b)"

definition euclid_div :: "int \<Rightarrow> int \<Rightarrow> ('e, int) go" where
  "euclid_div a b = or_panic (big_div a b)"

lemma quo_floor [simp]: "0 \<le> a \<Longrightarrow> 0 < b \<Longrightarrow> quo a b = Inr (a div b)"
  by (simp add: quo_def)

lemma euclid_div_floor [simp]: "0 < b \<Longrightarrow> euclid_div a b = Inr (a div b)"
  by (simp add: euclid_div_def)

section \<open>Multiplication of fixed-point numbers\<close>

locale fixed_point =
  fixes unit :: int and mul :: "int \<Rightarrow> int \<Rightarrow> int"
  assumes unit_pos: "0 < unit"
    and mul_nonneg: "0 \<le> a \<Longrightarrow> 0 \<le> b \<Longrightarrow> 0 \<le> mul a b"
    and mul_mono: "0 \<le> a \<Longrightarrow> a \<le> a' \<Longrightarrow> 0 \<le> b \<Longrightarrow> b \<le> b' \<Longrightarrow> mul a b \<le> mul a' b'"
    and mul_unit: "0 \<le> a \<Longrightarrow> mul a unit = a"
begin

lemma mul_grows: "0 \<le> a \<Longrightarrow> unit \<le> b \<Longrightarrow> a \<le> mul a b"
  using mul_mono [of a a unit b] unit_pos by (simp add: mul_unit)

lemma mul_shrinks: "0 \<le> a \<Longrightarrow> 0 \<le> b \<Longrightarrow> b \<le> unit \<Longrightarrow> mul a b \<le> a"
  using mul_mono [of a a b unit] by (simp add: mul_unit)

lemma mul_above_unit: "unit \<le> a \<Longrightarrow> unit \<le> b \<Longrightarrow> unit \<le> mul a b"
  using mul_grows [of a b] unit_pos by linarith

end

text \<open>One that never rounds up.\<close>

locale truncating = fixed_point +
  assumes mul_le: "0 \<le> a \<Longrightarrow> 0 \<le> b \<Longrightarrow> mul a b * unit \<le> a * b"

lemma floor_mul_fixed_point:
  assumes "0 < (unit :: int)"
  shows "fixed_point unit (\<lambda>a b. (a * b) div unit)"
    and "truncating unit (\<lambda>a b. (a * b) div unit)"
proof -
  show base: "fixed_point unit (\<lambda>a b. (a * b) div unit)"
  proof
    fix a a' b b' :: int
    assume "0 \<le> a" "a \<le> a'" "0 \<le> b" "b \<le> b'"
    then have "a * b \<le> a' * b'" by (intro mult_mono) auto
    then show "(a * b) div unit \<le> (a' * b') div unit" using assms by (rule zdiv_mono1)
  qed (use assms in \<open>auto simp: pos_imp_zdiv_nonneg_iff\<close>)
  have "(a * b) div unit * unit \<le> a * b" for a b :: int
    using assms pos_mod_sign [of unit "a * b"] by (simp add: minus_mod_eq_div_mult [symmetric])
  then show "truncating unit (\<lambda>a b. (a * b) div unit)"
    using base by (simp add: truncating_def truncating_axioms_def)
qed

section \<open>Counters that wrap\<close>

locale wrapping_counter =
  fixes modulus :: int and distance :: "int \<Rightarrow> int \<Rightarrow> int"
  assumes modulus_pos: "0 < modulus"
    and distance_mod: "distance a b = (a - b) mod modulus"
begin

lemma distance_range: "0 \<le> distance a b" "distance a b < modulus"
  using modulus_pos by (simp_all add: distance_mod)

lemma distance_advanced:
  assumes "0 \<le> d" and "d < modulus" and "a mod modulus = (b + d) mod modulus"
  shows "distance a b = d"
proof -
  have "(a - b) mod modulus = (b + d - b) mod modulus"
    using assms(3) by (metis mod_diff_left_eq)
  then show ?thesis using assms(1,2) by (simp add: distance_mod)
qed

lemma distance_mod_left [simp]: "distance (a mod modulus) b = distance a b"
  by (simp add: distance_mod mod_diff_left_eq)

lemma distance_mod_right [simp]: "distance a (b mod modulus) = distance a b"
  by (simp add: distance_mod mod_diff_right_eq)

lemma distance_back: "distance a (distance a b) = b mod modulus"
  by (simp add: distance_mod mod_diff_right_eq)

end

section \<open>Concentrated liquidity\<close>

text \<open>
  The amounts behind liquidity \<open>L\<close> over the square-root prices \<open>lower\<close> to \<open>upper\<close> at the price \<open>p\<close>, scaled
  by \<open>q\<close>: the exact quotients rounded down, at the price brought into the range.
\<close>

definition clamp :: "int \<Rightarrow> int \<Rightarrow> int \<Rightarrow> int" where
  "clamp lower upper p = min (max p lower) upper"

definition exact_amounts :: "int \<Rightarrow> int \<Rightarrow> int \<Rightarrow> int \<Rightarrow> int \<Rightarrow> int \<times> int" where
  "exact_amounts q L p lower upper = (let p = clamp lower upper p in
     ((L * q * (upper - p)) div (p * upper), (L * (p - lower)) div q))"

locale concentrated_liquidity =
  fixes q :: int and amounts :: "int \<Rightarrow> int \<Rightarrow> int \<Rightarrow> int \<Rightarrow> (int \<times> int) option"
  assumes scale_pos: "0 < q"
    and amounts_exact: "0 \<le> L \<Longrightarrow> 0 < lower \<Longrightarrow> lower \<le> upper \<Longrightarrow> amounts L p lower upper = Some (exact_amounts q L p lower upper)"
begin

lemma clamp_range: "lower \<le> upper \<Longrightarrow> lower \<le> clamp lower upper p \<and> clamp lower upper p \<le> upper"
  by (auto simp: clamp_def)

lemma amounts_nonneg:
  assumes "0 \<le> L" and "0 < lower" and "lower \<le> upper" and "amounts L p lower upper = Some (a, b)"
  shows "0 \<le> a \<and> 0 \<le> b"
  using assms clamp_range [OF assms(3), of p] amounts_exact [OF assms(1-3), of p] scale_pos
  by (auto simp: exact_amounts_def Let_def pos_imp_zdiv_nonneg_iff)

text \<open>Outside the range only one token is held; a rising price turns the first into the second.\<close>

lemma amounts_below: "0 \<le> L \<Longrightarrow> 0 < lower \<Longrightarrow> lower \<le> upper \<Longrightarrow> p \<le> lower \<Longrightarrow> amounts L p lower upper = Some (a, b) \<Longrightarrow> b = 0"
  using amounts_exact [of L lower upper p] by (auto simp: exact_amounts_def clamp_def Let_def)

lemma amounts_above: "0 \<le> L \<Longrightarrow> 0 < lower \<Longrightarrow> lower \<le> upper \<Longrightarrow> upper \<le> p \<Longrightarrow> amounts L p lower upper = Some (a, b) \<Longrightarrow> a = 0"
  using amounts_exact [of L lower upper p] by (auto simp: exact_amounts_def clamp_def Let_def)

lemma first_amount_antimono:
  fixes p p' :: int
  assumes "0 < p" and "p \<le> p'" and "p' \<le> upper" and "0 \<le> n"
  shows "(n * (upper - p')) div (p' * upper) \<le> (n * (upper - p)) div (p * upper)"
proof -
  have upper: "0 < upper" using assms by linarith
  have "(n * (upper - p')) div (p' * upper) \<le> (n * (upper - p)) div (p' * upper)"
    using assms upper by (intro zdiv_mono1 mult_left_mono) auto
  also have "\<dots> \<le> (n * (upper - p)) div (p * upper)"
    using assms upper by (intro zdiv_mono2 mult_right_mono) auto
  finally show ?thesis .
qed

lemma amounts_move:
  assumes "0 \<le> L" and "0 < lower" and "lower \<le> upper" and "p \<le> p'"
    and "amounts L p lower upper = Some (a, b)" and "amounts L p' lower upper = Some (a', b')"
  shows "a' \<le> a \<and> b \<le> b'"
proof -
  let ?p = "clamp lower upper p" and ?p' = "clamp lower upper p'"
  have range: "0 < ?p" "?p \<le> ?p'" "?p' \<le> upper" using assms by (auto simp: clamp_def)
  have "(L * q * (upper - ?p')) div (?p' * upper) \<le> (L * q * (upper - ?p)) div (?p * upper)"
    using range assms(1) scale_pos by (intro first_amount_antimono) auto
  moreover have "(L * (?p - lower)) div q \<le> (L * (?p' - lower)) div q"
    using range assms(1) scale_pos by (intro zdiv_mono1 mult_left_mono) auto
  ultimately show ?thesis using assms(5,6) amounts_exact [OF assms(1-3)]
    by (auto simp: exact_amounts_def Let_def)
qed

end

end
