(* ===== verification/Uniswap.thy ===== *)
theory Uniswap
  imports FixedPoint
begin

text \<open>
  \<open>uniswap_math.go\<close>: the square-root price of a tick, the amounts behind liquidity, the fees of a growth
  counter and the ticks of a packed position. Integers are unbounded, as \<open>big.Int\<close>'s are.
\<close>

section \<open>The price of a tick\<close>

definition uniswapMaxTick :: int where
  "uniswapMaxTick = 887272"

definition uniswapMaxUint :: int where
  "uniswapMaxUint = 2 ^ 256 - 1"

definition tickMultipliers :: "int list" where
  "tickMultipliers = [
     0xfffcb933bd6fad37aa2d162d1a594001, 0xfff97272373d413259a46990580e213a,
     0xfff2e50f5f656932ef12357cf3c7fdcc, 0xffe5caca7e10e4e61c3624eaa0941cd0,
     0xffcb9843d60f6159c9db58835c926644, 0xff973b41fa98c081472e6896dfb254c0,
     0xff2ea16466c96a3843ec78b326b52861, 0xfe5dee046a99a2a811c461f1969c3053,
     0xfcbe86c7900a88aedcffc83b479aa3a4, 0xf987a7253ac413176f2b074cf7815e54,
     0xf3392b0822b70005940c7a398e4b70f3, 0xe7159475a2c29b7443b29c7fa6e889d9,
     0xd097f3bdfd2022b8845ad8f792aa5825, 0xa9f746462d870fdf8a65dc1f90e061e5,
     0x70d869a156d2a1b890bb3df62baf32f7, 0x31be135f97d08fd981231505542fcfa6,
     0x9aa508b5b7a84e1c677de54f3e99bc9, 0x5d6af8dedb81196699c329225ee604,
     0x2216e584f5fa1ea926041bedfe98, 0x48a170391f7dc42444e8fa2]"

definition q128_mul :: "int \<Rightarrow> int \<Rightarrow> int" where
  "q128_mul ratio m = (ratio * m) div 2 ^ 128"

text \<open>The loop over the bits of the tick, from the second.\<close>

fun apply_bits :: "int \<Rightarrow> int list \<Rightarrow> int \<Rightarrow> int" where
  "apply_bits ratio [] t = ratio"
| "apply_bits ratio (m # ms) t = apply_bits (if odd t then q128_mul ratio m else ratio) ms (t div 2)"

definition tick_ratio :: "int \<Rightarrow> int" where
  "tick_ratio absTick = apply_bits (if odd absTick then hd tickMultipliers else 2 ^ 128) (tl tickMultipliers) (absTick div 2)"

datatype uniswap_error = TickOutside int

definition uniswapSqrtRatioAtTick :: "int \<Rightarrow> (uniswap_error, int) go" where
  "uniswapSqrtRatioAtTick tick = (if \<bar>tick\<bar> > uniswapMaxTick then Inl (Fail (TickOutside tick))
     else bindR (if tick > 0 then quo uniswapMaxUint (tick_ratio \<bar>tick\<bar>) else Inr (tick_ratio \<bar>tick\<bar>)) (\<lambda>ratio.
       Inr (ratio div 2 ^ 32 + (if ratio mod 2 ^ 32 \<noteq> 0 then 1 else 0))))"

section \<open>Amounts\<close>

definition uniswapQ96 :: int where
  "uniswapQ96 = 2 ^ 96"

definition uniswapAmount0ForLiquidity :: "int \<Rightarrow> int \<Rightarrow> int \<Rightarrow> (uniswap_error, int) go" where
  "uniswapAmount0ForLiquidity sqrtA sqrtB liquidity = (let lower = min sqrtA sqrtB; upper = max sqrtA sqrtB in
     bindR (quo (liquidity * 2 ^ 96 * (upper - lower)) upper) (\<lambda>r. quo r lower))"

definition uniswapAmount1ForLiquidity :: "int \<Rightarrow> int \<Rightarrow> int \<Rightarrow> (uniswap_error, int) go" where
  "uniswapAmount1ForLiquidity sqrtA sqrtB liquidity = (let lower = min sqrtA sqrtB; upper = max sqrtA sqrtB in
     quo (liquidity * (upper - lower)) uniswapQ96)"

text \<open>The three branches, over the square-root prices of the range.\<close>

definition range_amounts :: "int \<Rightarrow> int \<Rightarrow> int \<Rightarrow> int \<Rightarrow> (uniswap_error, int \<times> int) go" where
  "range_amounts liquidity price sqrtLower sqrtUpper = (if price \<le> sqrtLower
       then bindR (uniswapAmount0ForLiquidity sqrtLower sqrtUpper liquidity) (\<lambda>a. Inr (a, 0))
     else if price < sqrtUpper
       then bindR (uniswapAmount0ForLiquidity price sqrtUpper liquidity) (\<lambda>a.
         bindR (uniswapAmount1ForLiquidity sqrtLower price liquidity) (\<lambda>b. Inr (a, b)))
     else bindR (uniswapAmount1ForLiquidity sqrtLower sqrtUpper liquidity) (\<lambda>b. Inr (0, b)))"

definition uniswapAmountsForLiquidity :: "int \<Rightarrow> int \<Rightarrow> int \<Rightarrow> int \<Rightarrow> (uniswap_error, int \<times> int) go" where
  "uniswapAmountsForLiquidity sqrtPriceX96 tickLower tickUpper liquidity =
     bindR (uniswapSqrtRatioAtTick tickLower) (\<lambda>sqrtLower. bindR (uniswapSqrtRatioAtTick tickUpper) (\<lambda>sqrtUpper.
       range_amounts liquidity sqrtPriceX96 sqrtLower sqrtUpper))"

section \<open>Fees and packed ticks\<close>

definition growth_delta :: "int \<Rightarrow> int \<Rightarrow> int" where
  "growth_delta currentGrowth lastGrowth = (currentGrowth - lastGrowth) mod 2 ^ 256"

definition uniswapFeesFromGrowth :: "int \<Rightarrow> int \<Rightarrow> int \<Rightarrow> (uniswap_error, int) go" where
  "uniswapFeesFromGrowth liquidity currentGrowth lastGrowth = quo (liquidity * growth_delta currentGrowth lastGrowth) (2 ^ 128)"

definition uniswapDecodePackedInt24 :: "int \<Rightarrow> nat \<Rightarrow> int" where
  "uniswapDecodePackedInt24 packed offset = (let decoded = (packed div 2 ^ offset) mod 2 ^ 24 in
     if decoded \<ge> 0x800000 then decoded - 0x1000000 else decoded)"

section \<open>Bounds of the price\<close>

interpretation q128: truncating "2 ^ 128" q128_mul
  using floor_mul_fixed_point(2) [of "2 ^ 128"] by (simp add: q128_mul_def [abs_def])

text \<open>The multipliers are below one, so a bit that is set lowers the ratio.\<close>

definition proper_bits :: "int list \<Rightarrow> bool" where
  "proper_bits ms \<longleftrightarrow> list_all (\<lambda>m. 0 \<le> m \<and> m \<le> 2 ^ 128) ms"

lemma tickMultipliers_proper: "proper_bits tickMultipliers"
  by (simp add: proper_bits_def tickMultipliers_def)

lemma apply_bits_mono: "proper_bits ms \<Longrightarrow> 0 \<le> r \<Longrightarrow> r \<le> r' \<Longrightarrow> apply_bits r ms t \<le> apply_bits r' ms t"
proof (induction r ms t arbitrary: r' rule: apply_bits.induct)
  case (2 r m ms t)
  then show ?case using q128.mul_mono [of r r' m m] q128.mul_nonneg [of r m] by (simp add: proper_bits_def)
qed simp

lemma apply_bits_le: "proper_bits ms \<Longrightarrow> 0 \<le> r \<Longrightarrow> apply_bits r ms t \<le> r \<and> 0 \<le> apply_bits r ms t"
proof (induction r ms t rule: apply_bits.induct)
  case (2 r m ms t)
  then show ?case using q128.mul_shrinks [of r m] q128.mul_nonneg [of r m] by (fastforce simp: proper_bits_def)
qed simp

text \<open>
  A number up to \<open>T\<close> agrees with \<open>T\<close> above some bit and is free below it: \<open>lowest\<close> is the least ratio of
  those, with every free bit set.
\<close>

fun lowest :: "int \<Rightarrow> int list \<Rightarrow> int \<Rightarrow> int" where
  "lowest r [] T = r"
| "lowest r (m # ms) T = (let exact_bits = apply_bits (if odd T then q128_mul r m else r) ms (T div 2) in
     if T div 2 \<le> 0 then exact_bits else min exact_bits (lowest (q128_mul r m) ms (T div 2 - 1)))"

lemma lowest_le: "proper_bits ms \<Longrightarrow> 0 \<le> r \<Longrightarrow> 0 \<le> t \<Longrightarrow> t \<le> T \<Longrightarrow> lowest r ms T \<le> apply_bits r ms t"
proof (induction r ms T arbitrary: t rule: lowest.induct)
  case (2 r m ms T)
  let ?step = "\<lambda>u. if odd u then q128_mul r m else r"
  have m: "proper_bits ms" "0 \<le> m" "m \<le> 2 ^ 128" using "2.prems"(1) by (simp_all add: proper_bits_def)
  have step: "0 \<le> q128_mul r m" "q128_mul r m \<le> r"
    using q128.mul_nonneg q128.mul_shrinks m "2.prems"(2) by auto
  show ?case
  proof (cases "t div 2 = T div 2")
    case True
    have "odd t \<longrightarrow> odd T" using True "2.prems"(4) by presburger
    then have "apply_bits (?step T) ms (T div 2) \<le> apply_bits (?step t) ms (T div 2)"
      using step "2.prems"(2) by (intro apply_bits_mono [OF m(1)]) auto
    then show ?thesis using True by (auto simp: Let_def min_def)
  next
    case False
    have less: "t div 2 < T div 2" using False "2.prems"(4) by (simp add: zdiv_mono1 order.strict_iff_order)
    then have far: "\<not> T div 2 \<le> 0" using "2.prems"(3) by (smt (verit) pos_imp_zdiv_nonneg_iff)
    have "lowest (q128_mul r m) ms (T div 2 - 1) \<le> apply_bits (q128_mul r m) ms (t div 2)"
      using "2.IH" [OF refl far m(1) step(1), of "t div 2"] less "2.prems"(3) by simp
    also have "\<dots> \<le> apply_bits (?step t) ms (t div 2)"
      using step by (intro apply_bits_mono [OF m(1)]) auto
    finally show ?thesis using far by (simp add: Let_def)
  qed
qed simp

lemma tick_ratio_bits: "tick_ratio t = apply_bits (2 ^ 128) tickMultipliers t"
proof -
  have "apply_bits (2 ^ 128) (hd tickMultipliers # tl tickMultipliers) t = tick_ratio t"
    by (simp add: tick_ratio_def q128_mul_def)
  moreover have "hd tickMultipliers # tl tickMultipliers = tickMultipliers" by (simp add: tickMultipliers_def)
  ultimately show ?thesis by (simp only:)
qed

lemma q128_mul_drop: "q128_mul r m = drop_bit 128 (r * m)"
  by (simp add: q128_mul_def drop_bit_eq_div)

lemma tick_ratio_top: "tick_ratio uniswapMaxTick = 18447437462383981825"
  by (simp add: tick_ratio_def uniswapMaxTick_def tickMultipliers_def q128_mul_drop)

text \<open>Below the last tick twenty bits of each multiplier are enough to stay above the last ratio.\<close>

definition coarse_multipliers :: "int list" where
  "coarse_multipliers = [
     1048523 * 2 ^ 108, 1048471 * 2 ^ 108, 1048366 * 2 ^ 108, 1048156 * 2 ^ 108, 1047737 * 2 ^ 108,
     1046899 * 2 ^ 108, 1045226 * 2 ^ 108, 1041886 * 2 ^ 108, 1035240 * 2 ^ 108, 1022074 * 2 ^ 108,
     996242 * 2 ^ 108, 946521 * 2 ^ 108, 854399 * 2 ^ 108, 696180 * 2 ^ 108, 924429 * 2 ^ 107,
     814980 * 2 ^ 106, 633424 * 2 ^ 104, 765279 * 2 ^ 99, 558521 * 2 ^ 90, 594990 * 2 ^ 71]"

lemma coarse_multipliers_le: "list_all2 (\<le>) coarse_multipliers tickMultipliers"
  by (simp add: coarse_multipliers_def tickMultipliers_def)

lemma apply_bits_mono_multipliers:
  "list_all2 (\<le>) ns ms \<Longrightarrow> proper_bits ns \<Longrightarrow> proper_bits ms \<Longrightarrow> 0 \<le> r \<Longrightarrow> apply_bits r ns t \<le> apply_bits r ms t"
proof (induction ns ms arbitrary: r t rule: list_all2_induct)
  case (Cons n ns m ms)
  let ?step = "\<lambda>m. if odd t then q128_mul r m else r"
  have proper: "proper_bits ns" "proper_bits ms" "0 \<le> n" "0 \<le> m" using Cons.prems by (simp_all add: proper_bits_def)
  have step: "0 \<le> ?step n" "0 \<le> ?step m" "?step n \<le> ?step m"
    using q128.mul_nonneg q128.mul_mono Cons.hyps(1) proper(3,4) Cons.prems(3) by auto
  have "apply_bits (?step n) ns (t div 2) \<le> apply_bits (?step n) ms (t div 2)"
    by (rule Cons.IH [OF proper(1,2) step(1)])
  also have "\<dots> \<le> apply_bits (?step m) ms (t div 2)"
    by (rule apply_bits_mono [OF proper(2) step(1,3)])
  finally show ?case by simp
qed simp

lemma lowest_coarse: "18447437462383981825 \<le> lowest (2 ^ 128) coarse_multipliers 887271"
  by (simp add: coarse_multipliers_def q128_mul_drop)

lemma tick_ratio_range:
  assumes "0 \<le> t" and "t \<le> uniswapMaxTick"
  shows "18447437462383981825 \<le> tick_ratio t \<and> tick_ratio t \<le> 2 ^ 128"
proof -
  have proper: "proper_bits coarse_multipliers" by (simp add: proper_bits_def coarse_multipliers_def)
  have "18447437462383981825 \<le> tick_ratio t"
  proof (cases "t = uniswapMaxTick")
    case True
    then show ?thesis by (simp add: tick_ratio_top)
  next
    case False
    then have "t \<le> 887271" using assms(2) by (simp add: uniswapMaxTick_def)
    then have "lowest (2 ^ 128) coarse_multipliers 887271 \<le> apply_bits (2 ^ 128) coarse_multipliers t"
      using assms(1) by (intro lowest_le [OF proper]) simp_all
    also have "\<dots> \<le> tick_ratio t"
      unfolding tick_ratio_bits
      by (rule apply_bits_mono_multipliers [OF coarse_multipliers_le proper tickMultipliers_proper]) simp
    finally show ?thesis using lowest_coarse by simp
  qed
  then show ?thesis using apply_bits_le [OF tickMultipliers_proper, of "2 ^ 128" t] by (simp add: tick_ratio_bits)
qed

lemma sqrt_ratio_run:
  assumes "\<bar>tick\<bar> \<le> uniswapMaxTick"
  shows "uniswapSqrtRatioAtTick tick = Inr (let ratio = (if tick > 0 then uniswapMaxUint div tick_ratio \<bar>tick\<bar> else tick_ratio \<bar>tick\<bar>)
      in ratio div 2 ^ 32 + (if ratio mod 2 ^ 32 \<noteq> 0 then 1 else 0))"
proof -
  have "0 < tick_ratio \<bar>tick\<bar>" using tick_ratio_range [of "\<bar>tick\<bar>"] assms by simp
  then show ?thesis using assms by (simp add: uniswapSqrtRatioAtTick_def Let_def uniswapMaxUint_def)
qed

text \<open>Dropping 32 bits and rounding up.\<close>

definition round_up :: "int \<Rightarrow> int" where
  "round_up r = r div 2 ^ 32 + (if r mod 2 ^ 32 \<noteq> 0 then 1 else 0)"

lemma round_up_mono:
  assumes "r \<le> r'"
  shows "round_up r \<le> round_up r'"
proof (cases "r div 2 ^ 32 = r' div 2 ^ 32")
  case True
  then have "r mod 2 ^ 32 \<le> r' mod 2 ^ 32" using assms by (simp only: minus_div_mult_eq_mod [symmetric])
  moreover have "0 \<le> r mod 2 ^ 32" by simp
  ultimately show ?thesis using True by (auto simp: round_up_def)
next
  case False
  then have "r div 2 ^ 32 < r' div 2 ^ 32" using assms by (simp add: zdiv_mono1 order.strict_iff_order)
  then show ?thesis by (simp add: round_up_def)
qed

lemma sqrt_ratio_bounds:
  "uniswapSqrtRatioAtTick tick \<noteq> Inl Panic
   \<and> (uniswapSqrtRatioAtTick tick = Inl (Fail (TickOutside tick)) \<longleftrightarrow> \<bar>tick\<bar> > 887272)
   \<and> (\<forall>r. uniswapSqrtRatioAtTick tick = Inr r \<longrightarrow> 4295128739 \<le> r \<and> r \<le> 1461446703485210103287273052203988822378723970342)"
proof (cases "\<bar>tick\<bar> \<le> uniswapMaxTick")
  case True
  let ?t = "tick_ratio \<bar>tick\<bar>"
  let ?r = "if tick > 0 then uniswapMaxUint div ?t else ?t"
  have t: "18447437462383981825 \<le> ?t" "?t \<le> 2 ^ 128" using tick_ratio_range [of "\<bar>tick\<bar>"] True by auto
  have "18447437462383981825 \<le> ?r \<and> ?r \<le> uniswapMaxUint div 18447437462383981825"
  proof (cases "tick > 0")
    case True
    have "uniswapMaxUint div 2 ^ 128 \<le> uniswapMaxUint div ?t"
      using t by (intro zdiv_mono2) (simp_all add: uniswapMaxUint_def)
    moreover have "uniswapMaxUint div ?t \<le> uniswapMaxUint div 18447437462383981825"
      using t by (intro zdiv_mono2) (simp_all add: uniswapMaxUint_def)
    ultimately show ?thesis using True by (simp add: uniswapMaxUint_def)
  next
    case False
    have "(2 :: int) ^ 128 \<le> uniswapMaxUint div 18447437462383981825" by (simp add: uniswapMaxUint_def)
    then show ?thesis using t False by simp
  qed
  then have "round_up 18447437462383981825 \<le> round_up ?r \<and> round_up ?r \<le> round_up (uniswapMaxUint div 18447437462383981825)"
    using round_up_mono by blast
  moreover have "round_up 18447437462383981825 = 4295128739" by (simp add: round_up_def)
  moreover have "round_up (uniswapMaxUint div 18447437462383981825) = 1461446703485210103287273052203988822378723970342"
    by (simp add: round_up_def uniswapMaxUint_def)
  moreover have "uniswapSqrtRatioAtTick tick = Inr (round_up ?r)"
    using sqrt_ratio_run [OF True] by (simp add: round_up_def Let_def)
  ultimately show ?thesis using True by (auto simp: uniswapMaxTick_def)
next
  case False
  then show ?thesis by (simp add: uniswapSqrtRatioAtTick_def uniswapMaxTick_def)
qed

text \<open>The square-root price of a tick exists for exactly the ticks up to 887272 on either side, and
  always lies between the smallest and largest square-root prices a pool admits; the division of a
  positive tick never panics.\<close>

lemma sqrt_ratio_in_range:
  "uniswapSqrtRatioAtTick tick \<noteq> Inl Panic
   \<and> (uniswapSqrtRatioAtTick tick = Inl (Fail (TickOutside tick)) \<longleftrightarrow> \<bar>tick\<bar> > 887272)
   \<and> (\<forall>r. uniswapSqrtRatioAtTick tick = Inr r \<longrightarrow> 4295128739 \<le> r \<and> r \<le> 1461446703485210103287273052203988822378723970342)"
  by (rule sqrt_ratio_bounds)

section \<open>The amounts are the exact quotients rounded down\<close>

lemma amount0_exact:
  assumes "0 \<le> L" and "0 < lower" and "lower \<le> upper"
  shows "uniswapAmount0ForLiquidity lower upper L = Inr ((L * 2 ^ 96 * (upper - lower)) div (lower * upper))"
proof -
  have "0 \<le> (L * 2 ^ 96 * (upper - lower)) div upper" using assms by (simp add: pos_imp_zdiv_nonneg_iff)
  then show ?thesis using assms
    by (simp add: uniswapAmount0ForLiquidity_def min_def max_def Let_def zdiv_zmult2_eq [symmetric] mult.commute)
qed

lemma amount1_exact: "0 \<le> L \<Longrightarrow> lower \<le> upper \<Longrightarrow> uniswapAmount1ForLiquidity lower upper L = Inr ((L * (upper - lower)) div 2 ^ 96)"
  by (simp add: uniswapAmount1ForLiquidity_def min_def max_def Let_def uniswapQ96_def)

lemma range_amounts_exact:
  assumes "0 \<le> L" and "0 < lower" and "lower \<le> upper"
  shows "range_amounts L p lower upper = Inr (exact_amounts uniswapQ96 L p lower upper)"
  using assms amount0_exact [OF assms] amount0_exact [OF assms(1), of p upper] amount1_exact [OF assms(1)]
  by (auto simp: range_amounts_def exact_amounts_def clamp_def min_def max_def Let_def uniswapQ96_def)

definition go_value :: "'e fault + 'a \<Rightarrow> 'a option" where
  "go_value r = (case r of Inr x \<Rightarrow> Some x | Inl _ \<Rightarrow> None)"

interpretation uniswap_liquidity: concentrated_liquidity uniswapQ96 "\<lambda>L p lower upper. go_value (range_amounts L p lower upper)"
  by unfold_locales (simp_all add: uniswapQ96_def range_amounts_exact [unfolded uniswapQ96_def] go_value_def)

text \<open>C38: a position's amounts are, at every price, the exact amounts of its liquidity at the price
  brought into its range, rounded down once; never negative, of one token alone outside the range.\<close>

theorem uniswap_amounts_exact:
  assumes "0 \<le> liquidity" and "uniswapSqrtRatioAtTick tickLower = Inr lower" and "uniswapSqrtRatioAtTick tickUpper = Inr upper"
    and "lower \<le> upper"
  shows "\<exists>a b. uniswapAmountsForLiquidity price tickLower tickUpper liquidity = Inr (a, b)
     \<and> a = (liquidity * 2 ^ 96 * (upper - clamp lower upper price)) div (clamp lower upper price * upper)
     \<and> b = (liquidity * (clamp lower upper price - lower)) div 2 ^ 96
     \<and> 0 \<le> a \<and> 0 \<le> b \<and> (price \<le> lower \<longrightarrow> b = 0) \<and> (upper \<le> price \<longrightarrow> a = 0)"
proof -
  have lower: "0 < lower" using sqrt_ratio_bounds [of tickLower] assms(2) by fastforce
  obtain a b where ab: "exact_amounts uniswapQ96 liquidity price lower upper = (a, b)" by fastforce
  then have run: "range_amounts liquidity price lower upper = Inr (a, b)"
    using range_amounts_exact [OF assms(1) lower assms(4)] by simp
  then have value_run: "go_value (range_amounts liquidity price lower upper) = Some (a, b)" by (simp add: go_value_def)
  note position = uniswap_liquidity.amounts_nonneg [OF assms(1) lower assms(4) value_run]
    uniswap_liquidity.amounts_below [OF assms(1) lower assms(4) _ value_run]
    uniswap_liquidity.amounts_above [OF assms(1) lower assms(4) _ value_run]
  show ?thesis
    using run ab position assms(2,3)
    by (auto simp: uniswapAmountsForLiquidity_def exact_amounts_def uniswapQ96_def Let_def)
qed

theorem uniswap_amounts_exact_witness:
  "uniswapAmountsForLiquidity (2 ^ 96) (-1) 1 (10 ^ 18) = Inr (49996250312472, 49996250312472)"
proof -
  have ratio: "tick_ratio 1 = 0xfffcb933bd6fad37aa2d162d1a594001"
    by (simp add: tick_ratio_def tickMultipliers_def)
  have lower: "uniswapSqrtRatioAtTick (-1) = Inr 79224201403219477170569942574" and upper: "uniswapSqrtRatioAtTick 1 = Inr 79232123823359799118286999568"
    using sqrt_ratio_run [of "-1"] sqrt_ratio_run [of 1] by (simp_all add: ratio uniswapMaxTick_def uniswapMaxUint_def)
  show ?thesis
    using uniswap_amounts_exact [OF _ lower upper, of "10 ^ 18" "2 ^ 96"] by (simp add: clamp_def)
qed

section \<open>Fees and packed ticks\<close>

interpretation growth256: wrapping_counter "2 ^ 256" growth_delta
  by unfold_locales (simp_all add: growth_delta_def)

lemma uniswap_fees_exact:
  assumes "0 \<le> liquidity" and "0 \<le> grown" and "grown < 2 ^ 256" and "currentGrowth mod 2 ^ 256 = (lastGrowth + grown) mod 2 ^ 256"
  shows "uniswapFeesFromGrowth liquidity currentGrowth lastGrowth = Inr ((liquidity * grown) div 2 ^ 128)"
  using growth256.distance_advanced [OF assms(2-4)] assms(1,2) by (simp add: uniswapFeesFromGrowth_def)

text \<open>An integer of 24 bits, in two's complement, among the bits around it.\<close>

lemma decode_field:
  assumes "- (2 ^ 23) \<le> t" and "t < 2 ^ 23" and "0 \<le> low" and "low < 2 ^ offset"
  shows "uniswapDecodePackedInt24 (low + 2 ^ offset * (t mod 2 ^ 24 + 2 ^ 24 * high)) offset = t"
proof -
  have "(low + 2 ^ offset * (t mod 2 ^ 24 + 2 ^ 24 * high)) div 2 ^ offset = t mod 2 ^ 24 + 2 ^ 24 * high"
    using assms(3,4) by (simp add: div_mult_self2 [symmetric])
  then have "(low + 2 ^ offset * (t mod 2 ^ 24 + 2 ^ 24 * high)) div 2 ^ offset mod 2 ^ 24 = t mod 2 ^ 24"
    by simp
  moreover have "t mod 2 ^ 24 = (if 0 \<le> t then t else t + 2 ^ 24)"
  proof (cases "0 \<le> t")
    case False
    then have "(t + 2 ^ 24) mod 2 ^ 24 = t + 2 ^ 24" using assms(1) by (intro mod_pos_pos_trivial) auto
    then show ?thesis using False by simp
  qed (use assms(2) in simp)
  ultimately show ?thesis using assms(1,2) by (auto simp: uniswapDecodePackedInt24_def Let_def)
qed

text \<open>A position's packed information: eight flags, the lower and the upper tick, and its pool.\<close>

definition packed_info :: "int \<Rightarrow> int \<Rightarrow> int \<Rightarrow> int \<Rightarrow> int" where
  "packed_info flags tickLower tickUpper pool = flags + 2 ^ 8 * (tickLower mod 2 ^ 24) + 2 ^ 32 * (tickUpper mod 2 ^ 24) + 2 ^ 56 * pool"

text \<open>The ticks of a packed position decode to what was packed, negative ticks included, whatever
  the flags and the pool around them.\<close>

lemma packed_ticks_roundtrip:
  assumes "0 \<le> flags" and "flags < 2 ^ 8" and "- (2 ^ 23) \<le> lower" and "lower < 2 ^ 23" and "- (2 ^ 23) \<le> upper" and "upper < 2 ^ 23"
  shows "uniswapDecodePackedInt24 (packed_info flags lower upper pool) 8 = lower
     \<and> uniswapDecodePackedInt24 (packed_info flags lower upper pool) 32 = upper"
proof -
  have "0 \<le> lower mod 2 ^ 24 \<and> lower mod 2 ^ 24 < 2 ^ 24" by simp
  then have low: "0 \<le> flags + 2 ^ 8 * (lower mod 2 ^ 24)" "flags + 2 ^ 8 * (lower mod 2 ^ 24) < 2 ^ 32"
    using assms(1,2) by auto
  have packed: "packed_info flags lower upper pool
      = flags + 2 ^ 8 * (lower mod 2 ^ 24 + 2 ^ 24 * (upper mod 2 ^ 24 + 2 ^ 24 * pool))"
    "packed_info flags lower upper pool
      = (flags + 2 ^ 8 * (lower mod 2 ^ 24)) + 2 ^ 32 * (upper mod 2 ^ 24 + 2 ^ 24 * pool)"
    by (simp_all add: packed_info_def algebra_simps)
  show ?thesis
    using decode_field [OF assms(3,4,1,2)] decode_field [OF assms(5,6) low] unfolding packed(1) [symmetric] packed(2) [symmetric]
    by (metis packed)
qed

end
