(* ===== verification/SuiClmm.thy ===== *)
theory SuiClmm
  imports Uniswap
begin

text \<open>
  \<open>sui_clmm_math.go\<close> and the reward growth of \<open>sui_clmm.go\<close>: the amounts of a concentrated liquidity
  position on Sui, the fee growth inside its range, and what it is owed. Growth counters wrap at
  \<open>2 ^ 128\<close>; ticks are the \<open>int32\<close> values the parser admits.
\<close>

datatype clmm_error = AccruedExceedsU64 | RewardGrowthExceedsU128

section \<open>Amounts\<close>

definition suiCLMMAmounts :: "int \<Rightarrow> int \<Rightarrow> int \<Rightarrow> int \<Rightarrow> (clmm_error, int \<times> int) go" where
  "suiCLMMAmounts liquidity price lower upper = (let p = price; p = (if p < lower then lower else p);
       p = (if p > upper then upper else p) in
     bindR (euclid_div ((upper - p) * liquidity * 2 ^ 64) (p * upper)) (\<lambda>a.
       bindR (euclid_div ((p - lower) * liquidity) (2 ^ 64)) (\<lambda>b. Inr (a, b))))"

lemma suiCLMMAmounts_exact:
  assumes "0 < lower" and "lower \<le> upper"
  shows "suiCLMMAmounts liquidity price lower upper = Inr (exact_amounts (2 ^ 64) liquidity price lower upper)"
proof -
  have clamped: "(let p = price; p = (if p < lower then lower else p) in if p > upper then upper else p) = clamp lower upper price"
    using assms(2) by (auto simp: clamp_def)
  have positive: "0 < clamp lower upper price * upper" using assms by (auto simp: clamp_def)
  have product: "(upper - c) * liquidity * q = liquidity * q * (upper - c)"
      "(c - lower) * liquidity = liquidity * (c - lower)" for c q
    by (simp_all only: ac_simps)
  show ?thesis using positive clamped unfolding suiCLMMAmounts_def exact_amounts_def Let_def by (simp add: product)
qed

interpretation sui_liquidity: concentrated_liquidity "2 ^ 64" "\<lambda>L p lower upper. go_value (suiCLMMAmounts L p lower upper)"
  by unfold_locales (simp_all add: suiCLMMAmounts_exact go_value_def)

text \<open>Whatever the price, a position's two amounts are not negative; as the price rises the first
  never rises and the second never falls; below the range it holds only the first token and above
  it only the second.\<close>

lemma sui_amounts_move_with_price:
  assumes "0 \<le> liquidity" and "0 < lower" and "lower \<le> upper" and "p \<le> p'"
  shows "\<exists>a b a' b'. suiCLMMAmounts liquidity p lower upper = Inr (a, b) \<and> suiCLMMAmounts liquidity p' lower upper = Inr (a', b')
     \<and> 0 \<le> a' \<and> a' \<le> a \<and> 0 \<le> b \<and> b \<le> b' \<and> (p \<le> lower \<longrightarrow> b = 0) \<and> (upper \<le> p' \<longrightarrow> a' = 0)"
proof -
  obtain a b a' b' where run: "suiCLMMAmounts liquidity p lower upper = Inr (a, b)" "suiCLMMAmounts liquidity p' lower upper = Inr (a', b')"
    using suiCLMMAmounts_exact [OF assms(2,3)] by (metis surj_pair)
  then have value_run: "go_value (suiCLMMAmounts liquidity p lower upper) = Some (a, b)"
      "go_value (suiCLMMAmounts liquidity p' lower upper) = Some (a', b')" by (simp_all add: go_value_def)
  show ?thesis
    using run sui_liquidity.amounts_nonneg [OF assms(1-3) value_run(1)] sui_liquidity.amounts_nonneg [OF assms(1-3) value_run(2)]
      sui_liquidity.amounts_move [OF assms value_run] sui_liquidity.amounts_below [OF assms(1-3) _ value_run(1)]
      sui_liquidity.amounts_above [OF assms(1-3) _ value_run(2)]
    by blast
qed

section \<open>Growth inside a range\<close>

definition suiCLMMMod128 :: int where
  "suiCLMMMod128 = 2 ^ 128"

definition suiCLMMSub :: "int \<Rightarrow> int \<Rightarrow> int" where
  "suiCLMMSub a b = (a - b) mod suiCLMMMod128"

definition suiCLMMInside :: "int \<Rightarrow> int \<Rightarrow> int \<Rightarrow> int \<Rightarrow> int \<Rightarrow> int \<Rightarrow> int" where
  "suiCLMMInside global lower upper current lo hi =
     (let below = (if current < lo then suiCLMMSub global lower else lower);
          above = (if current \<ge> hi then suiCLMMSub global upper else upper) in
      suiCLMMSub (suiCLMMSub global below) above)"

definition suiCLMMOwed :: "int \<Rightarrow> int \<Rightarrow> int \<Rightarrow> int \<Rightarrow> clmm_error + int" where
  "suiCLMMOwed owed last_inside inside liquidity =
     (let delta = (suiCLMMSub inside last_inside * liquidity) div 2 ^ 64 + owed in
      if is_uint64 delta then Inr delta else Inl AccruedExceedsU64)"

text \<open>The growth of a reward up to the observed time, never backwards.\<close>

definition reward_growth :: "int \<Rightarrow> u64 \<Rightarrow> u64 \<Rightarrow> u64 \<Rightarrow> int \<Rightarrow> int \<Rightarrow> clmm_error + int" where
  "reward_growth global now ends last_update rate pool_liquidity = (let until = min now ends in
     if until > last_update \<and> pool_liquidity > 0 then
       (let delta = (uint (until - last_update) * rate) div pool_liquidity in
        if bitlen_gt delta 128 then Inl RewardGrowthExceedsU128 else Inr ((global + delta) mod suiCLMMMod128))
     else Inr global)"

interpretation growth128: wrapping_counter suiCLMMMod128 suiCLMMSub
  by unfold_locales (simp_all add: suiCLMMMod128_def suiCLMMSub_def)

text \<open>
  How a pool keeps its counters: growth is added to the global counter, and a move of the current tick
  past a boundary replaces the boundary's outside counter with the global counter less itself.
\<close>

record pool_growth =
  pg_global :: int
  pg_lower :: int
  pg_upper :: int
  pg_current :: int

datatype pool_event = Grow int | Move int

definition pool_step :: "int \<Rightarrow> int \<Rightarrow> pool_growth \<Rightarrow> pool_event \<Rightarrow> pool_growth" where
  "pool_step lo hi s ev = (case ev of
       Grow d \<Rightarrow> s\<lparr>pg_global := (pg_global s + d) mod 2 ^ 128\<rparr>
     | Move t \<Rightarrow> s\<lparr>pg_current := t,
         pg_lower := (if (pg_current s < lo) \<noteq> (t < lo) then (pg_global s - pg_lower s) mod 2 ^ 128 else pg_lower s),
         pg_upper := (if (pg_current s \<ge> hi) \<noteq> (t \<ge> hi) then (pg_global s - pg_upper s) mod 2 ^ 128 else pg_upper s)\<rparr>)"

text \<open>The growth while the current tick was in the range.\<close>

fun grown_in_range :: "int \<Rightarrow> int \<Rightarrow> pool_growth \<Rightarrow> pool_event list \<Rightarrow> int" where
  "grown_in_range lo hi s [] = 0"
| "grown_in_range lo hi s (ev # evs) = (case ev of Grow d \<Rightarrow> (if lo \<le> pg_current s \<and> pg_current s < hi then d else 0) | Move t \<Rightarrow> 0)
     + grown_in_range lo hi (pool_step lo hi s ev) evs"

definition inside_of :: "int \<Rightarrow> int \<Rightarrow> pool_growth \<Rightarrow> int" where
  "inside_of lo hi s = suiCLMMInside (pg_global s) (pg_lower s) (pg_upper s) (pg_current s) lo hi"

text \<open>A counter inside a difference may be taken before it wraps.\<close>

lemma wrapped_terms:
  fixes m :: int
  shows "(x + y mod m - z) mod m = (x + y - z) mod m" and "(x - (y + z mod m)) mod m = (x - (y + z)) mod m"
    and "(x - (y mod m + z mod m)) mod m = (x - (y + z)) mod m"
proof -
  have "(x + y mod m - z) mod m = (x + y mod m + (- z)) mod m" by simp
  also have "\<dots> = (x + y + (- z)) mod m" by (metis mod_add_left_eq mod_add_right_eq)
  finally show "(x + y mod m - z) mod m = (x + y - z) mod m" by simp
  have right: "(x - (y + z mod m)) mod m = (x - (y + z)) mod m" for y z
    by (metis mod_add_right_eq mod_diff_right_eq)
  show "(x - (y + z mod m)) mod m = (x - (y + z)) mod m" by (rule right)
  show "(x - (y mod m + z mod m)) mod m = (x - (y + z)) mod m"
    unfolding right by (metis add.commute right)
qed

lemma inside_cases:
  "suiCLMMInside global lower upper current lo hi = (if current < lo then (if current \<ge> hi then (lower + upper - global) mod 2 ^ 128 else (lower - upper) mod 2 ^ 128)
     else if current \<ge> hi then (upper - lower) mod 2 ^ 128 else (global - lower - upper) mod 2 ^ 128)"
  by (simp add: suiCLMMInside_def suiCLMMSub_def suiCLMMMod128_def Let_def mod_simps algebra_simps wrapped_terms)

lemma inside_step:
  assumes "lo < hi"
  shows "inside_of lo hi (pool_step lo hi s ev) = (inside_of lo hi s
     + (case ev of Grow d \<Rightarrow> (if lo \<le> pg_current s \<and> pg_current s < hi then d else 0) | Move t \<Rightarrow> 0)) mod 2 ^ 128"
  using assms by (cases ev) (auto simp: inside_of_def inside_cases pool_step_def mod_simps algebra_simps wrapped_terms)

lemma inside_run:
  assumes "lo < hi"
  shows "inside_of lo hi (foldl (pool_step lo hi) s evs) mod 2 ^ 128 = (inside_of lo hi s + grown_in_range lo hi s evs) mod 2 ^ 128"
proof (induction evs arbitrary: s)
  case (Cons ev evs)
  show ?case using Cons.IH [of "pool_step lo hi s ev"] inside_step [OF assms, of s ev]
    by (simp add: mod_simps algebra_simps)
qed simp

text \<open>C39: whatever a pool did since a position was last settled (growth, the price crossing either end
  of its range any number of times, counters that wrapped), the position is owed what it was owed
  plus its share of the growth while the price was in its range, rounded down; or the read fails
  because that amount exceeds 64 bits.\<close>

theorem sui_owed_exact:
  assumes "lo < hi" and "0 \<le> grown_in_range lo hi s evs" and "grown_in_range lo hi s evs < 2 ^ 128"
    and "0 \<le> owed" and "0 \<le> liquidity"
  shows "suiCLMMOwed owed (inside_of lo hi s) (inside_of lo hi (foldl (pool_step lo hi) s evs)) liquidity
     = (let due = owed + (grown_in_range lo hi s evs * liquidity) div 2 ^ 64 in
        if due < 2 ^ 64 then Inr due else Inl AccruedExceedsU64)"
proof -
  let ?grown = "grown_in_range lo hi s evs"
  have "suiCLMMSub (inside_of lo hi (foldl (pool_step lo hi) s evs)) (inside_of lo hi s) = ?grown"
    using assms(2,3) inside_run [OF assms(1), of s evs]
    by (intro growth128.distance_advanced) (simp_all add: suiCLMMMod128_def)
  moreover have "0 \<le> (?grown * liquidity) div 2 ^ 64" using assms(2,5) by (simp add: pos_imp_zdiv_nonneg_iff)
  ultimately show ?thesis using assms(4) by (simp add: suiCLMMOwed_def is_uint64_def Let_def add.commute)
qed

definition wrapped_pool :: pool_growth where
  "wrapped_pool = \<lparr>pg_global = 2 ^ 128 - 5, pg_lower = 7, pg_upper = 2 ^ 128 - 1, pg_current = 10\<rparr>"

theorem sui_owed_exact_witness:
  "suiCLMMOwed 3 (inside_of 0 20 wrapped_pool)
     (inside_of 0 20 (foldl (pool_step 0 20) wrapped_pool [Grow (2 ^ 64), Move 25, Grow 999, Move 5, Grow (2 ^ 65)])) 10 = Inr 33"
proof -
  have grown: "grown_in_range 0 20 wrapped_pool [Grow (2 ^ 64), Move 25, Grow 999, Move 5, Grow (2 ^ 65)] = 3 * 2 ^ 64"
    by (simp add: wrapped_pool_def pool_step_def)
  show ?thesis
    using sui_owed_exact [of 0 20 wrapped_pool "[Grow (2 ^ 64), Move 25, Grow 999, Move 5, Grow (2 ^ 65)]" 3 10]
    unfolding grown by simp
qed

end
