(* ===== verification/Lending.thy ===== *)
theory Lending
  imports FixedPoint
begin

text \<open>
  Interest as two lending protocols accrue it: Morpho's market balances (\<open>morpho_math.go\<close>) and NAVI's
  ray indices (\<open>navi_math.go\<close>). Integers are unbounded, times and elapsed seconds are words of 64 bits.
\<close>

section \<open>Morpho\<close>

record morphoMarketState =
  TotalSupplyAssets :: int
  TotalSupplyShares :: int
  TotalBorrowAssets :: int
  TotalBorrowShares :: int
  LastUpdate :: int
  Fee :: int

definition morphoMulDivDown :: "int \<Rightarrow> int \<Rightarrow> int \<Rightarrow> (unit, int) go" where
  "morphoMulDivDown x y denominator = euclid_div (x * y) denominator"

definition morphoMulDivUp :: "int \<Rightarrow> int \<Rightarrow> int \<Rightarrow> (unit, int) go" where
  "morphoMulDivUp x y denominator = (if x = 0 \<or> y = 0 then Inr 0
     else euclid_div (x * y + (denominator - 1)) denominator)"

definition morphoShareFraction :: "int \<Rightarrow> int \<Rightarrow> int \<Rightarrow> int \<times> int" where
  "morphoShareFraction shares totalAssets totalShares = (shares * (totalAssets + 1), totalShares + 1000000)"

definition morphoEffectiveSupplyShares :: "int \<Rightarrow> int \<Rightarrow> address \<Rightarrow> address \<Rightarrow> int" where
  "morphoEffectiveSupplyShares storedShares pendingFeeShares account feeRecipient =
     (if feeRecipient \<noteq> 0 \<and> account = feeRecipient then storedShares + pendingFeeShares else storedShares)"

definition wad :: int where
  "wad = 1000000000000000000"

definition accrue_fee :: "morphoMarketState \<Rightarrow> int \<Rightarrow> (unit, morphoMarketState \<times> int) go" where
  "accrue_fee r interest = (if Fee r > 0 \<and> interest > 0
     then bindR (morphoMulDivDown interest (Fee r) wad) (\<lambda>feeAmount.
       bindR (morphoMulDivDown feeAmount (TotalSupplyShares r + 1000000) (TotalSupplyAssets r - feeAmount + 1)) (\<lambda>feeShares.
         Inr (r\<lparr>TotalSupplyShares := TotalSupplyShares r + feeShares\<rparr>, feeShares)))
     else Inr (r, 0))"

definition morphoExpectedMarketBalances :: "morphoMarketState \<Rightarrow> int \<Rightarrow> u64 \<Rightarrow> (unit, morphoMarketState \<times> int) go" where
  "morphoExpectedMarketBalances state borrowRate elapsed =
     (if elapsed = 0 \<or> TotalBorrowAssets state = 0 \<or> borrowRate = 0 then Inr (state, 0)
      else let firstTerm = borrowRate * uint elapsed in
        bindR (morphoMulDivDown firstTerm firstTerm (2 * wad)) (\<lambda>secondTerm.
        bindR (morphoMulDivDown secondTerm firstTerm (3 * wad)) (\<lambda>thirdTerm.
        bindR (morphoMulDivDown (TotalBorrowAssets state) (firstTerm + secondTerm + thirdTerm) wad) (\<lambda>interest.
          accrue_fee (state\<lparr>TotalBorrowAssets := TotalBorrowAssets state + interest,
            TotalSupplyAssets := TotalSupplyAssets state + interest\<rparr>) interest))))"

text \<open>A market's balances: nothing negative, and a fee of at most all the interest.\<close>

definition market_ok :: "morphoMarketState \<Rightarrow> bool" where
  "market_ok s \<longleftrightarrow> 0 \<le> TotalSupplyAssets s \<and> 0 \<le> TotalSupplyShares s \<and> 0 \<le> TotalBorrowAssets s \<and> 0 \<le> Fee s \<and> Fee s \<le> wad"

interpretation wad_mul: truncating wad "\<lambda>a b. (a * b) div wad"
  using floor_mul_fixed_point(2) [of wad] by (simp add: wad_def)

text \<open>What accrual changes: both totals by the interest, and the supply shares by the fee's.\<close>

definition accrued_by :: "morphoMarketState \<Rightarrow> int \<Rightarrow> int \<Rightarrow> morphoMarketState" where
  "accrued_by s interest feeShares = s\<lparr>TotalBorrowAssets := TotalBorrowAssets s + interest,
     TotalSupplyAssets := TotalSupplyAssets s + interest, TotalSupplyShares := TotalSupplyShares s + feeShares\<rparr>"

text \<open>The fee's shares are paid from the interest alone.\<close>

lemma fee_shares_bounded:
  fixes assets :: int
  assumes "0 \<le> fee" and "fee \<le> interest" and "0 \<le> assets" and "0 \<le> shares"
  defines "new \<equiv> (fee * (shares + 1000000)) div (assets + interest - fee + 1)"
  shows "0 \<le> new" and "(assets + 1) * (shares + new + 1000000) \<le> (assets + interest + 1) * (shares + 1000000)"
proof -
  let ?d = "assets + interest - fee + 1"
  have d: "0 < ?d" using assms by simp
  show new: "0 \<le> new" unfolding new_def using assms d by (simp add: pos_imp_zdiv_nonneg_iff)
  have "new * ?d \<le> fee * (shares + 1000000)"
    unfolding new_def using pos_mod_sign [OF d] by (simp add: minus_mod_eq_div_mult [symmetric])
  moreover have "new * (assets + 1) \<le> new * ?d" using new assms(2) by (intro mult_left_mono) auto
  moreover have "fee * (shares + 1000000) \<le> interest * (shares + 1000000)"
    using assms(2,4) by (intro mult_right_mono) auto
  ultimately show "(assets + 1) * (shares + new + 1000000) \<le> (assets + interest + 1) * (shares + 1000000)"
    by (simp add: algebra_simps)
qed

lemma accrue_fee_exact:
  assumes "0 \<le> interest" and "market_ok s"
  shows "\<exists>feeShares \<ge> 0. accrue_fee (accrued_by s interest 0) interest = Inr (accrued_by s interest feeShares, feeShares)
     \<and> (TotalSupplyAssets s + 1) * (TotalSupplyShares s + feeShares + 1000000)
         \<le> (TotalSupplyAssets s + interest + 1) * (TotalSupplyShares s + 1000000)"
proof (cases "Fee s > 0 \<and> interest > 0")
  case True
  let ?fee = "(interest * Fee s) div wad"
  have fee: "0 \<le> ?fee" "?fee \<le> interest"
    using wad_mul.mul_nonneg [of interest "Fee s"] wad_mul.mul_shrinks [of interest "Fee s"] assms
    by (simp_all add: market_ok_def)
  have totals: "0 \<le> TotalSupplyAssets s" "0 \<le> TotalSupplyShares s" using assms(2) by (simp_all add: market_ok_def)
  let ?new = "(?fee * (TotalSupplyShares s + 1000000)) div (TotalSupplyAssets s + interest - ?fee + 1)"
  note new = fee_shares_bounded [OF fee totals]
  have "accrue_fee (accrued_by s interest 0) interest = Inr (accrued_by s interest ?new, ?new)"
    using True fee totals by (simp add: accrue_fee_def accrued_by_def morphoMulDivDown_def wad_def)
  then show ?thesis using new by blast
next
  case False
  have "(TotalSupplyAssets s + 1) * (TotalSupplyShares s + 1000000) \<le> (TotalSupplyAssets s + interest + 1) * (TotalSupplyShares s + 1000000)"
    using assms by (intro mult_right_mono) (simp_all add: market_ok_def)
  then show ?thesis using False by (intro exI [of _ 0]) (auto simp: accrue_fee_def accrued_by_def)
qed

lemma morpho_accrual:
  assumes "market_ok s" and "0 \<le> borrowRate"
  shows "\<exists>interest \<ge> 0. \<exists>feeShares \<ge> 0. morphoExpectedMarketBalances s borrowRate elapsed = Inr (accrued_by s interest feeShares, feeShares)
     \<and> (TotalSupplyAssets s + 1) * (TotalSupplyShares s + feeShares + 1000000)
         \<le> (TotalSupplyAssets s + interest + 1) * (TotalSupplyShares s + 1000000)"
proof (cases "elapsed = 0 \<or> TotalBorrowAssets s = 0 \<or> borrowRate = 0")
  case True
  then show ?thesis by (intro exI [of _ 0]) (auto simp: morphoExpectedMarketBalances_def accrued_by_def)
next
  case False
  let ?first = "borrowRate * uint elapsed"
  let ?second = "(?first * ?first) div (2 * wad)"
  let ?third = "(?second * ?first) div (3 * wad)"
  let ?interest = "(TotalBorrowAssets s * (?first + ?second + ?third)) div wad"
  have first: "0 \<le> ?first" using assms(2) by simp
  then have terms: "0 \<le> ?second" "0 \<le> ?third" by (simp_all add: wad_def pos_imp_zdiv_nonneg_iff)
  then have interest: "0 \<le> ?interest"
    using assms(1) first by (simp add: market_ok_def wad_def pos_imp_zdiv_nonneg_iff)
  have "morphoExpectedMarketBalances s borrowRate elapsed = accrue_fee (accrued_by s ?interest 0) ?interest"
    using False by (simp add: morphoExpectedMarketBalances_def morphoMulDivDown_def wad_def accrued_by_def Let_def)
  then show ?thesis using accrue_fee_exact [OF interest assms(1)] interest by metis
qed

text \<open>Accruing a market's interest neither fails nor panics; it adds the same interest to what is
  owed and to what is supplied, leaves the borrow shares, the fee and the time as they were, and
  never lowers what a supply share is worth: the fee is paid from the interest.\<close>

lemma morpho_accrual_fair:
  assumes "market_ok s" and "0 \<le> borrowRate"
  shows "\<exists>r feeShares. morphoExpectedMarketBalances s borrowRate elapsed = Inr (r, feeShares)
     \<and> TotalSupplyAssets r - TotalBorrowAssets r = TotalSupplyAssets s - TotalBorrowAssets s
     \<and> TotalBorrowAssets s \<le> TotalBorrowAssets r
     \<and> TotalBorrowShares r = TotalBorrowShares s \<and> LastUpdate r = LastUpdate s \<and> Fee r = Fee s
     \<and> TotalSupplyShares r = TotalSupplyShares s + feeShares \<and> 0 \<le> feeShares
     \<and> (TotalSupplyAssets s + 1) * (TotalSupplyShares r + 1000000) \<le> (TotalSupplyAssets r + 1) * (TotalSupplyShares s + 1000000)"
proof -
  obtain interest feeShares where "0 \<le> interest" "0 \<le> feeShares"
      "morphoExpectedMarketBalances s borrowRate elapsed = Inr (accrued_by s interest feeShares, feeShares)"
      "(TotalSupplyAssets s + 1) * (TotalSupplyShares s + feeShares + 1000000)
         \<le> (TotalSupplyAssets s + interest + 1) * (TotalSupplyShares s + 1000000)"
    using morpho_accrual [OF assms] by blast
  then show ?thesis by (intro exI [of _ "accrued_by s interest feeShares"] exI [of _ feeShares]) (simp add: accrued_by_def)
qed

lemma morphoMulDivUp_rounds:
  assumes "0 \<le> x" and "0 \<le> y" and "0 < d"
  shows "\<exists>up. morphoMulDivUp x y d = Inr up \<and> x * y \<le> up * d \<and> up * d < x * y + d"
proof (cases "x = 0 \<or> y = 0")
  case True
  then show ?thesis using assms by (auto simp: morphoMulDivUp_def)
next
  case False
  let ?n = "x * y + (d - 1)"
  have "(?n div d) * d = ?n - ?n mod d" by (simp add: minus_mod_eq_div_mult)
  then show ?thesis using False assms(3) pos_mod_bound [OF assms(3), of ?n] pos_mod_sign [OF assms(3), of ?n]
    by (simp add: morphoMulDivUp_def)
qed

section \<open>NAVI\<close>

definition naviRay :: int where
  "naviRay = 10 ^ 27"

definition naviHalfRay :: int where
  "naviHalfRay = naviRay div 2"

definition naviRayMul :: "int \<Rightarrow> int \<Rightarrow> int" where
  "naviRayMul a b = (a * b + naviHalfRay) div naviRay"

datatype navi_error = InvalidInterestInputs

definition year_seconds :: int where
  "year_seconds = 365 * 24 * 60 * 60"

definition supply_interest :: "int \<Rightarrow> int \<Rightarrow> int" where
  "supply_interest rate seconds = naviRay + (rate * seconds) div year_seconds"

definition borrow_interest :: "int \<Rightarrow> int \<Rightarrow> int" where
  "borrow_interest rate seconds = (if seconds > 0 then
     (let perSecond = rate div year_seconds; square = naviRayMul perSecond perSecond; cube = naviRayMul square perSecond;
          minusOne = seconds - 1; minusTwo = (if seconds > 2 then seconds - 2 else 0);
          term2 = (seconds * minusOne * square) div 2;
          term3 = (seconds * minusOne * minusTwo * cube) div 6
      in naviRay + perSecond * seconds + term2 + term3) else naviRay)"

definition naviIndexAt :: "int \<Rightarrow> int \<Rightarrow> u64 \<Rightarrow> u64 \<Rightarrow> bool \<Rightarrow> navi_error + int" where
  "naviIndexAt index rate lastMS targetMS borrow = (if index \<le> 0 \<or> rate < 0 \<or> targetMS < lastMS then Inl InvalidInterestInputs
     else let seconds = uint ((targetMS - lastMS) div 1000) in
       Inr (naviRayMul index (if borrow then borrow_interest rate seconds else supply_interest rate seconds)))"

definition naviTokenAmount :: "int \<Rightarrow> int \<Rightarrow> nat \<Rightarrow> int" where
  "naviTokenAmount scaled index decimals = (naviRayMul scaled index * 10 ^ decimals) div 1000000000"

interpretation ray: fixed_point naviRay naviRayMul
proof
  fix a a' b b' :: int
  assume "0 \<le> a" "a \<le> a'" "0 \<le> b" "b \<le> b'"
  then have "a * b \<le> a' * b'" by (intro mult_mono) auto
  then show "naviRayMul a b \<le> naviRayMul a' b'" by (simp add: naviRayMul_def naviRay_def zdiv_mono1)
qed (auto simp: naviRayMul_def naviRay_def naviHalfRay_def pos_imp_zdiv_nonneg_iff)

lemma interest_grows:
  assumes "0 \<le> rate" and "0 \<le> s" and "s \<le> t"
  shows "supply_interest rate s \<le> supply_interest rate t" and "naviRay \<le> supply_interest rate s"
proof -
  have "rate * s \<le> rate * t" using assms by (intro mult_left_mono) auto
  then show "supply_interest rate s \<le> supply_interest rate t"
    by (simp add: supply_interest_def year_seconds_def zdiv_mono1)
  show "naviRay \<le> supply_interest rate s"
    using assms by (simp add: supply_interest_def year_seconds_def pos_imp_zdiv_nonneg_iff)
qed

lemma borrow_interest_grows:
  assumes "0 \<le> rate" and "0 \<le> s" and "s \<le> t"
  shows "borrow_interest rate s \<le> borrow_interest rate t" and "naviRay \<le> borrow_interest rate s"
proof -
  let ?p = "rate div year_seconds"
  let ?square = "naviRayMul ?p ?p" and ?cube = "naviRayMul (naviRayMul ?p ?p) ?p"
  let ?two = "\<lambda>s. s * (s - 1) * ?square"
  let ?three = "\<lambda>s. s * (s - 1) * (if s > 2 then s - 2 else 0) * ?cube"
  have p: "0 \<le> ?p" using assms(1) by (simp add: year_seconds_def pos_imp_zdiv_nonneg_iff)
  then have powers: "0 \<le> ?square" "0 \<le> ?cube" using ray.mul_nonneg by auto
  have formula: "borrow_interest rate u = naviRay + ?p * u + ?two u div 2 + ?three u div 6" if "0 \<le> u" for u
    using that by (auto simp: borrow_interest_def Let_def)
  have pairs: "u * (u - 1) \<le> v * (v - 1)" "0 \<le> u * (u - 1)" if "0 \<le> u" "u \<le> v" for u v :: int
  proof -
    show "0 \<le> u * (u - 1)" using that by (cases "u = 0") auto
    show "u * (u - 1) \<le> v * (v - 1)"
    proof (cases "u = 0")
      case True
      then show ?thesis using that by (cases "v = 0") auto
    next
      case False
      then show ?thesis using that by (intro mult_mono) auto
    qed
  qed
  have two: "?two u \<le> ?two v" "0 \<le> ?two u" if "0 \<le> u" "u \<le> v" for u v
    using pairs [OF that] powers(1) by (auto intro: mult_right_mono)
  have three: "?three u \<le> ?three v" "0 \<le> ?three u" if "0 \<le> u" "u \<le> v" for u v
  proof -
    have two: "(if u > 2 then u - 2 else 0) \<le> (if v > 2 then v - 2 else 0)" "0 \<le> (if u > 2 then u - 2 else 0)"
      using that by simp_all
    have v: "0 \<le> v * (v - 1)" using pairs [of v v] that by simp
    show "?three u \<le> ?three v" by (rule mult_right_mono [OF mult_mono [OF pairs(1) [OF that] two(1) v two(2)] powers(2)])
    show "0 \<le> ?three u" by (rule mult_nonneg_nonneg [OF mult_nonneg_nonneg [OF pairs(2) [OF that] two(2)] powers(2)])
  qed
  have "?p * s \<le> ?p * t" "0 \<le> ?p * s" using p assms by (auto intro: mult_left_mono)
  moreover have "?two s div 2 \<le> ?two t div 2" "?three s div 6 \<le> ?three t div 6"
    using zdiv_mono1 [OF two(1) [OF assms(2,3)], of 2] zdiv_mono1 [OF three(1) [OF assms(2,3)], of 6] by simp_all
  moreover have "0 \<le> ?two s div 2" "0 \<le> ?three s div 6"
    using pos_imp_zdiv_nonneg_iff [of 2 "?two s"] pos_imp_zdiv_nonneg_iff [of 6 "?three s"]
      two(2) [OF assms(2,3)] three(2) [OF assms(2,3)] by simp_all
  moreover have "0 \<le> t" using assms by linarith
  ultimately show "borrow_interest rate s \<le> borrow_interest rate t" "naviRay \<le> borrow_interest rate s"
    unfolding formula [OF assms(2)] formula [OF \<open>0 \<le> t\<close>] by linarith+
qed

text \<open>An interest index is extrapolated exactly for a positive index, a rate that is not negative
  and a time that does not precede the stored one; it starts at the stored index and never falls as
  the time advances, for suppliers and for borrowers.\<close>

lemma navi_index_monotone:
  assumes "0 < index" and "0 \<le> rate" and "lastMS \<le> earlier" and "earlier \<le> later"
  shows "\<exists>x y. naviIndexAt index rate lastMS earlier borrow = Inr x \<and> naviIndexAt index rate lastMS later borrow = Inr y
     \<and> index \<le> x \<and> x \<le> y \<and> (earlier = lastMS \<longrightarrow> x = index)"
proof -
  let ?s = "uint ((earlier - lastMS) div 1000)" and ?t = "uint ((later - lastMS) div 1000)"
  let ?interest = "\<lambda>s. if borrow then borrow_interest rate s else supply_interest rate s"
  have "earlier - lastMS \<le> later - lastMS" using assms(3,4) by (simp add: word_le_nat_alt unat_sub)
  then have seconds: "0 \<le> ?s" "?s \<le> ?t"
    by (simp_all add: uint_div zdiv_mono1 word_le_def pos_imp_zdiv_nonneg_iff)
  have interest: "naviRay \<le> ?interest ?s" "?interest ?s \<le> ?interest ?t"
    using interest_grows [OF assms(2) seconds] borrow_interest_grows [OF assms(2) seconds] by auto
  have index: "0 \<le> index" "index \<le> index" "0 \<le> ?interest ?s" using assms(1) interest(1) ray.unit_pos by linarith+
  have "index \<le> naviRayMul index (?interest ?s)" by (rule ray.mul_grows [OF index(1) interest(1)])
  moreover have "naviRayMul index (?interest ?s) \<le> naviRayMul index (?interest ?t)"
    by (rule ray.mul_mono [OF index interest(2)])
  moreover have run: "naviIndexAt index rate lastMS at_time borrow = Inr (naviRayMul index (?interest (uint ((at_time - lastMS) div 1000))))"
    if "lastMS \<le> at_time" for at_time
    using assms(1,2) that by (simp add: naviIndexAt_def Let_def)
  moreover have "earlier = lastMS \<longrightarrow> naviRayMul index (?interest ?s) = index"
    using assms(1) by (auto simp: borrow_interest_def supply_interest_def ray.mul_unit)
  ultimately show ?thesis using run [OF assms(3)] run [OF order_trans [OF assms(3,4)]] by blast
qed

end
