(* ===== verification/Suilend.thy ===== *)
theory Suilend
  imports Lending
begin

text \<open>
  \<open>suilend_math.go\<close>: decimals that truncate at every step, exponentiation by squaring, the interest curve
  of a reserve and its compounding to the observed time. \<open>parseSuilendReserve\<close>'s checks on a curve are
  \<open>curve_ok\<close>; the fields it reads are given as numbers.
\<close>

datatype suilend_error = InterestExceedsU256 | InvalidReserveTime | OutsideCurve | ReserveExceedsU256
  | InvalidCTokenSupply | InvalidBorrowIndex

section \<open>Decimals\<close>

definition suilendMul :: "int \<Rightarrow> int \<Rightarrow> int" where
  "suilendMul a b = (a * b) div wad"

definition suilendDiv :: "int \<Rightarrow> int \<Rightarrow> (suilend_error, int) go" where
  "suilendDiv a b = euclid_div (a * wad) b"

definition bits_exceed :: "int \<Rightarrow> bool" where
  "bits_exceed x \<longleftrightarrow> bitlen_gt x 256"

function pow_loop :: "int \<Rightarrow> int \<Rightarrow> nat \<Rightarrow> suilend_error + int" where
  "pow_loop result base exponent = (if exponent = 0 then Inr result
     else let result = (if odd exponent then suilendMul result base else result);
              exponent = exponent div 2;
              base = (if exponent > 0 then suilendMul base base else base) in
       if bits_exceed result \<or> bits_exceed base then Inl InterestExceedsU256
       else pow_loop result base exponent)"
  by pat_completeness auto
termination by (relation "measure (\<lambda>(result, base, exponent). exponent)") auto

definition suilendPow :: "int \<Rightarrow> u64 \<Rightarrow> suilend_error + int" where
  "suilendPow base exponent = pow_loop wad base (unat exponent)"

declare pow_loop.simps [simp del]

interpretation suilend_mul: truncating wad suilendMul
  using floor_mul_fixed_point(2) [of wad] by (simp add: wad_def suilendMul_def [abs_def])

lemma pow_loop_error: "pow_loop result base n = Inl e \<Longrightarrow> e = InterestExceedsU256"
proof (induction result base n rule: pow_loop.induct)
  case (1 result base n)
  show ?case
  proof (cases "n = 0")
    case True
    then show ?thesis using "1.prems" by (simp add: pow_loop.simps)
  next
    case False
    show ?thesis
      using "1.prems" "1.IH" [OF False refl refl refl] unfolding pow_loop.simps [of result base n]
      by (simp add: False Let_def del: if_split) (simp only: split: if_splits, auto)
  qed
qed

text \<open>Squaring loses value at every step, and never gains any.\<close>

lemma pow_loop_bounds:
  assumes "pow_loop result base n = Inr r" and "wad \<le> base" and "0 \<le> result"
  shows "result \<le> r \<and> r * wad ^ n \<le> result * base ^ n"
  using assms
proof (induction result base n rule: pow_loop.induct)
  case (1 result base n)
  show ?case
  proof (cases "n = 0")
    case True
    then show ?thesis using "1.prems"(1) by (simp add: pow_loop.simps)
  next
    case False
    let ?m = "n div 2"
    let ?res = "if odd n then suilendMul result base else result"
    let ?base = "if ?m > 0 then suilendMul base base else base"
    have w: "0 \<le> wad" by (simp add: wad_def)
    have base: "0 \<le> base" "wad \<le> ?base" using "1.prems"(2) suilend_mul.mul_above_unit w by auto
    have res: "result \<le> ?res" "0 \<le> ?res"
      using suilend_mul.mul_grows [OF "1.prems"(3,2)] "1.prems"(3) by auto
    have rest: "pow_loop ?res ?base ?m = Inr r" and small: "\<not> (bits_exceed ?res \<or> bits_exceed ?base)"
      using "1.prems"(1) False by (auto simp: pow_loop.simps [of result base n] Let_def split: if_splits)
    have loop: "?res \<le> r" "r * wad ^ ?m \<le> ?res * ?base ^ ?m"
      using "1.IH" [OF False refl refl refl small rest base(2) res(2)] by auto
    have square: "(?base * wad) ^ ?m \<le> (base * base) ^ ?m"
    proof (cases "?m > 0")
      case True
      have "suilendMul base base * wad \<le> base * base" by (rule suilend_mul.mul_le [OF base(1) base(1)])
      moreover have "0 \<le> suilendMul base base * wad" using suilend_mul.mul_nonneg [OF base(1) base(1)] w by simp
      ultimately show ?thesis using True by (simp add: power_mono)
    qed simp
    have "r * wad ^ ?m * wad ^ ?m \<le> ?res * ?base ^ ?m * wad ^ ?m"
      using loop(2) w by (intro mult_right_mono) auto
    also have "\<dots> = ?res * (?base * wad) ^ ?m" by (simp add: power_mult_distrib mult.assoc)
    also have "\<dots> \<le> ?res * (base * base) ^ ?m" using square res(2) by (intro mult_left_mono) auto
    finally have even: "r * wad ^ ?m * wad ^ ?m \<le> ?res * (base * base) ^ ?m" .
    show ?thesis
    proof (cases "odd n")
      case True
      then have n: "n = Suc (2 * ?m)" by presburger
      have "r * wad ^ n = r * wad ^ ?m * wad ^ ?m * wad" by (subst n) (simp add: power_add power_mult_distrib mult_2 mult.assoc)
      also have "\<dots> \<le> ?res * (base * base) ^ ?m * wad" using even w by (rule mult_right_mono)
      also have "\<dots> = (?res * wad) * (base * base) ^ ?m" by (simp add: mult.commute mult.left_commute)
      also have "\<dots> \<le> (result * base) * (base * base) ^ ?m"
        using True suilend_mul.mul_le [OF "1.prems"(3) base(1)] base(1) by (intro mult_right_mono) auto
      also have "(result * base) * (base * base) ^ ?m = result * base ^ n"
      proof -
        have "base ^ n = base ^ Suc (2 * ?m)" using n by (rule arg_cong)
        then show ?thesis by (simp add: power_add power_mult_distrib mult_2 mult.assoc)
      qed
      finally show ?thesis using loop(1) res(1) by linarith
    next
      case False
      then have n: "n = 2 * ?m" by presburger
      have "r * wad ^ n = r * wad ^ ?m * wad ^ ?m" by (subst n) (simp add: power_add mult_2 mult.assoc)
      also have "\<dots> \<le> result * (base * base) ^ ?m" using even False by simp
      also have "\<dots> = result * base ^ n" by (subst (2) n) (simp add: power_add power_mult_distrib mult_2)
      finally show ?thesis using loop(1) res(1) by linarith
    qed
  qed
qed

text \<open>The compounding of a rate by squaring never falls below one and never exceeds the exact
  power: every truncation favours the borrower.\<close>

lemma suilend_pow_below_exact:
  assumes "wad \<le> base" and "suilendPow base exponent = Inr r"
  shows "wad \<le> r \<and> r * wad ^ unat exponent \<le> wad * base ^ unat exponent"
  using pow_loop_bounds [OF _ assms(1), of wad "unat exponent" r] assms(2)
  by (simp add: suilendPow_def wad_def)

section \<open>A reserve\<close>

record suilendReserve =
  res_available :: int
  res_borrowed :: int
  res_fees :: int
  res_supply :: int
  res_index :: int
  res_updated :: u64
  res_utils :: "int list"
  res_aprs :: "int list"
  res_spread :: int

definition curve_ok :: "int list \<Rightarrow> int list \<Rightarrow> bool" where
  "curve_ok utils aprs \<longleftrightarrow> 2 \<le> length utils \<and> length utils = length aprs \<and> hd utils = 0 \<and> last utils = 100
     \<and> list_all (\<lambda>i. utils ! (i - 1) < utils ! i \<and> aprs ! (i - 1) \<le> aprs ! i) [1..<length utils]"

definition totalSupply :: "suilendReserve \<Rightarrow> int" where
  "totalSupply r = res_available r * wad + res_borrowed r - res_fees r"

definition percent :: int where
  "percent = wad div 100"

definition bps :: int where
  "bps = wad div 10000"

text \<open>The first segment of the curve that holds the utilization.\<close>

fun curve_apr :: "int \<Rightarrow> int list \<Rightarrow> int list \<Rightarrow> (suilend_error, int) go" where
  "curve_apr util (u # v # us) (a # b # as) = (let left = u * percent; right = v * percent in
     if left \<le> util \<and> util \<le> right
     then bindR (suilendDiv (util - left) (right - left)) (\<lambda>weight. Inr (a * bps + suilendMul weight ((b - a) * bps)))
     else curve_apr util (v # us) (b # as))"
| "curve_apr util us as = Inl (Fail OutsideCurve)"

definition utilization :: "suilendReserve \<Rightarrow> (suilend_error, int) go" where
  "utilization r = (let available = res_available r * wad - res_fees r; available = (if available < 0 then 0 else available);
       total_value = available + res_borrowed r in
     if total_value > 0 then suilendDiv (res_borrowed r) total_value else Inr 0)"

definition compound :: "suilendReserve \<Rightarrow> u64 \<Rightarrow> int \<Rightarrow> suilendReserve" where
  "compound r target factor = (let debt = suilendMul (res_borrowed r) (factor - wad) in
     r\<lparr>res_borrowed := res_borrowed r + debt, res_fees := res_fees r + suilendMul debt (res_spread r * bps),
       res_index := suilendMul (res_index r) factor, res_updated := target\<rparr>)"

definition reserve_at :: "suilendReserve \<Rightarrow> u64 \<Rightarrow> (suilend_error, suilendReserve) go" where
  "reserve_at r target = (if target < res_updated r \<or> totalSupply r < 0 then Inl (Fail InvalidReserveTime)
     else if target = res_updated r then Inr r
     else bindR (utilization r) (\<lambda>util. bindR (curve_apr util (res_utils r) (res_aprs r)) (\<lambda>apr.
       case suilendPow (wad + apr div year_seconds) (target - res_updated r) of Inl e \<Rightarrow> Inl (Fail e)
       | Inr factor \<Rightarrow> (let r = compound r target factor in
           if bits_exceed (res_borrowed r) \<or> bits_exceed (res_fees r) \<or> bits_exceed (res_index r)
           then Inl (Fail ReserveExceedsU256) else Inr r))))"

definition depositAmount :: "suilendReserve \<Rightarrow> int \<Rightarrow> (suilend_error, int) go" where
  "depositAmount r ctokens = (if \<not> is_uint64 ctokens \<or> res_supply r = 0 \<or> ctokens > res_supply r
     then Inl (Fail InvalidCTokenSupply)
     else bindR (euclid_div (totalSupply r) (res_supply r)) (\<lambda>ratio. Inr (suilendMul ctokens ratio)))"

definition debtAmount :: "suilendReserve \<Rightarrow> int \<Rightarrow> int \<Rightarrow> (suilend_error, int) go" where
  "debtAmount r amount snapshotIndex = (if snapshotIndex \<le> 0 \<or> snapshotIndex > res_index r then Inl (Fail InvalidBorrowIndex)
     else bindR (suilendDiv (res_index r) snapshotIndex) (\<lambda>ratio. Inr (suilendMul amount ratio div wad)))"

section \<open>Compounding\<close>

text \<open>A reserve the parser accepts.\<close>

definition reserve_ok :: "suilendReserve \<Rightarrow> bool" where
  "reserve_ok r \<longleftrightarrow> curve_ok (res_utils r) (res_aprs r) \<and> list_all (\<lambda>a. 0 \<le> a) (res_aprs r)
     \<and> 0 \<le> res_available r \<and> 0 \<le> res_borrowed r \<and> 0 \<le> res_fees r \<and> 0 \<le> res_supply r \<and> 0 < res_index r
     \<and> 0 \<le> res_spread r \<and> res_spread r \<le> 10000"

fun curve_segments :: "int list \<Rightarrow> int list \<Rightarrow> bool" where
  "curve_segments (u # v # us) (a # b # as) \<longleftrightarrow> u < v \<and> a \<le> b \<and> 0 \<le> a \<and> curve_segments (v # us) (b # as)"
| "curve_segments [u] [a] \<longleftrightarrow> 0 \<le> a"
| "curve_segments us as \<longleftrightarrow> False"

lemma curve_ok_segments:
  assumes "curve_ok utils aprs" and "list_all (\<lambda>a. 0 \<le> a) aprs"
  shows "curve_segments utils aprs"
proof -
  have segments: "curve_segments us as" if "length us = length as" "us \<noteq> []" "list_all (\<lambda>a. 0 \<le> a) as"
    "\<forall>i. 1 \<le> i \<longrightarrow> i < length us \<longrightarrow> us ! (i - 1) < us ! i \<and> as ! (i - 1) \<le> as ! i" for us as :: "int list"
    using that
  proof (induction us as rule: curve_segments.induct)
    case (1 u v us a b as)
    have "(v # us) ! (i - 1) < (v # us) ! i \<and> (b # as) ! (i - 1) \<le> (b # as) ! i" if "1 \<le> i" "i < length (v # us)" for i
      using "1.prems"(4) [rule_format, of "Suc i"] that by (simp add: nth_Cons' split: if_splits)
    then show ?case using 1 "1.prems"(4) [rule_format, of 1] by simp
  qed auto
  have "\<forall>i. 1 \<le> i \<longrightarrow> i < length utils \<longrightarrow> utils ! (i - 1) < utils ! i \<and> aprs ! (i - 1) \<le> aprs ! i"
    using assms(1) by (simp add: curve_ok_def list_all_iff)
  moreover have "length utils = length aprs" "utils \<noteq> []" using assms(1) by (auto simp: curve_ok_def)
  ultimately show ?thesis by (intro segments [OF _ _ assms(2)])
qed

lemma curve_segments_length: "curve_segments us as \<Longrightarrow> length us = length as"
  by (induction us as rule: curve_segments.induct) auto

lemma curve_apr_found:
  assumes "curve_segments us as" and "hd us * percent \<le> util" and "util \<le> last us * percent" and "2 \<le> length us"
  shows "\<exists>apr \<ge> 0. curve_apr util us as = Inr apr"
  using assms
proof (induction util us as rule: curve_apr.induct)
  case (1 util u v us a b as)
  have order: "u < v" "a \<le> b" "0 \<le> a" and rest: "curve_segments (v # us) (b # as)" using "1.prems"(1) by auto
  show ?case
  proof (cases "util \<le> v * percent")
    case True
    have width: "0 < v * percent - u * percent" using order(1) by (simp add: percent_def wad_def)
    let ?weight = "((util - u * percent) * wad) div (v * percent - u * percent)"
    have weight: "0 \<le> ?weight" using "1.prems"(2) width by (simp add: pos_imp_zdiv_nonneg_iff wad_def)
    have "0 \<le> suilendMul ?weight ((b - a) * bps)"
      using weight order(2) by (intro suilend_mul.mul_nonneg) (simp_all add: bps_def wad_def)
    moreover have "0 \<le> a * bps" using order(3) by (simp add: bps_def wad_def)
    ultimately show ?thesis using True "1.prems"(2) width by (simp add: suilendDiv_def Let_def)
  next
    case False
    have "us \<noteq> []" using False "1.prems"(3) by auto
    then have "\<exists>apr \<ge> 0. curve_apr util (v # us) (b # as) = Inr apr"
      using "1.IH" [OF refl refl _ rest] False "1.prems"(3) by (cases us) auto
    then show ?thesis using False by (simp add: Let_def)
  qed
qed (auto dest: curve_segments_length)

lemma utilization_range:
  assumes "reserve_ok r"
  shows "\<exists>util. utilization r = Inr util \<and> 0 \<le> util \<and> util \<le> wad"
proof -
  let ?available = "if res_available r * wad - res_fees r < 0 then 0 else res_available r * wad - res_fees r"
  let ?total = "?available + res_borrowed r"
  have b: "0 \<le> res_borrowed r" "res_borrowed r \<le> ?total" using assms by (auto simp: reserve_ok_def)
  show ?thesis
  proof (cases "?total > 0")
    case True
    have "(res_borrowed r * wad) div ?total \<le> (?total * wad) div ?total"
      using b True by (intro zdiv_mono1 mult_right_mono) (auto simp: wad_def)
    moreover have "0 \<le> (res_borrowed r * wad) div ?total" using b True by (simp add: pos_imp_zdiv_nonneg_iff wad_def)
    ultimately show ?thesis using True by (simp add: utilization_def suilendDiv_def Let_def)
  next
    case False
    have "0 \<le> wad" by (simp add: wad_def)
    then show ?thesis using False by (simp add: utilization_def Let_def)
  qed
qed

lemma compound_sound:
  fixes target :: u64
  assumes "reserve_ok r" and "wad \<le> factor"
  defines "r' \<equiv> compound r target factor"
  shows "res_updated r' = target \<and> res_borrowed r \<le> res_borrowed r' \<and> res_fees r \<le> res_fees r'
     \<and> res_index r \<le> res_index r' \<and> totalSupply r \<le> totalSupply r'"
proof -
  let ?debt = "suilendMul (res_borrowed r) (factor - wad)"
  let ?spread = "suilendMul ?debt (res_spread r * bps)"
  have r: "0 \<le> res_borrowed r" "0 \<le> res_index r" "0 \<le> res_spread r" "res_spread r \<le> 10000"
    using assms(1) by (simp_all add: reserve_ok_def)
  have debt: "0 \<le> ?debt" using r(1) assms(2) by (intro suilend_mul.mul_nonneg) simp_all
  have share: "0 \<le> res_spread r * bps" "res_spread r * bps \<le> wad" using r(3,4) by (simp_all add: bps_def wad_def)
  have "0 \<le> ?spread" "?spread \<le> ?debt"
    using suilend_mul.mul_nonneg [OF debt share(1)] suilend_mul.mul_shrinks [OF debt share] by simp_all
  moreover have "res_index r \<le> suilendMul (res_index r) factor" by (rule suilend_mul.mul_grows [OF r(2) assms(2)])
  ultimately show ?thesis using debt by (simp add: r'_def compound_def Let_def totalSupply_def)
qed

text \<open>C40: the interest curve of a reserve the parser accepts covers every utilization it can have, even
  when it owes more spread than it holds, so compounding never leaves the curve or panics: it gives
  the reserve at the wanted time, unless an amount passes 256 bits. Debt, fees and the borrow index
  never fall, and what the reserve owes its depositors never falls: the spread is at most the interest.\<close>

theorem suilend_compounding_sound:
  assumes "reserve_ok r" and "0 \<le> totalSupply r" and "res_updated r \<le> target"
  shows "(\<exists>r'. reserve_at r target = Inr r' \<and> res_updated r' = target
       \<and> res_borrowed r \<le> res_borrowed r' \<and> res_fees r \<le> res_fees r' \<and> res_index r \<le> res_index r' \<and> totalSupply r \<le> totalSupply r')
     \<or> reserve_at r target = Inl (Fail InterestExceedsU256) \<or> reserve_at r target = Inl (Fail ReserveExceedsU256)"
proof (cases "target = res_updated r")
  case True
  then show ?thesis using assms by (auto simp: reserve_at_def)
next
  case False
  obtain util where util: "utilization r = Inr util" "0 \<le> util" "util \<le> wad" using utilization_range [OF assms(1)] by blast
  have curve: "curve_ok (res_utils r) (res_aprs r)" "list_all (\<lambda>a. 0 \<le> a) (res_aprs r)" using assms(1) by (simp_all add: reserve_ok_def)
  obtain apr where apr: "curve_apr util (res_utils r) (res_aprs r) = Inr apr" "0 \<le> apr"
    using curve_apr_found [OF curve_ok_segments [OF curve], of util] util curve(1)
    by (auto simp: curve_ok_def percent_def wad_def)
  have base: "wad \<le> wad + apr div year_seconds" using apr(2) by (simp add: year_seconds_def pos_imp_zdiv_nonneg_iff)
  show ?thesis
  proof (cases "suilendPow (wad + apr div year_seconds) (target - res_updated r)")
    case (Inl e)
    then have "e = InterestExceedsU256" using pow_loop_error by (simp add: suilendPow_def)
    then show ?thesis using Inl False assms util(1) apr(1) by (auto simp: reserve_at_def)
  next
    case (Inr factor)
    have "0 \<le> wad" by (simp add: wad_def)
    from pow_loop_bounds [OF Inr [unfolded suilendPow_def] base this] have factor: "wad \<le> factor" by (rule conjunct1)
    let ?r = "compound r target factor"
    have run: "reserve_at r target = (if bits_exceed (res_borrowed ?r) \<or> bits_exceed (res_fees ?r) \<or> bits_exceed (res_index ?r)
        then Inl (Fail ReserveExceedsU256) else Inr ?r)"
      using False leD [OF assms(3)] leD [OF assms(2)] util(1) apr(1) Inr by (simp add: reserve_at_def Let_def)
    note sound = compound_sound [OF assms(1) factor, of target]
    show ?thesis
    proof (cases "bits_exceed (res_borrowed ?r) \<or> bits_exceed (res_fees ?r) \<or> bits_exceed (res_index ?r)")
      case True
      then have "reserve_at r target = Inl (Fail ReserveExceedsU256)" unfolding run by (rule if_P)
      then show ?thesis by (intro disjI2)
    next
      case False
      then have "reserve_at r target = Inr ?r" unfolding run by (rule if_not_P)
      then show ?thesis using sound by (intro disjI1 exI [of _ ?r] conjI) simp_all
    qed
  qed
qed

text \<open>A reserve at the floor of its liquidity: it owes more spread than it holds.\<close>

definition drained_reserve :: suilendReserve where
  "drained_reserve = \<lparr>res_available = 1, res_borrowed = 900 * wad, res_fees = 5 * wad, res_supply = 800, res_index = 2 * wad,
     res_updated = 1000, res_utils = [0, 80, 100], res_aprs = [0, 500, 5000], res_spread = 2000\<rparr>"

theorem suilend_compounding_sound_witness:
  "(\<exists>r'. reserve_at drained_reserve 1060 = Inr r' \<and> res_borrowed drained_reserve \<le> res_borrowed r' \<and> res_updated r' = 1060)
   \<or> reserve_at drained_reserve 1060 = Inl (Fail InterestExceedsU256) \<or> reserve_at drained_reserve 1060 = Inl (Fail ReserveExceedsU256)"
proof -
  have ok: "reserve_ok drained_reserve"
    by (simp add: reserve_ok_def drained_reserve_def curve_ok_def wad_def upt_rec)
  have "0 \<le> totalSupply drained_reserve" by (simp add: totalSupply_def drained_reserve_def wad_def)
  moreover have "res_updated drained_reserve \<le> 1060" by (simp add: drained_reserve_def)
  ultimately show ?thesis using suilend_compounding_sound [OF ok] by blast
qed

section \<open>Amounts of an obligation\<close>

text \<open>Depositors who hold no more than the supply are never owed more than the reserve has.\<close>

lemma deposit_amount:
  assumes "0 \<le> totalSupply r" and "0 < res_supply r" and "depositAmount r c = Inr a"
  shows "0 \<le> c \<and> a = suilendMul c (totalSupply r div res_supply r)"
  using assms by (auto simp: depositAmount_def is_uint64_def split: if_splits)

lemma deposits_covered:
  assumes "0 \<le> totalSupply r" and "0 < res_supply r" and "mapR (depositAmount r) cs = Inr amounts" and "sum_list cs \<le> res_supply r"
  shows "sum_list amounts * wad \<le> totalSupply r"
proof -
  let ?ratio = "totalSupply r div res_supply r"
  have ratio: "0 \<le> ?ratio" using assms(1,2) by (simp add: pos_imp_zdiv_nonneg_iff)
  have "sum_list amounts * wad \<le> sum_list cs * ?ratio"
    using assms(3)
  proof (induction cs arbitrary: amounts)
    case (Cons c cs)
    obtain a as where a: "depositAmount r c = Inr a" "mapR (depositAmount r) cs = Inr as" "amounts = a # as"
      using Cons.prems by (auto simp: bindR_Inr_iff)
    have "a * wad \<le> c * ?ratio"
      using deposit_amount [OF assms(1,2) a(1)] suilend_mul.mul_le [of c ?ratio] ratio by simp
    then show ?case using Cons.IH [OF a(2)] a(3) by (simp add: algebra_simps)
  qed simp
  also have "\<dots> \<le> res_supply r * ?ratio" using assms(4) ratio by (rule mult_right_mono)
  also have "\<dots> \<le> totalSupply r"
    using pos_mod_sign [OF assms(2), of "totalSupply r"] by (simp add: minus_mod_eq_mult_div [symmetric])
  finally show ?thesis .
qed

end
