(* ===== verification/SentioSQL.thy ===== *)
theory SentioSQL
  imports SentioClient
begin

text \<open>
  \<open>sentio_sql.go\<close>: the routes of a project's asynchronous SQL, the status of an execution, and
  \<open>executeSQL\<close>, which submits a statement once and polls its execution until it is decided or given
  up on. Time passes as the environment says: how long each request took and when the caller's
  context ends. \<open>statement_run\<close> is what a caller may count on, as a step relation on the client's
  side of one statement, and the loop is shown to follow it and to return.
\<close>

section \<open>Routes\<close>

text \<open>What \<open>url.Parse\<close> gives of an endpoint: its path and its query, the rest unchanged by this code.\<close>

record parsed_url =
  url_path :: string
  url_query :: "(string \<times> string list) list"

record sentioSQLEndpoints =
  sql_submit :: parsed_url
  sql_base :: parsed_url

definition newSentioSQLEndpoints :: "parsed_url option \<Rightarrow> sentioSQLEndpoints option" where
  "newSentioSQLEndpoints parsed = (case parsed of None \<Rightarrow> None
     | Some endpoint \<Rightarrow> (let path = url_path endpoint; suffix = ''/sql/execute''; kept = length path - length ''/execute'' in
         if length suffix \<le> length path \<and> drop (length path - length suffix) path = suffix
         then Some \<lparr>sql_submit = endpoint\<lparr>url_path := path @ ''/async''\<rparr>, sql_base = endpoint\<lparr>url_path := take kept path\<rparr>\<rparr>
         else None))"

definition execution_route :: "sentioSQLEndpoints \<Rightarrow> string \<Rightarrow> string \<Rightarrow> u64 \<Rightarrow> parsed_url" where
  "execution_route e route executionID version =
     (sql_base e)\<lparr>url_path := url_path (sql_base e) @ ''/'' @ route @ ''/'' @ executionID,
       url_query := AList.update ''version'' [show_u64 version] (url_query (sql_base e))\<rparr>"

section \<open>Executions\<close>

text \<open>
  The status as JSON: absent or not a scalar the client reads, \<open>null\<close> (which decodes to the empty
  name), a name, or a number that fits an \<open>int\<close>. Names are upper-cased byte by byte.
\<close>

datatype raw_status = Status_unread | Status_null | Status_name string | Status_number int

record sentioSQLExecution =
  ei_status :: raw_status
  ei_result :: string
  ei_error :: string

definition upper_char :: "char \<Rightarrow> char" where
  "upper_char c = (let n = (of_char c :: nat) in if 97 \<le> n \<and> n \<le> 122 then char_of (n - 32) else c)"

definition ToUpper :: "string \<Rightarrow> string" where
  "ToUpper s = map upper_char s"

definition execution_status :: "sentioSQLExecution \<Rightarrow> string" where
  "execution_status e = (case ei_status e of
       Status_name name \<Rightarrow> ToUpper name
     | Status_null \<Rightarrow> ToUpper ''''
     | Status_number n \<Rightarrow> if n = 1 then ''RUNNING'' else if n = 2 then ''FINISHED'' else if n = 3 then ''KILLED''
         else ''PENDING''
     | Status_unread \<Rightarrow> ''PENDING'')"

definition sentioSQLLimitErrors :: "string list" where
  "sentioSQLLimitErrors = [''TIMEOUT_EXCEEDED'', ''MEMORY_LIMIT_EXCEEDED'', ''TOO_MANY_ROWS_OR_BYTES'']"

section \<open>Pacing\<close>

text \<open>Durations are signed 64-bit nanoseconds.\<close>

record sentioSQLTiming =
  pollInitial :: u64
  pollMax :: u64
  statementTimeout :: u64

definition sentioSQLStatementTimeout :: u64 where "sentioSQLStatementTimeout = 120000000000"
definition sentioSQLPollInitial :: u64 where "sentioSQLPollInitial = 100000000"
definition sentioSQLPollMax :: u64 where "sentioSQLPollMax = 500000000"

definition sqlTiming :: "sentioSQLTiming \<Rightarrow> sentioSQLTiming" where
  "sqlTiming timing = \<lparr>
     pollInitial = (if pollInitial timing \<le>s 0 then sentioSQLPollInitial else pollInitial timing),
     pollMax = (if pollMax timing \<le>s 0 then sentioSQLPollMax else pollMax timing),
     statementTimeout = (if statementTimeout timing \<le>s 0 then sentioSQLStatementTimeout else statementTimeout timing)\<rparr>"

text \<open>\<open>min(2*wait, timing.pollMax)\<close>, whose doubling wraps.\<close>

definition next_wait :: "sentioSQLTiming \<Rightarrow> u64 \<Rightarrow> u64" where
  "next_wait timing wait = (if 2 * wait <s pollMax timing then 2 * wait else pollMax timing)"

section \<open>One statement\<close>

datatype sql_error =
    SQL_KeyMissing
  | SQL_Request client_error
  | SQL_NotAccepted
  | SQL_TooCostly
  | SQL_Failed
  | SQL_NoResult
  | SQL_Ended go_error

text \<open>
  What a statement meets: the answers to its submission and its polls, the nanoseconds each request
  took, when (counted from the start) and why the caller's context ends, and which branch \<open>select\<close>
  takes when the timer and the context are ready together.
\<close>

record sql_world =
  submit_answer :: "(bool \<times> client_error) + string"
  submit_took :: nat
  poll_answer :: "nat \<Rightarrow> (bool \<times> client_error) + sentioSQLExecution"
  poll_took :: "nat \<Rightarrow> nat"
  cancel_took :: nat
  caller_ends :: "int option"
  caller_error :: go_error
  timer_first :: "nat \<Rightarrow> bool"

datatype sql_event =
    Submitted "(bool \<times> client_error) + string"
  | Waited u64
  | Polled string "(bool \<times> client_error) + sentioSQLExecution"
  | Cancelled string

definition caller_done :: "sql_world \<Rightarrow> int \<Rightarrow> bool" where
  "caller_done w now = (case caller_ends w of None \<Rightarrow> False | Some e \<Rightarrow> e \<le> now)"

text \<open>When \<open>statementCtx\<close> ends: its own timeout or the caller's end, whichever is first.\<close>

definition statement_deadline :: "sql_world \<Rightarrow> sentioSQLTiming \<Rightarrow> int" where
  "statement_deadline w timing = (case caller_ends w of None \<Rightarrow> sint (statementTimeout timing)
     | Some e \<Rightarrow> min e (sint (statementTimeout timing)))"

definition abandonSQL :: "sql_world \<Rightarrow> string \<Rightarrow> int \<Rightarrow> (sql_error + string) \<times> sql_event list" where
  "abandonSQL w executionID now =
     (Inl (if caller_done w (now + int (cancel_took w)) then SQL_Ended (caller_error w) else SQL_TooCostly),
      [Cancelled executionID])"

text \<open>The \<open>switch\<close> on an execution's status; \<open>None\<close> polls again.\<close>

definition sql_verdict :: "sentioSQLExecution \<Rightarrow> (sql_error + string) option" where
  "sql_verdict info =
     (if execution_status info = ''FINISHED'' then Some
        (if ei_error info \<noteq> [] then Inl (if list_ex (\<lambda>limit. contains limit (ei_error info)) sentioSQLLimitErrors
           then SQL_TooCostly else SQL_Failed)
         else if ei_result info = [] \<or> ei_result info = ''null'' then Inl SQL_NoResult
         else Inr (ei_result info))
      else if execution_status info = ''KILLED'' then Some (Inl SQL_TooCostly)
      else None)"

definition trace_after :: "'e list \<Rightarrow> ('a \<times> 'e list) option \<Rightarrow> ('a \<times> 'e list) option" where
  "trace_after es run = map_option (\<lambda>(r, fs). (r, es @ fs)) run"

text \<open>The polls from round \<open>i\<close> on. Fuel bounds the rounds; \<open>None\<close> is fuel that ran out.\<close>

primrec poll_rounds :: "sql_world \<Rightarrow> sentioSQLTiming \<Rightarrow> string \<Rightarrow> nat \<Rightarrow> nat \<Rightarrow> int \<Rightarrow> u64
    \<Rightarrow> ((sql_error + string) \<times> sql_event list) option" where
  "poll_rounds w timing executionID 0 i now wait = None"
| "poll_rounds w timing executionID (Suc fuel) i now wait =
     (let fires = now + max 0 (sint wait); ended = max now (statement_deadline w timing) in
      if ended < fires \<or> (ended = fires \<and> \<not> timer_first w i) then Some (abandonSQL w executionID ended)
      else
        let answer = poll_answer w i; later = fires + int (poll_took w i); seen = [Waited wait, Polled executionID answer] in
        case answer of
          Inl (retry, e) \<Rightarrow>
            if statement_deadline w timing \<le> later then trace_after seen (Some (abandonSQL w executionID later))
            else if retry then trace_after seen (poll_rounds w timing executionID fuel (Suc i) later (next_wait timing wait))
            else Some (Inl (SQL_Request e), seen)
        | Inr info \<Rightarrow> (case sql_verdict info of
            Some r \<Rightarrow> Some (r, seen)
          | None \<Rightarrow> trace_after seen (poll_rounds w timing executionID fuel (Suc i) later (next_wait timing wait))))"

definition executeSQL :: "string \<Rightarrow> sentioSQLTiming \<Rightarrow> sql_world \<Rightarrow> nat
    \<Rightarrow> ((sql_error + string) \<times> sql_event list) option" where
  "executeSQL apiKey configured_timing w fuel =
     (if apiKey = [] then Some (Inl SQL_KeyMissing, [])
      else let timing = sqlTiming configured_timing; seen = [Submitted (submit_answer w)] in
        case submit_answer w of
          Inl (retry, e) \<Rightarrow> Some (Inl (SQL_Request e), seen)
        | Inr executionID \<Rightarrow>
            if executionID = [] then Some (Inl SQL_NotAccepted, seen)
            else trace_after seen (poll_rounds w timing executionID fuel 0 (int (submit_took w)) (pollInitial timing)))"

section \<open>What a caller counts on\<close>

text \<open>
  One statement as the caller sees it: not submitted, accepted as one execution, or ended with a
  result. Only the submission leaves the first state; polls of that execution stay in the second until
  one decides it; giving up cancels it.
\<close>

datatype statement_state = Unsubmitted | Running string | Ended_with "sql_error + string"

inductive statement_step :: "statement_state \<Rightarrow> sql_event \<Rightarrow> statement_state \<Rightarrow> bool" where
  rejected: "statement_step Unsubmitted (Submitted (Inl (retry, e))) (Ended_with (Inl (SQL_Request e)))"
| unnamed: "statement_step Unsubmitted (Submitted (Inr [])) (Ended_with (Inl SQL_NotAccepted))"
| accepted: "eid \<noteq> [] \<Longrightarrow> statement_step Unsubmitted (Submitted (Inr eid)) (Running eid)"
| paced: "statement_step (Running eid) (Waited wait) (Running eid)"
| transient: "statement_step (Running eid) (Polled eid (Inl (retry, e))) (Running eid)"
| broken: "statement_step (Running eid) (Polled eid (Inl (False, e))) (Ended_with (Inl (SQL_Request e)))"
| undecided: "execution_status info \<noteq> ''FINISHED'' \<Longrightarrow> execution_status info \<noteq> ''KILLED'' \<Longrightarrow>
    statement_step (Running eid) (Polled eid (Inr info)) (Running eid)"
| killed: "execution_status info = ''KILLED'' \<Longrightarrow>
    statement_step (Running eid) (Polled eid (Inr info)) (Ended_with (Inl SQL_TooCostly))"
| limited: "execution_status info = ''FINISHED'' \<Longrightarrow> limit \<in> set sentioSQLLimitErrors \<Longrightarrow> contains limit (ei_error info)
    \<Longrightarrow> ei_error info \<noteq> [] \<Longrightarrow> statement_step (Running eid) (Polled eid (Inr info)) (Ended_with (Inl SQL_TooCostly))"
| failed: "execution_status info = ''FINISHED'' \<Longrightarrow> ei_error info \<noteq> []
    \<Longrightarrow> \<forall>limit \<in> set sentioSQLLimitErrors. \<not> contains limit (ei_error info)
    \<Longrightarrow> statement_step (Running eid) (Polled eid (Inr info)) (Ended_with (Inl SQL_Failed))"
| empty: "execution_status info = ''FINISHED'' \<Longrightarrow> ei_error info = [] \<Longrightarrow> ei_result info \<in> {[], ''null''}
    \<Longrightarrow> statement_step (Running eid) (Polled eid (Inr info)) (Ended_with (Inl SQL_NoResult))"
| answered: "execution_status info = ''FINISHED'' \<Longrightarrow> ei_error info = [] \<Longrightarrow> ei_result info \<notin> {[], ''null''}
    \<Longrightarrow> statement_step (Running eid) (Polled eid (Inr info)) (Ended_with (Inr (ei_result info)))"
| outlived: "statement_step (Running eid) (Cancelled eid) (Ended_with (Inl SQL_TooCostly))"
| interrupted: "statement_step (Running eid) (Cancelled eid) (Ended_with (Inl (SQL_Ended e)))"

inductive statement_run :: "statement_state \<Rightarrow> sql_event list \<Rightarrow> statement_state \<Rightarrow> bool" where
  stop: "statement_run s [] s"
| more: "statement_step s e s' \<Longrightarrow> statement_run s' es s'' \<Longrightarrow> statement_run s (e # es) s''"

inductive_cases run_Cons: "statement_run s (e # es) s''"
inductive_cases run_Nil: "statement_run s [] s''"
inductive_cases ended_step: "statement_step (Ended_with r) e s"
inductive_cases running_step: "statement_step (Running eid) e s"
inductive_cases unsubmitted_step: "statement_step Unsubmitted e s"

lemma run_one: "statement_step s e s' \<Longrightarrow> statement_run s [e] s'"
  by (blast intro: statement_run.intros)

text \<open>The loop is a simulation of the running state.\<close>

lemma verdict_step:
  assumes "sql_verdict info = Some r"
  shows "statement_step (Running eid) (Polled eid (Inr info)) (Ended_with r)"
proof -
  consider "execution_status info = ''KILLED''" | "execution_status info = ''FINISHED''"
    using assms by (auto simp: sql_verdict_def split: if_splits)
  then show ?thesis
  proof cases
    case 1
    then have "r = Inl SQL_TooCostly" using assms by (simp add: sql_verdict_def)
    then show ?thesis using killed [OF 1] by simp
  next
    case finished: 2
    consider limit where "limit \<in> set sentioSQLLimitErrors" "contains limit (ei_error info)" "ei_error info \<noteq> []"
        "r = Inl SQL_TooCostly"
      | "ei_error info \<noteq> []" "\<forall>limit \<in> set sentioSQLLimitErrors. \<not> contains limit (ei_error info)" "r = Inl SQL_Failed"
      | "ei_error info = []" "ei_result info \<in> {[], ''null''}" "r = Inl SQL_NoResult"
      | "ei_error info = []" "ei_result info \<notin> {[], ''null''}" "r = Inr (ei_result info)"
      using assms finished by (auto simp: sql_verdict_def list_ex_iff split: if_splits)
    then show ?thesis
      using finished limited failed empty answered by cases simp_all
  qed
qed

lemma undecided_step:
  "sql_verdict info = None \<Longrightarrow> statement_step (Running eid) (Polled eid (Inr info)) (Running eid)"
  by (rule undecided) (auto simp: sql_verdict_def split: if_splits)

lemma abandon_run:
  "abandonSQL w eid now = (r, es) \<Longrightarrow> statement_run (Running eid) es (Ended_with r)"
  by (auto simp: abandonSQL_def intro!: run_one outlived interrupted split: if_splits)

lemma trace_after_Some:
  "trace_after es run = Some (r, fs) \<longleftrightarrow> (\<exists>gs. run = Some (r, gs) \<and> fs = es @ gs)"
  by (cases run) (auto simp: trace_after_def)

lemma poll_rounds_run:
  "poll_rounds w timing eid fuel i now wait = Some (r, es) \<Longrightarrow> statement_run (Running eid) es (Ended_with r)"
proof (induction fuel arbitrary: i now wait es)
  case (Suc fuel)
  let ?later = "now + max 0 (sint wait) + int (poll_took w i)"
  let ?seen = "[Waited wait, Polled eid (poll_answer w i)]"
  have polled: "statement_run (Running eid) (?seen @ fs) s"
    if "statement_step (Running eid) (Polled eid (poll_answer w i)) s'" "statement_run s' fs s" for s' fs s
    using that by (auto intro!: statement_run.more [OF paced] statement_run.more)
  consider now' where "abandonSQL w eid now' = (r, es)"
    | b e fs where "poll_answer w i = Inl (b, e)" "abandonSQL w eid ?later = (r, fs)" "es = ?seen @ fs"
    | b e fs where "poll_answer w i = Inl (b, e)" "es = ?seen @ fs"
        "poll_rounds w timing eid fuel (Suc i) ?later (next_wait timing wait) = Some (r, fs)"
    | e where "poll_answer w i = Inl (False, e)" "r = Inl (SQL_Request e)" "es = ?seen @ []"
    | info where "poll_answer w i = Inr info" "sql_verdict info = Some r" "es = ?seen @ []"
    | info fs where "poll_answer w i = Inr info" "sql_verdict info = None" "es = ?seen @ fs"
        "poll_rounds w timing eid fuel (Suc i) ?later (next_wait timing wait) = Some (r, fs)"
    using Suc.prems by (auto simp: Let_def trace_after_Some split: if_splits sum.splits prod.splits option.splits)
  then show ?case
  proof cases
    case 1
    then show ?thesis by (rule abandon_run)
  next
    case 2
    then show ?thesis using polled [OF _ abandon_run [OF 2(2)]] transient by simp
  next
    case 3
    show ?thesis unfolding 3(2) by (rule polled [OF _ Suc.IH [OF 3(3)]]) (simp add: 3(1) transient)
  next
    case 4
    show ?thesis unfolding 4(3) by (rule polled [OF _ statement_run.stop]) (simp add: 4(1,2) broken)
  next
    case 5
    show ?thesis unfolding 5(3) by (rule polled [OF _ statement_run.stop]) (simp add: 5(1) verdict_step [OF 5(2)])
  next
    case 6
    show ?thesis unfolding 6(3) by (rule polled [OF _ Suc.IH [OF 6(4)]]) (simp add: 6(1) undecided_step [OF 6(2)])
  qed
qed simp

text \<open>What the contract implies: one submission, polls of its execution only, a cancellation only last.\<close>

definition submissions :: "sql_event list \<Rightarrow> nat" where
  "submissions es = length (filter (\<lambda>e. case e of Submitted a \<Rightarrow> True | _ \<Rightarrow> False) es)"

lemma submissions_simps [simp]:
  "submissions [] = 0" "submissions (Submitted a # es) = Suc (submissions es)"
  "submissions (Waited d # es) = submissions es" "submissions (Polled eid b # es) = submissions es"
  "submissions (Cancelled eid # es) = submissions es"
  by (simp_all add: submissions_def)

lemma ended_run: "statement_run (Ended_with r) es s \<Longrightarrow> es = [] \<and> s = Ended_with r"
  by (cases es) (auto elim: run_Nil run_Cons ended_step)

lemma running_run:
  "statement_run (Running eid) es (Ended_with r) \<Longrightarrow>
     submissions es = 0
     \<and> (\<forall>f a. Polled f a \<in> set es \<longrightarrow> f = eid)
     \<and> (\<forall>f. Cancelled f \<in> set es \<longrightarrow> f = eid \<and> last es = Cancelled eid \<and> (r = Inl SQL_TooCostly \<or> (\<exists>e. r = Inl (SQL_Ended e))))
     \<and> (\<forall>d. r = Inr d \<longrightarrow> (\<exists>info. last es = Polled eid (Inr info) \<and> execution_status info = ''FINISHED''
          \<and> ei_error info = [] \<and> ei_result info = d))"
proof (induction es)
  case (Cons e es)
  from Cons.prems obtain s where step: "statement_step (Running eid) e s" and rest: "statement_run s es (Ended_with r)"
    by (auto elim: run_Cons)
  from step consider "s = Running eid" "\<exists>d. e = Waited d" | a where "s = Running eid" "e = Polled eid a"
    | r' where "s = Ended_with r'" by (auto elim!: running_step)
  then show ?case
  proof cases
    case 3
    then have "es = []" "r' = r" using ended_run rest by auto
    then show ?thesis using step 3 by (auto elim!: running_step)
  qed (use rest Cons.IH in \<open>auto elim: run_Nil\<close>)
qed (auto elim: run_Nil)

section \<open>The loop returns\<close>

text \<open>Pacing without overflow: the defaults, and every configuration below 146 years.\<close>

definition paced_timing :: "sentioSQLTiming \<Rightarrow> bool" where
  "paced_timing timing \<longleftrightarrow> sint (pollInitial timing) < 2 ^ 62 \<and> sint (pollMax timing) < 2 ^ 62"

text \<open>The nanoseconds every wait lasts at least, and rounds that outlast the statement's timeout.\<close>

definition least_wait :: "sentioSQLTiming \<Rightarrow> int" where
  "least_wait timing = min (sint (pollInitial (sqlTiming timing))) (sint (pollMax (sqlTiming timing)))"

definition enough_rounds :: "sentioSQLTiming \<Rightarrow> nat" where
  "enough_rounds timing = nat (sint (statementTimeout (sqlTiming timing)) div least_wait timing) + 2"

lemma sint_double: "0 < sint w \<Longrightarrow> sint w < 2 ^ 62 \<Longrightarrow> sint (2 * w) = 2 * sint (w::u64)"
  using signed_take_bit_int_eq_self [of 63 "2 * sint w"] by (simp add: sint_word_ariths)

lemma next_wait_range:
  assumes "0 < sint wait" "sint wait < 2 ^ 62" "0 < sint (pollMax timing)" "sint (pollMax timing) < 2 ^ 62"
    and "m \<le> sint wait" "m \<le> sint (pollMax timing)"
  shows "m \<le> sint (next_wait timing wait)" "0 < sint (next_wait timing wait)" "sint (next_wait timing wait) < 2 ^ 62"
  using assms sint_double [OF assms(1,2)] by (auto simp: next_wait_def word_sless_alt)

lemma sqlTiming_pos:
  "0 < sint (pollInitial (sqlTiming timing))" "0 < sint (pollMax (sqlTiming timing))"
  "0 < sint (statementTimeout (sqlTiming timing))"
  by (auto simp: sqlTiming_def word_sle_eq sentioSQLPollInitial_def sentioSQLPollMax_def sentioSQLStatementTimeout_def)

lemma sqlTiming_paced: "paced_timing timing \<Longrightarrow> paced_timing (sqlTiming timing)"
  by (auto simp: sqlTiming_def paced_timing_def sentioSQLPollInitial_def sentioSQLPollMax_def)

lemma deadline_le: "statement_deadline w timing \<le> sint (statementTimeout timing)"
  by (simp add: statement_deadline_def split: option.splits)

lemma poll_rounds_return:
  assumes "0 < sint wait" "sint wait < 2 ^ 62" "0 < sint (pollMax timing)" "sint (pollMax timing) < 2 ^ 62"
    and "m \<le> sint wait" "m \<le> sint (pollMax timing)" "0 < m"
    and "sint (statementTimeout timing) \<le> now + m * int fuel"
  shows "poll_rounds w timing eid (Suc fuel) i now wait \<noteq> None"
  using assms
proof (induction fuel arbitrary: i now wait)
  case 0
  then have "max now (statement_deadline w timing) < now + max 0 (sint wait)"
    using deadline_le [of w timing] by simp
  then show ?case by (simp add: Let_def)
next
  case (Suc fuel)
  let ?later = "now + max 0 (sint wait) + int (poll_took w i)"
  have "sint (statementTimeout timing) \<le> ?later + m * int fuel"
    using Suc.prems(5,8) by (simp add: algebra_simps max_def)
  then have "poll_rounds w timing eid (Suc fuel) (Suc i) ?later (next_wait timing wait) \<noteq> None"
    using Suc.prems next_wait_range [OF Suc.prems(1-6)] by (intro Suc.IH) auto
  then show ?case
    by (subst poll_rounds.simps)
      (auto simp: Let_def trace_after_def simp del: poll_rounds.simps split: sum.splits option.splits)
qed

lemma executeSQL_shape:
  assumes "apiKey \<noteq> []" and "\<And>eid. poll_rounds w (sqlTiming timing) eid fuel 0 (int (submit_took w)) (pollInitial (sqlTiming timing)) \<noteq> None"
  shows "\<exists>r es. executeSQL apiKey timing w fuel = Some (r, es)
    \<and> ((es = [Submitted (submit_answer w)] \<and> (\<exists>e. r = Inl e) \<and> statement_step Unsubmitted (Submitted (submit_answer w)) (Ended_with r))
      \<or> (\<exists>eid fs. submit_answer w = Inr eid \<and> es = Submitted (Inr eid) # fs \<and> eid \<noteq> [] \<and> statement_run (Running eid) fs (Ended_with r)))"
proof (cases "submit_answer w")
  case (Inl f)
  then show ?thesis using assms(1) by (cases f) (simp add: executeSQL_def Let_def rejected)
next
  case (Inr eid)
  show ?thesis
  proof (cases "eid = []")
    case True
    then show ?thesis using assms(1) Inr by (simp add: executeSQL_def Let_def unnamed)
  next
    case False
    obtain r fs where "poll_rounds w (sqlTiming timing) eid fuel 0 (int (submit_took w)) (pollInitial (sqlTiming timing)) = Some (r, fs)"
      using assms(2) [of eid] by auto
    then show ?thesis using assms(1) Inr False poll_rounds_run by (fastforce simp: executeSQL_def Let_def trace_after_def)
  qed
qed

text \<open>C12: whatever the service answers and however long it takes, \<open>executeSQL\<close> returns within the
  rounds its timeout leaves, and what it did and returned is a run of the contract: the statement is
  submitted exactly once, only its own execution is polled, a result is one a poll of it returned
  finished without error, and it is cancelled only as the last act, with the error of one given up on.\<close>

theorem executeSQL_refines_contract:
  assumes "paced_timing timing" "apiKey \<noteq> []" "enough_rounds timing \<le> fuel"
  shows "\<exists>r es. executeSQL apiKey timing w fuel = Some (r, es)
    \<and> statement_run Unsubmitted es (Ended_with r) \<and> submissions es = 1
    \<and> (\<forall>eid. Cancelled eid \<in> set es \<longrightarrow> last es = Cancelled eid \<and> (r = Inl SQL_TooCostly \<or> (\<exists>e. r = Inl (SQL_Ended e))))
    \<and> (\<forall>d. r = Inr d \<longrightarrow> (\<exists>eid info. submit_answer w = Inr eid \<and> last es = Polled eid (Inr info)
         \<and> execution_status info = ''FINISHED'' \<and> ei_error info = [] \<and> ei_result info = d))"
proof -
  let ?t = "sqlTiming timing"
  obtain rounds where rounds: "fuel = Suc rounds" "nat (sint (statementTimeout ?t) div least_wait timing) + 1 \<le> rounds"
    using assms(3) by (cases fuel) (auto simp: enough_rounds_def)
  have least: "0 < least_wait timing" using sqlTiming_pos [of timing] by (simp add: least_wait_def)
  have "sint (statementTimeout ?t) < least_wait timing * (sint (statementTimeout ?t) div least_wait timing + 1)"
    unfolding distrib_left using pos_mod_bound [OF least] mult_div_mod_eq [of "least_wait timing" "sint (statementTimeout ?t)"]
    by (metis add.commute add_less_cancel_left mult.right_neutral)
  also have "\<dots> \<le> least_wait timing * int rounds" using rounds(2) least by (intro mult_left_mono) auto
  finally have "poll_rounds w ?t eid fuel 0 (int (submit_took w)) (pollInitial ?t) \<noteq> None" for eid
    unfolding rounds(1) using sqlTiming_pos [of timing] sqlTiming_paced [OF assms(1)] least
    by (intro poll_rounds_return [where m = "least_wait timing"]) (auto simp: paced_timing_def least_wait_def)
  from executeSQL_shape [OF assms(2) this] obtain r es where run: "executeSQL apiKey timing w fuel = Some (r, es)"
    and shape: "(es = [Submitted (submit_answer w)] \<and> (\<exists>e. r = Inl e) \<and> statement_step Unsubmitted (Submitted (submit_answer w)) (Ended_with r))
      \<or> (\<exists>eid fs. submit_answer w = Inr eid \<and> es = Submitted (Inr eid) # fs \<and> eid \<noteq> [] \<and> statement_run (Running eid) fs (Ended_with r))"
    by blast
  from shape show ?thesis
  proof (elim disjE exE conjE)
    fix e assume "es = [Submitted (submit_answer w)]" "r = Inl e" "statement_step Unsubmitted (Submitted (submit_answer w)) (Ended_with r)"
    then show ?thesis using run by (auto intro: run_one)
  next
    fix eid fs assume fs: "submit_answer w = Inr eid" "es = Submitted (Inr eid) # fs" "eid \<noteq> []"
      "statement_run (Running eid) fs (Ended_with r)"
    then have "statement_run Unsubmitted es (Ended_with r)" "fs \<noteq> []"
      by (auto intro: statement_run.more accepted elim: run_Nil)
    then show ?thesis using run fs running_run [OF fs(4)] by auto
  qed
qed

definition demo_sql_world :: sql_world where
  "demo_sql_world = \<lparr>submit_answer = Inr ''q1'', submit_took = 40000000,
     poll_answer = (\<lambda>i. if i = 0 then Inl (True, ResponseTooLarge) else if i = 1 then
        Inr \<lparr>ei_status = Status_number 1, ei_result = [], ei_error = []\<rparr>
      else Inr \<lparr>ei_status = Status_name ''Finished'', ei_result = ''rows'', ei_error = []\<rparr>),
     poll_took = (\<lambda>i. 1000000), cancel_took = 0, caller_ends = None, caller_error = PlainError ''context deadline exceeded'', timer_first = (\<lambda>i. True)\<rparr>"

definition demo_timing :: sentioSQLTiming where
  "demo_timing = \<lparr>pollInitial = 0, pollMax = 0, statementTimeout = 0\<rparr>"

lemma demo_timing_ok: "paced_timing demo_timing" "enough_rounds demo_timing = 1202"
  by (simp_all add: paced_timing_def demo_timing_def enough_rounds_def least_wait_def sqlTiming_def
    sentioSQLPollInitial_def sentioSQLPollMax_def sentioSQLStatementTimeout_def)

theorem executeSQL_refines_contract_witness:
  "\<exists>r es. executeSQL ''key'' demo_timing demo_sql_world 1202 = Some (r, es)
    \<and> statement_run Unsubmitted es (Ended_with r) \<and> submissions es = 1"
  using executeSQL_refines_contract [of demo_timing "''key''" 1202 demo_sql_world] demo_timing_ok by auto

end
