(* ===== verification/MoveType.thy ===== *)
theory MoveType
  imports Types Utf8
begin

text \<open>
  \<open>sui.go\<close>, the text of the Sui chain: trimming, Move addresses and \<open>ParseSuiAddress\<close>, and
  \<open>NormalizeMoveType\<close> with its recursive-descent parser. A parser state is the input left to read.
  The lemmas relate the parser to a printer of type trees, so that normalising is shown to have
  exactly the canonical spellings as its fixed points.
\<close>

section \<open>White space at the ends of any bytes\<close>

text \<open>
  \<open>strings.TrimSpace\<close> drops encoded white space runes from both ends, whatever the bytes between.
\<close>

definition space_codes :: "nat list list" where
  "space_codes = map (\<lambda>n. [n]) [9, 10, 11, 12, 13, 32] @ [[0xC2, 0x85], [0xC2, 0xA0], [0xE1, 0x9A, 0x80]]
     @ map (\<lambda>n. [0xE2, 0x80, n]) ([0x80..<0x8B] @ [0xA8, 0xA9, 0xAF]) @ [[0xE2, 0x81, 0x9F], [0xE3, 0x80, 0x80]]"

fun strip_code :: "nat list \<Rightarrow> string \<Rightarrow> string option" where
  "strip_code [] s = Some s"
| "strip_code (n # ns) [] = None"
| "strip_code (n # ns) (c # s) = (if byte_val c = n then strip_code ns s else None)"

fun strip_space :: "nat list list \<Rightarrow> string \<Rightarrow> string option" where
  "strip_space [] s = None"
| "strip_space (code # codes) s = (case strip_code code s of Some r \<Rightarrow> Some r | None \<Rightarrow> strip_space codes s)"

text \<open>At most every byte of a text is white space, so its length bounds the passes.\<close>

primrec trim_codes :: "nat list list \<Rightarrow> nat \<Rightarrow> string \<Rightarrow> string" where
  "trim_codes codes 0 s = s"
| "trim_codes codes (Suc k) s = (case strip_space codes s of Some r \<Rightarrow> trim_codes codes k r | None \<Rightarrow> s)"

definition trim_text :: "string \<Rightarrow> string" where
  "trim_text s = (let left = trim_codes space_codes (length s) s in
     rev (trim_codes (map rev space_codes) (length left) (rev left)))"

section \<open>Addresses\<close>

type_synonym sui_address = hash

datatype move_error = AddressStart | AddressLong | AddressNotHex | IdentifierStart | NotQualified
  | TooDeep | Unterminated | NotCommaSeparated | VectorElement | NotAType string | EmptyType | Trailing | TypeTooLong
  | OutOfFuel

definition is_hex_digit :: "nat \<Rightarrow> bool" where
  "is_hex_digit n \<longleftrightarrow> between 48 57 n \<or> between 97 102 n \<or> between 65 70 n"

text \<open>The runes a \<open>range\<close> over a string visits: a byte that starts none is \<open>U+FFFD\<close>.\<close>

function lossy_runes :: "string \<Rightarrow> nat list" where
  "lossy_runes [] = []"
| "lossy_runes (c # s) = (case decode_rune c s of
     Some ((r, bytes), rest) \<Rightarrow> r # lossy_runes rest | None \<Rightarrow> 0xFFFD # lossy_runes s)"
  by pat_completeness auto
termination
  by (relation "measure length") (auto dest: decode_rune_rest simp: less_Suc_eq_le)

text \<open>\<open>strings.ToLower\<close>: on ASCII text byte by byte; Unicode's tables for the rest are a parameter.\<close>

definition is_ascii :: "string \<Rightarrow> bool" where
  "is_ascii s \<longleftrightarrow> list_all (\<lambda>c. byte_val c < 128) s"

definition lower_with :: "(string \<Rightarrow> string) \<Rightarrow> string \<Rightarrow> string" where
  "lower_with lower_text s = (if is_ascii s then ToLower s else lower_text s)"

definition moveAddressHexDigits :: nat where "moveAddressHexDigits = 64"

text \<open>The check takes \<open>byte(character)\<close>, the low eight bits of a rune.\<close>

definition moveAddressDigits :: "(string \<Rightarrow> string) \<Rightarrow> string \<Rightarrow> move_error + string" where
  "moveAddressDigits lower_text v =
     (if length v < 3 \<or> v ! 0 \<noteq> CHR ''0'' \<or> (v ! 1 \<noteq> CHR ''x'' \<and> v ! 1 \<noteq> CHR ''X'') then Inl AddressStart
      else let digits = drop 2 v in
        if length digits > moveAddressHexDigits then Inl AddressLong
        else if \<not> list_all (\<lambda>r. is_hex_digit (r mod 256)) (lossy_runes digits) then Inl AddressNotHex
        else Inr (''0x'' @ replicate (moveAddressHexDigits - length digits) CHR ''0'' @ lower_with lower_text digits))"

definition hex_digit_val :: "char \<Rightarrow> nat" where
  "hex_digit_val c = (let n = byte_val c in if between 48 57 n then n - 48 else if between 97 102 n then n - 87 else n - 55)"

definition hex_val :: "nat \<Rightarrow> string \<Rightarrow> nat" where
  "hex_val a s = foldl (\<lambda>v c. 16 * v + hex_digit_val c) a s"

text \<open>\<open>hex.DecodeString\<close>: an even number of hexadecimal digits, as the number their bytes spell.\<close>

definition decode_hex :: "string \<Rightarrow> nat option" where
  "decode_hex s = (if even (length s) \<and> list_all (\<lambda>c. is_hex_digit (byte_val c)) s then Some (hex_val 0 s) else None)"

text \<open>
  \<open>copy\<close> keeps the first 32 of the decoded bytes; \<open>moveAddressDigits\<close> gives 32 whenever its digits
  are ASCII.
\<close>

definition ParseSuiAddress :: "(string \<Rightarrow> string) \<Rightarrow> string \<Rightarrow> move_error + sui_address" where
  "ParseSuiAddress lower_text v = bindR (moveAddressDigits lower_text (trim_text v)) (\<lambda>digits.
     case decode_hex (drop 2 digits) of None \<Rightarrow> Inl AddressNotHex
     | Some n \<Rightarrow> Inr (of_nat n))"

definition sui_hex :: "sui_address \<Rightarrow> string" where
  "sui_hex a = ''0x'' @ hex_fixed 64 (unat a)"

section \<open>Types\<close>

definition is_identifier_start :: "char \<Rightarrow> bool" where
  "is_identifier_start c \<longleftrightarrow> c = CHR ''_'' \<or> between 97 122 (byte_val c) \<or> between 65 90 (byte_val c)"

definition is_identifier_part :: "char \<Rightarrow> bool" where
  "is_identifier_part c \<longleftrightarrow> is_identifier_start c \<or> between 48 57 (byte_val c)"

definition movePrimitiveTypes :: "string list" where
  "movePrimitiveTypes = [''bool'', ''u8'', ''u16'', ''u32'', ''u64'', ''u128'', ''u256'', ''address'', ''signer'']"

definition moveTypeMaxDepth :: nat where "moveTypeMaxDepth = 8"
definition moveTypeMaxLength :: nat where "moveTypeMaxLength = 4096"

definition skipBlanks :: "string \<Rightarrow> string" where
  "skipBlanks s = dropWhile (\<lambda>c. c = CHR '' '' \<or> byte_val c = 9) s"

definition hex_byte :: "char \<Rightarrow> bool" where
  "hex_byte c \<longleftrightarrow> is_hex_digit (byte_val c)"

definition parseAddress :: "string \<Rightarrow> move_error + (string \<times> string)" where
  "parseAddress s = (case s of
     c # x # r \<Rightarrow> if c = CHR ''0'' \<and> (x = CHR ''x'' \<or> x = CHR ''X'')
       then bindR (moveAddressDigits (\<lambda>t. t) (c # x # takeWhile hex_byte r)) (\<lambda>digits. Inr (digits, dropWhile hex_byte r))
       else Inl AddressStart
   | _ \<Rightarrow> Inl AddressStart)"

definition parseSeparatedIdentifier :: "string \<Rightarrow> move_error + (string \<times> string)" where
  "parseSeparatedIdentifier s = (if take 2 s \<noteq> ''::'' then Inl NotQualified
     else let r = drop 2 s in
       if r = [] \<or> \<not> is_identifier_start (hd r) then Inl IdentifierStart
       else Inr (takeWhile is_identifier_part r, dropWhile is_identifier_part r))"

fun join_with :: "string \<Rightarrow> string list \<Rightarrow> string" where
  "join_with sep [] = []"
| "join_with sep [x] = x"
| "join_with sep (x # y # ys) = x @ sep @ join_with sep (y # ys)"

text \<open>\<open>parseStructType\<close>, its loop over the parameters, and \<open>parseType\<close>; one unit of fuel per call.\<close>

fun parseStructType :: "nat \<Rightarrow> nat \<Rightarrow> string \<Rightarrow> move_error + (string \<times> string)"
  and parse_parameters :: "nat \<Rightarrow> nat \<Rightarrow> string list \<Rightarrow> string \<Rightarrow> move_error + (string list \<times> string)"
  and parseType :: "nat \<Rightarrow> nat \<Rightarrow> string \<Rightarrow> move_error + (string \<times> string)" where
  "parseStructType 0 depth s = Inl OutOfFuel"
| "parseStructType (Suc fuel) depth s = (if depth > moveTypeMaxDepth then Inl TooDeep else
     bindR (parseAddress s) (\<lambda>(addr, s1). bindR (parseSeparatedIdentifier s1) (\<lambda>(module, s2).
       bindR (parseSeparatedIdentifier s2) (\<lambda>(name, s3).
         let normalized = addr @ ''::'' @ module @ ''::'' @ name in
         if s3 = [] \<or> hd s3 \<noteq> CHR ''<'' then Inr (normalized, s3)
         else bindR (parse_parameters fuel depth [] (tl s3)) (\<lambda>(parameters, s4).
           Inr (normalized @ ''<'' @ join_with '','' parameters @ ''>'', s4))))))"
| "parse_parameters 0 depth parameters s = Inl OutOfFuel"
| "parse_parameters (Suc fuel) depth parameters s = bindR (parseType fuel (depth + 1) s) (\<lambda>(parameter, s1).
     let s2 = skipBlanks s1; parameters' = parameters @ [parameter] in
     if s2 = [] then Inl Unterminated
     else if hd s2 = CHR '','' then parse_parameters fuel depth parameters' (tl s2)
     else if hd s2 = CHR ''>'' then Inr (parameters', tl s2)
     else Inl NotCommaSeparated)"
| "parseType 0 depth s = Inl OutOfFuel"
| "parseType (Suc fuel) depth s = (if depth > moveTypeMaxDepth then Inl TooDeep else
     let s1 = skipBlanks s in
     if s1 \<noteq> [] \<and> hd s1 = CHR ''0'' then parseStructType fuel depth s1
     else let word = takeWhile is_identifier_part s1; s2 = dropWhile is_identifier_part s1 in
       if word = ''vector'' then
         (if s2 = [] \<or> hd s2 \<noteq> CHR ''<'' then Inl VectorElement
          else bindR (parseType fuel (depth + 1) (tl s2)) (\<lambda>(element, s3).
            let s4 = skipBlanks s3 in
            if s4 = [] \<or> hd s4 \<noteq> CHR ''>'' then Inl VectorElement
            else Inr (''vector<'' @ element @ ''>'', tl s4)))
       else if word \<in> set movePrimitiveTypes then Inr (word, s2)
       else Inl (NotAType word))"

definition type_fuel :: "string \<Rightarrow> nat" where
  "type_fuel s = 2 * length s + 2"

definition NormalizeMoveType :: "string \<Rightarrow> move_error + string" where
  "NormalizeMoveType v = (let input = trim_text v in
     if input = [] then Inl EmptyType
     else bindR (parseStructType (type_fuel input) 0 input) (\<lambda>(normalized, s).
       if skipBlanks s \<noteq> [] then Inl Trailing
       else if length normalized > moveTypeMaxLength then Inl TypeTooLong
       else Inr normalized))"

section \<open>Canonical spellings\<close>

text \<open>Type trees and how they are printed; \<open>deep d t\<close>: no deeper than the limit from depth \<open>d\<close>.\<close>

datatype move_type = Primitive string | VectorOf move_type | Struct nat string string "move_type list"

fun show_type :: "move_type \<Rightarrow> string" where
  "show_type (Primitive w) = w"
| "show_type (VectorOf t) = ''vector<'' @ show_type t @ ''>''"
| "show_type (Struct a m n ts) = ''0x'' @ hex_fixed 64 a @ ''::'' @ m @ ''::'' @ n
     @ (if ts = [] then [] else ''<'' @ join_with '','' (map show_type ts) @ ''>'')"

definition is_identifier :: "string \<Rightarrow> bool" where
  "is_identifier s \<longleftrightarrow> s \<noteq> [] \<and> is_identifier_start (hd s) \<and> list_all is_identifier_part s"

fun deep :: "nat \<Rightarrow> move_type \<Rightarrow> bool" where
  "deep d (Primitive w) \<longleftrightarrow> d \<le> moveTypeMaxDepth \<and> w \<in> set movePrimitiveTypes"
| "deep d (VectorOf t) \<longleftrightarrow> d \<le> moveTypeMaxDepth \<and> deep (d + 1) t"
| "deep d (Struct a m n ts) \<longleftrightarrow> d \<le> moveTypeMaxDepth \<and> a < 16 ^ 64 \<and> is_identifier m \<and> is_identifier n \<and> list_all (deep (d + 1)) ts"

lemma byte_val_simps [simp]: "byte_val (char_of n) = n mod 256" "byte_val (hex_char k) = of_char (hex_char k)"
  by (simp_all add: byte_val_def)

lemma hex_val_snoc [simp]: "hex_val 0 (ds @ [c]) = 16 * hex_val 0 ds + hex_digit_val c" "hex_val 0 [] = 0"
  by (simp_all add: hex_val_def)

lemma hex_digit_val_less: "hex_byte c \<Longrightarrow> hex_digit_val c < 16"
  by (auto simp: hex_byte_def is_hex_digit_def hex_digit_val_def between_def Let_def)

lemma hex_char_digit_val:
  assumes "hex_byte c"
  shows "hex_char (hex_digit_val c) = lower_char c"
proof -
  define n where "n = byte_val c"
  have n: "(of_char c :: nat) = n" "char_of n = c" by (simp_all add: n_def byte_val_def)
  consider "48 \<le> n" "n \<le> 57" | "97 \<le> n" "n \<le> 102" | "65 \<le> n" "n \<le> 70"
    using assms by (auto simp: hex_byte_def is_hex_digit_def between_def byte_val_def n)
  then show ?thesis
  proof cases
    case 3
    then have "87 + (n - 55) = n + 32" "\<not> n - 55 < 10" by simp_all
    then show ?thesis using 3 by (simp add: hex_digit_val_def hex_char_def lower_char_def Let_def between_def byte_val_def n)
  qed (auto simp: hex_digit_val_def hex_char_def lower_char_def Let_def between_def byte_val_def n)
qed

lemma hex_fixed_zero: "hex_fixed k 0 = replicate k CHR ''0''"
proof (induction k)
  case (Suc k)
  have "hex_char 0 = CHR ''0''" by code_simp
  with Suc show ?case by (simp add: replicate_append_same)
qed simp

lemma padded_digits:
  "list_all hex_byte ds \<Longrightarrow> length ds \<le> k \<Longrightarrow>
     replicate (k - length ds) CHR ''0'' @ ToLower ds = hex_fixed k (hex_val 0 ds) \<and> hex_val 0 ds < 16 ^ length ds"
proof (induction ds arbitrary: k rule: rev_induct)
  case Nil
  then show ?case by (simp add: hex_fixed_zero ToLower_def)
next
  case (snoc c ds)
  then obtain j where k: "k = Suc j" "length ds \<le> j" by (cases k) auto
  have c: "hex_byte c" using snoc.prems by simp
  then have "hex_digit_val c < 16" "hex_char (hex_digit_val c) = lower_char c"
    by (simp_all add: hex_digit_val_less hex_char_digit_val)
  with snoc.IH [of j] snoc.prems k show ?case
    by (simp add: ToLower_def)
qed

lemma hex_ascii: "list_all hex_byte ds \<Longrightarrow> is_ascii ds"
  by (auto simp: is_ascii_def list_all_iff hex_byte_def is_hex_digit_def between_def)

lemma lossy_ascii: "is_ascii s \<Longrightarrow> lossy_runes s = map byte_val s"
proof (induction s)
  case (Cons c s)
  then have "decode_rune c s = Some ((byte_val c, [c]), s)"
    by (simp add: is_ascii_def decode_rune_def first_byte_def)
  with Cons show ?case by (simp add: is_ascii_def)
qed simp

lemma moveAddressDigits_hex:
  assumes "list_all hex_byte ds" "ds \<noteq> []" "x = CHR ''x'' \<or> x = CHR ''X''"
  shows "moveAddressDigits lower_text (CHR ''0'' # x # ds) =
    (if length ds > 64 then Inl AddressLong else Inr (''0x'' @ hex_fixed 64 (hex_val 0 ds)))"
proof -
  have "list_all (\<lambda>r. is_hex_digit (r mod 256)) (lossy_runes ds)"
    using assms(1) hex_ascii [OF assms(1)] by (auto simp: lossy_ascii list_all_iff hex_byte_def is_ascii_def)
  moreover have "0 < length ds" using assms(2) by simp
  ultimately show ?thesis
    using assms padded_digits [OF assms(1), of 64] hex_ascii [OF assms(1)]
    by (auto simp: moveAddressDigits_def moveAddressHexDigits_def Let_def lower_with_def)
qed

lemma list_all_takeWhile: "list_all P (takeWhile P s)"
  by (auto simp: list_all_iff dest: set_takeWhileD)

lemma parseAddress_sound:
  assumes "parseAddress s = Inr (addr, r)"
  shows "\<exists>n < 16 ^ 64. addr = ''0x'' @ hex_fixed 64 n"
proof -
  from assms obtain x t where s: "s = CHR ''0'' # x # t" "x = CHR ''x'' \<or> x = CHR ''X''"
    and digits: "moveAddressDigits (\<lambda>t. t) (CHR ''0'' # x # takeWhile hex_byte t) = Inr addr"
    by (auto simp: parseAddress_def bindR_Inr_iff split: list.splits if_splits)
  let ?ds = "takeWhile hex_byte t"
  have hex: "list_all hex_byte ?ds" by (rule list_all_takeWhile)
  have "?ds \<noteq> []" using digits by (auto simp: moveAddressDigits_def)
  then have "length ?ds \<le> 64" "addr = ''0x'' @ hex_fixed 64 (hex_val 0 ?ds)"
    using digits moveAddressDigits_hex [OF hex, of x "\<lambda>t. t"] s(2) by (auto split: if_splits)
  moreover have "hex_val 0 ?ds < 16 ^ 64"
    using padded_digits [OF hex \<open>length ?ds \<le> 64\<close>] power_increasing [OF \<open>length ?ds \<le> 64\<close>, of "16::nat"] by linarith
  ultimately show ?thesis by blast
qed

lemma parseSeparatedIdentifier_sound:
  assumes "parseSeparatedIdentifier s = Inr (m, r)"
  shows "is_identifier m"
proof -
  from assms obtain c t where "drop 2 s = c # t" "is_identifier_start c" "m = takeWhile is_identifier_part (c # t)"
    by (cases "drop 2 s") (auto simp: parseSeparatedIdentifier_def Let_def split: if_splits)
  then show ?thesis by (simp add: is_identifier_def is_identifier_part_def list_all_takeWhile)
qed

lemma parse_sound:
  "parseStructType fuel depth s = Inr (r, s') \<Longrightarrow> \<exists>t a m n ts. t = Struct a m n ts \<and> deep depth t \<and> r = show_type t"
  "parse_parameters fuel depth parameters s = Inr (rs, s') \<Longrightarrow>
     \<exists>ts. ts \<noteq> [] \<and> list_all (deep (depth + 1)) ts \<and> rs = parameters @ map show_type ts"
  "parseType fuel depth s = Inr (r, s') \<Longrightarrow> \<exists>t. deep depth t \<and> r = show_type t"
proof (induction fuel depth s and fuel depth parameters s and fuel depth s arbitrary: r s' and rs s' and r s'
    rule: parseStructType_parse_parameters_parseType.induct)
  case (2 fuel depth s)
  then obtain addr s1 m s2 n s3 where parts: "depth \<le> moveTypeMaxDepth" "parseAddress s = Inr (addr, s1)"
      "parseSeparatedIdentifier s1 = Inr (m, s2)" "parseSeparatedIdentifier s2 = Inr (n, s3)"
    and last: "(if s3 = [] \<or> hd s3 \<noteq> CHR ''<'' then Inr (addr @ ''::'' @ m @ ''::'' @ n, s3)
         else bindR (parse_parameters fuel depth [] (tl s3)) (\<lambda>(parameters, s4).
           Inr ((addr @ ''::'' @ m @ ''::'' @ n) @ ''<'' @ join_with '','' parameters @ ''>'', s4))) = Inr (r, s')"
    by (auto simp: bindR_Inr_iff Let_def split: if_splits)
  obtain a where a: "a < 16 ^ 64" "addr = ''0x'' @ hex_fixed 64 a" using parseAddress_sound [OF parts(2)] by blast
  have ids: "is_identifier m" "is_identifier n" using parts by (auto dest: parseSeparatedIdentifier_sound)
  show ?case
  proof (cases "s3 = [] \<or> hd s3 \<noteq> CHR ''<''")
    case True
    then have "r = show_type (Struct a m n [])" using last a by auto
    moreover have "deep depth (Struct a m n [])" using parts a ids by simp
    ultimately show ?thesis by blast
  next
    case False
    then obtain ps where ps: "parse_parameters fuel depth [] (tl s3) = Inr (ps, s')"
        "r = (addr @ ''::'' @ m @ ''::'' @ n) @ ''<'' @ join_with '','' ps @ ''>''"
      using last by (auto simp: bindR_Inr_iff)
    have "\<exists>ts. ts \<noteq> [] \<and> list_all (deep (depth + 1)) ts \<and> ps = map show_type ts"
      using "2.IH" parts False ps(1) by (auto simp: Let_def)
    then obtain ts where "ts \<noteq> []" "list_all (deep (depth + 1)) ts" "ps = map show_type ts" by blast
    then have "r = show_type (Struct a m n ts)" "deep depth (Struct a m n ts)" using ps parts a ids by auto
    then show ?thesis by blast
  qed
next
  case (4 fuel depth parameters s)
  then obtain p s1 where p: "parseType fuel (depth + 1) s = Inr (p, s1)" by (auto simp: bindR_Inr_iff)
  with "4.IH"(1) obtain t where t: "deep (depth + 1) t" "p = show_type t" by blast
  let ?s2 = "skipBlanks s1"
  consider "?s2 \<noteq> []" "hd ?s2 = CHR '',''" "parse_parameters fuel depth (parameters @ [p]) (tl ?s2) = Inr (rs, s')"
    | "rs = parameters @ [p]"
    using "4.prems" p by (auto simp: Let_def split: if_splits)
  then show ?case
  proof cases
    case 1
    with "4.IH"(2) [OF p refl refl] obtain ts where "list_all (deep (depth + 1)) ts" "rs = (parameters @ [p]) @ map show_type ts"
      by blast
    then show ?thesis using t by (intro exI [of _ "t # ts"]) simp
  next
    case 2
    then show ?thesis using t by (intro exI [of _ "[t]"]) simp
  qed
next
  case (6 fuel depth s)
  let ?s1 = "skipBlanks s"
  let ?w = "takeWhile is_identifier_part ?s1" and ?s2 = "dropWhile is_identifier_part ?s1"
  have depth: "depth \<le> moveTypeMaxDepth" using "6.prems" by (auto split: if_splits)
  consider "?s1 \<noteq> []" "hd ?s1 = CHR ''0''" "parseStructType fuel depth ?s1 = Inr (r, s')"
    | e s3 where "\<not> (?s1 \<noteq> [] \<and> hd ?s1 = CHR ''0'')" "?w = ''vector''" "?s2 \<noteq> []" "hd ?s2 = CHR ''<''"
        "parseType fuel (depth + 1) (tl ?s2) = Inr (e, s3)" "r = ''vector<'' @ e @ ''>''"
    | "?w \<in> set movePrimitiveTypes" "r = ?w"
    using "6.prems" by (auto simp: Let_def bindR_Inr_iff split: if_splits)
  then show ?case
  proof cases
    case 1
    with "6.IH"(1) depth show ?thesis by (metis linorder_not_le)
  next
    case 2
    with "6.IH"(2) depth obtain t where "deep (depth + 1) t" "e = show_type t" by (metis linorder_not_le)
    then show ?thesis using 2 depth by (intro exI [of _ "VectorOf t"]) simp
  next
    case 3
    then show ?thesis using depth by (intro exI [of _ "Primitive ?w"]) simp
  qed
qed simp_all

section \<open>Every canonical spelling is its own normal form\<close>

text \<open>What may follow a parameter: nothing, or the separator or the end of the list.\<close>

definition ends_type :: "string \<Rightarrow> bool" where
  "ends_type rest \<longleftrightarrow> rest = [] \<or> hd rest = CHR '','' \<or> hd rest = CHR ''>''"

lemma ends_type_facts:
  assumes "ends_type rest"
  shows "skipBlanks rest = rest" "takeWhile is_identifier_part rest = []" "dropWhile is_identifier_part rest = rest"
    "rest = [] \<or> hd rest \<noteq> CHR ''<''"
  using assms by (cases rest;
    auto simp: ends_type_def skipBlanks_def is_identifier_part_def is_identifier_start_def byte_val_def between_def)+

lemma ends_type_simps [simp]: "ends_type (CHR '','' # s)" "ends_type (CHR ''>'' # s)" "ends_type []"
  by (simp_all add: ends_type_def)

lemma word_then_end:
  assumes "list_all is_identifier_part w" "ends_type rest"
  shows "takeWhile is_identifier_part (w @ rest) = w" "dropWhile is_identifier_part (w @ rest) = rest"
  using assms ends_type_facts [OF assms(2)] by (auto simp: list_all_iff)

lemma identifier_then:
  assumes "is_identifier m" "rest = [] \<or> \<not> is_identifier_part (hd rest)"
  shows "parseSeparatedIdentifier (''::'' @ m @ rest) = Inr (m, rest)"
proof -
  have "takeWhile is_identifier_part rest = [] \<and> dropWhile is_identifier_part rest = rest"
    using assms(2) by (cases rest) auto
  then show ?thesis
    using assms(1) by (auto simp: parseSeparatedIdentifier_def is_identifier_def list_all_iff hd_append)
qed

lemma hex_fixed_hex: "list_all hex_byte (hex_fixed k n)"
proof (induction k arbitrary: n)
  case (Suc k)
  have "hex_byte (hex_char (n mod 16))"
    using of_char_hex_char [of "n mod 16"] by (auto simp: hex_byte_def is_hex_digit_def between_def split: if_splits)
  with Suc show ?case by simp
qed simp

lemma hex_val_fixed: "n < 16 ^ k \<Longrightarrow> hex_val 0 (hex_fixed k n) = n"
proof (induction k arbitrary: n)
  case (Suc k)
  have "hex_digit_val (hex_char (n mod 16)) = n mod 16"
    using of_char_hex_char [of "n mod 16"] by (auto simp: hex_digit_val_def between_def Let_def split: if_splits)
  with Suc show ?case by simp
qed simp

lemma address_then:
  assumes "a < 16 ^ 64" "rest = [] \<or> \<not> hex_byte (hd rest)"
  shows "parseAddress (''0x'' @ hex_fixed 64 a @ rest) = Inr (''0x'' @ hex_fixed 64 a, rest)"
proof -
  have "takeWhile hex_byte rest = [] \<and> dropWhile hex_byte rest = rest" using assms(2) by (cases rest) auto
  then have split: "takeWhile hex_byte (hex_fixed 64 a @ rest) = hex_fixed 64 a"
      "dropWhile hex_byte (hex_fixed 64 a @ rest) = rest"
    using hex_fixed_hex [of 64 a] by (auto simp: list_all_iff)
  have "hex_fixed 64 a \<noteq> []" by (metis hex_fixed_length list.size(3) zero_neq_numeral)
  then show ?thesis
    using moveAddressDigits_hex [OF hex_fixed_hex, of 64 a "CHR ''x''" "\<lambda>t. t"] hex_val_fixed [OF assms(1)]
    by (simp add: parseAddress_def split)
qed

lemma primitive_word:
  "w \<in> set movePrimitiveTypes \<Longrightarrow> list_all is_identifier_part w \<and> w \<noteq> ''vector'' \<and> w \<noteq> []
     \<and> hd w \<noteq> CHR ''0'' \<and> skipBlanks (w @ rest) = w @ rest"
  by (auto simp: movePrimitiveTypes_def is_identifier_part_def is_identifier_start_def byte_val_def between_def skipBlanks_def)

lemma join_Cons: "ts \<noteq> [] \<Longrightarrow> join_with sep (x # ts) = x @ sep @ join_with sep ts"
  by (cases ts) auto

lemma parameters_then:
  assumes "ts \<noteq> []"
    and "\<And>t rest f. t \<in> set ts \<Longrightarrow> ends_type rest \<Longrightarrow> 2 * length (show_type t @ rest) + 2 \<le> f
      \<Longrightarrow> parseType f (d + 1) (show_type t @ rest) = Inr (show_type t, rest)"
    and "2 * length (join_with '','' (map show_type ts) @ CHR ''>'' # rest) + 3 \<le> f"
  shows "parse_parameters f d acc (join_with '','' (map show_type ts) @ CHR ''>'' # rest) = Inr (acc @ map show_type ts, rest)"
  using assms
proof (induction ts arbitrary: acc f)
  case (Cons t ts)
  from Cons.prems(3) obtain g where f: "f = Suc g" by (cases f) auto
  show ?case
  proof (cases "ts = []")
    case True
    have "parseType g (d + 1) (show_type t @ CHR ''>'' # rest) = Inr (show_type t, CHR ''>'' # rest)"
      using Cons.prems(3) True f by (intro Cons.prems(2)) auto
    then show ?thesis using True f by (simp add: Let_def ends_type_facts)
  next
    case False
    let ?more = "join_with '','' (map show_type ts) @ CHR ''>'' # rest"
    have whole: "join_with '','' (map show_type (t # ts)) @ CHR ''>'' # rest = show_type t @ CHR '','' # ?more"
      using False by (simp add: join_Cons)
    have first: "parseType g (d + 1) (show_type t @ CHR '','' # ?more) = Inr (show_type t, CHR '','' # ?more)"
      using Cons.prems(3) f unfolding whole by (intro Cons.prems(2)) auto
    have "parse_parameters g d (acc @ [show_type t]) ?more = Inr ((acc @ [show_type t]) @ map show_type ts, rest)"
      using Cons.prems(3) f False unfolding whole by (intro Cons.IH Cons.prems(2)) auto
    then show ?thesis unfolding whole f using first by (simp add: Let_def ends_type_facts)
  qed
qed simp

lemma struct_then:
  assumes "deep d (Struct a m n ts)" "ends_type rest"
    and "\<And>t rest f. t \<in> set ts \<Longrightarrow> ends_type rest \<Longrightarrow> 2 * length (show_type t @ rest) + 2 \<le> f
      \<Longrightarrow> parseType f (d + 1) (show_type t @ rest) = Inr (show_type t, rest)"
    and "2 * length (show_type (Struct a m n ts) @ rest) + 1 \<le> f"
  shows "parseStructType f d (show_type (Struct a m n ts) @ rest) = Inr (show_type (Struct a m n ts), rest)"
proof -
  from assms(4) obtain g where f: "f = Suc g" by (cases f) auto
  have parts: "d \<le> moveTypeMaxDepth" "a < 16 ^ 64" "is_identifier m" "is_identifier n" using assms(1) by auto
  let ?rear = "(if ts = [] then [] else ''<'' @ join_with '','' (map show_type ts) @ ''>'') @ rest"
  have not_part: "?rear = [] \<or> \<not> is_identifier_part (hd ?rear)"
    using assms(2) ends_type_facts(2) [OF assms(2)]
    by (cases rest) (auto simp: is_identifier_part_def is_identifier_start_def byte_val_def between_def)
  have addr: "parseAddress (''0x'' @ hex_fixed 64 a @ ''::'' @ m @ ''::'' @ n @ ?rear)
      = Inr (''0x'' @ hex_fixed 64 a, ''::'' @ m @ ''::'' @ n @ ?rear)"
    by (rule address_then [OF parts(2)]) (simp add: hex_byte_def is_hex_digit_def byte_val_def between_def)
  have m: "parseSeparatedIdentifier (''::'' @ m @ ''::'' @ n @ ?rear) = Inr (m, ''::'' @ n @ ?rear)"
    by (rule identifier_then [OF parts(3)]) (simp add: is_identifier_part_def is_identifier_start_def byte_val_def between_def)
  have n: "parseSeparatedIdentifier (''::'' @ n @ ?rear) = Inr (n, ?rear)"
    by (rule identifier_then [OF parts(4) not_part])
  have whole: "show_type (Struct a m n ts) @ rest = ''0x'' @ hex_fixed 64 a @ ''::'' @ m @ ''::'' @ n @ ?rear" by simp
  show ?thesis
  proof (cases "ts = []")
    case True
    then show ?thesis
      unfolding whole f parseStructType.simps using addr m n parts(1) ends_type_facts(4) [OF assms(2)] by (auto simp: Let_def)
  next
    case False
    have "parse_parameters g d [] (join_with '','' (map show_type ts) @ CHR ''>'' # rest) = Inr ([] @ map show_type ts, rest)"
      using assms(4) False f by (intro parameters_then assms(3)) auto
    then show ?thesis
      unfolding whole f parseStructType.simps using addr m n parts(1) False by (simp add: Let_def)
  qed
qed

lemma type_then:
  "deep d t \<Longrightarrow> ends_type rest \<Longrightarrow> 2 * length (show_type t @ rest) + 2 \<le> f
     \<Longrightarrow> parseType f d (show_type t @ rest) = Inr (show_type t, rest)"
proof (induction t arbitrary: d rest f)
  case (Primitive w)
  then obtain g where f: "f = Suc g" by (cases f) auto
  note w = primitive_word [of w rest]
  have "takeWhile is_identifier_part (w @ rest) = w" "dropWhile is_identifier_part (w @ rest) = rest"
    using Primitive.prems w by (auto intro!: word_then_end)
  then show ?case using Primitive.prems w f by (auto simp: Let_def hd_append)
next
  case (VectorOf t)
  then obtain g where f: "f = Suc g" by (cases f) auto
  have inner: "parseType g (d + 1) (show_type t @ CHR ''>'' # rest) = Inr (show_type t, CHR ''>'' # rest)"
    using VectorOf.prems f by (intro VectorOf.IH) auto
  have "takeWhile is_identifier_part (''vector<'' @ s) = ''vector''" "dropWhile is_identifier_part (''vector<'' @ s) = ''<'' @ s"
      "skipBlanks (''vector<'' @ s) = ''vector<'' @ s" for s
    by (simp_all add: is_identifier_part_def is_identifier_start_def byte_val_def between_def skipBlanks_def)
  then show ?case
    using VectorOf.prems f inner by (simp add: Let_def ends_type_facts)
next
  case (Struct a m n ts)
  then obtain g where f: "f = Suc g" by (cases f) auto
  have sub: "parseType f' (d + 1) (show_type t @ rest') = Inr (show_type t, rest')"
    if "t \<in> set ts" "ends_type rest'" "2 * length (show_type t @ rest') + 2 \<le> f'" for t rest' f'
    using that Struct.prems(1) by (intro Struct.IH) (auto simp: list_all_iff)
  have run: "parseStructType g d (show_type (Struct a m n ts) @ rest) = Inr (show_type (Struct a m n ts), rest)"
    using Struct.prems f sub by (intro struct_then) auto
  have "skipBlanks (''0x'' @ s) = ''0x'' @ s" for s by (simp add: skipBlanks_def byte_val_def)
  then have skip: "skipBlanks (show_type (Struct a m n ts) @ rest) = show_type (Struct a m n ts) @ rest"
      "hd (show_type (Struct a m n ts) @ rest) = CHR ''0''" "show_type (Struct a m n ts) @ rest \<noteq> []" by simp_all
  show ?case unfolding f parseType.simps Let_def skip using skip(2,3) run Struct.prems(1) by simp
qed

lemma strip_space_none:
  "33 \<le> byte_val c \<Longrightarrow> byte_val c \<le> 126 \<Longrightarrow> codes = space_codes \<or> codes = map rev space_codes
     \<Longrightarrow> strip_space codes (c # s) = None"
  by (auto simp: space_codes_def upt_rec)

lemma trim_codes_none: "strip_space codes s = None \<Longrightarrow> trim_codes codes k s = s"
  by (cases k) auto

lemma trim_text_plain:
  assumes "s \<noteq> []" "33 \<le> byte_val (hd s)" "byte_val (hd s) \<le> 126" "33 \<le> byte_val (last s)" "byte_val (last s) \<le> 126"
  shows "trim_text s = s"
proof -
  obtain c t where s: "s = c # t" using assms(1) by (cases s) auto
  obtain d u where r: "rev s = d # u" "d = last s" using assms(1) by (cases "rev s") (auto simp: last_rev [symmetric])
  have "trim_codes space_codes k s = s" for k
    using strip_space_none [of c space_codes t] assms by (intro trim_codes_none) (simp add: s)
  moreover have "trim_codes (map rev space_codes) k (rev s) = rev s" for k
    using strip_space_none [of d "map rev space_codes" u] assms unfolding r(1) r(2) by (intro trim_codes_none) simp
  ultimately show ?thesis by (simp add: trim_text_def Let_def)
qed

lemma struct_ends:
  assumes "deep d (Struct a m n ts)"
  shows "33 \<le> byte_val (last (show_type (Struct a m n ts)))" "byte_val (last (show_type (Struct a m n ts))) \<le> 126"
proof -
  have "n \<noteq> []" "is_identifier_part (last n)" using assms by (auto simp: is_identifier_def list_all_iff)
  then show "33 \<le> byte_val (last (show_type (Struct a m n ts)))" "byte_val (last (show_type (Struct a m n ts))) \<le> 126"
    by (auto simp: is_identifier_part_def is_identifier_start_def byte_val_def between_def)
qed

lemma normalize_show:
  assumes "deep 0 (Struct a m n ts)" "length (show_type (Struct a m n ts)) \<le> moveTypeMaxLength"
  shows "NormalizeMoveType (show_type (Struct a m n ts)) = Inr (show_type (Struct a m n ts))"
proof -
  let ?s = "show_type (Struct a m n ts)"
  have s: "?s \<noteq> []" "hd ?s = CHR ''0''" by simp_all
  have trim: "trim_text ?s = ?s"
    using struct_ends [OF assms(1)] s by (intro trim_text_plain) (auto simp: byte_val_def simp del: show_type.simps)
  have "parseStructType (type_fuel ?s) 0 (?s @ []) = Inr (?s, [])"
    using assms(1) by (intro struct_then type_then) (auto simp: list_all_iff type_fuel_def)
  then show ?thesis
    using assms(2) s trim by (simp add: NormalizeMoveType_def skipBlanks_def del: show_type.simps)
qed

text \<open>The fuel given is enough: every call leaves no more input than it got.\<close>

lemma parts_consume:
  "parseAddress s = Inr (r, s') \<Longrightarrow> length s' < length s"
  "parseSeparatedIdentifier s = Inr (r, s') \<Longrightarrow> length s' < length s"
proof -
  have drop: "length (dropWhile P t) \<le> length t" for P and t :: string by (rule length_dropWhile_le)
  show "parseAddress s = Inr (r, s') \<Longrightarrow> length s' < length s"
    by (auto simp: parseAddress_def bindR_Inr_iff less_Suc_eq_le intro: le_SucI [OF drop] split: list.splits if_splits)
  show "length s' < length s" if ok: "parseSeparatedIdentifier s = Inr (r, s')"
  proof -
    have "2 < length s" "s' = dropWhile is_identifier_part (drop 2 s)"
      using ok by (auto simp: parseSeparatedIdentifier_def Let_def not_le split: if_splits)
    then show ?thesis using drop [of is_identifier_part "drop 2 s"] by simp
  qed
qed

lemma skipBlanks_length: "length (skipBlanks s) \<le> length s"
  by (simp add: skipBlanks_def length_dropWhile_le)

lemma parse_consumes:
  "parseStructType fuel depth s = Inr (r, s') \<Longrightarrow> length s' < length s"
  "parse_parameters fuel depth parameters s = Inr (rs, s') \<Longrightarrow> length s' < length s"
  "parseType fuel depth s = Inr (r, s') \<Longrightarrow> length s' \<le> length s"
proof (induction fuel depth s and fuel depth parameters s and fuel depth s arbitrary: r s' and rs s' and r s'
    rule: parseStructType_parse_parameters_parseType.induct)
  case (2 fuel depth s)
  then obtain addr s1 m s2 n s3 where parts: "depth \<le> moveTypeMaxDepth" "parseAddress s = Inr (addr, s1)"
      "parseSeparatedIdentifier s1 = Inr (m, s2)" "parseSeparatedIdentifier s2 = Inr (n, s3)"
    and last: "s' = s3 \<or> (\<exists>ps. s3 \<noteq> [] \<and> hd s3 = CHR ''<'' \<and> parse_parameters fuel depth [] (tl s3) = Inr (ps, s'))"
    by (auto simp: bindR_Inr_iff Let_def split: if_splits)
  have shorter: "length s3 < length s" using parts parts_consume by (meson less_trans)
  from last show ?case
  proof (elim disjE exE conjE)
    fix ps assume ps: "s3 \<noteq> []" "hd s3 = CHR ''<''" "parse_parameters fuel depth [] (tl s3) = Inr (ps, s')"
    have "length s' < length (tl s3)" using "2.IH" parts ps by (auto simp: Let_def)
    then show ?thesis using shorter by simp
  qed (use shorter in simp)
next
  case (4 fuel depth parameters s)
  then obtain p s1 where p: "parseType fuel (depth + 1) s = Inr (p, s1)" by (auto simp: bindR_Inr_iff)
  have s1: "length s1 \<le> length s" using "4.IH"(1) p by blast
  let ?s2 = "skipBlanks s1"
  have s2: "length ?s2 \<le> length s" using s1 skipBlanks_length [of s1] by linarith
  consider "?s2 \<noteq> []" "hd ?s2 = CHR '',''" "parse_parameters fuel depth (parameters @ [p]) (tl ?s2) = Inr (rs, s')"
    | "?s2 \<noteq> []" "s' = tl ?s2"
    using "4.prems" p by (auto simp: Let_def split: if_splits)
  then show ?case
  proof cases
    case 1
    with "4.IH"(2) [OF p refl refl] have "length s' < length (tl ?s2)" by blast
    then show ?thesis using s2 by simp
  next
    case 2
    then have "length s' < length ?s2" by (cases ?s2) auto
    then show ?thesis using s2 by simp
  qed
next
  case (6 fuel depth s)
  let ?s1 = "skipBlanks s"
  let ?w = "takeWhile is_identifier_part ?s1" and ?s2 = "dropWhile is_identifier_part ?s1"
  have depth: "depth \<le> moveTypeMaxDepth" using "6.prems" by (auto split: if_splits)
  have s1: "length ?s1 \<le> length s" by (rule skipBlanks_length)
  have s2: "length ?s2 \<le> length s" using s1 length_dropWhile_le [of is_identifier_part ?s1] by linarith
  consider "?s1 \<noteq> []" "hd ?s1 = CHR ''0''" "parseStructType fuel depth ?s1 = Inr (r, s')"
    | e s3 where "\<not> (?s1 \<noteq> [] \<and> hd ?s1 = CHR ''0'')" "?w = ''vector''" "?s2 \<noteq> []" "hd ?s2 = CHR ''<''"
        "parseType fuel (depth + 1) (tl ?s2) = Inr (e, s3)" "s' = tl (skipBlanks s3)"
    | "s' = ?s2"
    using "6.prems" by (auto simp: Let_def bindR_Inr_iff split: if_splits)
  then show ?case
  proof cases
    case 1
    with "6.IH"(1) depth s1 show ?thesis by (meson less_imp_le less_le_trans linorder_not_le)
  next
    case 2
    with "6.IH"(2) depth have "length s3 \<le> length (tl ?s2)" by (metis linorder_not_le)
    then show ?thesis using 2 s2 skipBlanks_length [of s3] by simp
  qed (use s2 in simp)
qed simp_all

lemma parts_fuel:
  "parseAddress s \<noteq> Inl OutOfFuel" "parseSeparatedIdentifier s \<noteq> Inl OutOfFuel"
  by (auto simp: parseAddress_def parseSeparatedIdentifier_def moveAddressDigits_def Let_def bindR_Inl_iff
      split: list.splits if_splits)

lemma parse_fuel:
  "2 * length s + 1 \<le> fuel \<Longrightarrow> parseStructType fuel depth s \<noteq> Inl OutOfFuel"
  "2 * length s + 3 \<le> fuel \<Longrightarrow> parse_parameters fuel depth parameters s \<noteq> Inl OutOfFuel"
  "2 * length s + 2 \<le> fuel \<Longrightarrow> parseType fuel depth s \<noteq> Inl OutOfFuel"
proof (induction fuel depth s and fuel depth parameters s and fuel depth s
    rule: parseStructType_parse_parameters_parseType.induct)
  case (2 fuel depth s)
  show ?case
  proof
    assume "parseStructType (Suc fuel) depth s = Inl OutOfFuel"
    then obtain addr s1 m s2 n s3 where parts: "depth \<le> moveTypeMaxDepth" "parseAddress s = Inr (addr, s1)"
        "parseSeparatedIdentifier s1 = Inr (m, s2)" "parseSeparatedIdentifier s2 = Inr (n, s3)" "s3 \<noteq> []" "hd s3 = CHR ''<''"
      and out: "parse_parameters fuel depth [] (tl s3) = Inl OutOfFuel"
      by (auto simp: bindR_Inl_iff Let_def parts_fuel split: if_splits)
    have "length s1 < length s" "length s2 < length s1" "length s3 < length s2" using parts parts_consume by blast+
    then have "2 * length (tl s3) + 3 \<le> fuel" using "2.prems" parts(5) by simp
    then show False using "2.IH" parts out by (auto simp: Let_def)
  qed
next
  case (4 fuel depth parameters s)
  show ?case
  proof
    assume run: "parse_parameters (Suc fuel) depth parameters s = Inl OutOfFuel"
    have "parseType fuel (depth + 1) s \<noteq> Inl OutOfFuel" using "4.IH"(1) "4.prems" by simp
    then obtain p s1 where p: "parseType fuel (depth + 1) s = Inr (p, s1)"
        "skipBlanks s1 \<noteq> []" "hd (skipBlanks s1) = CHR '',''"
        "parse_parameters fuel depth (parameters @ [p]) (tl (skipBlanks s1)) = Inl OutOfFuel"
      using run by (auto simp: bindR_Inl_iff Let_def split: if_splits)
    have "length (skipBlanks s1) \<le> length s" using parse_consumes(3) [OF p(1)] skipBlanks_length [of s1] by linarith
    then have "2 * length (tl (skipBlanks s1)) + 3 \<le> fuel" using "4.prems" p(2) by (cases "skipBlanks s1") auto
    then show False using "4.IH"(2) [OF p(1) refl refl] p by blast
  qed
next
  case (6 fuel depth s)
  let ?s1 = "skipBlanks s"
  let ?w = "takeWhile is_identifier_part ?s1" and ?s2 = "dropWhile is_identifier_part ?s1"
  have s1: "length ?s1 \<le> length s" by (rule skipBlanks_length)
  have s2: "length ?s2 \<le> length s" using s1 length_dropWhile_le [of is_identifier_part ?s1] by linarith
  show ?case
  proof
    assume run: "parseType (Suc fuel) depth s = Inl OutOfFuel"
    consider "depth \<le> moveTypeMaxDepth" "?s1 \<noteq> []" "hd ?s1 = CHR ''0''" "parseStructType fuel depth ?s1 = Inl OutOfFuel"
      | "depth \<le> moveTypeMaxDepth" "\<not> (?s1 \<noteq> [] \<and> hd ?s1 = CHR ''0'')" "?w = ''vector''" "?s2 \<noteq> []" "hd ?s2 = CHR ''<''"
          "parseType fuel (depth + 1) (tl ?s2) = Inl OutOfFuel"
      using run by (auto simp: Let_def bindR_Inl_iff split: if_splits)
    then show False
    proof cases
      case 1
      then show False using "6.IH"(1) "6.prems" s1 by (auto simp: not_less)
    next
      case 2
      have "2 * length (tl ?s2) + 2 \<le> fuel" using 2(4) "6.prems" s2 by (cases ?s2) auto
      then show False using "6.IH"(2) 2 by (metis linorder_not_le)
    qed
  qed
qed simp_all

lemma normalize_result:
  assumes "NormalizeMoveType v = Inr n"
  shows "length n \<le> moveTypeMaxLength \<and> (\<exists>a m k ts. deep 0 (Struct a m k ts) \<and> n = show_type (Struct a m k ts))"
proof -
  have "\<exists>s. parseStructType (type_fuel (trim_text v)) 0 (trim_text v) = Inr (n, s) \<and> length n \<le> moveTypeMaxLength"
    using assms by (auto simp: NormalizeMoveType_def Let_def bindR_Inr_iff split: if_splits)
  then show ?thesis using parse_sound(1) by blast
qed

lemma NormalizeMoveType_idem: "NormalizeMoveType v = Inr n \<Longrightarrow> NormalizeMoveType n = Inr n"
  using normalize_result normalize_show by blast

lemma NormalizeMoveType_decides: "NormalizeMoveType v \<noteq> Inl OutOfFuel"
  using parse_fuel(1) [of "trim_text v" "type_fuel (trim_text v)" 0]
  by (auto simp: NormalizeMoveType_def Let_def bindR_Inl_iff type_fuel_def split: if_splits)

text \<open>C15: normalising a Move type always decides, its results are exactly the canonical spellings, and
  a canonical spelling normalises to itself: each names one type tree, every address as 64 lower-case
  digits, at most eight levels deep and 4096 bytes long.\<close>

theorem NormalizeMoveType_canonical:
  "NormalizeMoveType v \<noteq> Inl OutOfFuel
   \<and> (NormalizeMoveType v = Inr n \<longrightarrow> NormalizeMoveType n = Inr n)
   \<and> (NormalizeMoveType n = Inr n \<longleftrightarrow> length n \<le> moveTypeMaxLength
        \<and> (\<exists>a m k ts. deep 0 (Struct a m k ts) \<and> n = show_type (Struct a m k ts)))"
  using NormalizeMoveType_decides NormalizeMoveType_idem normalize_result normalize_show by blast

theorem NormalizeMoveType_canonical_witness:
  "NormalizeMoveType '' 0x2::sui::SUI'' = Inr (''0x'' @ hex_fixed 64 2 @ ''::sui::SUI'')
   \<and> NormalizeMoveType (''0x'' @ hex_fixed 64 2 @ ''::sui::SUI'') = Inr (''0x'' @ hex_fixed 64 2 @ ''::sui::SUI'')"
proof -
  have "NormalizeMoveType '' 0x2::sui::SUI'' = Inr (''0x'' @ hex_fixed 64 2 @ ''::sui::SUI'')" by code_simp
  then show ?thesis using NormalizeMoveType_canonical by blast
qed

text \<open>A rendered address parses back, so renderings are distinct.\<close>

lemma ParseSuiAddress_hex: "ParseSuiAddress lower_text (sui_hex a) = Inr a"
proof -
  have a: "unat a < 16 ^ 64" using unsigned_less [of a, where ?'a = nat] by simp
  have digits: "hex_fixed 64 (unat a) \<noteq> []" by (metis hex_fixed_length list.size(3) zero_neq_numeral)
  have "hex_byte (last (hex_fixed 64 (unat a)))" using hex_fixed_hex [of 64 "unat a"] digits by (auto simp: list_all_iff)
  then have "trim_text (sui_hex a) = sui_hex a"
    using digits by (intro trim_text_plain) (auto simp: sui_hex_def byte_val_def hex_byte_def is_hex_digit_def between_def)
  moreover have "moveAddressDigits lower_text (sui_hex a) = Inr (sui_hex a)"
    using moveAddressDigits_hex [OF hex_fixed_hex digits, of "CHR ''x''" lower_text] hex_val_fixed [OF a] by (simp add: sui_hex_def)
  moreover have "decode_hex (drop 2 (sui_hex a)) = Some (unat a)"
    using hex_fixed_hex [of 64 "unat a"] hex_val_fixed [OF a] by (simp add: decode_hex_def sui_hex_def hex_byte_def [abs_def])
  ultimately show ?thesis by (simp add: ParseSuiAddress_def)
qed

lemma sui_hex_inject [simp]: "sui_hex a = sui_hex b \<longleftrightarrow> a = b"
  by (metis ParseSuiAddress_hex sum.inject(2))

text \<open>
  The hexadecimal check looks at the low byte of each rune, so it passes \<open>U+0130\<close>, whose low byte is
  the digit 0; in \<open>ParseSuiAddress\<close> the decoding of the digits is what rejects it.
\<close>

lemma hex_check_truncates_runes:
  "moveAddressDigits lower_text (''0x'' @ [char_of (0xC4::nat), char_of (0xB0::nat)])
     = Inr (''0x'' @ replicate 62 CHR ''0'' @ lower_text [char_of (0xC4::nat), char_of (0xB0::nat)])"
proof -
  have "lossy_runes [char_of (0xC4::nat), char_of (0xB0::nat)] = [0x130]" by code_simp
  moreover have "\<not> is_ascii [char_of (0xC4::nat), char_of (0xB0::nat)]" by code_simp
  ultimately show ?thesis
    by (simp add: moveAddressDigits_def moveAddressHexDigits_def Let_def lower_with_def is_hex_digit_def between_def)
qed

end
