(* ===== verification/Sui.thy ===== *)
theory Sui
  imports MoveType
begin

text \<open>
  What every Sui reader shares: base58 digests and chain identifiers, checkpoints, coin metadata and
  balances (\<open>sui.go\<close>), the positions of one protocol read (\<open>sui_protocols.go\<close>), objects
  (\<open>sui_objects.go\<close>) and the integers of an index (\<open>historyUint\<close>, \<open>indexedSuiCheckpoint\<close> in
  \<open>sui_history.go\<close>). An instant is its nanoseconds since 1970: the code compares instants and
  never asks for their location.
\<close>

section \<open>Instants\<close>

type_synonym instant = int

text \<open>\<open>time.Time{}\<close>, the first of January of year one.\<close>

definition zero_time :: instant where
  "zero_time = - 62135596800 * 10 ^ 9"

definition unix_milli :: "instant \<Rightarrow> int" where
  "unix_milli t = t div 1000000"

definition from_unix_milli :: "int \<Rightarrow> instant" where
  "from_unix_milli ms = ms * 1000000"

lemma unix_milli_from [simp]: "unix_milli (from_unix_milli ms) = ms"
  by (simp add: unix_milli_def from_unix_milli_def)

section \<open>Base58\<close>

datatype sui_error = EmptyBase58 | InvalidBase58 char | EmptyIdentifier | ShortIdentifier string
  | WrongNetwork string string | DigestLength nat | NoTimestamp | NoDecimals | InvalidDecimals int | NoSymbol
  | InvalidSymbol symbol_error | CoinType move_error | DuplicateCoin string | NoAmount string | NegativeAmount string int
  | InvalidHistoryUint | InvalidCheckpoint | InvalidTimestamp | IncompleteObject

definition base58Alphabet :: string where
  "base58Alphabet = ''123456789ABCDEFGHJKLMNPQRSTUVWXYZabcdefghijkmnopqrstuvwxyz''"

fun index_of :: "char \<Rightarrow> string \<Rightarrow> nat option" where
  "index_of c [] = None"
| "index_of c (d # s) = (if c = d then Some 0 else map_option Suc (index_of c s))"

definition base58Value :: "char \<Rightarrow> nat option" where
  "base58Value c = index_of c base58Alphabet"

fun base58_number :: "nat \<Rightarrow> string \<Rightarrow> sui_error + nat" where
  "base58_number n [] = Inr n"
| "base58_number n (c # s) = (case base58Value c of None \<Rightarrow> Inl (InvalidBase58 c)
     | Some digit \<Rightarrow> base58_number (n * 58 + digit) s)"

text \<open>\<open>big.Int.Bytes\<close>: big-endian, without leading zeros.\<close>

fun big_bytes :: "nat \<Rightarrow> nat list" where
  "big_bytes n = (if n = 0 then [] else big_bytes (n div 256) @ [n mod 256])"

declare big_bytes.simps [simp del]

definition decodeBase58 :: "string \<Rightarrow> sui_error + nat list" where
  "decodeBase58 v = (if v = [] then Inl EmptyBase58
     else bindR (base58_number 0 v) (\<lambda>n.
       Inr (replicate (length (takeWhile (\<lambda>c. c = CHR ''1'') v)) 0 @ big_bytes n)))"

text \<open>\<open>hex.DecodeString\<close> of eight characters and \<open>hex.EncodeToString\<close>.\<close>

definition hex_bytes :: "nat list \<Rightarrow> string" where
  "hex_bytes bs = concat (map (hex_fixed 2) bs)"

definition suiChainIdentifierHex :: "string \<Rightarrow> sui_error + string" where
  "suiChainIdentifierHex v = (let v = trim_text v in
     if v = [] then Inl EmptyIdentifier
     else if length v = 8 \<and> decode_hex v \<noteq> None then Inr (ToLower v)
     else bindR (decodeBase58 v) (\<lambda>digest.
       if length digest < 4 then Inl (ShortIdentifier v) else Inr (hex_bytes (take 4 digest))))"

definition checkSuiChainIdentifier :: "(string \<Rightarrow> string) \<Rightarrow> string \<Rightarrow> string \<Rightarrow> sui_error + unit" where
  "checkSuiChainIdentifier lower_text actual expected = bindR (suiChainIdentifierHex actual) (\<lambda>identifier.
     guardR (identifier = lower_with lower_text (trim_text expected)) (WrongNetwork identifier expected))"

section \<open>Checkpoints\<close>

record sui_checkpoint =
  cp_sequence :: u64
  cp_digest :: "nat list"
  cp_timestamp :: instant

definition no_digest :: "nat list" where
  "no_digest = replicate 32 0"

definition no_checkpoint :: sui_checkpoint where
  "no_checkpoint = \<lparr>cp_sequence = 0, cp_digest = no_digest, cp_timestamp = zero_time\<rparr>"

definition newSuiCheckpoint :: "u64 \<Rightarrow> string \<Rightarrow> instant \<Rightarrow> sui_error + sui_checkpoint" where
  "newSuiCheckpoint sequence digest timestamp = bindR (decodeBase58 digest) (\<lambda>decoded.
     if length decoded \<noteq> 32 then Inl (DigestLength (length decoded))
     else if timestamp = zero_time then Inl NoTimestamp
     else Inr \<lparr>cp_sequence = sequence, cp_digest = decoded, cp_timestamp = timestamp\<rparr>)"

definition historyUint :: "string \<Rightarrow> sui_error + u64" where
  "historyUint v = (case parse_uint64 v of None \<Rightarrow> Inl InvalidHistoryUint
     | Some n \<Rightarrow> if show_u64 n \<noteq> v then Inl InvalidHistoryUint else Inr n)"

lemma historyUint_iff: "historyUint v = Inr n \<longleftrightarrow> v = show_u64 n"
  by (auto simp: historyUint_def split: option.splits)

lemma historyUint_show [simp]: "historyUint (show_u64 n) = Inr n"
  by (simp add: historyUint_iff)

definition max_history_millis :: u64 where
  "max_history_millis = 253402300799999"

definition indexedSuiCheckpoint :: "string \<Rightarrow> string \<Rightarrow> string \<Rightarrow> u64 \<Rightarrow> sui_error + sui_checkpoint" where
  "indexedSuiCheckpoint sequence timestamp digest start =
     (case historyUint sequence of Inl e \<Rightarrow> Inl InvalidCheckpoint
      | Inr n \<Rightarrow> if n < start then Inl InvalidCheckpoint
          else case historyUint timestamp of Inl e \<Rightarrow> Inl InvalidTimestamp
            | Inr ms \<Rightarrow> if ms = 0 \<or> ms > max_history_millis then Inl InvalidTimestamp
                else newSuiCheckpoint n digest (from_unix_milli (uint ms)))"

section \<open>Coins\<close>

record sui_coin_metadata =
  coin_type :: string
  coin_symbol :: string
  coin_name :: string
  coin_decimals :: u8

definition suiCoinMetadataFrom :: "string \<Rightarrow> int option \<Rightarrow> string option \<Rightarrow> string \<Rightarrow> sui_error + sui_coin_metadata" where
  "suiCoinMetadataFrom coinType decimals symbol name = (case decimals of None \<Rightarrow> Inl NoDecimals
     | Some d \<Rightarrow> if d < 0 \<or> d > 36 then Inl (InvalidDecimals d)
         else case symbol of None \<Rightarrow> Inl NoSymbol
           | Some s \<Rightarrow> (case validatedWalletTokenSymbol s of Inl e \<Rightarrow> Inl (InvalidSymbol e)
               | Inr validated \<Rightarrow> Inr \<lparr>coin_type = coinType, coin_symbol = validated, coin_name = name,
                   coin_decimals = of_int d\<rparr>))"

record sui_coin_balance =
  bal_coin :: string
  bal_amount :: int

text \<open>\<open>suiBalancesFrom\<close>: a row is its coin type and its amount, if it has one.\<close>

fun collect_balances :: "string set \<Rightarrow> (string \<times> int option) list \<Rightarrow> sui_error + sui_coin_balance list" where
  "collect_balances seen [] = Inr []"
| "collect_balances seen ((coin, amount) # rows) =
     (case NormalizeMoveType coin of Inl e \<Rightarrow> Inl (CoinType e)
      | Inr coinType \<Rightarrow>
          if coinType \<in> seen then Inl (DuplicateCoin coinType)
          else case amount of None \<Rightarrow> Inl (NoAmount coinType)
            | Some a \<Rightarrow> if a < 0 then Inl (NegativeAmount coinType a)
                else bindR (collect_balances (insert coinType seen) rows) (\<lambda>balances.
                  Inr (if a = 0 then balances else \<lparr>bal_coin = coinType, bal_amount = a\<rparr> # balances)))"

definition suiBalancesFrom :: "(string \<times> int option) list \<Rightarrow> sui_error + sui_coin_balance list" where
  "suiBalancesFrom rows = bindR (collect_balances {} rows) (\<lambda>balances. Inr (sort_key bal_coin balances))"

lemma collect_balances_ok:
  "collect_balances seen rows = Inr balances \<Longrightarrow>
     distinct (map bal_coin balances) \<and> set (map bal_coin balances) \<inter> seen = {}
     \<and> (\<forall>b \<in> set balances. 0 < bal_amount b \<and> NormalizeMoveType (bal_coin b) = Inr (bal_coin b))"
proof (induction rows arbitrary: seen balances)
  case (Cons row rows)
  obtain coin amount where row: "row = (coin, amount)" by (cases row)
  with Cons.prems obtain c a rest where c: "NormalizeMoveType coin = Inr c" "c \<notin> seen" "amount = Some a" "0 \<le> a"
      "collect_balances (insert c seen) rows = Inr rest"
      "balances = (if a = 0 then rest else \<lparr>bal_coin = c, bal_amount = a\<rparr> # rest)"
    by (auto simp: bindR_Inr_iff split: sum.splits option.splits if_splits)
  have "NormalizeMoveType c = Inr c" by (rule NormalizeMoveType_idem [OF c(1)])
  with Cons.IH [OF c(5)] c show ?case by auto
qed simp

lemma suiBalancesFrom_ok:
  assumes "suiBalancesFrom rows = Inr balances"
  shows "distinct (map bal_coin balances)" "sorted (map bal_coin balances)"
    and "\<And>b. b \<in> set balances \<Longrightarrow> 0 < bal_amount b \<and> NormalizeMoveType (bal_coin b) = Inr (bal_coin b)"
proof -
  obtain bs where bs: "collect_balances {} rows = Inr bs" "balances = sort_key bal_coin bs"
    using assms by (auto simp: suiBalancesFrom_def bindR_Inr_iff)
  note ok = collect_balances_ok [OF bs(1)]
  have "mset (map bal_coin balances) = mset (map bal_coin bs)" unfolding bs(2) by simp
  then show "distinct (map bal_coin balances)" using ok mset_eq_imp_distinct_iff by blast
  show "sorted (map bal_coin balances)" unfolding bs(2) by simp
  show "\<And>b. b \<in> set balances \<Longrightarrow> 0 < bal_amount b \<and> NormalizeMoveType (bal_coin b) = Inr (bal_coin b)"
    using ok unfolding bs(2) by simp
qed

section \<open>Positions\<close>

record sui_component =
  sc_kind :: string
  sc_coin :: sui_coin_metadata
  sc_amount :: string
  sc_denominator :: string
  sc_price :: "f64 option"
  sc_value :: "f64 option"
  sc_metadata :: metadata

record sui_group =
  sg_id :: string
  sg_market :: string
  sg_label :: string
  sg_components :: "sui_component list"
  sg_value :: "f64 option"
  sg_metadata :: metadata

record sui_positions =
  sp_protocol :: string
  sp_name :: string
  sp_checkpoint :: sui_checkpoint
  sp_head_before :: u64
  sp_groups :: "sui_group list"
  sp_errors :: "go_error list"

record sui_object =
  so_id :: string
  so_type :: string
  so_owner :: string
  so_owner_kind :: string
  so_content :: string
  so_digest :: string
  so_version :: u64
  so_transaction :: string

end
