(* ===== verification/SuiSQL.thy ===== *)
theory SuiSQL
  imports Sui SentioSQL
begin

text \<open>
  \<open>sui_sql.go\<close> and the kinds of \<open>sui_sql_query.go\<close>: the rows of a Sui index statement, when a
  statement's result is whole, and \<open>sqlData\<close>, which accepts one sample only when its rows agree with
  its certificate; then the reads of that sample the protocol calculators make. Rows arrive as JSON:
  what a payload decodes to is a parameter.
\<close>

section \<open>Rows\<close>

record suiSQLRow =
  row_type :: string
  row_payload :: string
  row_content :: string

record suiSQLSnapshot =
  sn_object_count :: string
  sn_value_count :: string
  sn_observed_objects :: string
  sn_observed_values :: string
  sn_id :: string
  sn_checkpoint :: string
  sn_timestamp :: string
  sn_digest :: string
  sn_start :: string
  sn_schema :: string
  sn_materialized :: string
  sn_next_checkpoint :: string
  sn_next_timestamp :: string
  sn_previous :: string

record suiSQLObject =
  ob_id :: string
  ob_object :: string
  ob_kind :: string
  ob_version :: string
  ob_digest :: string
  ob_state :: string
  ob_owner_kind :: string
  ob_owner :: string
  ob_type :: string
  ob_content :: string
  ob_checkpoint :: string
  ob_timestamp :: string
  ob_transaction :: string
  ob_materialized :: string
  ob_parent :: string
  ob_key :: string
  ob_related :: string
  ob_links :: string

record suiSQLMetadata =
  md_status :: string
  md_coin :: string
  md_decimals :: string
  md_symbol :: string
  md_name :: string
  md_checkpoint :: string
  md_materialized :: string

record suiSQLValue =
  va_id :: string
  va_kind :: string
  va_account :: string
  va_market :: string
  va_content :: string
  va_checkpoint :: string
  va_materialized :: string

record suiSQLKinds =
  roots_of :: "string list"
  direct_of :: "string list"
  second_of :: "string list"
  topology_of :: "string list"
  children_of :: "string list"
  values_of :: "string list"

definition all_kinds :: "suiSQLKinds \<Rightarrow> string list" where
  "all_kinds k = roots_of k @ direct_of k @ second_of k @ topology_of k @ children_of k"

definition suiSQLProtocolKinds :: "string \<Rightarrow> suiSQLKinds option" where
  "suiSQLProtocolKinds protocol =
     (if protocol = ''suilend'' then Some \<lparr>roots_of = [''cap''], direct_of = [''obligation''], second_of = [''market''],
        topology_of = [], children_of = [], values_of = []\<rparr>
      else if protocol = ''navi'' then Some \<lparr>roots_of = [''account'', ''receipt''], direct_of = [''vault''], second_of = [],
        topology_of = [''storage'', ''market'', ''reserve''], children_of = [''principal'', ''receiptState''], values_of = [''emode'']\<rparr>
      else None)"

datatype sui_sql_error =
    StatementFailed sql_error
  | Paged
  | MalformedResult
  | UnknownRowType
  | MalformedRow string
  | UnsupportedProtocol
  | HistoryPredates
  | InvalidHistoryRange
  | DuplicateObject
  | InvalidPrecision
  | CoinMetadataInvalid sui_error
  | DuplicateMetadata
  | NoCompletedSample
  | IncompleteMaterialization
  | BadPin sui_error
  | InvalidCertificate
  | CheckpointNotCompleted
  | HourNotCompleted
  | InvalidValue
  | ExceedsSnapshot
  | IncompleteContent
  | InvalidLifecycle
  | InvalidRangeRows
  | MetadataMissing
  | ForeignRoot
  | UnknownKind
  | Calculation go_error

section \<open>Whole results\<close>

text \<open>
  A decoded result. Its cursors are raw JSON; a cursor that is absent, \<open>null\<close>, an empty string or an
  empty object is none.
\<close>

record sql_result =
  res_rows :: "suiSQLRow list"
  res_cursor :: string
  res_next :: string
  res_truncated :: bool
  res_more :: bool

definition suiSQLRowLimit :: nat where
  "suiSQLRowLimit = 10000"

definition nonempty_json :: "string \<Rightarrow> bool" where
  "nonempty_json v \<longleftrightarrow> v \<noteq> [] \<and> v \<noteq> ''null'' \<and> v \<noteq> [CHR 0x22, CHR 0x22] \<and> v \<noteq> ''{}''"

definition whole_rows :: "(string \<Rightarrow> sql_result option) \<Rightarrow> sql_error + string \<Rightarrow> sui_sql_error + suiSQLRow list" where
  "whole_rows decode answer = (case answer of
     Inl e \<Rightarrow> Inl (if e = SQL_Request ResponseTooLarge then Paged else StatementFailed e)
   | Inr raw \<Rightarrow> (case decode raw of None \<Rightarrow> Inl MalformedResult
       | Some result \<Rightarrow>
           if nonempty_json (res_cursor result) \<or> nonempty_json (res_next result) \<or> res_truncated result \<or> res_more result
             \<or> length (res_rows result) \<ge> suiSQLRowLimit then Inl Paged
           else Inr (res_rows result)))"

record sui_decoders =
  dec_snapshot :: "string \<Rightarrow> suiSQLSnapshot option"
  dec_object :: "string \<Rightarrow> suiSQLObject option"
  dec_metadata :: "string \<Rightarrow> suiSQLMetadata option"
  dec_value :: "string \<Rightarrow> suiSQLValue option"

record suiSQLResult =
  rs_snapshots :: "suiSQLSnapshot list"
  rs_objects :: "suiSQLObject list"
  rs_metadata :: "suiSQLMetadata list"
  rs_values :: "suiSQLValue list"

definition no_rows :: suiSQLResult where
  "no_rows = \<lparr>rs_snapshots = [], rs_objects = [], rs_metadata = [], rs_values = []\<rparr>"

definition decode_row :: "sui_decoders \<Rightarrow> suiSQLResult \<Rightarrow> suiSQLRow \<Rightarrow> sui_sql_error + suiSQLResult" where
  "decode_row d result row =
     (if row_type row = ''snapshot'' then (case dec_snapshot d (row_payload row) of None \<Rightarrow> Inl (MalformedRow ''snapshot'')
        | Some v \<Rightarrow> Inr (result\<lparr>rs_snapshots := rs_snapshots result @ [v]\<rparr>))
      else if row_type row = ''object'' then (case dec_object d (row_payload row) of None \<Rightarrow> Inl (MalformedRow ''object'')
        | Some v \<Rightarrow> Inr (result\<lparr>rs_objects := rs_objects result @ [v]\<rparr>))
      else if row_type row = ''metadata'' then (case dec_metadata d (row_payload row) of None \<Rightarrow> Inl (MalformedRow ''metadata'')
        | Some v \<Rightarrow> Inr (result\<lparr>rs_metadata := rs_metadata result @ [v]\<rparr>))
      else if row_type row = ''value'' then (case dec_value d (row_payload row) of None \<Rightarrow> Inl (MalformedRow ''value'')
        | Some v \<Rightarrow> Inr (result\<lparr>rs_values := rs_values result @ [v]\<rparr>))
      else Inl UnknownRowType)"

definition decodeSuiSQLRows :: "sui_decoders \<Rightarrow> suiSQLRow list \<Rightarrow> sui_sql_error + suiSQLResult" where
  "decodeSuiSQLRows d rows = foldR (decode_row d) no_rows rows"

section \<open>One certified sample\<close>

text \<open>What a read asks for: a checkpoint, an instant, or neither for the newest sample.\<close>

record suiSQLSelection =
  sel_checkpoint :: "u64 option"
  sel_at :: "instant option"

record suiSQLData =
  sd_pin :: sui_checkpoint
  sd_snapshot :: suiSQLSnapshot
  sd_owner :: sui_address
  sd_objects :: "(string \<times> suiSQLObject) list"
  sd_metadata :: "(string \<times> sui_coin_metadata) list"
  sd_values :: "suiSQLValue list"

text \<open>\<open>fmt.Sprintf("%020d", n)\<close>\<close>

definition pad20 :: "u64 \<Rightarrow> string" where
  "pad20 n = replicate (20 - length (show_u64 n)) CHR ''0'' @ show_u64 n"

definition ok_uint :: "string \<Rightarrow> bool" where
  "ok_uint s \<longleftrightarrow> \<not> isl (historyUint s)"

text \<open>The value of a column; its error value is zero.\<close>

definition col :: "string \<Rightarrow> u64" where
  "col s = (case historyUint s of Inr n \<Rightarrow> n | Inl e \<Rightarrow> 0)"

lemma col_show [simp]: "col (show_u64 n) = n" "ok_uint (show_u64 n)"
  by (simp_all add: col_def ok_uint_def)

lemma ok_uint_col: "ok_uint s \<longleftrightarrow> s = show_u64 (col s)"
  by (cases "historyUint s") (auto simp: ok_uint_def col_def historyUint_iff)

text \<open>\<open>strconv.Atoi\<close>\<close>

definition Atoi :: "string \<Rightarrow> int option" where
  "Atoi s = (case set_string10 s of None \<Rightarrow> None
     | Some n \<Rightarrow> if - (2 ^ 63) \<le> n \<and> n < 2 ^ 63 then Some n else None)"

definition add_object :: "(string \<times> suiSQLObject) list \<Rightarrow> suiSQLObject \<Rightarrow> sui_sql_error + (string \<times> suiSQLObject) list" where
  "add_object objects ob = (if map_of objects (ob_object ob) \<noteq> None then Inl DuplicateObject
     else Inr (objects @ [(ob_object ob, ob)]))"

definition add_metadata :: "(string \<times> sui_coin_metadata) list \<Rightarrow> suiSQLMetadata
    \<Rightarrow> sui_sql_error + (string \<times> sui_coin_metadata) list" where
  "add_metadata known m = (if md_status m \<noteq> ''found'' then Inr known
     else case Atoi (md_decimals m) of None \<Rightarrow> Inl InvalidPrecision
       | Some d \<Rightarrow> (case suiCoinMetadataFrom (md_coin m) (Some d) (Some (md_symbol m)) (md_name m) of
             Inl e \<Rightarrow> Inl (CoinMetadataInvalid e)
           | Inr coin \<Rightarrow> if map_of known (md_coin m) \<noteq> None then Inl DuplicateMetadata
               else Inr (known @ [(md_coin m, coin)])))"

definition suiSQLObject_object :: "suiSQLObject \<Rightarrow> sui_sql_error + sui_object" where
  "suiSQLObject_object ob = (case historyUint (ob_version ob) of Inl e \<Rightarrow> Inl IncompleteContent
     | Inr version \<Rightarrow> if version = 0 \<or> ob_content ob = [] then Inl IncompleteContent
         else Inr \<lparr>so_id = ob_object ob, so_type = ob_type ob, so_owner = ob_owner ob, so_owner_kind = ob_owner_kind ob,
           so_content = ob_content ob, so_digest = ob_digest ob, so_version = version, so_transaction = ob_transaction ob\<rparr>)"

definition value_identity :: "suiSQLValue \<Rightarrow> string" where
  "value_identity v = va_kind v @ '':'' @ va_market v @ '':'' @ va_account v"

text \<open>
  The check of one value row; the loop keeps the identities it has seen. An account must be its own
  canonical rendering, which is ASCII, so lower-casing other text does not matter here.
\<close>

definition value_ok :: "suiSQLKinds \<Rightarrow> u64 \<Rightarrow> u64 \<Rightarrow> u64 \<Rightarrow> suiSQLValue \<Rightarrow> bool" where
  "value_ok kinds start pin materialized v \<longleftrightarrow>
     values_of kinds \<noteq> [] \<and> va_kind v = ''emode'' \<and> ok_uint (va_checkpoint v) \<and> ok_uint (va_materialized v)
     \<and> ok_uint (va_market v)
     \<and> (case ParseSuiAddress (\<lambda>t. t) (va_account v) of Inl e \<Rightarrow> False | Inr account \<Rightarrow> sui_hex account = va_account v)
     \<and> start \<le> col (va_checkpoint v) \<and> col (va_checkpoint v) \<le> pin \<and> col (va_checkpoint v) \<le> col (va_materialized v)
     \<and> col (va_materialized v) \<le> materialized
     \<and> va_id v = va_kind v @ '':'' @ pad20 (col (va_checkpoint v)) @ '':'' @ value_identity v"

fun take_values :: "suiSQLKinds \<Rightarrow> u64 \<Rightarrow> u64 \<Rightarrow> u64 \<Rightarrow> string set \<Rightarrow> suiSQLValue list \<Rightarrow> sui_sql_error + suiSQLValue list" where
  "take_values kinds start pin materialized seen [] = Inr []"
| "take_values kinds start pin materialized seen (v # vs) =
     (if \<not> value_ok kinds start pin materialized v \<or> value_identity v \<in> seen then Inl InvalidValue
      else bindR (take_values kinds start pin materialized (insert (value_identity v) seen) vs) (\<lambda>rest.
        Inr (v\<lparr>va_id := value_identity v\<rparr> # rest)))"

definition check_object :: "u64 \<Rightarrow> u64 \<Rightarrow> suiSQLObject \<Rightarrow> sui_sql_error + unit" where
  "check_object pin materialized ob =
     (if \<not> ok_uint (ob_checkpoint ob) \<or> \<not> ok_uint (ob_materialized ob) \<or> col (ob_checkpoint ob) > pin
        \<or> col (ob_materialized ob) < col (ob_checkpoint ob) \<or> col (ob_materialized ob) > materialized
        \<or> ob_object ob = [] \<or> ob_kind ob = [] then Inl ExceedsSnapshot
      else if ob_state ob = ''live'' then (case suiSQLObject_object ob of Inl e \<Rightarrow> Inl e | Inr obj \<Rightarrow> Inr ())
      else guardR (ob_state ob = ''deleted'' \<or> ob_state ob = ''wrapped'') InvalidLifecycle)"

definition counts_complete :: "string \<Rightarrow> suiSQLSnapshot \<Rightarrow> bool" where
  "counts_complete protocol snap \<longleftrightarrow> (case suiSQLProtocolKinds protocol of None \<Rightarrow> False
     | Some kinds \<Rightarrow> ok_uint (sn_object_count snap) \<and> ok_uint (sn_observed_objects snap) \<and> ok_uint (sn_value_count snap)
         \<and> ok_uint (sn_observed_values snap) \<and> col (sn_object_count snap) \<le> col (sn_observed_objects snap)
         \<and> col (sn_value_count snap) \<le> col (sn_observed_values snap)
         \<and> (values_of kinds = [] \<longrightarrow> sn_value_count snap = ''0''))"

definition suiPortfolioSchemaVersion :: string where
  "suiPortfolioSchemaVersion = ''2''"

definition certificate_ok :: "u64 \<Rightarrow> sui_checkpoint \<Rightarrow> suiSQLSnapshot \<Rightarrow> bool" where
  "certificate_ok start pin snap \<longleftrightarrow>
     ok_uint (sn_materialized snap) \<and> ok_uint (sn_next_checkpoint snap) \<and> ok_uint (sn_next_timestamp snap) \<and> ok_uint (sn_previous snap)
     \<and> start - 1 \<le> col (sn_previous snap) \<and> col (sn_previous snap) < cp_sequence pin
     \<and> sn_schema snap = suiPortfolioSchemaVersion \<and> sn_start snap = show_u64 start \<and> sn_id snap = pad20 (cp_sequence pin)
     \<and> cp_sequence pin < col (sn_materialized snap) \<and> col (sn_next_checkpoint snap) = col (sn_materialized snap)
     \<and> of_int (unix_milli (cp_timestamp pin)) < col (sn_next_timestamp snap) \<and> col (sn_next_timestamp snap) \<le> max_history_millis"

definition sqlData :: "string \<Rightarrow> u64 \<Rightarrow> sui_address \<Rightarrow> suiSQLResult \<Rightarrow> suiSQLSelection \<Rightarrow> sui_sql_error + suiSQLData" where
  "sqlData protocol start owner rows selection =
     bindR (foldR add_object [] (rs_objects rows)) (\<lambda>objects.
     bindR (foldR add_metadata [] (rs_metadata rows)) (\<lambda>metadata.
     case rs_snapshots rows of [snap] \<Rightarrow>
       bindR (guardR (counts_complete protocol snap) IncompleteMaterialization) (\<lambda>_.
       case indexedSuiCheckpoint (sn_checkpoint snap) (sn_timestamp snap) (sn_digest snap) start of Inl e \<Rightarrow> Inl (BadPin e)
       | Inr pin \<Rightarrow>
         bindR (guardR (certificate_ok start pin snap) InvalidCertificate) (\<lambda>_.
         bindR (guardR (case sel_checkpoint selection of None \<Rightarrow> True
             | Some c \<Rightarrow> cp_sequence pin \<le> c \<and> c < col (sn_next_checkpoint snap)) CheckpointNotCompleted) (\<lambda>_.
         bindR (guardR (case sel_at selection of None \<Rightarrow> True
             | Some t \<Rightarrow> cp_timestamp pin \<le> t \<and> unix_milli t < uint (col (sn_next_timestamp snap))) HourNotCompleted) (\<lambda>_.
         bindR (take_values (the (suiSQLProtocolKinds protocol)) start (cp_sequence pin) (col (sn_materialized snap)) {} (rs_values rows)) (\<lambda>vals.
         bindR (mapR (check_object (cp_sequence pin) (col (sn_materialized snap)) \<circ> snd) objects) (\<lambda>_.
           Inr \<lparr>sd_pin = pin, sd_snapshot = snap, sd_owner = owner, sd_objects = objects, sd_metadata = metadata,
             sd_values = vals\<rparr>))))))
     | _ \<Rightarrow> Inl NoCompletedSample))"

section \<open>Reading an accepted sample\<close>

definition suiSampleIntervalSeconds :: "suiSQLData \<Rightarrow> int" where
  "suiSampleIntervalSeconds data = (let start = (of_int (unix_milli (cp_timestamp (sd_pin data))) :: u64) in
     case historyUint (sn_next_timestamp (sd_snapshot data)) of Inl e \<Rightarrow> 3600
     | Inr next_ms \<Rightarrow> if next_ms \<le> start then 3600
         else let minutes = (next_ms - start + 30000) div 60000 in
           if minutes = 0 then 60 else if minutes > 2 ^ 40 then 3600 else uint minutes * 60)"

definition live_row :: "suiSQLObject \<Rightarrow> bool" where
  "live_row ob \<longleftrightarrow> ob_state ob = ''live''"

definition owned_by :: "sui_address \<Rightarrow> suiSQLObject \<Rightarrow> bool" where
  "owned_by owner ob \<longleftrightarrow> ob_owner ob = sui_hex owner \<and> (ob_owner_kind ob = ''ADDRESS'' \<or> ob_owner_kind ob = ''CONSENSUS_ADDRESS'')"

text \<open>\<open>Objects\<close>: the live rows of the identities asked for.\<close>

fun data_Objects :: "suiSQLData \<Rightarrow> string list \<Rightarrow> sui_sql_error + (string \<times> sui_object) list" where
  "data_Objects data [] = Inr []"
| "data_Objects data (oid # ids) = (case map_of (sd_objects data) oid of
       None \<Rightarrow> data_Objects data ids
     | Some row \<Rightarrow> if \<not> live_row row then data_Objects data ids
         else bindR (suiSQLObject_object row) (\<lambda>obj. bindR (data_Objects data ids) (\<lambda>rest. Inr ((oid, obj) # rest))))"

definition suiObjectTypeMatches :: "string \<Rightarrow> string \<Rightarrow> bool" where
  "suiObjectTypeMatches actual wanted \<longleftrightarrow> actual = wanted \<or> (\<not> contains ''<'' wanted \<and> is_prefix (wanted @ ''<'') actual)"

definition suiType :: "string \<Rightarrow> string" where
  "suiType raw = (case NormalizeMoveType raw of Inl e \<Rightarrow> [] | Inr t \<Rightarrow> t)"

definition data_OwnedObjects :: "suiSQLData \<Rightarrow> sui_address \<Rightarrow> string \<Rightarrow> sui_sql_error + sui_object list" where
  "data_OwnedObjects data owner typ = bindR (mapR suiSQLObject_object
       (filter (\<lambda>row. live_row row \<and> owned_by owner row \<and> suiObjectTypeMatches (ob_type row) (suiType typ)) (map snd (sd_objects data))))
     (\<lambda>objects. Inr (sort_key so_id objects))"

definition sortedSuiSQLObjects :: "suiSQLData \<Rightarrow> suiSQLObject list" where
  "sortedSuiSQLObjects data = sort_key ob_object (map snd (sd_objects data))"

definition data_DynamicFields :: "suiSQLData \<Rightarrow> string \<Rightarrow> sui_sql_error + sui_object list" where
  "data_DynamicFields data parent =
     mapR suiSQLObject_object (filter (\<lambda>row. live_row row \<and> ob_parent row = parent) (sortedSuiSQLObjects data))"

definition data_CoinMetadata :: "suiSQLData \<Rightarrow> string list \<Rightarrow> sui_sql_error + (string \<times> sui_coin_metadata) list" where
  "data_CoinMetadata data coins = mapR (\<lambda>coin. case map_of (sd_metadata data) coin of None \<Rightarrow> Inl MetadataMissing
     | Some meta \<Rightarrow> (case suiCoinMetadataFrom coin (Some (uint (coin_decimals meta))) (Some (coin_symbol meta)) (coin_name meta) of
           Inl e \<Rightarrow> Inl (CoinMetadataInvalid e) | Inr _ \<Rightarrow> Inr (coin, meta))) coins"

text \<open>The state both NAVI products read.\<close>

record suiProtocolObject =
  po_id :: string
  po_kind :: string
  po_owner :: string
  po_parent :: string
  po_key :: string
  po_type :: string
  po_content :: string
  po_version :: string

record suiProtocolState =
  ps_owned :: "suiProtocolObject list"
  ps_topology :: "suiProtocolObject list"
  ps_principals :: "suiProtocolObject list"
  ps_vaults :: "suiProtocolObject list"
  ps_receipts :: "suiProtocolObject list"
  ps_emodes :: "suiSQLValue list"

definition protocolObject :: "sui_object \<Rightarrow> string \<Rightarrow> string \<Rightarrow> suiProtocolObject" where
  "protocolObject object kind key = \<lparr>po_id = so_id object, po_kind = kind, po_owner = so_owner object, po_parent = so_owner object,
     po_key = key, po_type = so_type object, po_content = so_content object, po_version = show_u64 (so_version object)\<rparr>"

definition add_navi_row :: "sui_address \<Rightarrow> suiProtocolState \<Rightarrow> suiSQLObject \<Rightarrow> sui_sql_error + suiProtocolState" where
  "add_navi_row owner state row = (if \<not> live_row row then Inr state else bindR (suiSQLObject_object row) (\<lambda>object.
     let kind = ob_kind row; key = ob_key row in
     if kind = ''account'' \<or> kind = ''receipt'' then
       (if \<not> owned_by owner row then Inl ForeignRoot
        else Inr (state\<lparr>ps_owned := ps_owned state @
          [protocolObject object kind (if kind = ''receipt'' then ob_related row else key)]\<rparr>))
     else if kind \<in> {''storage'', ''market'', ''reserve''} then
       Inr (state\<lparr>ps_topology := ps_topology state @ [protocolObject object kind key]\<rparr>)
     else if kind = ''principal'' then
       Inr (state\<lparr>ps_principals := ps_principals state @ [(protocolObject object kind key)\<lparr>po_owner := key\<rparr>]\<rparr>)
     else if kind = ''vault'' then Inr (state\<lparr>ps_vaults := ps_vaults state @ [protocolObject object kind key]\<rparr>)
     else if kind = ''receiptState'' then Inr (state\<lparr>ps_receipts := ps_receipts state @ [protocolObject object kind key]\<rparr>)
     else Inl UnknownKind))"

definition naviState :: "suiSQLData \<Rightarrow> sui_sql_error + suiProtocolState" where
  "naviState data = foldR (add_navi_row (sd_owner data))
     \<lparr>ps_owned = [], ps_topology = [], ps_principals = [], ps_vaults = [], ps_receipts = [], ps_emodes = sd_values data\<rparr>
     (sortedSuiSQLObjects data)"

section \<open>One calculated sample\<close>

text \<open>
  The calculators of the protocols are a parameter here: from a sample to its groups. Timestamps in
  metadata are rendered by a parameter, \<open>RFC3339Nano\<close> in UTC.
\<close>

definition suiHistory_result :: "string \<Rightarrow> string \<Rightarrow> sui_checkpoint \<Rightarrow> sui_positions" where
  "suiHistory_result protocol name pin = \<lparr>sp_protocol = protocol, sp_name = name, sp_checkpoint = pin,
     sp_head_before = cp_sequence pin, sp_groups = [], sp_errors = []\<rparr>"

definition label_group :: "(instant \<Rightarrow> string) \<Rightarrow> suiSQLData \<Rightarrow> suiSQLSelection \<Rightarrow> sui_group \<Rightarrow> sui_group" where
  "label_group rfc3339 data selection g =
     (let m = AList.update ''stateMode'' (MetaString (if sel_at selection \<noteq> None \<or> sel_checkpoint selection \<noteq> None
            then ''historical'' else ''indexed'')) (sg_metadata g);
          m = AList.update ''sampleIntervalSeconds'' (MetaInt (suiSampleIntervalSeconds data)) m;
          m = AList.update ''materializedAtCheckpoint'' (MetaString (sn_materialized (sd_snapshot data))) m;
          m = (case sel_at selection of None \<Rightarrow> m | Some t \<Rightarrow> AList.update ''requestedTimestamp'' (MetaString (rfc3339 t)) m);
          m = (case sel_checkpoint selection of None \<Rightarrow> m
               | Some c \<Rightarrow> AList.update ''requestedCheckpoint'' (MetaString (show_u64 c)) m)
      in g\<lparr>sg_metadata := m\<rparr>)"

definition samplePortfolio :: "(instant \<Rightarrow> string) \<Rightarrow> (suiSQLData \<Rightarrow> sui_sql_error + sui_group list) \<Rightarrow> string \<Rightarrow> string
    \<Rightarrow> suiSQLData \<Rightarrow> suiSQLSelection \<Rightarrow> sui_sql_error + sui_positions" where
  "samplePortfolio rfc3339 calculate protocol name data selection = bindR (calculate data) (\<lambda>groups.
     Inr ((suiHistory_result protocol name (sd_pin data))\<lparr>sp_groups :=
       sort_key sg_id (map (label_group rfc3339 data selection) (sort_key sg_id groups))\<rparr>))"

end
