(* ===== verification/SuiSelect.thy ===== *)
theory SuiSelect
  imports SuiSQL
begin

text \<open>
  What the two statements of a Sui index select and what a range read makes of it: \<open>portfolioSQL\<close>
  (\<open>sui_sql_query.go\<close>) selects one sample's rows, \<open>rangeSQL\<close> the raw material of many samples, and
  \<open>suiSQLRangeView\<close> (\<open>sui_sql_range.go\<close>) selects each sample from that material. The tables are what
  the processor publishes. A statement is read as the query its text spells: a common table
  expression is a list, \<open>IN\<close> membership, \<open>GROUP BY\<close> with \<open>max\<close>, \<open>min\<close> and \<open>argMax\<close> an aggregate per key,
  \<open>ORDER BY .. LIMIT 1 BY\<close> a greatest row per key. Identifiers sort by kind and source checkpoint, so
  an identifier range is a range of those two columns, and a state's kind is the kind of its rows.
\<close>

section \<open>Tables\<close>

record owner_row =
  ow_kind :: string
  ow_owner :: string
  ow_object :: string
  ow_checkpoint :: u64

record index_row =
  ix_object :: string
  ix_kind :: string
  ix_state :: string
  ix_checkpoint :: u64

record sui_tables =
  tb_owners :: "owner_row list"
  tb_index :: "index_row list"
  tb_states :: "suiSQLObject list"
  tb_values :: "suiSQLValue list"
  tb_values_raw :: "suiSQLValue list"
  tb_metadata :: "suiSQLMetadata list"

definition mat_of :: "suiSQLObject \<Rightarrow> u64" where
  "mat_of ob = col (ob_materialized ob)"

text \<open>\<open>ORDER BY ord DESC LIMIT 1 BY key\<close>\<close>

definition limit_one_by :: "('r \<Rightarrow> 'k) \<Rightarrow> ('r \<Rightarrow> 'o::linorder) \<Rightarrow> 'r list \<Rightarrow> 'r list" where
  "limit_one_by key ord rows = map (\<lambda>k. last (sort_key ord (filter (\<lambda>r. key r = k) rows))) (remdups (map key rows))"

text \<open>\<open>SELECT key, min(val) .. GROUP BY key\<close>\<close>

definition group_min :: "('r \<Rightarrow> 'k) \<Rightarrow> ('r \<Rightarrow> 'v::linorder) \<Rightarrow> 'r list \<Rightarrow> ('k \<times> 'v) list" where
  "group_min key val rows = map (\<lambda>k. (k, Min (set (map val (filter (\<lambda>r. key r = k) rows))))) (remdups (map key rows))"

section \<open>One sample's statement\<close>

text \<open>
  The selection of a stage: \<open>SELECT max(stateId) .. WHERE kind AND checkpoint <= .. AND objectId IN ids
  GROUP BY objectId\<close>, then the newest visible row of each.
\<close>

definition latest_ids :: "sui_tables \<Rightarrow> (string \<Rightarrow> bool) \<Rightarrow> string list \<Rightarrow> u64 \<Rightarrow> string list" where
  "latest_ids db cand kinds C = (let rows = filter (\<lambda>r. ix_kind r \<in> set kinds \<and> ix_checkpoint r \<le> C \<and> cand (ix_object r)) (tb_index db)
     in map (\<lambda>oid. Max (set (map ix_state (filter (\<lambda>r. ix_object r = oid) rows)))) (remdups (map ix_object rows)))"

definition fetch_rows :: "sui_tables \<Rightarrow> string list \<Rightarrow> u64 \<Rightarrow> suiSQLObject list" where
  "fetch_rows db ids M = limit_one_by ob_object (\<lambda>ob. (ob_id ob, mat_of ob))
     (filter (\<lambda>ob. ob_id ob \<in> set ids \<and> mat_of ob \<le> M) (tb_states db))"

text \<open>What later stages take from the rows of earlier ones.\<close>

definition owned_roots :: "sui_address \<Rightarrow> suiSQLObject list \<Rightarrow> suiSQLObject list" where
  "owned_roots owner rows = filter (\<lambda>ob. live_row ob \<and> owned_by owner ob) rows"

definition related_ids :: "bool \<Rightarrow> suiSQLObject list \<Rightarrow> string list" where
  "related_ids live rows = map ob_related (filter (\<lambda>ob. ob_related ob \<noteq> [] \<and> (live \<longrightarrow> live_row ob)) rows)"

definition account_names :: "(string \<Rightarrow> string \<Rightarrow> string) \<Rightarrow> sui_address \<Rightarrow> suiSQLObject list \<Rightarrow> string list" where
  "account_names json_string owner owned = sui_hex owner
     # map (\<lambda>ob. json_string (ob_links ob) ''accountAddress'') (filter (\<lambda>ob. ob_kind ob = ''account'') owned)"

definition receipt_ids :: "suiSQLObject list \<Rightarrow> string list" where
  "receipt_ids owned = map ob_object (filter (\<lambda>ob. ob_kind ob = ''receipt'') owned)"

definition reserve_tables :: "(string \<Rightarrow> string \<Rightarrow> string) \<Rightarrow> suiSQLObject list \<Rightarrow> string list" where
  "reserve_tables json_string topology = concat (map (\<lambda>ob. [json_string (ob_links ob) ''supplyTableId'', json_string (ob_links ob) ''borrowTableId''])
     (filter (\<lambda>ob. ob_kind ob = ''reserve'' \<and> live_row ob) topology))"

definition users_tables :: "(string \<Rightarrow> string \<Rightarrow> string) \<Rightarrow> suiSQLObject list \<Rightarrow> string list" where
  "users_tables json_string direct = map (\<lambda>ob. json_string (ob_links ob) ''usersTableId'')
     (filter (\<lambda>ob. live_row ob \<and> ob_kind ob = ''vault'') direct)"

definition root_candidate :: "sui_tables \<Rightarrow> suiSQLKinds \<Rightarrow> sui_address \<Rightarrow> u64 \<Rightarrow> string \<Rightarrow> bool" where
  "root_candidate db kinds owner C oid \<longleftrightarrow>
     list_ex (\<lambda>r. ow_kind r \<in> set (roots_of kinds) \<and> ow_owner r = sui_hex owner \<and> ow_checkpoint r \<le> C \<and> ow_object r = oid) (tb_owners db)"

definition principal_candidate :: "sui_tables \<Rightarrow> string list \<Rightarrow> u64 \<Rightarrow> string \<Rightarrow> bool" where
  "principal_candidate db accounts C oid \<longleftrightarrow>
     list_ex (\<lambda>r. ow_kind r = ''principal'' \<and> ow_owner r \<in> set accounts \<and> ow_checkpoint r \<le> C \<and> ow_object r = oid) (tb_owners db)"

definition child_row :: "(string \<Rightarrow> bool) \<Rightarrow> string list \<Rightarrow> string list \<Rightarrow> string list \<Rightarrow> string list \<Rightarrow> suiSQLObject \<Rightarrow> bool" where
  "child_row known accounts reserves receipts users ob \<longleftrightarrow>
     (ob_kind ob = ''principal'' \<and> known (ob_object ob) \<and> ob_key ob \<in> set accounts \<and> ob_parent ob \<in> set reserves)
     \<or> (ob_kind ob = ''receiptState'' \<and> ob_key ob \<in> set receipts \<and> ob_parent ob \<in> set users)"

text \<open>The stages of \<open>portfolioSQL\<close> at the sample of checkpoint \<open>C\<close> and materialisation \<open>M\<close>: identifiers and rows.\<close>

record sample_stages =
  st_ids :: "string list"
  st_roots :: "suiSQLObject list"
  st_direct :: "suiSQLObject list"

definition lending_stages :: "sui_tables \<Rightarrow> suiSQLKinds \<Rightarrow> sui_address \<Rightarrow> u64 \<Rightarrow> u64 \<Rightarrow> sample_stages" where
  "lending_stages db kinds owner C M =
     (let root_ids = latest_ids db (root_candidate db kinds owner C) (roots_of kinds) C;
          owned = owned_roots owner (fetch_rows db root_ids M);
          direct_ids = latest_ids db (\<lambda>oid. oid \<in> set (related_ids False owned)) (direct_of kinds) C;
          direct = fetch_rows db direct_ids M;
          second_ids = (if second_of kinds = [] then []
            else latest_ids db (\<lambda>oid. oid \<in> set (related_ids True direct)) (second_of kinds) C)
      in \<lparr>st_ids = root_ids @ direct_ids @ second_ids, st_roots = owned, st_direct = direct\<rparr>)"

definition topology_ids :: "sui_tables \<Rightarrow> suiSQLKinds \<Rightarrow> u64 \<Rightarrow> string list" where
  "topology_ids db kinds C = latest_ids db (\<lambda>oid. True) (topology_of kinds) C"

definition child_ids :: "(string \<Rightarrow> string \<Rightarrow> string) \<Rightarrow> sui_tables \<Rightarrow> suiSQLKinds \<Rightarrow> sui_address \<Rightarrow> u64 \<Rightarrow> u64 \<Rightarrow> string list" where
  "child_ids json_string db kinds owner C M =
     (let stages = lending_stages db kinds owner C M; owned = st_roots stages;
          accounts = account_names json_string owner owned;
          reserves = reserve_tables json_string (fetch_rows db (topology_ids db kinds C) M);
          children = map ob_object (filter (\<lambda>ob. col (ob_checkpoint ob) \<le> C \<and>
            child_row (principal_candidate db accounts C) accounts reserves (receipt_ids owned)
              (users_tables json_string (st_direct stages)) ob) (tb_states db))
      in latest_ids db (\<lambda>oid. oid \<in> set children) (children_of kinds) C)"

definition portfolio_objects :: "(string \<Rightarrow> string \<Rightarrow> string) \<Rightarrow> sui_tables \<Rightarrow> string \<Rightarrow> suiSQLKinds \<Rightarrow> sui_address \<Rightarrow> u64 \<Rightarrow> u64
    \<Rightarrow> suiSQLObject list" where
  "portfolio_objects json_string db protocol kinds owner C M =
     fetch_rows db (st_ids (lending_stages db kinds owner C M)
       @ (if protocol = ''navi'' then topology_ids db kinds C @ child_ids json_string db kinds owner C M else [])) M"

text \<open>The e-mode rows of the accounts, and the token metadata.\<close>

definition emode_bound :: "u64 \<Rightarrow> string" where
  "emode_bound C = ''emode:'' @ pad20 C @ '':~''"

definition portfolio_values :: "(string \<Rightarrow> string \<Rightarrow> string) \<Rightarrow> sui_tables \<Rightarrow> string \<Rightarrow> suiSQLKinds \<Rightarrow> sui_address \<Rightarrow> u64 \<Rightarrow> u64
    \<Rightarrow> suiSQLValue list" where
  "portfolio_values json_string db protocol kinds owner C M = (if protocol \<noteq> ''navi'' then [] else
     limit_one_by (\<lambda>v. (va_kind v, va_account v, va_market v)) (\<lambda>v. col (va_checkpoint v))
       (filter (\<lambda>v. ''emode:'' \<le> va_id v \<and> va_id v \<le> emode_bound C \<and> col (va_materialized v) \<le> M
         \<and> va_account v \<in> set (account_names json_string owner (st_roots (lending_stages db kinds owner C M)))) (tb_values db)))"

definition portfolio_metadata :: "sui_tables \<Rightarrow> u64 \<Rightarrow> suiSQLMetadata list" where
  "portfolio_metadata db M = limit_one_by md_coin (\<lambda>m. col (md_checkpoint m))
     (filter (\<lambda>m. col (md_checkpoint m) \<le> M \<and> col (md_materialized m) \<le> M) (tb_metadata db))"

text \<open>The certificate counts of one sample: distinct identifiers of its interval that it may see.\<close>

definition object_count :: "sui_tables \<Rightarrow> string list \<Rightarrow> u64 \<Rightarrow> u64 \<Rightarrow> u64 \<Rightarrow> nat" where
  "object_count db kinds prev C M = length (remdups (map ob_id (filter (\<lambda>ob. ob_kind ob \<in> set kinds
     \<and> prev < col (ob_checkpoint ob) \<and> col (ob_checkpoint ob) \<le> C \<and> mat_of ob \<le> M) (tb_states db))))"

definition value_count :: "sui_tables \<Rightarrow> string list \<Rightarrow> u64 \<Rightarrow> u64 \<Rightarrow> u64 \<Rightarrow> nat" where
  "value_count db kinds prev C M = length (remdups (map va_id (filter (\<lambda>v. va_kind v \<in> set kinds
     \<and> prev < col (va_checkpoint v) \<and> col (va_checkpoint v) \<le> C \<and> col (va_materialized v) \<le> M) (tb_values_raw db))))"

text \<open>The rows \<open>portfolioSQL\<close> returns for the sample \<open>snap\<close>.\<close>

definition portfolio_rows :: "(string \<Rightarrow> string \<Rightarrow> string) \<Rightarrow> sui_tables \<Rightarrow> string \<Rightarrow> suiSQLKinds \<Rightarrow> sui_address \<Rightarrow> suiSQLSnapshot
    \<Rightarrow> suiSQLResult" where
  "portfolio_rows json_string db protocol kinds owner snap =
     (let C = col (sn_checkpoint snap); M = col (sn_materialized snap); prev = col (sn_previous snap) in
      \<lparr>rs_snapshots = [snap\<lparr>sn_observed_objects := show_nat (object_count db (all_kinds kinds) prev C M),
          sn_observed_values := (if values_of kinds = [] then ''0'' else show_nat (value_count db (values_of kinds) prev C M))\<rparr>],
       rs_objects = portfolio_objects json_string db protocol kinds owner C M,
       rs_metadata = portfolio_metadata db M,
       rs_values = portfolio_values json_string db protocol kinds owner C M\<rparr>)"

section \<open>The range statement\<close>

record suiSQLCandidate =
  ca_stage :: string
  ca_object :: string
  ca_owner :: string
  ca_kind :: string
  ca_key :: string
  ca_parent :: string
  ca_first :: string

record suiSQLVersion =
  ve_object :: string
  ve_kind :: string
  ve_state :: string
  ve_checkpoint :: string

record suiSQLCount =
  co_table :: string
  co_checkpoint :: string
  co_count :: string

record suiSQLRange =
  rg_samples :: "suiSQLSnapshot list"
  rg_counts :: "suiSQLCount list"
  rg_candidates :: "suiSQLCandidate list"
  rg_versions :: "suiSQLVersion list"
  rg_objects :: "suiSQLObject list"
  rg_metadata :: "suiSQLMetadata list"
  rg_values :: "suiSQLValue list"

text \<open>The samples' checkpoints in order, and the last of their checkpoints and materialisations.\<close>

definition sample_checkpoints :: "suiSQLSnapshot list \<Rightarrow> u64 list" where
  "sample_checkpoints samples = sort (map (col \<circ> sn_checkpoint) samples)"

definition last_checkpoint :: "suiSQLSnapshot list \<Rightarrow> u64" where
  "last_checkpoint samples = Max (set (map (col \<circ> sn_checkpoint) samples))"

definition last_materialized :: "suiSQLSnapshot list \<Rightarrow> u64" where
  "last_materialized samples = Max (set (map (col \<circ> sn_materialized) samples))"

text \<open>A version's bucket: the first sample at or after it.\<close>

definition bucket_of :: "u64 list \<Rightarrow> u64 \<Rightarrow> u64 option" where
  "bucket_of cps c = find (\<lambda>s. c \<le> s) cps"

text \<open>A stage of the range: per object, kind and bucket the greatest state and its checkpoint (\<open>argMax\<close>).\<close>

definition stage_versions :: "sui_tables \<Rightarrow> u64 list \<Rightarrow> u64 \<Rightarrow> (string \<Rightarrow> bool) \<Rightarrow> string list \<Rightarrow> suiSQLVersion list" where
  "stage_versions db cps final cand kinds =
     (let rows = filter (\<lambda>r. ix_kind r \<in> set kinds \<and> ix_checkpoint r \<le> final \<and> cand (ix_object r)) (tb_index db);
          key = (\<lambda>r. (ix_object r, ix_kind r, bucket_of cps (ix_checkpoint r)))
      in map (\<lambda>k. let grp = filter (\<lambda>r. key r = k) rows; sid = Max (set (map ix_state grp)) in
           \<lparr>ve_object = fst k, ve_kind = fst (snd k), ve_state = sid,
            ve_checkpoint = show_u64 (ix_checkpoint (hd (filter (\<lambda>r. ix_state r = sid) grp)))\<rparr>) (remdups (map key rows)))"

definition version_rows :: "sui_tables \<Rightarrow> suiSQLVersion list \<Rightarrow> u64 \<Rightarrow> suiSQLObject list" where
  "version_rows db versions M = filter (\<lambda>ob. ob_id ob \<in> set (map ve_state versions) \<and> mat_of ob \<le> M) (tb_states db)"

definition root_firsts :: "sui_tables \<Rightarrow> suiSQLKinds \<Rightarrow> sui_address \<Rightarrow> u64 \<Rightarrow> (string \<times> u64) list" where
  "root_firsts db kinds owner final = group_min ow_object ow_checkpoint
     (filter (\<lambda>r. ow_kind r \<in> set (roots_of kinds) \<and> ow_owner r = sui_hex owner \<and> ow_checkpoint r \<le> final) (tb_owners db))"

record range_stages =
  rt_versions :: "suiSQLVersion list"
  rt_roots :: "suiSQLObject list"
  rt_direct :: "suiSQLObject list"

definition range_lending :: "sui_tables \<Rightarrow> suiSQLKinds \<Rightarrow> sui_address \<Rightarrow> u64 list \<Rightarrow> u64 \<Rightarrow> u64 \<Rightarrow> range_stages" where
  "range_lending db kinds owner cps final M =
     (let roots = stage_versions db cps final (\<lambda>oid. oid \<in> set (map fst (root_firsts db kinds owner final))) (roots_of kinds);
          owned = owned_roots owner (version_rows db roots M);
          direct = stage_versions db cps final (\<lambda>oid. oid \<in> set (related_ids False owned)) (direct_of kinds);
          direct_rows = version_rows db direct M;
          second = (if second_of kinds = [] then []
            else stage_versions db cps final (\<lambda>oid. oid \<in> set (related_ids True direct_rows)) (second_of kinds))
      in \<lparr>rt_versions = roots @ direct @ second, rt_roots = owned, rt_direct = direct_rows\<rparr>)"

definition range_topology :: "sui_tables \<Rightarrow> suiSQLKinds \<Rightarrow> u64 list \<Rightarrow> u64 \<Rightarrow> suiSQLVersion list" where
  "range_topology db kinds cps final = stage_versions db cps final (\<lambda>oid. True) (topology_of kinds)"

definition principal_firsts :: "sui_tables \<Rightarrow> string list \<Rightarrow> u64 \<Rightarrow> ((string \<times> string) \<times> u64) list" where
  "principal_firsts db accounts final = group_min (\<lambda>r. (ow_object r, ow_owner r)) ow_checkpoint
     (filter (\<lambda>r. ow_kind r = ''principal'' \<and> ow_owner r \<in> set accounts \<and> ow_checkpoint r \<le> final) (tb_owners db))"

definition child_firsts :: "(string \<Rightarrow> string \<Rightarrow> string) \<Rightarrow> sui_tables \<Rightarrow> suiSQLKinds \<Rightarrow> sui_address \<Rightarrow> u64 list \<Rightarrow> u64 \<Rightarrow> u64
    \<Rightarrow> ((string \<times> string \<times> string \<times> string) \<times> u64) list" where
  "child_firsts json_string db kinds owner cps final M =
     (let lending = range_lending db kinds owner cps final M;
          accounts = account_names json_string owner (rt_roots lending);
          principals = map (fst \<circ> fst) (principal_firsts db accounts final);
          reserves = reserve_tables json_string (version_rows db (range_topology db kinds cps final) M)
      in group_min (\<lambda>ob. (ob_object ob, ob_kind ob, ob_key ob, ob_parent ob)) (\<lambda>ob. col (ob_checkpoint ob))
        (filter (\<lambda>ob. col (ob_checkpoint ob) \<le> final \<and> child_row (\<lambda>oid. oid \<in> set principals) accounts reserves
           (receipt_ids (rt_roots lending)) (users_tables json_string (rt_direct lending)) ob) (tb_states db)))"

definition range_versions :: "(string \<Rightarrow> string \<Rightarrow> string) \<Rightarrow> sui_tables \<Rightarrow> string \<Rightarrow> suiSQLKinds \<Rightarrow> sui_address \<Rightarrow> u64 list
    \<Rightarrow> u64 \<Rightarrow> u64 \<Rightarrow> suiSQLVersion list" where
  "range_versions json_string db protocol kinds owner cps final M =
     rt_versions (range_lending db kinds owner cps final M)
     @ (if protocol = ''navi'' then range_topology db kinds cps final
          @ stage_versions db cps final (\<lambda>oid. oid \<in> set (map (fst \<circ> fst) (child_firsts json_string db kinds owner cps final M)))
              (children_of kinds)
        else [])"

definition candidate_row :: "string \<Rightarrow> string \<Rightarrow> u64 \<Rightarrow> suiSQLCandidate" where
  "candidate_row stage oid first = \<lparr>ca_stage = stage, ca_object = oid, ca_owner = [], ca_kind = [], ca_key = [], ca_parent = [],
     ca_first = show_u64 first\<rparr>"

definition range_candidates :: "(string \<Rightarrow> string \<Rightarrow> string) \<Rightarrow> sui_tables \<Rightarrow> string \<Rightarrow> suiSQLKinds \<Rightarrow> sui_address \<Rightarrow> u64 list
    \<Rightarrow> u64 \<Rightarrow> u64 \<Rightarrow> suiSQLCandidate list" where
  "range_candidates json_string db protocol kinds owner cps final M =
     map (\<lambda>(oid, first). candidate_row ''root'' oid first) (root_firsts db kinds owner final)
     @ (if protocol = ''navi'' then
          map (\<lambda>((oid, ow), first). (candidate_row ''principal'' oid first)\<lparr>ca_owner := ow\<rparr>)
            (principal_firsts db (account_names json_string owner (rt_roots (range_lending db kinds owner cps final M))) final)
          @ map (\<lambda>((oid, kind, key, parent), first). (candidate_row ''child'' oid first)\<lparr>ca_kind := kind, ca_key := key, ca_parent := parent\<rparr>)
              (child_firsts json_string db kinds owner cps final M)
        else [])"

text \<open>
  The certificate counts: a row counts for the first sample at or after it, when it lies in that
  sample's own interval and is visible by it; a sample nothing counts for has no row.
\<close>

definition sample_of :: "suiSQLSnapshot list \<Rightarrow> u64 \<Rightarrow> suiSQLSnapshot" where
  "sample_of samples c = hd (filter (\<lambda>s. col (sn_checkpoint s) = c) samples)"

definition count_rows :: "suiSQLSnapshot list \<Rightarrow> string \<Rightarrow> string list \<Rightarrow> ('r \<Rightarrow> string \<times> string \<times> u64 \<times> u64) \<Rightarrow> 'r list
    \<Rightarrow> suiSQLCount list" where
  "count_rows samples table kinds row rows =
     (let cps = sample_checkpoints samples;
          floor = Min (set (map (col \<circ> sn_previous) samples));
          counted = concat (map (\<lambda>r. case row r of (rid, kind, c, m) \<Rightarrow>
            if kind \<in> set kinds \<and> floor < c \<and> c \<le> last_checkpoint samples then
              (case bucket_of cps c of None \<Rightarrow> []
               | Some b \<Rightarrow> if col (sn_previous (sample_of samples b)) < c \<and> m \<le> col (sn_materialized (sample_of samples b))
                   then [(b, rid)] else [])
            else []) rows)
      in map (\<lambda>b. \<lparr>co_table = table, co_checkpoint = show_u64 b,
             co_count = show_nat (length (remdups (map snd (filter (\<lambda>p. fst p = b) counted))))\<rparr>) (remdups (map fst counted)))"

definition range_rows :: "(string \<Rightarrow> string \<Rightarrow> string) \<Rightarrow> sui_tables \<Rightarrow> string \<Rightarrow> suiSQLKinds \<Rightarrow> sui_address
    \<Rightarrow> suiSQLSnapshot list \<Rightarrow> suiSQLRange" where
  "range_rows json_string db protocol kinds owner samples =
     (let cps = sample_checkpoints samples; final = last_checkpoint samples; M = last_materialized samples;
          versions = range_versions json_string db protocol kinds owner cps final M in
      \<lparr>rg_samples = samples,
       rg_counts = count_rows samples ''object'' (all_kinds kinds) (\<lambda>ob. (ob_id ob, ob_kind ob, col (ob_checkpoint ob), mat_of ob)) (tb_states db)
         @ (if values_of kinds = [] then [] else count_rows samples ''value'' (values_of kinds)
              (\<lambda>v. (va_id v, va_kind v, col (va_checkpoint v), col (va_materialized v))) (tb_values_raw db)),
       rg_candidates = range_candidates json_string db protocol kinds owner cps final M,
       rg_versions = versions,
       rg_objects = limit_one_by (\<lambda>ob. (ob_id ob, ob_materialized ob)) mat_of (version_rows db versions M),
       rg_metadata = filter (\<lambda>m. col (md_checkpoint m) \<le> M \<and> col (md_materialized m) \<le> M) (tb_metadata db),
       rg_values = (if protocol \<noteq> ''navi'' then [] else
         filter (\<lambda>v. ''emode:'' \<le> va_id v \<and> va_id v \<le> emode_bound final \<and> col (va_materialized v) \<le> M
           \<and> va_account v \<in> set (account_names json_string owner (rt_roots (range_lending db kinds owner cps final M)))) (tb_values db))\<rparr>)"

section \<open>Each sample from the range's rows\<close>

text \<open>
  \<open>suiSQLRangeView\<close>. The map from an object to its versions is the list of all versions, looked up by
  filtering; so is the map from a state to its visibility variants.
\<close>

record range_view =
  rv_counts :: "((string \<times> string) \<times> string) list"
  rv_roots :: "(string \<times> u64) list"
  rv_principals :: "suiSQLCandidate list"
  rv_children :: "suiSQLCandidate list"
  rv_versions :: "suiSQLVersion list"
  rv_states :: "suiSQLObject list"
  rv_metadata :: "suiSQLMetadata list"
  rv_values :: "suiSQLValue list"

definition add_count :: "((string \<times> string) \<times> string) list \<Rightarrow> suiSQLCount \<Rightarrow> sui_sql_error + ((string \<times> string) \<times> string) list" where
  "add_count counts c = (let k = (co_table c, co_checkpoint c) in
     if map_of counts k \<noteq> None then Inl InvalidRangeRows else Inr (counts @ [(k, co_count c)]))"

definition add_candidate :: "range_view \<Rightarrow> suiSQLCandidate \<Rightarrow> sui_sql_error + range_view" where
  "add_candidate v c = (case historyUint (ca_first c) of Inl e \<Rightarrow> Inl InvalidRangeRows
     | Inr first \<Rightarrow>
         if ca_stage c = ''root'' then
           (if map_of (rv_roots v) (ca_object c) \<noteq> None then Inl InvalidRangeRows
            else Inr (v\<lparr>rv_roots := rv_roots v @ [(ca_object c, first)]\<rparr>))
         else if ca_stage c = ''principal'' then Inr (v\<lparr>rv_principals := rv_principals v @ [c]\<rparr>)
         else if ca_stage c = ''child'' then Inr (v\<lparr>rv_children := rv_children v @ [c]\<rparr>)
         else Inl InvalidRangeRows)"

definition newSuiSQLRangeView :: "suiSQLRange \<Rightarrow> sui_sql_error + range_view" where
  "newSuiSQLRangeView rows =
     bindR (foldR add_count [] (rg_counts rows)) (\<lambda>counts.
     bindR (foldR add_candidate \<lparr>rv_counts = counts, rv_roots = [], rv_principals = [], rv_children = [],
         rv_versions = rg_versions rows, rv_states = rg_objects rows, rv_metadata = rg_metadata rows, rv_values = rg_values rows\<rparr>
       (rg_candidates rows)) (\<lambda>v.
     bindR (mapR (\<lambda>ve. guardR (ok_uint (ve_checkpoint ve) \<and> ve_state ve \<noteq> []) InvalidRangeRows) (rg_versions rows)) (\<lambda>_.
       Inr v)))"

definition keep_visible :: "u64 \<Rightarrow> (suiSQLObject \<times> u64) option \<Rightarrow> suiSQLObject \<Rightarrow> (suiSQLObject \<times> u64) option" where
  "keep_visible M best row = (case historyUint (ob_materialized row) of Inl e \<Rightarrow> best
     | Inr m \<Rightarrow> if m > M then best
         else (case best of None \<Rightarrow> Some (row, m) | Some (b, bm) \<Rightarrow> if m > bm then Some (row, m) else best))"

definition view_visible :: "range_view \<Rightarrow> string \<Rightarrow> u64 \<Rightarrow> suiSQLObject option" where
  "view_visible v sid M = map_option fst (foldl (keep_visible M) None (filter (\<lambda>ob. ob_id ob = sid) (rv_states v)))"

definition view_best :: "range_view \<Rightarrow> string list \<Rightarrow> u64 \<Rightarrow> string \<Rightarrow> string" where
  "view_best v kinds C oid = foldl (\<lambda>best ve. if col (ve_checkpoint ve) \<le> C \<and> ve_kind ve \<in> set kinds \<and> ve_state ve > best
     then ve_state ve else best) [] (filter (\<lambda>ve. ve_object ve = oid) (rv_versions v))"

text \<open>\<open>latest\<close>: the row of each candidate object; a nil candidate set is \<open>None\<close>.\<close>

definition view_latest :: "range_view \<Rightarrow> string list option \<Rightarrow> string list \<Rightarrow> u64 \<Rightarrow> u64 \<Rightarrow> (string \<times> suiSQLObject) list" where
  "view_latest v candidates kinds C M = concat (map (\<lambda>oid.
       if (case candidates of None \<Rightarrow> False | Some cs \<Rightarrow> oid \<notin> set cs) then []
       else let best = view_best v kinds C oid in
         if best = [] then []
         else (case view_visible v best M of None \<Rightarrow> [] | Some row \<Rightarrow> [(oid, row)]))
     (remdups (map ve_object (rv_versions v))))"

definition view_count :: "range_view \<Rightarrow> string \<Rightarrow> string \<Rightarrow> string" where
  "view_count v table checkpoint = (case map_of (rv_counts v) (table, checkpoint) of None \<Rightarrow> ''0'' | Some n \<Rightarrow> n)"

text \<open>The newest value per kind, account and market, and the newest metadata per coin.\<close>

definition keep_value :: "string list \<Rightarrow> u64 \<Rightarrow> u64 \<Rightarrow> ((string \<times> string \<times> string) \<times> suiSQLValue) list \<Rightarrow> suiSQLValue
    \<Rightarrow> ((string \<times> string \<times> string) \<times> suiSQLValue) list" where
  "keep_value accounts C M newest row =
     (if \<not> ok_uint (va_checkpoint row) \<or> \<not> ok_uint (va_materialized row) \<or> va_id row < ''emode:'' \<or> va_id row > emode_bound C
        \<or> col (va_materialized row) > M \<or> va_account row \<notin> set accounts then newest
      else let k = (va_kind row, va_account row, va_market row) in
        case map_of newest k of
          Some current \<Rightarrow> if col (va_checkpoint current) > col (va_checkpoint row)
              \<or> (col (va_checkpoint current) = col (va_checkpoint row) \<and> va_id current \<ge> va_id row)
            then newest else AList.update k row newest
        | None \<Rightarrow> AList.update k row newest)"

definition sampleValues :: "range_view \<Rightarrow> string list \<Rightarrow> u64 \<Rightarrow> u64 \<Rightarrow> suiSQLValue list" where
  "sampleValues v accounts C M = sort_key va_id (map snd (foldl (keep_value accounts C M) [] (rv_values v)))"

definition keep_metadata :: "u64 \<Rightarrow> (string \<times> suiSQLMetadata) list \<Rightarrow> suiSQLMetadata \<Rightarrow> (string \<times> suiSQLMetadata) list" where
  "keep_metadata M newest row =
     (if \<not> ok_uint (md_checkpoint row) \<or> \<not> ok_uint (md_materialized row) \<or> col (md_checkpoint row) > M \<or> col (md_materialized row) > M
      then newest
      else case map_of newest (md_coin row) of
          Some current \<Rightarrow> if col (md_checkpoint current) \<ge> col (md_checkpoint row) then newest
            else AList.update (md_coin row) row newest
        | None \<Rightarrow> AList.update (md_coin row) row newest)"

definition sampleMetadata :: "range_view \<Rightarrow> u64 \<Rightarrow> suiSQLMetadata list" where
  "sampleMetadata v M = sort_key md_coin (map snd (foldl (keep_metadata M) [] (rv_metadata v)))"

text \<open>The stages of \<open>sample\<close> before NAVI's.\<close>

definition view_roots :: "range_view \<Rightarrow> suiSQLKinds \<Rightarrow> u64 \<Rightarrow> u64 \<Rightarrow> (string \<times> suiSQLObject) list" where
  "view_roots v kinds C M = view_latest v (Some (map fst (filter (\<lambda>(oid, first). first \<le> C) (rv_roots v)))) (roots_of kinds) C M"

definition view_direct :: "range_view \<Rightarrow> suiSQLKinds \<Rightarrow> sui_address \<Rightarrow> u64 \<Rightarrow> u64 \<Rightarrow> (string \<times> suiSQLObject) list" where
  "view_direct v kinds owner C M =
     view_latest v (Some (related_ids False (owned_roots owner (map snd (view_roots v kinds C M))))) (direct_of kinds) C M"

definition view_second :: "range_view \<Rightarrow> suiSQLKinds \<Rightarrow> sui_address \<Rightarrow> u64 \<Rightarrow> u64 \<Rightarrow> (string \<times> suiSQLObject) list" where
  "view_second v kinds owner C M = (if second_of kinds = [] then []
     else view_latest v (Some (related_ids True (map snd (view_direct v kinds owner C M)))) (second_of kinds) C M)"

definition view_children :: "(string \<Rightarrow> string \<Rightarrow> string) \<Rightarrow> range_view \<Rightarrow> suiSQLKinds \<Rightarrow> sui_address \<Rightarrow> u64 \<Rightarrow> u64
    \<Rightarrow> (string \<times> suiSQLObject) list" where
  "view_children json_string v kinds owner C M =
     (let owned = owned_roots owner (map snd (view_roots v kinds C M));
          topology = map snd (view_latest v None (topology_of kinds) C M);
          accounts = account_names json_string owner owned;
          principals = map ca_object (filter (\<lambda>c. col (ca_first c) \<le> C \<and> ca_owner c \<in> set accounts) (rv_principals v));
          reserves = reserve_tables json_string topology;
          users = users_tables json_string (map snd (view_direct v kinds owner C M));
          children = map ca_object (filter (\<lambda>c. col (ca_first c) \<le> C \<and>
            ((ca_kind c = ''principal'' \<and> ca_object c \<in> set principals \<and> ca_key c \<in> set accounts \<and> ca_parent c \<in> set reserves)
             \<or> (ca_kind c = ''receiptState'' \<and> ca_key c \<in> set (receipt_ids owned) \<and> ca_parent c \<in> set users))) (rv_children v))
      in view_latest v (Some children) (children_of kinds) C M)"

text \<open>Per object the selected row with the greatest identifier, the first on a tie.\<close>

definition better_row :: "suiSQLObject \<Rightarrow> suiSQLObject \<Rightarrow> suiSQLObject" where
  "better_row best row = (if ob_id row > ob_id best then row else best)"

definition best_rows :: "(string \<times> suiSQLObject) list \<Rightarrow> suiSQLObject list" where
  "best_rows selected = map (\<lambda>oid. case map snd (filter (\<lambda>p. fst p = oid) selected) of r # rs \<Rightarrow> foldl better_row r rs)
     (remdups (map fst selected))"

definition view_sample :: "(string \<Rightarrow> string \<Rightarrow> string) \<Rightarrow> range_view \<Rightarrow> string \<Rightarrow> sui_address \<Rightarrow> suiSQLSnapshot
    \<Rightarrow> sui_sql_error + suiSQLResult" where
  "view_sample json_string v protocol owner snapshot = (case suiSQLProtocolKinds protocol of None \<Rightarrow> Inl UnsupportedProtocol
     | Some kinds \<Rightarrow>
         if \<not> ok_uint (sn_checkpoint snapshot) \<or> \<not> ok_uint (sn_materialized snapshot) then Inl InvalidCertificate
         else let C = col (sn_checkpoint snapshot); M = col (sn_materialized snapshot);
             snap = snapshot\<lparr>sn_observed_objects := view_count v ''object'' (sn_checkpoint snapshot),
               sn_observed_values := (if values_of kinds = [] then ''0'' else view_count v ''value'' (sn_checkpoint snapshot))\<rparr>;
             selected = view_roots v kinds C M @ view_direct v kinds owner C M @ view_second v kinds owner C M
               @ (if protocol = ''navi'' then view_latest v None (topology_of kinds) C M @ view_children json_string v kinds owner C M else [])
           in Inr \<lparr>rs_snapshots = [snap],
                rs_objects = sort_key ob_object (best_rows selected),
                rs_metadata = sampleMetadata v M,
                rs_values = (if protocol = ''navi'' then
                  sampleValues v (account_names json_string owner (owned_roots owner (map snd (view_roots v kinds C M)))) C M else [])\<rparr>)"

section \<open>What the tables promise\<close>

text \<open>
  The processor's contract: columns hold canonical integers; a state's identifier, which embeds its
  object, kind and checkpoint, names one object and one checkpoint, and with its materialisation one
  row; a value is one per kind, account, market and checkpoint, metadata one per coin and checkpoint.
\<close>

definition tables_ok :: "sui_tables \<Rightarrow> bool" where
  "tables_ok db \<longleftrightarrow>
     (\<forall>ob \<in> set (tb_states db). ok_uint (ob_checkpoint ob) \<and> ok_uint (ob_materialized ob))
     \<and> (\<forall>ob \<in> set (tb_states db). \<forall>ob' \<in> set (tb_states db). ob_id ob = ob_id ob' \<and> mat_of ob = mat_of ob' \<longrightarrow> ob = ob')
     \<and> (\<forall>r \<in> set (tb_index db). ix_state r \<noteq> [] \<and> (\<forall>ob \<in> set (tb_states db). ob_id ob = ix_state r \<longrightarrow> ob_object ob = ix_object r))
     \<and> (\<forall>r \<in> set (tb_index db). \<forall>r' \<in> set (tb_index db). ix_state r = ix_state r' \<longrightarrow> ix_checkpoint r = ix_checkpoint r' \<and> ix_object r = ix_object r' \<and> ix_kind r = ix_kind r')
     \<and> (\<forall>v \<in> set (tb_values db). ok_uint (va_checkpoint v) \<and> ok_uint (va_materialized v))
     \<and> (\<forall>v \<in> set (tb_values db). \<forall>v' \<in> set (tb_values db). va_kind v = va_kind v' \<and> va_account v = va_account v'
          \<and> va_market v = va_market v' \<and> col (va_checkpoint v) = col (va_checkpoint v') \<longrightarrow> v = v')
     \<and> (\<forall>m \<in> set (tb_metadata db). ok_uint (md_checkpoint m) \<and> ok_uint (md_materialized m))
     \<and> (\<forall>m \<in> set (tb_metadata db). \<forall>m' \<in> set (tb_metadata db). md_coin m = md_coin m'
          \<and> col (md_checkpoint m) = col (md_checkpoint m') \<longrightarrow> m = m')"

lemma tables_okD:
  assumes "tables_ok db"
  shows "ob \<in> set (tb_states db) \<Longrightarrow> ok_uint (ob_checkpoint ob)" "ob \<in> set (tb_states db) \<Longrightarrow> ok_uint (ob_materialized ob)"
    and "ob \<in> set (tb_states db) \<Longrightarrow> ob' \<in> set (tb_states db) \<Longrightarrow> ob_id ob = ob_id ob' \<Longrightarrow> mat_of ob = mat_of ob' \<Longrightarrow> ob = ob'"
    and "r \<in> set (tb_index db) \<Longrightarrow> ix_state r \<noteq> []"
    and "r \<in> set (tb_index db) \<Longrightarrow> ob \<in> set (tb_states db) \<Longrightarrow> ob_id ob = ix_state r \<Longrightarrow> ob_object ob = ix_object r"
    and "r \<in> set (tb_index db) \<Longrightarrow> r' \<in> set (tb_index db) \<Longrightarrow> ix_state r = ix_state r' \<Longrightarrow> ix_checkpoint r = ix_checkpoint r'"
    and "r \<in> set (tb_index db) \<Longrightarrow> r' \<in> set (tb_index db) \<Longrightarrow> ix_state r = ix_state r' \<Longrightarrow> ix_object r = ix_object r'"
    and "r \<in> set (tb_index db) \<Longrightarrow> r' \<in> set (tb_index db) \<Longrightarrow> ix_state r = ix_state r' \<Longrightarrow> ix_kind r = ix_kind r'"
  using assms unfolding tables_ok_def by blast+

section \<open>Aggregates as sets\<close>

lemma last_sort_key:
  assumes "xs \<noteq> []"
  shows "last (sort_key ord xs) \<in> set xs" "x \<in> set xs \<Longrightarrow> ord x \<le> ord (last (sort_key ord xs))"
proof -
  have nonempty: "sort_key ord xs \<noteq> []" using assms by (metis length_0_conv length_sort)
  then show "last (sort_key ord xs) \<in> set xs" by (metis last_in_set set_sort)
  show "ord x \<le> ord (last (sort_key ord xs))" if "x \<in> set xs"
  proof -
    define L where "L = sort_key ord xs"
    have "sorted (map ord L)" "L \<noteq> []" "x \<in> set L" using that nonempty by (simp_all add: L_def)
    then have "sorted (map ord (butlast L @ [last L]))" "x \<in> set (butlast L @ [last L])" by simp_all
    then have "ord x \<le> ord (last L)" by (auto simp: sorted_append simp del: append_butlast_last_id)
    then show ?thesis by (simp add: L_def)
  qed
qed

lemma limit_one_by_set:
  assumes "\<And>r r'. r \<in> set rows \<Longrightarrow> r' \<in> set rows \<Longrightarrow> key r = key r' \<Longrightarrow> ord r = ord r' \<Longrightarrow> r = r'"
  shows "set (limit_one_by key ord rows) = {r \<in> set rows. \<forall>r' \<in> set rows. key r' = key r \<longrightarrow> ord r' \<le> ord r}"
proof -
  have pick: "last (sort_key ord (filter (\<lambda>r. key r = k) rows)) \<in> {r \<in> set rows. key r = k \<and> (\<forall>r' \<in> set rows. key r' = k \<longrightarrow> ord r' \<le> ord r)}"
    if "k \<in> key ` set rows" for k
  proof -
    have ne: "filter (\<lambda>r. key r = k) rows \<noteq> []" using that by (auto simp: filter_empty_conv)
    show ?thesis using last_sort_key [OF ne, where ord = ord] by auto
  qed
  show ?thesis
  proof (intro set_eqI iffI)
    fix r assume "r \<in> set (limit_one_by key ord rows)"
    then obtain k where "k \<in> key ` set rows" "r = last (sort_key ord (filter (\<lambda>r. key r = k) rows))"
      by (auto simp: limit_one_by_def)
    then show "r \<in> {r \<in> set rows. \<forall>r' \<in> set rows. key r' = key r \<longrightarrow> ord r' \<le> ord r}"
      using pick [of k] by simp
  next
    fix r assume r: "r \<in> {r \<in> set rows. \<forall>r' \<in> set rows. key r' = key r \<longrightarrow> ord r' \<le> ord r}"
    let ?x = "last (sort_key ord (filter (\<lambda>s. key s = key r) rows))"
    have x: "?x \<in> set rows" "key ?x = key r" "ord r \<le> ord ?x" using pick [of "key r"] r by auto
    moreover have "ord ?x \<le> ord r" using r x by blast
    ultimately have "?x = r" using r by (intro assms) auto
    then show "r \<in> set (limit_one_by key ord rows)" using r by (force simp: limit_one_by_def)
  qed
qed

lemma group_min_iff:
  "(k, m) \<in> set (group_min key val rows) \<longleftrightarrow> (\<exists>r \<in> set rows. key r = k \<and> val r = m \<and> (\<forall>r' \<in> set rows. key r' = k \<longrightarrow> m \<le> val r'))"
proof
  assume "(k, m) \<in> set (group_min key val rows)"
  then have k: "k \<in> key ` set rows" and m: "m = Min (set (map val (filter (\<lambda>r. key r = k) rows)))"
    by (auto simp: group_min_def)
  let ?S = "set (map val (filter (\<lambda>r. key r = k) rows))"
  have S: "finite ?S" "?S \<noteq> {}" using k by auto
  have "m \<in> ?S" unfolding m by (rule Min_in [OF S])
  moreover have "\<forall>r' \<in> set rows. key r' = k \<longrightarrow> m \<le> val r'" unfolding m using S(1) by (auto intro: Min_le)
  ultimately show "\<exists>r \<in> set rows. key r = k \<and> val r = m \<and> (\<forall>r' \<in> set rows. key r' = k \<longrightarrow> m \<le> val r')" by auto
next
  assume "\<exists>r \<in> set rows. key r = k \<and> val r = m \<and> (\<forall>r' \<in> set rows. key r' = k \<longrightarrow> m \<le> val r')"
  then obtain r where r: "r \<in> set rows" "key r = k" "val r = m" "\<forall>r' \<in> set rows. key r' = k \<longrightarrow> m \<le> val r'" by blast
  then have "Min (set (map val (filter (\<lambda>r. key r = k) rows))) = m" by (intro Min_eqI) auto
  then show "(k, m) \<in> set (group_min key val rows)" using r(1,2) by (force simp: group_min_def)
qed

lemma group_min_keys: "fst ` set (group_min key val rows) = key ` set rows" "distinct (map fst (group_min key val rows))"
  by (auto simp: group_min_def image_image o_def)

text \<open>A key within a bound at some row is one whose minimum is.\<close>

lemma group_min_within:
  "(\<exists>m \<le> b. (k, m) \<in> set (group_min key val rows)) \<longleftrightarrow> (\<exists>r \<in> set rows. key r = k \<and> val r \<le> b)"
proof
  assume "\<exists>m \<le> b. (k, m) \<in> set (group_min key val rows)"
  then show "\<exists>r \<in> set rows. key r = k \<and> val r \<le> b" by (auto simp: group_min_iff)
next
  assume "\<exists>r \<in> set rows. key r = k \<and> val r \<le> b"
  then obtain r where r: "r \<in> set rows" "key r = k" "val r \<le> b" by blast
  then obtain m where m: "(k, m) \<in> set (group_min key val rows)" using group_min_keys(1) [of key val rows] by (metis (no_types, lifting) imageE imageI prod.collapse)
  then have "m \<le> val r" using r by (auto simp: group_min_iff)
  then show "\<exists>m \<le> b. (k, m) \<in> set (group_min key val rows)" using m r(3) by (auto intro: order_trans)
qed

section \<open>The rows of a stage\<close>

definition stage_member :: "(string \<Rightarrow> bool) \<Rightarrow> string list \<Rightarrow> u64 \<Rightarrow> index_row \<Rightarrow> bool" where
  "stage_member cand kinds C r \<longleftrightarrow> ix_kind r \<in> set kinds \<and> ix_checkpoint r \<le> C \<and> cand (ix_object r)"

definition selected :: "sui_tables \<Rightarrow> (string \<Rightarrow> bool) \<Rightarrow> string list \<Rightarrow> u64 \<Rightarrow> string \<Rightarrow> bool" where
  "selected db cand kinds C sid \<longleftrightarrow> (\<exists>r \<in> set (tb_index db). stage_member cand kinds C r \<and> ix_state r = sid
     \<and> (\<forall>r' \<in> set (tb_index db). stage_member cand kinds C r' \<and> ix_object r' = ix_object r \<longrightarrow> ix_state r' \<le> sid))"

definition stage_rows :: "sui_tables \<Rightarrow> (string \<Rightarrow> bool) \<Rightarrow> string list \<Rightarrow> u64 \<Rightarrow> u64 \<Rightarrow> suiSQLObject set" where
  "stage_rows db cand kinds C M = {ob \<in> set (tb_states db). selected db cand kinds C (ob_id ob) \<and> mat_of ob \<le> M
     \<and> (\<forall>ob' \<in> set (tb_states db). ob_id ob' = ob_id ob \<and> mat_of ob' \<le> M \<longrightarrow> mat_of ob' \<le> mat_of ob)}"

lemma latest_ids_set: "set (latest_ids db cand kinds C) = {sid. selected db cand kinds C sid}"
proof -
  let ?rows = "filter (\<lambda>r. ix_kind r \<in> set kinds \<and> ix_checkpoint r \<le> C \<and> cand (ix_object r)) (tb_index db)"
  have rows: "r \<in> set ?rows \<longleftrightarrow> r \<in> set (tb_index db) \<and> stage_member cand kinds C r" for r
    by (auto simp: stage_member_def)
  have Max: "Max (set (map ix_state (filter (\<lambda>r. ix_object r = oid) ?rows))) = sid
      \<longleftrightarrow> (\<exists>r \<in> set ?rows. ix_object r = oid \<and> ix_state r = sid \<and> (\<forall>r' \<in> set ?rows. ix_object r' = oid \<longrightarrow> ix_state r' \<le> sid))"
    if "oid \<in> ix_object ` set ?rows" for oid sid
  proof -
    let ?S = "set (map ix_state (filter (\<lambda>r. ix_object r = oid) ?rows))"
    have S: "finite ?S" "?S \<noteq> {}" using that by auto
    have "Max ?S = sid \<longleftrightarrow> sid \<in> ?S \<and> (\<forall>s \<in> ?S. s \<le> sid)" by (rule Max_eq_iff [OF S])
    then show ?thesis by auto
  qed
  show ?thesis
  proof (intro set_eqI iffI)
    fix sid assume "sid \<in> set (latest_ids db cand kinds C)"
    then obtain oid where "oid \<in> ix_object ` set ?rows" "Max (set (map ix_state (filter (\<lambda>r. ix_object r = oid) ?rows))) = sid"
      unfolding latest_ids_def Let_def by auto
    with Max [of oid sid] obtain r where r: "r \<in> set ?rows" "ix_object r = oid" "ix_state r = sid"
        "\<forall>r' \<in> set ?rows. ix_object r' = oid \<longrightarrow> ix_state r' \<le> sid" by blast
    show "sid \<in> {sid. selected db cand kinds C sid}"
      unfolding selected_def mem_Collect_eq
    proof (intro bexI [of _ r] conjI ballI impI)
      fix r' assume "r' \<in> set (tb_index db)" "stage_member cand kinds C r' \<and> ix_object r' = ix_object r"
      then show "ix_state r' \<le> sid" using r(2,4) rows [of r'] by simp
    qed (use r rows [of r] in simp_all)
  next
    fix sid assume "sid \<in> {sid. selected db cand kinds C sid}"
    then obtain r where r': "r \<in> set (tb_index db)" "stage_member cand kinds C r" "ix_state r = sid"
        "\<forall>r' \<in> set (tb_index db). stage_member cand kinds C r' \<and> ix_object r' = ix_object r \<longrightarrow> ix_state r' \<le> sid"
      unfolding selected_def mem_Collect_eq by (elim bexE conjE)
    then have r: "r \<in> set ?rows" "ix_state r = sid" "\<forall>r' \<in> set ?rows. ix_object r' = ix_object r \<longrightarrow> ix_state r' \<le> sid"
      using rows by simp_all
    then have "Max (set (map ix_state (filter (\<lambda>s. ix_object s = ix_object r) ?rows))) = sid" using Max [of "ix_object r" sid] by blast
    then show "sid \<in> set (latest_ids db cand kinds C)" unfolding latest_ids_def Let_def using r(1) by force
  qed
qed

lemma selected_object:
  assumes "tables_ok db" "selected db cand kinds C sid" "selected db cand kinds C sid'"
    and "ob \<in> set (tb_states db)" "ob_id ob = sid" "ob' \<in> set (tb_states db)" "ob_id ob' = sid'" "ob_object ob = ob_object ob'"
  shows "sid = sid'"
  using assms(2,3,8) tables_okD(5) [OF assms(1) _ assms(4)] tables_okD(5) [OF assms(1) _ assms(6)] assms(5,7)
  unfolding selected_def by (metis order_antisym)

lemma fetch_rows_set:
  assumes "tables_ok db"
  shows "set (fetch_rows db ids M) = {ob \<in> set (tb_states db). ob_id ob \<in> set ids \<and> mat_of ob \<le> M
    \<and> (\<forall>ob' \<in> set (tb_states db). ob_id ob' \<in> set ids \<and> mat_of ob' \<le> M \<and> ob_object ob' = ob_object ob
         \<longrightarrow> (ob_id ob', mat_of ob') \<le> (ob_id ob, mat_of ob))}"
  unfolding fetch_rows_def
  by (subst limit_one_by_set) (auto intro: tables_okD(3) [OF assms])

lemma fetch_stage:
  assumes "tables_ok db"
  shows "set (fetch_rows db (latest_ids db cand kinds C) M) = stage_rows db cand kinds C M"
proof (intro set_eqI iffI)
  fix ob assume "ob \<in> set (fetch_rows db (latest_ids db cand kinds C) M)"
  then have ob: "ob \<in> set (tb_states db)" "selected db cand kinds C (ob_id ob)" "mat_of ob \<le> M"
    and best: "\<forall>ob'\<in>set (tb_states db). selected db cand kinds C (ob_id ob') \<and> mat_of ob' \<le> M \<and> ob_object ob' = ob_object ob
       \<longrightarrow> (ob_id ob', mat_of ob') \<le> (ob_id ob, mat_of ob)"
    unfolding fetch_rows_set [OF assms] latest_ids_set by auto
  from ob(2) obtain r where r: "r \<in> set (tb_index db)" "ix_state r = ob_id ob" by (auto simp: selected_def)
  have "mat_of ob' \<le> mat_of ob" if "ob' \<in> set (tb_states db)" "ob_id ob' = ob_id ob" "mat_of ob' \<le> M" for ob'
  proof -
    have "ob_object ob' = ob_object ob" using r tables_okD(5) [OF assms r(1)] ob(1) that(1,2) by metis
    then show ?thesis using best ob(2) that by (auto simp: less_eq_prod_def)
  qed
  then show "ob \<in> stage_rows db cand kinds C M" using ob by (auto simp: stage_rows_def)
next
  fix ob assume "ob \<in> stage_rows db cand kinds C M"
  then have ob: "ob \<in> set (tb_states db)" "selected db cand kinds C (ob_id ob)" "mat_of ob \<le> M"
    and best: "\<forall>ob'\<in>set (tb_states db). ob_id ob' = ob_id ob \<and> mat_of ob' \<le> M \<longrightarrow> mat_of ob' \<le> mat_of ob"
    by (auto simp: stage_rows_def)
  have "(ob_id ob', mat_of ob') \<le> (ob_id ob, mat_of ob)"
    if "ob' \<in> set (tb_states db)" "selected db cand kinds C (ob_id ob')" "mat_of ob' \<le> M" "ob_object ob' = ob_object ob" for ob'
  proof -
    have "ob_id ob' = ob_id ob" by (rule selected_object [OF assms that(2) ob(2) that(1) refl ob(1) refl that(4)])
    then show ?thesis using best that by (simp add: less_eq_prod_def)
  qed
  then show "ob \<in> set (fetch_rows db (latest_ids db cand kinds C) M)"
    unfolding fetch_rows_set [OF assms] latest_ids_set using ob by auto
qed

end
