(* ===== verification/SuiView.thy ===== *)
theory SuiView
  imports SuiSelect
begin

text \<open>
  A range read's selection at one of its samples is the single statement's: the versions, objects and
  candidates of the range statement hold enough for every sample, and \<open>suiSQLRangeView.sample\<close> selects
  from them the rows \<open>portfolioSQL\<close> selects.
\<close>

section \<open>Versions of a range\<close>

text \<open>Two checkpoints of one bucket lie on the same side of every sample.\<close>

lemma bucket_side:
  assumes "sorted cps" "C \<in> set cps" "bucket_of cps a = bucket_of cps b"
  shows "a \<le> C \<longleftrightarrow> b \<le> C"
proof -
  have side: "a \<le> C \<longleftrightarrow> (\<exists>s. bucket_of cps a = Some s \<and> s \<le> C)" for a
  proof
    assume a: "a \<le> C"
    then obtain s where s: "bucket_of cps a = Some s"
      using assms(2) by (cases "bucket_of cps a") (auto simp: bucket_of_def find_None_iff)
    then obtain i where i: "i < length cps" "s = cps ! i" "\<forall>j < i. \<not> a \<le> cps ! j"
      by (auto simp: bucket_of_def find_Some_iff)
    obtain j where j: "j < length cps" "C = cps ! j" using assms(2) by (auto simp: in_set_conv_nth)
    then have "i \<le> j" using i(3) a by (meson not_le)
    then show "\<exists>s. bucket_of cps a = Some s \<and> s \<le> C" using s i j sorted_nth_mono [OF assms(1)] by auto
  next
    assume "\<exists>s. bucket_of cps a = Some s \<and> s \<le> C"
    then show "a \<le> C" by (auto simp: bucket_of_def find_Some_iff)
  qed
  show ?thesis unfolding side [of a] side [of b] assms(3) ..
qed

lemma stage_versions_sound:
  assumes "ve \<in> set (stage_versions db cps final cand kinds)"
  shows "\<exists>r \<in> set (tb_index db). stage_member cand kinds final r \<and> ve_object ve = ix_object r \<and> ve_kind ve = ix_kind r
    \<and> ve_state ve = ix_state r \<and> ve_checkpoint ve = show_u64 (ix_checkpoint r)
    \<and> (\<forall>r' \<in> set (tb_index db). stage_member cand kinds final r' \<and> ix_object r' = ix_object r \<and> ix_kind r' = ix_kind r
        \<and> bucket_of cps (ix_checkpoint r') = bucket_of cps (ix_checkpoint r) \<longrightarrow> ix_state r' \<le> ix_state r)"
proof -
  define rows where "rows = filter (\<lambda>r. ix_kind r \<in> set kinds \<and> ix_checkpoint r \<le> final \<and> cand (ix_object r)) (tb_index db)"
  define key where "key = (\<lambda>r::index_row. (ix_object r, ix_kind r, bucket_of cps (ix_checkpoint r)))"
  from assms obtain k where k: "k \<in> key ` set rows"
    and ve: "ve = (let grp = filter (\<lambda>r. key r = k) rows; sid = Max (set (map ix_state grp)) in
           \<lparr>ve_object = fst k, ve_kind = fst (snd k), ve_state = sid,
            ve_checkpoint = show_u64 (ix_checkpoint (hd (filter (\<lambda>r. ix_state r = sid) grp)))\<rparr>)"
    unfolding stage_versions_def Let_def rows_def [symmetric] key_def [symmetric] by auto
  define grp where "grp = filter (\<lambda>r. key r = k) rows"
  define sid where "sid = Max (set (map ix_state grp))"
  define best where "best = hd (filter (\<lambda>r. ix_state r = sid) grp)"
  have S: "finite (set (map ix_state grp))" "set (map ix_state grp) \<noteq> {}" using k by (auto simp: grp_def)
  have "sid \<in> set (map ix_state grp)" unfolding sid_def by (rule Max_in [OF S])
  then have "filter (\<lambda>r. ix_state r = sid) grp \<noteq> []" by (auto simp: filter_empty_conv)
  then have best: "best \<in> set (filter (\<lambda>r. ix_state r = sid) grp)" unfolding best_def by (rule hd_in_set)
  then have state: "ix_state best = sid" "key best = k" "best \<in> set rows" by (simp_all add: grp_def)
  have max: "ix_state r' \<le> sid" if "r' \<in> set grp" for r' unfolding sid_def using that S(1) by (intro Max_ge) auto
  have "ve = \<lparr>ve_object = ix_object best, ve_kind = ix_kind best, ve_state = ix_state best, ve_checkpoint = show_u64 (ix_checkpoint best)\<rparr>"
  proof -
    have "ve = \<lparr>ve_object = fst k, ve_kind = fst (snd k), ve_state = sid, ve_checkpoint = show_u64 (ix_checkpoint best)\<rparr>"
      unfolding ve Let_def grp_def [symmetric] sid_def [symmetric] best_def [symmetric] ..
    then show ?thesis using state(1) unfolding state(2) [symmetric] by (simp add: key_def)
  qed
  moreover have "ix_state r' \<le> ix_state best" if "r' \<in> set (tb_index db)" "stage_member cand kinds final r'" "ix_object r' = ix_object best"
      "ix_kind r' = ix_kind best" "bucket_of cps (ix_checkpoint r') = bucket_of cps (ix_checkpoint best)" for r'
  proof -
    have "r' \<in> set grp" using that state(2) by (auto simp: grp_def rows_def key_def stage_member_def)
    then show ?thesis using max state(1) by simp
  qed
  ultimately show ?thesis using state(3) by (intro bexI [of _ best]) (auto simp: rows_def stage_member_def)
qed

lemma stage_versions_complete:
  assumes "r \<in> set (tb_index db)" "stage_member cand kinds final r"
  shows "\<exists>ve \<in> set (stage_versions db cps final cand kinds). ve_object ve = ix_object r \<and> ve_kind ve = ix_kind r
    \<and> (\<exists>c. ve_checkpoint ve = show_u64 c \<and> bucket_of cps c = bucket_of cps (ix_checkpoint r))
    \<and> ix_state r \<le> ve_state ve"
proof -
  define rows where "rows = filter (\<lambda>r. ix_kind r \<in> set kinds \<and> ix_checkpoint r \<le> final \<and> cand (ix_object r)) (tb_index db)"
  define key where "key = (\<lambda>r::index_row. (ix_object r, ix_kind r, bucket_of cps (ix_checkpoint r)))"
  define grp where "grp = filter (\<lambda>s. key s = key r) rows"
  define sid where "sid = Max (set (map ix_state grp))"
  define best where "best = hd (filter (\<lambda>s. ix_state s = sid) grp)"
  define ve where "ve = \<lparr>ve_object = ix_object r, ve_kind = ix_kind r, ve_state = sid, ve_checkpoint = show_u64 (ix_checkpoint best)\<rparr>"
  have r: "r \<in> set rows" using assms by (simp add: stage_member_def rows_def)
  then have S: "finite (set (map ix_state grp))" "set (map ix_state grp) \<noteq> {}" "ix_state r \<in> set (map ix_state grp)"
    by (auto simp: grp_def)
  have "sid \<in> set (map ix_state grp)" unfolding sid_def by (rule Max_in [OF S(1,2)])
  then have "filter (\<lambda>s. ix_state s = sid) grp \<noteq> []" by (auto simp: filter_empty_conv)
  then have "best \<in> set grp" unfolding best_def using hd_in_set by fastforce
  then have bucket: "bucket_of cps (ix_checkpoint best) = bucket_of cps (ix_checkpoint r)" by (simp add: grp_def key_def)
  have top: "ix_state r \<le> sid" unfolding sid_def using S by (intro Max_ge)
  have "ve = (let grp = filter (\<lambda>s. key s = key r) rows; sid = Max (set (map ix_state grp)) in
           \<lparr>ve_object = fst (key r), ve_kind = fst (snd (key r)), ve_state = sid,
            ve_checkpoint = show_u64 (ix_checkpoint (hd (filter (\<lambda>r. ix_state r = sid) grp)))\<rparr>)"
    by (simp add: ve_def Let_def grp_def sid_def best_def key_def)
  then have "ve \<in> set (stage_versions db cps final cand kinds)"
    unfolding stage_versions_def Let_def rows_def [symmetric] key_def [symmetric] using r by auto
  moreover have "\<exists>c. ve_checkpoint ve = show_u64 c \<and> bucket_of cps c = bucket_of cps (ix_checkpoint r)"
    using bucket by (intro exI [of _ "ix_checkpoint best"]) (simp add: ve_def)
  ultimately show ?thesis using top by (intro bexI [of _ ve]) (simp_all add: ve_def)
qed

text \<open>What a stage selects at a sample is among the versions of the range's stage of more candidates.\<close>

lemma selected_in_versions:
  assumes "tables_ok db" "sorted cps" "C \<in> set cps" "C \<le> final" "\<And>oid. cand oid \<Longrightarrow> cand' oid"
    and "selected db cand kinds C sid"
  shows "sid \<in> set (map ve_state (stage_versions db cps final cand' kinds))"
proof -
  from assms(6) obtain r where r: "r \<in> set (tb_index db)" "stage_member cand kinds C r" "ix_state r = sid"
    and top: "\<And>r'. r' \<in> set (tb_index db) \<Longrightarrow> stage_member cand kinds C r' \<Longrightarrow> ix_object r' = ix_object r \<Longrightarrow> ix_state r' \<le> sid"
    by (auto simp: selected_def)
  have "stage_member cand' kinds final r" using r(2) assms(4,5) by (auto simp: stage_member_def)
  then obtain ve c where ve: "ve \<in> set (stage_versions db cps final cand' kinds)" "ve_object ve = ix_object r" "ve_kind ve = ix_kind r"
      "ve_checkpoint ve = show_u64 c" "bucket_of cps c = bucket_of cps (ix_checkpoint r)"
      "sid \<le> ve_state ve"
    using stage_versions_complete [OF r(1), of cand' kinds final cps] r(3) by blast
  from stage_versions_sound [OF ve(1)] obtain s where s: "s \<in> set (tb_index db)" "stage_member cand' kinds final s"
      "ve_object ve = ix_object s" "ve_kind ve = ix_kind s" "ve_state ve = ix_state s" "ve_checkpoint ve = show_u64 (ix_checkpoint s)"
    by blast
  have "ix_checkpoint s = c" using ve(4) s(6) col_show by metis
  then have "ix_checkpoint s \<le> C" using bucket_side [OF assms(2,3) ve(5)] r(2) by (simp add: stage_member_def)
  then have "stage_member cand kinds C s" using r(2) s(2,3,4) ve(2,3) by (simp add: stage_member_def)
  then have "ix_state s \<le> sid" using top s(1,3) ve(2) by simp
  then have "ve_state ve = sid" using ve(6) s(5) by simp
  then show ?thesis using ve(1) by auto
qed

section \<open>The view's selection\<close>

text \<open>
  A view over a database: its versions are index rows and hold what a stage selects, its states are
  the visible rows of its versions.
\<close>

definition view_over :: "sui_tables \<Rightarrow> u64 \<Rightarrow> range_view \<Rightarrow> bool" where
  "view_over db M v \<longleftrightarrow>
     (\<forall>ve \<in> set (rv_versions v). \<exists>r \<in> set (tb_index db). ve_object ve = ix_object r \<and> ve_kind ve = ix_kind r
        \<and> ve_state ve = ix_state r \<and> ve_checkpoint ve = show_u64 (ix_checkpoint r))
     \<and> set (rv_states v) = {ob \<in> set (tb_states db). ob_id ob \<in> set (map ve_state (rv_versions v)) \<and> mat_of ob \<le> M}"

lemma Max_insert_max: "finite S \<Longrightarrow> Max (insert (max b c) S) = Max (insert b (insert c S))"
  by (cases "S = {}") (simp_all add: max.assoc)

lemma foldl_best:
  fixes f :: "'a \<Rightarrow> string"
  shows "foldl (\<lambda>best x. if P x \<and> f x > best then f x else best) b xs = Max (insert b (f ` {x \<in> set xs. P x}))"
proof (induction xs arbitrary: b)
  case (Cons x xs)
  let ?S = "f ` {y \<in> set xs. P y}"
  show ?case
  proof (cases "P x")
    case True
    have "f ` {y \<in> set (x # xs). P y} = insert (f x) ?S" using True by auto
    moreover have "Max (insert (max b (f x)) ?S) = Max (insert b (insert (f x) ?S))"
      by (rule Max_insert_max) simp
    moreover have "(if P x \<and> b < f x then f x else b) = max b (f x)" using True by (auto simp: max_def)
    ultimately show ?thesis using Cons [of "max b (f x)"] by simp
  next
    case False
    then have "f ` {y \<in> set (x # xs). P y} = ?S" by auto
    then show ?thesis using Cons [of b] False by simp
  qed
qed simp

lemma view_best_iff:
  assumes "tables_ok db" "view_over db M' v" "cand oid"
    and complete: "\<And>sid. selected db cand kinds C sid \<Longrightarrow> sid \<in> set (map ve_state (rv_versions v))"
    and "sid \<noteq> []"
  shows "view_best v kinds C oid = sid \<longleftrightarrow>
    selected db cand kinds C sid \<and> (\<exists>r \<in> set (tb_index db). ix_state r = sid \<and> ix_object r = oid)"
proof -
  let ?V = "{ve \<in> set (rv_versions v). ve_object ve = oid \<and> col (ve_checkpoint ve) \<le> C \<and> ve_kind ve \<in> set kinds}"
  have best: "view_best v kinds C oid = Max (insert [] (ve_state ` ?V))"
    unfolding view_best_def using foldl_best [of "\<lambda>ve. col (ve_checkpoint ve) \<le> C \<and> ve_kind ve \<in> set kinds" ve_state "[]"
        "filter (\<lambda>ve. ve_object ve = oid) (rv_versions v)"] by (simp add: conj_assoc conj_commute conj_left_commute)
  have row: "\<exists>r \<in> set (tb_index db). ve_object ve = ix_object r \<and> ve_kind ve = ix_kind r
      \<and> ve_state ve = ix_state r \<and> ve_checkpoint ve = show_u64 (ix_checkpoint r)" if "ve \<in> set (rv_versions v)" for ve
    using assms(2) that by (auto simp: view_over_def)
  have fin: "finite (insert [] (ve_state ` ?V))" by simp
  let ?I = "{r \<in> set (tb_index db). stage_member cand kinds C r \<and> ix_object r = oid}"
  have sub: "ve_state ` ?V \<subseteq> ix_state ` ?I"
  proof clarify
    fix ve assume ve: "ve \<in> set (rv_versions v)" "col (ve_checkpoint ve) \<le> C" "ve_kind ve \<in> set kinds" "oid = ve_object ve"
    from row [OF ve(1)] obtain r where "r \<in> set (tb_index db)" "ve_object ve = ix_object r" "ve_kind ve = ix_kind r"
        "ve_state ve = ix_state r" "ve_checkpoint ve = show_u64 (ix_checkpoint r)" by blast
    then show "ve_state ve \<in> ix_state ` {r \<in> set (tb_index db). stage_member cand kinds C r \<and> ix_object r = ve_object ve}"
      using ve assms(3) by (intro image_eqI [of _ _ r]) (auto simp: stage_member_def)
  qed
  have top: "Max (ix_state ` ?I) \<in> ve_state ` ?V" if "?I \<noteq> {}"
  proof -
    let ?m = "Max (ix_state ` ?I)"
    have finI: "finite (ix_state ` ?I)" by simp
    then have "?m \<in> ix_state ` ?I" using that by (intro Max_in) auto
    then obtain r where r: "r \<in> ?I" "ix_state r = ?m" by auto
    have "selected db cand kinds C ?m"
      unfolding selected_def using r finI by (intro bexI [of _ r]) (auto intro: Max_ge)
    then have "?m \<in> set (map ve_state (rv_versions v))" by (rule complete)
    then obtain ve where ve: "ve \<in> set (rv_versions v)" "ve_state ve = ?m" unfolding set_map by (elim imageE) simp
    from row [OF ve(1)] obtain s where s: "s \<in> set (tb_index db)" "ve_object ve = ix_object s" "ve_kind ve = ix_kind s"
        "ve_state ve = ix_state s" "ve_checkpoint ve = show_u64 (ix_checkpoint s)" by blast
    have rI: "r \<in> set (tb_index db)" "stage_member cand kinds C r" "ix_object r = oid" using r(1) by simp_all
    have sr: "ix_state s = ix_state r" using r(2) ve(2) s(4) by simp
    have same: "ix_object s = oid" "ix_checkpoint s = ix_checkpoint r" "ix_kind s = ix_kind r"
      using tables_okD(6-8) [OF assms(1) s(1) rI(1) sr] rI(3) by simp_all
    then have "ve \<in> ?V" using ve(1) s(2,3,5) rI(2) by (simp add: stage_member_def)
    then show ?thesis using ve(2) by (intro image_eqI [of _ _ ve]) simp_all
  qed
  show ?thesis
  proof
    assume view: "view_best v kinds C oid = sid"
    have "sid \<in> insert [] (ve_state ` ?V)" unfolding view [symmetric] best by (rule Max_in [OF fin]) simp
    then have "sid \<in> ve_state ` ?V" using assms(5) by simp
    then obtain r where r: "r \<in> ?I" "ix_state r = sid" using sub by auto
    then have "?I \<noteq> {}" by blast
    have "ix_state r' \<le> sid" if "r' \<in> ?I" for r'
    proof -
      have "ix_state r' \<le> Max (ix_state ` ?I)" using that by (intro Max_ge) auto
      also have "\<dots> \<le> sid" unfolding view [symmetric] best using top [OF \<open>?I \<noteq> {}\<close>] by (intro Max_ge [OF fin]) simp
      finally show ?thesis .
    qed
    then have "selected db cand kinds C sid" unfolding selected_def using r by (intro bexI [of _ r]) auto
    then show "selected db cand kinds C sid \<and> (\<exists>r \<in> set (tb_index db). ix_state r = sid \<and> ix_object r = oid)" using r by auto
  next
    assume "selected db cand kinds C sid \<and> (\<exists>r \<in> set (tb_index db). ix_state r = sid \<and> ix_object r = oid)"
    then obtain r s where r: "r \<in> set (tb_index db)" "ix_state r = sid" "ix_object r = oid"
      and s: "s \<in> set (tb_index db)" "stage_member cand kinds C s" "ix_state s = sid"
      and top': "\<forall>r' \<in> set (tb_index db). stage_member cand kinds C r' \<and> ix_object r' = ix_object s \<longrightarrow> ix_state r' \<le> sid"
      by (auto simp: selected_def)
    have oid: "ix_object s = oid" using tables_okD(7) [OF assms(1) s(1) r(1)] r s by simp
    then have I: "s \<in> ?I" using s by simp
    then have "?I \<noteq> {}" by blast
    have "Max (ix_state ` ?I) = sid" using I top' s(3) oid by (intro Max_eqI) auto
    then have mem: "sid \<in> ve_state ` ?V" using top [OF \<open>?I \<noteq> {}\<close>] by simp
    have "x \<le> sid" if x: "x \<in> insert [] (ve_state ` ?V)" for x
    proof (cases "x = []")
      case False
      then have "x \<in> ix_state ` ?I" using x sub by blast
      then obtain r' where "r' \<in> ?I" "x = ix_state r'" by blast
      then show ?thesis using top' oid by simp
    qed simp
    then show "view_best v kinds C oid = sid" unfolding best using mem by (intro Max_eqI [OF fin]) auto
  qed
qed

text \<open>The newest visible variant of a state, among rows told apart by their materialisation.\<close>

definition visible_among :: "u64 \<Rightarrow> suiSQLObject set \<Rightarrow> (suiSQLObject \<times> u64) option \<Rightarrow> bool" where
  "visible_among M obs best \<longleftrightarrow> (best = None \<longrightarrow> (\<forall>ob \<in> obs. M < mat_of ob))
     \<and> (\<forall>row m. best = Some (row, m) \<longrightarrow> row \<in> obs \<and> m = mat_of row \<and> m \<le> M \<and> (\<forall>ob \<in> obs. mat_of ob \<le> M \<longrightarrow> mat_of ob \<le> m))"

lemma keep_visible_step:
  assumes "visible_among M obs best" "ok_uint (ob_materialized x)"
  shows "visible_among M (insert x obs) (keep_visible M best x)"
proof -
  have "historyUint (ob_materialized x) = Inr (mat_of x)"
    using assms(2) by (auto simp: ok_uint_def mat_of_def col_def split: sum.splits)
  then have step: "keep_visible M best x = (if mat_of x > M then best else case best of None \<Rightarrow> Some (x, mat_of x)
      | Some (ob, m) \<Rightarrow> if mat_of x > m then Some (x, mat_of x) else best)"
    by (simp add: keep_visible_def)
  consider "mat_of x > M" | "mat_of x \<le> M" "best = None" | ob m where "mat_of x \<le> M" "best = Some (ob, m)" "mat_of x > m"
    | ob m where "mat_of x \<le> M" "best = Some (ob, m)" "mat_of x \<le> m"
    by (cases best; cases "mat_of x > M"; cases "mat_of x > snd (the best)") (auto simp: not_less)
  then show ?thesis
  proof cases
    case 3
    then have "\<forall>ob \<in> obs. mat_of ob \<le> M \<longrightarrow> mat_of ob \<le> mat_of x"
      using assms(1) by (auto simp: visible_among_def intro: order_trans [OF _ less_imp_le])
    moreover have "keep_visible M best x = Some (x, mat_of x)" unfolding step using 3 by auto
    ultimately show ?thesis using 3(1) by (simp add: visible_among_def)
  next
    case 1
    then have "keep_visible M best x = best" unfolding step by simp
    then show ?thesis using assms(1) 1 by (auto simp: visible_among_def)
  next
    case 2
    then have "keep_visible M best x = Some (x, mat_of x)" unfolding step by simp
    then show ?thesis using assms(1) 2 by (auto simp: visible_among_def)
  next
    case 4
    then have "keep_visible M best x = best" unfolding step by auto
    then show ?thesis using assms(1) 4 by (auto simp: visible_among_def)
  qed
qed

lemma keep_visible_fold:
  "visible_among M obs best \<Longrightarrow> (\<And>ob. ob \<in> set xs \<Longrightarrow> ok_uint (ob_materialized ob))
     \<Longrightarrow> visible_among M (obs \<union> set xs) (foldl (keep_visible M) best xs)"
proof (induction xs arbitrary: obs best)
  case (Cons x xs)
  have "visible_among M (insert x obs \<union> set xs) (foldl (keep_visible M) (keep_visible M best x) xs)"
    using Cons.prems by (intro Cons.IH keep_visible_step) auto
  then show ?case by (simp add: insert_commute)
qed simp

lemma view_visible_iff:
  assumes "tables_ok db" "view_over db M' v" "M \<le> M'" "sid \<in> set (map ve_state (rv_versions v))"
  shows "view_visible v sid M = Some row \<longleftrightarrow> row \<in> set (tb_states db) \<and> ob_id row = sid \<and> mat_of row \<le> M
    \<and> (\<forall>ob \<in> set (tb_states db). ob_id ob = sid \<and> mat_of ob \<le> M \<longrightarrow> mat_of ob \<le> mat_of row)"
proof -
  let ?xs = "filter (\<lambda>ob. ob_id ob = sid) (rv_states v)"
  have xs: "set ?xs = {ob \<in> set (tb_states db). ob_id ob = sid \<and> mat_of ob \<le> M'}"
    using assms(2,4) by (auto simp: view_over_def)
  have "visible_among M ({} \<union> set ?xs) (foldl (keep_visible M) None ?xs)"
    using tables_okD(2) [OF assms(1)] by (intro keep_visible_fold) (auto simp: visible_among_def xs simp del: set_filter)
  then have ok: "visible_among M (set ?xs) (foldl (keep_visible M) None ?xs)" by simp
  have in_xs: "ob \<in> set ?xs" if "ob \<in> set (tb_states db)" "ob_id ob = sid" "mat_of ob \<le> M" for ob
    using that assms(3) xs by auto
  show ?thesis
  proof
    assume "view_visible v sid M = Some row"
    then obtain m where "foldl (keep_visible M) None ?xs = Some (row, m)" by (auto simp: view_visible_def)
    then have "m = mat_of row" "m \<le> M" "row \<in> set ?xs" "\<forall>ob \<in> set ?xs. mat_of ob \<le> M \<longrightarrow> mat_of ob \<le> m"
      using ok by (simp_all only: visible_among_def) blast+
    then show "row \<in> set (tb_states db) \<and> ob_id row = sid \<and> mat_of row \<le> M
        \<and> (\<forall>ob \<in> set (tb_states db). ob_id ob = sid \<and> mat_of ob \<le> M \<longrightarrow> mat_of ob \<le> mat_of row)"
      using xs in_xs by auto
  next
    assume row: "row \<in> set (tb_states db) \<and> ob_id row = sid \<and> mat_of row \<le> M
        \<and> (\<forall>ob \<in> set (tb_states db). ob_id ob = sid \<and> mat_of ob \<le> M \<longrightarrow> mat_of ob \<le> mat_of row)"
    then have "row \<in> set ?xs" by (intro in_xs) auto
    then have "foldl (keep_visible M) None ?xs \<noteq> None" using ok row unfolding visible_among_def by (metis not_le)
    then obtain b m where b: "foldl (keep_visible M) None ?xs = Some (b, m)" by auto
    then have bm: "m = mat_of b" "m \<le> M" "b \<in> set ?xs" "mat_of row \<le> m"
      using ok \<open>row \<in> set ?xs\<close> row unfolding visible_among_def by blast+
    then have "b \<in> set (tb_states db)" "ob_id b = sid" unfolding xs by simp_all
    moreover from this have "mat_of b \<le> mat_of row" using row bm by simp
    then have "mat_of b = mat_of row" using bm by simp
    ultimately have "b = row" using tables_okD(3) [OF assms(1), of b row] row by simp
    then show "view_visible v sid M = Some row" using b by (simp add: view_visible_def)
  qed
qed

lemma selected_row: "selected db cand kinds C sid \<Longrightarrow>
    \<exists>r \<in> set (tb_index db). ix_state r = sid \<and> cand (ix_object r)"
  by (auto simp: selected_def stage_member_def)

lemma view_latest_rows:
  assumes "tables_ok db" "view_over db M' v" "M \<le> M'"
    and cand: "\<And>oid. cand oid \<longleftrightarrow> (case cands of None \<Rightarrow> True | Some cs \<Rightarrow> oid \<in> set cs)"
    and complete: "\<And>sid. selected db cand kinds C sid \<Longrightarrow> sid \<in> set (map ve_state (rv_versions v))"
  shows "set (view_latest v cands kinds C M) = (\<lambda>ob. (ob_object ob, ob)) ` stage_rows db cand kinds C M"
proof -
  have mem: "(oid, row) \<in> set (view_latest v cands kinds C M) \<longleftrightarrow> oid \<in> ve_object ` set (rv_versions v) \<and> cand oid
      \<and> view_best v kinds C oid \<noteq> [] \<and> view_visible v (view_best v kinds C oid) M = Some row" for oid row
    by (auto simp: view_latest_def Let_def cand split: option.splits)
  show ?thesis
  proof (intro set_eqI iffI)
    fix p assume p: "p \<in> set (view_latest v cands kinds C M)"
    obtain oid row where oid: "p = (oid, row)" by (cases p)
    let ?sid = "view_best v kinds C oid"
    have best: "cand oid" "?sid \<noteq> []" "view_visible v ?sid M = Some row" using p mem unfolding oid by simp_all
    have sel: "selected db cand kinds C ?sid" "\<exists>r \<in> set (tb_index db). ix_state r = ?sid \<and> ix_object r = oid"
      using view_best_iff [where oid = oid and cand = cand and kinds = kinds and C = C, OF assms(1,2) best(1) complete best(2)] by blast+
    have vis: "row \<in> set (tb_states db)" "ob_id row = ?sid" "mat_of row \<le> M"
        "\<forall>ob \<in> set (tb_states db). ob_id ob = ?sid \<and> mat_of ob \<le> M \<longrightarrow> mat_of ob \<le> mat_of row"
      using view_visible_iff [OF assms(1-3) complete [OF sel(1)], of row] best(3) by simp_all
    have "ob_object row = oid" using sel(2) tables_okD(5) [OF assms(1) _ vis(1)] vis(2) by auto
    moreover have "row \<in> stage_rows db cand kinds C M" using vis sel(1) by (simp add: stage_rows_def)
    ultimately show "p \<in> (\<lambda>ob. (ob_object ob, ob)) ` stage_rows db cand kinds C M" unfolding oid by auto
  next
    fix p assume "p \<in> (\<lambda>ob. (ob_object ob, ob)) ` stage_rows db cand kinds C M"
    then obtain ob where ob: "p = (ob_object ob, ob)" "ob \<in> set (tb_states db)" "selected db cand kinds C (ob_id ob)" "mat_of ob \<le> M"
        "\<forall>ob' \<in> set (tb_states db). ob_id ob' = ob_id ob \<and> mat_of ob' \<le> M \<longrightarrow> mat_of ob' \<le> mat_of ob"
      by (auto simp: stage_rows_def)
    from selected_row [OF ob(3)] obtain r where r: "r \<in> set (tb_index db)" "ix_state r = ob_id ob" "cand (ix_object r)" by blast
    have oid: "ob_object ob = ix_object r" using tables_okD(5) [OF assms(1) r(1) ob(2)] r(2) by simp
    have sid: "ob_id ob \<noteq> []" using tables_okD(4) [OF assms(1) r(1)] r(2) by simp
    have "view_best v kinds C (ob_object ob) = ob_id ob"
      using view_best_iff [where cand = cand and kinds = kinds and C = C, OF assms(1,2) r(3) complete sid] ob(3) r oid by auto
    moreover have "view_visible v (ob_id ob) M = Some ob"
      using view_visible_iff [OF assms(1-3) complete [OF ob(3)], of ob] ob by simp
    moreover have "ob_object ob \<in> ve_object ` set (rv_versions v)"
    proof -
      have "ob_id ob \<in> ve_state ` set (rv_versions v)" using complete [OF ob(3)] by simp
      then obtain ve where ve: "ve \<in> set (rv_versions v)" "ve_state ve = ob_id ob" by auto
      then obtain s where "s \<in> set (tb_index db)" "ve_object ve = ix_object s" "ve_state ve = ix_state s"
        using assms(2) unfolding view_over_def by blast
      then have "ve_object ve = ob_object ob" using tables_okD(7) [OF assms(1) _ r(1), of s] ve(2) r(2) oid by simp
      then show ?thesis using ve(1) by (metis image_eqI)
    qed
    ultimately show "p \<in> set (view_latest v cands kinds C M)" unfolding ob(1) mem using r(3) oid sid by simp
  qed
qed

section \<open>The view of a range statement\<close>

text \<open>The statement's rows are well formed, so the view accepts them and holds exactly them.\<close>

definition range_view_of :: "(string \<Rightarrow> string \<Rightarrow> string) \<Rightarrow> sui_tables \<Rightarrow> string \<Rightarrow> suiSQLKinds \<Rightarrow> sui_address
    \<Rightarrow> suiSQLSnapshot list \<Rightarrow> range_view" where
  "range_view_of json_string db protocol kinds owner samples =
     (let rows = range_rows json_string db protocol kinds owner samples;
          cps = sample_checkpoints samples; final = last_checkpoint samples; M = last_materialized samples in
      \<lparr>rv_counts = map (\<lambda>c. ((co_table c, co_checkpoint c), co_count c)) (rg_counts rows),
       rv_roots = root_firsts db kinds owner final,
       rv_principals = filter (\<lambda>c. ca_stage c = ''principal'') (rg_candidates rows),
       rv_children = filter (\<lambda>c. ca_stage c = ''child'') (rg_candidates rows),
       rv_versions = rg_versions rows, rv_states = rg_objects rows, rv_metadata = rg_metadata rows, rv_values = rg_values rows\<rparr>)"

lemma add_counts:
  "distinct (map fst counts @ map (\<lambda>c. (co_table c, co_checkpoint c)) cs) \<Longrightarrow>
     foldR add_count counts cs = Inr (counts @ map (\<lambda>c. ((co_table c, co_checkpoint c), co_count c)) cs)"
proof (induction cs arbitrary: counts)
  case (Cons c cs)
  then have "map_of counts (co_table c, co_checkpoint c) = None" by (auto simp: map_of_eq_None_iff)
  then have "add_count counts c = Inr (counts @ [((co_table c, co_checkpoint c), co_count c)])" by (simp add: add_count_def Let_def)
  then show ?case using Cons.IH [of "counts @ [((co_table c, co_checkpoint c), co_count c)]"] Cons.prems by simp
qed simp

lemma add_roots:
  "distinct (map fst (rv_roots v) @ map fst firsts) \<Longrightarrow>
     foldR add_candidate v (map (\<lambda>(oid, first). candidate_row ''root'' oid first) firsts) = Inr (v\<lparr>rv_roots := rv_roots v @ firsts\<rparr>)"
proof (induction firsts arbitrary: v)
  case (Cons f firsts)
  obtain oid first where f: "f = (oid, first)" by (cases f)
  with Cons.prems have "map_of (rv_roots v) oid = None" by (auto simp: map_of_eq_None_iff)
  then have "add_candidate v (candidate_row ''root'' oid first) = Inr (v\<lparr>rv_roots := rv_roots v @ [(oid, first)]\<rparr>)"
    by (simp add: add_candidate_def candidate_row_def)
  then show ?case using Cons.IH [of "v\<lparr>rv_roots := rv_roots v @ [(oid, first)]\<rparr>"] Cons.prems f by simp
qed simp

lemma add_others:
  "list_all (\<lambda>c. ok_uint (ca_first c) \<and> (ca_stage c = ''principal'' \<or> ca_stage c = ''child'')) cs \<Longrightarrow>
     foldR add_candidate v cs = Inr (v\<lparr>rv_principals := rv_principals v @ filter (\<lambda>c. ca_stage c = ''principal'') cs,
       rv_children := rv_children v @ filter (\<lambda>c. ca_stage c = ''child'') cs\<rparr>)"
proof (induction cs arbitrary: v)
  case (Cons c cs)
  then obtain first where "historyUint (ca_first c) = Inr first" by (cases "historyUint (ca_first c)") (auto simp: ok_uint_def)
  with Cons show ?case by (auto simp: add_candidate_def)
qed simp

lemma show_u64_inject: "show_u64 a = show_u64 b \<longleftrightarrow> a = b"
  by (metis col_show(1))

lemma keyed_counts:
  "distinct (map (\<lambda>c. (co_table c, co_checkpoint c))
     (map (\<lambda>b. \<lparr>co_table = t, co_checkpoint = show_u64 b, co_count = f b\<rparr>) (remdups bs)))"
  "c \<in> set (map (\<lambda>b. \<lparr>co_table = t, co_checkpoint = show_u64 b, co_count = f b\<rparr>) bs') \<Longrightarrow> co_table c = t"
  by (auto simp: comp_def distinct_map inj_on_def show_u64_inject)

lemma count_rows_keys:
  "distinct (map (\<lambda>c. (co_table c, co_checkpoint c)) (count_rows samples table kinds row rows))"
  unfolding count_rows_def Let_def by (rule keyed_counts)

lemma count_rows_table: "c \<in> set (count_rows samples table kinds row rows) \<Longrightarrow> co_table c = table"
  unfolding count_rows_def Let_def by (rule keyed_counts)

lemma range_versions_ok:
  assumes "tables_ok db"
  shows "\<forall>ve \<in> set (range_versions json_string db protocol kinds owner cps final M). \<exists>r \<in> set (tb_index db). ve_object ve = ix_object r
    \<and> ve_kind ve = ix_kind r \<and> ve_state ve = ix_state r \<and> ve_checkpoint ve = show_u64 (ix_checkpoint r)"
  using stage_versions_sound by (fastforce simp: range_versions_def range_lending_def range_topology_def Let_def split: if_splits)

lemma range_view_built:
  assumes "tables_ok db"
  shows "newSuiSQLRangeView (range_rows json_string db protocol kinds owner samples)
    = Inr (range_view_of json_string db protocol kinds owner samples)"
proof -
  let ?rows = "range_rows json_string db protocol kinds owner samples"
  let ?cps = "sample_checkpoints samples" and ?final = "last_checkpoint samples" and ?M = "last_materialized samples"
  let ?counts = "map (\<lambda>c. ((co_table c, co_checkpoint c), co_count c)) (rg_counts ?rows)"
  have "distinct (map (\<lambda>c. (co_table c, co_checkpoint c)) (rg_counts ?rows))"
    unfolding range_rows_def Let_def suiSQLRange.select_convs map_append distinct_append
    by (auto simp: count_rows_keys dest!: count_rows_table)
  then have counts: "foldR add_count [] (rg_counts ?rows) = Inr ?counts" using add_counts [of "[]"] by simp
  let ?v = "\<lparr>rv_counts = ?counts, rv_roots = [], rv_principals = [], rv_children = [],
         rv_versions = rg_versions ?rows, rv_states = rg_objects ?rows, rv_metadata = rg_metadata ?rows, rv_values = rg_values ?rows\<rparr>"
  let ?roots = "root_firsts db kinds owner ?final"
  obtain others where others: "rg_candidates ?rows = map (\<lambda>(oid, first). candidate_row ''root'' oid first) ?roots @ others"
      "list_all (\<lambda>c. ok_uint (ca_first c) \<and> (ca_stage c = ''principal'' \<or> ca_stage c = ''child'')) others"
  proof -
    show thesis
      by (rule that [of "drop (length ?roots) (rg_candidates ?rows)"])
        (auto simp: range_rows_def Let_def range_candidates_def list_all_iff candidate_row_def)
  qed
  have roots: "foldR add_candidate ?v (map (\<lambda>(oid, first). candidate_row ''root'' oid first) ?roots) = Inr (?v\<lparr>rv_roots := ?roots\<rparr>)"
  proof -
    have "distinct (map fst ?roots)" unfolding root_firsts_def by (rule group_min_keys(2))
    then show ?thesis using add_roots [of ?v ?roots] by simp
  qed
  have filters: "filter (\<lambda>c. ca_stage c = stage) (rg_candidates ?rows) = filter (\<lambda>c. ca_stage c = stage) others"
    if "stage \<noteq> ''root''" for stage
    using that by (auto simp: others(1) filter_map comp_def case_prod_beta candidate_row_def)
  have "foldR add_candidate ?v (rg_candidates ?rows) = Inr (?v\<lparr>rv_roots := ?roots,
      rv_principals := filter (\<lambda>c. ca_stage c = ''principal'') others, rv_children := filter (\<lambda>c. ca_stage c = ''child'') others\<rparr>)"
    unfolding others(1) foldR_append roots using add_others [OF others(2), of "?v\<lparr>rv_roots := ?roots\<rparr>"] by simp
  moreover have "mapR (\<lambda>ve. guardR (ok_uint (ve_checkpoint ve) \<and> ve_state ve \<noteq> []) InvalidRangeRows) (rg_versions ?rows)
      = Inr (map (\<lambda>ve. ()) (rg_versions ?rows))"
    unfolding mapR_Inr_iff using range_versions_ok [OF assms, of json_string protocol kinds owner ?cps ?final ?M] tables_okD(4) [OF assms]
    by (fastforce simp: range_rows_def Let_def list_all2_map2 list.rel_refl_strong list_all2_same)
  ultimately show ?thesis
    by (simp add: newSuiSQLRangeView_def counts range_view_of_def Let_def filters)
qed

lemma range_view_over:
  assumes "tables_ok db"
  shows "view_over db (last_materialized samples) (range_view_of json_string db protocol kinds owner samples)"
proof -
  let ?V = "range_versions json_string db protocol kinds owner (sample_checkpoints samples) (last_checkpoint samples) (last_materialized samples)"
  have "set (limit_one_by (\<lambda>ob. (ob_id ob, ob_materialized ob)) mat_of (version_rows db ?V (last_materialized samples)))
      = set (version_rows db ?V (last_materialized samples))"
  proof (subst limit_one_by_set)
    fix r r' assume r: "r \<in> set (version_rows db ?V (last_materialized samples))" "r' \<in> set (version_rows db ?V (last_materialized samples))"
      "(ob_id r, ob_materialized r) = (ob_id r', ob_materialized r')" "mat_of r = mat_of r'"
    then show "r = r'" using tables_okD(3) [OF assms, of r r'] by (simp add: version_rows_def)
  next
    show "{r \<in> set (version_rows db ?V (last_materialized samples)). \<forall>r' \<in> set (version_rows db ?V (last_materialized samples)).
        (ob_id r', ob_materialized r') = (ob_id r, ob_materialized r) \<longrightarrow> mat_of r' \<le> mat_of r} = set (version_rows db ?V (last_materialized samples))"
      by (auto simp: mat_of_def)
  qed
  then show ?thesis
    using range_versions_ok [OF assms, of json_string protocol kinds owner] unfolding view_over_def range_view_of_def range_rows_def Let_def
    by (simp add: version_rows_def)
qed

section \<open>Stages at a sample\<close>

lemma owned_roots_set: "set (owned_roots owner xs) = {ob \<in> set xs. live_row ob \<and> owned_by owner ob}"
  by (auto simp: owned_roots_def)

lemma related_ids_set: "set (related_ids live xs) = ob_related ` {ob \<in> set xs. ob_related ob \<noteq> [] \<and> (live \<longrightarrow> live_row ob)}"
  by (auto simp: related_ids_def)

lemma account_names_set: "set (account_names js owner xs) =
    insert (sui_hex owner) ((\<lambda>ob. js (ob_links ob) ''accountAddress'') ` {ob \<in> set xs. ob_kind ob = ''account''})"
  by (auto simp: account_names_def)

lemma receipt_ids_set: "set (receipt_ids xs) = ob_object ` {ob \<in> set xs. ob_kind ob = ''receipt''}"
  by (auto simp: receipt_ids_def)

lemma reserve_tables_set: "set (reserve_tables js xs) =
    (\<Union>ob \<in> {ob \<in> set xs. ob_kind ob = ''reserve'' \<and> live_row ob}. {js (ob_links ob) ''supplyTableId'', js (ob_links ob) ''borrowTableId''})"
  by (auto simp: reserve_tables_def)

lemma users_tables_set: "set (users_tables js xs) =
    (\<lambda>ob. js (ob_links ob) ''usersTableId'') ` {ob \<in> set xs. live_row ob \<and> ob_kind ob = ''vault''}"
  by (auto simp: users_tables_def)

lemmas derived_sets = owned_roots_set related_ids_set account_names_set receipt_ids_set reserve_tables_set users_tables_set

lemma stage_rows_cong: "(\<And>oid. cand oid = cand' oid) \<Longrightarrow> stage_rows db cand kinds C M = stage_rows db cand' kinds C M"
  by (metis ext)

text \<open>The samples of a statement: certified by canonical columns, told apart by checkpoint, each interval
  beginning at or after the sample before it.\<close>

definition samples_ok :: "suiSQLSnapshot list \<Rightarrow> bool" where
  "samples_ok samples \<longleftrightarrow>
     (\<forall>s \<in> set samples. ok_uint (sn_checkpoint s) \<and> ok_uint (sn_materialized s) \<and> ok_uint (sn_previous s))
     \<and> (\<forall>s \<in> set samples. \<forall>s' \<in> set samples. col (sn_checkpoint s) = col (sn_checkpoint s') \<longrightarrow> s = s')
     \<and> (\<forall>s \<in> set samples. \<forall>s' \<in> set samples. col (sn_checkpoint s) < col (sn_checkpoint s')
          \<longrightarrow> col (sn_checkpoint s) \<le> col (sn_previous s'))"

lemma sample_bounds:
  assumes "s \<in> set samples"
  shows "col (sn_checkpoint s) \<in> set (sample_checkpoints samples)" "sorted (sample_checkpoints samples)"
    and "col (sn_checkpoint s) \<le> last_checkpoint samples" "col (sn_materialized s) \<le> last_materialized samples"
  using assms by (auto simp: sample_checkpoints_def last_checkpoint_def last_materialized_def)

text \<open>Rows a stage has at a sample are rows of the range's versions of that stage.\<close>

lemma stage_rows_in_range:
  assumes "tables_ok db" "s \<in> set samples" "\<And>oid. cand oid \<Longrightarrow> cand' oid"
  shows "stage_rows db cand kinds (col (sn_checkpoint s)) (col (sn_materialized s))
    \<subseteq> set (version_rows db (stage_versions db (sample_checkpoints samples) (last_checkpoint samples) cand' kinds) (last_materialized samples))"
proof
  fix ob assume "ob \<in> stage_rows db cand kinds (col (sn_checkpoint s)) (col (sn_materialized s))"
  then have ob: "ob \<in> set (tb_states db)" "selected db cand kinds (col (sn_checkpoint s)) (ob_id ob)" "mat_of ob \<le> col (sn_materialized s)"
    by (auto simp: stage_rows_def)
  note b = sample_bounds [OF assms(2)]
  have "ob_id ob \<in> set (map ve_state (stage_versions db (sample_checkpoints samples) (last_checkpoint samples) cand' kinds))"
    by (rule selected_in_versions [OF assms(1) b(2,1,3) assms(3) ob(2)])
  then show "ob \<in> set (version_rows db (stage_versions db (sample_checkpoints samples) (last_checkpoint samples) cand' kinds) (last_materialized samples))"
    using ob b(4) by (simp add: version_rows_def)
qed

text \<open>Hence a stage of the view at a sample is the statement's, given the same candidates.\<close>

lemma view_stage:
  assumes "tables_ok db" "s \<in> set samples"
    and v: "v = range_view_of json_string db protocol kinds owner samples"
    and cands: "\<And>oid. cand oid \<longleftrightarrow> (case cands of None \<Rightarrow> True | Some cs \<Rightarrow> oid \<in> set cs)"
    and more: "\<And>oid. cand oid \<Longrightarrow> cand' oid"
    and held: "set (stage_versions db (sample_checkpoints samples) (last_checkpoint samples) cand' ks) \<subseteq> set (rv_versions v)"
  shows "set (view_latest v cands ks (col (sn_checkpoint s)) (col (sn_materialized s)))
    = (\<lambda>ob. (ob_object ob, ob)) ` stage_rows db cand ks (col (sn_checkpoint s)) (col (sn_materialized s))"
proof (rule view_latest_rows [OF assms(1) _ _ cands])
  note b = sample_bounds [OF assms(2)]
  show "view_over db (last_materialized samples) v" unfolding v by (rule range_view_over [OF assms(1)])
  show "col (sn_materialized s) \<le> last_materialized samples" by (rule b(4))
  fix sid assume sel: "selected db cand ks (col (sn_checkpoint s)) sid"
  have "sid \<in> set (map ve_state (stage_versions db (sample_checkpoints samples) (last_checkpoint samples) cand' ks))"
    by (rule selected_in_versions [OF assms(1) b(2,1,3) more sel])
  then show "sid \<in> set (map ve_state (rv_versions v))" using held by auto
qed

definition paired :: "suiSQLObject set \<Rightarrow> (string \<times> suiSQLObject) set" where
  "paired rows = (\<lambda>ob. (ob_object ob, ob)) ` rows"

lemma snd_paired [simp]: "snd ` paired rows = rows"
  by (auto simp: paired_def image_image)

section \<open>Lending stages\<close>

definition sample_roots :: "sui_tables \<Rightarrow> suiSQLKinds \<Rightarrow> sui_address \<Rightarrow> u64 \<Rightarrow> u64 \<Rightarrow> suiSQLObject set" where
  "sample_roots db kinds owner C M = stage_rows db (root_candidate db kinds owner C) (roots_of kinds) C M"

definition direct_candidate :: "sui_tables \<Rightarrow> suiSQLKinds \<Rightarrow> sui_address \<Rightarrow> u64 \<Rightarrow> u64 \<Rightarrow> string \<Rightarrow> bool" where
  "direct_candidate db kinds owner C M oid \<longleftrightarrow>
     (\<exists>ob \<in> sample_roots db kinds owner C M. live_row ob \<and> owned_by owner ob \<and> ob_related ob = oid \<and> oid \<noteq> [])"

definition sample_direct :: "sui_tables \<Rightarrow> suiSQLKinds \<Rightarrow> sui_address \<Rightarrow> u64 \<Rightarrow> u64 \<Rightarrow> suiSQLObject set" where
  "sample_direct db kinds owner C M = stage_rows db (direct_candidate db kinds owner C M) (direct_of kinds) C M"

definition second_candidate :: "sui_tables \<Rightarrow> suiSQLKinds \<Rightarrow> sui_address \<Rightarrow> u64 \<Rightarrow> u64 \<Rightarrow> string \<Rightarrow> bool" where
  "second_candidate db kinds owner C M oid \<longleftrightarrow>
     (\<exists>ob \<in> sample_direct db kinds owner C M. live_row ob \<and> ob_related ob = oid \<and> oid \<noteq> [])"

lemma single_roots: "tables_ok db \<Longrightarrow> set (st_roots (lending_stages db kinds owner C M))
    = {ob \<in> sample_roots db kinds owner C M. live_row ob \<and> owned_by owner ob}"
  by (simp add: lending_stages_def Let_def owned_roots_set fetch_stage sample_roots_def)

lemma single_direct_candidate: "tables_ok db \<Longrightarrow>
    oid \<in> set (related_ids False (owned_roots owner (fetch_rows db (latest_ids db (root_candidate db kinds owner C) (roots_of kinds) C) M)))
      \<longleftrightarrow> direct_candidate db kinds owner C M oid"
  by (auto simp: derived_sets fetch_stage direct_candidate_def sample_roots_def)

lemma single_direct: "tables_ok db \<Longrightarrow> set (st_direct (lending_stages db kinds owner C M)) = sample_direct db kinds owner C M"
  by (simp add: lending_stages_def Let_def fetch_stage single_direct_candidate sample_direct_def)

lemma single_ids:
  assumes "tables_ok db"
  shows "set (st_ids (lending_stages db kinds owner C M)) = {sid.
    selected db (root_candidate db kinds owner C) (roots_of kinds) C sid
    \<or> selected db (direct_candidate db kinds owner C M) (direct_of kinds) C sid
    \<or> (second_of kinds \<noteq> [] \<and> selected db (second_candidate db kinds owner C M) (second_of kinds) C sid)}"
proof -
  have "(\<lambda>oid. oid \<in> set (related_ids True (fetch_rows db (latest_ids db (direct_candidate db kinds owner C M) (direct_of kinds) C) M)))
      = second_candidate db kinds owner C M"
    by (rule ext) (auto simp: derived_sets fetch_stage [OF assms] second_candidate_def sample_direct_def)
  then show ?thesis
    by (auto simp: lending_stages_def Let_def single_direct_candidate [OF assms] latest_ids_set)
qed

lemma view_lending:
  assumes "tables_ok db" "s \<in> set samples" and v: "v = range_view_of json_string db protocol kinds owner samples"
  defines "C \<equiv> col (sn_checkpoint s)" and "M \<equiv> col (sn_materialized s)"
  shows "set (view_roots v kinds C M) = paired (sample_roots db kinds owner C M)"
    and "set (view_direct v kinds owner C M) = paired (sample_direct db kinds owner C M)"
    and "set (view_second v kinds owner C M) = (if second_of kinds = [] then {}
      else paired (stage_rows db (second_candidate db kinds owner C M) (second_of kinds) C M))"
    and "sample_roots db kinds owner C M \<inter> {ob. live_row ob \<and> owned_by owner ob}
      \<subseteq> set (rt_roots (range_lending db kinds owner (sample_checkpoints samples) (last_checkpoint samples) (last_materialized samples)))"
    and "sample_direct db kinds owner C M
      \<subseteq> set (rt_direct (range_lending db kinds owner (sample_checkpoints samples) (last_checkpoint samples) (last_materialized samples)))"
proof -
  let ?cps = "sample_checkpoints samples" and ?final = "last_checkpoint samples" and ?last = "last_materialized samples"
  let ?rl = "range_lending db kinds owner ?cps ?final ?last"
  note b = sample_bounds [OF assms(2)]
  have firsts: "rv_roots v = root_firsts db kinds owner ?final" by (simp add: v range_view_of_def Let_def)
  have versions: "set (rt_versions ?rl) \<subseteq> set (rv_versions v)"
    by (auto simp: v range_view_of_def range_rows_def range_versions_def Let_def)
  let ?rc = "\<lambda>oid. oid \<in> set (map fst (root_firsts db kinds owner ?final))"
  let ?rs = "stage_versions db ?cps ?final ?rc (roots_of kinds)"
  let ?owned = "owned_roots owner (version_rows db ?rs ?last)"
  let ?dc = "\<lambda>oid. oid \<in> set (related_ids False ?owned)"
  let ?ds = "stage_versions db ?cps ?final ?dc (direct_of kinds)"
  let ?sc = "\<lambda>oid. oid \<in> set (related_ids True (version_rows db ?ds ?last))"
  let ?ss = "stage_versions db ?cps ?final ?sc (second_of kinds)"
  have rl: "rt_roots ?rl = ?owned" "rt_direct ?rl = version_rows db ?ds ?last"
      "rt_versions ?rl = ?rs @ ?ds @ (if second_of kinds = [] then [] else ?ss)"
    by (simp_all add: range_lending_def Let_def)
  have root_cand: "root_candidate db kinds owner C oid \<longleftrightarrow> oid \<in> set (map fst (filter (\<lambda>(oid, first). first \<le> C) (rv_roots v)))" for oid
  proof -
    have "oid \<in> set (map fst (filter (\<lambda>(oid, first). first \<le> C) (rv_roots v))) \<longleftrightarrow> (\<exists>m \<le> C. (oid, m) \<in> set (root_firsts db kinds owner ?final))"
      unfolding firsts by force
    also have "\<dots> \<longleftrightarrow> root_candidate db kinds owner C oid"
      unfolding root_firsts_def group_min_within root_candidate_def list_ex_iff using b(3) by (auto simp: C_def)
    finally show ?thesis ..
  qed
  have root_more: "?rc oid" if "root_candidate db kinds owner C oid" for oid
    using that unfolding root_cand firsts by auto
  show roots: "set (view_roots v kinds C M) = paired (sample_roots db kinds owner C M)"
    unfolding view_roots_def paired_def sample_roots_def C_def M_def
    by (rule view_stage [OF assms(1,2) v, where cand' = ?rc])
      (use root_cand root_more versions rl(3) in \<open>auto simp: C_def\<close>)
  show in_roots: "sample_roots db kinds owner C M \<inter> {ob. live_row ob \<and> owned_by owner ob} \<subseteq> set (rt_roots ?rl)"
    using stage_rows_in_range [OF assms(1,2), of "root_candidate db kinds owner C" ?rc "roots_of kinds"] root_more
    unfolding rl(1) owned_roots_set sample_roots_def C_def M_def by blast
  have direct_cand: "direct_candidate db kinds owner C M oid
      \<longleftrightarrow> oid \<in> set (related_ids False (owned_roots owner (map snd (view_roots v kinds C M))))" for oid
    by (auto simp: derived_sets roots direct_candidate_def)
  have direct_more: "?dc oid" if "direct_candidate db kinds owner C M oid" for oid
    using that in_roots unfolding rl(1) by (auto simp: related_ids_set direct_candidate_def)
  show direct: "set (view_direct v kinds owner C M) = paired (sample_direct db kinds owner C M)"
    unfolding view_direct_def paired_def sample_direct_def C_def M_def
    by (rule view_stage [OF assms(1,2) v, where cand' = ?dc])
      (use direct_cand direct_more versions rl(3) in \<open>auto simp: C_def M_def\<close>)
  show in_direct: "sample_direct db kinds owner C M \<subseteq> set (rt_direct ?rl)"
    using stage_rows_in_range [OF assms(1,2), of "direct_candidate db kinds owner C M" ?dc "direct_of kinds"] direct_more
    unfolding rl(2) sample_direct_def C_def M_def by blast
  have second_cand: "second_candidate db kinds owner C M oid \<longleftrightarrow> oid \<in> set (related_ids True (map snd (view_direct v kinds owner C M)))" for oid
    by (auto simp: derived_sets direct second_candidate_def)
  have second_more: "?sc oid" if "second_candidate db kinds owner C M oid" for oid
    using that in_direct unfolding rl(2) by (auto simp: related_ids_set second_candidate_def)
  show "set (view_second v kinds owner C M) = (if second_of kinds = [] then {}
      else paired (stage_rows db (second_candidate db kinds owner C M) (second_of kinds) C M))"
  proof (cases "second_of kinds = []")
    case False
    have "set (view_latest v (Some (related_ids True (map snd (view_direct v kinds owner C M)))) (second_of kinds) C M)
        = paired (stage_rows db (second_candidate db kinds owner C M) (second_of kinds) C M)"
      unfolding paired_def C_def M_def
      by (rule view_stage [OF assms(1,2) v, where cand' = ?sc])
        (use second_cand second_more versions rl(3) False in \<open>auto simp: C_def M_def\<close>)
    then show ?thesis using False by (simp add: view_second_def)
  qed (simp add: view_second_def)
qed

section \<open>NAVI's stages\<close>

definition sample_topology :: "sui_tables \<Rightarrow> suiSQLKinds \<Rightarrow> u64 \<Rightarrow> u64 \<Rightarrow> suiSQLObject set" where
  "sample_topology db kinds C M = stage_rows db (\<lambda>oid. True) (topology_of kinds) C M"

text \<open>What a NAVI child is admitted by, over sets of rows.\<close>

definition child_of :: "(string \<Rightarrow> string \<Rightarrow> string) \<Rightarrow> (string \<Rightarrow> bool) \<Rightarrow> sui_address \<Rightarrow> suiSQLObject set \<Rightarrow> suiSQLObject set
    \<Rightarrow> suiSQLObject set \<Rightarrow> string \<Rightarrow> string \<Rightarrow> string \<Rightarrow> string \<Rightarrow> bool" where
  "child_of js known owner owned topology direct kind oid key parent \<longleftrightarrow>
     (kind = ''principal'' \<and> known oid
       \<and> key \<in> insert (sui_hex owner) ((\<lambda>ob. js (ob_links ob) ''accountAddress'') ` {ob \<in> owned. ob_kind ob = ''account''})
       \<and> (\<exists>ob \<in> topology. ob_kind ob = ''reserve'' \<and> live_row ob
            \<and> (parent = js (ob_links ob) ''supplyTableId'' \<or> parent = js (ob_links ob) ''borrowTableId'')))
     \<or> (kind = ''receiptState'' \<and> key \<in> ob_object ` {ob \<in> owned. ob_kind ob = ''receipt''}
       \<and> parent \<in> (\<lambda>ob. js (ob_links ob) ''usersTableId'') ` {ob \<in> direct. live_row ob \<and> ob_kind ob = ''vault''})"

lemma child_of_mono:
  assumes "child_of js known owner owned topology direct kind oid key parent"
    and "known oid \<Longrightarrow> known' oid" "owned \<subseteq> owned'" "topology \<subseteq> topology'" "direct \<subseteq> direct'"
  shows "child_of js known' owner owned' topology' direct' kind oid key parent"
  using assms unfolding child_of_def by blast

lemma child_row_of:
  "child_row known (account_names js owner owned) (reserve_tables js topology) (receipt_ids owned) (users_tables js direct) ob
     \<longleftrightarrow> child_of js known owner (set owned) (set topology) (set direct) (ob_kind ob) (ob_object ob) (ob_key ob) (ob_parent ob)"
  unfolding child_row_def child_of_def derived_sets by blast

definition sample_owned :: "sui_tables \<Rightarrow> suiSQLKinds \<Rightarrow> sui_address \<Rightarrow> u64 \<Rightarrow> u64 \<Rightarrow> suiSQLObject set" where
  "sample_owned db kinds owner C M = {ob \<in> sample_roots db kinds owner C M. live_row ob \<and> owned_by owner ob}"

definition sample_accounts :: "(string \<Rightarrow> string \<Rightarrow> string) \<Rightarrow> sui_tables \<Rightarrow> suiSQLKinds \<Rightarrow> sui_address \<Rightarrow> u64 \<Rightarrow> u64 \<Rightarrow> string set" where
  "sample_accounts js db kinds owner C M = insert (sui_hex owner)
     ((\<lambda>ob. js (ob_links ob) ''accountAddress'') ` {ob \<in> sample_owned db kinds owner C M. ob_kind ob = ''account''})"

definition principal_at :: "sui_tables \<Rightarrow> string set \<Rightarrow> u64 \<Rightarrow> string \<Rightarrow> bool" where
  "principal_at db accounts C oid \<longleftrightarrow>
     (\<exists>r \<in> set (tb_owners db). ow_kind r = ''principal'' \<and> ow_owner r \<in> accounts \<and> ow_checkpoint r \<le> C \<and> ow_object r = oid)"

definition child_candidate :: "(string \<Rightarrow> string \<Rightarrow> string) \<Rightarrow> sui_tables \<Rightarrow> suiSQLKinds \<Rightarrow> sui_address \<Rightarrow> u64 \<Rightarrow> u64 \<Rightarrow> string \<Rightarrow> bool" where
  "child_candidate js db kinds owner C M oid \<longleftrightarrow> (\<exists>ob \<in> set (tb_states db). ob_object ob = oid \<and> col (ob_checkpoint ob) \<le> C
     \<and> child_of js (principal_at db (sample_accounts js db kinds owner C M) C) owner (sample_owned db kinds owner C M)
         (sample_topology db kinds C M) (sample_direct db kinds owner C M) (ob_kind ob) oid (ob_key ob) (ob_parent ob))"

lemma single_children:
  assumes "tables_ok db"
  shows "set (child_ids js db kinds owner C M) = {sid. selected db (child_candidate js db kinds owner C M) (children_of kinds) C sid}"
proof -
  let ?st = "lending_stages db kinds owner C M"
  let ?accounts = "account_names js owner (st_roots ?st)"
  have accounts: "set ?accounts = sample_accounts js db kinds owner C M"
    by (simp add: derived_sets single_roots [OF assms] sample_accounts_def sample_owned_def)
  have topology: "set (fetch_rows db (topology_ids db kinds C) M) = sample_topology db kinds C M"
    by (simp add: topology_ids_def sample_topology_def fetch_stage [OF assms])
  have known: "principal_candidate db ?accounts C = principal_at db (sample_accounts js db kinds owner C M) C"
    by (rule ext) (auto simp: principal_candidate_def principal_at_def list_ex_iff accounts)
  have "(\<lambda>oid. oid \<in> set (map ob_object (filter (\<lambda>ob. col (ob_checkpoint ob) \<le> C \<and>
      child_row (principal_candidate db ?accounts C) ?accounts (reserve_tables js (fetch_rows db (topology_ids db kinds C) M))
        (receipt_ids (st_roots ?st)) (users_tables js (st_direct ?st)) ob) (tb_states db))))
    = child_candidate js db kinds owner C M"
    unfolding child_row_of known topology single_direct [OF assms] single_roots [OF assms] sample_owned_def [symmetric]
    by (rule ext) (auto simp: child_candidate_def)
  then show ?thesis unfolding child_ids_def Let_def latest_ids_set by simp
qed

lemma view_navi:
  assumes "tables_ok db" "s \<in> set samples" and v: "v = range_view_of js db protocol kinds owner samples"
    and navi: "protocol = ''navi''"
  defines "C \<equiv> col (sn_checkpoint s)" and "M \<equiv> col (sn_materialized s)"
  shows "set (view_latest v None (topology_of kinds) C M) = paired (sample_topology db kinds C M)"
    and "set (view_children js v kinds owner C M) = paired (stage_rows db (child_candidate js db kinds owner C M) (children_of kinds) C M)"
proof -
  let ?cps = "sample_checkpoints samples" and ?final = "last_checkpoint samples" and ?last = "last_materialized samples"
  let ?rl = "range_lending db kinds owner ?cps ?final ?last"
  let ?rt = "range_topology db kinds ?cps ?final"
  let ?racc = "account_names js owner (rt_roots ?rl)"
  let ?rp = "principal_firsts db ?racc ?final"
  let ?cf = "child_firsts js db kinds owner ?cps ?final ?last"
  note b = sample_bounds [OF assms(2)]
  note lending = view_lending [OF assms(1,2) v, folded C_def M_def]
  have versions: "set ?rt \<subseteq> set (rv_versions v)"
      "set (stage_versions db ?cps ?final (\<lambda>oid. oid \<in> set (map (fst \<circ> fst) ?cf)) (children_of kinds)) \<subseteq> set (rv_versions v)"
    by (auto simp: v navi range_view_of_def range_rows_def range_versions_def Let_def)
  show topology: "set (view_latest v None (topology_of kinds) C M) = paired (sample_topology db kinds C M)"
    unfolding paired_def sample_topology_def C_def M_def
    by (rule view_stage [OF assms(1,2) v, where cand' = "\<lambda>oid. True"]) (use versions(1) in \<open>auto simp: range_topology_def\<close>)
  have in_topology: "sample_topology db kinds C M \<subseteq> set (version_rows db ?rt ?last)"
    unfolding sample_topology_def range_topology_def C_def M_def by (rule stage_rows_in_range [OF assms(1,2)]) simp
  have in_owned: "sample_owned db kinds owner C M \<subseteq> set (rt_roots ?rl)" using lending(4) by (auto simp: sample_owned_def)
  have in_accounts: "sample_accounts js db kinds owner C M \<subseteq> set ?racc"
    using in_owned unfolding sample_accounts_def derived_sets by blast
  have owned: "set (owned_roots owner (map snd (view_roots v kinds C M))) = sample_owned db kinds owner C M"
    by (simp add: derived_sets lending(1) sample_owned_def)
  have accounts: "set (account_names js owner (owned_roots owner (map snd (view_roots v kinds C M)))) = sample_accounts js db kinds owner C M"
    unfolding account_names_set owned sample_accounts_def ..
  have rows: "rv_principals v = map (\<lambda>((oid, ow), first). (candidate_row ''principal'' oid first)\<lparr>ca_owner := ow\<rparr>) ?rp"
      "rv_children v = map (\<lambda>((oid, kind, key, parent), first). (candidate_row ''child'' oid first)
         \<lparr>ca_kind := kind, ca_key := key, ca_parent := parent\<rparr>) ?cf"
    by (auto simp: v navi range_view_of_def range_rows_def range_candidates_def Let_def filter_map comp_def case_prod_beta candidate_row_def)
  have principals: "oid \<in> set (map ca_object (filter (\<lambda>c. col (ca_first c) \<le> C \<and> ca_owner c \<in> A) (rv_principals v)))
      \<longleftrightarrow> principal_at db A C oid" if A: "A \<subseteq> set ?racc" for A oid
  proof -
    have "oid \<in> set (map ca_object (filter (\<lambda>c. col (ca_first c) \<le> C \<and> ca_owner c \<in> A) (rv_principals v)))
        \<longleftrightarrow> (\<exists>ow \<in> A. \<exists>m \<le> C. ((oid, ow), m) \<in> set ?rp)"
      unfolding rows by (force simp: candidate_row_def)
    also have "\<dots> \<longleftrightarrow> (\<exists>ow \<in> A. \<exists>r \<in> set (tb_owners db). ow_kind r = ''principal'' \<and> ow_owner r \<in> set ?racc \<and> ow_checkpoint r \<le> ?final
        \<and> (ow_object r, ow_owner r) = (oid, ow) \<and> ow_checkpoint r \<le> C)"
      unfolding principal_firsts_def group_min_within by auto
    also have "\<dots> \<longleftrightarrow> principal_at db A C oid"
      using A b(3) unfolding principal_at_def C_def by (auto intro: order_trans)
    finally show ?thesis .
  qed
  have more_principals: "oid \<in> set (map (fst \<circ> fst) ?rp)" if "principal_at db (sample_accounts js db kinds owner C M) C oid" for oid
  proof -
    have "oid \<in> set (map ca_object (rv_principals v))" using that principals [OF in_accounts, of oid] by auto
    then show ?thesis unfolding rows by (auto simp: candidate_row_def comp_def case_prod_beta)
  qed
  let ?known = "principal_at db (sample_accounts js db kinds owner C M) C"
  let ?child = "child_of js ?known owner (sample_owned db kinds owner C M) (sample_topology db kinds C M) (sample_direct db kinds owner C M)"
  have firsts: "(\<exists>m \<le> C. ((oid, kind, key, parent), m) \<in> set ?cf) \<and> ?child kind oid key parent
      \<longleftrightarrow> (\<exists>ob \<in> set (tb_states db). col (ob_checkpoint ob) \<le> C \<and> (ob_object ob, ob_kind ob, ob_key ob, ob_parent ob) = (oid, kind, key, parent)
            \<and> ?child kind oid key parent)" for oid kind key parent
  proof -
    have grow: "child_of js (\<lambda>oid. oid \<in> set (map (fst \<circ> fst) ?rp)) owner (set (rt_roots ?rl)) (set (version_rows db ?rt ?last))
        (set (rt_direct ?rl)) kind oid key parent" if "?child kind oid key parent"
      using that more_principals in_owned in_topology lending(5) by (rule child_of_mono)
    show ?thesis
      unfolding child_firsts_def Let_def group_min_within child_row_of
      using grow b(3) unfolding C_def by (auto intro: order_trans)
  qed
  have cand: "child_candidate js db kinds owner C M oid \<longleftrightarrow> (\<exists>kind key parent m. m \<le> C \<and> ((oid, kind, key, parent), m) \<in> set ?cf
      \<and> ?child kind oid key parent)" for oid
    unfolding child_candidate_def using firsts by (smt (verit, ccfv_threshold) prod.inject)
  let ?children = "map ca_object (filter (\<lambda>c. col (ca_first c) \<le> C \<and>
            ((ca_kind c = ''principal'' \<and> ca_object c \<in> set (map ca_object (filter (\<lambda>c. col (ca_first c) \<le> C
                 \<and> ca_owner c \<in> set (account_names js owner (owned_roots owner (map snd (view_roots v kinds C M))))) (rv_principals v)))
               \<and> ca_key c \<in> set (account_names js owner (owned_roots owner (map snd (view_roots v kinds C M))))
               \<and> ca_parent c \<in> set (reserve_tables js (map snd (view_latest v None (topology_of kinds) C M))))
             \<or> (ca_kind c = ''receiptState'' \<and> ca_key c \<in> set (receipt_ids (owned_roots owner (map snd (view_roots v kinds C M))))
               \<and> ca_parent c \<in> set (users_tables js (map snd (view_direct v kinds owner C M)))))) (rv_children v))"
  have conds: "(ca_kind c = ''principal'' \<and> ca_object c \<in> set (map ca_object (filter (\<lambda>c. col (ca_first c) \<le> C
                 \<and> ca_owner c \<in> set (account_names js owner (owned_roots owner (map snd (view_roots v kinds C M))))) (rv_principals v)))
               \<and> ca_key c \<in> set (account_names js owner (owned_roots owner (map snd (view_roots v kinds C M))))
               \<and> ca_parent c \<in> set (reserve_tables js (map snd (view_latest v None (topology_of kinds) C M))))
             \<or> (ca_kind c = ''receiptState'' \<and> ca_key c \<in> set (receipt_ids (owned_roots owner (map snd (view_roots v kinds C M))))
               \<and> ca_parent c \<in> set (users_tables js (map snd (view_direct v kinds owner C M))))
      \<longleftrightarrow> ?child (ca_kind c) (ca_object c) (ca_key c) (ca_parent c)" for c
    unfolding accounts principals [OF in_accounts]
    by (auto simp: child_of_def derived_sets topology lending(1,2) sample_owned_def sample_accounts_def)
  have children: "child_candidate js db kinds owner C M oid \<longleftrightarrow> oid \<in> set ?children" for oid
  proof -
    let ?row = "\<lambda>((oid, kind, key, parent), first). (candidate_row ''child'' oid first)\<lparr>ca_kind := kind, ca_key := key, ca_parent := parent\<rparr>"
    have row: "col (ca_first (?row p)) = snd p" "ca_kind (?row p) = fst (snd (fst p))" "ca_object (?row p) = fst (fst p)"
        "ca_key (?row p) = fst (snd (snd (fst p)))" "ca_parent (?row p) = snd (snd (snd (fst p)))" for p
      by (simp_all add: candidate_row_def case_prod_beta)
    have "oid \<in> set ?children \<longleftrightarrow> (\<exists>c \<in> set (rv_children v). col (ca_first c) \<le> C
        \<and> ?child (ca_kind c) (ca_object c) (ca_key c) (ca_parent c) \<and> ca_object c = oid)"
      unfolding conds by auto
    also have "\<dots> \<longleftrightarrow> (\<exists>p \<in> set ?cf. snd p \<le> C \<and> ?child (fst (snd (fst p))) (fst (fst p)) (fst (snd (snd (fst p)))) (snd (snd (snd (fst p))))
        \<and> fst (fst p) = oid)"
      unfolding rows set_map bex_simps(7) row ..
    also have "\<dots> \<longleftrightarrow> child_candidate js db kinds owner C M oid"
    proof
      assume "\<exists>p \<in> set ?cf. snd p \<le> C \<and> ?child (fst (snd (fst p))) (fst (fst p)) (fst (snd (snd (fst p)))) (snd (snd (snd (fst p))))
        \<and> fst (fst p) = oid"
      then show "child_candidate js db kinds owner C M oid" unfolding cand by force
    next
      assume "child_candidate js db kinds owner C M oid"
      then obtain kind key parent m where "m \<le> C" "((oid, kind, key, parent), m) \<in> set ?cf" "?child kind oid key parent"
        unfolding cand by blast
      then show "\<exists>p \<in> set ?cf. snd p \<le> C \<and> ?child (fst (snd (fst p))) (fst (fst p)) (fst (snd (snd (fst p)))) (snd (snd (snd (fst p))))
        \<and> fst (fst p) = oid"
        by (intro bexI [of _ "((oid, kind, key, parent), m)"]) auto
    qed
    finally show ?thesis ..
  qed
  have more: "oid \<in> set (map (fst \<circ> fst) ?cf)" if "child_candidate js db kinds owner C M oid" for oid
    using that unfolding cand by (force simp: comp_def)
  show "set (view_children js v kinds owner C M) = paired (stage_rows db (child_candidate js db kinds owner C M) (children_of kinds) C M)"
    unfolding view_children_def Let_def paired_def C_def M_def
    by (rule view_stage [OF assms(1,2) v, where cand' = "\<lambda>oid. oid \<in> set (map (fst \<circ> fst) ?cf)"])
      (use children more versions(2) in \<open>auto simp: C_def M_def\<close>)
qed

section \<open>The rows of all stages\<close>

lemma newest_exists:
  assumes "ob \<in> set (tb_states db)" "mat_of ob \<le> M"
  shows "\<exists>top \<in> set (tb_states db). ob_id top = ob_id ob \<and> mat_of top \<le> M \<and> mat_of ob \<le> mat_of top
    \<and> (\<forall>ob' \<in> set (tb_states db). ob_id ob' = ob_id top \<and> mat_of ob' \<le> M \<longrightarrow> mat_of ob' \<le> mat_of top)"
proof -
  let ?S = "{x \<in> set (tb_states db). ob_id x = ob_id ob \<and> mat_of x \<le> M}"
  have fin: "finite (mat_of ` ?S)" "mat_of ob \<in> mat_of ` ?S" using assms by auto
  then have "Max (mat_of ` ?S) \<in> mat_of ` ?S" by (intro Max_in) auto
  then obtain top where top: "top \<in> ?S" "mat_of top = Max (mat_of ` ?S)" by auto
  have "mat_of x \<le> mat_of top" if "x \<in> ?S" for x unfolding top(2) using that by (intro Max_ge [OF fin(1)]) auto
  then show ?thesis using top(1) assms by (intro bexI [of _ top]) auto
qed

lemma fetch_all_stages:
  fixes M :: u64
  assumes "tables_ok db" and ids: "\<And>sid. sid \<in> set ids \<longleftrightarrow> (\<exists>st \<in> stages. selected db (fst st) (snd st) C sid)"
  defines "S \<equiv> \<Union>st \<in> stages. stage_rows db (fst st) (snd st) C M"
  shows "set (fetch_rows db ids M) = {ob \<in> S. \<forall>ob' \<in> S. ob_object ob' = ob_object ob \<longrightarrow> ob_id ob' \<le> ob_id ob}"
    and "\<And>ob ob'. ob \<in> S \<Longrightarrow> ob' \<in> S \<Longrightarrow> ob_id ob = ob_id ob' \<Longrightarrow> ob = ob'"
proof -
  have S: "ob \<in> S \<longleftrightarrow> ob \<in> set (tb_states db) \<and> ob_id ob \<in> set ids \<and> mat_of ob \<le> M
      \<and> (\<forall>ob' \<in> set (tb_states db). ob_id ob' = ob_id ob \<and> mat_of ob' \<le> M \<longrightarrow> mat_of ob' \<le> mat_of ob)" for ob
    unfolding S_def ids stage_rows_def by auto
  show unique: "ob = ob'" if "ob \<in> S" "ob' \<in> S" "ob_id ob = ob_id ob'" for ob ob'
    using that S tables_okD(3) [OF assms(1)] by (metis order_antisym)
  have same: "ob_object x = ob_object y" if xy: "x \<in> set (tb_states db)" "y \<in> set (tb_states db)" "ob_id x = ob_id y" "ob_id x \<in> set ids" for x y
  proof -
    obtain r where "r \<in> set (tb_index db)" "ix_state r = ob_id x" using xy(4) ids selected_row by metis
    then show ?thesis using xy tables_okD(5) [OF assms(1)] by metis
  qed
  show "set (fetch_rows db ids M) = {ob \<in> S. \<forall>ob' \<in> S. ob_object ob' = ob_object ob \<longrightarrow> ob_id ob' \<le> ob_id ob}"
  proof (intro set_eqI iffI)
    fix ob assume "ob \<in> set (fetch_rows db ids M)"
    then have ob: "ob \<in> set (tb_states db)" "ob_id ob \<in> set ids" "mat_of ob \<le> M"
      and top: "\<And>ob'. ob' \<in> set (tb_states db) \<Longrightarrow> ob_id ob' \<in> set ids \<Longrightarrow> mat_of ob' \<le> M \<Longrightarrow> ob_object ob' = ob_object ob
        \<Longrightarrow> (ob_id ob', mat_of ob') \<le> (ob_id ob, mat_of ob)"
      unfolding fetch_rows_set [OF assms(1)] by auto
    have "mat_of ob' \<le> mat_of ob" if "ob' \<in> set (tb_states db)" "ob_id ob' = ob_id ob" "mat_of ob' \<le> M" for ob'
      using top [of ob'] that ob same [of ob' ob] by (auto simp: less_eq_prod_def)
    then have "ob \<in> S" using S ob by blast
    moreover have "ob_id ob' \<le> ob_id ob" if "ob' \<in> S" "ob_object ob' = ob_object ob" for ob'
      using top [of ob'] that S by (auto simp: less_eq_prod_def)
    ultimately show "ob \<in> {ob \<in> S. \<forall>ob' \<in> S. ob_object ob' = ob_object ob \<longrightarrow> ob_id ob' \<le> ob_id ob}" by blast
  next
    fix ob assume "ob \<in> {ob \<in> S. \<forall>ob' \<in> S. ob_object ob' = ob_object ob \<longrightarrow> ob_id ob' \<le> ob_id ob}"
    then have ob: "ob \<in> S" and best: "\<And>ob'. ob' \<in> S \<Longrightarrow> ob_object ob' = ob_object ob \<Longrightarrow> ob_id ob' \<le> ob_id ob" by auto
    have "(ob_id ob', mat_of ob') \<le> (ob_id ob, mat_of ob)"
      if ob': "ob' \<in> set (tb_states db)" "ob_id ob' \<in> set ids" "mat_of ob' \<le> M" "ob_object ob' = ob_object ob" for ob'
    proof -
      obtain top where top: "top \<in> set (tb_states db)" "ob_id top = ob_id ob'" "mat_of top \<le> M" "mat_of ob' \<le> mat_of top"
          "\<forall>x \<in> set (tb_states db). ob_id x = ob_id top \<and> mat_of x \<le> M \<longrightarrow> mat_of x \<le> mat_of top"
        using newest_exists [OF ob'(1,3)] by blast
      have "top \<in> S" using top ob'(2) S by auto
      moreover have "ob_object top = ob_object ob" using same [OF top(1) ob'(1) top(2)] top(2) ob'(2,4) by simp
      ultimately have le: "ob_id ob' \<le> ob_id ob" using best top(2) by metis
      show ?thesis
      proof (cases "ob_id ob' = ob_id ob")
        case True
        then have "mat_of ob' \<le> mat_of ob" using ob ob' S by blast
        then show ?thesis using True by (simp add: less_eq_prod_def)
      next
        case False
        then have "ob_id ob' < ob_id ob" using le by (rule order_le_neq_trans [rotated])
        then show ?thesis by (simp add: less_eq_prod_def)
      qed
    qed
    then show "ob \<in> set (fetch_rows db ids M)" unfolding fetch_rows_set [OF assms(1)] using ob S by blast
  qed
qed

lemma better_fold:
  "foldl better_row r rs \<in> set (r # rs) \<and> (\<forall>x \<in> set (r # rs). ob_id x \<le> ob_id (foldl better_row r rs))"
proof (induction rs arbitrary: r)
  case (Cons x rs)
  have "better_row r x \<in> {r, x} \<and> ob_id r \<le> ob_id (better_row r x) \<and> ob_id x \<le> ob_id (better_row r x)"
    by (auto simp: better_row_def)
  then show ?case using Cons.IH [of "better_row r x"] by (auto intro: order_trans)
qed simp

lemma best_rows_set:
  assumes "set chosen = paired S" and unique: "\<And>ob ob'. ob \<in> S \<Longrightarrow> ob' \<in> S \<Longrightarrow> ob_id ob = ob_id ob' \<Longrightarrow> ob = ob'"
  shows "set (best_rows chosen) = {ob \<in> S. \<forall>ob' \<in> S. ob_object ob' = ob_object ob \<longrightarrow> ob_id ob' \<le> ob_id ob}"
    and "distinct (map ob_object (best_rows chosen))"
proof -
  define pick where "pick = (\<lambda>oid. case map snd (filter (\<lambda>p. fst p = oid) chosen) of r # rs \<Rightarrow> foldl better_row r rs)"
  have rows: "set (map snd (filter (\<lambda>p. fst p = oid) chosen)) = {ob \<in> S. ob_object ob = oid}" for oid
    using assms(1) by (auto simp: paired_def image_iff)
  have pick: "pick oid \<in> S \<and> ob_object (pick oid) = oid \<and> (\<forall>ob \<in> S. ob_object ob = oid \<longrightarrow> ob_id ob \<le> ob_id (pick oid))"
    if oid: "oid \<in> fst ` set chosen" for oid
  proof -
    obtain r rs where rs: "map snd (filter (\<lambda>p. fst p = oid) chosen) = r # rs"
      using oid by (cases "map snd (filter (\<lambda>p. fst p = oid) chosen)") (auto simp: filter_empty_conv)
    have "set (r # rs) = {ob \<in> S. ob_object ob = oid}" using rows [of oid] unfolding rs .
    moreover have "pick oid = foldl better_row r rs" by (simp add: pick_def rs)
    ultimately show ?thesis using better_fold [of r rs] by auto
  qed
  have keys: "fst ` set chosen = ob_object ` S" using assms(1) by (auto simp: paired_def image_iff)
  have best: "best_rows chosen = map pick (remdups (map fst chosen))" by (simp add: best_rows_def pick_def)
  show "set (best_rows chosen) = {ob \<in> S. \<forall>ob' \<in> S. ob_object ob' = ob_object ob \<longrightarrow> ob_id ob' \<le> ob_id ob}"
  proof (intro set_eqI iffI)
    fix ob assume "ob \<in> set (best_rows chosen)"
    then obtain oid where oid: "oid \<in> fst ` set chosen" "ob = pick oid" unfolding best by auto
    show "ob \<in> {ob \<in> S. \<forall>ob' \<in> S. ob_object ob' = ob_object ob \<longrightarrow> ob_id ob' \<le> ob_id ob}"
      using pick [OF oid(1)] unfolding oid(2) by simp
  next
    fix ob assume ob: "ob \<in> {ob \<in> S. \<forall>ob' \<in> S. ob_object ob' = ob_object ob \<longrightarrow> ob_id ob' \<le> ob_id ob}"
    then have "ob_object ob \<in> fst ` set chosen" unfolding keys by simp
    with pick [of "ob_object ob"] ob have "pick (ob_object ob) = ob" by (intro unique) (auto intro: order_antisym)
    then show "ob \<in> set (best_rows chosen)" unfolding best using \<open>ob_object ob \<in> fst ` set chosen\<close> by force
  qed
  have "map ob_object (best_rows chosen) = remdups (map fst chosen)"
    unfolding best using pick by (auto intro!: map_idI)
  then show "distinct (map ob_object (best_rows chosen))" by simp
qed

lemma limit_one_by_keys: "distinct (map key (limit_one_by key ord rows))"
proof -
  have "key (last (sort_key ord (filter (\<lambda>r. key r = k) rows))) = k" if "k \<in> key ` set rows" for k
  proof -
    have ne: "filter (\<lambda>r. key r = k) rows \<noteq> []" using that by (auto simp: filter_empty_conv)
    then show ?thesis using last_sort_key(1) [OF ne, where ord = ord] by simp
  qed
  then have "map key (limit_one_by key ord rows) = remdups (map key rows)"
    unfolding limit_one_by_def by (auto intro!: map_idI)
  then show ?thesis by simp
qed

section \<open>The newest row per key\<close>

definition newest_of :: "('r \<Rightarrow> 'k) \<Rightarrow> ('r \<Rightarrow> 'o::linorder) \<Rightarrow> ('r \<Rightarrow> bool) \<Rightarrow> 'r set \<Rightarrow> ('k \<times> 'r) list \<Rightarrow> bool" where
  "newest_of key ord elig seen newest \<longleftrightarrow> distinct (map fst newest)
     \<and> (\<forall>k. map_of newest k = None \<longrightarrow> (\<forall>r \<in> seen. elig r \<longrightarrow> key r \<noteq> k))
     \<and> (\<forall>k r. map_of newest k = Some r \<longrightarrow> r \<in> seen \<and> elig r \<and> key r = k \<and> (\<forall>r' \<in> seen. elig r' \<and> key r' = k \<longrightarrow> ord r' \<le> ord r))"

definition keep_newest :: "('r \<Rightarrow> 'k) \<Rightarrow> ('r \<Rightarrow> 'o::linorder) \<Rightarrow> ('r \<Rightarrow> bool) \<Rightarrow> ('k \<times> 'r) list \<Rightarrow> 'r \<Rightarrow> ('k \<times> 'r) list" where
  "keep_newest key ord elig newest row = (if \<not> elig row then newest else case map_of newest (key row) of
       Some current \<Rightarrow> if ord row \<le> ord current then newest else AList.update (key row) row newest
     | None \<Rightarrow> AList.update (key row) row newest)"

lemma keep_newest_step:
  assumes "newest_of key ord elig seen newest"
  shows "newest_of key ord elig (insert row seen) (keep_newest key ord elig newest row)"
proof -
  let ?new = "AList.update (key row) row newest"
  have dist: "distinct (map fst newest)"
    and none: "\<And>k r. map_of newest k = None \<Longrightarrow> r \<in> seen \<Longrightarrow> elig r \<Longrightarrow> key r \<noteq> k"
    and some: "\<And>k r. map_of newest k = Some r \<Longrightarrow> r \<in> seen \<and> elig r \<and> key r = k \<and> (\<forall>r' \<in> seen. elig r' \<and> key r' = k \<longrightarrow> ord r' \<le> ord r)"
    using assms by (auto simp: newest_of_def)
  have new: "distinct (map fst ?new)" "\<And>k. map_of ?new k = (if k = key row then Some row else map_of newest k)"
    using dist by (simp_all add: distinct_update update_conv')
  consider "\<not> elig row" | "elig row" "map_of newest (key row) = None"
    | current where "elig row" "map_of newest (key row) = Some current" "ord row \<le> ord current"
    | current where "elig row" "map_of newest (key row) = Some current" "\<not> ord row \<le> ord current"
    by (cases "map_of newest (key row)") auto
  then show ?thesis
  proof cases
    case 1
    then have "keep_newest key ord elig newest row = newest" by (simp add: keep_newest_def)
    then show ?thesis using 1 dist none some unfolding newest_of_def by fastforce
  next
    case 2
    then have "keep_newest key ord elig newest row = ?new" by (simp add: keep_newest_def)
    then show ?thesis using 2 new none some unfolding newest_of_def by (auto split: if_splits)
  next
    case 3
    then have "keep_newest key ord elig newest row = newest" by (simp add: keep_newest_def)
    then show ?thesis using 3 dist none some unfolding newest_of_def by fastforce
  next
    case 4
    then have "keep_newest key ord elig newest row = ?new" by (simp add: keep_newest_def)
    moreover have "ord r' \<le> ord row" if "r' \<in> seen" "elig r'" "key r' = key row" for r'
      using some [OF 4(2)] that 4(3) by fastforce
    ultimately show ?thesis using 4 new none some unfolding newest_of_def by (auto split: if_splits)
  qed
qed

lemma keep_newest_fold:
  "newest_of key ord elig seen newest \<Longrightarrow> newest_of key ord elig (seen \<union> set rows) (foldl (keep_newest key ord elig) newest rows)"
proof (induction rows arbitrary: seen newest)
  case (Cons row rows)
  show ?case using Cons.IH [OF keep_newest_step [OF Cons.prems, of row]] by simp
qed simp

lemma newest_of_rows:
  assumes "newest_of key ord elig seen newest" "\<And>r r'. r \<in> seen \<Longrightarrow> r' \<in> seen \<Longrightarrow> key r = key r' \<Longrightarrow> ord r = ord r' \<Longrightarrow> r = r'"
  shows "set (map snd newest) = {r \<in> seen. elig r \<and> (\<forall>r' \<in> seen. elig r' \<and> key r' = key r \<longrightarrow> ord r' \<le> ord r)}"
    and "distinct (map key (map snd newest))"
proof -
  have dist: "distinct (map fst newest)"
    and none: "\<And>k r. map_of newest k = None \<Longrightarrow> r \<in> seen \<Longrightarrow> elig r \<Longrightarrow> key r \<noteq> k"
    and some: "\<And>k r. map_of newest k = Some r \<Longrightarrow> r \<in> seen \<and> elig r \<and> key r = k \<and> (\<forall>r' \<in> seen. elig r' \<and> key r' = k \<longrightarrow> ord r' \<le> ord r)"
    using assms(1) by (auto simp: newest_of_def)
  have entry: "map_of newest k = Some r \<longleftrightarrow> (k, r) \<in> set newest" for k r using dist by simp
  show "set (map snd newest) = {r \<in> seen. elig r \<and> (\<forall>r' \<in> seen. elig r' \<and> key r' = key r \<longrightarrow> ord r' \<le> ord r)}"
  proof (intro set_eqI iffI)
    fix r assume "r \<in> set (map snd newest)"
    then obtain k where "map_of newest k = Some r" using entry by force
    then show "r \<in> {r \<in> seen. elig r \<and> (\<forall>r' \<in> seen. elig r' \<and> key r' = key r \<longrightarrow> ord r' \<le> ord r)}" using some by blast
  next
    fix r assume r: "r \<in> {r \<in> seen. elig r \<and> (\<forall>r' \<in> seen. elig r' \<and> key r' = key r \<longrightarrow> ord r' \<le> ord r)}"
    then obtain x where x: "map_of newest (key r) = Some x" using none by blast
    then have "x \<in> seen" "key x = key r" "ord x \<le> ord r" "ord r \<le> ord x" using some [OF x] r by auto
    then have "x = r" using r by (intro assms(2)) auto
    then have "(key r, r) \<in> set newest" using x entry by simp
    then show "r \<in> set (map snd newest)" by force
  qed
  have "map key (map snd newest) = map fst newest" using some entry by (auto intro!: map_cong)
  then show "distinct (map key (map snd newest))" using dist by (simp only:)
qed

end
