(* ===== verification/SuiSample.thy ===== *)
theory SuiSample
  imports SuiView
begin

text \<open>
  A range read selects a sample as one statement does: the objects, the e-mode values, the token
  metadata and the certificate counts of \<open>suiSQLRangeView.sample\<close> (\<open>sui_sql_range.go\<close>) are those that
  \<open>portfolioSQL\<close> (\<open>sui_sql_query.go\<close>) selects for the same sample.
\<close>

section \<open>Fixed-width identifiers sort by checkpoint\<close>

lemma digits_val_start: "digits_val a xs = a * 10 ^ length xs + digits_val 0 xs"
proof (induction xs arbitrary: a)
  case (Cons c xs)
  have "digits_val a (c # xs) = digits_val (10 * a + digit_val c) xs" "digits_val 0 (c # xs) = digits_val (digit_val c) xs"
    by (simp_all add: digits_val_def)
  then show ?case using Cons [of "10 * a + digit_val c"] Cons [of "digit_val c"] by (simp add: algebra_simps)
qed (simp add: digits_val_def)

lemma digits_val_bound: "list_all is_digit xs \<Longrightarrow> digits_val 0 xs < 10 ^ length xs"
proof (induction xs)
  case (Cons c xs)
  have "digits_val 0 (c # xs) = digit_val c * 10 ^ length xs + digits_val 0 xs"
    using digits_val_start [of "digit_val c" xs] by (simp add: digits_val_def)
  moreover have "digit_val c * 10 ^ length xs \<le> 9 * 10 ^ length xs" using digit_val_less [of c] Cons.prems by simp
  moreover have "digits_val 0 xs < 10 ^ length xs" using Cons by simp
  ultimately show ?case unfolding length_Cons power_Suc by linarith
qed (simp add: digits_val_def)

lemma digit_order: "is_digit c \<Longrightarrow> is_digit d \<Longrightarrow> c < d \<Longrightarrow> digit_val c < digit_val d"
  by (auto simp: is_digit_def digit_val_def less_char_def)

lemma fixed_width_less:
  "length xs = length ys \<Longrightarrow> list_all is_digit xs \<Longrightarrow> list_all is_digit ys \<Longrightarrow> xs < ys \<Longrightarrow> digits_val 0 xs < digits_val 0 ys"
proof (induction xs ys rule: list_induct2)
  case (Cons c xs d ys)
  have val: "digits_val 0 (e # zs) = digit_val e * 10 ^ length zs + digits_val 0 zs" for e zs
    using digits_val_start [of "digit_val e" zs] by (simp add: digits_val_def)
  consider "c < d" | "c = d" "xs < ys" using Cons.prems(3) by auto
  then show ?case
  proof cases
    case 1
    then have "Suc (digit_val c) * 10 ^ length xs \<le> digit_val d * 10 ^ length xs"
      using digit_order Cons.prems(1,2) by (intro mult_right_mono Suc_leI) auto
    moreover have "digits_val 0 xs < 10 ^ length xs" using Cons.prems(1) by (intro digits_val_bound) simp
    ultimately show ?thesis using Cons.hyps by (simp add: val)
  next
    case 2
    then show ?thesis using Cons by (simp add: val)
  qed
qed simp

lemma fixed_width_append: "length xs = length ys \<Longrightarrow> (xs :: string) < ys \<Longrightarrow> xs @ s < ys @ t"
  by (induction xs ys rule: list_induct2) auto

lemma show_nat_width: "n < 10 ^ Suc k \<Longrightarrow> length (show_nat n) \<le> Suc k"
proof (induction k arbitrary: n)
  case 0
  then show ?case by (subst show_nat.simps) simp
next
  case (Suc k)
  then have "n div 10 < 10 ^ Suc k" by (simp add: less_mult_imp_div_less)
  then show ?case using Suc.IH [of "n div 10"] by (subst show_nat.simps) simp
qed

lemma pad20_width [simp]: "length (pad20 n) = 20"
proof -
  have "unat n < 10 ^ Suc 19" using unat_u64_less [of n] by simp
  then have "length (show_u64 n) \<le> 20" unfolding show_u64_def using show_nat_width [of "unat n" 19] by simp
  then show ?thesis by (simp add: pad20_def)
qed

lemma pad20_digits: "list_all is_digit (pad20 n)"
  using show_nat_digits [of "unat n"] by (auto simp: pad20_def show_u64_def list_all_iff is_digit_def)

lemma pad20_val: "digits_val 0 (pad20 n) = unat n"
proof -
  have "digits_val 0 (replicate k CHR ''0'') = 0" for k by (induction k) (auto simp: digits_val_def digit_val_def)
  then show ?thesis by (simp add: pad20_def show_u64_def digits_val_show_nat)
qed

lemma pad20_le: "pad20 a \<le> pad20 b \<longleftrightarrow> a \<le> b"
proof -
  have less: "a < b" if "pad20 a < pad20 b" for a b
    using fixed_width_less [OF _ pad20_digits pad20_digits that] by (simp add: pad20_val word_less_nat_alt)
  have "pad20 a = pad20 b \<Longrightarrow> a = b" by (metis pad20_val word_unat_eq_iff)
  then show ?thesis using less [of a b] less [of b a] by (metis linorder_less_linear order_le_less order_less_asym)
qed

lemma emode_bound_mono: "a \<le> b \<Longrightarrow> emode_bound a \<le> emode_bound b"
proof (cases "a = b")
  case False
  assume "a \<le> b"
  then have "pad20 a < pad20 b" using False pad20_le [of a b] pad20_le [of b a] by (metis order_antisym not_le)
  then have "pad20 a @ '':~'' < pad20 b @ '':~''" by (intro fixed_width_append) simp_all
  then show ?thesis by (simp add: emode_bound_def)
qed simp

section \<open>Newest per key\<close>

text \<open>A fold that keeps the newest row per key is the \<open>LIMIT 1 BY\<close> of the rows it admits.\<close>

lemma keep_newest_limit:
  assumes unique: "\<And>r r'. r \<in> S \<Longrightarrow> r' \<in> S \<Longrightarrow> key r = key r' \<Longrightarrow> ord r = ord r' \<Longrightarrow> r = r'"
    and step: "\<And>newest row. row \<in> S \<Longrightarrow> (\<forall>k r. map_of newest k = Some r \<longrightarrow> r \<in> S \<and> key r = k)
      \<Longrightarrow> keep newest row = keep_newest key ord elig newest row"
    and rows: "set rows \<subseteq> S" and chosen: "set chosen = {r \<in> set rows. elig r}"
  shows "mset (map snd (foldl keep [] rows)) = mset (limit_one_by key ord chosen)"
proof -
  have fold: "foldl keep newest xs = foldl (keep_newest key ord elig) newest xs"
    if "newest_of key ord elig seen newest" "seen \<subseteq> S" "set xs \<subseteq> S" for xs newest seen
    using that
  proof (induction xs arbitrary: newest seen)
    case (Cons x xs)
    have "\<forall>k r. map_of newest k = Some r \<longrightarrow> r \<in> S \<and> key r = k"
      using Cons.prems(1,2) unfolding newest_of_def by blast
    then have "keep newest x = keep_newest key ord elig newest x" using Cons.prems(3) by (intro step) auto
    then show ?case using Cons.IH [OF keep_newest_step [OF Cons.prems(1), of x]] Cons.prems(2,3) by simp
  qed simp
  have "newest_of key ord elig {} []" by (simp add: newest_of_def)
  then have newest: "newest_of key ord elig (set rows) (foldl keep [] rows)"
    using keep_newest_fold [of key ord elig "{}" "[]" rows] fold [of "{}" "[]" rows] rows by simp
  have dup: "r = r'" if "r \<in> set rows" "r' \<in> set rows" "key r = key r'" "ord r = ord r'" for r r'
    using unique rows that by blast
  have newest_set: "set (map snd (foldl keep [] rows)) = {r \<in> set rows. elig r \<and> (\<forall>r' \<in> set rows. elig r' \<and> key r' = key r \<longrightarrow> ord r' \<le> ord r)}"
    by (rule newest_of_rows(1) [OF newest dup])
  have "set (map snd (foldl keep [] rows)) = set (limit_one_by key ord chosen)"
  proof (subst limit_one_by_set)
    show "r = r'" if "r \<in> set chosen" "r' \<in> set chosen" "key r = key r'" "ord r = ord r'" for r r'
      using that chosen by (intro dup) auto
    show "set (map snd (foldl keep [] rows)) = {r \<in> set chosen. \<forall>r' \<in> set chosen. key r' = key r \<longrightarrow> ord r' \<le> ord r}"
      using newest_set unfolding chosen by blast
  qed
  moreover have "distinct (map snd (foldl keep [] rows))"
    using newest_of_rows(2) [OF newest dup] by (rule distinct_map [THEN iffD1, THEN conjunct1])
  moreover have "distinct (limit_one_by key ord chosen)"
    using limit_one_by_keys by (rule distinct_map [THEN iffD1, THEN conjunct1])
  ultimately show ?thesis by (metis set_eq_iff_mset_eq_distinct)
qed

lemma tables_ok_values:
  assumes "tables_ok db"
  shows "v \<in> set (tb_values db) \<Longrightarrow> ok_uint (va_checkpoint v) \<and> ok_uint (va_materialized v)"
    and "v \<in> set (tb_values db) \<Longrightarrow> v' \<in> set (tb_values db) \<Longrightarrow> (va_kind v, va_account v, va_market v) = (va_kind v', va_account v', va_market v')
      \<Longrightarrow> col (va_checkpoint v) = col (va_checkpoint v') \<Longrightarrow> v = v'"
    and "m \<in> set (tb_metadata db) \<Longrightarrow> ok_uint (md_checkpoint m) \<and> ok_uint (md_materialized m)"
    and "m \<in> set (tb_metadata db) \<Longrightarrow> m' \<in> set (tb_metadata db) \<Longrightarrow> md_coin m = md_coin m'
      \<Longrightarrow> col (md_checkpoint m) = col (md_checkpoint m') \<Longrightarrow> m = m'"
  using assms unfolding tables_ok_def by blast+

definition value_elig :: "string list \<Rightarrow> u64 \<Rightarrow> u64 \<Rightarrow> suiSQLValue \<Rightarrow> bool" where
  "value_elig accounts C M v \<longleftrightarrow> ''emode:'' \<le> va_id v \<and> va_id v \<le> emode_bound C \<and> col (va_materialized v) \<le> M \<and> va_account v \<in> set accounts"

lemma keep_value_newest:
  assumes "tables_ok db" "row \<in> set (tb_values db)"
    and "\<forall>k r. map_of newest k = Some r \<longrightarrow> r \<in> set (tb_values db) \<and> (va_kind r, va_account r, va_market r) = k"
  shows "keep_value accounts C M newest row
    = keep_newest (\<lambda>v. (va_kind v, va_account v, va_market v)) (\<lambda>v. col (va_checkpoint v)) (value_elig accounts C M) newest row"
proof -
  let ?k = "(va_kind row, va_account row, va_market row)"
  have ok: "ok_uint (va_checkpoint row)" "ok_uint (va_materialized row)" using tables_ok_values(1) [OF assms(1,2)] by auto
  have stay: "(col (va_checkpoint cur) > col (va_checkpoint row) \<or> (col (va_checkpoint cur) = col (va_checkpoint row) \<and> va_id cur \<ge> va_id row))
      \<longleftrightarrow> col (va_checkpoint row) \<le> col (va_checkpoint cur)" if cur: "map_of newest ?k = Some cur" for cur
  proof -
    have "cur = row" if "col (va_checkpoint cur) = col (va_checkpoint row)"
      using assms(3) cur that by (intro tables_ok_values(2) [OF assms(1) _ assms(2)]) auto
    then show ?thesis by auto
  qed
  show ?thesis
    unfolding keep_value_def keep_newest_def value_elig_def Let_def
    by (cases "map_of newest ?k") (use ok stay in \<open>auto simp: not_less not_le\<close>)
qed

lemma keep_metadata_newest:
  assumes "tables_ok db" "row \<in> set (tb_metadata db)"
  shows "keep_metadata M newest row = keep_newest md_coin (\<lambda>m. col (md_checkpoint m))
    (\<lambda>m. col (md_checkpoint m) \<le> M \<and> col (md_materialized m) \<le> M) newest row"
  using tables_ok_values(3) [OF assms]
  by (cases "map_of newest (md_coin row)") (auto simp: keep_metadata_def keep_newest_def)

lemma mset_sort_key: "mset (sort_key f xs) = mset xs"
  by simp

lemma sample_values:
  assumes "tables_ok db" "s \<in> set samples" and v: "v = range_view_of js db protocol kinds owner samples"
    and navi: "protocol = ''navi''"
  defines "C \<equiv> col (sn_checkpoint s)" and "M \<equiv> col (sn_materialized s)"
  shows "mset (sampleValues v (account_names js owner (owned_roots owner (map snd (view_roots v kinds C M)))) C M)
    = mset (portfolio_values js db protocol kinds owner C M)"
proof -
  let ?rl = "range_lending db kinds owner (sample_checkpoints samples) (last_checkpoint samples) (last_materialized samples)"
  let ?A = "account_names js owner (owned_roots owner (map snd (view_roots v kinds C M)))"
  let ?B = "account_names js owner (st_roots (lending_stages db kinds owner C M))"
  note b = sample_bounds [OF assms(2), folded C_def M_def]
  note lending = view_lending [OF assms(1,2) v, folded C_def M_def]
  have A: "set ?A = sample_accounts js db kinds owner C M"
    by (simp add: derived_sets lending(1) sample_accounts_def sample_owned_def)
  have B: "set ?B = set ?A"
    unfolding A by (simp add: derived_sets single_roots [OF assms(1)] sample_accounts_def sample_owned_def)
  have wide: "set ?A \<subseteq> set (account_names js owner (rt_roots ?rl))"
    using lending(4) unfolding A unfolding sample_accounts_def sample_owned_def derived_sets by blast
  have bound: "x \<le> emode_bound (last_checkpoint samples)" if "x \<le> emode_bound C" for x
    using that emode_bound_mono [OF b(3)] by (rule order_trans)
  have rows: "rv_values v = filter (value_elig (account_names js owner (rt_roots ?rl)) (last_checkpoint samples) (last_materialized samples)) (tb_values db)"
    by (simp add: v navi range_view_of_def range_rows_def Let_def value_elig_def [abs_def])
  have single: "portfolio_values js db protocol kinds owner C M = limit_one_by (\<lambda>v. (va_kind v, va_account v, va_market v))
      (\<lambda>v. col (va_checkpoint v)) (filter (value_elig ?B C M) (tb_values db))"
    by (simp add: navi portfolio_values_def value_elig_def [abs_def])
  show ?thesis
    unfolding sampleValues_def mset_sort_key single
  proof (rule keep_newest_limit [where S = "set (tb_values db)" and elig = "value_elig ?A C M"])
    show "set (filter (value_elig ?B C M) (tb_values db)) = {r \<in> set (rv_values v). value_elig ?A C M r}"
      unfolding rows value_elig_def B using wide b(4) bound by (auto intro: order_trans)
    show "set (rv_values v) \<subseteq> set (tb_values db)" by (auto simp: rows)
  qed (use tables_ok_values(2) [OF assms(1)] keep_value_newest [OF assms(1)] in \<open>simp_all\<close>)
qed

lemma sample_metadata:
  assumes "tables_ok db" "s \<in> set samples" and v: "v = range_view_of js db protocol kinds owner samples"
  shows "mset (sampleMetadata v (col (sn_materialized s))) = mset (portfolio_metadata db (col (sn_materialized s)))"
  unfolding sampleMetadata_def mset_sort_key portfolio_metadata_def
proof (rule keep_newest_limit [where S = "set (tb_metadata db)"
      and elig = "\<lambda>m. col (md_checkpoint m) \<le> col (sn_materialized s) \<and> col (md_materialized m) \<le> col (sn_materialized s)"])
  show "set (filter (\<lambda>m. col (md_checkpoint m) \<le> col (sn_materialized s) \<and> col (md_materialized m) \<le> col (sn_materialized s)) (tb_metadata db))
      = {r \<in> set (rv_metadata v). col (md_checkpoint r) \<le> col (sn_materialized s) \<and> col (md_materialized r) \<le> col (sn_materialized s)}"
    using sample_bounds(4) [OF assms(2)] by (auto simp: v range_view_of_def range_rows_def Let_def intro: order_trans)
  show "set (rv_metadata v) \<subseteq> set (tb_metadata db)" by (auto simp: v range_view_of_def range_rows_def Let_def)
qed (use tables_ok_values(4) [OF assms(1)] keep_metadata_newest [OF assms(1)] in \<open>simp_all\<close>)

section \<open>Certificate counts\<close>

lemma bucket_sample:
  assumes "samples_ok samples" "s \<in> set samples" "col (sn_previous s) < c" "c \<le> col (sn_checkpoint s)"
  shows "bucket_of (sample_checkpoints samples) c = Some (col (sn_checkpoint s))"
proof -
  note b = sample_bounds [OF assms(2)]
  obtain x where x: "bucket_of (sample_checkpoints samples) c = Some x"
    using b(1) assms(4) by (cases "bucket_of (sample_checkpoints samples) c") (auto simp: bucket_of_def find_None_iff)
  then obtain i where i: "i < length (sample_checkpoints samples)" "c \<le> x" "x = sample_checkpoints samples ! i"
      "\<forall>j < i. \<not> c \<le> sample_checkpoints samples ! j"
    by (auto simp: bucket_of_def find_Some_iff)
  obtain j where j: "j < length (sample_checkpoints samples)" "col (sn_checkpoint s) = sample_checkpoints samples ! j"
    using b(1) by (auto simp: in_set_conv_nth)
  then have "i \<le> j" using i(4) assms(4) by (metis not_le)
  then have le: "x \<le> col (sn_checkpoint s)" using i(3) j sorted_nth_mono [OF b(2)] by simp
  have "x \<in> set (sample_checkpoints samples)" using i by simp
  then obtain s' where s': "s' \<in> set samples" "x = col (sn_checkpoint s')" by (auto simp: sample_checkpoints_def)
  have "\<not> x < col (sn_checkpoint s)"
  proof
    assume "x < col (sn_checkpoint s)"
    then have "x \<le> col (sn_previous s)" using assms(1,2) s' unfolding samples_ok_def by blast
    then show False using assms(3) i(2) by simp
  qed
  then show ?thesis using x le by simp
qed

lemma sample_of_checkpoint:
  assumes "samples_ok samples" "s \<in> set samples"
  shows "sample_of samples (col (sn_checkpoint s)) = s"
proof -
  have "filter (\<lambda>x. col (sn_checkpoint x) = col (sn_checkpoint s)) samples \<noteq> []" using assms(2) by (auto simp: filter_empty_conv)
  then have "sample_of samples (col (sn_checkpoint s)) \<in> set (filter (\<lambda>x. col (sn_checkpoint x) = col (sn_checkpoint s)) samples)"
    unfolding sample_of_def by (rule hd_in_set)
  then show ?thesis using assms unfolding samples_ok_def by auto
qed

text \<open>The rows a range statement counts for a sample are those of the sample's own interval.\<close>

definition counted_rows :: "suiSQLSnapshot list \<Rightarrow> string list \<Rightarrow> ('r \<Rightarrow> string \<times> string \<times> u64 \<times> u64) \<Rightarrow> 'r list \<Rightarrow> (u64 \<times> string) list" where
  "counted_rows samples kinds row rows = concat (map (\<lambda>r. case row r of (rid, kind, c, m) \<Rightarrow>
     if kind \<in> set kinds \<and> Min (set (map (col \<circ> sn_previous) samples)) < c \<and> c \<le> last_checkpoint samples then
       (case bucket_of (sample_checkpoints samples) c of None \<Rightarrow> []
        | Some b \<Rightarrow> if col (sn_previous (sample_of samples b)) < c \<and> m \<le> col (sn_materialized (sample_of samples b))
            then [(b, rid)] else [])
     else []) rows)"

lemma counted_rows_set:
  assumes "samples_ok samples" "s \<in> set samples"
  shows "(col (sn_checkpoint s), rid) \<in> set (counted_rows samples kinds row rows)
    \<longleftrightarrow> (\<exists>r \<in> set rows. \<exists>kind c m. row r = (rid, kind, c, m) \<and> kind \<in> set kinds \<and> col (sn_previous s) < c
          \<and> c \<le> col (sn_checkpoint s) \<and> m \<le> col (sn_materialized s))"
proof -
  have floor: "Min (set (map (col \<circ> sn_previous) samples)) < c" if "col (sn_previous s) < c" for c
    using that assms(2) by (auto intro: le_less_trans [OF Min_le])
  have within: "c \<le> b" if "bucket_of (sample_checkpoints samples) c = Some b" for b c
    using that by (auto simp: bucket_of_def find_Some_iff)
  have entry: "(col (sn_checkpoint s), rid) \<in> set (case bucket_of (sample_checkpoints samples) c of None \<Rightarrow> []
        | Some b \<Rightarrow> if col (sn_previous (sample_of samples b)) < c \<and> m \<le> col (sn_materialized (sample_of samples b)) then [(b, x)] else [])
      \<longleftrightarrow> x = rid \<and> col (sn_previous s) < c \<and> c \<le> col (sn_checkpoint s) \<and> m \<le> col (sn_materialized s)" for c m x
    using bucket_sample [OF assms] sample_of_checkpoint [OF assms] within
    by (cases "bucket_of (sample_checkpoints samples) c") (auto split: if_splits)
  show ?thesis
  proof
    assume "(col (sn_checkpoint s), rid) \<in> set (counted_rows samples kinds row rows)"
    then obtain r where r: "r \<in> set rows" "(col (sn_checkpoint s), rid) \<in> set (case row r of (rid, kind, c, m) \<Rightarrow>
        if kind \<in> set kinds \<and> Min (set (map (col \<circ> sn_previous) samples)) < c \<and> c \<le> last_checkpoint samples then
          (case bucket_of (sample_checkpoints samples) c of None \<Rightarrow> []
           | Some b \<Rightarrow> if col (sn_previous (sample_of samples b)) < c \<and> m \<le> col (sn_materialized (sample_of samples b))
               then [(b, rid)] else [])
        else [])"
      unfolding counted_rows_def set_concat set_map by blast
    obtain x kind c m where row: "row r = (x, kind, c, m)" by (rule prod_cases4)
    have guarded: "A \<and> p \<in> set L" if "p \<in> set (if A then L else [])" for A and p :: "u64 \<times> string" and L
      using that by (simp split: if_splits)
    have "kind \<in> set kinds" "x = rid \<and> col (sn_previous s) < c \<and> c \<le> col (sn_checkpoint s) \<and> m \<le> col (sn_materialized s)"
      using guarded [OF r(2) [unfolded row prod.case]] unfolding entry by blast+
    then show "\<exists>r \<in> set rows. \<exists>kind c m. row r = (rid, kind, c, m) \<and> kind \<in> set kinds \<and> col (sn_previous s) < c
        \<and> c \<le> col (sn_checkpoint s) \<and> m \<le> col (sn_materialized s)"
      using r(1) row by blast
  next
    assume "\<exists>r \<in> set rows. \<exists>kind c m. row r = (rid, kind, c, m) \<and> kind \<in> set kinds \<and> col (sn_previous s) < c
        \<and> c \<le> col (sn_checkpoint s) \<and> m \<le> col (sn_materialized s)"
    then obtain r kind c m where r: "r \<in> set rows" "row r = (rid, kind, c, m)" "kind \<in> set kinds" "col (sn_previous s) < c"
        "c \<le> col (sn_checkpoint s)" "m \<le> col (sn_materialized s)" by blast
    have "c \<le> last_checkpoint samples" using r(5) sample_bounds(3) [OF assms(2)] by simp
    then have guard: "kind \<in> set kinds \<and> Min (set (map (col \<circ> sn_previous) samples)) < c \<and> c \<le> last_checkpoint samples"
      using r(3,4) floor by blast
    have "(col (sn_checkpoint s), rid) \<in> set (case row r of (rid, kind, c, m) \<Rightarrow>
        if kind \<in> set kinds \<and> Min (set (map (col \<circ> sn_previous) samples)) < c \<and> c \<le> last_checkpoint samples then
          (case bucket_of (sample_checkpoints samples) c of None \<Rightarrow> []
           | Some b \<Rightarrow> if col (sn_previous (sample_of samples b)) < c \<and> m \<le> col (sn_materialized (sample_of samples b))
               then [(b, rid)] else [])
        else [])"
      unfolding r(2) prod.case if_P [OF guard] entry using r by simp
    then show "(col (sn_checkpoint s), rid) \<in> set (counted_rows samples kinds row rows)"
      unfolding counted_rows_def set_concat set_map using r(1) by blast
  qed
qed

lemma length_remdups_cong: "set xs = set ys \<Longrightarrow> length (remdups xs) = length (remdups ys)"
  by (metis length_remdups_card_conv)

lemma count_lookup:
  assumes "samples_ok samples" "s \<in> set samples"
  shows "(case map_of (map (\<lambda>c. ((co_table c, co_checkpoint c), co_count c)) (count_rows samples table kinds row rows)) (table, sn_checkpoint s) of
      None \<Rightarrow> ''0'' | Some n \<Rightarrow> n)
    = show_nat (length (remdups (map fst (filter (\<lambda>(rid, kind, c, m). kind \<in> set kinds \<and> col (sn_previous s) < c
        \<and> c \<le> col (sn_checkpoint s) \<and> m \<le> col (sn_materialized s)) (map row rows)))))"
proof -
  define counted where "counted = counted_rows samples kinds row rows"
  define n where "n = (\<lambda>b. show_nat (length (remdups (map snd (filter (\<lambda>p. fst p = b) counted)))))"
  let ?C = "col (sn_checkpoint s)"
  have cp: "sn_checkpoint s = show_u64 ?C" using assms unfolding samples_ok_def ok_uint_col by blast
  have rows_eq: "count_rows samples table kinds row rows = map (\<lambda>b. \<lparr>co_table = table, co_checkpoint = show_u64 b, co_count = n b\<rparr>) (remdups (map fst counted))"
    unfolding count_rows_def Let_def n_def counted_def counted_rows_def ..
  have lookup: "map_of (map (\<lambda>c. ((co_table c, co_checkpoint c), co_count c))
      (map (\<lambda>b. \<lparr>co_table = table, co_checkpoint = show_u64 b, co_count = n b\<rparr>) bs)) (table, show_u64 b)
    = (if b \<in> set bs then Some (n b) else None)" for bs b
    by (induction bs) (auto simp: show_u64_inject)
  have none: "n ?C = ''0''" if "?C \<notin> fst ` set counted"
  proof -
    have "filter (\<lambda>p. fst p = ?C) counted = []" using that by (auto simp: filter_empty_conv image_iff)
    moreover have "show_nat 0 = ''0''" by code_simp
    ultimately show ?thesis unfolding n_def by simp
  qed
  have "(case map_of (map (\<lambda>c. ((co_table c, co_checkpoint c), co_count c)) (count_rows samples table kinds row rows)) (table, sn_checkpoint s) of
      None \<Rightarrow> ''0'' | Some n \<Rightarrow> n) = n ?C"
    unfolding rows_eq by (subst cp, unfold lookup) (use none in auto)
  also have "\<dots> = show_nat (length (remdups (map fst (filter (\<lambda>(rid, kind, c, m). kind \<in> set kinds \<and> col (sn_previous s) < c
        \<and> c \<le> ?C \<and> m \<le> col (sn_materialized s)) (map row rows)))))"
  proof -
    have "rid \<in> set (map snd (filter (\<lambda>p. fst p = ?C) counted)) \<longleftrightarrow> rid \<in> set (map fst (filter (\<lambda>(rid, kind, c, m). kind \<in> set kinds
        \<and> col (sn_previous s) < c \<and> c \<le> ?C \<and> m \<le> col (sn_materialized s)) (map row rows)))" for rid
    proof -
      have "rid \<in> set (map snd (filter (\<lambda>p. fst p = ?C) counted)) \<longleftrightarrow> (?C, rid) \<in> set counted" by force
      then show ?thesis unfolding counted_def counted_rows_set [OF assms] by (force simp: case_prod_beta)
    qed
    then show ?thesis unfolding n_def by (intro arg_cong [where f = show_nat] length_remdups_cong) blast
  qed
  finally show ?thesis .
qed

lemma sample_counts:
  assumes "samples_ok samples" "s \<in> set samples" and v: "v = range_view_of js db protocol kinds owner samples"
  defines "C \<equiv> col (sn_checkpoint s)" and "M \<equiv> col (sn_materialized s)" and "prev \<equiv> col (sn_previous s)"
  shows "view_count v ''object'' (sn_checkpoint s) = show_nat (object_count db (all_kinds kinds) prev C M)"
    and "values_of kinds \<noteq> [] \<Longrightarrow> view_count v ''value'' (sn_checkpoint s) = show_nat (value_count db (values_of kinds) prev C M)"
proof -
  let ?objects = "count_rows samples ''object'' (all_kinds kinds) (\<lambda>ob. (ob_id ob, ob_kind ob, col (ob_checkpoint ob), mat_of ob)) (tb_states db)"
  let ?vals = "count_rows samples ''value'' (values_of kinds) (\<lambda>v. (va_id v, va_kind v, col (va_checkpoint v), col (va_materialized v))) (tb_values_raw db)"
  let ?entry = "\<lambda>c. ((co_table c, co_checkpoint c), co_count c)"
  have other: "map_of (map ?entry (count_rows samples t ks row rows)) (t', k) = None" if "t \<noteq> t'" for t ks t' k and row :: "'r \<Rightarrow> _" and rows
    using that by (auto simp: map_of_eq_None_iff dest: count_rows_table)
  have counts: "rv_counts v = map ?entry (?objects @ (if values_of kinds = [] then [] else ?vals))"
    by (simp add: v range_view_of_def range_rows_def Let_def)
  have "map_of (rv_counts v) (''object'', k) = map_of (map ?entry ?objects) (''object'', k)" for k
    by (auto simp: counts map_add_def other split: option.split)
  then show "view_count v ''object'' (sn_checkpoint s) = show_nat (object_count db (all_kinds kinds) prev C M)"
    unfolding view_count_def C_def M_def prev_def
    using count_lookup [OF assms(1,2), of "''object''" "all_kinds kinds" "\<lambda>ob. (ob_id ob, ob_kind ob, col (ob_checkpoint ob), mat_of ob)" "tb_states db"]
    by (simp add: object_count_def filter_map comp_def)
  show "view_count v ''value'' (sn_checkpoint s) = show_nat (value_count db (values_of kinds) prev C M)" if "values_of kinds \<noteq> []"
  proof -
    have "map_of (rv_counts v) (''value'', k) = map_of (map ?entry ?vals) (''value'', k)" for k
      using that by (auto simp: counts map_add_def other split: option.split)
    then show ?thesis
      unfolding view_count_def C_def M_def prev_def
      using count_lookup [OF assms(1,2), of "''value''" "values_of kinds"
          "\<lambda>v. (va_id v, va_kind v, col (va_checkpoint v), col (va_materialized v))" "tb_values_raw db"]
      by (simp add: value_count_def filter_map comp_def)
  qed
qed

section \<open>Objects\<close>

definition sample_stages_of :: "(string \<Rightarrow> string \<Rightarrow> string) \<Rightarrow> sui_tables \<Rightarrow> string \<Rightarrow> suiSQLKinds \<Rightarrow> sui_address \<Rightarrow> u64 \<Rightarrow> u64
    \<Rightarrow> ((string \<Rightarrow> bool) \<times> string list) set" where
  "sample_stages_of js db protocol kinds owner C M =
     {(root_candidate db kinds owner C, roots_of kinds), (direct_candidate db kinds owner C M, direct_of kinds)}
     \<union> (if second_of kinds = [] then {} else {(second_candidate db kinds owner C M, second_of kinds)})
     \<union> (if protocol = ''navi'' then {((\<lambda>oid. True), topology_of kinds), (child_candidate js db kinds owner C M, children_of kinds)} else {})"

definition view_selected :: "(string \<Rightarrow> string \<Rightarrow> string) \<Rightarrow> range_view \<Rightarrow> string \<Rightarrow> suiSQLKinds \<Rightarrow> sui_address \<Rightarrow> u64 \<Rightarrow> u64
    \<Rightarrow> (string \<times> suiSQLObject) list" where
  "view_selected js v protocol kinds owner C M = view_roots v kinds C M @ view_direct v kinds owner C M @ view_second v kinds owner C M
     @ (if protocol = ''navi'' then view_latest v None (topology_of kinds) C M @ view_children js v kinds owner C M else [])"

lemma paired_Un: "paired (A \<union> B) = paired A \<union> paired B"
  by (auto simp: paired_def)

lemma view_selected_stages:
  assumes "tables_ok db" "s \<in> set samples" and v: "v = range_view_of js db protocol kinds owner samples"
  defines "C \<equiv> col (sn_checkpoint s)" and "M \<equiv> col (sn_materialized s)"
  shows "set (view_selected js v protocol kinds owner C M)
    = paired (\<Union>st \<in> sample_stages_of js db protocol kinds owner C M. stage_rows db (fst st) (snd st) C M)"
proof -
  note lending = view_lending [OF assms(1,2) v, folded C_def M_def]
  note navi = view_navi [OF assms(1,2) v, folded C_def M_def]
  show ?thesis
    unfolding view_selected_def set_append sample_stages_of_def UN_Un paired_Un lending(1-3)
    using navi by (auto simp: paired_Un sample_roots_def sample_direct_def sample_topology_def paired_def)
qed

lemma single_stage_ids:
  assumes "tables_ok db"
  shows "sid \<in> set (st_ids (lending_stages db kinds owner C M)
      @ (if protocol = ''navi'' then topology_ids db kinds C @ child_ids js db kinds owner C M else []))
    \<longleftrightarrow> (\<exists>st \<in> sample_stages_of js db protocol kinds owner C M. selected db (fst st) (snd st) C sid)"
  unfolding sample_stages_of_def set_append single_ids [OF assms]
  by (auto simp: single_children [OF assms] topology_ids_def latest_ids_set)

lemma sample_objects:
  assumes "tables_ok db" "s \<in> set samples" and v: "v = range_view_of js db protocol kinds owner samples"
  defines "C \<equiv> col (sn_checkpoint s)" and "M \<equiv> col (sn_materialized s)"
  shows "mset (best_rows (view_selected js v protocol kinds owner C M)) = mset (portfolio_objects js db protocol kinds owner C M)"
proof -
  note fetched = fetch_all_stages [OF assms(1) single_stage_ids [OF assms(1), of _ kinds owner C M protocol js], where M = M]
  note chosen = view_selected_stages [OF assms(1,2) v, folded C_def M_def]
  have "set (best_rows (view_selected js v protocol kinds owner C M)) = set (portfolio_objects js db protocol kinds owner C M)"
    unfolding portfolio_objects_def fetched(1) by (rule best_rows_set(1) [OF chosen fetched(2)])
  moreover have "distinct (map ob_object (best_rows (view_selected js v protocol kinds owner C M)))"
    by (rule best_rows_set(2) [OF chosen fetched(2)])
  moreover have "distinct (map ob_object (portfolio_objects js db protocol kinds owner C M))"
    unfolding portfolio_objects_def fetch_rows_def by (rule limit_one_by_keys)
  ultimately show ?thesis unfolding distinct_map by (metis set_eq_iff_mset_eq_distinct)
qed

section \<open>The sample\<close>

text \<open>The order of a result's rows is not the statement's: it sorts nothing, the view sorts all.\<close>

definition same_rows :: "suiSQLResult \<Rightarrow> suiSQLResult \<Rightarrow> bool" where
  "same_rows a b \<longleftrightarrow> rs_snapshots a = rs_snapshots b \<and> mset (rs_objects a) = mset (rs_objects b)
     \<and> mset (rs_metadata a) = mset (rs_metadata b) \<and> mset (rs_values a) = mset (rs_values b)"

lemma range_sample_rows:
  assumes "tables_ok db" "samples_ok samples" "s \<in> set samples" "suiSQLProtocolKinds protocol = Some kinds"
  shows "\<exists>v rows. newSuiSQLRangeView (range_rows js db protocol kinds owner samples) = Inr v
    \<and> view_sample js v protocol owner s = Inr rows \<and> same_rows rows (portfolio_rows js db protocol kinds owner s)"
proof -
  define v where "v = range_view_of js db protocol kinds owner samples"
  let ?C = "col (sn_checkpoint s)" and ?M = "col (sn_materialized s)"
  have ok: "ok_uint (sn_checkpoint s)" "ok_uint (sn_materialized s)" using assms(2,3) unfolding samples_ok_def by auto
  note counts = sample_counts [OF assms(2,3) v_def]
  have "newSuiSQLRangeView (range_rows js db protocol kinds owner samples) = Inr v"
    unfolding v_def by (rule range_view_built [OF assms(1)])
  moreover obtain rows where rows: "view_sample js v protocol owner s = Inr rows"
    using assms(4) ok by (simp add: view_sample_def Let_def)
  moreover have "same_rows rows (portfolio_rows js db protocol kinds owner s)"
    unfolding same_rows_def
  proof (intro conjI)
    show "rs_snapshots rows = rs_snapshots (portfolio_rows js db protocol kinds owner s)"
      using rows assms(4) ok counts by (auto simp: view_sample_def portfolio_rows_def Let_def)
    have "rs_objects rows = sort_key ob_object (best_rows (view_selected js v protocol kinds owner ?C ?M))"
      using rows assms(4) ok by (auto simp: view_sample_def view_selected_def Let_def)
    then show "mset (rs_objects rows) = mset (rs_objects (portfolio_rows js db protocol kinds owner s))"
      using sample_objects [OF assms(1,3) v_def] by (simp add: portfolio_rows_def Let_def)
    have "rs_metadata rows = sampleMetadata v ?M"
      using rows assms(4) ok by (auto simp: view_sample_def Let_def)
    then show "mset (rs_metadata rows) = mset (rs_metadata (portfolio_rows js db protocol kinds owner s))"
      using sample_metadata [OF assms(1,3) v_def] by (simp add: portfolio_rows_def Let_def)
    have "rs_values rows = (if protocol = ''navi'' then
        sampleValues v (account_names js owner (owned_roots owner (map snd (view_roots v kinds ?C ?M)))) ?C ?M else [])"
      using rows assms(4) ok by (auto simp: view_sample_def Let_def)
    then show "mset (rs_values rows) = mset (rs_values (portfolio_rows js db protocol kinds owner s))"
      using sample_values [OF assms(1,3) v_def] by (simp add: portfolio_rows_def portfolio_values_def Let_def)
  qed
  ultimately show ?thesis by blast
qed

text \<open>C10: what a range read selects for each of its samples, from the rows of one range statement, is what
  the single-sample statement selects for that sample: the certificate with the same counts, and the same
  object, metadata and value rows.\<close>

theorem range_sample_is_portfolio:
  assumes "tables_ok db" "samples_ok samples" "s \<in> set samples" "suiSQLProtocolKinds protocol = Some kinds"
  shows "\<exists>v rows. newSuiSQLRangeView (range_rows js db protocol kinds owner samples) = Inr v
    \<and> view_sample js v protocol owner s = Inr rows \<and> same_rows rows (portfolio_rows js db protocol kinds owner s)"
  using assms by (rule range_sample_rows)

text \<open>A wallet's capability seen at checkpoint 5, and two samples of one range.\<close>

definition example_cap :: suiSQLObject where
  "example_cap = \<lparr>ob_id = ''cap:1'', ob_object = ''0xca'', ob_kind = ''cap'', ob_version = ''1'', ob_digest = [], ob_state = ''live'',
     ob_owner_kind = ''ADDRESS'', ob_owner = sui_hex 0, ob_type = [], ob_content = [], ob_checkpoint = show_u64 5,
     ob_timestamp = show_u64 0, ob_transaction = [], ob_materialized = show_u64 6, ob_parent = [], ob_key = [], ob_related = [],
     ob_links = []\<rparr>"

definition example_tables :: sui_tables where
  "example_tables = \<lparr>tb_owners = [\<lparr>ow_kind = ''cap'', ow_owner = sui_hex 0, ow_object = ''0xca'', ow_checkpoint = 5\<rparr>],
     tb_index = [\<lparr>ix_object = ''0xca'', ix_kind = ''cap'', ix_state = ''cap:1'', ix_checkpoint = 5\<rparr>],
     tb_states = [example_cap], tb_values = [], tb_values_raw = [], tb_metadata = []\<rparr>"

definition example_sample :: "u64 \<Rightarrow> u64 \<Rightarrow> suiSQLSnapshot" where
  "example_sample previous checkpoint = \<lparr>sn_object_count = ''0'', sn_value_count = ''0'', sn_observed_objects = [], sn_observed_values = [],
     sn_id = [], sn_checkpoint = show_u64 checkpoint, sn_timestamp = [], sn_digest = [], sn_start = [], sn_schema = [],
     sn_materialized = show_u64 (checkpoint + 2), sn_next_checkpoint = [], sn_next_timestamp = [], sn_previous = show_u64 previous\<rparr>"

theorem range_sample_is_portfolio_witness:
  "\<exists>v rows. newSuiSQLRangeView (range_rows (\<lambda>_ _. []) example_tables ''suilend''
        \<lparr>roots_of = [''cap''], direct_of = [''obligation''], second_of = [''market''], topology_of = [], children_of = [], values_of = []\<rparr>
        0 [example_sample 1 8, example_sample 8 20]) = Inr v
    \<and> view_sample (\<lambda>_ _. []) v ''suilend'' 0 (example_sample 1 8) = Inr rows
    \<and> same_rows rows (portfolio_rows (\<lambda>_ _. []) example_tables ''suilend''
        \<lparr>roots_of = [''cap''], direct_of = [''obligation''], second_of = [''market''], topology_of = [], children_of = [], values_of = []\<rparr>
        0 (example_sample 1 8))"
proof (rule range_sample_is_portfolio)
  show "tables_ok example_tables" by (simp add: tables_ok_def example_tables_def example_cap_def mat_of_def)
  show "samples_ok [example_sample 1 8, example_sample 8 20]" by (auto simp: samples_ok_def example_sample_def)
  show "example_sample 1 8 \<in> set [example_sample 1 8, example_sample 8 20]" by simp
  show "suiSQLProtocolKinds ''suilend'' = Some \<lparr>roots_of = [''cap''], direct_of = [''obligation''], second_of = [''market''],
      topology_of = [], children_of = [], values_of = []\<rparr>" by (simp add: suiSQLProtocolKinds_def)
qed

lemma example_object: "portfolio_objects (\<lambda>_ _. []) example_tables ''suilend''
    \<lparr>roots_of = [''cap''], direct_of = [''obligation''], second_of = [''market''], topology_of = [], children_of = [], values_of = []\<rparr>
    0 8 10 = [example_cap]"
  by (simp add: portfolio_objects_def lending_stages_def latest_ids_def fetch_rows_def limit_one_by_def example_tables_def
      example_cap_def root_candidate_def mat_of_def owned_roots_def related_ids_def Let_def live_row_def owned_by_def)

end
