(* ===== verification/SuiRange.thy ===== *)
theory SuiRange
  imports SuiSample
begin

text \<open>
  \<open>ReadRange\<close> (\<open>sui_sql_range.go\<close>): a range of time read in statements of a few samples each, sized by
  what the last one weighed and asked again for half as many when one does not fit; the placing,
  certification and calculation of each statement's samples, and what \<open>suiHistorySample.At\<close> reports of
  one. The statements' answers come from the environment, one per attempt.
\<close>

section \<open>The rows of a range statement\<close>

record range_decoders =
  dr_sample :: "string \<Rightarrow> suiSQLSnapshot option"
  dr_count :: "string \<Rightarrow> suiSQLCount option"
  dr_candidate :: "string \<Rightarrow> suiSQLCandidate option"
  dr_version :: "string \<Rightarrow> suiSQLVersion option"
  dr_object :: "string \<Rightarrow> suiSQLObject option"
  dr_metadata :: "string \<Rightarrow> suiSQLMetadata option"
  dr_value :: "string \<Rightarrow> suiSQLValue option"

definition no_range_rows :: suiSQLRange where
  "no_range_rows = \<lparr>rg_samples = [], rg_counts = [], rg_candidates = [], rg_versions = [], rg_objects = [], rg_metadata = [], rg_values = []\<rparr>"

definition decode_range_row :: "range_decoders \<Rightarrow> suiSQLRange \<Rightarrow> suiSQLRow \<Rightarrow> sui_sql_error + suiSQLRange" where
  "decode_range_row d out row =
     (if row_type row = ''sample'' then (case dr_sample d (row_payload row) of None \<Rightarrow> Inl (MalformedRow ''sample'')
        | Some v \<Rightarrow> Inr (out\<lparr>rg_samples := rg_samples out @ [v]\<rparr>))
      else if row_type row = ''count'' then (case dr_count d (row_payload row) of None \<Rightarrow> Inl (MalformedRow ''count'')
        | Some v \<Rightarrow> Inr (out\<lparr>rg_counts := rg_counts out @ [v]\<rparr>))
      else if row_type row = ''candidate'' then (case dr_candidate d (row_payload row) of None \<Rightarrow> Inl (MalformedRow ''candidate'')
        | Some v \<Rightarrow> Inr (out\<lparr>rg_candidates := rg_candidates out @ [v]\<rparr>))
      else if row_type row = ''version'' then (case dr_version d (row_payload row) of None \<Rightarrow> Inl (MalformedRow ''version'')
        | Some v \<Rightarrow> Inr (out\<lparr>rg_versions := rg_versions out @ [v]\<rparr>))
      else if row_type row = ''object'' then (case dr_object d (row_payload row) of None \<Rightarrow> Inl (MalformedRow ''object'')
        | Some v \<Rightarrow> Inr (out\<lparr>rg_objects := rg_objects out @ [v\<lparr>ob_content := row_content row\<rparr>]\<rparr>))
      else if row_type row = ''metadata'' then (case dr_metadata d (row_payload row) of None \<Rightarrow> Inl (MalformedRow ''metadata'')
        | Some v \<Rightarrow> Inr (out\<lparr>rg_metadata := rg_metadata out @ [v]\<rparr>))
      else if row_type row = ''value'' then (case dr_value d (row_payload row) of None \<Rightarrow> Inl (MalformedRow ''value'')
        | Some v \<Rightarrow> Inr (out\<lparr>rg_values := rg_values out @ [v]\<rparr>))
      else Inl UnknownRowType)"

definition decodeSuiSQLRange :: "range_decoders \<Rightarrow> suiSQLRow list \<Rightarrow> sui_sql_error + suiSQLRange" where
  "decodeSuiSQLRange d rows = foldR (decode_range_row d) no_range_rows rows"

section \<open>Samples\<close>

text \<open>An index of one protocol and what it reads with: its start checkpoint, JSON, the calculators.\<close>

record sui_index =
  hi_protocol :: string
  hi_name :: string
  hi_start :: u64
  hi_json :: "string \<Rightarrow> string \<Rightarrow> string"
  hi_decode :: range_decoders
  hi_calculate :: "suiSQLData \<Rightarrow> sui_sql_error + sui_group list"
  hi_rfc3339 :: "instant \<Rightarrow> string"

record suiHistorySample =
  hs_start :: instant
  hs_until :: instant
  hs_positions :: sui_positions
  hs_error :: "sui_sql_error option"

definition stamp_request :: "(instant \<Rightarrow> string) \<Rightarrow> instant \<Rightarrow> sui_group \<Rightarrow> sui_group" where
  "stamp_request rfc3339 t g = g\<lparr>sg_metadata := AList.update ''requestedTimestamp'' (MetaString (rfc3339 t)) (sg_metadata g)\<rparr>"

text \<open>\<open>At\<close>: the positions beside an error are the zero value, or the sample's own.\<close>

definition history_At :: "(instant \<Rightarrow> string) \<Rightarrow> suiHistorySample \<Rightarrow> instant \<Rightarrow> (sui_sql_error \<times> sui_positions) + sui_positions" where
  "history_At rfc3339 s t =
     (if t < hs_start s \<or> \<not> t < hs_until s then
        Inl (NoCompletedSample, \<lparr>sp_protocol = sp_protocol (hs_positions s), sp_name = sp_name (hs_positions s),
          sp_checkpoint = no_checkpoint, sp_head_before = 0, sp_groups = [], sp_errors = []\<rparr>)
      else case hs_error s of Some e \<Rightarrow> Inl (e, hs_positions s)
        | None \<Rightarrow> Inr ((hs_positions s)\<lparr>sp_groups := map (stamp_request rfc3339 t) (sp_groups (hs_positions s))\<rparr>))"

text \<open>A sample placed in time.\<close>

record placed_sample =
  pl_snapshot :: suiSQLSnapshot
  pl_checkpoint :: u64
  pl_start :: instant
  pl_next :: instant

definition place_sample :: "instant \<Rightarrow> instant \<Rightarrow> suiSQLSnapshot \<Rightarrow> sui_sql_error + placed_sample" where
  "place_sample from until s =
     (if \<not> ok_uint (sn_checkpoint s) \<or> \<not> ok_uint (sn_timestamp s) \<or> \<not> ok_uint (sn_next_timestamp s)
        \<or> col (sn_next_timestamp s) > max_history_millis \<or> col (sn_timestamp s) > max_history_millis
        \<or> sint (col (sn_timestamp s)) > unix_milli until \<or> sint (col (sn_next_timestamp s)) \<le> unix_milli from
      then Inl InvalidCertificate
      else Inr \<lparr>pl_snapshot = s, pl_checkpoint = col (sn_checkpoint s), pl_start = from_unix_milli (sint (col (sn_timestamp s))),
             pl_next = from_unix_milli (sint (col (sn_next_timestamp s)))\<rparr>)"

definition unstamp :: "sui_group \<Rightarrow> sui_group" where
  "unstamp g = g\<lparr>sg_metadata := AList.delete ''requestedTimestamp'' (sg_metadata g)\<rparr>"

text \<open>The certification and calculation of one sample from its selected rows.\<close>

definition certify_sample :: "sui_index \<Rightarrow> sui_address \<Rightarrow> placed_sample \<Rightarrow> sui_sql_error + suiSQLResult \<Rightarrow> suiHistorySample" where
  "certify_sample idx owner p rows =
     (let blank = suiHistory_result (hi_protocol idx) (hi_name idx) no_checkpoint;
          selection = \<lparr>sel_checkpoint = None, sel_at = Some (pl_start p)\<rparr>;
          answer = bindR rows (\<lambda>r. bindR (sqlData (hi_protocol idx) (hi_start idx) owner r selection) (\<lambda>data.
            samplePortfolio (hi_rfc3339 idx) (hi_calculate idx) (hi_protocol idx) (hi_name idx) data selection))
      in case answer of
           Inl e \<Rightarrow> \<lparr>hs_start = pl_start p, hs_until = pl_next p, hs_positions = blank, hs_error = Some e\<rparr>
         | Inr positions \<Rightarrow> \<lparr>hs_start = pl_start p, hs_until = pl_next p,
             hs_positions = positions\<lparr>sp_groups := map unstamp (sp_groups positions)\<rparr>, hs_error = None\<rparr>)"

definition range_sample :: "sui_index \<Rightarrow> sui_address \<Rightarrow> range_view \<Rightarrow> placed_sample list \<Rightarrow> placed_sample \<Rightarrow> suiHistorySample" where
  "range_sample idx owner v samples p =
     (if length (filter (\<lambda>q. pl_checkpoint q = pl_checkpoint p) samples) > 1
      then \<lparr>hs_start = pl_start p, hs_until = pl_next p,
             hs_positions = suiHistory_result (hi_protocol idx) (hi_name idx) no_checkpoint, hs_error = Some NoCompletedSample\<rparr>
      else certify_sample idx owner p (view_sample (hi_json idx) v (hi_protocol idx) owner (pl_snapshot p)))"

definition rangeSamples :: "sui_index \<Rightarrow> sui_address \<Rightarrow> suiSQLRange \<Rightarrow> instant \<Rightarrow> instant \<Rightarrow> sui_sql_error + suiHistorySample list" where
  "rangeSamples idx owner rows from until =
     bindR (newSuiSQLRangeView rows) (\<lambda>v.
     bindR (mapR (place_sample from until) (rg_samples rows)) (\<lambda>samples.
       Inr (map (range_sample idx owner v samples) (sort_key pl_checkpoint samples))))"

section \<open>Statements\<close>

definition suiSQLRangeSamples :: nat where "suiSQLRangeSamples = 8"
definition suiSQLRangeProbeSamples :: nat where "suiSQLRangeProbeSamples = 2"
definition suiSQLRangeBytes :: nat where "suiSQLRangeBytes = 1500000"

definition suiSQLRangeTooCostly :: "sui_sql_error \<Rightarrow> bool" where
  "suiSQLRangeTooCostly e \<longleftrightarrow> e = Paged \<or> e = StatementFailed SQL_TooCostly"

definition suiSQLRangeLimit :: "nat \<Rightarrow> nat \<Rightarrow> nat" where
  "suiSQLRangeLimit weight samples = (let per = max (weight div max samples 1) 1 in min (max (suiSQLRangeBytes div per) 1) suiSQLRangeSamples)"

definition rows_size :: "suiSQLRow list \<Rightarrow> nat" where
  "rows_size rows = sum_list (map (\<lambda>row. length (row_payload row) + length (row_content row)) rows)"

text \<open>
  One statement. \<open>execute\<close> is \<open>executeSQL\<close> on the text \<open>rangeSQL\<close> builds from the window and the limit.
\<close>

definition readRangeSQL :: "sui_index \<Rightarrow> (instant \<Rightarrow> instant \<Rightarrow> nat \<Rightarrow> sui_sql_error + suiSQLRow list) \<Rightarrow> sui_address
    \<Rightarrow> instant \<Rightarrow> instant \<Rightarrow> nat \<Rightarrow> sui_sql_error + suiHistorySample list \<times> nat" where
  "readRangeSQL idx execute owner from until limit =
     bindR (guardR (suiSQLProtocolKinds (hi_protocol idx) \<noteq> None) UnsupportedProtocol) (\<lambda>_.
     bindR (guardR (0 \<le> unix_milli from \<and> from \<le> until \<and> 1 \<le> limit) InvalidHistoryRange) (\<lambda>_.
     bindR (execute from until limit) (\<lambda>rows.
     bindR (decodeSuiSQLRange (hi_decode idx) rows) (\<lambda>decoded.
     bindR (rangeSamples idx owner decoded from until) (\<lambda>samples.
       Inr (samples, rows_size rows))))))"

lemma place_sample_bounds:
  assumes "place_sample from until s = Inr p"
  shows "pl_checkpoint p = col (sn_checkpoint s)" "pl_snapshot p = s" "from < pl_next p"
proof -
  have p: "unix_milli from < sint (col (sn_next_timestamp s))" "pl_next p = from_unix_milli (sint (col (sn_next_timestamp s)))"
    using assms by (auto simp: place_sample_def split: if_splits)
  have "from mod 1000000 < 1000000" by simp
  then show "from < pl_next p"
    using p mult_div_mod_eq [of 1000000 "from"] unfolding unix_milli_def from_unix_milli_def by linarith
  show "pl_checkpoint p = col (sn_checkpoint s)" "pl_snapshot p = s"
    using assms by (auto simp: place_sample_def split: if_splits)
qed

lemma range_sample_place: "hs_start (range_sample idx owner v samples p) = pl_start p" "hs_until (range_sample idx owner v samples p) = pl_next p"
  by (auto simp: range_sample_def certify_sample_def Let_def split: sum.split)

text \<open>Every sample of a statement ends after its window begins.\<close>

lemma readRangeSQL_forward:
  assumes "readRangeSQL idx execute owner from until limit = Inr (samples, weight)" "h \<in> set samples"
  shows "from < hs_until h"
proof -
  obtain rows where "rangeSamples idx owner rows from until = Inr samples"
    using assms(1) by (auto simp: readRangeSQL_def bindR_Inr_iff)
  then obtain placed v where placed: "mapR (place_sample from until) (rg_samples rows) = Inr placed"
      "samples = map (range_sample idx owner v placed) (sort_key pl_checkpoint placed)"
    unfolding rangeSamples_def bindR_Inr_iff by blast
  then obtain p where p: "p \<in> set placed" "hs_until h = pl_next p" using assms(2) by (auto simp: range_sample_place)
  obtain s where "place_sample from until s = Inr p"
    using placed(1) p(1) unfolding mapR_Inr_iff by (auto simp: list_all2_conv_all_nth in_set_conv_nth)
  then show ?thesis using place_sample_bounds(3) p(2) by simp
qed

text \<open>
  \<open>ReadRange\<close>'s loop. The environment: the answer of each statement, by how many were asked before it,
  and whether the caller's context had ended by then. A failed statement that did not fit is asked
  again for half; each answered one moves the window forward.
\<close>

function read_windows :: "sui_index \<Rightarrow> (nat \<Rightarrow> instant \<Rightarrow> instant \<Rightarrow> nat \<Rightarrow> sui_sql_error + suiSQLRow list) \<Rightarrow> (nat \<Rightarrow> bool) \<Rightarrow> sui_address
    \<Rightarrow> nat \<Rightarrow> instant \<Rightarrow> instant \<Rightarrow> nat \<Rightarrow> nat \<Rightarrow> suiHistorySample list \<Rightarrow> suiHistorySample list \<times> sui_sql_error option" where
  "read_windows idx execute ended owner n from until limit most out =
     (if until < from then (out, None)
      else case readRangeSQL idx (execute n) owner from until limit of
          Inl e \<Rightarrow> if limit > 1 \<and> \<not> ended n \<and> suiSQLRangeTooCostly e
            then read_windows idx execute ended owner (Suc n) from until (limit div 2) (limit div 2) out
            else (out, Some e)
        | Inr (samples, weight) \<Rightarrow> if samples = [] then (out, None)
            else read_windows idx execute ended owner (Suc n) (hs_until (last samples)) until
              (min (suiSQLRangeLimit weight (length samples)) most) most (out @ samples))"
  by pat_completeness auto

termination
proof (relation "measures [\<lambda>(idx, execute, ended, owner, n, from, until, limit, most, out). nat (until - from + 1),
    \<lambda>(idx, execute, ended, owner, n, from, until, limit, most, out). limit]", goal_cases)
  case (3 idx execute ended owner n since until limit most out answer samples weight)
  then have "since < hs_until (last samples)" by (intro readRangeSQL_forward) auto
  then show ?case using 3 by simp
qed auto

declare read_windows.simps [simp del]

definition ReadRange :: "sui_index \<Rightarrow> (nat \<Rightarrow> instant \<Rightarrow> instant \<Rightarrow> nat \<Rightarrow> sui_sql_error + suiSQLRow list) \<Rightarrow> (nat \<Rightarrow> bool)
    \<Rightarrow> sui_address \<Rightarrow> instant \<Rightarrow> instant \<Rightarrow> suiHistorySample list \<times> sui_sql_error option" where
  "ReadRange idx execute ended owner from until =
     (if until < from \<or> unix_milli from < 0 then ([], Some InvalidHistoryRange)
      else read_windows idx execute ended owner 0 from until suiSQLRangeProbeSamples suiSQLRangeSamples [])"

section \<open>What a range read answers\<close>

text \<open>
  The index's completed samples, in checkpoint order: each owns an interval that ends before the next
  begins. A statement's contract is that of the query it spells: the first \<open>limit\<close> samples whose
  intervals meet the window, in any order, with the rows \<open>rangeSQL\<close> selects for them.
\<close>

definition snapshots_ok :: "suiSQLSnapshot list \<Rightarrow> bool" where
  "snapshots_ok table \<longleftrightarrow> samples_ok table
     \<and> (\<forall>s \<in> set table. ok_uint (sn_timestamp s) \<and> ok_uint (sn_next_timestamp s) \<and> col (sn_timestamp s) < col (sn_next_timestamp s)
          \<and> col (sn_next_timestamp s) \<le> max_history_millis)
     \<and> sorted_wrt (\<lambda>s s'. col (sn_checkpoint s) < col (sn_checkpoint s') \<and> col (sn_next_timestamp s) \<le> col (sn_timestamp s')) table"

definition meets :: "instant \<Rightarrow> instant \<Rightarrow> suiSQLSnapshot \<Rightarrow> bool" where
  "meets from until s \<longleftrightarrow> sint (col (sn_timestamp s)) \<le> unix_milli until \<and> unix_milli from < sint (col (sn_next_timestamp s))"

definition statement_rows :: "sui_index \<Rightarrow> sui_tables \<Rightarrow> suiSQLKinds \<Rightarrow> sui_address \<Rightarrow> suiSQLSnapshot list
    \<Rightarrow> sui_sql_error + suiSQLRow list \<Rightarrow> instant \<Rightarrow> instant \<Rightarrow> nat \<Rightarrow> bool" where
  "statement_rows idx db kinds owner table answer from until limit \<longleftrightarrow> (\<forall>rows. answer = Inr rows \<longrightarrow>
     (\<exists>ss. mset ss = mset (take limit (filter (meets from until) table))
        \<and> decodeSuiSQLRange (hi_decode idx) rows = Inr (range_rows (hi_json idx) db (hi_protocol idx) kinds owner ss)))"

definition placed_at :: "suiSQLSnapshot \<Rightarrow> placed_sample" where
  "placed_at s = \<lparr>pl_snapshot = s, pl_checkpoint = col (sn_checkpoint s), pl_start = from_unix_milli (sint (col (sn_timestamp s))),
     pl_next = from_unix_milli (sint (col (sn_next_timestamp s)))\<rparr>"

text \<open>A history sample that answers \<open>s\<close>: certified and calculated from the rows one statement selects for it.\<close>

definition answers_sample :: "sui_index \<Rightarrow> sui_tables \<Rightarrow> suiSQLKinds \<Rightarrow> sui_address \<Rightarrow> suiSQLSnapshot \<Rightarrow> suiHistorySample \<Rightarrow> bool" where
  "answers_sample idx db kinds owner s h \<longleftrightarrow> (\<exists>rows. same_rows rows (portfolio_rows (hi_json idx) db (hi_protocol idx) kinds owner s)
     \<and> h = certify_sample idx owner (placed_at s) (Inr rows))"

lemma small_millis: "(c :: u64) \<le> max_history_millis \<Longrightarrow> sint c = uint c"
proof -
  assume "c \<le> max_history_millis"
  then have "uint c \<le> 253402300799999" by (simp add: max_history_millis_def word_le_def)
  then show ?thesis unfolding sint_uint by (intro signed_take_bit_int_eq_self) (auto intro: order_trans [of _ 0] le_less_trans)
qed

lemma millis_order:
  fixes a b :: u64
  assumes "b \<le> max_history_millis" "a \<le> b"
  shows "sint a \<le> sint b"
proof -
  have "a \<le> max_history_millis" using assms by simp
  then show ?thesis using assms by (simp add: small_millis word_le_def)
qed

lemma snapshots_okD:
  assumes "snapshots_ok table"
  shows "samples_ok table" "distinct table" "inj_on (\<lambda>s. col (sn_checkpoint s)) (set table)"
    and "s \<in> set table \<Longrightarrow> ok_uint (sn_checkpoint s) \<and> ok_uint (sn_timestamp s) \<and> ok_uint (sn_next_timestamp s)
      \<and> col (sn_timestamp s) \<le> max_history_millis \<and> col (sn_next_timestamp s) \<le> max_history_millis"
    and "s \<in> set table \<Longrightarrow> sint (col (sn_timestamp s)) < sint (col (sn_next_timestamp s))"
    and "sorted_wrt (\<lambda>s s'. col (sn_checkpoint s) < col (sn_checkpoint s') \<and> sint (col (sn_next_timestamp s)) \<le> sint (col (sn_timestamp s'))) table"
proof -
  show ok: "samples_ok table" using assms by (simp add: snapshots_ok_def)
  show ts: "ok_uint (sn_checkpoint s) \<and> ok_uint (sn_timestamp s) \<and> ok_uint (sn_next_timestamp s)
      \<and> col (sn_timestamp s) \<le> max_history_millis \<and> col (sn_next_timestamp s) \<le> max_history_millis" if "s \<in> set table" for s
    using assms that unfolding snapshots_ok_def samples_ok_def by (meson order_trans order_less_imp_le)
  show "sint (col (sn_timestamp s)) < sint (col (sn_next_timestamp s))" if "s \<in> set table"
    using assms that ts [OF that] unfolding snapshots_ok_def by (auto simp: small_millis word_less_def)
  have sorted: "sorted_wrt (\<lambda>s s'. col (sn_checkpoint s) < col (sn_checkpoint s') \<and> col (sn_next_timestamp s) \<le> col (sn_timestamp s')) table"
    using assms by (simp add: snapshots_ok_def)
  then show "sorted_wrt (\<lambda>s s'. col (sn_checkpoint s) < col (sn_checkpoint s') \<and> sint (col (sn_next_timestamp s)) \<le> sint (col (sn_timestamp s'))) table"
    by (rule sorted_wrt_mono_rel [rotated]) (use ts millis_order in blast)
  have "sorted_wrt (<) (map (\<lambda>s. col (sn_checkpoint s)) table)"
    unfolding sorted_wrt_map using sorted by (rule sorted_wrt_mono_rel [rotated]) blast
  then have "distinct (map (\<lambda>s. col (sn_checkpoint s)) table)" by (simp only: strict_sorted_iff)
  then show "distinct table" "inj_on (\<lambda>s. col (sn_checkpoint s)) (set table)" by (simp_all add: distinct_map)
qed

lemma samples_ok_subset: "samples_ok table \<Longrightarrow> set ss \<subseteq> set table \<Longrightarrow> samples_ok ss"
  unfolding samples_ok_def by blast

lemma statement_samples:
  assumes db: "tables_ok db" and kinds: "suiSQLProtocolKinds (hi_protocol idx) = Some kinds" and table: "snapshots_ok table"
    and contract: "statement_rows idx db kinds owner table (execute from until limit) from until limit"
    and read: "readRangeSQL idx execute owner from until limit = Inr (samples, weight)"
  shows "list_all2 (answers_sample idx db kinds owner) (take limit (filter (meets from until) table)) samples"
proof -
  let ?T = "take limit (filter (meets from until) table)"
  obtain rows decoded where rows: "execute from until limit = Inr rows" "decodeSuiSQLRange (hi_decode idx) rows = Inr decoded"
      "rangeSamples idx owner decoded from until = Inr samples"
    using read by (auto simp: readRangeSQL_def bindR_Inr_iff)
  obtain ss where ss: "mset ss = mset ?T" "decoded = range_rows (hi_json idx) db (hi_protocol idx) kinds owner ss"
    using contract rows(1,2) unfolding statement_rows_def by auto
  obtain v placed where v: "newSuiSQLRangeView decoded = Inr v" "mapR (place_sample from until) (rg_samples decoded) = Inr placed"
      "samples = map (range_sample idx owner v placed) (sort_key pl_checkpoint placed)"
    using rows(3) unfolding rangeSamples_def bindR_Inr_iff by blast
  have set_ss: "set ss = set ?T" using ss(1) by (rule mset_eq_setD)
  then have in_table: "set ss \<subseteq> set table" using set_take_subset by fastforce
  have "rg_samples decoded = ss" by (simp add: ss(2) range_rows_def Let_def)
  then have placed: "list_all2 (\<lambda>s p. place_sample from until s = Inr p) ss placed" using v(2) by (simp add: mapR_Inr_iff)
  have "place_sample from until s = Inr p \<Longrightarrow> p = placed_at s" for s p
    by (auto simp: place_sample_def placed_at_def split: if_splits)
  then have placed_eq: "placed = map placed_at ss"
    using placed by (auto simp: list_all2_conv_all_nth intro!: nth_equalityI)
  have cp: "pl_checkpoint (placed_at s) = col (sn_checkpoint s)" for s by (simp add: placed_at_def)
  have inj: "inj_on (\<lambda>s. col (sn_checkpoint s)) (set ss)" using snapshots_okD(3) [OF table] in_table by (rule inj_on_subset)
  have sorted_T: "sorted_wrt (\<lambda>s s'. col (sn_checkpoint s) < col (sn_checkpoint s')) ?T"
    by (intro sorted_wrt_take sorted_wrt_filter sorted_wrt_mono_rel [OF _ snapshots_okD(6) [OF table]]) blast
  have "distinct ss" using ss(1) snapshots_okD(2) [OF table] by (metis distinct_filter distinct_take mset_eq_imp_distinct_iff)
  have sort: "sort_key pl_checkpoint placed = map placed_at ?T"
  proof (rule map_sorted_distinct_set_unique)
    show "inj_on pl_checkpoint (set (sort_key pl_checkpoint placed) \<union> set (map placed_at ?T))"
      using inj by (auto simp: placed_eq inj_on_def cp simp flip: set_ss)
    show "distinct (map pl_checkpoint (sort_key pl_checkpoint placed))"
    proof -
      have "distinct (map pl_checkpoint placed)" using inj \<open>distinct ss\<close> by (simp add: placed_eq distinct_map comp_def cp)
      moreover have "mset (map pl_checkpoint (sort_key pl_checkpoint placed)) = mset (map pl_checkpoint placed)" by simp
      ultimately show ?thesis using mset_eq_imp_distinct_iff by blast
    qed
    have "sorted_wrt (<) (map pl_checkpoint (map placed_at ?T))" using sorted_T by (simp add: sorted_wrt_map cp)
    then show "sorted (map pl_checkpoint (map placed_at ?T))" "distinct (map pl_checkpoint (map placed_at ?T))"
      using strict_sorted_iff by blast+
    show "set (sort_key pl_checkpoint placed) = set (map placed_at ?T)" by (simp add: placed_eq set_ss)
  qed simp
  have answers: "answers_sample idx db kinds owner s (range_sample idx owner v placed (placed_at s))" if "s \<in> set ?T" for s
  proof -
    have s: "s \<in> set ss" using that set_ss by simp
    have "filter (\<lambda>q. pl_checkpoint q = pl_checkpoint (placed_at s)) placed = map placed_at (filter (\<lambda>x. x = s) ss)"
      unfolding placed_eq filter_map comp_def cp using inj s by (auto simp: inj_on_def intro!: arg_cong [where f = "map placed_at"] filter_cong)
    moreover have "length (filter (\<lambda>x. x = s) ss) \<le> 1"
    proof -
      have "distinct (filter (\<lambda>x. x = s) ss)" using \<open>distinct ss\<close> by simp
      then have "length (filter (\<lambda>x. x = s) ss) = card (set (filter (\<lambda>x. x = s) ss))" by (simp only: distinct_card)
      also have "\<dots> \<le> card {s}" by (intro card_mono) auto
      finally show ?thesis by simp
    qed
    ultimately have single: "range_sample idx owner v placed (placed_at s)
        = certify_sample idx owner (placed_at s) (view_sample (hi_json idx) v (hi_protocol idx) owner s)"
      by (simp add: range_sample_def placed_at_def)
    obtain rows where "view_sample (hi_json idx) v (hi_protocol idx) owner s = Inr rows"
        "same_rows rows (portfolio_rows (hi_json idx) db (hi_protocol idx) kinds owner s)"
      using range_sample_rows [OF db samples_ok_subset [OF snapshots_okD(1) [OF table] in_table] s kinds, of "hi_json idx" owner] v(1)
      unfolding ss(2) by auto
    then show ?thesis unfolding answers_sample_def single by auto
  qed
  show ?thesis unfolding v(3) sort using answers by (auto simp: list_all2_map2 list_all2_same)
qed

section \<open>The windows of a range\<close>

text \<open>After a statement's samples the rest of the range is what meets the window that begins where the last of them ends.\<close>

lemma window_rest:
  assumes table: "snapshots_ok table" and first: "take limit (filter (meets from until) table) = T" "T \<noteq> []"
  defines "next \<equiv> from_unix_milli (sint (col (sn_next_timestamp (last T))))"
  shows "filter (meets next until) table = drop limit (filter (meets from until) table)"
    and "next \<le> until \<or> filter (meets next until) table = []"
proof -
  let ?W = "filter (meets from until) table"
  let ?R = "drop limit ?W"
  have W: "?W = T @ ?R" using first(1) by (metis append_take_drop_id)
  have sorted: "sorted_wrt (\<lambda>s s'. sint (col (sn_next_timestamp s)) \<le> sint (col (sn_timestamp s'))) (T @ ?R)"
    unfolding W [symmetric] by (intro sorted_wrt_filter sorted_wrt_mono_rel [OF _ snapshots_okD(6) [OF table]]) blast
  have within: "s \<in> set table" "meets from until s" if "s \<in> set (T @ ?R)" for s using that unfolding W [symmetric] by simp_all
  have after: "sint (col (sn_next_timestamp (last T))) \<le> sint (col (sn_timestamp s))" if "s \<in> set ?R" for s
    using sorted that last_in_set [OF first(2)] by (auto simp: sorted_wrt_append)
  have before: "sint (col (sn_next_timestamp s)) \<le> sint (col (sn_next_timestamp (last T)))" if "s \<in> set T" for s
  proof -
    have split: "T = butlast T @ [last T]" using first(2) by simp
    have "sorted_wrt (\<lambda>s s'. sint (col (sn_next_timestamp s)) \<le> sint (col (sn_timestamp s'))) (butlast T @ [last T])"
      using sorted split by (simp add: sorted_wrt_append)
    moreover have "s \<in> set (butlast T) \<or> s = last T" using that split by (metis in_set_conv_decomp rotate1.simps(2) set_ConsD set_rotate1)
    moreover have "sint (col (sn_timestamp (last T))) < sint (col (sn_next_timestamp (last T)))"
      using last_in_set [OF first(2)] by (intro snapshots_okD(5) [OF table] within(1)) simp
    ultimately show ?thesis by (auto simp: sorted_wrt_append)
  qed
  have last_meets: "meets from until (last T)"
    using last_in_set [OF first(2)] by (intro within(2)) simp
  have meets_next: "meets next until s \<longleftrightarrow> meets from until s \<and> sint (col (sn_next_timestamp (last T))) < sint (col (sn_next_timestamp s))" for s
    using last_meets by (auto simp: meets_def next_def)
  have "filter (meets next until) table = filter (\<lambda>s. sint (col (sn_next_timestamp (last T))) < sint (col (sn_next_timestamp s))) ?W"
    unfolding filter_filter by (rule filter_cong) (auto simp: meets_next)
  also have "\<dots> = ?R"
  proof -
    have "filter (\<lambda>s. sint (col (sn_next_timestamp (last T))) < sint (col (sn_next_timestamp s))) T = []"
      using before by (auto simp: filter_empty_conv not_less)
    moreover have "sint (col (sn_next_timestamp (last T))) < sint (col (sn_next_timestamp s))" if "s \<in> set ?R" for s
      using after [OF that] snapshots_okD(5) [OF table within(1), of s] that by simp
    ultimately show ?thesis by (subst W) (simp add: filter_True)
  qed
  finally show rest: "filter (meets next until) table = ?R" .
  show "next \<le> until \<or> filter (meets next until) table = []"
  proof (cases "next \<le> until")
    case False
    then have "unix_milli until < sint (col (sn_next_timestamp (last T)))"
      by (simp add: next_def from_unix_milli_def unix_milli_def div_less_iff_less_mult) 
    moreover have "sint (col (sn_timestamp s)) \<le> unix_milli until" if "s \<in> set ?R" for s
      using within(2) [of s] that by (simp add: meets_def)
    ultimately have "?R = []" using after by (metis list.set_intros(1) neq_Nil_conv not_less order_trans)
    then show ?thesis unfolding rest by simp
  qed simp
qed

definition range_answer :: "sui_index \<Rightarrow> sui_tables \<Rightarrow> suiSQLKinds \<Rightarrow> sui_address \<Rightarrow> suiSQLSnapshot list \<Rightarrow> instant \<Rightarrow> instant
    \<Rightarrow> suiHistorySample list \<times> sui_sql_error option \<Rightarrow> bool" where
  "range_answer idx db kinds owner table from until answer \<longleftrightarrow>
     (\<exists>k. list_all2 (answers_sample idx db kinds owner) (take k (filter (meets from until) table)) (fst answer)
        \<and> (snd answer = None \<longrightarrow> length (filter (meets from until) table) \<le> k))"

lemma certify_until: "hs_until (certify_sample idx owner p rows) = pl_next p" "hs_start (certify_sample idx owner p rows) = pl_start p"
  by (auto simp: certify_sample_def Let_def split: sum.split)

lemma answers_until: "answers_sample idx db kinds owner s h \<Longrightarrow> hs_until h = from_unix_milli (sint (col (sn_next_timestamp s)))"
  by (auto simp: answers_sample_def certify_until placed_at_def)

lemma list_all2_last: "list_all2 P xs ys \<Longrightarrow> xs \<noteq> [] \<Longrightarrow> P (last xs) (last ys)"
  by (induction rule: list_all2_induct) auto

lemma read_windows_answers:
  "tables_ok db \<Longrightarrow> suiSQLProtocolKinds (hi_protocol idx) = Some kinds \<Longrightarrow> snapshots_ok table
    \<Longrightarrow> (\<And>n from limit. statement_rows idx db kinds owner table (execute n from until limit) from until limit)
    \<Longrightarrow> 1 \<le> limit \<Longrightarrow> 1 \<le> most \<Longrightarrow> from \<le> until \<or> filter (meets from until) table = [] \<Longrightarrow>
    \<exists>more err. read_windows idx execute ended owner n from until limit most out = (out @ more, err)
      \<and> range_answer idx db kinds owner table from until (more, err)"
proof (induction idx execute ended owner n "from" until limit most out rule: read_windows.induct)
  case (1 idx execute ended owner n since until limit most out)
  note prems = "1.prems" and IH = "1.IH"
  let ?W = "filter (meets since until) table"
  show ?case
  proof (cases "until < since")
    case True
    then have "?W = []" using prems(7) by simp
    then show ?thesis using True by (subst read_windows.simps) (simp add: range_answer_def)
  next
    case False
    note fold = read_windows.simps [of idx execute ended owner n since until limit most out]
    show ?thesis
    proof (cases "readRangeSQL idx (execute n) owner since until limit")
      case (Inl e)
      show ?thesis
      proof (cases "limit > 1 \<and> \<not> ended n \<and> suiSQLRangeTooCostly e")
        case True
        then have "1 \<le> limit div 2" by (simp add: div_greater_zero_iff Suc_le_eq)
        then show ?thesis
          using IH(1) [OF False Inl True prems(1-4) _ _ prems(7)] True False Inl by (simp add: fold)
      next
        case False
        then have "read_windows idx execute ended owner n since until limit most out = (out @ [], Some e)"
          using Inl \<open>\<not> until < since\<close> by (auto simp: fold)
        moreover have "range_answer idx db kinds owner table since until ([], Some e)"
          unfolding range_answer_def by (intro exI [of _ 0]) simp
        ultimately show ?thesis by blast
      qed
    next
      case (Inr answer)
      obtain samples weight where answer: "answer = (samples, weight)" by (cases answer)
      have T: "list_all2 (answers_sample idx db kinds owner) (take limit ?W) samples"
        using Inr unfolding answer by (intro statement_samples [OF prems(1-3)]) (rule prems(4))
      show ?thesis
      proof (cases "samples = []")
        case True
        then have "?W = []" using T prems(5) by auto
        then show ?thesis using False Inr True by (simp add: fold answer range_answer_def)
      next
        case nonempty: False
        then have T_ne: "take limit ?W \<noteq> []" using T by (metis list_all2_Nil)
        let ?next = "hs_until (last samples)"
        have next_eq: "?next = from_unix_milli (sint (col (sn_next_timestamp (last (take limit ?W)))))"
          using list_all2_last [OF T T_ne] by (rule answers_until)
        note rest = window_rest [OF prems(3) refl T_ne, folded next_eq]
        let ?limit = "min (suiSQLRangeLimit weight (length samples)) most"
        have "1 \<le> ?limit" using prems(6) by (simp add: suiSQLRangeLimit_def suiSQLRangeSamples_def Let_def)
        then obtain more err where more: "read_windows idx execute ended owner (Suc n) ?next until ?limit most (out @ samples) = ((out @ samples) @ more, err)"
            "range_answer idx db kinds owner table ?next until (more, err)"
          using IH(2) [OF False Inr answer [symmetric] nonempty prems(1-4) _ prems(6) rest(2)] by blast
        obtain k where k: "list_all2 (answers_sample idx db kinds owner) (take k (drop limit ?W)) more"
            "err = None \<longrightarrow> length (drop limit ?W) \<le> k"
          using more(2) unfolding range_answer_def rest(1) by auto
        have "list_all2 (answers_sample idx db kinds owner) (take limit ?W @ take k (drop limit ?W)) (samples @ more)"
          using T k(1) by (rule list_all2_appendI)
        then have "list_all2 (answers_sample idx db kinds owner) (take (limit + k) ?W) (samples @ more)"
          by (simp only: take_add)
        then have "range_answer idx db kinds owner table since until (samples @ more, err)"
          unfolding range_answer_def using k(2) by (intro exI [of _ "limit + k"]) auto
        moreover have "read_windows idx execute ended owner n since until limit most out = (out @ (samples @ more), err)"
          using False Inr nonempty more(1) by (simp add: fold answer)
        ultimately show ?thesis by blast
      qed
    qed
  qed
qed

text \<open>C11: whatever the statements of a range weigh, and whichever of them are refused as too costly and asked
  again for fewer samples, \<open>ReadRange\<close> returns in checkpoint order, each exactly once, samples the index
  has completed for the range, every one certified and calculated from the rows a single statement
  selects for it; when it reports no error they are all of them, and otherwise the first of them.\<close>

theorem ReadRange_answers:
  assumes "tables_ok db" "suiSQLProtocolKinds (hi_protocol idx) = Some kinds" "snapshots_ok table"
    and "\<forall>n from limit. statement_rows idx db kinds owner table (execute n from until limit) from until limit"
    and "from \<le> until" "0 \<le> unix_milli from"
  shows "range_answer idx db kinds owner table from until (ReadRange idx execute ended owner from until)"
proof -
  have "\<exists>more err. read_windows idx execute ended owner 0 from until suiSQLRangeProbeSamples suiSQLRangeSamples [] = ([] @ more, err)
      \<and> range_answer idx db kinds owner table from until (more, err)"
    using assms by (intro read_windows_answers) (simp_all add: suiSQLRangeProbeSamples_def suiSQLRangeSamples_def)
  then show ?thesis using assms(5,6) by (auto simp: ReadRange_def)
qed

section \<open>A range's sample against a read at an instant\<close>

text \<open>The read of one instant, given the rows its statement returned.\<close>

definition read_at_rows :: "sui_index \<Rightarrow> sui_address \<Rightarrow> suiSQLResult \<Rightarrow> instant \<Rightarrow> sui_sql_error + sui_positions" where
  "read_at_rows idx owner rows t = (let selection = \<lparr>sel_checkpoint = None, sel_at = Some t\<rparr> in
     bindR (sqlData (hi_protocol idx) (hi_start idx) owner rows selection) (\<lambda>data.
       samplePortfolio (hi_rfc3339 idx) (hi_calculate idx) (hi_protocol idx) (hi_name idx) data selection))"

definition same_group :: "sui_group \<Rightarrow> sui_group \<Rightarrow> bool" where
  "same_group g g' \<longleftrightarrow> g\<lparr>sg_metadata := []\<rparr> = g'\<lparr>sg_metadata := []\<rparr> \<and> map_of (sg_metadata g) = map_of (sg_metadata g')"

definition same_positions :: "sui_positions \<Rightarrow> sui_positions \<Rightarrow> bool" where
  "same_positions p p' \<longleftrightarrow> p\<lparr>sp_groups := []\<rparr> = p'\<lparr>sp_groups := []\<rparr> \<and> list_all2 same_group (sp_groups p) (sp_groups p')"

lemma sqlData_instant:
  assumes "rs_snapshots rows = [snap]" "place_sample from until snap = Inr p" "pl_start p \<le> t" "t < pl_next p"
  shows "sqlData protocol start owner rows \<lparr>sel_checkpoint = None, sel_at = Some (pl_start p)\<rparr>
    = sqlData protocol start owner rows \<lparr>sel_checkpoint = None, sel_at = Some t\<rparr>"
proof -
  have p: "pl_start p = from_unix_milli (sint (col (sn_timestamp snap)))" "pl_next p = from_unix_milli (sint (col (sn_next_timestamp snap)))"
      "col (sn_next_timestamp snap) \<le> max_history_millis" "col (sn_timestamp snap) \<le> max_history_millis"
    using assms(2) by (auto simp: place_sample_def split: if_splits)
  have next_ms: "unix_milli t < uint (col (sn_next_timestamp snap))"
    using assms(4) unfolding p(2) small_millis [OF p(3)] unix_milli_def from_unix_milli_def
    by (simp add: div_less_iff_less_mult)
  have pin: "cp_timestamp pin = pl_start p" if "indexedSuiCheckpoint (sn_checkpoint snap) (sn_timestamp snap) (sn_digest snap) start = Inr pin" for pin
    using that by (auto simp: indexedSuiCheckpoint_def newSuiCheckpoint_def col_def p(1) bindR_Inr_iff small_millis not_less split: if_splits sum.splits)
  have certified: "unix_milli (pl_start p) < uint (col (sn_next_timestamp snap))"
    if "indexedSuiCheckpoint (sn_checkpoint snap) (sn_timestamp snap) (sn_digest snap) start = Inr pin" "certificate_ok start pin snap" for pin
    using that(2) p(3,4) unfolding certificate_ok_def pin [OF that(1)] p(1) small_millis [OF p(4)] by (simp add: word_less_def)
  show ?thesis
    unfolding sqlData_def assms(1) list.case suiSQLSelection.select_convs option.case
    by (intro bindR_cong refl sum.case_cong) (auto simp: pin certified assms(3) next_ms)
qed

lemma At_labels:
  assumes "sel_at selection = Some s" "sel_checkpoint selection = None" "sel_at selection' = Some t" "sel_checkpoint selection' = None"
  shows "same_group (stamp_request rfc3339 t (unstamp (label_group rfc3339 data selection g))) (label_group rfc3339 data selection' g)"
  using assms
  by (simp add: same_group_def stamp_request_def unstamp_def label_group_def Let_def update_conv' delete_conv' fun_eq_iff)

lemma label_sorted: "sort_key sg_id (map (label_group rfc3339 data selection) (sort_key sg_id groups)) = map (label_group rfc3339 data selection) (sort_key sg_id groups)"
proof (rule sort_key_id_if_sorted)
  have "sg_id (label_group rfc3339 data selection g) = sg_id g" for g by (simp add: label_group_def Let_def)
  then have "map sg_id (map (label_group rfc3339 data selection) (sort_key sg_id groups)) = map sg_id (sort_key sg_id groups)" by simp
  then show "sorted (map sg_id (map (label_group rfc3339 data selection) (sort_key sg_id groups)))" by (metis sorted_sort_key)
qed

text \<open>C27: what a range's sample reports of an instant it owns is what a read of that instant reports from the
  same rows: the same error, or the same positions with the same metadata, the requested instant included.\<close>

theorem range_At_is_read:
  assumes "rs_snapshots rows = [snap]" "place_sample from until snap = Inr p" "pl_start p \<le> t" "t < pl_next p"
  shows "case read_at_rows idx owner rows t of
      Inl e \<Rightarrow> \<exists>beside. history_At (hi_rfc3339 idx) (certify_sample idx owner p (Inr rows)) t = Inl (e, beside)
    | Inr positions \<Rightarrow> \<exists>shown. history_At (hi_rfc3339 idx) (certify_sample idx owner p (Inr rows)) t = Inr shown \<and> same_positions shown positions"
proof -
  let ?start = "\<lparr>sel_checkpoint = None, sel_at = Some (pl_start p)\<rparr>" and ?t = "\<lparr>sel_checkpoint = None, sel_at = Some t\<rparr>"
  have within: "\<not> (t < pl_start p \<or> \<not> t < pl_next p)" using assms(3,4) by simp
  note same = sqlData_instant [OF assms, of "hi_protocol idx" "hi_start idx" owner]
  note defs = read_at_rows_def certify_sample_def history_At_def Let_def same
  show ?thesis
  proof (cases "sqlData (hi_protocol idx) (hi_start idx) owner rows ?t")
    case (Inl e)
    then show ?thesis using within by (simp add: defs)
  next
    case (Inr data)
    show ?thesis
    proof (cases "hi_calculate idx data")
      case (Inl e)
      then show ?thesis using Inr within by (simp add: defs samplePortfolio_def)
    next
      case (Inr groups)
      then show ?thesis
        using \<open>sqlData (hi_protocol idx) (hi_start idx) owner rows ?t = Inr data\<close> within
        by (simp add: defs samplePortfolio_def label_sorted same_positions_def list_all2_map1 list_all2_map2 list_all2_same comp_def At_labels)
    qed
  qed
qed

section \<open>Witnesses\<close>

definition timed_sample :: suiSQLSnapshot where
  "timed_sample = (example_sample 1 8)\<lparr>sn_timestamp := show_u64 1000, sn_next_timestamp := show_u64 61000\<rparr>"

definition no_tables :: sui_tables where
  "no_tables = \<lparr>tb_owners = [], tb_index = [], tb_states = [], tb_values = [], tb_values_raw = [], tb_metadata = []\<rparr>"

definition suilend_kinds :: suiSQLKinds where
  "suilend_kinds = \<lparr>roots_of = [''cap''], direct_of = [''obligation''], second_of = [''market''], topology_of = [], children_of = [], values_of = []\<rparr>"

definition quiet_index :: sui_index where
  "quiet_index = \<lparr>hi_protocol = ''suilend'', hi_name = ''Suilend'', hi_start = 1, hi_json = (\<lambda>_ _. []),
     hi_decode = \<lparr>dr_sample = (\<lambda>_. Some timed_sample), dr_count = (\<lambda>_. None), dr_candidate = (\<lambda>_. None), dr_version = (\<lambda>_. None),
       dr_object = (\<lambda>_. None), dr_metadata = (\<lambda>_. None), dr_value = (\<lambda>_. None)\<rparr>,
     hi_calculate = (\<lambda>_. Inr []), hi_rfc3339 = (\<lambda>_. [])\<rparr>"

definition quiet_execute :: "nat \<Rightarrow> instant \<Rightarrow> instant \<Rightarrow> nat \<Rightarrow> sui_sql_error + suiSQLRow list" where
  "quiet_execute n from until limit = (if limit = 0 \<or> \<not> meets from until timed_sample then Inr []
     else if n = 0 then Inl Paged else Inr [\<lparr>row_type = ''sample'', row_payload = [], row_content = []\<rparr>])"

lemma quiet_range_rows: "range_rows js no_tables ''suilend'' suilend_kinds owner ss = no_range_rows\<lparr>rg_samples := ss\<rparr>"
  by (simp add: range_rows_def no_range_rows_def no_tables_def suilend_kinds_def Let_def count_rows_def range_versions_def
      range_lending_def stage_versions_def range_candidates_def root_firsts_def group_min_def version_rows_def limit_one_by_def)

lemma quiet_table: "snapshots_ok [timed_sample]"
  by (auto simp: snapshots_ok_def samples_ok_def timed_sample_def example_sample_def max_history_millis_def)

lemma quiet_contract: "statement_rows quiet_index no_tables suilend_kinds owner [timed_sample] (quiet_execute n from until limit) from until limit"
  unfolding statement_rows_def
proof (intro allI impI)
  fix rows assume "quiet_execute n from until limit = Inr rows"
  then show "\<exists>ss. mset ss = mset (take limit (filter (meets from until) [timed_sample]))
      \<and> decodeSuiSQLRange (hi_decode quiet_index) rows = Inr (range_rows (hi_json quiet_index) no_tables (hi_protocol quiet_index) suilend_kinds owner ss)"
    by (intro exI [of _ "take limit (filter (meets from until) [timed_sample])"])
      (cases limit, auto simp: quiet_execute_def quiet_index_def quiet_range_rows decodeSuiSQLRange_def decode_range_row_def no_range_rows_def
        split: if_splits)
qed

theorem ReadRange_answers_witness:
  "range_answer quiet_index no_tables suilend_kinds 0 [timed_sample] 0 (10 ^ 12) (ReadRange quiet_index quiet_execute (\<lambda>_. False) 0 0 (10 ^ 12))"
proof (rule ReadRange_answers)
  show "tables_ok no_tables" by (simp add: tables_ok_def no_tables_def)
  show "suiSQLProtocolKinds (hi_protocol quiet_index) = Some suilend_kinds"
    by (simp add: quiet_index_def suiSQLProtocolKinds_def suilend_kinds_def)
qed (simp_all add: quiet_table quiet_contract unix_milli_def)

theorem range_At_is_read_witness:
  "case read_at_rows quiet_index 0 \<lparr>rs_snapshots = [timed_sample], rs_objects = [], rs_metadata = [], rs_values = []\<rparr> (5 * 10 ^ 9) of
      Inl e \<Rightarrow> \<exists>beside. history_At (hi_rfc3339 quiet_index) (certify_sample quiet_index 0 (placed_at timed_sample)
        (Inr \<lparr>rs_snapshots = [timed_sample], rs_objects = [], rs_metadata = [], rs_values = []\<rparr>)) (5 * 10 ^ 9) = Inl (e, beside)
    | Inr positions \<Rightarrow> \<exists>shown. history_At (hi_rfc3339 quiet_index) (certify_sample quiet_index 0 (placed_at timed_sample)
        (Inr \<lparr>rs_snapshots = [timed_sample], rs_objects = [], rs_metadata = [], rs_values = []\<rparr>)) (5 * 10 ^ 9) = Inr shown
        \<and> same_positions shown positions"
proof (rule range_At_is_read)
  show "place_sample 0 (10 ^ 12) timed_sample = Inr (placed_at timed_sample)"
    by (simp add: place_sample_def placed_at_def timed_sample_def example_sample_def max_history_millis_def unix_milli_def)
qed (simp_all add: placed_at_def timed_sample_def from_unix_milli_def)

end
