(* ===== verification/SuiPricing.thy ===== *)
theory SuiPricing
  imports Sui
begin

text \<open>
  Quotes and values of Sui coins (\<open>sui_engine_pricing.go\<close>): one call asks the price source for every
  instant's coins, its answer is kept per instant with the failures about it, and a component is valued
  as \<open>amount / 10^decimals * price\<close> in \<open>big.Float\<close>, rounded to \<open>float64\<close> last. A \<open>big.Float\<close> operation
  rounds the exact result to its precision, ties to even. A NaN makes it panic with \<open>ErrNaN\<close>, which
  nothing recovers: a panic is an outcome of its own here, apart from the errors the code returns, and
  ends the whole scan.
\<close>

section \<open>Quotes\<close>

record suiPriceQuery =
  sq_at :: instant
  sq_coins :: "string list"

record suiPriceFailure =
  sf_query :: int
  sf_coin :: string
  sf_message :: string
  sf_unavailable :: bool

text \<open>A query's prices may be nil.\<close>

record suiPriceResult =
  sr_prices :: "(string \<rightharpoonup> f64) option list"
  sr_failures :: "suiPriceFailure list"

type_synonym sui_prices = "suiPriceQuery list \<Rightarrow> suiPriceResult"

record suiQuotes =
  qu_prices :: "instant \<rightharpoonup> (string \<rightharpoonup> f64)"
  qu_failures :: "instant \<Rightarrow> suiPriceFailure list"

definition mergeSortedStrings :: "string list \<Rightarrow> string list \<Rightarrow> string list" where
  "mergeSortedStrings a b = remdups_adj (sort (a @ b))"

text \<open>The map from instants to coins, in the order Go happens to visit it.\<close>

definition merge_wanted :: "(instant \<times> string list) list \<Rightarrow> instant \<Rightarrow> string list" where
  "merge_wanted wanted t = foldl (\<lambda>merged w. mergeSortedStrings merged (snd w)) [] (filter (\<lambda>w. fst w = t \<and> snd w \<noteq> []) wanted)"

definition wanted_instants :: "(instant \<times> string list) list \<Rightarrow> instant list" where
  "wanted_instants wanted = sort (remdups (map fst (filter (\<lambda>w. snd w \<noteq> []) wanted)))"

definition wanted_queries :: "(instant \<times> string list) list \<Rightarrow> suiPriceQuery list" where
  "wanted_queries wanted = map (\<lambda>t. \<lparr>sq_at = t, sq_coins = merge_wanted wanted t\<rparr>) (wanted_instants wanted)"

definition failure_at :: "int \<Rightarrow> string \<Rightarrow> bool \<Rightarrow> suiPriceFailure" where
  "failure_at query message unavailable = \<lparr>sf_query = query, sf_coin = [], sf_message = message, sf_unavailable = unavailable\<rparr>"

definition answered_prices :: "suiPriceResult \<Rightarrow> nat \<Rightarrow> (string \<rightharpoonup> f64) option" where
  "answered_prices result i = (if i < length (sr_prices result) then sr_prices result ! i else None)"

definition key_failures :: "suiPriceResult \<Rightarrow> nat \<Rightarrow> suiPriceFailure list" where
  "key_failures result i =
     (if answered_prices result i = None then [failure_at (int i) ''the price source did not answer'' True] else [])
     @ filter (\<lambda>f. sf_query f = int i) (sr_failures result)"

definition no_quotes :: suiQuotes where
  "no_quotes = \<lparr>qu_prices = Map.empty, qu_failures = (\<lambda>_. [])\<rparr>"

definition quote :: "sui_prices option \<Rightarrow> (instant \<times> string list) list \<Rightarrow> suiQuotes" where
  "quote provider wanted = (let keys = wanted_instants wanted in
     if keys = [] then no_quotes
     else case provider of
       None \<Rightarrow> no_quotes\<lparr>qu_failures := (\<lambda>t. if t \<in> set keys then [failure_at 0 ''Sui prices are not configured'' False] else [])\<rparr>
     | Some ask \<Rightarrow> (let result = ask (wanted_queries wanted); indexed = zip keys [0..<length keys] in
         \<lparr>qu_prices = (\<lambda>t. case map_of indexed t of None \<Rightarrow> None | Some i \<Rightarrow> answered_prices result i),
          qu_failures = (\<lambda>t. case map_of indexed t of None \<Rightarrow> [] | Some i \<Rightarrow> key_failures result i)\<rparr>))"

definition quote_of :: "suiQuotes \<Rightarrow> instant \<Rightarrow> string \<Rightarrow> f64 option" where
  "quote_of q t coin = (case qu_prices q t of None \<Rightarrow> None | Some prices \<Rightarrow> prices coin)"

text \<open>\<open>at\<close>, \<open>gaps\<close> and \<open>unavailable\<close>.\<close>

definition quotes_at :: "suiQuotes \<Rightarrow> instant \<Rightarrow> string list \<Rightarrow> (string \<rightharpoonup> f64) \<times> string list" where
  "quotes_at q t coins = (if coins = [] then (Map.empty, [])
     else ((\<lambda>coin. if coin \<in> set coins then quote_of q t coin else None),
       map sf_message (filter (\<lambda>f. sf_coin f = [] \<or> sf_coin f \<in> set coins) (qu_failures q t))))"

definition gap_message :: "instant \<Rightarrow> string \<Rightarrow> string" where
  "gap_message t coin = (if t = zero_time then ''no admissible USD price for '' else ''no admissible USD price at the sample for '') @ coin"

definition quote_gaps :: "suiQuotes \<Rightarrow> instant \<Rightarrow> string list \<Rightarrow> (string \<rightharpoonup> f64) \<Rightarrow> string list" where
  "quote_gaps q t coins prices =
     (if list_ex (\<lambda>f. sf_coin f = []) (qu_failures q t) then []
      else map (gap_message t) (filter (\<lambda>coin. prices coin = None \<and> coin \<notin> set (map sf_coin (qu_failures q t))) coins))"

definition unavailable_at :: "suiQuotes \<Rightarrow> instant \<Rightarrow> string option" where
  "unavailable_at q t = map_option sf_message (find sf_unavailable (qu_failures q t))"

section \<open>Values\<close>

text \<open>Rounding to a precision of \<open>p\<close> bits: \<open>big.Float\<close> to nearest, ties to even.\<close>

definition round_bits :: "nat \<Rightarrow> rat \<Rightarrow> rat" where
  "round_bits p q = (if q = 0 then 0 else let e = floor_log2 \<bar>q\<bar> - int p + 1;
     v = of_int (round_half_even (\<bar>q\<bar> / 2 powi e)) * 2 powi e in if q < 0 then - v else v)"

text \<open>\<open>SetInt\<close> on a fresh \<open>big.Float\<close>: the value is exact and its precision the greater of its bits and 64.\<close>

definition int_precision :: "int \<Rightarrow> nat" where
  "int_precision n = max (bits_of (nat \<bar>n\<bar>)) 64"

datatype sui_value_error = InvalidQuantity | UnsupportedDenominator

text \<open>How a computation ends without a value: with a panic, which unwinds every caller, or with an error it returns.\<close>

datatype go_panic = ErrNaN

datatype value_stop = Panics go_panic | Returns sui_value_error

text \<open>The product of a zero and an infinity is a NaN, as a NaN itself cannot be made a \<open>big.Float\<close>.\<close>

definition suiComponentValue :: "int \<Rightarrow> nat \<Rightarrow> f64 \<Rightarrow> go_panic + f64" where
  "suiComponentValue amount decimals price =
     (let scale = 10 ^ decimals; precision = max (int_precision amount) (int_precision scale);
          quantity = round_bits precision (of_int amount / of_int scale) in
      case price of
        NaN \<Rightarrow> Inl ErrNaN
      | Inf s \<Rightarrow> if quantity = 0 then Inl ErrNaN else Inr (Fin 0)
      | Fin p \<Rightarrow> (case round64 (round_bits precision (quantity * p)) of Fin v \<Rightarrow> Inr (Fin v) | _ \<Rightarrow> Inr (Fin 0)))"

record sui_snapshot =
  ss_protocol :: string
  ss_name :: string
  ss_account :: sui_address
  ss_checkpoint :: sui_checkpoint
  ss_groups :: "sui_group list"
  ss_value :: "f64 option"

text \<open>The loop over a group's components: the valued components, the group's total and whether any was priced.\<close>

record component_totals =
  ct_components :: "sui_component list"
  ct_total :: f64
  ct_priced :: bool
  ct_summary :: protocol_summary

definition count_value :: "string \<Rightarrow> f64 \<Rightarrow> component_totals \<Rightarrow> component_totals" where
  "count_value kind v t = (let s = ct_summary t in
     if kind = ''debt'' then t\<lparr>ct_total := f64_sub (ct_total t) v, ct_summary := s\<lparr>sum_debt := f64_add (sum_debt s) v\<rparr>\<rparr>
     else if kind = ''reward'' then t\<lparr>ct_total := f64_add (ct_total t) v, ct_summary := s\<lparr>sum_reward := f64_add (sum_reward s) v\<rparr>\<rparr>
     else t\<lparr>ct_total := f64_add (ct_total t) v, ct_summary := s\<lparr>sum_asset := f64_add (sum_asset s) v\<rparr>\<rparr>)"

definition value_component :: "(string \<rightharpoonup> f64) \<Rightarrow> component_totals \<Rightarrow> sui_component \<Rightarrow> value_stop + component_totals" where
  "value_component prices t c = (case set_string10 (sc_amount c) of None \<Rightarrow> Inl (Returns InvalidQuantity)
     | Some amount \<Rightarrow> if amount < 0 then Inl (Returns InvalidQuantity)
         else if sc_denominator c \<noteq> [] then Inl (Returns UnsupportedDenominator)
         else (let t = t\<lparr>ct_summary := (ct_summary t)\<lparr>sum_count := Suc (sum_count (ct_summary t))\<rparr>\<rparr>;
                   bare = c\<lparr>sc_price := None, sc_value := None\<rparr> in
           case prices (coin_type (sc_coin c)) of
             None \<Rightarrow> Inr (t\<lparr>ct_components := ct_components t @ [bare]\<rparr>)
           | Some price \<Rightarrow> (case suiComponentValue amount (unat (coin_decimals (sc_coin c))) price of
               Inl panic \<Rightarrow> Inl (Panics panic)
             | Inr v \<Rightarrow> (let t' = count_value (sc_kind c) v t; s = ct_summary t' in
               Inr (t'\<lparr>ct_summary := s\<lparr>sum_priced := Suc (sum_priced s)\<rparr>, ct_priced := True,
                 ct_components := ct_components t' @ [bare\<lparr>sc_price := Some price, sc_value := Some v\<rparr>]\<rparr>)))))"

definition value_group :: "(string \<rightharpoonup> f64) \<Rightarrow> sui_group list \<times> protocol_summary \<Rightarrow> sui_group
    \<Rightarrow> value_stop + sui_group list \<times> protocol_summary" where
  "value_group prices acc g =
     bindR (foldR (value_component prices) \<lparr>ct_components = [], ct_total = Fin 0, ct_priced = False, ct_summary = snd acc\<rparr> (sg_components g)) (\<lambda>t.
       Inr (fst acc @ [g\<lparr>sg_components := ct_components t, sg_value := (if ct_priced t then Some (ct_total t) else None)\<rparr>],
         if ct_priced t then (ct_summary t)\<lparr>sum_total := f64_add (sum_total (ct_summary t)) (ct_total t)\<rparr> else ct_summary t))"

definition blank_summary :: "string \<Rightarrow> string \<Rightarrow> protocol_summary" where
  "blank_summary protocol name = \<lparr>sum_protocol = protocol, sum_name = name, sum_total = Fin 0, sum_asset = Fin 0, sum_debt = Fin 0,
     sum_reward = Fin 0, sum_priced = 0, sum_count = 0, sum_chains = []\<rparr>"

definition suiValuedSnapshot :: "sui_address \<Rightarrow> sui_positions \<Rightarrow> (string \<rightharpoonup> f64)
    \<Rightarrow> value_stop + (sui_snapshot \<times> protocol_summary) option" where
  "suiValuedSnapshot owner positions prices =
     (if sp_groups positions = [] then Inr None
      else bindR (foldR (value_group prices) ([], blank_summary (sp_protocol positions) (sp_name positions)) (sp_groups positions)) (\<lambda>(groups, summary).
        Inr (Some (\<lparr>ss_protocol = sp_protocol positions, ss_name = sp_name positions, ss_account = owner,
          ss_checkpoint = sp_checkpoint positions, ss_groups = groups,
          ss_value = (if sum_priced summary > 0 then Some (sum_total summary) else None)\<rparr>, summary))))"

definition suiPositionCoins :: "sui_positions \<Rightarrow> string list" where
  "suiPositionCoins positions = mergeSortedStrings [] (concat (map (\<lambda>g. map (\<lambda>c. coin_type (sc_coin c)) (sg_components g)) (sp_groups positions)))"

section \<open>Each instant is answered by its own quote\<close>

lemma wanted_instants_distinct: "distinct (wanted_instants wanted)" "sorted (wanted_instants wanted)"
  by (simp_all add: wanted_instants_def)

lemma set_mergeSortedStrings [simp]: "set (mergeSortedStrings a b) = set a \<union> set b"
  by (simp add: mergeSortedStrings_def)

lemma distinct_remdups_adj: "sorted xs \<Longrightarrow> distinct (remdups_adj xs)"
  by (induction xs rule: remdups_adj.induct) auto

lemma sorted_mergeSortedStrings: "sorted (mergeSortedStrings a b) \<and> distinct (mergeSortedStrings a b)"
  by (simp add: mergeSortedStrings_def sorted_remdups_adj distinct_remdups_adj)

lemma set_merge_wanted: "set (merge_wanted wanted t) = (\<Union>w \<in> {w \<in> set wanted. fst w = t}. set (snd w))"
proof -
  have "set (foldl (\<lambda>merged w. mergeSortedStrings merged (snd w)) acc ws) = set acc \<union> (\<Union>w \<in> set ws. set (snd w))"
    for acc and ws :: "(instant \<times> string list) list"
    by (induction ws arbitrary: acc) auto
  then show ?thesis by (auto simp: merge_wanted_def)
qed

lemma quote_indexed:
  assumes "map_of (zip (wanted_instants wanted) [0..<length (wanted_instants wanted)]) t = Some i"
  shows "i < length (wanted_queries wanted) \<and> sq_at (wanted_queries wanted ! i) = t"
proof -
  have "(t, i) \<in> set (zip (wanted_instants wanted) [0..<length (wanted_instants wanted)])" using assms by (rule map_of_SomeD)
  then have "i < length (wanted_instants wanted)" "wanted_instants wanted ! i = t" by (auto simp: in_set_zip)
  then show ?thesis by (simp add: wanted_queries_def)
qed

text \<open>What is quoted, some answer of the source holds.\<close>

lemma quote_of_source:
  assumes "quote_of (quote provider wanted) t coin = Some price"
  shows "\<exists>ask prices. provider = Some ask \<and> Some prices \<in> set (sr_prices (ask (wanted_queries wanted))) \<and> prices coin = Some price"
proof -
  obtain ask i where ask: "provider = Some ask"
      and "\<exists>prices. answered_prices (ask (wanted_queries wanted)) i = Some prices \<and> prices coin = Some price"
    using assms by (auto simp: quote_of_def quote_def Let_def no_quotes_def split: if_splits option.splits)
  then show ?thesis by (auto simp: answered_prices_def split: if_splits) (metis nth_mem)
qed

lemma quotes_at_quoted: "quotes_at q t coins = (prices, failures) \<Longrightarrow> prices coin = Some price \<Longrightarrow> quote_of q t coin = Some price"
  by (auto simp: quotes_at_def split: if_splits)

text \<open>C28: the price source is asked once per instant, in time order, for the sorted coins wanted at that
  instant, and the price of a coin at an instant is the one its own query was answered with.\<close>

theorem quote_own_instant:
  assumes "quote_of (quote (Some ask) wanted) t coin = Some price"
  shows "sorted_wrt (<) (map sq_at (wanted_queries wanted))
    \<and> (\<exists>i < length (wanted_queries wanted). sq_at (wanted_queries wanted ! i) = t
        \<and> set (sq_coins (wanted_queries wanted ! i)) = (\<Union>w \<in> {w \<in> set wanted. fst w = t}. set (snd w))
        \<and> i < length (sr_prices (ask (wanted_queries wanted)))
        \<and> (\<exists>prices. sr_prices (ask (wanted_queries wanted)) ! i = Some prices \<and> prices coin = Some price))"
proof -
  have "map sq_at (wanted_queries wanted) = wanted_instants wanted" by (simp add: wanted_queries_def comp_def)
  then have "sorted_wrt (<) (map sq_at (wanted_queries wanted))" using wanted_instants_distinct by (simp only: strict_sorted_iff)
  moreover obtain i where "map_of (zip (wanted_instants wanted) [0..<length (wanted_instants wanted)]) t = Some i"
      and prices: "\<exists>prices. answered_prices (ask (wanted_queries wanted)) i = Some prices \<and> prices coin = Some price"
    using assms by (auto simp: quote_of_def quote_def Let_def no_quotes_def split: if_splits option.splits)
  ultimately show ?thesis
    using quote_indexed [of wanted t i] prices
    by (fastforce simp: answered_prices_def wanted_queries_def set_merge_wanted split: if_splits)
qed

text \<open>No coin is left unpriced in silence: with the failures \<open>at\<close> returns and the gaps reported beside
  them, every coin asked for is priced, or a failure about it (or about all of its instant) is returned,
  or it is reported as a gap.\<close>

lemma unpriced_is_explained:
  assumes "coin \<in> set coins" "fst (quotes_at q t coins) coin = None"
  shows "(\<exists>f \<in> set (qu_failures q t). (sf_coin f = [] \<or> sf_coin f = coin) \<and> sf_message f \<in> set (snd (quotes_at q t coins)))
    \<or> gap_message t coin \<in> set (quote_gaps q t coins (fst (quotes_at q t coins)))"
proof (cases "\<exists>f \<in> set (qu_failures q t). sf_coin f = [] \<or> sf_coin f = coin")
  case True
  then obtain f where "f \<in> set (qu_failures q t)" "sf_coin f = [] \<or> sf_coin f = coin" by blast
  then have "sf_message f \<in> set (snd (quotes_at q t coins))" using assms(1) by (auto simp: quotes_at_def)
  then show ?thesis using \<open>f \<in> set (qu_failures q t)\<close> \<open>sf_coin f = [] \<or> sf_coin f = coin\<close> by blast
next
  case False
  then show ?thesis using assms by (auto simp: quote_gaps_def list_ex_iff)
qed

section \<open>Values are accurate\<close>

lemma round_bits_error: "\<bar>round_bits p q - q\<bar> \<le> \<bar>q\<bar> * 2 powi (- int p)"
proof (cases "q = 0")
  case False
  define a where "a = \<bar>q\<bar>"
  define e where "e = floor_log2 a - int p + 1"
  define u where "u = (2::rat) powi e"
  define v where "v = of_int (round_half_even (a / u)) * u"
  have a: "a > 0" and u: "u > 0" using False by (simp_all add: a_def u_def)
  have "v - a = (of_int (round_half_even (a / u)) - a / u) * u" using u by (simp add: v_def algebra_simps)
  then have "\<bar>v - a\<bar> = \<bar>of_int (round_half_even (a / u)) - a / u\<bar> * u" using u by (simp add: abs_mult)
  also have "\<dots> \<le> 1 / 2 * u" using round_half_even_error u by (intro mult_right_mono) auto
  also have "\<dots> = 2 powi (e - 1)" by (simp add: u_def power_int_diff)
  also have "e - 1 = floor_log2 a + (- int p)" by (simp add: e_def)
  also have "(2::rat) powi (floor_log2 a + (- int p)) = 2 powi floor_log2 a * 2 powi (- int p)" by (rule power_int_add) simp
  also have "\<dots> \<le> a * 2 powi (- int p)" using floor_log2_bounds [OF a] by (intro mult_right_mono) auto
  finally have "\<bar>v - a\<bar> \<le> a * 2 powi (- int p)" .
  moreover have "round_bits p q = (if q < 0 then - v else v)"
    using False by (simp add: round_bits_def Let_def v_def u_def e_def a_def)
  ultimately show ?thesis unfolding a_def by (cases "q < 0") (auto simp: abs_le_iff abs_if split: if_splits)
qed (simp add: round_bits_def)

text \<open>The value before its last rounding: of the exact value, within a relative \<open>2 ^ -62\<close>.\<close>

lemma precise_product:
  assumes "64 \<le> n"
  shows "\<bar>round_bits n (round_bits n x * p) - x * p\<bar> \<le> \<bar>x * p\<bar> * 2 powi (- 62)"
proof -
  define d where "d = (2::rat) powi (- int n)"
  have d: "0 < d" "d \<le> 2 powi (- 64)"
    unfolding d_def using assms by (simp, intro power_int_increasing) simp_all
  have expand: "E * d + (E + E * d) * d = E * (2 * d + d * d)" for E by (simp add: algebra_simps)
  define y where "y = round_bits n x"
  have y: "\<bar>y - x\<bar> \<le> \<bar>x\<bar> * d" unfolding y_def d_def by (rule round_bits_error)
  then have yp: "\<bar>y * p - x * p\<bar> \<le> \<bar>x * p\<bar> * d"
  proof -
    have "y * p - x * p = (y - x) * p" by (simp add: algebra_simps)
    then have "\<bar>y * p - x * p\<bar> = \<bar>y - x\<bar> * \<bar>p\<bar>" by (simp only: abs_mult)
    also have "\<dots> \<le> \<bar>x\<bar> * d * \<bar>p\<bar>" using y by (rule mult_right_mono) simp
    finally show ?thesis by (simp add: abs_mult mult_ac)
  qed
  have "\<bar>round_bits n (y * p) - y * p\<bar> \<le> \<bar>y * p\<bar> * d" unfolding d_def by (rule round_bits_error)
  also have "\<dots> \<le> (\<bar>x * p\<bar> + \<bar>x * p\<bar> * d) * d"
  proof (rule mult_right_mono)
    have "\<bar>y * p\<bar> \<le> \<bar>x * p\<bar> + \<bar>y * p - x * p\<bar>" by (rule order_trans [OF _ abs_triangle_ineq]) simp
    then show "\<bar>y * p\<bar> \<le> \<bar>x * p\<bar> + \<bar>x * p\<bar> * d" using yp by (rule order_trans [OF _ add_left_mono])
  qed (use d(1) in simp)
  finally have outer: "\<bar>round_bits n (y * p) - y * p\<bar> \<le> (\<bar>x * p\<bar> + \<bar>x * p\<bar> * d) * d" .
  have "\<bar>round_bits n (y * p) - x * p\<bar> \<le> \<bar>y * p - x * p\<bar> + \<bar>round_bits n (y * p) - y * p\<bar>"
    by (rule order_trans [OF _ abs_triangle_ineq]) simp
  also have "\<dots> \<le> \<bar>x * p\<bar> * d + (\<bar>x * p\<bar> + \<bar>x * p\<bar> * d) * d" using yp outer by (rule add_mono)
  also have "\<dots> = \<bar>x * p\<bar> * (2 * d + d * d)" by (rule expand)
  also have "\<dots> \<le> \<bar>x * p\<bar> * 2 powi (- 62)"
  proof (rule mult_left_mono)
    have "(2::rat) powi (- 64) = 1 / 2 ^ 64" by (simp add: power_int_minus)
    then have "d \<le> 1 / 2 ^ 64" using d(2) by simp
    moreover from this have "d * d \<le> d * 1" using d(1) by (intro mult_left_mono) auto
    ultimately have "2 * d + d * d \<le> 3 / 2 ^ 64" by simp
    also have "(3::rat) / 2 ^ 64 \<le> 2 powi (- 62)" by (simp add: power_int_minus)
    finally show "2 * d + d * d \<le> 2 powi (- 62)" .
  qed simp
  finally show ?thesis by (simp add: y_def)
qed

lemma round_bits_zero: "p > 0 \<Longrightarrow> round_bits p q = 0 \<longleftrightarrow> q = 0"
proof
  assume p: "p > 0" and r: "round_bits p q = 0"
  show "q = 0"
  proof (rule ccontr)
    assume "q \<noteq> 0"
    have "\<bar>q\<bar> \<le> \<bar>q\<bar> * 2 powi (- int p)" using round_bits_error [of p q] r by simp
    also have "\<dots> \<le> \<bar>q\<bar> * 2 powi (- 1)" using p by (intro mult_left_mono power_int_increasing) auto
    finally show False using \<open>q \<noteq> 0\<close> by (simp add: power_int_minus)
  qed
qed (simp add: round_bits_def)

text \<open>C31: at a finite price a component's value is the rounding to \<open>float64\<close> of a number within a relative
  \<open>2 ^ -62\<close> of the exact \<open>amount / 10 ^ decimals * price\<close>, or zero where that overflows \<open>float64\<close>. At a
  NaN the code panics. At an infinity it panics when the amount is zero, and gives zero otherwise.\<close>

theorem suiComponentValue_accurate:
  "case price of
     NaN \<Rightarrow> suiComponentValue amount decimals price = Inl ErrNaN
   | Inf s \<Rightarrow> suiComponentValue amount decimals price = (if amount = 0 then Inl ErrNaN else Inr (Fin 0))
   | Fin p \<Rightarrow> (\<exists>y v. suiComponentValue amount decimals price = Inr (Fin v)
       \<and> \<bar>y - of_int amount / 10 ^ decimals * p\<bar> \<le> \<bar>of_int amount / 10 ^ decimals * p\<bar> * 2 powi (- 62)
       \<and> (if is_finite64 (round64 y) then round64 y = Fin v else v = 0))"
proof (cases price)
  case (Fin p)
  define n where "n = max (int_precision amount) (int_precision (10 ^ decimals))"
  define y where "y = round_bits n (round_bits n (of_int amount / 10 ^ decimals) * p)"
  have "64 \<le> n" by (simp add: n_def int_precision_def)
  then have "\<bar>y - of_int amount / 10 ^ decimals * p\<bar> \<le> \<bar>of_int amount / 10 ^ decimals * p\<bar> * 2 powi (- 62)"
    unfolding y_def by (rule precise_product)
  moreover have "suiComponentValue amount decimals price = Inr (Fin (case round64 y of Fin v \<Rightarrow> v | _ \<Rightarrow> 0))"
    by (simp add: suiComponentValue_def Fin Let_def y_def n_def split: f64.split)
  ultimately show ?thesis unfolding Fin f64.case
    by (intro exI [of _ y] exI [of _ "case round64 y of Fin v \<Rightarrow> v | _ \<Rightarrow> 0"]) (auto split: f64.split)
next
  case (Inf s)
  have "0 < max (int_precision amount) (int_precision (10 ^ decimals))" by (simp add: int_precision_def)
  then show ?thesis unfolding Inf by (simp add: suiComponentValue_def Let_def round_bits_zero)
qed (simp add: suiComponentValue_def Let_def)

section \<open>When a valuation panics\<close>

lemma suiComponentValue_panics: "suiComponentValue amount decimals price = Inl panic \<Longrightarrow> \<not> is_finite64 price"
  by (cases price) (auto simp: suiComponentValue_def Let_def split: f64.splits)

lemma foldR_Inl: "foldR f acc xs = Inl stop \<Longrightarrow> \<exists>x \<in> set xs. \<exists>acc. f acc x = Inl stop"
  by (induction xs arbitrary: acc) (auto simp: bindR_Inl_iff)

text \<open>Only a price that is not finite makes a valuation panic.\<close>

lemma suiValuedSnapshot_panics:
  assumes "suiValuedSnapshot owner positions prices = Inl (Panics panic)"
  shows "\<exists>coin price. prices coin = Some price \<and> \<not> is_finite64 price"
proof -
  obtain acc g where "value_group prices acc g = Inl (Panics panic)"
    using assms foldR_Inl by (fastforce simp: suiValuedSnapshot_def bindR_Inl_iff split: if_splits)
  then obtain t c where "value_component prices t c = Inl (Panics panic)"
    using foldR_Inl by (fastforce simp: value_group_def bindR_Inl_iff)
  then show ?thesis
    by (auto simp: value_component_def Let_def split: option.splits if_splits sum.splits dest!: suiComponentValue_panics)
qed

section \<open>A valued snapshot\<close>

definition component_worth :: "(string \<rightharpoonup> f64) \<Rightarrow> sui_component \<Rightarrow> (f64 \<times> f64) option" where
  "component_worth prices c = (case prices (coin_type (sc_coin c)) of None \<Rightarrow> None
     | Some price \<Rightarrow> (case set_string10 (sc_amount c) of None \<Rightarrow> None
         | Some amount \<Rightarrow> (case suiComponentValue amount (unat (coin_decimals (sc_coin c))) price of Inl panic \<Rightarrow> None
             | Inr v \<Rightarrow> Some (price, v))))"

definition shown_component :: "(string \<rightharpoonup> f64) \<Rightarrow> sui_component \<Rightarrow> sui_component" where
  "shown_component prices c = c\<lparr>sc_price := map_option fst (component_worth prices c), sc_value := map_option snd (component_worth prices c)\<rparr>"

text \<open>A group's value nets its priced components, debts subtracted.\<close>

definition net_step :: "(string \<rightharpoonup> f64) \<Rightarrow> f64 \<Rightarrow> sui_component \<Rightarrow> f64" where
  "net_step prices acc c = (case component_worth prices c of None \<Rightarrow> acc
     | Some (price, v) \<Rightarrow> if sc_kind c = ''debt'' then f64_sub acc v else f64_add acc v)"

definition group_worth :: "(string \<rightharpoonup> f64) \<Rightarrow> sui_group \<Rightarrow> f64 option" where
  "group_worth prices g = (if list_ex (\<lambda>c. component_worth prices c \<noteq> None) (sg_components g)
     then Some (foldl (net_step prices) (Fin 0) (sg_components g)) else None)"

definition shown_group :: "(string \<rightharpoonup> f64) \<Rightarrow> sui_group \<Rightarrow> sui_group" where
  "shown_group prices g = g\<lparr>sg_components := map (shown_component prices) (sg_components g), sg_value := group_worth prices g\<rparr>"

definition priced_count :: "(string \<rightharpoonup> f64) \<Rightarrow> sui_component list \<Rightarrow> nat" where
  "priced_count prices cs = length (filter (\<lambda>c. component_worth prices c \<noteq> None) cs)"

lemma value_component_shown:
  assumes "value_component prices t c = Inr t'"
  shows "ct_components t' = ct_components t @ [shown_component prices c] \<and> ct_total t' = net_step prices (ct_total t) c
    \<and> ct_priced t' = (ct_priced t \<or> component_worth prices c \<noteq> None)
    \<and> sum_count (ct_summary t') = Suc (sum_count (ct_summary t)) \<and> sum_priced (ct_summary t') = sum_priced (ct_summary t) + priced_count prices [c]
    \<and> sum_total (ct_summary t') = sum_total (ct_summary t)
    \<and> sum_protocol (ct_summary t') = sum_protocol (ct_summary t) \<and> sum_name (ct_summary t') = sum_name (ct_summary t)"
  using assms
  by (cases "sc_kind c = ''debt''"; cases "sc_kind c = ''reward''") (auto simp: value_component_def bindR_Inr_iff Let_def count_value_def component_worth_def shown_component_def net_step_def priced_count_def
      split: if_splits option.splits sum.splits)

lemma value_components_shown:
  "foldR (value_component prices) t cs = Inr t' \<Longrightarrow>
     ct_components t' = ct_components t @ map (shown_component prices) cs \<and> ct_total t' = foldl (net_step prices) (ct_total t) cs
    \<and> ct_priced t' = (ct_priced t \<or> list_ex (\<lambda>c. component_worth prices c \<noteq> None) cs)
    \<and> sum_count (ct_summary t') = sum_count (ct_summary t) + length cs \<and> sum_priced (ct_summary t') = sum_priced (ct_summary t) + priced_count prices cs
    \<and> sum_total (ct_summary t') = sum_total (ct_summary t)
    \<and> sum_protocol (ct_summary t') = sum_protocol (ct_summary t) \<and> sum_name (ct_summary t') = sum_name (ct_summary t)"
proof (induction cs arbitrary: t)
  case (Cons c cs)
  then obtain s where "value_component prices t c = Inr s" "foldR (value_component prices) s cs = Inr t'" by (auto simp: bindR_Inr_iff)
  then show ?case using Cons.IH [of s] value_component_shown [of prices t c s] by (auto simp: priced_count_def)
qed (simp add: priced_count_def)

definition add_worth :: "(string \<rightharpoonup> f64) \<Rightarrow> f64 \<Rightarrow> sui_group \<Rightarrow> f64" where
  "add_worth prices acc g = (case group_worth prices g of None \<Rightarrow> acc | Some v \<Rightarrow> f64_add acc v)"

definition group_components :: "sui_group list \<Rightarrow> sui_component list" where
  "group_components gs = concat (map sg_components gs)"

lemma value_groups_shown:
  "foldR (value_group prices) acc gs = Inr acc' \<Longrightarrow>
     fst acc' = fst acc @ map (shown_group prices) gs \<and> sum_total (snd acc') = foldl (add_worth prices) (sum_total (snd acc)) gs
    \<and> sum_count (snd acc') = sum_count (snd acc) + length (group_components gs)
    \<and> sum_priced (snd acc') = sum_priced (snd acc) + priced_count prices (group_components gs)
    \<and> sum_protocol (snd acc') = sum_protocol (snd acc) \<and> sum_name (snd acc') = sum_name (snd acc)"
proof (induction gs arbitrary: acc)
  case (Cons g gs)
  then obtain mid where mid: "value_group prices acc g = Inr mid" "foldR (value_group prices) mid gs = Inr acc'" by (auto simp: bindR_Inr_iff)
  obtain t where t: "foldR (value_component prices) \<lparr>ct_components = [], ct_total = Fin 0, ct_priced = False, ct_summary = snd acc\<rparr> (sg_components g) = Inr t"
      "mid = (fst acc @ [g\<lparr>sg_components := ct_components t, sg_value := (if ct_priced t then Some (ct_total t) else None)\<rparr>],
         if ct_priced t then (ct_summary t)\<lparr>sum_total := f64_add (sum_total (ct_summary t)) (ct_total t)\<rparr> else ct_summary t)"
    using mid(1) by (auto simp: value_group_def bindR_Inr_iff)
  have "fst mid = fst acc @ [shown_group prices g] \<and> sum_total (snd mid) = add_worth prices (sum_total (snd acc)) g
      \<and> sum_count (snd mid) = sum_count (snd acc) + length (sg_components g)
      \<and> sum_priced (snd mid) = sum_priced (snd acc) + priced_count prices (sg_components g)
      \<and> sum_protocol (snd mid) = sum_protocol (snd acc) \<and> sum_name (snd mid) = sum_name (snd acc)"
    using value_components_shown [OF t(1)] unfolding t(2) by (simp add: shown_group_def group_worth_def add_worth_def)
  then show ?case using Cons.IH [OF mid(2)] by (simp add: group_components_def priced_count_def)
qed (simp add: group_components_def priced_count_def)

text \<open>C29: a valued snapshot shows every component of the positions with its own quote and value, or neither;
  a group's value nets its priced components and is absent when none is; the summary counts every component
  and the priced ones; the snapshot's value is the total of its groups', absent when nothing was priced.\<close>

theorem suiValuedSnapshot_shows:
  assumes "suiValuedSnapshot owner positions prices = Inr (Some (snapshot, summary))"
  shows "ss_groups snapshot = map (shown_group prices) (sp_groups positions) \<and> ss_account snapshot = owner
    \<and> ss_checkpoint snapshot = sp_checkpoint positions
    \<and> sum_count summary = length (group_components (sp_groups positions))
    \<and> sum_priced summary = priced_count prices (group_components (sp_groups positions))
    \<and> sum_total summary = foldl (add_worth prices) (Fin 0) (sp_groups positions)
    \<and> ss_value snapshot = (if priced_count prices (group_components (sp_groups positions)) = 0 then None else Some (sum_total summary))"
proof -
  obtain groups s where run: "foldR (value_group prices) ([], blank_summary (sp_protocol positions) (sp_name positions)) (sp_groups positions) = Inr (groups, s)"
      and shown: "snapshot = \<lparr>ss_protocol = sp_protocol positions, ss_name = sp_name positions, ss_account = owner,
          ss_checkpoint = sp_checkpoint positions, ss_groups = groups,
          ss_value = (if sum_priced s > 0 then Some (sum_total s) else None)\<rparr>" "summary = s"
    using assms by (auto simp: suiValuedSnapshot_def bindR_Inr_iff split: if_splits)
  show ?thesis using value_groups_shown [OF run] unfolding shown by (simp add: blank_summary_def)
qed

section \<open>Witnesses\<close>

definition coin_of :: "string \<Rightarrow> sui_coin_metadata" where
  "coin_of coin = \<lparr>coin_type = coin, coin_symbol = coin, coin_name = coin, coin_decimals = 0\<rparr>"

definition example_component :: "string \<Rightarrow> string \<Rightarrow> string \<Rightarrow> sui_component" where
  "example_component kind coin amount = \<lparr>sc_kind = kind, sc_coin = coin_of coin, sc_amount = amount, sc_denominator = [], sc_price = None, sc_value = None, sc_metadata = []\<rparr>"

definition example_positions :: sui_positions where
  "example_positions = \<lparr>sp_protocol = ''wallet'', sp_name = ''Wallet'', sp_checkpoint = no_checkpoint, sp_head_before = 0,
     sp_groups = [\<lparr>sg_id = ''g'', sg_market = [], sg_label = [], sg_components = [example_component ''asset'' ''a'' ''0'', example_component ''debt'' ''b'' ''5''],
       sg_value = None, sg_metadata = []\<rparr>], sp_errors = []\<rparr>"

definition source_pricing_one :: sui_prices where
  "source_pricing_one queries = \<lparr>sr_prices = map (\<lambda>q. Some (\<lambda>coin. if coin = ''a'' then Some (Fin (of_int (sq_at q))) else None)) queries, sr_failures = []\<rparr>"

lemma wanted_example: "wanted_instants [(7, [''b'']), (5, [''a'']), (7, [''a''])] = [5, 7]"
  by (simp add: wanted_instants_def)

theorem quote_own_instant_witness:
  "quote_of (quote (Some source_pricing_one) [(7, [''b'']), (5, [''a'']), (7, [''a''])]) 7 ''a'' = Some (Fin 7)
   \<and> (\<exists>i < length (wanted_queries [(7, [''b'']), (5, [''a'']), (7, [''a''])]).
        sq_at (wanted_queries [(7, [''b'']), (5, [''a'']), (7, [''a''])] ! i) = 7)"
proof -
  have run: "quote_of (quote (Some source_pricing_one) [(7, [''b'']), (5, [''a'']), (7, [''a''])]) 7 ''a'' = Some (Fin 7)"
    by (simp add: quote_of_def quote_def wanted_example wanted_queries_def source_pricing_one_def answered_prices_def Let_def)
  from quote_own_instant [OF run] show ?thesis using run by blast
qed

lemma int_zero_value: "suiComponentValue 0 0 (Fin 3) = Inr (Fin 0)"
  by (simp add: suiComponentValue_def round_bits_def)

lemma example_valued: "suiValuedSnapshot 0 example_positions [''a'' \<mapsto> Fin 3] = Inr (Some (
    \<lparr>ss_protocol = ''wallet'', ss_name = ''Wallet'', ss_account = 0, ss_checkpoint = no_checkpoint,
      ss_groups = map (shown_group [''a'' \<mapsto> Fin 3]) (sp_groups example_positions), ss_value = Some (Fin 0)\<rparr>,
    (blank_summary ''wallet'' ''Wallet'')\<lparr>sum_priced := 1, sum_count := 2\<rparr>))"
proof -
  have digits: "set_string10 ''0'' = Some 0" "set_string10 ''5'' = Some 5" by code_simp+
  show ?thesis
    by (simp add: suiValuedSnapshot_def example_positions_def value_group_def value_component_def example_component_def coin_of_def digits int_zero_value
        count_value_def blank_summary_def shown_group_def shown_component_def component_worth_def group_worth_def net_step_def Let_def)
qed

theorem suiValuedSnapshot_shows_witness:
  "sum_count ((blank_summary ''wallet'' ''Wallet'')\<lparr>sum_priced := 1, sum_count := 2\<rparr>) = length (group_components (sp_groups example_positions))
   \<and> priced_count [''a'' \<mapsto> Fin 3] (group_components (sp_groups example_positions)) = 1"
  using suiValuedSnapshot_shows [OF example_valued] by simp

end
