(* ===== verification/SuiWallet.thy ===== *)
theory SuiWallet
  imports SuiRange SuiPricing
begin

text \<open>
  Where the Sui engine reads each protocol (\<open>sui_engine.go\<close>: routes, sources, pins, the shared dial of
  the node) and what it makes of wallet balances (\<open>sui_engine_wallet.go\<close>): the group of each coin,
  the omitted coins, the remembered coin metadata, and the wallet at the pins of a sampled scan.
\<close>

section \<open>Routes\<close>

datatype suiSource = Unread | FromNode | FromIndex | FromWalletHistory

record suiRoute =
  rt_id :: string
  rt_name :: string
  rt_latest :: suiSource
  rt_pinned :: suiSource

definition route :: "string \<Rightarrow> string \<Rightarrow> suiSource \<Rightarrow> suiSource \<Rightarrow> suiRoute" where
  "route i name latest pinned = \<lparr>rt_id = i, rt_name = name, rt_latest = latest, rt_pinned = pinned\<rparr>"

definition suiRoutes :: "suiRoute list" where
  "suiRoutes = [route ''wallet'' ''Wallet'' FromNode FromWalletHistory,
     route ''navi'' ''NAVI'' FromNode FromIndex,
     route ''volo-vaults'' ''Volo Vaults'' FromNode Unread,
     route ''suilend'' ''Suilend'' FromIndex FromIndex,
     route ''cetus'' ''Cetus'' FromNode Unread,
     route ''bluefin'' ''Bluefin'' FromNode Unread]"

text \<open>
  Why something was not read. The response shows \<open>PublicError\<close> of the text of each; which of them it is
  decides whether asking again may help.
\<close>

datatype sui_issue =
    NodeUnconfigured | IndexUnconfigured | WalletUnconfigured | WalletNeedsNode | HistoryUnsupported
  | IndexedLatestStale | InvalidIndexedState | InvalidIdentity
  | NodeUnavailable go_error | NodeFailed go_error
  | IndexFailed sui_sql_error | ReadUnread sui_issue
  | NoSampleForHour | NoSampleAtCheckpoint string u64
  | NothingIndexed | NoSampleToPin string | PinsDiffer
  | HoldingsFailed go_error | LatestMetadataFailed go_error
  | WalletBalancesFailed go_error | WalletTooManyCoins nat | WalletMetadataFailed go_error
  | OmittedCoins nat "string list" | UnresolvedCoins nat
  | PositionFailed go_error | PriceNote string | MorePriceFailures nat | ValueFailed sui_value_error

text \<open>What a \<open>SuiEngine\<close> was configured with: its node, indexes, wallet history and prices.\<close>

record sui_sources =
  has_node :: bool
  has_index :: "string \<Rightarrow> bool"
  has_wallet :: bool
  price_source :: "sui_prices option"
  admit_coins :: "string list \<Rightarrow> string list"

definition configuredSui :: "sui_sources \<Rightarrow> suiRoute \<Rightarrow> suiSource \<Rightarrow> sui_issue option" where
  "configuredSui e r src = (case src of
       FromNode \<Rightarrow> if \<not> has_node e then Some NodeUnconfigured else None
     | FromIndex \<Rightarrow> if \<not> has_index e (rt_id r) then Some IndexUnconfigured else None
     | FromWalletHistory \<Rightarrow> if \<not> has_wallet e then Some WalletUnconfigured else if \<not> has_node e then Some WalletNeedsNode else None
     | Unread \<Rightarrow> Some HistoryUnsupported)"

record suiProtocolInfo =
  pi_id :: string
  pi_name :: string
  pi_history :: bool
  pi_latest :: bool
  pi_pinned :: bool

definition sui_info :: "sui_sources \<Rightarrow> suiRoute \<Rightarrow> suiProtocolInfo" where
  "sui_info e r = \<lparr>pi_id = rt_id r, pi_name = rt_name r, pi_history = (rt_pinned r \<noteq> Unread),
     pi_latest = (configuredSui e r (rt_latest r) = None), pi_pinned = (configuredSui e r (rt_pinned r) = None)\<rparr>"

definition SuiProtocols :: "sui_sources \<Rightarrow> suiProtocolInfo list" where
  "SuiProtocols e = map (sui_info e) suiRoutes"

text \<open>\<open>HistoryReady\<close>: the protocols with a past that cannot be read at a pin, and why.\<close>

definition HistoryReady :: "sui_sources \<Rightarrow> (string \<times> sui_issue) list" where
  "HistoryReady e = concat (map (\<lambda>r. case configuredSui e r (rt_pinned r) of None \<Rightarrow> [] | Some issue \<Rightarrow> [(rt_id r, issue)])
     (filter (\<lambda>r. rt_pinned r \<noteq> Unread) suiRoutes))"

text \<open>An empty selection selects every protocol.\<close>

definition selected_routes :: "string list \<Rightarrow> suiRoute list" where
  "selected_routes protocolIDs = filter (\<lambda>r. rt_id r \<in> set protocolIDs \<or> protocolIDs = []) suiRoutes"

section \<open>The shared dial\<close>

text \<open>
  \<open>suiNodeDialer\<close>. A dial is in flight, ended (its outcome taken under the mutex) or closed (its waiters
  woken). Reads, by number, that find no reader wait for the dial in flight, or start one. The reader a
  dial published is kept for good.
\<close>

datatype 'r dial_outcome = Dialing | Ended "go_error + 'r" | Closed "go_error + 'r"

datatype 'r dial_wait = DialIdle | WaitsFor nat | Got 'r | GotError go_error | GaveUpWaiting

record 'r dialer =
  dl_reader :: "'r option"
  dl_attempt :: "nat option"
  dl_outcomes :: "'r dial_outcome list"
  dl_waits :: "nat \<Rightarrow> 'r dial_wait"

definition new_dialer :: "'r dialer" where
  "new_dialer = \<lparr>dl_reader = None, dl_attempt = None, dl_outcomes = [], dl_waits = (\<lambda>_. DialIdle)\<rparr>"

datatype 'r dial_event = GetReader nat | DialReturns "go_error + 'r option" | CloseDone nat | Wakes nat | ContextDone nat

definition dial_result :: "go_error + 'r option \<Rightarrow> go_error + 'r" where
  "dial_result returned = (case returned of Inl e \<Rightarrow> Inl e
     | Inr None \<Rightarrow> Inl (PlainError ''Sui node dialer returned no reader'') | Inr (Some r) \<Rightarrow> Inr r)"

definition set_wait :: "nat \<Rightarrow> 'r dial_wait \<Rightarrow> 'r dialer \<Rightarrow> 'r dialer" where
  "set_wait i w d = d\<lparr>dl_waits := (dl_waits d)(i := w)\<rparr>"

fun dial_act :: "'r dial_event \<Rightarrow> 'r dialer \<Rightarrow> 'r dialer option" where
  "dial_act (GetReader i) d = (if dl_waits d i \<noteq> DialIdle then None
     else case dl_reader d of
       Some r \<Rightarrow> Some (set_wait i (Got r) d)
     | None \<Rightarrow> (case dl_attempt d of
         Some a \<Rightarrow> Some (set_wait i (WaitsFor a) d)
       | None \<Rightarrow> Some (set_wait i (WaitsFor (length (dl_outcomes d)))
           (d\<lparr>dl_attempt := Some (length (dl_outcomes d)), dl_outcomes := dl_outcomes d @ [Dialing]\<rparr>))))"
| "dial_act (DialReturns returned) d = (case dl_attempt d of None \<Rightarrow> None
     | Some a \<Rightarrow> Some (d\<lparr>dl_reader := (case dial_result returned of Inr r \<Rightarrow> Some r | Inl e \<Rightarrow> dl_reader d),
         dl_attempt := None, dl_outcomes := (dl_outcomes d)[a := Ended (dial_result returned)]\<rparr>))"
| "dial_act (CloseDone a) d = (if \<not> a < length (dl_outcomes d) then None
     else case dl_outcomes d ! a of Ended result \<Rightarrow> Some (d\<lparr>dl_outcomes := (dl_outcomes d)[a := Closed result]\<rparr>) | _ \<Rightarrow> None)"
| "dial_act (Wakes i) d = (case dl_waits d i of
     WaitsFor a \<Rightarrow> (case dl_outcomes d ! a of
         Closed (Inr r) \<Rightarrow> Some (set_wait i (Got r) d) | Closed (Inl e) \<Rightarrow> Some (set_wait i (GotError e) d) | _ \<Rightarrow> None)
   | _ \<Rightarrow> None)"
| "dial_act (ContextDone i) d = (case dl_waits d i of WaitsFor a \<Rightarrow> Some (set_wait i GaveUpWaiting d) | _ \<Rightarrow> None)"

definition outcome_of :: "'r dial_outcome \<Rightarrow> 'r option" where
  "outcome_of x = (case x of Ended (Inr r) \<Rightarrow> Some r | Closed (Inr r) \<Rightarrow> Some r | _ \<Rightarrow> None)"

definition dialer_inv :: "'r dialer \<Rightarrow> bool" where
  "dialer_inv d \<longleftrightarrow>
     (\<forall>a < length (dl_outcomes d). (dl_outcomes d ! a = Dialing) = (dl_attempt d = Some a))
     \<and> (\<forall>a. dl_attempt d = Some a \<longrightarrow> a < length (dl_outcomes d) \<and> dl_reader d = None)
     \<and> (\<forall>x \<in> set (dl_outcomes d). \<forall>r. outcome_of x = Some r \<longrightarrow> dl_reader d = Some r)
     \<and> (\<forall>i r. dl_waits d i = Got r \<longrightarrow> dl_reader d = Some r)
     \<and> (\<forall>i a. dl_waits d i = WaitsFor a \<longrightarrow> a < length (dl_outcomes d))"

lemma dialer_invD:
  assumes "dialer_inv d"
  shows "a < length (dl_outcomes d) \<Longrightarrow> dl_outcomes d ! a = Dialing \<longleftrightarrow> dl_attempt d = Some a"
    and "dl_attempt d = Some a \<Longrightarrow> a < length (dl_outcomes d)" "dl_attempt d = Some a \<Longrightarrow> dl_reader d = None"
    and "x \<in> set (dl_outcomes d) \<Longrightarrow> outcome_of x = Some r \<Longrightarrow> dl_reader d = Some r"
    and "dl_waits d i = Got r \<Longrightarrow> dl_reader d = Some r" "dl_waits d i = WaitsFor a \<Longrightarrow> a < length (dl_outcomes d)"
  using assms unfolding dialer_inv_def by blast+

lemma dialer_inv_wait:
  assumes "dialer_inv d" "\<And>r. w = Got r \<Longrightarrow> dl_reader d = Some r" "\<And>a. w = WaitsFor a \<Longrightarrow> a < length (dl_outcomes d)"
  shows "dialer_inv (set_wait i w d)"
  using assms unfolding dialer_inv_def set_wait_def by (simp add: all_conj_distrib)

lemma dialer_step:
  assumes "dialer_inv d" "dial_act e d = Some d'"
  shows "dialer_inv d'"
proof (cases e)
  case (GetReader i)
  show ?thesis
  proof (cases "dl_reader d = None \<and> dl_attempt d = None")
    case True
    then have d': "d' = set_wait i (WaitsFor (length (dl_outcomes d)))
        (d\<lparr>dl_attempt := Some (length (dl_outcomes d)), dl_outcomes := dl_outcomes d @ [Dialing]\<rparr>)"
      using assms(2) GetReader by (auto split: if_splits)
    show ?thesis
      using assms(1) True unfolding dialer_inv_def d' set_wait_def
      by (auto simp: nth_append less_Suc_eq outcome_of_def)
  next
    case False
    then obtain w where "d' = set_wait i w d" "w = Got (the (dl_reader d)) \<and> dl_reader d \<noteq> None \<or> w = WaitsFor (the (dl_attempt d)) \<and> dl_attempt d \<noteq> None"
      using assms(2) GetReader by (auto split: if_splits option.splits)
    then show ?thesis using assms(1) dialer_invD(2) [OF assms(1)] by (auto intro!: dialer_inv_wait)
  qed
next
  case (DialReturns returned)
  then obtain a where a: "dl_attempt d = Some a"
      "d' = d\<lparr>dl_reader := (case dial_result returned of Inr r \<Rightarrow> Some r | Inl e \<Rightarrow> dl_reader d),
         dl_attempt := None, dl_outcomes := (dl_outcomes d)[a := Ended (dial_result returned)]\<rparr>"
    using assms(2) by (auto split: option.splits)
  have none: "dl_reader d = None" "a < length (dl_outcomes d)" using dialer_invD(2,3) [OF assms(1) a(1)] by auto
  have old: "outcome_of x = None" if "x \<in> set (dl_outcomes d)" for x
    using dialer_invD(4) [OF assms(1) that] none(1) by (cases "outcome_of x") auto
  have waits: "dl_waits d i \<noteq> Got r" for i r using dialer_invD(5) [OF assms(1)] none(1) by auto
  have fresh: "outcome_of (Ended (dial_result returned)) = Some r \<longleftrightarrow> dial_result returned = Inr r" for r
    by (simp add: outcome_of_def split: sum.split)
  have outcomes: "dial_result returned = Inr r" if x: "x \<in> set ((dl_outcomes d)[a := Ended (dial_result returned)])" "outcome_of x = Some r" for x r
  proof -
    have "x \<in> insert (Ended (dial_result returned)) (set (dl_outcomes d))" using x(1) set_update_subset_insert by fast
    then show ?thesis using old [of x] x(2) fresh [of r] by auto
  qed
  have kept: "(case dial_result returned of Inr r \<Rightarrow> Some r | Inl e \<Rightarrow> dl_reader d) = Some r"
    if "x \<in> set ((dl_outcomes d)[a := Ended (dial_result returned)])" "outcome_of x = Some r" for x r
    using outcomes [OF that] by simp
  show ?thesis
    unfolding dialer_inv_def a(2) using dialer_invD(1) [OF assms(1)] dialer_invD(6) [OF assms(1)] none a(1) waits kept
    by (auto simp: nth_list_update)
next
  case (CloseDone a)
  then obtain result where a: "a < length (dl_outcomes d)" "dl_outcomes d ! a = Ended result"
      "d' = d\<lparr>dl_outcomes := (dl_outcomes d)[a := Closed result]\<rparr>"
    using assms(2) by (auto split: if_splits dial_outcome.splits)
  have mem: "Ended result \<in> set (dl_outcomes d)" using a(1,2) by (metis nth_mem)
  have other: "dl_attempt d \<noteq> Some a" using dialer_invD(1) [OF assms(1) a(1)] a(2) by simp
  have same: "outcome_of (Closed result) = outcome_of (Ended result)" by (simp add: outcome_of_def)
  have "dl_reader d = Some r" if x: "x \<in> set ((dl_outcomes d)[a := Closed result])" "outcome_of x = Some r" for x r
  proof -
    have "x \<in> insert (Closed result) (set (dl_outcomes d))" using x(1) set_update_subset_insert by fast
    then show ?thesis using x(2) same dialer_invD(4) [OF assms(1)] mem by (metis insertE)
  qed
  then show ?thesis
    unfolding dialer_inv_def a(3) using assms(1) a(1,2) other dialer_invD [OF assms(1)]
    by (auto simp: nth_list_update split: if_splits)
next
  case (Wakes i)
  then obtain a where a: "dl_waits d i = WaitsFor a" using assms(2) by (auto split: dial_wait.splits)
  have mem: "dl_outcomes d ! a \<in> set (dl_outcomes d)" using dialer_invD(6) [OF assms(1) a] by simp
  show ?thesis
  proof (cases "dl_outcomes d ! a")
    case (Closed result)
    then have "d' = set_wait i (case result of Inl e \<Rightarrow> GotError e | Inr r \<Rightarrow> Got r) d"
      using assms(2) Wakes a by (cases result) auto
    moreover have "dl_reader d = Some r" if "result = Inr r" for r
      using dialer_invD(4) [OF assms(1) mem, of r] Closed that by (simp add: outcome_of_def)
    ultimately show ?thesis using assms(1) by (cases result) (auto intro!: dialer_inv_wait)
  qed (use assms(2) Wakes a in auto)
next
  case (ContextDone i)
  then have "d' = set_wait i GaveUpWaiting d" using assms(2) by (auto split: dial_wait.splits)
  then show ?thesis using assms(1) by (auto intro!: dialer_inv_wait)
qed

interpretation dialing: machine dial_act new_dialer dialer_inv
proof unfold_locales
  show "dialer_inv (new_dialer :: 'a dialer)" by (simp add: dialer_inv_def new_dialer_def)
qed (rule dialer_step)

text \<open>C30: of the shared dialer, in every reachable state: at most one dial is in flight, and none once there
  is a reader; every read that got a reader got the same one, the one kept; a failed dial leaves none.\<close>

theorem dial_shared:
  assumes "(steps dial_act)\<^sup>*\<^sup>* new_dialer d"
  shows "length (filter (\<lambda>x. x = Dialing) (dl_outcomes d)) \<le> 1
    \<and> (dl_reader d \<noteq> None \<longrightarrow> Dialing \<notin> set (dl_outcomes d))
    \<and> (\<forall>i r. dl_waits d i = Got r \<longrightarrow> dl_reader d = Some r)
    \<and> (\<forall>x \<in> set (dl_outcomes d). \<forall>r. outcome_of x = Some r \<longrightarrow> dl_reader d = Some r)"
proof -
  have inv: "dialer_inv d" using assms by (rule dialing.inv_reachable)
  have only: "dl_outcomes d ! a = Dialing \<Longrightarrow> a < length (dl_outcomes d) \<Longrightarrow> dl_attempt d = Some a" for a
    using dialer_invD(1) [OF inv] by blast
  have "card {a. a < length (dl_outcomes d) \<and> dl_outcomes d ! a = Dialing} \<le> card (set_option (dl_attempt d))"
    using only by (intro card_mono) auto
  also have "\<dots> \<le> 1" by (cases "dl_attempt d") auto
  finally have "length (filter (\<lambda>x. x = Dialing) (dl_outcomes d)) \<le> 1" by (simp add: length_filter_conv_card)
  moreover have "Dialing \<notin> set (dl_outcomes d)" if "dl_reader d \<noteq> None"
    using only dialer_invD(3) [OF inv] that by (auto simp: in_set_conv_nth)
  ultimately show ?thesis using dialer_invD(4,5) [OF inv] by blast
qed

theorem dial_shared_witness:
  "\<exists>d. run_events dial_act [GetReader 0, GetReader 1, DialReturns (Inl (PlainError ''down'')), CloseDone 0, Wakes 0, GetReader 2,
      DialReturns (Inr (Some True)), CloseDone 1, Wakes 2, GetReader 3] new_dialer = Some d
    \<and> dl_waits d 0 = GotError (PlainError ''down'') \<and> dl_waits d 2 = Got True \<and> dl_waits d 3 = Got True
    \<and> length (filter (\<lambda>x. x = Dialing) (dl_outcomes d)) \<le> 1"
proof -
  let ?es = "[GetReader 0, GetReader 1, DialReturns (Inl (PlainError ''down'')), CloseDone 0, Wakes 0, GetReader 2,
      DialReturns (Inr (Some True)), CloseDone 1, Wakes 2, GetReader 3]"
  obtain d where d: "run_events dial_act ?es new_dialer = Some d" "dl_waits d 0 = GotError (PlainError ''down'')"
      "dl_waits d 2 = Got True" "dl_waits d 3 = Got True"
    by (simp add: new_dialer_def dial_result_def set_wait_def)
  have "(steps dial_act)\<^sup>*\<^sup>* new_dialer d" using d(1) by (rule run_events_steps)
  from dial_shared [OF this] d show ?thesis by blast
qed

section \<open>Wallet positions\<close>

definition suiWalletGroupPrefix :: string where
  "suiWalletGroupPrefix = ''wallet:coin:''"

definition suiOmittedCoinsNamed :: nat where "suiOmittedCoinsNamed = 5"
definition suiWalletMaxValuedCoins :: nat where "suiWalletMaxValuedCoins = 500"
definition suiWalletMetadataCacheSize :: nat where "suiWalletMetadataCacheSize = 20000"

definition wallet_coin_group :: "metadata \<Rightarrow> sui_coin_metadata \<Rightarrow> sui_coin_balance \<Rightarrow> sui_group" where
  "wallet_coin_group groupMetadata coin balance = \<lparr>sg_id = suiWalletGroupPrefix @ bal_coin balance, sg_market = [], sg_label = coin_symbol coin,
     sg_components = [\<lparr>sc_kind = ''asset'', sc_coin = coin, sc_amount = show_int (bal_amount balance), sc_denominator = [],
       sc_price = None, sc_value = None, sc_metadata = []\<rparr>], sg_value = None, sg_metadata = groupMetadata\<rparr>"

definition suiWalletPositions :: "sui_checkpoint \<Rightarrow> sui_coin_balance list \<Rightarrow> (string \<rightharpoonup> sui_coin_metadata) \<Rightarrow> metadata \<Rightarrow> sui_positions" where
  "suiWalletPositions checkpoint balances coins groupMetadata = \<lparr>sp_protocol = ''wallet'', sp_name = ''Wallet'', sp_checkpoint = checkpoint,
     sp_head_before = 0,
     sp_groups = concat (map (\<lambda>b. case coins (bal_coin b) of None \<Rightarrow> [] | Some coin \<Rightarrow> [wallet_coin_group groupMetadata coin b]) balances),
     sp_errors = []\<rparr>"

text \<open>The coins left out: how many, and the first few named.\<close>

definition suiOmittedCoins :: "string list \<Rightarrow> sui_issue" where
  "suiOmittedCoins coins = (let sorted_coins = sort (remdups coins) in
     OmittedCoins (length sorted_coins) (take suiOmittedCoinsNamed sorted_coins))"

section \<open>Remembered coin metadata\<close>

type_synonym metadata_cache = "(string \<times> sui_coin_metadata) list"

text \<open>
  \<open>coinMetadata\<close>: what the cache lacks is read from the node, which is dialled for it when no reader is at
  hand; the whole cache is dropped when what was read would not fit. The read gives the coins' usable
  metadata and the coins without.
\<close>

definition remember :: "metadata_cache \<Rightarrow> metadata_cache \<Rightarrow> metadata_cache" where
  "remember cache fetched =
     foldl (\<lambda>c (coin, entry). AList.update coin entry c)
       (if length cache + length fetched > suiWalletMetadataCacheSize then [] else cache) fetched"

definition coinMetadata :: "(string list \<Rightarrow> go_error + metadata_cache \<times> string list) \<Rightarrow> metadata_cache \<Rightarrow> string list
    \<Rightarrow> metadata_cache \<times> (go_error + (string \<rightharpoonup> sui_coin_metadata) \<times> string list)" where
  "coinMetadata fetch cache coins =
     (let known = (\<lambda>coin. if coin \<in> set coins then map_of cache coin else None);
          missing = filter (\<lambda>coin. map_of cache coin = None) coins in
      if missing = [] then (cache, Inr (known, []))
      else case fetch missing of Inl e \<Rightarrow> (cache, Inl e)
        | Inr (fetched, unusable) \<Rightarrow> (remember cache fetched, Inr (known ++ map_of (rev fetched), unusable)))"

lemma update_fold_length: "length (foldl (\<lambda>c (coin, entry). AList.update coin entry c) cache fetched) \<le> length cache + length fetched"
proof (induction fetched arbitrary: cache)
  case (Cons f fetched)
  have "length (AList.update k v c) \<le> Suc (length c)" for k :: 'a and v :: 'b and c
    by (induction c) auto
  then show ?case using Cons [of "AList.update (fst f) (snd f) cache"] by (auto simp: case_prod_beta intro: order_trans)
qed simp

lemma update_fold_lookup: "map_of (foldl (\<lambda>c (coin, entry). AList.update coin entry c) cache fetched) = map_of cache ++ map_of (rev fetched)"
proof (induction fetched arbitrary: cache)
  case (Cons f fetched)
  show ?case using Cons [of "AList.update (fst f) (snd f) cache"] by (auto simp: case_prod_beta update_conv' map_add_def fun_eq_iff split: option.splits)
qed simp

text \<open>The remembered metadata stays within its bound, or within what one read returned; what a call
  answers for a coin is what the cache held of it before or what the node returned, and the node is asked
  only for what the cache lacks.\<close>

lemma coinMetadata_cache:
  "(length cache \<le> suiWalletMetadataCacheSize \<longrightarrow>
     length (fst (coinMetadata fetch cache coins)) \<le> suiWalletMetadataCacheSize
     \<or> (\<exists>fetched unusable. fetch (filter (\<lambda>coin. map_of cache coin = None) coins) = Inr (fetched, unusable)
          \<and> length (fst (coinMetadata fetch cache coins)) \<le> length fetched))
   \<and> (case snd (coinMetadata fetch cache coins) of
       Inl e \<Rightarrow> fetch (filter (\<lambda>coin. map_of cache coin = None) coins) = Inl e \<and> fst (coinMetadata fetch cache coins) = cache
     | Inr (answered, unusable) \<Rightarrow> \<forall>coin \<in> set coins. map_of cache coin \<noteq> None \<longrightarrow> (answered coin = map_of cache coin
          \<or> (\<exists>fetched. fetch (filter (\<lambda>coin. map_of cache coin = None) coins) = Inr (fetched, unusable) \<and> answered coin = map_of (rev fetched) coin)))"
proof (cases "filter (\<lambda>coin. map_of cache coin = None) coins = []")
  case False
  show ?thesis
  proof (cases "fetch (filter (\<lambda>coin. map_of cache coin = None) coins)")
    case (Inr answer)
    obtain fetched unusable where answer: "answer = (fetched, unusable)" by (cases answer)
    have run: "coinMetadata fetch cache coins = (remember cache fetched,
        Inr ((\<lambda>coin. if coin \<in> set coins then map_of cache coin else None) ++ map_of (rev fetched), unusable))"
      using False Inr by (simp add: coinMetadata_def answer Let_def)
    have "length (remember cache fetched) \<le> suiWalletMetadataCacheSize \<or> length (remember cache fetched) \<le> length fetched"
      using update_fold_length [of cache fetched] update_fold_length [of "[]" fetched] by (auto simp: remember_def)
    then show ?thesis unfolding run using Inr by (auto simp: answer map_add_def split: option.splits)
  qed (simp add: coinMetadata_def False Let_def)
qed (auto simp: coinMetadata_def)

section \<open>The wallet of a sampled scan\<close>

record suiWalletRead =
  wr_pin :: sui_checkpoint
  wr_balances :: "sui_coin_balance list"
  wr_metadata :: "string \<rightharpoonup> sui_coin_metadata"
  wr_notes :: "sui_issue list"
  wr_error :: "sui_issue option"
  wr_retry :: "sui_issue option"

text \<open>
  What reading the wallet meets: the balance history, whose failure may be an answer (the account is not
  covered); the node's metadata; and which errors are the read's own deadline passing before the scan's.
\<close>

record sui_wallet_world =
  ww_balances :: "u64 list \<Rightarrow> (bool \<times> go_error) + (u64 \<times> sui_coin_balance list) list"
  ww_fetch :: "string list \<Rightarrow> go_error + metadata_cache \<times> string list"
  ww_timed_out :: "go_error \<Rightarrow> bool"

definition blank_wallet_read :: suiWalletRead where
  "blank_wallet_read = \<lparr>wr_pin = no_checkpoint, wr_balances = [], wr_metadata = Map.empty, wr_notes = [], wr_error = None, wr_retry = None\<rparr>"

definition wallet_failure :: "bool \<Rightarrow> bool \<Rightarrow> sui_issue \<Rightarrow> sui_issue \<times> sui_issue option" where
  "wallet_failure timed_out answered issue =
     (if timed_out then (ReadUnread issue, Some (ReadUnread issue)) else (issue, if answered then None else Some issue))"

definition wallet_read_at :: "sui_checkpoint \<Rightarrow> sui_coin_balance list \<Rightarrow> string list \<Rightarrow> (string \<rightharpoonup> sui_coin_metadata) \<Rightarrow> suiWalletRead" where
  "wallet_read_at pin held admitted coins =
     (let valued = filter (\<lambda>b. bal_coin b \<in> set admitted) held;
          skipped = length (filter (\<lambda>b. bal_coin b \<notin> set admitted) held);
          omitted = map bal_coin (filter (\<lambda>b. coins (bal_coin b) = None) valued) in
      blank_wallet_read\<lparr>wr_pin := pin, wr_balances := filter (\<lambda>b. coins (bal_coin b) \<noteq> None) valued, wr_metadata := coins,
        wr_notes := (if skipped > 0 then [UnresolvedCoins skipped] else []) @ (if omitted \<noteq> [] then [suiOmittedCoins omitted] else [])\<rparr>)"

definition balances_at :: "(u64 \<times> sui_coin_balance list) list \<Rightarrow> u64 \<Rightarrow> sui_coin_balance list" where
  "balances_at held sequence = (case map_of held sequence of None \<Rightarrow> [] | Some balances \<Rightarrow> balances)"

definition readWalletHistory :: "sui_sources \<Rightarrow> sui_wallet_world \<Rightarrow> metadata_cache \<Rightarrow> (sui_issue + sui_checkpoint) list
    \<Rightarrow> metadata_cache \<times> suiWalletRead list" where
  "readWalletHistory e w cache pins =
     (let base = map (\<lambda>p. case p of Inl issue \<Rightarrow> blank_wallet_read\<lparr>wr_error := Some issue\<rparr> | Inr pin \<Rightarrow> blank_wallet_read\<lparr>wr_pin := pin\<rparr>) pins;
          sequences = remdups_adj (sort (concat (map (\<lambda>p. case p of Inl issue \<Rightarrow> [] | Inr pin \<Rightarrow> [cp_sequence pin]) pins)));
          fail = (\<lambda>(issue, retry). map (\<lambda>(p, r). case p of Inl unpinned \<Rightarrow> r
            | Inr pin \<Rightarrow> r\<lparr>wr_error := Some issue, wr_retry := retry\<rparr>) (zip pins base)) in
      if sequences = [] then (cache, base)
      else case ww_balances w sequences of
        Inl (answered, err) \<Rightarrow> (cache, fail (wallet_failure (ww_timed_out w err) answered (WalletBalancesFailed err)))
      | Inr held \<Rightarrow>
          (let coins = mergeSortedStrings [] (concat (map (\<lambda>(s, balances). map bal_coin balances) held));
               admitted = (if price_source e = None then coins else admit_coins e coins) in
           if length admitted > suiWalletMaxValuedCoins
           then (cache, fail (wallet_failure False True (WalletTooManyCoins (length admitted))))
           else case coinMetadata (ww_fetch w) cache admitted of
               (cache', Inl err) \<Rightarrow> (cache', fail (wallet_failure (ww_timed_out w err) False (WalletMetadataFailed err)))
             | (cache', Inr (metadata, unusable)) \<Rightarrow> (cache', map (\<lambda>(p, r). case p of Inl unpinned \<Rightarrow> r
                 | Inr pin \<Rightarrow> wallet_read_at pin (balances_at held (cp_sequence pin)) admitted metadata) (zip pins base))))"

definition wallet_quotes :: "suiWalletRead list \<Rightarrow> (instant \<times> string list) list" where
  "wallet_quotes reads = map (\<lambda>r. (cp_timestamp (wr_pin r), mergeSortedStrings [] (map bal_coin (wr_balances r))))
     (filter (\<lambda>r. wr_error r = None \<and> wr_balances r \<noteq> []) reads)"

text \<open>Every pinned instant's read is at its own pin, and an unpinned one says why it was not.\<close>

lemma readWalletHistory_length: "length (snd (readWalletHistory e w cache pins)) = length pins"
  by (simp add: readWalletHistory_def Let_def wallet_failure_def split: sum.split prod.split)

lemma readWalletHistory_pinned:
  assumes "i < length pins" "wr_error (snd (readWalletHistory e w cache pins) ! i) = None"
  shows "\<exists>pin. pins ! i = Inr pin \<and> wr_pin (snd (readWalletHistory e w cache pins) ! i) = pin"
proof (cases "pins ! i")
  case (Inl issue)
  then have "wr_error (snd (readWalletHistory e w cache pins) ! i) = Some issue"
    using assms(1) by (simp add: readWalletHistory_def Let_def wallet_failure_def blank_wallet_read_def split: sum.split prod.split)
  then show ?thesis using assms(2) by simp
next
  case (Inr pin)
  then have "wr_error (snd (readWalletHistory e w cache pins) ! i) \<noteq> None \<or> wr_pin (snd (readWalletHistory e w cache pins) ! i) = pin"
    using assms(1) by (simp add: readWalletHistory_def Let_def wallet_failure_def blank_wallet_read_def wallet_read_at_def split: sum.split prod.split)
  then show ?thesis using Inr assms(2) by simp
qed

end
