(* ===== verification/SuiEngine.thy ===== *)
theory SuiEngine
  imports SuiWallet
begin

text \<open>
  The Sui engine's scans: the latest scan of \<open>sui_engine.go\<close>, and the sampled scan of
  \<open>sui_engine_history.go\<close>, which answers one checkpoint, one instant or a range of instants from
  processor indexes and wallet history. Reads that run at once are independent, so what each returned
  is the environment's: the statements of an index, the balances, the node. Observations of phases
  change nothing and are left out. A valuation that panics ends the scan it is part of: nothing
  recovers it.
\<close>

section \<open>Responses\<close>

record sui_scan_error =
  se_scope :: string
  se_protocol :: string
  se_name :: string
  se_issue :: sui_issue

record suiProtocolResult =
  pr_snapshot :: "sui_snapshot option"
  pr_summary :: "protocol_summary option"
  pr_checkpoint :: sui_checkpoint
  pr_prices :: "string \<rightharpoonup> f64"
  pr_errors :: "sui_scan_error list"

definition blank_result :: suiProtocolResult where
  "blank_result = \<lparr>pr_snapshot = None, pr_summary = None, pr_checkpoint = no_checkpoint, pr_prices = Map.empty, pr_errors = []\<rparr>"

definition fail_result :: "suiRoute \<Rightarrow> string \<Rightarrow> sui_issue \<Rightarrow> suiProtocolResult \<Rightarrow> suiProtocolResult" where
  "fail_result r scope issue result =
     result\<lparr>pr_errors := pr_errors result @ [\<lparr>se_scope = scope, se_protocol = rt_id r, se_name = rt_name r, se_issue = issue\<rparr>]\<rparr>"

definition fail_all :: "suiRoute \<Rightarrow> string \<Rightarrow> sui_issue list \<Rightarrow> suiProtocolResult \<Rightarrow> suiProtocolResult" where
  "fail_all r scope issues result = foldl (\<lambda>res issue. fail_result r scope issue res) result issues"

record suiResponse =
  su_address :: sui_address
  su_supported :: "suiProtocolInfo list"
  su_snapshots :: "sui_snapshot list"
  su_summaries :: "protocol_summary list"
  su_errors :: "sui_scan_error list"
  su_checkpoint :: sui_checkpoint
  su_prices :: "string \<rightharpoonup> f64"
  su_completed :: instant

definition suiPriceKey :: "string \<Rightarrow> string" where
  "suiPriceKey coin = ''sui:'' @ coin"

definition new_sui_response :: "sui_sources \<Rightarrow> sui_address \<Rightarrow> suiRoute list \<Rightarrow> suiResponse" where
  "new_sui_response e owner routes = \<lparr>su_address = owner, su_supported = map (sui_info e) routes, su_snapshots = [], su_summaries = [],
     su_errors = [], su_checkpoint = no_checkpoint, su_prices = Map.empty, su_completed = zero_time\<rparr>"

definition add_quotes :: "(string \<rightharpoonup> f64) \<Rightarrow> (string \<rightharpoonup> f64) \<Rightarrow> string \<rightharpoonup> f64" where
  "add_quotes prices quotes k = (case prices k of Some p \<Rightarrow> Some p
     | None \<Rightarrow> if take 4 k = ''sui:'' then quotes (drop 4 k) else None)"

definition add_sui_result :: "suiResponse \<Rightarrow> suiProtocolResult \<Rightarrow> suiResponse" where
  "add_sui_result response result = response\<lparr>
     su_snapshots := su_snapshots response @ (case pr_snapshot result of None \<Rightarrow> [] | Some s \<Rightarrow> [s]),
     su_summaries := su_summaries response @ (case pr_summary result of None \<Rightarrow> [] | Some s \<Rightarrow> [s]),
     su_errors := su_errors response @ pr_errors result,
     su_checkpoint := (if cp_sequence (pr_checkpoint result) > cp_sequence (su_checkpoint response) then pr_checkpoint result
       else su_checkpoint response),
     su_prices := add_quotes (su_prices response) (pr_prices result)\<rparr>"

definition respond :: "sui_sources \<Rightarrow> sui_address \<Rightarrow> suiRoute list \<Rightarrow> instant \<Rightarrow> suiProtocolResult list \<Rightarrow> suiResponse" where
  "respond e owner routes now results = (foldl add_sui_result (new_sui_response e owner routes) results)\<lparr>su_completed := now\<rparr>"

section \<open>Samples\<close>

definition checkSuiSample :: "suiRoute \<Rightarrow> sui_positions \<Rightarrow> u64 option \<Rightarrow> instant option \<Rightarrow> bool" where
  "checkSuiSample r positions checkpoint t \<longleftrightarrow> (let sample = sp_checkpoint positions in
     sp_protocol positions = rt_id r \<and> cp_sequence sample \<noteq> 0 \<and> cp_timestamp sample \<noteq> zero_time \<and> cp_digest sample \<noteq> no_digest
     \<and> (case checkpoint of None \<Rightarrow> True | Some c \<Rightarrow> cp_sequence sample \<le> c)
     \<and> (case t of None \<Rightarrow> True | Some t \<Rightarrow> cp_timestamp sample \<le> t))"

definition empty_snapshot :: "suiRoute \<Rightarrow> sui_address \<Rightarrow> sui_checkpoint \<Rightarrow> sui_snapshot" where
  "empty_snapshot r owner checkpoint = \<lparr>ss_protocol = rt_id r, ss_name = rt_name r, ss_account = owner, ss_checkpoint = checkpoint,
     ss_groups = [], ss_value = None\<rparr>"

definition suiIndexedLatestMaxAge :: int where
  "suiIndexedLatestMaxAge = (2 * 3600 + 60) * 10 ^ 9"

definition checkIndexedLatest :: "instant \<Rightarrow> suiRoute \<Rightarrow> sui_positions \<Rightarrow> sui_issue option" where
  "checkIndexedLatest now r positions =
     (if \<not> checkSuiSample r positions None None then Some InvalidIndexedState
      else let sample = cp_timestamp (sp_checkpoint positions) in
        if sample > now \<or> now - sample > suiIndexedLatestMaxAge then Some IndexedLatestStale else None)"

section \<open>The latest scan\<close>

text \<open>What one latest scan meets: the indexes, the dial of the node, the node's answers, and the clock.\<close>

record sui_latest_world =
  lw_index :: "string \<Rightarrow> sui_sql_error + sui_positions"
  lw_dial :: "string \<Rightarrow> go_error option"
  lw_holdings :: "go_error + (sui_checkpoint \<times> u64 \<times> sui_coin_balance list)"
  lw_fetch :: "string list \<Rightarrow> go_error + metadata_cache \<times> string list"
  lw_node :: "string \<Rightarrow> go_error + sui_positions"
  lw_now :: instant

definition readWalletLatest :: "sui_latest_world \<Rightarrow> metadata_cache \<Rightarrow> metadata_cache \<times> (sui_issue + sui_positions \<times> sui_issue list)" where
  "readWalletLatest w cache = (case lw_holdings w of Inl e \<Rightarrow> (cache, Inl (HoldingsFailed e))
     | Inr (checkpoint, before, balances) \<Rightarrow> (case coinMetadata (lw_fetch w) cache (map bal_coin balances) of
           (cache', Inl e) \<Rightarrow> (cache', Inl (LatestMetadataFailed e))
         | (cache', Inr (metadata, unusable)) \<Rightarrow> (cache', Inr (
             (suiWalletPositions checkpoint balances metadata [(''holding'', MetaString ''coin''), (''headBeforeRead'', MetaInt (uint before))])
               \<lparr>sp_head_before := before\<rparr>,
             if unusable \<noteq> [] then [suiOmittedCoins unusable] else []))))"

text \<open>What a route's latest read returned: why it was not read, or its positions, the errors beside them and
  when they are valued (the zero time for the head).\<close>

record suiLatestRead =
  lr_positions :: sui_positions
  lr_issues :: "sui_issue list"
  lr_valued_at :: instant

definition readLatest :: "sui_sources \<Rightarrow> sui_latest_world \<Rightarrow> metadata_cache \<Rightarrow> suiRoute \<Rightarrow> metadata_cache \<times> (sui_issue + suiLatestRead)" where
  "readLatest e w cache r = (case configuredSui e r (rt_latest r) of Some issue \<Rightarrow> (cache, Inl issue)
     | None \<Rightarrow>
         if rt_latest r = FromIndex then (cache, case lw_index w (rt_id r) of Inl err \<Rightarrow> Inl (IndexFailed err)
           | Inr positions \<Rightarrow> (case checkIndexedLatest (lw_now w) r positions of Some issue \<Rightarrow> Inl issue
               | None \<Rightarrow> Inr \<lparr>lr_positions = positions, lr_issues = map PositionFailed (sp_errors positions),
                   lr_valued_at = cp_timestamp (sp_checkpoint positions)\<rparr>))
         else (case lw_dial w (rt_id r) of Some err \<Rightarrow> (cache, Inl (NodeUnavailable err))
           | None \<Rightarrow>
               if rt_id r = ''wallet'' then (case readWalletLatest w cache of (cache', Inl issue) \<Rightarrow> (cache', Inl issue)
                 | (cache', Inr (positions, issues)) \<Rightarrow> (cache', Inr \<lparr>lr_positions = positions, lr_issues = issues, lr_valued_at = zero_time\<rparr>))
               else (cache, case lw_node w (rt_id r) of Inl err \<Rightarrow> Inl (NodeFailed err)
                 | Inr positions \<Rightarrow> if sp_protocol positions \<noteq> rt_id r then Inl InvalidIdentity
                     else Inr \<lparr>lr_positions = positions, lr_issues = map PositionFailed (sp_errors positions), lr_valued_at = zero_time\<rparr>)))"

definition valueRead :: "sui_address \<Rightarrow> suiRoute \<Rightarrow> suiLatestRead \<Rightarrow> suiQuotes \<Rightarrow> go_panic + suiProtocolResult" where
  "valueRead owner r rd quotes =
     (let positions = lr_positions rd; coins = suiPositionCoins positions;
          (prices, failures) = quotes_at quotes (lr_valued_at rd) coins;
          failures = failures @ (if rt_id r \<noteq> ''wallet'' then quote_gaps quotes (lr_valued_at rd) coins prices else []);
          result = fail_all r ''pricing'' (map PriceNote failures) (fail_all r ''protocol'' (lr_issues rd)
            (blank_result\<lparr>pr_checkpoint := sp_checkpoint positions\<rparr>)) in
      case suiValuedSnapshot owner positions prices of
        Inl (Panics panic) \<Rightarrow> Inl panic
      | Inl (Returns err) \<Rightarrow> Inr (fail_result r ''protocol'' (ValueFailed err) result)
      | Inr valued \<Rightarrow> Inr (result\<lparr>pr_snapshot := (case valued of Some (s, m) \<Rightarrow> Some s
            | None \<Rightarrow> if rt_latest r = FromIndex then Some (empty_snapshot r owner (sp_checkpoint positions)) else None),
          pr_summary := map_option snd valued, pr_prices := prices\<rparr>))"

fun read_routes :: "sui_sources \<Rightarrow> sui_latest_world \<Rightarrow> metadata_cache \<Rightarrow> suiRoute list \<Rightarrow> metadata_cache \<times> (suiRoute \<times> (sui_issue + suiLatestRead)) list" where
  "read_routes e w cache [] = (cache, [])"
| "read_routes e w cache (r # rs) = (case readLatest e w cache r of (cache', rd) \<Rightarrow>
     (case read_routes e w cache' rs of (cache'', rds) \<Rightarrow> (cache'', (r, rd) # rds)))"

definition latest_wanted :: "(suiRoute \<times> (sui_issue + suiLatestRead)) list \<Rightarrow> (instant \<times> string list) list" where
  "latest_wanted reads = concat (map (\<lambda>(r, rd). case rd of Inl issue \<Rightarrow> []
     | Inr rd \<Rightarrow> [(lr_valued_at rd, suiPositionCoins (lr_positions rd))]) reads)"

definition latest_result :: "sui_address \<Rightarrow> suiQuotes \<Rightarrow> suiRoute \<times> (sui_issue + suiLatestRead) \<Rightarrow> go_panic + suiProtocolResult" where
  "latest_result owner quotes rr = (case rr of (r, Inl issue) \<Rightarrow> Inr (fail_result r ''protocol'' issue blank_result)
     | (r, Inr rd) \<Rightarrow> valueRead owner r rd quotes)"

definition scanLatest :: "sui_sources \<Rightarrow> sui_latest_world \<Rightarrow> metadata_cache \<Rightarrow> sui_address \<Rightarrow> suiRoute list
    \<Rightarrow> metadata_cache \<times> (go_panic + suiResponse)" where
  "scanLatest e w cache owner routes = (case read_routes e w cache routes of (cache', reads) \<Rightarrow>
     (let quotes = quote (price_source e) (latest_wanted reads) in
      (cache', bindR (mapR (latest_result owner quotes) reads) (\<lambda>results. Inr (respond e owner routes (lw_now w) results)))))"

section \<open>The sampled scan\<close>

text \<open>A plan's instants, and the checkpoint of a scan pinned to one (then there is one instant, of no meaning).\<close>

record suiSamplePlan =
  plan_instants :: "instant list"
  plan_checkpoint :: "u64 option"

text \<open>
  What a sampled scan meets. Each index is read once over the instants' span (or at the checkpoint), and
  perhaps once more to align; \<open>sw_timed_out\<close> is which failures are the reads' own deadline passing before
  the scan's.
\<close>

record sui_sample_world =
  sw_range :: "string \<Rightarrow> instant \<Rightarrow> instant \<Rightarrow> suiHistorySample list \<times> sui_sql_error option"
  sw_range_again :: "string \<Rightarrow> instant \<Rightarrow> instant \<Rightarrow> suiHistorySample list \<times> sui_sql_error option"
  sw_checkpoint :: "string \<Rightarrow> u64 \<Rightarrow> sui_sql_error + sui_positions"
  sw_checkpoint_again :: "string \<Rightarrow> u64 \<Rightarrow> sui_sql_error + sui_positions"
  sw_timed_out :: "string \<Rightarrow> sui_sql_error \<Rightarrow> bool"
  sw_wallet :: sui_wallet_world
  sw_rfc3339 :: "instant \<Rightarrow> string"
  sw_now :: instant

definition read_issue :: "sui_sample_world \<Rightarrow> string \<Rightarrow> sui_sql_error \<Rightarrow> sui_issue" where
  "read_issue w i e = (if sw_timed_out w i e then ReadUnread (IndexFailed e) else IndexFailed e)"

datatype sui_retry = RetryIndex string sui_issue | RetryPrices string instant string | RetryWallet sui_issue

text \<open>One protocol's answer at one instant.\<close>

type_synonym sui_answer = "sui_issue + sui_positions"

text \<open>The routes read from an index, and the wallet's when it is among them.\<close>

definition indexed_routes :: "sui_sources \<Rightarrow> suiRoute list \<Rightarrow> suiRoute list" where
  "indexed_routes e routes = filter (\<lambda>r. rt_pinned r = FromIndex \<and> has_index e (rt_id r)) routes"

definition wallet_route :: "suiRoute list \<Rightarrow> suiRoute option" where
  "wallet_route routes = find (\<lambda>r. rt_pinned r = FromWalletHistory) (rev routes)"

definition plan_span :: "instant list \<Rightarrow> instant \<times> instant" where
  "plan_span instants = (foldl min (hd instants) (tl instants), foldl max (hd instants) (tl instants))"

definition covers :: "suiHistorySample \<Rightarrow> instant \<Rightarrow> bool" where
  "covers s t \<longleftrightarrow> hs_start s \<le> t \<and> t < hs_until s"

definition keep_newer :: "instant \<Rightarrow> suiHistorySample option \<Rightarrow> suiHistorySample \<Rightarrow> suiHistorySample option" where
  "keep_newer t found s = (if covers s t \<and> (case found of None \<Rightarrow> True | Some f \<Rightarrow> hs_start f < hs_start s) then Some s else found)"

definition suiSampleAt :: "suiHistorySample list \<Rightarrow> instant \<Rightarrow> suiHistorySample option" where
  "suiSampleAt samples t = foldl (keep_newer t) None samples"

text \<open>\<open>answer\<close>: the sample answering an instant, or why there is none and whether that is the index not answering.\<close>

definition range_answers :: "suiHistorySample list \<times> sui_issue option \<Rightarrow> instant \<Rightarrow> (bool \<times> sui_issue) + suiHistorySample" where
  "range_answers rg t = (case suiSampleAt (fst rg) t of Some s \<Rightarrow> Inr s
     | None \<Rightarrow> (case snd rg of None \<Rightarrow> Inl (False, NoSampleForHour)
         | Some issue \<Rightarrow> if fst rg = [] \<or> \<not> t < hs_until (last (fst rg)) then Inl (True, issue) else Inl (False, NoSampleForHour)))"

definition At_answer :: "(instant \<Rightarrow> string) \<Rightarrow> suiHistorySample \<Rightarrow> instant \<Rightarrow> sui_answer" where
  "At_answer rfc3339 s t = (case history_At rfc3339 s t of Inl (e, beside) \<Rightarrow> Inl (IndexFailed e) | Inr p \<Rightarrow> Inr p)"

definition route_range :: "sui_sample_world \<Rightarrow> suiSamplePlan \<Rightarrow> string \<Rightarrow> suiHistorySample list \<times> sui_issue option" where
  "route_range w plan i = (case plan_span (plan_instants plan) of (lo, hi) \<Rightarrow>
     (case sw_range w i lo hi of (samples, err) \<Rightarrow> (samples, map_option (read_issue w i) err)))"

definition first_answer :: "sui_sample_world \<Rightarrow> suiSamplePlan \<Rightarrow> instant \<Rightarrow> suiRoute \<Rightarrow> sui_answer \<times> sui_retry option" where
  "first_answer w plan t r = (let i = rt_id r in case plan_checkpoint plan of
       Some c \<Rightarrow> (case sw_checkpoint w i c of Inr p \<Rightarrow> (Inr p, None)
         | Inl e \<Rightarrow> (Inl (read_issue w i e), Some (RetryIndex i (read_issue w i e))))
     | None \<Rightarrow> (case range_answers (route_range w plan i) t of
           Inl (unanswered, issue) \<Rightarrow> (Inl issue, if unanswered then Some (RetryIndex i issue) else None)
         | Inr s \<Rightarrow> (At_answer (sw_rfc3339 w) s t, None)))"

section \<open>One checkpoint for an instant\<close>

text \<open>The oldest checkpoint of an instant's answers, when every protocol answered.\<close>

definition older :: "sui_checkpoint option \<Rightarrow> sui_checkpoint \<Rightarrow> sui_checkpoint option" where
  "older found c = (case found of None \<Rightarrow> Some c | Some f \<Rightarrow> if cp_sequence c < cp_sequence f then Some c else found)"

definition oldest_checkpoint :: "sui_answer list \<Rightarrow> sui_checkpoint option" where
  "oldest_checkpoint answers =
     (if list_all (\<lambda>a. case a of Inl issue \<Rightarrow> False | Inr p \<Rightarrow> cp_sequence (sp_checkpoint p) \<noteq> 0) answers
      then foldl older None (map (\<lambda>a. case a of Inr p \<Rightarrow> sp_checkpoint p) answers) else None)"

definition sequence_of :: "sui_answer \<Rightarrow> u64" where
  "sequence_of a = (case a of Inl issue \<Rightarrow> 0 | Inr p \<Rightarrow> cp_sequence (sp_checkpoint p))"

text \<open>The checkpoints a route must be answered at, per instant that is to be aligned.\<close>

definition route_targets :: "(suiRoute \<Rightarrow> sui_answer) list \<Rightarrow> suiRoute list \<Rightarrow> suiRoute \<Rightarrow> (nat \<times> sui_checkpoint) list" where
  "route_targets answers read r = concat (map (\<lambda>(i, ans). case oldest_checkpoint (map ans read) of None \<Rightarrow> []
       | Some oldest \<Rightarrow> if sequence_of (ans r) \<noteq> cp_sequence oldest then [(i, oldest)] else []) (enumerate 0 answers))"

text \<open>The window of a second range read: from the first to the last target the first read did not cover.\<close>

definition widen :: "suiHistorySample list \<Rightarrow> instant \<times> instant \<Rightarrow> nat \<times> sui_checkpoint \<Rightarrow> instant \<times> instant" where
  "widen samples window target = (let t = cp_timestamp (snd target); (lo, hi) = window in
     if suiSampleAt samples t \<noteq> None then window
     else (if lo = zero_time \<or> t < lo then t else lo, if hi < t then t else hi))"

definition extra_range :: "sui_sample_world \<Rightarrow> suiSamplePlan \<Rightarrow> string \<Rightarrow> (nat \<times> sui_checkpoint) list
    \<Rightarrow> (suiHistorySample list \<times> sui_issue option) option" where
  "extra_range w plan i targets = (if targets = [] then None
     else case plan_checkpoint plan of
       Some c \<Rightarrow> Some (case sw_checkpoint_again w i (cp_sequence (snd (hd targets))) of
           Inl e \<Rightarrow> ([], Some (read_issue w i e))
         | Inr p \<Rightarrow> ([\<lparr>hs_start = cp_timestamp (sp_checkpoint p), hs_until = cp_timestamp (sp_checkpoint p) + 1, hs_positions = p, hs_error = None\<rparr>], None))
     | None \<Rightarrow> (case foldl (widen (fst (route_range w plan i))) (zero_time, zero_time) targets of (lo, hi) \<Rightarrow>
         if lo = zero_time then None
         else Some (case sw_range_again w i lo hi of (samples, err) \<Rightarrow> (samples, map_option (read_issue w i) err))))"

definition aligned_samples :: "sui_sample_world \<Rightarrow> suiSamplePlan \<Rightarrow> string \<Rightarrow> (suiHistorySample list \<times> sui_issue option) option \<Rightarrow> suiHistorySample list" where
  "aligned_samples w plan i extra = (case extra of None \<Rightarrow> [] | Some rg \<Rightarrow> fst rg)
     @ (if plan_checkpoint plan = None then fst (route_range w plan i) else [])"

definition stamp_positions :: "(instant \<Rightarrow> string) \<Rightarrow> instant \<Rightarrow> sui_positions \<Rightarrow> sui_positions" where
  "stamp_positions rfc3339 t p = p\<lparr>sp_groups := map (stamp_request rfc3339 t) (sp_groups p)\<rparr>"

text \<open>A target's answer.\<close>

definition align_answer :: "sui_sample_world \<Rightarrow> suiSamplePlan \<Rightarrow> suiRoute \<Rightarrow> (suiHistorySample list \<times> sui_issue option) option \<Rightarrow> instant
    \<Rightarrow> sui_checkpoint \<Rightarrow> sui_answer \<times> sui_retry option" where
  "align_answer w plan r extra t target =
     (let found = suiSampleAt (aligned_samples w plan (rt_id r) extra) (cp_timestamp target);
          extra_issue = (case extra of None \<Rightarrow> None | Some rg \<Rightarrow> snd rg);
          missing = (Inl (NoSampleAtCheckpoint (rt_name r) (cp_sequence target)), None) in
      case found of
        None \<Rightarrow> (case extra_issue of Some issue \<Rightarrow> (Inl issue, Some (RetryIndex (rt_id r) issue)) | None \<Rightarrow> missing)
      | Some s \<Rightarrow>
          if hs_error s \<noteq> None then (At_answer (sw_rfc3339 w) s (cp_timestamp target), None)
          else if cp_sequence (sp_checkpoint (hs_positions s)) \<noteq> cp_sequence target then missing
          else if plan_checkpoint plan \<noteq> None then (Inr (hs_positions s), None)
          else (case At_answer (sw_rfc3339 w) s (cp_timestamp target) of Inl issue \<Rightarrow> (Inl issue, None)
            | Inr p \<Rightarrow> (Inr (stamp_positions (sw_rfc3339 w) t p), None)))"

text \<open>\<open>alignSamples\<close>: the answers of all instants, each per route, with the reasons to ask again it adds.\<close>

definition alignSamples :: "sui_sample_world \<Rightarrow> suiSamplePlan \<Rightarrow> suiRoute list \<Rightarrow> (suiRoute \<Rightarrow> sui_answer) list
    \<Rightarrow> (suiRoute \<Rightarrow> sui_answer \<times> sui_retry option) list" where
  "alignSamples w plan read answers =
     (let extras = (\<lambda>r. extra_range w plan (rt_id r) (route_targets answers read r)) in
      map (\<lambda>(i, ans) r. case map_of (route_targets answers read r) i of None \<Rightarrow> (ans r, None)
        | Some target \<Rightarrow> align_answer w plan r (extras r) (plan_instants plan ! i) target) (enumerate 0 answers))"

text \<open>The checkpoint the wallet is read at.\<close>

definition plan_at :: "suiSamplePlan \<Rightarrow> instant \<Rightarrow> instant option" where
  "plan_at plan t = (if plan_checkpoint plan = None then Some t else None)"

definition pin_step :: "suiSamplePlan \<Rightarrow> instant \<Rightarrow> (suiRoute \<Rightarrow> sui_answer) \<Rightarrow> sui_checkpoint \<Rightarrow> suiRoute \<Rightarrow> sui_issue + sui_checkpoint" where
  "pin_step plan t ans pin r = (case ans r of Inl issue \<Rightarrow> Inl (NoSampleToPin (rt_name r))
     | Inr p \<Rightarrow> if \<not> checkSuiSample r p (plan_checkpoint plan) (plan_at plan t) then Inl (NoSampleToPin (rt_name r))
         else if cp_sequence pin \<noteq> 0 \<and> cp_sequence (sp_checkpoint p) \<noteq> cp_sequence pin then Inl PinsDiffer
         else Inr (sp_checkpoint p))"

definition suiWalletPin :: "suiSamplePlan \<Rightarrow> instant \<Rightarrow> suiRoute list \<Rightarrow> (suiRoute \<Rightarrow> sui_answer) \<Rightarrow> sui_issue + sui_checkpoint" where
  "suiWalletPin plan t read ans = (if read = [] then Inl NothingIndexed else foldR (pin_step plan t ans) no_checkpoint read)"

section \<open>Results of an instant\<close>

definition sampleResult :: "suiSamplePlan \<Rightarrow> instant \<Rightarrow> sui_address \<Rightarrow> suiRoute \<Rightarrow> sui_positions \<Rightarrow> suiQuotes
    \<Rightarrow> go_panic + suiProtocolResult \<times> sui_retry option" where
  "sampleResult plan t owner r positions quotes =
     (if \<not> checkSuiSample r positions (plan_checkpoint plan) (plan_at plan t)
      then Inr (fail_result r ''protocol'' InvalidIndexedState blank_result, None)
      else let sample = sp_checkpoint positions; coins = suiPositionCoins positions;
          retry = map_option (RetryPrices (rt_id r) (cp_timestamp sample)) (unavailable_at quotes (cp_timestamp sample));
          (prices, failures) = quotes_at quotes (cp_timestamp sample) coins;
          failures = failures @ quote_gaps quotes (cp_timestamp sample) coins prices in
        case suiValuedSnapshot owner positions prices of
          Inl (Panics panic) \<Rightarrow> Inl panic
        | Inl (Returns err) \<Rightarrow> Inr (fail_result r ''protocol'' (ValueFailed err) blank_result, retry)
        | Inr valued \<Rightarrow> Inr ((fail_all r ''pricing'' (map PriceNote failures) (fail_all r ''protocol'' (map PositionFailed (sp_errors positions)) blank_result))
            \<lparr>pr_snapshot := Some (case valued of Some (s, m) \<Rightarrow> s | None \<Rightarrow> empty_snapshot r owner sample),
             pr_summary := map_option snd valued, pr_prices := prices, pr_checkpoint := sample\<rparr>, retry))"

definition price_notes :: "string list \<Rightarrow> sui_issue list" where
  "price_notes failures = map PriceNote (take suiOmittedCoinsNamed failures)
     @ (if length failures > suiOmittedCoinsNamed then [MorePriceFailures (length failures - suiOmittedCoinsNamed)] else [])"

definition walletResult :: "sui_address \<Rightarrow> suiRoute \<Rightarrow> suiWalletRead \<Rightarrow> suiQuotes \<Rightarrow> go_panic + suiProtocolResult \<times> sui_retry option" where
  "walletResult owner r rd quotes = (case wr_error rd of Some issue \<Rightarrow>
       Inr (fail_result r ''protocol'' issue blank_result, map_option RetryWallet (wr_retry rd))
     | None \<Rightarrow> (let pin = wr_pin rd; coins = map bal_coin (wr_balances rd);
          retry = map_option (RetryPrices ''wallet'' (cp_timestamp pin)) (unavailable_at quotes (cp_timestamp pin));
          (prices, failures) = quotes_at quotes (cp_timestamp pin) coins;
          positions = suiWalletPositions pin (wr_balances rd) (wr_metadata rd) [(''holding'', MetaString ''coin'')] in
        case suiValuedSnapshot owner positions prices of
          Inl (Panics panic) \<Rightarrow> Inl panic
        | Inl (Returns err) \<Rightarrow> Inr (fail_result r ''protocol'' (ValueFailed err) blank_result, retry)
        | Inr valued \<Rightarrow> Inr ((fail_all r ''pricing'' (price_notes failures) (fail_all r ''coverage'' (wr_notes rd) blank_result))
            \<lparr>pr_snapshot := Some (case valued of Some (s, m) \<Rightarrow> s | None \<Rightarrow> empty_snapshot r owner pin),
             pr_summary := map_option snd valued, pr_prices := prices, pr_checkpoint := pin\<rparr>, retry)))"

section \<open>\<open>scanSamples\<close>\<close>

fun first_some :: "'a option list \<Rightarrow> 'a option" where
  "first_some [] = None"
| "first_some (Some a # xs) = Some a"
| "first_some (None # xs) = first_some xs"

text \<open>
  What is read before anything is valued: per instant the answers of the indexed routes with the reasons to
  ask again, and the wallet's part: not asked for, unreadable, or its reads.
\<close>

datatype wallet_part = NoWallet | WalletFailed sui_issue | WalletReads "suiWalletRead list"

record sampled =
  sm_answers :: "(suiRoute \<Rightarrow> sui_answer) list"
  sm_retries :: "sui_retry option list"
  sm_wallet :: wallet_part
  sm_cache :: metadata_cache

definition read_samples :: "sui_sources \<Rightarrow> sui_sample_world \<Rightarrow> metadata_cache \<Rightarrow> suiSamplePlan \<Rightarrow> suiRoute list \<Rightarrow> sampled" where
  "read_samples e w cache plan routes =
     (let read = indexed_routes e routes;
          first = map (first_answer w plan) (plan_instants plan);
          answers = map (\<lambda>f r. fst (f r)) first;
          retries = map (\<lambda>f. first_some (map (\<lambda>r. snd (f r)) read)) first in
      case wallet_route routes of
        None \<Rightarrow> \<lparr>sm_answers = answers, sm_retries = retries, sm_wallet = NoWallet, sm_cache = cache\<rparr>
      | Some wr \<Rightarrow> (case configuredSui e wr FromWalletHistory of
            Some issue \<Rightarrow> \<lparr>sm_answers = answers, sm_retries = retries, sm_wallet = WalletFailed issue, sm_cache = cache\<rparr>
          | None \<Rightarrow>
              (let aligned = alignSamples w plan read answers;
                   answers = map (\<lambda>f r. fst (f r)) aligned;
                   retries = map (\<lambda>(retry, f). first_some (retry # map (\<lambda>r. snd (f r)) read)) (zip retries aligned);
                   pins = map (\<lambda>(t, ans). suiWalletPin plan t read ans) (zip (plan_instants plan) answers) in
               case readWalletHistory e (sw_wallet w) cache pins of (cache', reads) \<Rightarrow>
                 \<lparr>sm_answers = answers, sm_retries = retries, sm_wallet = WalletReads reads, sm_cache = cache'\<rparr>)))"

definition samples_wanted :: "suiRoute list \<Rightarrow> (suiRoute \<Rightarrow> sui_answer) list \<Rightarrow> (instant \<times> string list) list" where
  "samples_wanted read answers = concat (map (\<lambda>ans. concat (map (\<lambda>r. case ans r of Inl issue \<Rightarrow> []
     | Inr p \<Rightarrow> [(cp_timestamp (sp_checkpoint p), suiPositionCoins p)]) read)) answers)"

definition route_result :: "sui_sources \<Rightarrow> suiSamplePlan \<Rightarrow> sui_address \<Rightarrow> suiQuotes \<Rightarrow> suiQuotes \<Rightarrow> sampled \<Rightarrow> nat \<Rightarrow> suiRoute
    \<Rightarrow> go_panic + suiProtocolResult \<times> sui_retry option" where
  "route_result e plan owner quotes wallet_quoted sm i r =
     (if rt_pinned r = FromWalletHistory then (case sm_wallet sm of
          WalletFailed issue \<Rightarrow> Inr (fail_result r ''protocol'' issue blank_result, None)
        | WalletReads reads \<Rightarrow> walletResult owner r (reads ! i) wallet_quoted
        | NoWallet \<Rightarrow> Inr (blank_result, None))
      else if rt_pinned r = Unread then Inr (fail_result r ''protocol'' HistoryUnsupported blank_result, None)
      else if \<not> has_index e (rt_id r) then Inr (fail_result r ''protocol'' IndexUnconfigured blank_result, None)
      else (case (sm_answers sm ! i) r of Inl issue \<Rightarrow> Inr (fail_result r ''protocol'' issue blank_result, None)
        | Inr positions \<Rightarrow> sampleResult plan (plan_instants plan ! i) owner r positions quotes))"

record suiRangeScan =
  rs_response :: suiResponse
  rs_retry :: "sui_retry option"

definition scan_instant :: "sui_sources \<Rightarrow> sui_sample_world \<Rightarrow> suiSamplePlan \<Rightarrow> sui_address \<Rightarrow> suiRoute list \<Rightarrow> suiQuotes \<Rightarrow> suiQuotes \<Rightarrow> sampled
    \<Rightarrow> nat \<Rightarrow> go_panic + suiRangeScan" where
  "scan_instant e w plan owner routes quotes wallet_quoted sm i =
     bindR (mapR (route_result e plan owner quotes wallet_quoted sm i) routes) (\<lambda>results.
      Inr \<lparr>rs_response = respond e owner routes (sw_now w) (map fst results),
       rs_retry = first_some ((sm_retries sm ! i) # map snd results)\<rparr>)"

definition scanSamples :: "sui_sources \<Rightarrow> sui_sample_world \<Rightarrow> metadata_cache \<Rightarrow> sui_address \<Rightarrow> suiRoute list \<Rightarrow> suiSamplePlan
    \<Rightarrow> metadata_cache \<times> (go_panic + suiRangeScan list)" where
  "scanSamples e w cache owner routes plan =
     (if plan_instants plan = [] then (cache, Inr [])
      else let sm = read_samples e w cache plan routes;
          quotes = quote (price_source e) (samples_wanted (indexed_routes e routes) (sm_answers sm));
          wallet_quoted = quote (price_source e) (case sm_wallet sm of WalletReads reads \<Rightarrow> wallet_quotes reads | _ \<Rightarrow> []) in
        (sm_cache sm, mapR (scan_instant e w plan owner routes quotes wallet_quoted sm) [0..<length (plan_instants plan)]))"

text \<open>\<open>ScanRange\<close> and \<open>ScanWithOptions\<close>.\<close>

datatype suiPin = LatestPin | AtCheckpoint u64 | AtTime instant

definition SuiScanRange :: "sui_sources \<Rightarrow> sui_sample_world \<Rightarrow> metadata_cache \<Rightarrow> sui_address \<Rightarrow> instant list
    \<Rightarrow> metadata_cache \<times> (go_panic + suiRangeScan list)" where
  "SuiScanRange e w cache owner instants =
     scanSamples e w cache owner (filter (\<lambda>r. rt_pinned r \<noteq> Unread) suiRoutes) \<lparr>plan_instants = instants, plan_checkpoint = None\<rparr>"

definition SuiScanWithOptions :: "sui_sources \<Rightarrow> sui_latest_world \<Rightarrow> sui_sample_world \<Rightarrow> metadata_cache \<Rightarrow> sui_address \<Rightarrow> string list \<Rightarrow> suiPin
    \<Rightarrow> metadata_cache \<times> (go_panic + suiResponse)" where
  "SuiScanWithOptions e lw w cache owner protocolIDs pin = (let routes = selected_routes protocolIDs in case pin of
       LatestPin \<Rightarrow> scanLatest e lw cache owner routes
     | AtCheckpoint c \<Rightarrow> map_prod id (map_sum id (\<lambda>scans. rs_response (hd scans)))
         (scanSamples e w cache owner routes \<lparr>plan_instants = [zero_time], plan_checkpoint = Some c\<rparr>)
     | AtTime t \<Rightarrow> map_prod id (map_sum id (\<lambda>scans. rs_response (hd scans)))
         (scanSamples e w cache owner routes \<lparr>plan_instants = [t], plan_checkpoint = None\<rparr>))"

section \<open>The responses of a scan\<close>

lemma mapR_source: "mapR f xs = Inr ys \<Longrightarrow> y \<in> set ys \<Longrightarrow> \<exists>x \<in> set xs. f x = Inr y"
  by (induction xs arbitrary: ys) (auto simp: bindR_Inr_iff)

lemma mapR_answer: "mapR f xs = Inr ys \<Longrightarrow> x \<in> set xs \<Longrightarrow> \<exists>y \<in> set ys. f x = Inr y"
  by (induction xs arbitrary: ys) (auto simp: bindR_Inr_iff)

lemma respond_snapshots: "su_snapshots (respond e owner routes now results) = concat (map (\<lambda>res. case pr_snapshot res of None \<Rightarrow> [] | Some s \<Rightarrow> [s]) results)"
proof -
  have "su_snapshots (foldl add_sui_result response results) = su_snapshots response @ concat (map (\<lambda>res. case pr_snapshot res of None \<Rightarrow> [] | Some s \<Rightarrow> [s]) results)" for response
    by (induction results arbitrary: response) (auto simp: add_sui_result_def)
  then show ?thesis by (simp add: respond_def new_sui_response_def)
qed

lemma respond_errors: "su_errors (respond e owner routes now results) = concat (map pr_errors results)"
proof -
  have "su_errors (foldl add_sui_result response results) = su_errors response @ concat (map pr_errors results)" for response
    by (induction results arbitrary: response) (auto simp: add_sui_result_def)
  then show ?thesis by (simp add: respond_def new_sui_response_def)
qed

lemma fail_result_fields [simp]:
  "pr_snapshot (fail_result r scope issue result) = pr_snapshot result" "pr_checkpoint (fail_result r scope issue result) = pr_checkpoint result"
  "pr_errors (fail_result r scope issue result) = pr_errors result @ [\<lparr>se_scope = scope, se_protocol = rt_id r, se_name = rt_name r, se_issue = issue\<rparr>]"
  by (simp_all add: fail_result_def)

lemma fail_all_fields [simp]:
  "pr_snapshot (fail_all r scope issues result) = pr_snapshot result" "pr_checkpoint (fail_all r scope issues result) = pr_checkpoint result"
  "pr_errors (fail_all r scope issues result)
     = pr_errors result @ map (\<lambda>issue. \<lparr>se_scope = scope, se_protocol = rt_id r, se_name = rt_name r, se_issue = issue\<rparr>) issues"
proof -
  show "pr_snapshot (fail_all r scope issues result) = pr_snapshot result" "pr_checkpoint (fail_all r scope issues result) = pr_checkpoint result"
    unfolding fail_all_def by (induction issues arbitrary: result) auto
  show "pr_errors (fail_all r scope issues result)
      = pr_errors result @ map (\<lambda>issue. \<lparr>se_scope = scope, se_protocol = rt_id r, se_name = rt_name r, se_issue = issue\<rparr>) issues"
    unfolding fail_all_def by (induction issues arbitrary: result) auto
qed

lemma blank_result_fields [simp]: "pr_snapshot blank_result = None" "pr_errors blank_result = []"
  by (simp_all add: blank_result_def)

section \<open>One state per instant\<close>

lemma pin_fold:
  "foldR (pin_step plan t ans) pin read = Inr pin' \<Longrightarrow>
     (cp_sequence pin \<noteq> 0 \<longrightarrow> cp_sequence pin' = cp_sequence pin)
     \<and> (\<forall>r \<in> set read. \<exists>p. ans r = Inr p \<and> checkSuiSample r p (plan_checkpoint plan) (plan_at plan t) \<and> cp_sequence (sp_checkpoint p) = cp_sequence pin')
     \<and> (read \<noteq> [] \<longrightarrow> (\<exists>r \<in> set read. \<exists>p. ans r = Inr p \<and> pin' = sp_checkpoint p))"
proof (induction read arbitrary: pin)
  case (Cons r read)
  then obtain q where q: "pin_step plan t ans pin r = Inr q" "foldR (pin_step plan t ans) q read = Inr pin'" by (auto simp: bindR_Inr_iff)
  then obtain p where p: "ans r = Inr p" "checkSuiSample r p (plan_checkpoint plan) (plan_at plan t)" "q = sp_checkpoint p"
      "cp_sequence pin \<noteq> 0 \<longrightarrow> cp_sequence q = cp_sequence pin"
    by (auto simp: pin_step_def split: sum.splits if_splits)
  have "cp_sequence q \<noteq> 0" using p(2,3) by (auto simp: checkSuiSample_def Let_def)
  then have "cp_sequence pin' = cp_sequence q" using Cons.IH [OF q(2)] by blast
  moreover have "read = [] \<Longrightarrow> pin' = q" using q(2) by simp
  ultimately show ?case using Cons.IH [OF q(2)] p by (cases "read = []") auto
qed simp

lemma suiWalletPin_Inr:
  assumes "suiWalletPin plan t read ans = Inr pin"
  shows "\<And>r. r \<in> set read \<Longrightarrow> \<exists>p. ans r = Inr p \<and> checkSuiSample r p (plan_checkpoint plan) (plan_at plan t) \<and> cp_sequence (sp_checkpoint p) = cp_sequence pin"
    and "\<exists>r \<in> set read. \<exists>p. ans r = Inr p \<and> checkSuiSample r p (plan_checkpoint plan) (plan_at plan t) \<and> pin = sp_checkpoint p"
proof -
  have run: "foldR (pin_step plan t ans) no_checkpoint read = Inr pin" "read \<noteq> []"
    using assms by (auto simp: suiWalletPin_def split: if_splits)
  show "\<exists>p. ans r = Inr p \<and> checkSuiSample r p (plan_checkpoint plan) (plan_at plan t) \<and> cp_sequence (sp_checkpoint p) = cp_sequence pin" if "r \<in> set read" for r
    using pin_fold [OF run(1)] that by blast
  then show "\<exists>r \<in> set read. \<exists>p. ans r = Inr p \<and> checkSuiSample r p (plan_checkpoint plan) (plan_at plan t) \<and> pin = sp_checkpoint p"
    using pin_fold [OF run(1)] run(2) by fastforce
qed

lemma alignSamples_length: "length (alignSamples w plan read answers) = length answers"
  by (simp add: alignSamples_def Let_def)

lemma read_samples_lengths:
  "length (sm_answers (read_samples e w cache plan routes)) = length (plan_instants plan)"
  "length (sm_retries (read_samples e w cache plan routes)) = length (plan_instants plan)"
  by (auto simp: read_samples_def Let_def alignSamples_length split: option.split prod.split)

text \<open>A wallet that was read at an instant was read at the pin of the answers of that instant.\<close>

lemma read_samples_wallet:
  assumes "sm_wallet (read_samples e w cache plan routes) = WalletReads reads" "i < length (plan_instants plan)" "wr_error (reads ! i) = None"
  shows "suiWalletPin plan (plan_instants plan ! i) (indexed_routes e routes) (sm_answers (read_samples e w cache plan routes) ! i) = Inr (wr_pin (reads ! i))"
proof -
  obtain wr where wr: "wallet_route routes = Some wr" "configuredSui e wr FromWalletHistory = None"
    using assms(1) by (auto simp: read_samples_def Let_def split: option.splits)
  define ans where "ans = sm_answers (read_samples e w cache plan routes)"
  define pins where "pins = map (\<lambda>(t, a). suiWalletPin plan t (indexed_routes e routes) a) (zip (plan_instants plan) ans)"
  have "reads = snd (readWalletHistory e (sw_wallet w) cache pins)"
    using assms(1) wr by (auto simp: read_samples_def Let_def pins_def ans_def split: prod.splits)
  moreover have len: "length ans = length (plan_instants plan)" unfolding ans_def by (rule read_samples_lengths)
  then have "i < length pins" using assms(2) by (simp add: pins_def)
  ultimately obtain pin where "pins ! i = Inr pin" "wr_pin (reads ! i) = pin" using readWalletHistory_pinned assms(3) by blast
  moreover have "pins ! i = suiWalletPin plan (plan_instants plan ! i) (indexed_routes e routes) (ans ! i)"
    using assms(2) len by (simp add: pins_def)
  ultimately show ?thesis by (simp add: ans_def)
qed

lemma valued_snapshot_checkpoint:
  "suiValuedSnapshot owner positions prices = Inr (Some (s, m)) \<Longrightarrow> ss_checkpoint s = sp_checkpoint positions \<and> ss_protocol s = sp_protocol positions"
  by (auto simp: suiValuedSnapshot_def bindR_Inr_iff split: if_splits)

lemma sampleResult_snapshot:
  assumes "sampleResult plan t owner r positions quotes = Inr res" "pr_snapshot (fst res) = Some s"
  shows "ss_protocol s = rt_id r \<and> ss_checkpoint s = sp_checkpoint positions \<and> checkSuiSample r positions (plan_checkpoint plan) (plan_at plan t)"
proof -
  have check: "checkSuiSample r positions (plan_checkpoint plan) (plan_at plan t)"
    using assms by (auto simp: sampleResult_def split: if_splits)
  then have "sp_protocol positions = rt_id r" by (simp add: checkSuiSample_def Let_def)
  then show ?thesis
    using assms check valued_snapshot_checkpoint
    by (auto simp: sampleResult_def Let_def empty_snapshot_def split: if_splits prod.splits sum.splits option.splits value_stop.splits)
qed

lemma walletResult_snapshot:
  assumes "walletResult owner r rd quotes = Inr res" "pr_snapshot (fst res) = Some s"
  shows "wr_error rd = None \<and> ss_checkpoint s = wr_pin rd \<and> (ss_protocol s = ''wallet'' \<or> ss_protocol s = rt_id r)"
  using assms valued_snapshot_checkpoint
  by (fastforce simp: walletResult_def Let_def empty_snapshot_def suiWalletPositions_def split: prod.splits sum.splits option.splits value_stop.splits)

definition routes_ok :: "suiRoute list \<Rightarrow> bool" where
  "routes_ok routes \<longleftrightarrow> set routes \<subseteq> set suiRoutes"

lemma routes_okD:
  assumes "routes_ok routes" "r \<in> set routes"
  shows "rt_pinned r = FromIndex \<or> rt_pinned r = Unread \<or> rt_pinned r = FromWalletHistory" "rt_id r = ''wallet'' \<longleftrightarrow> rt_pinned r = FromWalletHistory"
proof -
  have "r \<in> set suiRoutes" using assms by (auto simp: routes_ok_def)
  then show "rt_pinned r = FromIndex \<or> rt_pinned r = Unread \<or> rt_pinned r = FromWalletHistory" "rt_id r = ''wallet'' \<longleftrightarrow> rt_pinned r = FromWalletHistory"
    by (auto simp: suiRoutes_def route_def)
qed

text \<open>Where a snapshot of a response comes from.\<close>

lemma scan_snapshot_source:
  assumes "routes_ok routes" "i < length (plan_instants plan)"
    and sm: "sm = read_samples e w cache plan routes"
    and scan: "scan_instant e w plan owner routes quotes wallet_quoted sm i = Inr scan"
    and "s \<in> set (su_snapshots (rs_response scan))"
  shows "(ss_protocol s \<noteq> ''wallet'' \<and> (\<exists>r \<in> set (indexed_routes e routes). \<exists>p. (sm_answers sm ! i) r = Inr p \<and> ss_checkpoint s = sp_checkpoint p
        \<and> checkSuiSample r p (plan_checkpoint plan) (plan_at plan (plan_instants plan ! i))))
    \<or> (ss_protocol s = ''wallet'' \<and> (\<exists>reads. sm_wallet sm = WalletReads reads \<and> wr_error (reads ! i) = None \<and> ss_checkpoint s = wr_pin (reads ! i)))"
proof -
  obtain results where results: "mapR (route_result e plan owner quotes wallet_quoted sm i) routes = Inr results"
      "rs_response scan = respond e owner routes (sw_now w) (map fst results)"
    using scan by (auto simp: scan_instant_def bindR_Inr_iff)
  obtain res where "res \<in> set results" and shown: "pr_snapshot (fst res) = Some s"
    using assms(5) unfolding results(2) by (auto simp: respond_snapshots split: option.splits)
  then obtain r where r: "r \<in> set routes" "route_result e plan owner quotes wallet_quoted sm i r = Inr res"
    using mapR_source [OF results(1)] by blast
  note kind = routes_okD [OF assms(1) r(1)]
  show ?thesis
  proof (cases "rt_pinned r = FromWalletHistory")
    case True
    then obtain reads where reads: "sm_wallet sm = WalletReads reads" "walletResult owner r (reads ! i) wallet_quoted = Inr res"
      using r(2) shown by (auto simp: route_result_def split: wallet_part.splits)
    then show ?thesis using walletResult_snapshot [OF reads(2) shown] True kind(2) by auto
  next
    case False
    then obtain p where p: "(sm_answers sm ! i) r = Inr p" "has_index e (rt_id r)" "rt_pinned r \<noteq> Unread"
        "sampleResult plan (plan_instants plan ! i) owner r p quotes = Inr res"
      using r(2) shown by (auto simp: route_result_def split: if_splits sum.splits)
    moreover have "r \<in> set (indexed_routes e routes)" using r(1) kind(1) False p(2,3) by (auto simp: indexed_routes_def)
    ultimately show ?thesis using sampleResult_snapshot [OF p(4) shown] False kind(2) by auto
  qed
qed

lemma scan_instant_of:
  assumes "snd (scanSamples e w cache owner routes plan) = Inr scans" "i < length scans"
  obtains quotes wallet_quoted where "i < length (plan_instants plan)"
    "scan_instant e w plan owner routes quotes wallet_quoted (read_samples e w cache plan routes) i = Inr (scans ! i)"
  using assms by (auto simp: scanSamples_def Let_def mapR_Inr_iff list_all2_conv_all_nth split: if_splits)

lemma scan_length: "snd (scanSamples e w cache owner routes plan) = Inr scans \<Longrightarrow> length scans = length (plan_instants plan)"
  by (auto simp: scanSamples_def Let_def dest: mapR_length split: if_splits)

text \<open>C9: where the wallet is read, the portfolio a scan returns is one state: every snapshot of an instant, the wallet's and
  each protocol's, is of one checkpoint, and it does not postdate the instant or checkpoint asked about.\<close>

theorem portfolio_one_state:
  assumes "routes_ok routes" "snd (scanSamples e w cache owner routes plan) = Inr scans" "i < length scans"
    and "ws \<in> set (su_snapshots (rs_response (scans ! i)))" "ss_protocol ws = ''wallet''"
    and "s \<in> set (su_snapshots (rs_response (scans ! i)))"
  shows "cp_sequence (ss_checkpoint s) = cp_sequence (ss_checkpoint ws)
    \<and> (case plan_checkpoint plan of Some c \<Rightarrow> cp_sequence (ss_checkpoint s) \<le> c | None \<Rightarrow> cp_timestamp (ss_checkpoint s) \<le> plan_instants plan ! i)"
proof -
  define sm where "sm = read_samples e w cache plan routes"
  obtain quotes wallet_quoted where i: "i < length (plan_instants plan)"
      and scan: "scan_instant e w plan owner routes quotes wallet_quoted sm i = Inr (scans ! i)"
    unfolding sm_def using assms(2,3) by (rule scan_instant_of)
  note source = scan_snapshot_source [OF assms(1) i sm_def scan]
  obtain reads where reads: "sm_wallet sm = WalletReads reads" "wr_error (reads ! i) = None" "ss_checkpoint ws = wr_pin (reads ! i)"
    using source [OF assms(4)] assms(5) by auto
  have pin: "suiWalletPin plan (plan_instants plan ! i) (indexed_routes e routes) (sm_answers sm ! i) = Inr (wr_pin (reads ! i))"
    using read_samples_wallet [of e w cache plan routes reads i] reads(1,2) i by (simp add: sm_def)
  have bound: "(case plan_checkpoint plan of Some c \<Rightarrow> cp_sequence (sp_checkpoint p) \<le> c | None \<Rightarrow> cp_timestamp (sp_checkpoint p) \<le> plan_instants plan ! i)"
    if "checkSuiSample r p (plan_checkpoint plan) (plan_at plan (plan_instants plan ! i))" for r p
    using that by (cases "plan_checkpoint plan") (auto simp: checkSuiSample_def plan_at_def Let_def)
  from source [OF assms(6)] show ?thesis
  proof
    assume "ss_protocol s \<noteq> ''wallet'' \<and> (\<exists>r \<in> set (indexed_routes e routes). \<exists>p. (sm_answers sm ! i) r = Inr p \<and> ss_checkpoint s = sp_checkpoint p
        \<and> checkSuiSample r p (plan_checkpoint plan) (plan_at plan (plan_instants plan ! i)))"
    then obtain r p where r: "r \<in> set (indexed_routes e routes)" "(sm_answers sm ! i) r = Inr p" "ss_checkpoint s = sp_checkpoint p"
        "checkSuiSample r p (plan_checkpoint plan) (plan_at plan (plan_instants plan ! i))" by blast
    then show ?thesis using suiWalletPin_Inr(1) [OF pin r(1)] bound [OF r(4)] reads(3) unfolding r(3) by simp
  next
    assume "ss_protocol s = ''wallet'' \<and> (\<exists>reads. sm_wallet sm = WalletReads reads \<and> wr_error (reads ! i) = None \<and> ss_checkpoint s = wr_pin (reads ! i))"
    then have s: "ss_checkpoint s = wr_pin (reads ! i)" using reads(1) by auto
    obtain r p where p: "checkSuiSample r p (plan_checkpoint plan) (plan_at plan (plan_instants plan ! i))" "wr_pin (reads ! i) = sp_checkpoint p"
      using suiWalletPin_Inr(2) [OF pin] by blast
    show ?thesis using bound [OF p(1)] reads(3) unfolding s p(2) by simp
  qed
qed

section \<open>Every protocol is accounted for\<close>

definition protocol_failed :: "suiRoute \<Rightarrow> suiProtocolResult \<Rightarrow> bool" where
  "protocol_failed r result \<longleftrightarrow> (\<exists>err \<in> set (pr_errors result). se_protocol err = rt_id r \<and> se_scope err = ''protocol'')"

lemma protocol_failed_fail [simp]: "protocol_failed r (fail_result r ''protocol'' issue result)"
  by (simp add: protocol_failed_def)

lemma sampleResult_accounted:
  "sampleResult plan t owner r positions quotes = Inr res \<Longrightarrow> pr_snapshot (fst res) \<noteq> None \<or> protocol_failed r (fst res)"
  by (auto simp: sampleResult_def Let_def split: if_splits prod.splits sum.splits value_stop.splits)

lemma walletResult_accounted:
  "walletResult owner r rd quotes = Inr res \<Longrightarrow> pr_snapshot (fst res) \<noteq> None \<or> protocol_failed r (fst res)"
  by (auto simp: walletResult_def Let_def split: prod.splits sum.splits option.splits value_stop.splits)

definition route_accounted :: "suiResponse \<Rightarrow> suiRoute \<Rightarrow> bool" where
  "route_accounted response r \<longleftrightarrow> (\<exists>s \<in> set (su_snapshots response). ss_protocol s = rt_id r)
     \<or> (\<exists>err \<in> set (su_errors response). se_protocol err = rt_id r \<and> se_scope err = ''protocol'')"

lemma respond_accounted:
  assumes "res \<in> set results" "pr_snapshot res = Some s \<and> ss_protocol s = rt_id r \<or> protocol_failed r res"
  shows "route_accounted (respond e owner routes now results) r"
  using assms unfolding route_accounted_def respond_snapshots respond_errors protocol_failed_def by force

lemma route_result_accounted:
  assumes "routes_ok routes" "r \<in> set routes" and sm: "sm = read_samples e w cache plan routes"
    and res: "route_result e plan owner quotes wallet_quoted sm i r = Inr res"
  shows "(\<exists>s. pr_snapshot (fst res) = Some s \<and> ss_protocol s = rt_id r) \<or> protocol_failed r (fst res)"
proof (cases "rt_pinned r = FromWalletHistory")
  case True
  then have "rt_id r = ''wallet''" using routes_okD(2) [OF assms(1,2)] by simp
  obtain wr where "wallet_route routes = Some wr"
    using True assms(2) by (cases "wallet_route routes") (auto simp: wallet_route_def find_None_iff)
  then have "sm_wallet sm \<noteq> NoWallet" by (auto simp: sm read_samples_def Let_def split: option.split prod.split)
  then show ?thesis
  proof (cases "sm_wallet sm")
    case (WalletReads reads)
    then have "walletResult owner r (reads ! i) wallet_quoted = Inr res" using True res by (simp add: route_result_def)
    from walletResult_accounted [OF this] walletResult_snapshot [OF this] \<open>rt_id r = ''wallet''\<close> show ?thesis by auto
  qed (use True res in \<open>auto simp: route_result_def\<close>)
next
  case False
  show ?thesis
  proof (cases "rt_pinned r = Unread \<or> \<not> has_index e (rt_id r) \<or> isl ((sm_answers sm ! i) r)")
    case True
    then show ?thesis using False res by (auto simp: route_result_def isl_def split: if_splits)
  next
    case have_answer: False
    then obtain p where "sampleResult plan (plan_instants plan ! i) owner r p quotes = Inr res"
      using False res by (cases "(sm_answers sm ! i) r") (auto simp: route_result_def)
    from sampleResult_accounted [OF this] sampleResult_snapshot [OF this] show ?thesis by auto
  qed
qed

text \<open>What makes a scan panic: a price that is NaN or infinite in an answer of its price source.\<close>

definition prices_not_finite :: "sui_sources \<Rightarrow> bool" where
  "prices_not_finite e \<longleftrightarrow> (\<exists>ask queries prices coin price. price_source e = Some ask \<and> Some prices \<in> set (sr_prices (ask queries))
     \<and> prices coin = Some price \<and> (price = NaN \<or> (\<exists>s. price = Inf s)))"

lemma quoted_panics:
  assumes "quotes_at (quote (price_source e) wanted) t coins = (prices, failures)" "suiValuedSnapshot owner positions prices = Inl (Panics panic)"
  shows "prices_not_finite e"
proof -
  obtain coin price where price: "prices coin = Some price" "\<not> is_finite64 price" using suiValuedSnapshot_panics [OF assms(2)] by blast
  from quote_of_source [OF quotes_at_quoted [OF assms(1) price(1)]] price(2) show ?thesis
    unfolding prices_not_finite_def not_finite64_iff by blast
qed

lemma route_result_panics:
  assumes "route_result e plan owner (quote (price_source e) wanted) (quote (price_source e) wanted') sm i r = Inl panic"
  shows "prices_not_finite e"
  using assms quoted_panics
  by (auto simp: route_result_def walletResult_def sampleResult_def Let_def
      split: if_splits wallet_part.splits sum.splits option.splits prod.splits value_stop.splits)

lemma mapR_Inl: "mapR f xs = Inl stop \<Longrightarrow> \<exists>x \<in> set xs. f x = Inl stop"
  by (induction xs) (auto simp: bindR_Inl_iff)

text \<open>C13: of every instant of a sampled scan that returns, every selected protocol has a snapshot or a
  "protocol" error saying why it was not read; none is left out, and no instant is. A scan that does not return
  panicked, and that happens only when an answer of the price source held a price that is NaN or infinite.\<close>

theorem sampled_scan_accounts:
  assumes "routes_ok routes" "r \<in> set routes"
  shows "case snd (scanSamples e w cache owner routes plan) of
      Inl panic \<Rightarrow> \<exists>ask queries prices coin price. price_source e = Some ask \<and> Some prices \<in> set (sr_prices (ask queries))
        \<and> prices coin = Some price \<and> (price = NaN \<or> (\<exists>s. price = Inf s))
    | Inr scans \<Rightarrow> length scans = length (plan_instants plan) \<and> list_all (\<lambda>scan. route_accounted (rs_response scan) r) scans"
proof (cases "snd (scanSamples e w cache owner routes plan)")
  case (Inl panic)
  then obtain wanted wanted' sm i where "scan_instant e w plan owner routes (quote (price_source e) wanted) (quote (price_source e) wanted') sm i = Inl panic"
    by (auto simp: scanSamples_def Let_def split: if_splits dest!: mapR_Inl)
  then have "prices_not_finite e" by (auto simp: scan_instant_def bindR_Inl_iff dest!: mapR_Inl route_result_panics)
  then show ?thesis unfolding Inl by (simp add: prices_not_finite_def)
next
  case (Inr scans)
  define sm where "sm = read_samples e w cache plan routes"
  have "route_accounted (rs_response (scans ! i)) r" if i: "i < length scans" for i
  proof -
    obtain quotes wallet_quoted where scan: "scan_instant e w plan owner routes quotes wallet_quoted sm i = Inr (scans ! i)"
      unfolding sm_def using Inr i by (rule scan_instant_of)
    then obtain results where results: "mapR (route_result e plan owner quotes wallet_quoted sm i) routes = Inr results"
        "\<lparr>rs_response = respond e owner routes (sw_now w) (map fst results), rs_retry = first_some ((sm_retries sm ! i) # map snd results)\<rparr> = scans ! i"
      unfolding scan_instant_def bindR_Inr_iff sum.inject by blast
    have shown: "rs_response (scans ! i) = respond e owner routes (sw_now w) (map fst results)" unfolding results(2) [symmetric] by simp
    obtain res where res: "res \<in> set results" "route_result e plan owner quotes wallet_quoted sm i r = Inr res"
      using mapR_answer [OF results(1) assms(2)] by blast
    obtain s where "pr_snapshot (fst res) = Some s \<and> ss_protocol s = rt_id r \<or> protocol_failed r (fst res)"
      using route_result_accounted [OF assms sm_def res(2)] by blast
    moreover have "fst res \<in> set (map fst results)" using res(1) by simp
    ultimately show ?thesis unfolding shown by (rule respond_accounted [rotated])
  qed
  then show ?thesis unfolding Inr by (simp add: list_all_length scan_length [OF Inr])
qed

lemma readLatest_checked:
  assumes "readLatest e w cache r = (cache', Inr rd)" "rt_latest r = FromIndex"
  shows "sp_protocol (lr_positions rd) = rt_id r"
  using assms by (auto simp: readLatest_def checkIndexedLatest_def checkSuiSample_def Let_def split: option.splits sum.splits if_splits)

lemma readLatest_identity:
  assumes "readLatest e w cache r = (cache', Inr rd)"
  shows "sp_protocol (lr_positions rd) = rt_id r"
proof (cases "rt_latest r = FromIndex")
  case False
  then show ?thesis
    using assms by (auto simp: readLatest_def readWalletLatest_def suiWalletPositions_def split: option.splits sum.splits if_splits prod.splits)
qed (use readLatest_checked [OF assms] in blast)

lemma read_routes_all:
  "snd (read_routes e w cache routes) = reads \<Longrightarrow> map fst reads = routes
     \<and> (\<forall>x \<in> set reads. \<exists>c c'. readLatest e w c (fst x) = (c', snd x))"
proof (induction routes arbitrary: cache reads)
  case (Cons r routes)
  obtain c' rd where rd: "readLatest e w cache r = (c', rd)" by fastforce
  obtain c'' rds where rds: "read_routes e w c' routes = (c'', rds)" by fastforce
  have "reads = (r, rd) # rds" using Cons.prems rd rds by simp
  then show ?case using Cons.IH [of c' rds] rd rds by auto
qed simp

lemma valueRead_accounted:
  assumes "sp_protocol (lr_positions rd) = rt_id r" "valueRead owner r rd quotes = Inr res"
  shows "(\<exists>s. pr_snapshot res = Some s \<and> ss_protocol s = rt_id r) \<or> protocol_failed r res
    \<or> (rt_latest r \<noteq> FromIndex \<and> sp_groups (lr_positions rd) = [])"
proof -
  obtain prices failures where q: "quotes_at quotes (lr_valued_at rd) (suiPositionCoins (lr_positions rd)) = (prices, failures)" by fastforce
  show ?thesis
  proof (cases "suiValuedSnapshot owner (lr_positions rd) prices")
    case (Inl stop)
    then show ?thesis using assms(2) by (cases stop) (auto simp: valueRead_def q Let_def)
  next
    case (Inr valued)
    show ?thesis
    proof (cases valued)
      case None
      then have "sp_groups (lr_positions rd) = []" using Inr by (auto simp: suiValuedSnapshot_def bindR_Inr_iff split: if_splits)
      then show ?thesis using Inr None assms(2) by (auto simp: valueRead_def q Let_def empty_snapshot_def)
    next
      case (Some sm)
      then show ?thesis using Inr valued_snapshot_checkpoint [of owner "lr_positions rd" prices "fst sm" "snd sm"] assms
        by (cases sm) (auto simp: valueRead_def q Let_def)
    qed
  qed
qed

lemma latest_result_panics:
  assumes "latest_result owner (quote (price_source e) wanted) rr = Inl panic"
  shows "prices_not_finite e"
  using assms quoted_panics
  by (auto simp: latest_result_def valueRead_def Let_def split: prod.splits sum.splits value_stop.splits)

text \<open>Of a latest scan that returns, every selected protocol has a snapshot, or a "protocol" error saying
  why it was not read, or was read from the node and holds nothing; a protocol read from its index always has
  one of the first two. A scan that does not return panicked at a price that was not finite.\<close>

lemma latest_scan_accounts:
  assumes "r \<in> set routes"
  shows "case snd (scanLatest e w cache owner routes) of Inl panic \<Rightarrow> prices_not_finite e
    | Inr response \<Rightarrow> route_accounted response r
      \<or> (rt_latest r \<noteq> FromIndex \<and> (\<exists>c c' rd. readLatest e w c r = (c', Inr rd) \<and> sp_groups (lr_positions rd) = []))"
proof -
  obtain c' reads where run: "read_routes e w cache routes = (c', reads)" by fastforce
  define quotes where "quotes = quote (price_source e) (latest_wanted reads)"
  have response: "snd (scanLatest e w cache owner routes)
      = bindR (mapR (latest_result owner quotes) reads) (\<lambda>results. Inr (respond e owner routes (lw_now w) results))"
    by (simp add: scanLatest_def run Let_def quotes_def)
  show ?thesis
  proof (cases "mapR (latest_result owner quotes) reads")
    case (Inl panic)
    then show ?thesis unfolding response quotes_def by (auto dest!: mapR_Inl latest_result_panics)
  next
    case (Inr results)
    have all: "map fst reads = routes" "\<And>x. x \<in> set reads \<Longrightarrow> \<exists>c c'. readLatest e w c (fst x) = (c', snd x)"
      using read_routes_all [of e w cache routes reads] run by auto
    obtain x where x: "x \<in> set reads" "fst x = r" using assms all(1) by (metis imageE list.set_map)
    then obtain c c'' where rd: "readLatest e w c r = (c'', snd x)" using all(2) by blast
    obtain res where mem: "res \<in> set results" and res: "latest_result owner quotes x = Inr res"
      using mapR_answer [OF Inr x(1)] by blast
    have "(\<exists>s. pr_snapshot res = Some s \<and> ss_protocol s = rt_id r) \<or> protocol_failed r res
        \<or> (rt_latest r \<noteq> FromIndex \<and> (\<exists>c c' rd. readLatest e w c r = (c', Inr rd) \<and> sp_groups (lr_positions rd) = []))"
    proof (cases "snd x")
      case (Inl issue)
      then show ?thesis using x(2) res by (cases x) (auto simp: latest_result_def)
    next
      case (Inr read)
      then have "valueRead owner r read quotes = Inr res" using x(2) res by (cases x) (simp add: latest_result_def)
      moreover have "sp_protocol (lr_positions read) = rt_id r" using rd unfolding Inr by (rule readLatest_identity)
      ultimately show ?thesis using valueRead_accounted rd Inr by metis
    qed
    moreover have "route_accounted (respond e owner routes (lw_now w) results) r"
      if known: "(\<exists>s. pr_snapshot res = Some s \<and> ss_protocol s = rt_id r) \<or> protocol_failed r res"
    proof -
      obtain s where "pr_snapshot res = Some s \<and> ss_protocol s = rt_id r \<or> protocol_failed r res" using known by blast
      then show ?thesis by (rule respond_accounted [OF mem])
    qed
    ultimately show ?thesis unfolding response Inr by auto
  qed
qed

section \<open>Alignment\<close>

lemma At_answer_checkpoint: "At_answer rfc3339 s t = Inr p \<Longrightarrow> sp_checkpoint p = sp_checkpoint (hs_positions s) \<and> hs_error s = None"
  by (auto simp: At_answer_def history_At_def split: if_splits option.splits)

lemma align_answer_target:
  assumes "fst (align_answer w plan r extra t target) = Inr p"
  shows "cp_sequence (sp_checkpoint p) = cp_sequence target"
  using assms At_answer_checkpoint
  by (fastforce simp: align_answer_def Let_def stamp_positions_def split: option.splits if_splits sum.splits)

lemma route_targets_at:
  assumes "i < length answers"
  shows "map_of (route_targets answers read r) i = (case oldest_checkpoint (map (answers ! i) read) of None \<Rightarrow> None
    | Some oldest \<Rightarrow> if sequence_of ((answers ! i) r) \<noteq> cp_sequence oldest then Some oldest else None)"
proof -
  let ?f = "\<lambda>ans. case oldest_checkpoint (map ans read) of None \<Rightarrow> None
    | Some oldest \<Rightarrow> if sequence_of (ans r) \<noteq> cp_sequence oldest then Some oldest else None"
  have "map_of (concat (map (\<lambda>(i, ans). case oldest_checkpoint (map ans read) of None \<Rightarrow> []
      | Some oldest \<Rightarrow> if sequence_of (ans r) \<noteq> cp_sequence oldest then [(i, oldest)] else []) (enumerate n answers))) (n + i) = ?f (answers ! i)" for n
    using assms
  proof (induction answers arbitrary: n i)
    case (Cons a answers)
    have later: "map_of (concat (map (\<lambda>(i, ans). case oldest_checkpoint (map ans read) of None \<Rightarrow> []
      | Some oldest \<Rightarrow> if sequence_of (ans r) \<noteq> cp_sequence oldest then [(i, oldest)] else []) (enumerate (Suc n) answers))) n = None"
      by (auto simp: map_of_eq_None_iff in_set_enumerate_eq split: option.splits if_splits)
    show ?case
    proof (cases i)
      case 0
      then show ?thesis using later by (auto simp: map_add_def split: option.splits)
    next
      case (Suc j)
      then show ?thesis using Cons.IH [of j "Suc n"] Cons.prems by (auto simp: map_add_def split: option.splits)
    qed
  qed simp
  from this [of 0] show ?thesis by (simp add: route_targets_def)
qed

lemma oldest_fold:
  "foldl older found cs = Some c \<Longrightarrow> (\<forall>x \<in> set cs. cp_sequence c \<le> cp_sequence x) \<and> (\<forall>f. found = Some f \<longrightarrow> cp_sequence c \<le> cp_sequence f)
     \<and> (c \<in> set cs \<or> found = Some c)"
proof (induction cs arbitrary: found)
  case (Cons x cs)
  then have "foldl older (older found x) cs = Some c" by simp
  from Cons.IH [OF this] show ?case by (cases found) (auto simp: older_def split: if_splits)
qed simp

text \<open>C14: alignment answers every protocol of an instant at the oldest of the checkpoints they were answered
  at, or fails it: an answer left after it is at that checkpoint, which is none newer than any of them.\<close>

theorem aligned_to_oldest:
  assumes "i < length answers" "oldest_checkpoint (map (answers ! i) read) = Some oldest" "r \<in> set read"
    and "fst ((alignSamples w plan read answers ! i) r) = Inr p"
  shows "cp_sequence (sp_checkpoint p) = cp_sequence oldest
    \<and> (\<forall>r' \<in> set read. \<exists>q. (answers ! i) r' = Inr q \<and> cp_sequence oldest \<le> cp_sequence (sp_checkpoint q))
    \<and> (\<exists>r' \<in> set read. \<exists>q. (answers ! i) r' = Inr q \<and> oldest = sp_checkpoint q)"
proof -
  have all: "\<exists>q. (answers ! i) r' = Inr q" if r': "r' \<in> set read" for r'
  proof -
    have "\<not> isl ((answers ! i) r')" using assms(2) r' by (auto simp: oldest_checkpoint_def list_all_iff isl_def split: if_splits sum.splits)
    then show ?thesis by (cases "(answers ! i) r'") auto
  qed
  have "foldl older None (map (\<lambda>a. case a of Inr p \<Rightarrow> sp_checkpoint p) (map (answers ! i) read)) = Some oldest"
    using assms(2) by (auto simp: oldest_checkpoint_def split: if_splits)
  note fold = oldest_fold [OF this]
  have low: "\<exists>q. (answers ! i) r' = Inr q \<and> cp_sequence oldest \<le> cp_sequence (sp_checkpoint q)" if r': "r' \<in> set read" for r'
    using all [OF r'] fold r' by fastforce
  have at: "\<exists>r' \<in> set read. \<exists>q. (answers ! i) r' = Inr q \<and> oldest = sp_checkpoint q"
    using fold all by fastforce
  have one: "(alignSamples w plan read answers ! i) r = (case map_of (route_targets answers read r) i of None \<Rightarrow> ((answers ! i) r, None)
      | Some target \<Rightarrow> align_answer w plan r (extra_range w plan (rt_id r) (route_targets answers read r)) (plan_instants plan ! i) target)"
    using assms(1) by (simp add: alignSamples_def Let_def nth_enumerate_eq)
  have "cp_sequence (sp_checkpoint p) = cp_sequence oldest"
  proof (cases "sequence_of ((answers ! i) r) = cp_sequence oldest")
    case True
    then show ?thesis using assms(4) unfolding one route_targets_at [OF assms(1)] assms(2) by (auto simp: sequence_of_def)
  next
    case False
    then show ?thesis using assms(4) align_answer_target unfolding one route_targets_at [OF assms(1)] assms(2) by auto
  qed
  then show ?thesis using low at by blast
qed

section \<open>Witnesses\<close>

definition example_route :: "nat \<Rightarrow> suiRoute" where
  "example_route k = suiRoutes ! k"

definition example_sources :: sui_sources where
  "example_sources = \<lparr>has_node = True, has_index = (\<lambda>i. i \<noteq> ''wallet''), has_wallet = True, price_source = None, admit_coins = (\<lambda>coins. coins)\<rparr>"

definition example_checkpoint :: "u64 \<Rightarrow> sui_checkpoint" where
  "example_checkpoint n = \<lparr>cp_sequence = n, cp_digest = replicate 32 7, cp_timestamp = uint n + 1\<rparr>"

definition example_read :: "string \<Rightarrow> u64 \<Rightarrow> sui_positions" where
  "example_read i n = \<lparr>sp_protocol = i, sp_name = i, sp_checkpoint = example_checkpoint n, sp_head_before = 0, sp_groups = [], sp_errors = []\<rparr>"

text \<open>NAVI's last change was at checkpoint 3, Suilend's at 5.\<close>

definition example_world :: sui_sample_world where
  "example_world = \<lparr>sw_range = (\<lambda>i lo hi. ([], None)), sw_range_again = (\<lambda>i lo hi. ([], None)),
     sw_checkpoint = (\<lambda>i c. Inr (example_read i (if i = ''navi'' then 3 else 5))),
     sw_checkpoint_again = (\<lambda>i c. Inr (example_read i c)), sw_timed_out = (\<lambda>i e. False),
     sw_wallet = \<lparr>ww_balances = (\<lambda>sequences. Inr (map (\<lambda>s. (s, [])) sequences)), ww_fetch = (\<lambda>coins. Inr ([], coins)), ww_timed_out = (\<lambda>e. False)\<rparr>,
     sw_rfc3339 = (\<lambda>t. []), sw_now = 100\<rparr>"

definition example_plan :: suiSamplePlan where
  "example_plan = \<lparr>plan_instants = [zero_time], plan_checkpoint = Some 9\<rparr>"

definition example_answers :: "(suiRoute \<Rightarrow> sui_answer) list" where
  "example_answers = [\<lambda>r. Inr (example_read (rt_id r) (if rt_id r = ''navi'' then 3 else 5))]"

lemmas example_defs = example_route_def example_sources_def example_world_def example_plan_def example_answers_def suiRoutes_def route_def

lemma example_digest: "replicate 32 (7 :: nat) \<noteq> no_digest"
  by (simp add: no_digest_def)

lemma example_aligned:
  "fst ((alignSamples example_world example_plan [example_route 1, example_route 3] example_answers ! 0) (example_route 1)) = Inr (example_read ''navi'' 3)"
  "fst ((alignSamples example_world example_plan [example_route 1, example_route 3] example_answers ! 0) (example_route 3)) = Inr (example_read ''suilend'' 3)"
  by (simp_all add: example_defs alignSamples_def route_targets_def oldest_checkpoint_def older_def sequence_of_def align_answer_def extra_range_def
      aligned_samples_def suiSampleAt_def keep_newer_def covers_def example_read_def example_checkpoint_def Let_def)

theorem aligned_to_oldest_witness:
  "cp_sequence (sp_checkpoint (example_read ''suilend'' 3)) = 3
   \<and> (\<exists>r' \<in> set [example_route 1, example_route 3]. \<exists>q. (example_answers ! 0) r' = Inr q \<and> example_checkpoint 3 = sp_checkpoint q)"
proof -
  have "oldest_checkpoint (map (example_answers ! 0) [example_route 1, example_route 3]) = Some (example_checkpoint 3)"
    by (simp add: example_defs oldest_checkpoint_def older_def example_read_def example_checkpoint_def)
  from aligned_to_oldest [OF _ this _ example_aligned(2)] show ?thesis
    by (simp add: example_answers_def example_checkpoint_def)
qed

definition example_routes :: "suiRoute list" where
  "example_routes = [example_route 0, example_route 1, example_route 3]"

lemma example_routes_ok: "routes_ok example_routes"
  by (simp add: routes_ok_def example_routes_def example_defs)

lemma example_indexed: "indexed_routes example_sources example_routes = [example_route 1, example_route 3]"
  by (simp add: indexed_routes_def example_routes_def example_defs)

lemma example_wallet: "wallet_route example_routes = Some (example_route 0)" "configuredSui example_sources (example_route 0) FromWalletHistory = None"
  by (simp_all add: wallet_route_def example_routes_def configuredSui_def example_defs)

lemma example_first: "map (\<lambda>f r. fst (f r)) (map (first_answer example_world example_plan) (plan_instants example_plan)) = example_answers"
  by (simp add: example_defs first_answer_def fun_eq_iff)

lemma example_checked:
  "checkSuiSample (example_route 1) (example_read ''navi'' 3) (Some 9) None" "checkSuiSample (example_route 3) (example_read ''suilend'' 3) (Some 9) None"
  using example_digest by (simp_all add: checkSuiSample_def example_defs example_read_def example_checkpoint_def zero_time_def)

lemma example_pin:
  assumes "fst (ans (example_route 1)) = Inr (example_read ''navi'' 3)" "fst (ans (example_route 3)) = Inr (example_read ''suilend'' 3)"
  shows "suiWalletPin example_plan t [example_route 1, example_route 3] (\<lambda>r. fst (ans r)) = Inr (example_checkpoint 3)"
  using assms example_checked by (simp add: suiWalletPin_def pin_step_def plan_at_def example_plan_def no_checkpoint_def) (simp add: example_read_def)

lemma example_history:
  "readWalletHistory example_sources (sw_wallet example_world) [] [Inr (example_checkpoint 3)] = ([], [blank_wallet_read\<lparr>wr_pin := example_checkpoint 3\<rparr>])"
  by (simp add: readWalletHistory_def example_defs balances_at_def wallet_read_at_def coinMetadata_def mergeSortedStrings_def example_checkpoint_def
      suiWalletMaxValuedCoins_def blank_wallet_read_def Let_def)

lemma example_snapshots:
  "\<exists>scan. snd (scanSamples example_sources example_world [] 0 example_routes example_plan) = Inr [scan]
     \<and> map (\<lambda>s. (ss_protocol s, ss_checkpoint s)) (su_snapshots (rs_response scan))
       = [(''wallet'', example_checkpoint 3), (''navi'', example_checkpoint 3), (''suilend'', example_checkpoint 3)]"
proof -
  define aligned where "aligned = alignSamples example_world example_plan [example_route 1, example_route 3] example_answers"
  have "length aligned = 1" by (simp add: aligned_def alignSamples_length example_answers_def)
  then obtain ans where ans: "aligned = [ans]" by (metis One_nat_def length_0_conv length_Suc_conv)
  note at_3 = example_aligned [folded aligned_def, unfolded ans nth_Cons_0]
  define sm where "sm = read_samples example_sources example_world [] example_plan example_routes"
  have sm: "sm_answers sm = [\<lambda>r. fst (ans r)]" "sm_wallet sm = WalletReads [blank_wallet_read\<lparr>wr_pin := example_checkpoint 3\<rparr>]"
    unfolding sm_def read_samples_def Let_def example_indexed example_wallet option.case example_first aligned_def [symmetric] ans
    using example_pin [of ans, OF at_3] example_history by (simp_all add: example_plan_def)
  have wallet: "\<exists>res. walletResult owner r (blank_wallet_read\<lparr>wr_pin := c\<rparr>) quotes = Inr res \<and> pr_snapshot (fst res) = Some (empty_snapshot r owner c)"
    for owner r c quotes
    by (simp add: walletResult_def blank_wallet_read_def quotes_at_def suiWalletPositions_def suiValuedSnapshot_def Let_def)
  have indexed: "\<exists>res. sampleResult example_plan zero_time owner r p quotes = Inr res \<and> pr_snapshot (fst res) = Some (empty_snapshot r owner (sp_checkpoint p))"
    if "checkSuiSample r p (Some 9) None" "sp_groups p = []" for owner r p quotes
    using that by (simp add: sampleResult_def plan_at_def example_plan_def quotes_at_def suiPositionCoins_def mergeSortedStrings_def suiValuedSnapshot_def Let_def)
  have instants: "plan_instants example_plan = [zero_time]" by (simp add: example_plan_def)
  have routes: "rt_pinned (example_route 0) = FromWalletHistory" "rt_id (example_route 0) = ''wallet''" "rt_pinned (example_route 1) = FromIndex"
      "rt_id (example_route 1) = ''navi''" "rt_pinned (example_route 3) = FromIndex" "rt_id (example_route 3) = ''suilend''"
      "has_index example_sources ''navi''" "has_index example_sources ''suilend''"
    by (simp_all add: example_defs)
  have read: "sp_groups (example_read i n) = []" "sp_checkpoint (example_read i n) = example_checkpoint n" for i n by (simp_all add: example_read_def)
  have scan: "\<exists>scan. scan_instant example_sources example_world example_plan 0 example_routes quotes wallet_quoted sm 0 = Inr scan
      \<and> map (\<lambda>s. (ss_protocol s, ss_checkpoint s)) (su_snapshots (rs_response scan))
        = [(''wallet'', example_checkpoint 3), (''navi'', example_checkpoint 3), (''suilend'', example_checkpoint 3)]" for quotes wallet_quoted
  proof -
    let ?result = "route_result example_sources example_plan 0 quotes wallet_quoted sm 0"
    obtain r0 where r0: "?result (example_route 0) = Inr r0" "pr_snapshot (fst r0) = Some (empty_snapshot (example_route 0) 0 (example_checkpoint 3))"
      using wallet [of 0 "example_route 0" "example_checkpoint 3" wallet_quoted] by (auto simp: route_result_def routes sm)
    obtain r1 where r1: "?result (example_route 1) = Inr r1" "pr_snapshot (fst r1) = Some (empty_snapshot (example_route 1) 0 (example_checkpoint 3))"
      using indexed [OF example_checked(1) read(1), of 0 quotes]
      by (simp only: route_result_def routes sm at_3 instants nth_Cons_0 if_True if_False suiSource.distinct not_True_eq_False sum.case simp_thms read) blast
    obtain r3 where r3: "?result (example_route 3) = Inr r3" "pr_snapshot (fst r3) = Some (empty_snapshot (example_route 3) 0 (example_checkpoint 3))"
      using indexed [OF example_checked(2) read(1), of 0 quotes]
      by (simp only: route_result_def routes sm at_3 instants nth_Cons_0 if_True if_False suiSource.distinct not_True_eq_False sum.case simp_thms read) blast
    have "mapR ?result example_routes = Inr [r0, r1, r3]" by (simp add: example_routes_def r0(1) r1(1) [unfolded One_nat_def] r3(1))
    then show ?thesis by (simp add: scan_instant_def respond_snapshots r0(2) r1(2) r3(2) empty_snapshot_def routes [unfolded One_nat_def])
  qed
  show ?thesis
    using scan [of "quote (price_source example_sources) (samples_wanted (indexed_routes example_sources example_routes) (sm_answers sm))"
        "quote (price_source example_sources) (case sm_wallet sm of WalletReads reads \<Rightarrow> wallet_quotes reads | _ \<Rightarrow> [])"]
    by (auto simp: scanSamples_def sm_def [symmetric] instants Let_def)
qed

theorem portfolio_one_state_witness:
  "\<exists>scans. snd (scanSamples example_sources example_world [] 0 example_routes example_plan) = Inr scans
     \<and> (\<exists>s. s \<in> set (su_snapshots (rs_response (scans ! 0)))
         \<and> ss_protocol s = ''suilend'' \<and> cp_sequence (ss_checkpoint s) = 3 \<and> cp_sequence (ss_checkpoint s) \<le> 9)"
proof -
  obtain scan where run: "snd (scanSamples example_sources example_world [] 0 example_routes example_plan) = Inr [scan]"
      and "map (\<lambda>s. (ss_protocol s, ss_checkpoint s)) (su_snapshots (rs_response scan))
        = [(''wallet'', example_checkpoint 3), (''navi'', example_checkpoint 3), (''suilend'', example_checkpoint 3)]"
    using example_snapshots by (elim exE conjE)
  then obtain ws x s where scan: "su_snapshots (rs_response ([scan] ! 0)) = [ws, x, s]" "ss_protocol ws = ''wallet''" "ss_checkpoint ws = example_checkpoint 3"
      "ss_protocol s = ''suilend''"
    by (auto simp: map_eq_Cons_conv)
  have mem: "ws \<in> set (su_snapshots (rs_response ([scan] ! 0)))" "s \<in> set (su_snapshots (rs_response ([scan] ! 0)))" using scan(1) by simp_all
  have "0 < length [scan]" by simp
  from portfolio_one_state [OF example_routes_ok run this mem(1) scan(2) mem(2)] have "cp_sequence (ss_checkpoint s) = 3 \<and> cp_sequence (ss_checkpoint s) \<le> 9"
    unfolding scan(3) by (simp add: example_plan_def example_checkpoint_def)
  then show ?thesis using run mem(2) scan(4) by blast
qed

theorem sampled_scan_accounts_witness:
  "\<exists>scan. snd (scanSamples example_sources example_world [] 0 example_routes example_plan) = Inr [scan]
     \<and> route_accounted (rs_response scan) (example_route 3)"
proof -
  obtain scan where run: "snd (scanSamples example_sources example_world [] 0 example_routes example_plan) = Inr [scan]"
    using example_snapshots by (elim exE conjE)
  have "example_route 3 \<in> set example_routes" by (simp add: example_routes_def)
  from sampled_scan_accounts [OF example_routes_ok this, where e = example_sources and w = example_world and cache = "[]" and owner = 0 and plan = example_plan] run show ?thesis by simp
qed

end
