(* ===== verification/Contracts.thy ===== *)
theory Contracts
  imports Rpc
begin

text \<open>
  The client a position adapter reads contracts with: \<open>RPCClient.Call\<close> of \<open>rpc.go\<close>, and the two reads
  together. An adapter's reads are pinned to one block, whose state is a function from call objects to
  raw results; a node may refuse to answer but answers from that state. The interface
  \<open>pinned_reads\<close> is what adapters rely on: a row they are given is the answer of the state.
\<close>

section \<open>The client\<close>

definition rpc_Call :: "transport \<Rightarrow> (call_object \<Rightarrow> rpc_error + string) \<Rightarrow> rpc_error call_fn" where
  "rpc_Call t send contract meth args = (let c = view_call contract meth args in case abi_pack t c of
       Inl e \<Rightarrow> Inl (wrap (''encode '' @ meth @ '': '') e)
     | Inr bytes \<Rightarrow> (case send (contractCallObject c bytes) of
         Inl e \<Rightarrow> Inl (wrap (addr_text t contract @ '' '' @ meth @ '': '') e)
       | Inr raw \<Rightarrow> (case abi_unpack t c raw of
           Inl e \<Rightarrow> Inl (wrap (''decode '' @ addr_text t contract @ '' '' @ meth @ '': '') e)
         | Inr vs \<Rightarrow> Inr vs)))"

record rpc_client =
  client_call :: "rpc_error call_fn"
  client_calls :: "rpc_error calls_fn"
  client_tolerant :: "contract_call list \<Rightarrow> rpc_error + call_result list"

text \<open>\<open>readToken\<close> through a client; the bytes32 ABI's \<open>symbol\<close> is named apart from the string one.\<close>

definition client_readToken :: "(abi_error \<Rightarrow> string) \<Rightarrow> rpc_client \<Rightarrow> block_ref \<Rightarrow> address \<Rightarrow> rpc_error + token" where
  "client_readToken abi_text client = readToken abi_text
     \<lparr>read_decimals = (\<lambda>a. bindR (client_calls client [view_call a ''decimals'' []]) (\<lambda>rows. Inr (rows ! 0))),
      read_string_symbol = (\<lambda>a. client_call client a ''symbol'' []),
      read_bytes32_symbol = (\<lambda>a. client_call client a ''symbol(bytes32)'' [])\<rparr>"

text \<open>Why an adapter answers an error: a read failed, a result did not decode, or a check refused it; each under a label.\<close>

datatype position_error = ReadFailed string rpc_error | Undecodable string abi_error | Rejected string

type_synonym 'a reading = "(position_error, 'a) go"

text \<open>An integer of a row, or its address.\<close>

definition row_int :: "string \<Rightarrow> abi_value list list \<Rightarrow> nat \<Rightarrow> int \<Rightarrow> int reading" where
  "row_int label rows i j = bindR (index_or_panic rows i) (\<lambda>row. liftE (Undecodable label) (BigIntAt row j))"

definition row_address :: "string \<Rightarrow> abi_value list list \<Rightarrow> nat \<Rightarrow> int \<Rightarrow> address reading" where
  "row_address label rows i j = bindR (index_or_panic rows i) (\<lambda>row. liftE (Undecodable label) (AddressAt row j))"

definition call_int :: "string \<Rightarrow> rpc_client \<Rightarrow> address \<Rightarrow> string \<Rightarrow> abi_value list \<Rightarrow> int reading" where
  "call_int label client contract meth args =
     bindR (liftE (ReadFailed label) (client_call client contract meth args)) (\<lambda>row. liftE (Undecodable label) (BigIntAt row 0))"

text \<open>An address list, of what \<open>ConvertType\<close> makes of a value; \<open>None\<close> where it is no such value.\<close>

definition decodeAddresses :: "(abi_value \<Rightarrow> address list option) \<Rightarrow> abi_value \<Rightarrow> address list reading" where
  "decodeAddresses convert v = (case convert v of None \<Rightarrow> Inl (Fail (Rejected ''unexpected address list type'')) | Some as \<Rightarrow> Inr as)"

section \<open>The state of a block\<close>

text \<open>What the state answers a call: its row, or nothing where it does not encode, run or decode.\<close>

definition state_row :: "transport \<Rightarrow> (call_object \<Rightarrow> element) \<Rightarrow> contract_call \<Rightarrow> abi_value list option" where
  "state_row t state c = (case abi_pack t c of Inl e \<Rightarrow> None | Inr bytes \<Rightarrow> (case state (contractCallObject c bytes) of
       Inl e \<Rightarrow> None | Inr raw \<Rightarrow> (case abi_unpack t c raw of Inl e \<Rightarrow> None | Inr vs \<Rightarrow> Some vs)))"

text \<open>A node that refuses some requests and answers the others from the state; what \<open>batchCall\<close> and \<open>call\<close> return of it.\<close>

definition node_batch :: "(nat \<Rightarrow> call_object list \<Rightarrow> rpc_error option) \<Rightarrow> (call_object \<Rightarrow> element) \<Rightarrow> nat \<Rightarrow> call_object list
    \<Rightarrow> rpc_error + element list" where
  "node_batch refuse state start objects = (case refuse start objects of Some e \<Rightarrow> Inl e
     | None \<Rightarrow> classify_batch (\<lambda>e. e \<noteq> None) (Inr (map state objects)))"

definition node_single :: "(nat \<Rightarrow> call_object list \<Rightarrow> rpc_error option) \<Rightarrow> (call_object \<Rightarrow> element) \<Rightarrow> call_object \<Rightarrow> rpc_error + string" where
  "node_single refuse state object = (case refuse 0 [object] of Some e \<Rightarrow> Inl e | None \<Rightarrow> state object)"

definition node_tolerant :: "(nat \<Rightarrow> call_object list \<Rightarrow> rpc_error option) \<Rightarrow> (call_object \<Rightarrow> element) \<Rightarrow> nat \<Rightarrow> call_object list
    \<Rightarrow> rpc_error + element list" where
  "node_tolerant refuse state start objects = (case refuse start objects of Some e \<Rightarrow> Inl e
     | None \<Rightarrow> classify_batch retryableRPCError (Inr (map state objects)))"

definition node_client :: "transport \<Rightarrow> (nat \<Rightarrow> call_object list \<Rightarrow> rpc_error option) \<Rightarrow> (call_object \<Rightarrow> element) \<Rightarrow> rpc_client" where
  "node_client t refuse state =
     \<lparr>client_call = rpc_Call t (node_single refuse state), client_calls = ParallelCalls t (node_batch refuse state),
      client_tolerant = ParallelCallsAllowFailure t (node_tolerant refuse state)\<rparr>"

section \<open>Pinned reads\<close>

locale pinned_reads =
  fixes client :: rpc_client and answer :: "contract_call \<Rightarrow> abi_value list option"
  assumes call_answered: "client_call client contract meth args = Inr row \<Longrightarrow> answer (view_call contract meth args) = Some row"
    and calls_answered: "client_calls client calls = Inr rows \<Longrightarrow> list_all2 (\<lambda>c row. answer c = Some row) calls rows"
    and tolerant_answered: "client_tolerant client calls = Inr results
      \<Longrightarrow> list_all2 (\<lambda>c r. \<forall>row. r = Inr row \<longrightarrow> answer c = Some row) calls results"
begin

lemma calls_nth:
  assumes "client_calls client calls = Inr rows"
  shows "length rows = length calls" "i < length calls \<Longrightarrow> answer (calls ! i) = Some (rows ! i)"
  using calls_answered [OF assms] by (auto simp: list_all2_conv_all_nth)

lemma row_int_answered:
  assumes "client_calls client calls = Inr rows" "row_int label rows i j = Inr n"
  shows "i < length calls \<and> (\<exists>row. answer (calls ! i) = Some row \<and> BigIntAt row j = Inr n)"
  using assms calls_nth [OF assms(1)] by (auto simp: row_int_def bindR_Inr_iff index_or_panic_Inr liftE_Inr)

lemma row_address_answered:
  assumes "client_calls client calls = Inr rows" "row_address label rows i j = Inr a"
  shows "i < length calls \<and> (\<exists>row. answer (calls ! i) = Some row \<and> AddressAt row j = Inr a)"
  using assms calls_nth [OF assms(1)] by (auto simp: row_address_def bindR_Inr_iff index_or_panic_Inr liftE_Inr)

lemma call_int_answered:
  "call_int label client contract meth args = Inr n \<Longrightarrow> \<exists>row. answer (view_call contract meth args) = Some row \<and> BigIntAt row 0 = Inr n"
  using call_answered by (auto simp: call_int_def bindR_Inr_iff liftE_Inr)

end

text \<open>The client of the repository, against any such node, reads one state.\<close>

lemma blamed_none: "blamed_element (\<lambda>e. e \<noteq> None) i es = None \<Longrightarrow> \<forall>e \<in> set es. \<exists>raw. e = Inr raw"
  by (induction "\<lambda>e. e \<noteq> (None :: rpc_error option)" i es rule: blamed_element.induct) auto

lemma node_batch_Inr:
  assumes "node_batch refuse state start objects = Inr es"
  shows "es = map state objects \<and> (\<forall>e \<in> set es. \<exists>raw. e = Inr raw)"
  using assms blamed_none [of 0 es] by (auto simp: node_batch_def classify_batch_def split: option.splits)

lemma encode_batch_rows:
  "encode_batch t i calls = Inr objects \<Longrightarrow> list_all2 (\<lambda>c ob. \<exists>b. abi_pack t c = Inr b \<and> ob = contractCallObject c b) calls objects"
proof (induction calls arbitrary: i objects)
  case (Cons c calls)
  then obtain b rest where "abi_pack t c = Inr b" "encode_batch t (Suc i) calls = Inr rest" "objects = contractCallObject c b # rest"
    by (auto simp: bindR_Inr_iff split: sum.splits)
  then show ?case using Cons.IH by auto
qed simp

lemma decode_batch_rows:
  "decode_batch t i calls raws = Inr rows \<Longrightarrow> length raws = length calls \<Longrightarrow> length rows = length calls
     \<and> (\<forall>k < length calls. abi_unpack t (calls ! k) (raws ! k) = Inr (rows ! k))"
proof (induction calls arbitrary: i raws rows)
  case (Cons c calls)
  then obtain raw raws' where raws: "raws = raw # raws'" by (cases raws) auto
  then obtain vs rest where "abi_unpack t c raw = Inr vs" "decode_batch t (Suc i) calls raws' = Inr rest" "rows = vs # rest"
    using Cons.prems by (auto simp: bindR_Inr_iff split: sum.splits)
  then show ?case using Cons.IH [of "Suc i" raws' rest] Cons.prems(2) raws by (auto simp: nth_Cons split: nat.split)
qed simp

lemma batch_rows:
  assumes "encode_batch t start b = Inr objects" "node_batch refuse state start objects = Inr es" "decode_batch t start b (raws_of es) = Inr rows"
  shows "list_all2 (\<lambda>c row. state_row t state c = Some row) b rows"
proof -
  note enc = encode_batch_rows [OF assms(1)] and sent = node_batch_Inr [OF assms(2)]
  have len: "length objects = length b" using enc by (simp add: list_all2_lengthD)
  then have "length (raws_of es) = length b" using sent by (simp add: raws_of_def)
  note dec = decode_batch_rows [OF assms(3) this]
  have "state_row t state (b ! k) = Some (rows ! k)" if k: "k < length b" for k
  proof -
    obtain bytes where bytes: "abi_pack t (b ! k) = Inr bytes" "objects ! k = contractCallObject (b ! k) bytes"
      using enc k by (auto simp: list_all2_conv_all_nth)
    have "es ! k \<in> set es" using sent len k by simp
    then obtain raw where raw: "es ! k = Inr raw" using sent by blast
    then have "state (objects ! k) = Inr raw" "raws_of es ! k = raw" using sent len k by (auto simp: raws_of_def)
    then show ?thesis using bytes dec k by (auto simp: state_row_def)
  qed
  then show ?thesis using dec by (simp add: list_all2_conv_all_nth)
qed

lemma ParallelCalls_rows:
  "ParallelCalls t (node_batch refuse state) calls = Inr rows \<Longrightarrow> list_all2 (\<lambda>c row. state_row t state c = Some row) calls rows"
proof -
  have "parallel_calls t (node_batch refuse state) start calls = Inr rows \<Longrightarrow> list_all2 (\<lambda>c row. state_row t state c = Some row) calls rows" for start
  proof (induction calls arbitrary: start rows rule: length_induct)
    case (1 calls)
    show ?case
    proof (cases "calls = []")
      case True
      then show ?thesis using 1(2) by (simp add: parallel_calls.simps)
    next
      case False
      have whole: "bindR (encode_batch t start (take batchSize calls)) (\<lambda>objects. case node_batch refuse state start objects of
          Inl e \<Rightarrow> Inl (range_error ''calls '' start (length (take batchSize calls)) e)
        | Inr es \<Rightarrow> bindR (decode_batch t start (take batchSize calls) (raws_of es)) (\<lambda>rows.
            bindR (parallel_calls t (node_batch refuse state) (start + batchSize) (drop batchSize calls)) (\<lambda>rest. Inr (rows @ rest)))) = Inr rows"
        using 1(2) False unfolding parallel_calls.simps [of t "node_batch refuse state" start calls] Let_def by simp
      then obtain objects where objects: "encode_batch t start (take batchSize calls) = Inr objects" by (auto simp only: bindR_Inr_iff)
      moreover obtain es where es: "node_batch refuse state start objects = Inr es"
        using whole unfolding objects by (cases "node_batch refuse state start objects") simp_all
      ultimately obtain b rest where run: "decode_batch t start (take batchSize calls) (raws_of es) = Inr b"
          "parallel_calls t (node_batch refuse state) (start + batchSize) (drop batchSize calls) = Inr rest" "rows = b @ rest"
        using whole by (auto simp: bindR_Inr_iff simp del: parallel_calls.simps)
      have "list_all2 (\<lambda>c row. state_row t state c = Some row) (take batchSize calls @ drop batchSize calls) (b @ rest)"
        using batch_rows [OF objects es run(1)] 1(1) drop_batch_shorter [OF False] run(2) by (blast intro: list_all2_appendI)
      then show ?thesis by (simp add: run(3))
    qed
  qed
  then show "ParallelCalls t (node_batch refuse state) calls = Inr rows \<Longrightarrow> ?thesis" by (simp add: ParallelCalls_def)
qed

lemma node_tolerant_Inr: "node_tolerant refuse state start objects = Inr es \<Longrightarrow> es = map state objects"
  by (auto simp: node_tolerant_def classify_batch_def split: option.splits)

lemma tolerant_batch_rows:
  assumes "encode_batch t start b = Inr objects" "node_tolerant refuse state start objects = Inr es"
  shows "list_all2 (\<lambda>c r. \<forall>row. r = Inr row \<longrightarrow> state_row t state c = Some row) b (map2 (element_result t) b es)"
proof -
  note enc = encode_batch_rows [OF assms(1)]
  have one: "state_row t state c = Some row" if "abi_pack t c = Inr bytes" "element_result t c (state (contractCallObject c bytes)) = Inr row" for c bytes row
    using that by (auto simp: element_result_def state_row_def Let_def split: sum.splits)
  have "es = map state objects" using node_tolerant_Inr [OF assms(2)] .
  moreover have "list_all2 (\<lambda>c r. \<forall>row. r = Inr row \<longrightarrow> state_row t state c = Some row) b (map2 (element_result t) b (map state objects))"
    using enc by (induction rule: list_all2_induct) (auto intro: one)
  ultimately show ?thesis by simp
qed

lemma tolerant_rows:
  "ParallelCallsAllowFailure t (node_tolerant refuse state) calls = Inr results
     \<Longrightarrow> list_all2 (\<lambda>c r. \<forall>row. r = Inr row \<longrightarrow> state_row t state c = Some row) calls results"
proof -
  have "allow_failure_calls t (node_tolerant refuse state) start calls = Inr results
     \<Longrightarrow> list_all2 (\<lambda>c r. \<forall>row. r = Inr row \<longrightarrow> state_row t state c = Some row) calls results" for start
  proof (induction calls arbitrary: start results rule: length_induct)
    case (1 calls)
    show ?case
    proof (cases "calls = []")
      case True
      then show ?thesis using 1(2) by (simp add: allow_failure_calls.simps)
    next
      case False
      have whole: "bindR (encode_batch t start (take batchSize calls)) (\<lambda>objects. case node_tolerant refuse state start objects of
          Inl e \<Rightarrow> Inl (range_error ''calls '' start (length (take batchSize calls)) e)
        | Inr es \<Rightarrow> bindR (allow_failure_calls t (node_tolerant refuse state) (start + batchSize) (drop batchSize calls))
            (\<lambda>rest. Inr (map2 (element_result t) (take batchSize calls) es @ rest))) = Inr results"
        using 1(2) False unfolding allow_failure_calls.simps [of t "node_tolerant refuse state" start calls] Let_def by simp
      then obtain objects where objects: "encode_batch t start (take batchSize calls) = Inr objects" by (auto simp only: bindR_Inr_iff)
      moreover obtain es where es: "node_tolerant refuse state start objects = Inr es"
        using whole unfolding objects by (cases "node_tolerant refuse state start objects") simp_all
      ultimately obtain rest where run: "allow_failure_calls t (node_tolerant refuse state) (start + batchSize) (drop batchSize calls) = Inr rest"
          "results = map2 (element_result t) (take batchSize calls) es @ rest"
        using whole by (auto simp: bindR_Inr_iff)
      have "list_all2 (\<lambda>c r. \<forall>row. r = Inr row \<longrightarrow> state_row t state c = Some row) (take batchSize calls @ drop batchSize calls)
          (map2 (element_result t) (take batchSize calls) es @ rest)"
        using 1(1) drop_batch_shorter [OF False] run(1) by (intro list_all2_appendI [OF tolerant_batch_rows [OF objects es]]) blast
      then show ?thesis by (simp add: run(2))
    qed
  qed
  then show "ParallelCallsAllowFailure t (node_tolerant refuse state) calls = Inr results \<Longrightarrow> ?thesis"
    by (simp add: ParallelCallsAllowFailure_def)
qed

lemma rpc_Call_row:
  "rpc_Call t (node_single refuse state) contract meth args = Inr row \<Longrightarrow> state_row t state (view_call contract meth args) = Some row"
  by (auto simp: rpc_Call_def node_single_def state_row_def Let_def split: sum.splits option.splits)

interpretation node: pinned_reads "node_client t refuse state" "state_row t state" for t refuse state
  by unfold_locales (simp_all add: node_client_def rpc_Call_row ParallelCalls_rows tolerant_rows)

section \<open>Served reads\<close>

text \<open>A node that refuses nothing: what the state answers is read.\<close>

locale served_reads = pinned_reads +
  assumes call_served: "answer (view_call contract meth args) = Some row \<Longrightarrow> client_call client contract meth args = Inr row"
    and calls_served: "(\<And>c. c \<in> set calls \<Longrightarrow> answer c \<noteq> None) \<Longrightarrow> client_calls client calls = Inr (map (\<lambda>c. the (answer c)) calls)"
begin

lemma call_int_served:
  "answer (view_call contract meth args) = Some row \<Longrightarrow> BigIntAt row 0 = Inr n \<Longrightarrow> call_int label client contract meth args = Inr n"
  by (simp add: call_int_def call_served)

end

lemma state_row_Some:
  "state_row t state c = Some vs \<longleftrightarrow> (\<exists>bytes raw. abi_pack t c = Inr bytes \<and> state (contractCallObject c bytes) = Inr raw \<and> abi_unpack t c raw = Inr vs)"
  by (auto simp: state_row_def split: sum.splits)

lemma blamed_all_ok: "(\<And>e. e \<in> set es \<Longrightarrow> \<exists>raw. e = Inr raw) \<Longrightarrow> blamed_element blame i es = None"
proof (induction blame i es rule: blamed_element.induct)
  case (3 blame i e es)
  then show ?case by (metis list.set_intros(1) sum.distinct(1))
qed auto

lemma served_batch:
  assumes "\<And>c. c \<in> set b \<Longrightarrow> state_row t state c \<noteq> None"
  shows "\<exists>objects. encode_batch t i b = Inr objects \<and> (\<forall>ob \<in> set objects. \<exists>raw. state ob = Inr raw)
    \<and> decode_batch t j b (raws_of (map state objects)) = Inr (map (\<lambda>c. the (state_row t state c)) b)"
  using assms
proof (induction b arbitrary: i j)
  case (Cons c b)
  obtain vs where row: "state_row t state c = Some vs" using Cons.prems by fastforce
  then obtain bytes raw where run: "abi_pack t c = Inr bytes" "state (contractCallObject c bytes) = Inr raw" "abi_unpack t c raw = Inr vs"
    by (auto simp: state_row_Some)
  obtain objects where "encode_batch t (Suc i) b = Inr objects" "\<forall>ob \<in> set objects. \<exists>raw. state ob = Inr raw"
      "decode_batch t (Suc j) b (raws_of (map state objects)) = Inr (map (\<lambda>c. the (state_row t state c)) b)"
    using Cons.IH [of "Suc i" "Suc j"] Cons.prems by auto
  then show ?case using run row by (auto simp: raws_of_def)
qed (simp add: raws_of_def)

lemma ParallelCalls_served:
  assumes "\<And>c. c \<in> set calls \<Longrightarrow> state_row t state c \<noteq> None"
  shows "ParallelCalls t (node_batch (\<lambda>i obs. None) state) calls = Inr (map (\<lambda>c. the (state_row t state c)) calls)"
proof -
  have "parallel_calls t (node_batch (\<lambda>i obs. None) state) start calls = Inr (map (\<lambda>c. the (state_row t state c)) calls)" for start
    using assms
  proof (induction calls arbitrary: start rule: length_induct)
    case (1 calls)
    show ?case
    proof (cases "calls = []")
      case False
      have "state_row t state c \<noteq> None" if "c \<in> set (take batchSize calls)" for c using 1(2) that by (meson in_set_takeD)
      from served_batch [OF this] obtain objects where objects: "encode_batch t start (take batchSize calls) = Inr objects"
          "\<forall>ob \<in> set objects. \<exists>raw. state ob = Inr raw"
          "decode_batch t start (take batchSize calls) (raws_of (map state objects)) = Inr (map (\<lambda>c. the (state_row t state c)) (take batchSize calls))"
        by metis
      have sent: "node_batch (\<lambda>i obs. None) state start objects = Inr (map state objects)"
      proof -
        have "blamed_element (\<lambda>e. e \<noteq> None) 0 (map state objects) = None" by (rule blamed_all_ok) (use objects(2) in auto)
        then show ?thesis unfolding node_batch_def classify_batch_def option.case bindR_simps by (simp only: option.case)
      qed
      have "parallel_calls t (node_batch (\<lambda>i obs. None) state) (start + batchSize) (drop batchSize calls)
          = Inr (map (\<lambda>c. the (state_row t state c)) (drop batchSize calls))"
        using 1 drop_batch_shorter [OF False] by (meson in_set_dropD)
      then show ?thesis
        using False objects(1,3) sent unfolding parallel_calls.simps [of t _ start calls] Let_def
        by (simp flip: map_append)
    qed (simp add: parallel_calls.simps)
  qed
  then show ?thesis by (simp add: ParallelCalls_def)
qed

lemma rpc_Call_served:
  "state_row t state (view_call contract meth args) = Some row \<Longrightarrow> rpc_Call t (node_single (\<lambda>i obs. None) state) contract meth args = Inr row"
  by (auto simp: state_row_Some rpc_Call_def node_single_def Let_def)

interpretation willing: served_reads "node_client t (\<lambda>i obs. None) state" "state_row t state" for t state
  by unfold_locales (simp_all add: node_client_def rpc_Call_row ParallelCalls_rows tolerant_rows rpc_Call_served ParallelCalls_served)

end
