(* ===== verification/Vaults.thy ===== *)
theory Vaults
  imports Contracts Registry Wallet
begin

text \<open>
  The adapters that read one balance per configured contract: ERC-4626 vaults with their cooldowns
  (\<open>erc4626.go\<close>), receipt tokens (\<open>receipt.go\<close>) and balances converted by a contract (\<open>lst.go\<close>), with
  the tables they are constructed with.
\<close>

definition evm_token :: "chain_id \<Rightarrow> address \<Rightarrow> string \<Rightarrow> u8 \<Rightarrow> token" where
  "evm_token chain a symbol decimals = \<lparr>tok_chain = chain, tok_address = a, tok_symbol = symbol, tok_decimals = decimals\<rparr>"

definition read_of :: "address \<Rightarrow> string \<Rightarrow> source" where
  "read_of contract meth = \<lparr>src_contract = contract, src_method = meth, src_holds = None\<rparr>"

definition plain_group :: "string \<Rightarrow> string \<Rightarrow> string \<Rightarrow> component list \<Rightarrow> metadata \<Rightarrow> group" where
  "plain_group i market label cs m = \<lparr>grp_id = i, grp_market = market, grp_label = label, grp_components = cs, grp_policy = [],
     grp_value = None, grp_metadata = m\<rparr>"

section \<open>Vaults\<close>

record vaultConfig =
  vt_id :: string
  vt_label :: string
  vt_address :: address
  vt_asset :: token
  vt_activation :: u64
  vt_cooldown :: string

definition activeVaultsAt :: "vaultConfig list \<Rightarrow> u64 \<Rightarrow> vaultConfig list" where
  "activeVaultsAt vaults block = filter (\<lambda>v. vt_activation v \<le> block) vaults"

definition vault_header :: "address \<Rightarrow> vaultConfig \<Rightarrow> contract_call list" where
  "vault_header account v = [view_call (vt_address v) ''asset'' [], view_call (vt_address v) ''balanceOf'' [AbiAddress account]]
     @ (if vt_cooldown v \<noteq> [] then [view_call (vt_address v) ''cooldowns'' [AbiAddress account]] else [])"

definition vault_group :: "vaultConfig \<Rightarrow> int \<Rightarrow> int \<Rightarrow> group" where
  "vault_group v shares amount = plain_group (vt_id v) (vt_id v) (vt_label v)
     [(NewComponent ''asset'' (vt_asset v) amount (read_of (vt_address v) ''convertToAssets(balanceOf)''))
        \<lparr>comp_metadata := [(''shares'', MetaString (show_int shares))]\<rparr>]
     [(''vault'', MetaAddress (vt_address v))]"

definition cooldown_group :: "vaultConfig \<Rightarrow> int \<Rightarrow> int \<Rightarrow> group" where
  "cooldown_group v ends amount = plain_group (vt_cooldown v) (vt_cooldown v) (vt_label v @ '' cooldown'')
     [(NewComponent ''asset'' (vt_asset v) amount (read_of (vt_address v) ''cooldowns.underlyingAmount''))
        \<lparr>comp_metadata := [(''cooldownEnd'', MetaString (show_int ends))]\<rparr>]
     [(''vault'', MetaAddress (vt_address v))]"

definition staked_groups :: "rpc_client \<Rightarrow> vaultConfig \<Rightarrow> int \<Rightarrow> group list reading" where
  "staked_groups client v shares = (if shares > 0
     then bindR (call_int (vt_label v @ '' convert shares'') client (vt_address v) ''convertToAssets'' [AbiInt (Some shares)]) (\<lambda>amount.
       Inr (if amount > 0 then [vault_group v shares amount] else []))
     else Inr [])"

definition cooling_groups :: "vaultConfig \<Rightarrow> abi_value list list \<Rightarrow> group list reading" where
  "cooling_groups v header = (if vt_cooldown v \<noteq> []
     then bindR (row_int (vt_label v @ '' cooldown end'') header 2 0) (\<lambda>ends.
       bindR (row_int (vt_label v @ '' cooldown amount'') header 2 1) (\<lambda>amount.
         Inr (if amount > 0 then [cooldown_group v ends amount] else [])))
     else Inr [])"

definition read_vault :: "rpc_client \<Rightarrow> address \<Rightarrow> vaultConfig \<Rightarrow> group list reading" where
  "read_vault client account v =
     bindR (liftE (ReadFailed (vt_label v @ '' vault header'')) (client_calls client (vault_header account v))) (\<lambda>header.
     bindR (row_address (vt_label v @ '' asset'') header 0 0) (\<lambda>asset.
     if asset \<noteq> tok_address (vt_asset v) then Inl (Fail (Rejected (vt_label v @ '' asset changed'')))
     else bindR (row_int (vt_label v @ '' shares'') header 1 0) (\<lambda>shares.
       bindR (staked_groups client v shares) (\<lambda>staked.
       bindR (cooling_groups v header) (\<lambda>cooling. Inr (staked @ cooling))))))"

definition readVaultPositions :: "rpc_client \<Rightarrow> block_ref \<Rightarrow> address \<Rightarrow> vaultConfig list \<Rightarrow> group list reading" where
  "readVaultPositions client block account vaults =
     bindR (mapR (read_vault client account) (activeVaultsAt vaults (block_number block))) (\<lambda>gs. Inr (concat gs))"

section \<open>Receipts\<close>

record receiptPosition =
  rc_id :: string
  rc_label :: string
  rc_receipt :: token
  rc_activation :: u64

definition receipt_call :: "address \<Rightarrow> receiptPosition \<Rightarrow> contract_call" where
  "receipt_call account p = view_call (tok_address (rc_receipt p)) ''balanceOf'' [AbiAddress account]"

definition receipt_group :: "receiptPosition \<Rightarrow> int \<Rightarrow> group" where
  "receipt_group p amount = plain_group (rc_id p) [] (rc_label p)
     [NewComponent ''asset'' (rc_receipt p) amount (read_of (tok_address (rc_receipt p)) ''balanceOf'')] []"

definition receipt_row :: "receiptPosition \<times> abi_value list \<Rightarrow> group list reading" where
  "receipt_row pr = bindR (liftE (Undecodable (rc_label (fst pr) @ '' balance'')) (BigIntAt (snd pr) 0)) (\<lambda>amount.
     Inr (if amount = 0 then [] else [receipt_group (fst pr) amount]))"

definition readReceiptPositions :: "rpc_client \<Rightarrow> block_ref \<Rightarrow> address \<Rightarrow> receiptPosition list \<Rightarrow> group list reading" where
  "readReceiptPositions client block account positions =
     (let active = filter (\<lambda>p. rc_activation p \<le> block_number block) positions in
      if active = [] then Inr []
      else bindR (liftE (ReadFailed ''receipt balances'') (client_calls client (map (receipt_call account) active))) (\<lambda>rows.
        bindR (mapR receipt_row (zip active rows)) (\<lambda>gs. Inr (concat gs))))"

section \<open>Converted balances\<close>

record convertedBalancePosition =
  cb_id :: string
  cb_label :: string
  cb_contract :: address
  cb_converter :: address
  cb_method :: string
  cb_token :: token
  cb_activation :: u64

definition converted_group :: "convertedBalancePosition \<Rightarrow> int \<Rightarrow> int \<Rightarrow> group" where
  "converted_group p shares amount = plain_group (cb_id p) [] (cb_label p)
     [if cb_method p = [] then NewComponent ''asset'' (cb_token p) amount (read_of (cb_contract p) ''balanceOf'')
      else (NewComponent ''asset'' (cb_token p) amount (read_of (cb_contract p) (cb_method p @ ''(balanceOf)'')))
        \<lparr>comp_metadata := [(''shares'', MetaString (show_int shares))]\<rparr>] []"

definition read_converted :: "rpc_client \<Rightarrow> address \<Rightarrow> convertedBalancePosition \<Rightarrow> group list reading" where
  "read_converted client account p =
     bindR (call_int (cb_label p @ '' balance'') client (cb_contract p) ''balanceOf'' [AbiAddress account]) (\<lambda>shares.
     if shares = 0 then Inr []
     else bindR (if cb_method p = [] then Inr shares
         else call_int (cb_label p @ '' conversion'') client (cb_converter p) (cb_method p) [AbiInt (Some shares)]) (\<lambda>amount.
       Inr [converted_group p shares amount]))"

definition readConvertedBalancePositions :: "rpc_client \<Rightarrow> block_ref \<Rightarrow> address \<Rightarrow> convertedBalancePosition list \<Rightarrow> group list reading" where
  "readConvertedBalancePositions client block account positions =
     bindR (mapR (read_converted client account) (filter (\<lambda>p. cb_activation p \<le> block_number block) positions)) (\<lambda>gs. Inr (concat gs))"

section \<open>The adapters\<close>

text \<open>An adapter over a table by chain; a chain it lacks has no entry and so no positions.\<close>

definition chain_entries :: "(chain_id \<times> 'a list) list \<Rightarrow> chain_id \<Rightarrow> 'a list" where
  "chain_entries table chain = (case map_of table chain of None \<Rightarrow> [] | Some entries \<Rightarrow> entries)"

definition ERC4626_Positions :: "(chain_id \<times> vaultConfig list) list \<Rightarrow> rpc_client \<Rightarrow> block_ref \<Rightarrow> address \<Rightarrow> group list reading" where
  "ERC4626_Positions vaults client block account = readVaultPositions client block account (chain_entries vaults (block_chain block))"

definition ConvertedBalance_Positions :: "(chain_id \<times> convertedBalancePosition list) list \<Rightarrow> rpc_client \<Rightarrow> block_ref \<Rightarrow> address \<Rightarrow> group list reading" where
  "ConvertedBalance_Positions table client block account =
     readConvertedBalancePositions client block account (chain_entries table (block_chain block))"

definition vault :: "string \<Rightarrow> string \<Rightarrow> string \<Rightarrow> address \<Rightarrow> u64 \<Rightarrow> token \<Rightarrow> vaultConfig" where
  "vault i cooldown label a activation asset = \<lparr>vt_id = i, vt_label = label, vt_address = a, vt_asset = asset,
     vt_activation = activation, vt_cooldown = cooldown\<rparr>"

text \<open>\<open>Yield \<cdot> \<close>, with the middle dot's UTF-8 bytes.\<close>

definition yield_label :: "string \<Rightarrow> string" where
  "yield_label name = ''Yield '' @ [char_of (0xC2 :: nat), char_of (0xB7 :: nat)] @ '' '' @ name"

definition erc4626Adapters :: "(string \<times> string \<times> (chain_id \<times> vaultConfig list) list) list" where
  "erc4626Adapters = [
     (''fluid-lite'', ''Fluid Lite'', [(Ethereum, [vault ''0xa0d3707c569ff8c87fa923d3823ec5d81c98be78'' [] (yield_label ''iETHv2'')
        0xA0D3707c569ff8C87FA923d3823eC5D81c98Be78 16609585 (evm_token Ethereum 0xae7ab96520DE3A18E5e111B5EaAb095312D7fE84 ''stETH'' 18)])]),
     (''cap'', ''Cap'', [(Ethereum, [vault ''stcusd'' [] (yield_label ''stcUSD'')
        0x88887be419578051ff9f4eb6c858a951921d8888 22874057 (evm_token Ethereum 0xcccc62962d17b8914c62d74ffb843d73b2a3cccc ''cUSD'' 18)])]),
     (''ethena'', ''Ethena'', [(Ethereum, [vault ''susde:staked'' ''susde:cooldown'' ''Ethena sUSDe staked''
        0x9D39a5DE30e57443BfF2A8307A4256c8797A3497 18571359 (evm_token Ethereum 0x4c9EDD5852cd905f086C759E8383e09bff1E68B3 ''USDe'' 18),
        vault ''sena:staked'' ''sena:cooldown'' ''Ethena sENA staked''
        0x8bE3460A480c80728a8C4D7a5D5303c85ba7B3b9 20713442 (evm_token Ethereum 0x57e114B691Db790C35207b2e685D4A43181e6061 ''ENA'' 18)])]),
     (''usdd'', ''USDD'', [(Ethereum, [vault ''susdd'' [] (yield_label ''sUSDD'')
        0xC5d6A7B61d18AfA11435a889557b068BB9f29930 23275147 (evm_token Ethereum 0x4f8e5DE400DE08B164E7421B3EE387f461beCD1A ''USDD'' 18)]),
       (BSC, [vault ''susdd'' [] (yield_label ''sUSDD'')
        0x8bA9dA757d1D66c58b1ae7e2ED6c04087348A82d 63887220 (evm_token BSC 0x45E51bc23D592EB2DBA86da3985299f7895d66Ba ''USDD'' 18)])]),
     (''unitas'', ''Unitas'', [(BSC, [vault ''susdu:staked'' ''susdu:cooldown'' ''Unitas sUSDu staked''
        0x385c279445581a186a4182a5503094ebb652ec71 69059010 (evm_token BSC 0xea953ea6634d55dac6697c436b1e81a679db5882 ''USDu'' 18)])])]"

definition lstAdapters :: "(string \<times> string \<times> (chain_id \<times> convertedBalancePosition list) list) list" where
  "lstAdapters = [(''liquid-collective'', ''Liquid Collective'', [(Ethereum, [\<lparr>cb_id = ''lseth'', cb_label = yield_label ''LsETH'',
     cb_contract = 0x8c1BEd5b9a0928467c9B1341Da1D7BD5e10b6549, cb_converter = 0x8c1BEd5b9a0928467c9B1341Da1D7BD5e10b6549,
     cb_method = ''underlyingBalanceFromShares'', cb_token = evm_token Ethereum 0xC02aaA39b223FE8D0A0e5C4F27eAD9083C756Cc2 ''ETH'' 18,
     cb_activation = 15676402\<rparr>])])]"


section \<open>What the adapters report\<close>

text \<open>An integer the state answers, and what a vault, a receipt and a converted balance come to by the state's answers.\<close>

definition answered_int :: "(contract_call \<Rightarrow> abi_value list option) \<Rightarrow> contract_call \<Rightarrow> int \<Rightarrow> int" where
  "answered_int answer c j = (case answer c of None \<Rightarrow> 0 | Some row \<Rightarrow> (case BigIntAt row j of Inl e \<Rightarrow> 0 | Inr n \<Rightarrow> n))"

definition held_balance :: "(contract_call \<Rightarrow> abi_value list option) \<Rightarrow> address \<Rightarrow> address \<Rightarrow> int" where
  "held_balance answer account contract = answered_int answer (view_call contract ''balanceOf'' [AbiAddress account]) 0"

definition vault_report :: "(contract_call \<Rightarrow> abi_value list option) \<Rightarrow> address \<Rightarrow> vaultConfig \<Rightarrow> group list" where
  "vault_report answer account v =
     (let shares = held_balance answer account (vt_address v);
          amount = answered_int answer (view_call (vt_address v) ''convertToAssets'' [AbiInt (Some shares)]) 0;
          cooldown = view_call (vt_address v) ''cooldowns'' [AbiAddress account] in
      (if shares > 0 \<and> amount > 0 then [vault_group v shares amount] else [])
      @ (if vt_cooldown v \<noteq> [] \<and> answered_int answer cooldown 1 > 0
         then [cooldown_group v (answered_int answer cooldown 0) (answered_int answer cooldown 1)] else []))"

definition receipt_report :: "(contract_call \<Rightarrow> abi_value list option) \<Rightarrow> address \<Rightarrow> receiptPosition \<Rightarrow> group list" where
  "receipt_report answer account p = (let amount = held_balance answer account (tok_address (rc_receipt p)) in
     if amount = 0 then [] else [receipt_group p amount])"

definition converted_report :: "(contract_call \<Rightarrow> abi_value list option) \<Rightarrow> address \<Rightarrow> convertedBalancePosition \<Rightarrow> group list" where
  "converted_report answer account p =
     (let shares = held_balance answer account (cb_contract p);
          amount = (if cb_method p = [] then shares
            else answered_int answer (view_call (cb_converter p) (cb_method p) [AbiInt (Some shares)]) 0) in
      if shares = 0 then [] else [converted_group p shares amount])"

lemma answered_intI: "answer c = Some row \<Longrightarrow> BigIntAt row j = Inr n \<Longrightarrow> answered_int answer c j = n"
  by (simp add: answered_int_def)

context pinned_reads
begin

lemma call_int_state: "call_int label client contract meth args = Inr n \<Longrightarrow> answered_int answer (view_call contract meth args) 0 = n"
  by (drule call_int_answered) (auto intro: answered_intI)

lemma row_int_state:
  "client_calls client calls = Inr rows \<Longrightarrow> row_int label rows i j = Inr n \<Longrightarrow> answered_int answer (calls ! i) j = n"
  by (drule row_int_answered, assumption) (auto intro: answered_intI)

lemma vault_read:
  assumes "read_vault client account v = Inr groups"
  shows "groups = vault_report answer account v
    \<and> (\<exists>row. answer (view_call (vt_address v) ''asset'' []) = Some row \<and> AddressAt row 0 = Inr (tok_address (vt_asset v)))"
proof -
  obtain header where header: "client_calls client (vault_header account v) = Inr header"
      and asset: "row_address (vt_label v @ '' asset'') header 0 0 = Inr (tok_address (vt_asset v))"
      and rest: "bindR (row_int (vt_label v @ '' shares'') header 1 0) (\<lambda>shares. bindR (staked_groups client v shares) (\<lambda>staked.
       bindR (cooling_groups v header) (\<lambda>cooling. Inr (staked @ cooling)))) = Inr groups"
    using assms by (auto simp: read_vault_def bindR_Inr_iff liftE_Inr split: if_splits)
  obtain shares staked cooling where parts: "row_int (vt_label v @ '' shares'') header 1 0 = Inr shares"
      "staked_groups client v shares = Inr staked" "cooling_groups v header = Inr cooling" "groups = staked @ cooling"
    using rest by (auto simp: bindR_Inr_iff)
  have shares: "held_balance answer account (vt_address v) = shares"
    using row_int_state [OF header parts(1)] by (simp add: held_balance_def vault_header_def)
  have "staked = (if shares > 0 \<and> answered_int answer (view_call (vt_address v) ''convertToAssets'' [AbiInt (Some shares)]) 0 > 0
      then [vault_group v shares (answered_int answer (view_call (vt_address v) ''convertToAssets'' [AbiInt (Some shares)]) 0)] else [])"
    using parts(2) by (auto simp: staked_groups_def bindR_Inr_iff dest!: call_int_state split: if_splits)
  moreover have "cooling = (if vt_cooldown v \<noteq> [] \<and> answered_int answer (view_call (vt_address v) ''cooldowns'' [AbiAddress account]) 1 > 0
      then [cooldown_group v (answered_int answer (view_call (vt_address v) ''cooldowns'' [AbiAddress account]) 0)
        (answered_int answer (view_call (vt_address v) ''cooldowns'' [AbiAddress account]) 1)] else [])"
    using parts(3) by (auto simp: cooling_groups_def bindR_Inr_iff vault_header_def dest!: row_int_state [OF header] split: if_splits)
  ultimately show ?thesis
    using parts(4) row_address_answered [OF header asset] by (simp add: vault_report_def shares Let_def vault_header_def)
qed

lemma vaults_read:
  assumes "readVaultPositions client block account vaults = Inr groups"
  shows "groups = concat (map (vault_report answer account) (activeVaultsAt vaults (block_number block)))
    \<and> (\<forall>v \<in> set (activeVaultsAt vaults (block_number block)).
         \<exists>row. answer (view_call (vt_address v) ''asset'' []) = Some row \<and> AddressAt row 0 = Inr (tok_address (vt_asset v)))"
proof -
  obtain gs where gs: "list_all2 (\<lambda>v g. read_vault client account v = Inr g) (activeVaultsAt vaults (block_number block)) gs" "groups = concat gs"
    using assms by (auto simp: readVaultPositions_def bindR_Inr_iff mapR_Inr_iff)
  have "gs = map (vault_report answer account) (activeVaultsAt vaults (block_number block))"
    using gs(1) by (induction rule: list_all2_induct) (auto dest: vault_read)
  moreover have "\<forall>v \<in> set (activeVaultsAt vaults (block_number block)). \<exists>g. read_vault client account v = Inr g"
    using gs(1) by (induction rule: list_all2_induct) auto
  ultimately show ?thesis using gs(2) vault_read by blast
qed

lemma receipts_read:
  assumes "readReceiptPositions client block account positions = Inr groups"
  shows "groups = concat (map (receipt_report answer account) (filter (\<lambda>p. rc_activation p \<le> block_number block) positions))"
proof (cases "filter (\<lambda>p. rc_activation p \<le> block_number block) positions = []")
  case False
  define active where "active = filter (\<lambda>p. rc_activation p \<le> block_number block) positions"
  obtain rows gs where rows: "client_calls client (map (receipt_call account) active) = Inr rows"
      and gs: "list_all2 (\<lambda>pr g. receipt_row pr = Inr g) (zip active rows) gs" "groups = concat gs"
    using assms False by (auto simp: readReceiptPositions_def Let_def bindR_Inr_iff liftE_Inr mapR_Inr_iff active_def)
  note answered = calls_nth [OF rows]
  have "length gs = length active" using list_all2_lengthD [OF gs(1)] answered(1) by simp
  moreover have "gs ! i = receipt_report answer account (active ! i)" if i: "i < length active" for i
  proof -
    have "receipt_row (active ! i, rows ! i) = Inr (gs ! i)" using gs(1) i answered(1) by (auto simp: list_all2_conv_all_nth)
    moreover have "answer (receipt_call account (active ! i)) = Some (rows ! i)" using answered(2) i by simp
    ultimately show ?thesis
      by (auto simp: receipt_row_def receipt_report_def held_balance_def receipt_call_def bindR_Inr_iff liftE_Inr Let_def dest!: answered_intI)
  qed
  ultimately have "gs = map (receipt_report answer account) active" by (simp add: list_eq_iff_nth_eq)
  then show ?thesis using gs(2) by (simp add: active_def)
qed (use assms in \<open>simp add: readReceiptPositions_def\<close>)

lemma converted_read:
  assumes "readConvertedBalancePositions client block account positions = Inr groups"
  shows "groups = concat (map (converted_report answer account) (filter (\<lambda>p. cb_activation p \<le> block_number block) positions))"
proof -
  have one: "g = converted_report answer account p" if "read_converted client account p = Inr g" for p g
    using that by (auto simp: read_converted_def converted_report_def held_balance_def bindR_Inr_iff Let_def dest!: call_int_state split: if_splits)
  obtain gs where gs: "list_all2 (\<lambda>p g. read_converted client account p = Inr g) (filter (\<lambda>p. cb_activation p \<le> block_number block) positions) gs"
      "groups = concat gs"
    using assms by (auto simp: readConvertedBalancePositions_def bindR_Inr_iff mapR_Inr_iff)
  have "gs = map (converted_report answer account) (filter (\<lambda>p. cb_activation p \<le> block_number block) positions)"
    using gs(1) by (induction rule: list_all2_induct) (auto dest: one)
  then show ?thesis using gs(2) by simp
qed

end

section \<open>A claimed holding was read\<close>

text \<open>
  The wallet drops its holding of a contract a position claims (\<open>heldContracts\<close>); a group is justified
  when every contract it claims answered \<open>balanceOf\<close> with an amount.
\<close>

definition justified :: "(contract_call \<Rightarrow> abi_value list option) \<Rightarrow> address \<Rightarrow> group \<Rightarrow> bool" where
  "justified answer account g \<longleftrightarrow> (\<forall>c \<in> set (grp_components g). \<forall>k \<in> set (heldContracts (comp_source c)). held_balance answer account k \<noteq> 0)"

lemma heldContracts_read_of: "set (heldContracts (read_of contract meth)) \<subseteq> {contract}"
  by (simp add: heldContracts_def read_of_def)

lemma comp_source_updates [simp]:
  "comp_source (NewComponent kind tk amount src) = src" "comp_source (c\<lparr>comp_metadata := m\<rparr>) = comp_source c"
  by (simp_all add: NewComponent_def)

lemma plain_group_components [simp]: "grp_components (plain_group i market label cs m) = cs"
  by (simp add: plain_group_def)

lemma no_holding_claimed: "\<not> contains ''balanceOf'' meth \<Longrightarrow> heldContracts (read_of contract meth) = []"
  by (simp add: heldContracts_def read_of_def)

lemma vault_report_justified: "g \<in> set (vault_report answer account v) \<Longrightarrow> justified answer account g"
proof -
  have "\<not> contains ''balanceOf'' ''cooldowns.underlyingAmount''" by code_simp
  then have "heldContracts (read_of (vt_address v) ''cooldowns.underlyingAmount'') = []" by (rule no_holding_claimed)
  then show "g \<in> set (vault_report answer account v) \<Longrightarrow> justified answer account g"
    using heldContracts_read_of by (fastforce simp: vault_report_def justified_def vault_group_def cooldown_group_def Let_def split: if_splits)
qed

lemma receipt_report_justified: "g \<in> set (receipt_report answer account p) \<Longrightarrow> justified answer account g"
  using heldContracts_read_of by (fastforce simp: receipt_report_def justified_def receipt_group_def Let_def split: if_splits)

lemma converted_report_justified: "g \<in> set (converted_report answer account p) \<Longrightarrow> justified answer account g"
  using heldContracts_read_of by (fastforce simp: converted_report_def justified_def converted_group_def Let_def split: if_splits)
section \<open>What a served vault reports\<close>

text \<open>The answers a vault's report needs are there and decode, its asset the configured one.\<close>

definition answers_int :: "(contract_call \<Rightarrow> abi_value list option) \<Rightarrow> contract_call \<Rightarrow> int \<Rightarrow> bool" where
  "answers_int answer c j \<longleftrightarrow> (\<exists>row n. answer c = Some row \<and> BigIntAt row j = Inr n)"

definition vault_readable :: "(contract_call \<Rightarrow> abi_value list option) \<Rightarrow> address \<Rightarrow> vaultConfig \<Rightarrow> bool" where
  "vault_readable answer account v \<longleftrightarrow>
     (let shares = view_call (vt_address v) ''balanceOf'' [AbiAddress account]; cooldown = view_call (vt_address v) ''cooldowns'' [AbiAddress account];
          held = held_balance answer account (vt_address v) in
      (\<exists>row. answer (view_call (vt_address v) ''asset'' []) = Some row \<and> AddressAt row 0 = Inr (tok_address (vt_asset v)))
      \<and> answers_int answer shares 0
      \<and> (held \<le> 0 \<or> answers_int answer (view_call (vt_address v) ''convertToAssets'' [AbiInt (Some held)]) 0)
      \<and> (vt_cooldown v = [] \<or> answers_int answer cooldown 0 \<and> answers_int answer cooldown 1))"

lemma answers_intD: "answers_int answer c j \<Longrightarrow> \<exists>row. answer c = Some row \<and> BigIntAt row j = Inr (answered_int answer c j)"
  by (auto simp: answers_int_def answered_int_def)

context served_reads
begin

lemma row_int_served:
  "client_calls client calls = Inr (map (\<lambda>c. the (answer c)) calls) \<Longrightarrow> i < length calls \<Longrightarrow> answers_int answer (calls ! i) j
     \<Longrightarrow> row_int label (map (\<lambda>c. the (answer c)) calls) i j = Inr (answered_int answer (calls ! i) j)"
  by (drule answers_intD) (auto simp: row_int_def bindR_Inr_iff index_or_panic_Inr liftE_Inr)

lemma vault_served:
  assumes "vault_readable answer account v"
  shows "read_vault client account v = Inr (vault_report answer account v)"
proof -
  let ?held = "held_balance answer account (vt_address v)"
  let ?convert = "view_call (vt_address v) ''convertToAssets'' [AbiInt (Some ?held)]"
  let ?header = "map (\<lambda>c. the (answer c)) (vault_header account v)"
  obtain row where asset: "answer (view_call (vt_address v) ''asset'' []) = Some row" "AddressAt row 0 = Inr (tok_address (vt_asset v))"
    using assms by (auto simp: vault_readable_def Let_def)
  have shares: "answers_int answer (view_call (vt_address v) ''balanceOf'' [AbiAddress account]) 0"
    using assms by (simp add: vault_readable_def Let_def)
  have convert: "?held \<le> 0 \<or> answers_int answer ?convert 0" using assms by (simp add: vault_readable_def Let_def)
  have cooldown: "vt_cooldown v = [] \<or> answers_int answer (view_call (vt_address v) ''cooldowns'' [AbiAddress account]) 0
      \<and> answers_int answer (view_call (vt_address v) ''cooldowns'' [AbiAddress account]) 1"
    using assms by (simp add: vault_readable_def Let_def)
  have header: "client_calls client (vault_header account v) = Inr ?header"
    using asset(1) answers_intD [OF shares] cooldown by (intro calls_served) (auto simp: vault_header_def dest: answers_intD split: if_splits)
  have first: "row_address (vt_label v @ '' asset'') ?header 0 0 = Inr (tok_address (vt_asset v))"
    using asset by (simp add: row_address_def vault_header_def bindR_Inr_iff index_or_panic_Inr liftE_Inr)
  have second: "row_int (vt_label v @ '' shares'') ?header 1 0 = Inr ?held"
    using row_int_served [OF header, of 1 0] shares by (simp add: vault_header_def held_balance_def)
  have staked: "staked_groups client v ?held = Inr (if ?held > 0 \<and> answered_int answer ?convert 0 > 0
      then [vault_group v ?held (answered_int answer ?convert 0)] else [])"
  proof (cases "?held > 0")
    case True
    then obtain r where "answer ?convert = Some r" "BigIntAt r 0 = Inr (answered_int answer ?convert 0)"
      using convert answers_intD [of answer ?convert 0] by auto
    then show ?thesis using True by (simp add: staked_groups_def call_int_served)
  qed (simp add: staked_groups_def)
  have cooling: "cooling_groups v ?header = Inr (if vt_cooldown v \<noteq> []
        \<and> answered_int answer (view_call (vt_address v) ''cooldowns'' [AbiAddress account]) 1 > 0
      then [cooldown_group v (answered_int answer (view_call (vt_address v) ''cooldowns'' [AbiAddress account]) 0)
        (answered_int answer (view_call (vt_address v) ''cooldowns'' [AbiAddress account]) 1)] else [])"
    using row_int_served [OF header, of 2 0] row_int_served [OF header, of 2 1] cooldown
    by (auto simp: cooling_groups_def vault_header_def)
  show ?thesis
    unfolding read_vault_def header liftE_simps bindR_simps first second staked cooling by (simp add: vault_report_def Let_def)
qed

lemma vaults_served:
  assumes "\<And>v. v \<in> set (activeVaultsAt vaults (block_number block)) \<Longrightarrow> vault_readable answer account v"
  shows "readVaultPositions client block account vaults
    = Inr (concat (map (vault_report answer account) (activeVaultsAt vaults (block_number block))))"
proof -
  have "mapR (read_vault client account) (activeVaultsAt vaults (block_number block))
      = Inr (map (vault_report answer account) (activeVaultsAt vaults (block_number block)))"
    using assms vault_served by (simp add: mapR_Inr_iff list_all2_map2 list_all2_same)
  then show ?thesis by (simp add: readVaultPositions_def)
qed

end

end
