(* ===== verification/CompoundV3.thy ===== *)
theory CompoundV3
  imports Vaults
begin

text \<open>
  \<open>compound_v3.go\<close>: a Comet market is read in four rounds (its base token and number of collaterals,
  the collaterals, the account's balances, its reward), then the tokens of what it holds, and becomes
  one group of nonzero components. go-ethereum's \<open>ConvertType\<close> of the tuples is a parameter.
\<close>

section \<open>Data\<close>

record cometMarket =
  cm_window :: deploymentWindow
  cm_label :: string
  cm_comet :: address
  cm_rewards :: address
  cm_rewards_from :: u64

definition RewardsActiveAt :: "cometMarket \<Rightarrow> u64 \<Rightarrow> bool" where
  "RewardsActiveAt m block \<longleftrightarrow> cm_rewards m \<noteq> 0 \<and> cm_rewards_from m \<le> block"

definition activeMarkets :: "(chain_id \<times> cometMarket list) list \<Rightarrow> chain_id \<Rightarrow> u64 \<Rightarrow> cometMarket list" where
  "activeMarkets markets chain block = filter (\<lambda>m. deployment_ActiveAt (cm_window m) block) (chain_entries markets chain)"

text \<open>The asset of an asset info, the token of a reward configuration, and an owed reward; \<open>None\<close> where the
  value is not such a tuple. An owed amount may be nil.\<close>

record comet_decoders =
  asset_info :: "abi_value \<Rightarrow> address option"
  reward_config :: "abi_value \<Rightarrow> address option"
  reward_owed :: "abi_value \<Rightarrow> (address \<times> int option) option"

definition decodeCometAsset :: "comet_decoders \<Rightarrow> abi_value \<Rightarrow> address reading" where
  "decodeCometAsset dec v = (case asset_info dec v of None \<Rightarrow> Inl (Fail (Rejected ''unexpected Comet asset info type'')) | Some a \<Rightarrow> Inr a)"

definition decodeCometRewardConfig :: "string \<Rightarrow> comet_decoders \<Rightarrow> abi_value \<Rightarrow> address reading" where
  "decodeCometRewardConfig label dec v = (case reward_config dec v of
     None \<Rightarrow> Inl (Fail (Rejected (label @ '' reward config: unexpected Comet reward config type''))) | Some a \<Rightarrow> Inr a)"

definition decodeCometRewardOwed :: "string \<Rightarrow> comet_decoders \<Rightarrow> abi_value \<Rightarrow> (address \<times> int) reading" where
  "decodeCometRewardOwed label dec v = (case reward_owed dec v of Some (a, Some owed) \<Rightarrow> Inr (a, owed)
     | _ \<Rightarrow> Inl (Fail (Rejected (label @ '' reward owed: unexpected Comet reward owed type''))))"

section \<open>The rounds of a market\<close>

definition comet_header :: "cometMarket \<Rightarrow> contract_call list" where
  "comet_header m = [view_call (cm_comet m) ''baseToken'' [], view_call (cm_comet m) ''numAssets'' []]"

definition read_header :: "rpc_client \<Rightarrow> cometMarket \<Rightarrow> (address \<times> u8) reading" where
  "read_header client m =
     bindR (liftE (ReadFailed (cm_label m @ '' market metadata'')) (client_calls client (comet_header m))) (\<lambda>rows.
     bindR (row_address [] rows 0 0) (\<lambda>base.
     bindR (bindR (index_or_panic rows 1) (\<lambda>row. liftE (Undecodable []) (Uint8At row 0))) (\<lambda>assetCount.
     if assetCount > 32 then Inl (Fail (Rejected (cm_label m @ '' collateral count exceeds safety bound''))) else Inr (base, assetCount))))"

definition collateral_calls :: "cometMarket \<Rightarrow> u8 \<Rightarrow> contract_call list" where
  "collateral_calls m assetCount = map (\<lambda>i. view_call (cm_comet m) ''getAssetInfo'' [AbiU8 (of_nat i)]) [0..<unat assetCount]"

definition collateral_row :: "comet_decoders \<Rightarrow> cometMarket \<Rightarrow> abi_value list \<Rightarrow> address reading" where
  "collateral_row dec m row = (case row of [v] \<Rightarrow> decodeCometAsset dec v
     | _ \<Rightarrow> Inl (Fail (Rejected (cm_label m @ '' getAssetInfo returned other than one field''))))"

definition read_collaterals :: "comet_decoders \<Rightarrow> rpc_client \<Rightarrow> cometMarket \<Rightarrow> u8 \<Rightarrow> address list reading" where
  "read_collaterals dec client m assetCount =
     bindR (liftE (ReadFailed (cm_label m @ '' collateral metadata'')) (client_calls client (collateral_calls m assetCount)))
       (mapR (collateral_row dec m))"

definition balance_calls :: "cometMarket \<Rightarrow> address \<Rightarrow> address list \<Rightarrow> contract_call list" where
  "balance_calls m account collaterals =
     view_call (cm_comet m) ''balanceOf'' [AbiAddress account] # view_call (cm_comet m) ''borrowBalanceOf'' [AbiAddress account]
     # map (\<lambda>a. view_call (cm_comet m) ''collateralBalanceOf'' [AbiAddress account, AbiAddress a]) collaterals"

record comet_balances =
  cb_supply :: int
  cb_debt :: int
  cb_collaterals :: "(address \<times> int) list"

definition read_balances :: "rpc_client \<Rightarrow> cometMarket \<Rightarrow> address \<Rightarrow> address list \<Rightarrow> comet_balances reading" where
  "read_balances client m account collaterals =
     bindR (liftE (ReadFailed (cm_label m @ '' balances'')) (client_calls client (balance_calls m account collaterals))) (\<lambda>rows.
     bindR (row_int [] rows 0 0) (\<lambda>supply.
     bindR (row_int [] rows 1 0) (\<lambda>debt.
     bindR (mapR (\<lambda>i. row_int [] rows (i + 2) 0) [0..<length collaterals]) (\<lambda>amounts.
     Inr \<lparr>cb_supply = supply, cb_debt = debt, cb_collaterals = zip collaterals amounts\<rparr>))))"

definition reward_calls :: "cometMarket \<Rightarrow> address \<Rightarrow> contract_call list" where
  "reward_calls m account = [view_call (cm_rewards m) ''rewardConfig'' [AbiAddress (cm_comet m)],
     view_call (cm_rewards m) ''getRewardOwed'' [AbiAddress (cm_comet m), AbiAddress account]]"

definition only_field :: "string \<Rightarrow> abi_value list list \<Rightarrow> nat \<Rightarrow> abi_value reading" where
  "only_field label rows i = bindR (index_or_panic rows i) (\<lambda>row. case row of [v] \<Rightarrow> Inr v
     | _ \<Rightarrow> Inl (Fail (Rejected (label @ '' reward tuple shape changed''))))"

definition read_reward :: "comet_decoders \<Rightarrow> rpc_client \<Rightarrow> block_ref \<Rightarrow> cometMarket \<Rightarrow> address \<Rightarrow> (address \<times> int) reading" where
  "read_reward dec client block m account = (if \<not> RewardsActiveAt m (block_number block) then Inr (0, 0)
     else bindR (liftE (ReadFailed (cm_label m @ '' rewards'')) (client_calls client (reward_calls m account))) (\<lambda>rows.
       bindR (only_field (cm_label m) rows 0) (\<lambda>config.
       bindR (only_field (cm_label m) rows 1) (\<lambda>owed.
       bindR (decodeCometRewardConfig (cm_label m) dec config) (\<lambda>configToken.
       if configToken = 0 then Inr (0, 0)
       else bindR (decodeCometRewardOwed (cm_label m) dec owed) (\<lambda>(token, amount).
         if amount > 0 \<and> token = 0 then Inl (Fail (Rejected (cm_label m @ '' reward owed returned zero token'')))
         else if amount > 0 \<and> token \<noteq> configToken then Inl (Fail (Rejected (cm_label m @ '' reward token changed'')))
         else Inr (token, amount)))))))"

section \<open>The group of a market\<close>

definition comet_tokens :: "address \<Rightarrow> comet_balances \<Rightarrow> address \<times> int \<Rightarrow> address list" where
  "comet_tokens base b reward = (if cb_supply b > 0 \<or> cb_debt b > 0 then [base] else [])
     @ map fst (filter (\<lambda>(a, amount). amount > 0) (cb_collaterals b)) @ (if snd reward > 0 then [fst reward] else [])"

text \<open>The tokens read, and a lookup in them: a missing entry is the zero token.\<close>

definition token_in :: "(address \<times> token) list \<Rightarrow> address \<Rightarrow> token" where
  "token_in tokens a = (case map_of tokens a of Some t \<Rightarrow> t
     | None \<Rightarrow> \<lparr>tok_chain = 0, tok_address = 0, tok_symbol = [], tok_decimals = 0\<rparr>)"

definition comet_component :: "(address \<Rightarrow> token) \<Rightarrow> address \<Rightarrow> string \<Rightarrow> string \<Rightarrow> string \<Rightarrow> address \<Rightarrow> int \<Rightarrow> component" where
  "comet_component tk contract kind meth role a amount = (NewComponent kind (tk a) amount (read_of contract meth))
     \<lparr>comp_metadata := [(''role'', MetaString role)]\<rparr>"

definition comet_components :: "(address \<Rightarrow> token) \<Rightarrow> cometMarket \<Rightarrow> address \<Rightarrow> comet_balances \<Rightarrow> address \<times> int \<Rightarrow> component list" where
  "comet_components tk m base b reward =
     (if cb_supply b > 0 then [comet_component tk (cm_comet m) ''asset'' ''balanceOf'' ''base-supply'' base (cb_supply b)] else [])
     @ (if cb_debt b > 0 then [comet_component tk (cm_comet m) ''debt'' ''borrowBalanceOf'' ''base-borrow'' base (cb_debt b)] else [])
     @ map (\<lambda>(a, amount). comet_component tk (cm_comet m) ''asset'' ''collateralBalanceOf'' ''collateral'' a amount)
         (filter (\<lambda>(a, amount). amount \<noteq> 0) (cb_collaterals b))
     @ (if snd reward > 0 then [comet_component tk (cm_rewards m) ''reward'' ''getRewardOwed'' ''market-reward'' (fst reward) (snd reward)] else [])"

definition comet_group :: "cometMarket \<Rightarrow> component list \<Rightarrow> group" where
  "comet_group m cs = (plain_group (hex_fixed 40 (unat (cm_comet m))) [] (cm_label m @ '' market'') cs [(''comet'', MetaAddress (cm_comet m))])
     \<lparr>grp_policy := ''floor-zero''\<rparr>"

definition has_position :: "comet_balances \<Rightarrow> address \<times> int \<Rightarrow> bool" where
  "has_position b reward \<longleftrightarrow> cb_supply b > 0 \<or> cb_debt b > 0 \<or> list_ex (\<lambda>(a, amount). amount > 0) (cb_collaterals b) \<or> snd reward > 0"

definition read_comet :: "(abi_error \<Rightarrow> string) \<Rightarrow> comet_decoders \<Rightarrow> rpc_client \<Rightarrow> block_ref \<Rightarrow> address \<Rightarrow> cometMarket \<Rightarrow> group list reading" where
  "read_comet abi_text dec client block account m =
     bindR (read_header client m) (\<lambda>(base, assetCount).
     bindR (read_collaterals dec client m assetCount) (\<lambda>collaterals.
     bindR (read_balances client m account collaterals) (\<lambda>b.
     bindR (read_reward dec client block m account) (\<lambda>reward.
     if \<not> has_position b reward then Inr []
     else bindR (mapR (\<lambda>a. liftE (ReadFailed (cm_label m @ '' token'')) (client_readToken abi_text client block a)) (comet_tokens base b reward)) (\<lambda>tokens.
       let cs = comet_components (token_in (zip (comet_tokens base b reward) tokens)) m base b reward in
       Inr (if cs \<noteq> [] then [comet_group m cs] else []))))))"

definition CompoundV3_Positions :: "(abi_error \<Rightarrow> string) \<Rightarrow> comet_decoders \<Rightarrow> (chain_id \<times> cometMarket list) list \<Rightarrow> rpc_client \<Rightarrow> block_ref
    \<Rightarrow> address \<Rightarrow> group list reading" where
  "CompoundV3_Positions abi_text dec markets client block account =
     bindR (mapR (read_comet abi_text dec client block account) (activeMarkets markets (block_chain block) (block_number block)))
       (\<lambda>gs. Inr (concat gs))"

section \<open>The markets\<close>

definition comet :: "string \<Rightarrow> address \<Rightarrow> address \<Rightarrow> u64 \<Rightarrow> u64 \<Rightarrow> cometMarket" where
  "comet label a rewards activation rewards_from = \<lparr>cm_window = \<lparr>ActivationBlock = activation, DeactivationBlock = 0\<rparr>,
     cm_label = label, cm_comet = a, cm_rewards = rewards, cm_rewards_from = rewards_from\<rparr>"

definition ethereumRewards :: address where "ethereumRewards = 0x1B0e765F6224C21223AeA2af16c1C46E38885a40"
definition baseRewards :: address where "baseRewards = 0x123964802e6ABabBE1Bc9547D72Ef1B69B00A6b1"
definition arbitrumRewards :: address where "arbitrumRewards = 0x88730d254A2f7e6AC8388c3198aFd694bA9f7fae"
definition polygonRewards :: address where "polygonRewards = 0x45939657d1CA34A8FA39A924B71D28Fe8431e581"
definition optimismRewards :: address where "optimismRewards = 0x443EA0340cb75a160F31A440722dec7b5bc3C2E9"

definition compoundV3Markets :: "(chain_id \<times> cometMarket list) list" where
  "compoundV3Markets = [
     (Ethereum, [
        comet ''USDC'' 0xc3d688B66703497DAA19211EEdff47f25384cdc3 ethereumRewards 15331586 15331591,
        comet ''USDS'' 0x5D409e56D886231aDAf00c8775665AD0f9897b56 ethereumRewards 20987551 15331591,
        comet ''USDT'' 0x3Afdc9BCA9213A35503b077a6072F3D0d5AB0840 ethereumRewards 20190637 15331591,
        comet ''WBTC'' 0xe85Dc543813B8c2CFEaAc371517b925a166a9293 ethereumRewards 21820087 15331591,
        comet ''WETH'' 0xA17581A9E3356d9A858b789D68B4d866e593aE94 ethereumRewards 16400710 15331591,
        comet ''wstETH'' 0x3D0bb1ccaB520A66e607822fC55BC921738fAFE3 ethereumRewards 20683535 15331591]),
     (Base, [
        comet ''AERO'' 0x784efeB622244d2348d4F2522f8860B96fbEcE89 baseRewards 20852405 2197596,
        comet ''USDbC'' 0x9c4ec768c28520B50860ea7a15bd7213a9fF58bf baseRewards 2197588 2197596,
        comet ''USDC'' 0xb125E6687d4313864e53df431d5425969c15Eb2F baseRewards 11699480 2197596,
        comet ''USDS'' 0x2c776041CCFe903071AF44aa147368a9c8EEA518 baseRewards 26046502 2197596,
        comet ''WETH'' 0x46e6b214b524310239732D51387075E0e70970bf baseRewards 2495303 2197596]),
     (Arbitrum, [
        comet ''USDC.e'' 0xA5EDBDD9646f8dFF606d7448e414884C7d905dCA arbitrumRewards 87335214 87335253,
        comet ''USDC'' 0x9c4ec768c28520B50860ea7a15bd7213a9fF58bf arbitrumRewards 122080500 87335253,
        comet ''USDT'' 0xd98Be00b5D27fc98112BdE293e487f8D4cA57d07 arbitrumRewards 223796350 87335253,
        comet ''WETH'' 0x6f7D514bbD4aFf3BcD1140B7344b32f063dEe486 arbitrumRewards 219386101 87335253]),
     (Polygon, [
        comet ''USDC.e'' 0xF25212E676D1F7F89Cd72fFEe66158f541246445 polygonRewards 39412367 39413527,
        comet ''USDT'' 0xaeB318360f27748Acb200CE616E389A6C9409a07 polygonRewards 58479907 58793297]),
     (Optimism, [
        comet ''USDC'' 0x2e44e174f7D53F0212823acC11C01A11d58c5bCB optimismRewards 118406276 118840983,
        comet ''USDT'' 0x995E394b8B2437aC8Ce61Ee0bC610D617962B214 optimismRewards 120295564 121727936,
        comet ''WETH'' 0xE36A30D249f7761327fd973001A32010b521b6Fd optimismRewards 122730232 123072627])]"

section \<open>What a market reports\<close>

text \<open>The market by the answers of the block's state: collaterals, balances, reward.\<close>

definition answered :: "(contract_call \<Rightarrow> abi_value list option) \<Rightarrow> (abi_value list \<Rightarrow> abi_error + 'a) \<Rightarrow> 'a \<Rightarrow> contract_call \<Rightarrow> 'a" where
  "answered answer decode missing c = (case answer c of None \<Rightarrow> missing | Some row \<Rightarrow> (case decode row of Inl e \<Rightarrow> missing | Inr a \<Rightarrow> a))"

definition state_collaterals :: "(contract_call \<Rightarrow> abi_value list option) \<Rightarrow> comet_decoders \<Rightarrow> cometMarket \<Rightarrow> address list" where
  "state_collaterals answer dec m = map (\<lambda>c. case answer c of Some [v] \<Rightarrow> (case asset_info dec v of None \<Rightarrow> 0 | Some a \<Rightarrow> a) | _ \<Rightarrow> 0)
     (collateral_calls m (answered answer (\<lambda>row. Uint8At row 0) 0 (view_call (cm_comet m) ''numAssets'' [])))"

definition state_balances :: "(contract_call \<Rightarrow> abi_value list option) \<Rightarrow> comet_decoders \<Rightarrow> cometMarket \<Rightarrow> address \<Rightarrow> comet_balances" where
  "state_balances answer dec m account =
     \<lparr>cb_supply = held_balance answer account (cm_comet m),
      cb_debt = answered_int answer (view_call (cm_comet m) ''borrowBalanceOf'' [AbiAddress account]) 0,
      cb_collaterals = map (\<lambda>a. (a, answered_int answer (view_call (cm_comet m) ''collateralBalanceOf'' [AbiAddress account, AbiAddress a]) 0))
        (state_collaterals answer dec m)\<rparr>"

definition state_reward :: "(contract_call \<Rightarrow> abi_value list option) \<Rightarrow> comet_decoders \<Rightarrow> cometMarket \<Rightarrow> address \<Rightarrow> u64 \<Rightarrow> address \<times> int" where
  "state_reward answer dec m account block = (if \<not> RewardsActiveAt m block then (0, 0)
     else case (answer (reward_calls m account ! 0), answer (reward_calls m account ! 1)) of
       (Some [config], Some [owed]) \<Rightarrow> (case (reward_config dec config, reward_owed dec owed) of
           (Some token, Some (owed_token, Some amount)) \<Rightarrow> if token = 0 then (0, 0) else (owed_token, amount) | _ \<Rightarrow> (0, 0))
     | _ \<Rightarrow> (0, 0))"

definition state_base :: "(contract_call \<Rightarrow> abi_value list option) \<Rightarrow> cometMarket \<Rightarrow> address" where
  "state_base answer m = answered answer (\<lambda>row. AddressAt row 0) 0 (view_call (cm_comet m) ''baseToken'' [])"

definition token_read :: "(address \<Rightarrow> rpc_error + token) \<Rightarrow> address list \<Rightarrow> address \<Rightarrow> token" where
  "token_read read_token needed = token_in (map (\<lambda>a. (a, projr (read_token a))) needed)"

definition comet_state_report :: "(contract_call \<Rightarrow> abi_value list option) \<Rightarrow> (address \<Rightarrow> rpc_error + token) \<Rightarrow> comet_decoders \<Rightarrow> block_ref \<Rightarrow> address
    \<Rightarrow> cometMarket \<Rightarrow> group list" where
  "comet_state_report answer read_token dec block account m =
     (let b = state_balances answer dec m account; reward = state_reward answer dec m account (block_number block); base = state_base answer m in
      if has_position b reward then [comet_group m (comet_components (token_read read_token (comet_tokens base b reward)) m base b reward)] else [])"

lemma comet_components_some:
  assumes "has_position b reward"
  shows "comet_components tk m base b reward \<noteq> []"
proof (cases "list_ex (\<lambda>(a, amount). amount > 0) (cb_collaterals b)")
  case True
  then obtain c where "c \<in> set (cb_collaterals b)" "snd c > 0" by (auto simp: list_ex_iff)
  then have "c \<in> set (filter (\<lambda>(a, amount). amount \<noteq> 0) (cb_collaterals b))" by (auto simp: case_prod_beta)
  then have "filter (\<lambda>(a, amount). amount \<noteq> 0) (cb_collaterals b) \<noteq> []" by (metis list.set(1) empty_iff)
  then show ?thesis by (simp only: comet_components_def append_is_Nil_conv map_is_Nil_conv simp_thms)
qed (use assms in \<open>auto simp: has_position_def comet_components_def\<close>)

lemma collateral_row_Inr: "collateral_row dec m row = Inr a \<longleftrightarrow> (\<exists>v. row = [v] \<and> asset_info dec v = Some a)"
  by (auto simp: collateral_row_def decodeCometAsset_def split: list.splits option.splits)

lemma only_field_Inr: "only_field label rows i = Inr v \<longleftrightarrow> i < length rows \<and> rows ! i = [v]"
  by (auto simp: only_field_def bindR_Inr_iff index_or_panic_Inr split: list.splits)

lemma mapR_all: "mapR f xs = Inr ys \<Longrightarrow> ys = map (\<lambda>x. projr (f x)) xs"
proof -
  assume "mapR f xs = Inr ys"
  then have "list_all2 (\<lambda>x y. f x = Inr y) xs ys" by (simp add: mapR_Inr_iff)
  then show ?thesis by (induction rule: list_all2_induct) auto
qed

context pinned_reads
begin

lemma header_read:
  assumes "read_header client m = Inr (base, n)"
  shows "base = state_base answer m \<and> n = answered answer (\<lambda>row. Uint8At row 0) 0 (view_call (cm_comet m) ''numAssets'' []) \<and> n \<le> 32"
proof -
  obtain rows where rows: "client_calls client (comet_header m) = Inr rows" "row_address [] rows 0 0 = Inr base"
      "1 < length rows" "Uint8At (rows ! 1) 0 = Inr n" "n \<le> 32"
    using assms by (auto simp: read_header_def bindR_Inr_iff liftE_Inr index_or_panic_Inr split: if_splits)
  have "answer (view_call (cm_comet m) ''numAssets'' []) = Some (rows ! 1)"
    using calls_nth(2) [OF rows(1), of 1] by (simp add: comet_header_def)
  then show ?thesis using row_address_answered [OF rows(1,2)] rows(4,5) by (auto simp: state_base_def answered_def comet_header_def)
qed

lemma collaterals_read:
  assumes "read_collaterals dec client m n = Inr collaterals" "n = answered answer (\<lambda>row. Uint8At row 0) 0 (view_call (cm_comet m) ''numAssets'' [])"
  shows "collaterals = state_collaterals answer dec m"
proof -
  obtain rows where rows: "client_calls client (collateral_calls m n) = Inr rows" "list_all2 (\<lambda>row a. collateral_row dec m row = Inr a) rows collaterals"
    using assms(1) by (auto simp: read_collaterals_def bindR_Inr_iff liftE_Inr mapR_Inr_iff)
  have "list_all2 (\<lambda>c a. \<exists>row. answer c = Some row \<and> collateral_row dec m row = Inr a) (collateral_calls m n) collaterals"
    by (rule list_all2_trans [OF _ calls_answered [OF rows(1)] rows(2)]) blast
  then have "collaterals = map (\<lambda>c. case answer c of Some [v] \<Rightarrow> (case asset_info dec v of None \<Rightarrow> 0 | Some a \<Rightarrow> a) | _ \<Rightarrow> 0) (collateral_calls m n)"
    by (induction rule: list_all2_induct) (auto simp: collateral_row_Inr)
  then show ?thesis by (simp add: state_collaterals_def assms(2))
qed

lemma balances_read:
  assumes "read_balances client m account (state_collaterals answer dec m) = Inr b"
  shows "b = state_balances answer dec m account"
proof -
  let ?cs = "state_collaterals answer dec m"
  obtain rows held debt amounts where rows: "client_calls client (balance_calls m account ?cs) = Inr rows"
      and parts: "row_int [] rows 0 0 = Inr held" "row_int [] rows 1 0 = Inr debt"
        "list_all2 (\<lambda>i amount. row_int [] rows (i + 2) 0 = Inr amount) [0..<length ?cs] amounts"
        "b = \<lparr>cb_supply = held, cb_debt = debt, cb_collaterals = zip ?cs amounts\<rparr>"
    using assms by (auto simp: read_balances_def bindR_Inr_iff liftE_Inr mapR_Inr_iff)
  have len: "length amounts = length ?cs" using list_all2_lengthD [OF parts(3)] by simp
  have "amounts ! i = answered_int answer (view_call (cm_comet m) ''collateralBalanceOf'' [AbiAddress account, AbiAddress (?cs ! i)]) 0"
    if "i < length ?cs" for i
  proof -
    have "row_int [] rows (i + 2) 0 = Inr (amounts ! i)" using parts(3) that by (auto simp: list_all2_conv_all_nth)
    from row_int_state [OF rows this] that show ?thesis by (simp add: balance_calls_def)
  qed
  then have "zip ?cs amounts = map (\<lambda>a. (a, answered_int answer (view_call (cm_comet m) ''collateralBalanceOf'' [AbiAddress account, AbiAddress a]) 0)) ?cs"
    using len by (simp add: list_eq_iff_nth_eq)
  then show ?thesis
    using row_int_state [OF rows parts(1)] row_int_state [OF rows parts(2)] parts(4)
    by (simp add: state_balances_def held_balance_def balance_calls_def)
qed

lemma reward_read:
  assumes "read_reward dec client block m account = Inr reward"
  shows "reward = state_reward answer dec m account (block_number block)"
proof (cases "RewardsActiveAt m (block_number block)")
  case True
  obtain rows config owed where rows: "client_calls client (reward_calls m account) = Inr rows"
      and fields: "rows ! 0 = [config]" "rows ! 1 = [owed]"
      and rest: "bindR (decodeCometRewardConfig (cm_label m) dec config) (\<lambda>configToken. if configToken = 0 then Inr (0, 0)
       else bindR (decodeCometRewardOwed (cm_label m) dec owed) (\<lambda>(token, amount).
         if amount > 0 \<and> token = 0 then Inl (Fail (Rejected (cm_label m @ '' reward owed returned zero token'')))
         else if amount > 0 \<and> token \<noteq> configToken then Inl (Fail (Rejected (cm_label m @ '' reward token changed'')))
         else Inr (token, amount))) = Inr reward"
    using assms True
    by (auto simp: read_reward_def only_field_Inr bindR_Inr_iff liftE_Inr)
  have answers: "answer (reward_calls m account ! 0) = Some [config]" "answer (reward_calls m account ! 1) = Some [owed]"
    using calls_nth(2) [OF rows, of 0] calls_nth(2) [OF rows, of 1] fields by (simp_all add: reward_calls_def)
  show ?thesis
    using rest unfolding state_reward_def answers option.case list.case prod.case
    by (auto simp: True bindR_Inr_iff decodeCometRewardConfig_def decodeCometRewardOwed_def split: option.splits if_splits)
qed (use assms in \<open>simp add: read_reward_def state_reward_def\<close>)

lemma comet_state_read:
  assumes "read_comet abi_text dec client block account m = Inr groups"
  shows "groups = comet_state_report answer (client_readToken abi_text client block) dec block account m"
proof -
  obtain base n where header: "read_header client m = Inr (base, n)"
      and after: "bindR (read_collaterals dec client m n) (\<lambda>collaterals.
     bindR (read_balances client m account collaterals) (\<lambda>b.
     bindR (read_reward dec client block m account) (\<lambda>reward.
     if \<not> has_position b reward then Inr []
     else bindR (mapR (\<lambda>a. liftE (ReadFailed (cm_label m @ '' token'')) (client_readToken abi_text client block a)) (comet_tokens base b reward)) (\<lambda>tokens.
       let cs = comet_components (token_in (zip (comet_tokens base b reward) tokens)) m base b reward in
       Inr (if cs \<noteq> [] then [comet_group m cs] else []))))) = Inr groups"
    using assms unfolding read_comet_def bindR_Inr_iff [of "read_header client m"] by force
  note head = header_read [OF header]
  obtain collaterals b reward where parts: "read_collaterals dec client m n = Inr collaterals" "read_balances client m account collaterals = Inr b"
      "read_reward dec client block m account = Inr reward"
    using after by (auto simp only: bindR_Inr_iff)
  have cs: "collaterals = state_collaterals answer dec m" using collaterals_read [OF parts(1)] head by blast
  have b: "b = state_balances answer dec m account" using balances_read [OF parts(2) [unfolded cs]] .
  have reward: "reward = state_reward answer dec m account (block_number block)" using reward_read [OF parts(3)] .
  have base: "base = state_base answer m" using head by blast
  show ?thesis
  proof (cases "has_position b reward")
    case True
    let ?read = "\<lambda>a. liftE (ReadFailed (cm_label m @ '' token'')) (client_readToken abi_text client block a)"
    obtain tokens where tokens: "mapR ?read (comet_tokens base b reward) = Inr tokens"
        "groups = [comet_group m (comet_components (token_in (zip (comet_tokens base b reward) tokens)) m base b reward)]"
      using after True unfolding parts bindR_simps Let_def by (auto simp: bindR_Inr_iff comet_components_some [OF True])
    have "list_all2 (\<lambda>a t. ?read a = Inr t) (comet_tokens base b reward) tokens" using tokens(1) by (simp only: mapR_Inr_iff)
    then have "zip (comet_tokens base b reward) tokens = map (\<lambda>a. (a, projr (client_readToken abi_text client block a))) (comet_tokens base b reward)"
      by (induction rule: list_all2_induct) (auto simp: liftE_Inr)
    then show ?thesis
      using tokens(2) True comet_components_some [OF True]
      unfolding comet_state_report_def Let_def b [symmetric] reward [symmetric] base [symmetric] token_read_def by simp
  next
    case False
    then have "groups = []" using after unfolding parts bindR_simps by simp
    then show ?thesis using False unfolding comet_state_report_def Let_def b [symmetric] reward [symmetric] by simp
  qed
qed

lemma comets_read:
  assumes "CompoundV3_Positions abi_text dec markets client block account = Inr groups"
  shows "groups = concat (map (comet_state_report answer (client_readToken abi_text client block) dec block account)
    (activeMarkets markets (block_chain block) (block_number block)))"
proof -
  let ?active = "activeMarkets markets (block_chain block) (block_number block)"
  obtain gs where gs: "list_all2 (\<lambda>m g. read_comet abi_text dec client block account m = Inr g) ?active gs" "groups = concat gs"
    using assms by (auto simp: CompoundV3_Positions_def bindR_Inr_iff mapR_Inr_iff)
  have "gs = map (comet_state_report answer (client_readToken abi_text client block) dec block account) ?active"
    using gs(1) by (induction rule: list_all2_induct) (auto dest: comet_state_read)
  then show ?thesis using gs(2) by simp
qed

end

lemma comet_state_report_justified: "g \<in> set (comet_state_report answer read_token dec block account m) \<Longrightarrow> justified answer account g"
proof -
  have methods: "\<not> contains ''balanceOf'' ''borrowBalanceOf''" "\<not> contains ''balanceOf'' ''collateralBalanceOf''" "\<not> contains ''balanceOf'' ''getRewardOwed''"
    by code_simp+
  have none: "heldContracts (read_of c ''borrowBalanceOf'') = []" "heldContracts (read_of c ''collateralBalanceOf'') = []"
      "heldContracts (read_of c ''getRewardOwed'') = []" for c
    using methods by (simp_all add: no_holding_claimed)
  have src: "comp_source (comet_component tk contract kind meth role a amount) = read_of contract meth" for tk contract kind meth role a amount
    by (simp add: comet_component_def)
  have comps: "held_balance answer account k \<noteq> 0"
    if c: "c \<in> set (comet_components tk m base (state_balances answer dec m account) reward)" and k: "k \<in> set (heldContracts (comp_source c))" for tk base reward c k
  proof -
    have "cb_supply (state_balances answer dec m account) > 0 \<and> comp_source c = read_of (cm_comet m) ''balanceOf''"
      using c k by (auto simp: comet_components_def src none split: if_splits)
    then show ?thesis using k heldContracts_read_of by (fastforce simp: state_balances_def)
  qed
  show "g \<in> set (comet_state_report answer read_token dec block account m) \<Longrightarrow> justified answer account g"
    using comps by (auto simp: comet_state_report_def justified_def Let_def comet_group_def split: if_splits)
qed

lemma comp_source_group_policy [simp]: "grp_components (g\<lparr>grp_policy := p\<rparr>) = grp_components g"
  by simp

end
