(* ===== verification/CompoundV2.thy ===== *)
theory CompoundV2
  imports CompoundV3
begin

text \<open>
  \<open>compound_v2.go\<close>: a lending group from one batch over every market of the comptroller, staking modules,
  distributor staking with its bounded discovery of reward tokens, and the two kinds of protocol rewards.
  go-ethereum's \<open>ConvertType\<close> of tuples is a parameter. A distributor's failures are partial: they are
  answered beside the groups.
\<close>

section \<open>Data\<close>

record compoundStakingModule =
  sm_module :: address
  sm_rewards :: bool
  sm_window :: availabilityWindow

record compoundDistributorStakingModule =
  dm_module :: address
  dm_window :: availabilityWindow

record compoundV2Deployment =
  cd_comptroller :: address
  cd_comptroller_window :: availabilityWindow
  cd_native :: token
  cd_native_markets :: "address list"
  cd_lens :: address
  cd_lens_window :: availabilityWindow
  cd_reward :: token
  cd_multi :: address
  cd_multi_window :: availabilityWindow
  cd_staking :: "compoundStakingModule list"
  cd_distributors :: "compoundDistributorStakingModule list"

text \<open>
  What \<open>ConvertType\<close> makes of a value, \<open>None\<close> where it is no such value: a list of addresses, the allocated amount of
  reward metadata, which may be nil, and the rows of outstanding rewards.
\<close>

record compound_decoders =
  address_list :: "abi_value \<Rightarrow> address list option"
  reward_allocated :: "abi_value \<Rightarrow> int option option"
  outstanding_rewards :: "abi_value \<Rightarrow> (address \<times> (address \<times> int option) list) list option"

definition compoundV2ExchangeRateDenominator :: string where
  "compoundV2ExchangeRateDenominator = ''1000000000000000000''"

section \<open>The lending group\<close>

definition compoundV2SupplyComponent :: "token \<Rightarrow> int \<Rightarrow> address \<Rightarrow> component" where
  "compoundV2SupplyComponent tk numerator market =
     (NewComponent ''asset'' tk numerator (read_of market ''balanceOf*exchangeRateStored/1e18''))
       \<lparr>comp_denominator := compoundV2ExchangeRateDenominator\<rparr>"

definition market_calls :: "compoundV2Deployment \<Rightarrow> address \<Rightarrow> address \<Rightarrow> contract_call list" where
  "market_calls d account market = [view_call market ''balanceOf'' [AbiAddress account], view_call market ''exchangeRateStored'' [],
     view_call market ''borrowBalanceStored'' [AbiAddress account]]
     @ (if market \<in> set (cd_native_markets d) then [] else [view_call market ''underlying'' []])"

text \<open>The loop over the markets, with the index of the next result.\<close>

record market_amounts =
  ma_market :: address
  ma_supply :: int
  ma_debt :: int
  ma_underlying :: "address option"

definition market_at :: "compoundV2Deployment \<Rightarrow> abi_value list list \<Rightarrow> nat \<Rightarrow> address \<Rightarrow> (market_amounts \<times> nat) reading" where
  "market_at d rows i market =
     bindR (row_int ''shares'' rows i 0) (\<lambda>shares.
     bindR (row_int ''exchange rate'' rows (i + 1) 0) (\<lambda>exchangeRate.
     bindR (row_int ''debt'' rows (i + 2) 0) (\<lambda>debt.
     if market \<in> set (cd_native_markets d)
     then Inr (\<lparr>ma_market = market, ma_supply = shares * exchangeRate, ma_debt = debt, ma_underlying = None\<rparr>, i + 3)
     else bindR (row_address ''underlying'' rows (i + 3) 0) (\<lambda>underlying.
       Inr (\<lparr>ma_market = market, ma_supply = shares * exchangeRate, ma_debt = debt, ma_underlying = Some underlying\<rparr>, i + 4)))))"

definition market_components :: "(abi_error \<Rightarrow> string) \<Rightarrow> rpc_client \<Rightarrow> block_ref \<Rightarrow> compoundV2Deployment \<Rightarrow> market_amounts \<Rightarrow> component list reading" where
  "market_components abi_text client block d m = (if ma_supply m = 0 \<and> ma_debt m = 0 then Inr []
     else bindR (case ma_underlying m of None \<Rightarrow> Inr (cd_native d)
         | Some a \<Rightarrow> liftE (ReadFailed ''metadata'') (client_readToken abi_text client block a)) (\<lambda>tk.
       Inr ((if ma_supply m > 0 then [compoundV2SupplyComponent tk (ma_supply m) (ma_market m)] else [])
         @ (if ma_debt m > 0 then [NewComponent ''debt'' tk (ma_debt m) (read_of (ma_market m) ''borrowBalanceStored'')] else []))))"

fun market_loop :: "(abi_error \<Rightarrow> string) \<Rightarrow> rpc_client \<Rightarrow> block_ref \<Rightarrow> compoundV2Deployment \<Rightarrow> abi_value list list \<Rightarrow> nat \<Rightarrow> address list
    \<Rightarrow> component list reading" where
  "market_loop abi_text client block d rows i [] = Inr []"
| "market_loop abi_text client block d rows i (market # markets) =
     bindR (market_at d rows i market) (\<lambda>(amounts, j).
     bindR (market_components abi_text client block d amounts) (\<lambda>cs.
     bindR (market_loop abi_text client block d rows j markets) (\<lambda>rest. Inr (cs @ rest))))"

definition lending_group :: "compoundV2Deployment \<Rightarrow> component list \<Rightarrow> group list" where
  "lending_group d cs = (if cs = [] then [] else [(plain_group ''lending'' [] ''Lending'' cs
     [(''comptroller'', MetaAddress (cd_comptroller d))])\<lparr>grp_policy := ''floor-zero''\<rparr>])"

definition compoundV2MarketGroup :: "(abi_error \<Rightarrow> string) \<Rightarrow> rpc_client \<Rightarrow> block_ref \<Rightarrow> compoundV2Deployment \<Rightarrow> address \<Rightarrow> address list
    \<Rightarrow> group list reading" where
  "compoundV2MarketGroup abi_text client block d account markets =
     (if length markets > 512 then Inl (Fail (Rejected ''market count exceeds safety bound''))
      else bindR (liftE (ReadFailed ''read markets'') (client_calls client (concat (map (market_calls d account) markets)))) (\<lambda>rows.
        bindR (market_loop abi_text client block d rows 0 markets) (\<lambda>cs. Inr (lending_group d cs))))"

section \<open>Staking modules\<close>

definition call_address :: "string \<Rightarrow> rpc_client \<Rightarrow> address \<Rightarrow> string \<Rightarrow> address reading" where
  "call_address label client contract meth =
     bindR (liftE (ReadFailed label) (client_call client contract meth [])) (\<lambda>row. liftE (Undecodable label) (AddressAt row 0))"

definition token_component :: "(abi_error \<Rightarrow> string) \<Rightarrow> rpc_client \<Rightarrow> block_ref \<Rightarrow> string \<Rightarrow> address \<Rightarrow> string \<Rightarrow> string \<Rightarrow> int \<Rightarrow> component list reading" where
  "token_component abi_text client block kind contract getter meth amount = (if amount > 0
     then bindR (call_address getter client contract getter) (\<lambda>a.
       bindR (liftE (ReadFailed (getter @ '' metadata'')) (client_readToken abi_text client block a)) (\<lambda>tk.
       Inr [NewComponent kind tk amount (read_of contract meth)]))
     else Inr [])"

definition staking_group :: "(address \<Rightarrow> string) \<Rightarrow> (abi_error \<Rightarrow> string) \<Rightarrow> rpc_client \<Rightarrow> block_ref \<Rightarrow> address \<Rightarrow> compoundStakingModule
    \<Rightarrow> group list reading" where
  "staking_group addr_hex abi_text client block account m =
     bindR (call_int ''balance'' client (sm_module m) ''balanceOf'' [AbiAddress account]) (\<lambda>staked.
     bindR (if sm_rewards m then call_int ''rewards'' client (sm_module m) ''getTotalRewardsBalance'' [AbiAddress account] else Inr 0) (\<lambda>reward.
     if staked = 0 \<and> reward = 0 then Inr []
     else bindR (token_component abi_text client block ''asset'' (sm_module m) ''STAKED_TOKEN'' ''balanceOf'' staked) (\<lambda>held.
       bindR (token_component abi_text client block ''reward'' (sm_module m) ''REWARD_TOKEN'' ''getTotalRewardsBalance'' reward) (\<lambda>owed.
       Inr [plain_group (''staking:'' @ addr_hex (sm_module m)) [] ''Staked'' (held @ owed) [(''module'', MetaAddress (sm_module m))]]))))"

definition compoundStakingGroups :: "(address \<Rightarrow> string) \<Rightarrow> (abi_error \<Rightarrow> string) \<Rightarrow> rpc_client \<Rightarrow> block_ref \<Rightarrow> compoundStakingModule list \<Rightarrow> address
    \<Rightarrow> group list reading" where
  "compoundStakingGroups addr_hex abi_text client block modules account =
     bindR (mapR (staking_group addr_hex abi_text client block account) (filter (\<lambda>m. window_ActiveAt (sm_window m) (block_number block)) modules))
       (\<lambda>gs. Inr (concat gs))"

section \<open>Distributor staking\<close>

definition compoundDistributorRewardProbeSize :: nat where "compoundDistributorRewardProbeSize = 8"
definition compoundDistributorMaxRewards :: nat where "compoundDistributorMaxRewards = 64"

text \<open>The rows of one probe from an index: whether they end the discovery, and the tokens so far.\<close>

fun reward_rows :: "nat \<Rightarrow> call_result list \<Rightarrow> address list \<Rightarrow> bool \<times> address list" where
  "reward_rows index [] tokens = (False, tokens)"
| "reward_rows index (Inl e # rows) tokens = (True, tokens)"
| "reward_rows index (Inr vs # rows) tokens = (case AddressAt vs 0 of
       Inl e \<Rightarrow> reward_rows (Suc index) rows tokens
     | Inr a \<Rightarrow> if index = 0 \<or> a = 0 then reward_rows (Suc index) rows tokens
         else if length tokens = compoundDistributorMaxRewards then (True, tokens)
         else if a \<in> set tokens then reward_rows (Suc index) rows tokens
         else reward_rows (Suc index) rows (tokens @ [a]))"

definition probe_starts :: "nat list" where
  "probe_starts = map (\<lambda>k. k * compoundDistributorRewardProbeSize)
     [0..<(compoundDistributorMaxRewards + 1) div compoundDistributorRewardProbeSize + 1]"

definition probe_indices :: "nat \<Rightarrow> nat list" where
  "probe_indices start = [start..<min (start + compoundDistributorRewardProbeSize) (compoundDistributorMaxRewards + 2)]"

definition probe_calls :: "address \<Rightarrow> nat \<Rightarrow> contract_call list" where
  "probe_calls distributor start = map (\<lambda>i. view_call distributor ''tokens'' [AbiInt (Some (int i))]) (probe_indices start)"

fun probe_loop :: "rpc_client \<Rightarrow> address \<Rightarrow> nat list \<Rightarrow> address list \<Rightarrow> address list reading" where
  "probe_loop client distributor [] tokens = Inr tokens"
| "probe_loop client distributor (start # starts) tokens =
     bindR (liftE (ReadFailed ''enumerate reward tokens'') (client_tolerant client (probe_calls distributor start))) (\<lambda>rows.
       case reward_rows start rows tokens of (ended, tokens') \<Rightarrow> if ended then Inr tokens' else probe_loop client distributor starts tokens')"

definition compoundDistributorRewardTokens :: "rpc_client \<Rightarrow> address \<Rightarrow> address list reading" where
  "compoundDistributorRewardTokens client distributor = probe_loop client distributor probe_starts []"

text \<open>\<open>readCachedToken\<close>: the tokens read before, and the answer.\<close>

type_synonym token_cache = "(address \<times> token) list"

definition readCachedToken :: "(abi_error \<Rightarrow> string) \<Rightarrow> rpc_client \<Rightarrow> block_ref \<Rightarrow> token_cache \<Rightarrow> address \<Rightarrow> token_cache \<times> (rpc_error + token)" where
  "readCachedToken abi_text client block cache a = (case map_of cache a of Some t \<Rightarrow> (cache, Inr t)
     | None \<Rightarrow> (case client_readToken abi_text client block a of Inl e \<Rightarrow> (cache, Inl e) | Inr t \<Rightarrow> ((a, t) # cache, Inr t)))"

text \<open>The claimable rewards: a row that failed, does not decode, is not positive or whose token cannot be read is left out.\<close>

fun claimable :: "(abi_error \<Rightarrow> string) \<Rightarrow> rpc_client \<Rightarrow> block_ref \<Rightarrow> address \<Rightarrow> token_cache \<Rightarrow> (address \<times> call_result) list \<Rightarrow> token_cache \<times> component list" where
  "claimable abi_text client block contract cache [] = (cache, [])"
| "claimable abi_text client block contract cache ((a, row) # rows) =
     (case bindR row (\<lambda>vs. case BigIntAt vs 0 of Inl e \<Rightarrow> Inl (plain_error []) | Inr n \<Rightarrow> Inr n) of
        Inl e \<Rightarrow> claimable abi_text client block contract cache rows
      | Inr amount \<Rightarrow> if amount \<le> 0 then claimable abi_text client block contract cache rows
          else (case readCachedToken abi_text client block cache a of
              (cache', Inl e) \<Rightarrow> claimable abi_text client block contract cache' rows
            | (cache', Inr tk) \<Rightarrow> (case claimable abi_text client block contract cache' rows of
                (cache'', cs) \<Rightarrow> (cache'', NewComponent ''reward'' tk amount (read_of contract ''getClaimable'') # cs))))"

text \<open>The staked token of a positive principal.\<close>

definition sonne_component :: "(abi_error \<Rightarrow> string) \<Rightarrow> rpc_client \<Rightarrow> block_ref \<Rightarrow> address \<Rightarrow> token_cache \<Rightarrow> int \<Rightarrow> int \<Rightarrow> int
    \<Rightarrow> token_cache \<times> component list reading" where
  "sonne_component abi_text client block contract cache staked pending release = (if staked + pending > 0
     then (case call_address ''staked token'' client contract ''sonne'' of Inl e \<Rightarrow> (cache, Inl e)
       | Inr a \<Rightarrow> if a = 0 then (cache, Inl (Fail (Rejected ''staked token is the zero address'')))
           else (case readCachedToken abi_text client block cache a of
               (cache', Inl e) \<Rightarrow> (cache', Inl (Fail (ReadFailed ''staked token metadata'' e)))
             | (cache', Inr tk) \<Rightarrow> (cache', Inr [(NewComponent ''asset'' tk (staked + pending) (read_of contract ''balanceOf+withdrawal''))
                 \<lparr>comp_metadata := [(''stakedAmountRaw'', MetaString (show_int staked)),
                   (''pendingWithdrawalAmountRaw'', MetaString (show_int pending)), (''withdrawalReleaseTime'', MetaString (show_int release))]\<rparr>])))
     else (cache, Inr []))"

text \<open>A module: its group if any and what failed of it. \<open>Inl\<close> is a failure of its principal, which leaves out the group.\<close>

definition principal_read :: "rpc_client \<Rightarrow> address \<Rightarrow> address \<Rightarrow> (int \<times> int \<times> int) reading" where
  "principal_read client contract account =
     bindR (liftE (ReadFailed ''principal'') (client_calls client
       [view_call contract ''balanceOf'' [AbiAddress account], view_call contract ''withdrawal'' [AbiAddress account]])) (\<lambda>rows.
     bindR (row_int ''balance'' rows 0 0) (\<lambda>staked.
     bindR (row_int ''pending withdrawal'' rows 1 0) (\<lambda>pending.
     bindR (row_int ''withdrawal release time'' rows 1 1) (\<lambda>release. Inr (staked, pending, release)))))"

definition reward_discovery :: "rpc_client \<Rightarrow> address \<Rightarrow> address \<Rightarrow> (address \<times> call_result) list \<times> position_error fault list" where
  "reward_discovery client contract account =
     (let (tokens, errs) = (case compoundDistributorRewardTokens client contract of Inl e \<Rightarrow> ([], [e]) | Inr ts \<Rightarrow> (ts, [])) in
      case client_tolerant client (map (\<lambda>a. view_call contract ''getClaimable'' [AbiAddress a, AbiAddress account]) tokens) of
        Inl e \<Rightarrow> ([], errs @ [Fail (ReadFailed ''claimable rewards'' e)])
      | Inr rows \<Rightarrow> (zip tokens rows, errs))"

definition compoundDistributorStakingGroup :: "(address \<Rightarrow> string) \<Rightarrow> (abi_error \<Rightarrow> string) \<Rightarrow> rpc_client \<Rightarrow> block_ref \<Rightarrow> address \<Rightarrow> address
    \<Rightarrow> token_cache \<Rightarrow> token_cache \<times> group list \<times> position_error fault list" where
  "compoundDistributorStakingGroup addr_hex abi_text client block contract account cache = (case principal_read client contract account of
       Inl e \<Rightarrow> (cache, [], [e])
     | Inr (staked, pending, release) \<Rightarrow> (case reward_discovery client contract account of (rewards, errs) \<Rightarrow>
         (case sonne_component abi_text client block contract cache staked pending release of
            (cache', Inl e) \<Rightarrow> (cache', [], [e])
          | (cache', Inr held) \<Rightarrow> (case claimable abi_text client block contract cache' rewards of (cache'', owed) \<Rightarrow>
              (cache'', if held @ owed = [] then []
                else [plain_group (''staking:'' @ ToLower (addr_hex contract)) [] ''Staked'' (held @ owed) [(''module'', MetaAddress contract)]], errs)))))"

fun distributor_loop :: "(address \<Rightarrow> string) \<Rightarrow> (abi_error \<Rightarrow> string) \<Rightarrow> rpc_client \<Rightarrow> block_ref \<Rightarrow> address \<Rightarrow> token_cache \<Rightarrow> address list
    \<Rightarrow> group list \<times> position_error fault list" where
  "distributor_loop addr_hex abi_text client block account cache [] = ([], [])"
| "distributor_loop addr_hex abi_text client block account cache (contract # modules) =
     (case compoundDistributorStakingGroup addr_hex abi_text client block contract account cache of (cache', gs, errs) \<Rightarrow>
       (case distributor_loop addr_hex abi_text client block account cache' modules of (gs', errs') \<Rightarrow> (gs @ gs', errs @ errs')))"

definition compoundDistributorStakingGroups :: "(address \<Rightarrow> string) \<Rightarrow> (abi_error \<Rightarrow> string) \<Rightarrow> rpc_client \<Rightarrow> block_ref
    \<Rightarrow> compoundDistributorStakingModule list \<Rightarrow> address \<Rightarrow> group list \<times> position_error fault list" where
  "compoundDistributorStakingGroups addr_hex abi_text client block modules account = (if account = 0 then ([], [])
     else distributor_loop addr_hex abi_text client block account []
       (map dm_module (filter (\<lambda>m. window_ActiveAt (dm_window m) (block_number block)) modules)))"

section \<open>Protocol rewards\<close>

definition lens_group :: "compound_decoders \<Rightarrow> rpc_client \<Rightarrow> block_ref \<Rightarrow> compoundV2Deployment \<Rightarrow> address \<Rightarrow> group list reading" where
  "lens_group dec client block d account =
     (if account \<noteq> 0 \<and> cd_lens d \<noteq> 0 \<and> window_ActiveAt (cd_lens_window d) (block_number block)
      then bindR (liftE (ReadFailed ''rewards'') (client_call client (cd_lens d) ''getCompBalanceMetadataExt''
          [AbiAddress (tok_address (cd_reward d)), AbiAddress (cd_comptroller d), AbiAddress account])) (\<lambda>row.
        bindR (index_or_panic row 0) (\<lambda>v. case reward_allocated dec v of
            Some (Some allocated) \<Rightarrow> Inr (if allocated > 0 then [plain_group ''rewards'' [] ''Rewards''
              [NewComponent ''reward'' (cd_reward d) allocated (read_of (cd_lens d) ''getCompBalanceMetadataExt'')] []] else [])
          | _ \<Rightarrow> Inl (Fail (Rejected ''unexpected reward metadata type''))))
      else Inr [])"

definition add_total :: "(address \<times> int) list \<Rightarrow> address \<times> int option \<Rightarrow> (address \<times> int) list" where
  "add_total totals reward = (case snd reward of None \<Rightarrow> totals
     | Some amount \<Rightarrow> if amount \<le> 0 then totals
         else AList.update (fst reward) ((case map_of totals (fst reward) of None \<Rightarrow> 0 | Some n \<Rightarrow> n) + amount) totals)"

definition reward_totals :: "(address \<times> (address \<times> int option) list) list \<Rightarrow> (address \<times> int) list" where
  "reward_totals rows = foldl add_total [] (concat (map snd rows))"

definition compoundMultiRewardGroup :: "(address \<Rightarrow> string) \<Rightarrow> (abi_error \<Rightarrow> string) \<Rightarrow> compound_decoders \<Rightarrow> rpc_client \<Rightarrow> block_ref \<Rightarrow> address \<Rightarrow> address
    \<Rightarrow> group list reading" where
  "compoundMultiRewardGroup addr_hex abi_text dec client block distributor account =
     bindR (liftE (ReadFailed ''multi rewards'') (client_call client distributor ''getOutstandingRewardsForUser'' [AbiAddress account])) (\<lambda>row.
     case row of [v] \<Rightarrow> (case outstanding_rewards dec v of
         None \<Rightarrow> Inl (Fail (Rejected ''unexpected outstanding rewards type''))
       | Some rows \<Rightarrow> (let totals = reward_totals rows in
           bindR (mapR (\<lambda>a. bindR (liftE (ReadFailed ''reward metadata'') (client_readToken abi_text client block a)) (\<lambda>tk.
               Inr (NewComponent ''reward'' tk (the (map_of totals a)) (read_of distributor ''getOutstandingRewardsForUser''))))
             (sort_key addr_hex (map fst totals))) (\<lambda>cs.
             Inr (if cs = [] then [] else [plain_group ''rewards'' [] ''Rewards'' cs [(''distributor'', MetaAddress distributor)]]))))
     | _ \<Rightarrow> Inl (Fail (Rejected ''getOutstandingRewardsForUser returned other than one field'')))"

section \<open>\<open>Positions\<close>\<close>

definition lending_part :: "(abi_error \<Rightarrow> string) \<Rightarrow> compound_decoders \<Rightarrow> rpc_client \<Rightarrow> block_ref \<Rightarrow> compoundV2Deployment \<Rightarrow> address \<Rightarrow> group list reading" where
  "lending_part abi_text dec client block d account = (if window_ActiveAt (cd_comptroller_window d) (block_number block)
     then bindR (liftE (ReadFailed ''enumerate markets'') (client_call client (cd_comptroller d) ''getAllMarkets'' [])) (\<lambda>row.
       case row of [v] \<Rightarrow> bindR (decodeAddresses (address_list dec) v) (compoundV2MarketGroup abi_text client block d account)
       | _ \<Rightarrow> Inl (Fail (Rejected ''getAllMarkets returned other than one field'')))
     else Inr [])"

text \<open>Groups and the errors beside them; \<open>Inl\<close> is a nil slice and an error.\<close>

definition CompoundV2_Positions :: "(address \<Rightarrow> string) \<Rightarrow> (abi_error \<Rightarrow> string) \<Rightarrow> compound_decoders \<Rightarrow> (chain_id \<times> compoundV2Deployment) list
    \<Rightarrow> rpc_client \<Rightarrow> block_ref \<Rightarrow> address \<Rightarrow> (group list \<times> position_error fault list) reading" where
  "CompoundV2_Positions addr_hex abi_text dec deployments client block account = (case map_of deployments (block_chain block) of
       None \<Rightarrow> Inr ([], [])
     | Some d \<Rightarrow>
         bindR (lending_part abi_text dec client block d account) (\<lambda>lending.
         bindR (compoundStakingGroups addr_hex abi_text client block (cd_staking d) account) (\<lambda>staking.
         case compoundDistributorStakingGroups addr_hex abi_text client block (cd_distributors d) account of (distributor, errs) \<Rightarrow>
           if errs \<noteq> [] then Inr (lending @ staking @ distributor, errs)
           else bindR (lens_group dec client block d account) (\<lambda>lens.
             bindR (if cd_multi d \<noteq> 0 \<and> window_ActiveAt (cd_multi_window d) (block_number block)
               then compoundMultiRewardGroup addr_hex abi_text dec client block (cd_multi d) account else Inr []) (\<lambda>multi.
             Inr (lending @ staking @ distributor @ lens @ multi, []))))))"

section \<open>The adapters\<close>

text \<open>A window of a table: \<open>availableFrom\<close> panics at block 0 alone, which no table names. The zero window is never active.\<close>

definition no_window :: availabilityWindow where
  "no_window = \<lparr>window_bounds = \<lparr>ActivationBlock = 0, DeactivationBlock = 0\<rparr>, configured = False\<rparr>"

definition window_from :: "u64 \<Rightarrow> availabilityWindow" where
  "window_from n = (case availableFrom n of None \<Rightarrow> no_window | Some w \<Rightarrow> w)"

definition comptroller_only :: "chain_id \<Rightarrow> address \<Rightarrow> u64 \<Rightarrow> address \<Rightarrow> string \<Rightarrow> address list \<Rightarrow> compoundV2Deployment" where
  "comptroller_only chain comptroller activation native symbol markets =
     \<lparr>cd_comptroller = comptroller, cd_comptroller_window = window_from activation, cd_native = evm_token chain native symbol 18,
      cd_native_markets = markets, cd_lens = 0, cd_lens_window = no_window, cd_reward = evm_token 0 0 [] 0,
      cd_multi = 0, cd_multi_window = no_window, cd_staking = [], cd_distributors = []\<rparr>"

definition compoundV2Adapters :: "(string \<times> string \<times> (chain_id \<times> compoundV2Deployment) list) list" where
  "compoundV2Adapters = [
     (''compound-v2'', ''Compound v2'', [(Ethereum, (comptroller_only Ethereum 0x3d9819210A31b4961b30EF54bE2aeD79B9c9Cd3B 10271924
          0xC02aaA39b223FE8D0A0e5C4F27eAD9083C756Cc2 ''ETH'' [0x4Ddc2D193948926D02f9B1fE9e1daa0718270ED5])
        \<lparr>cd_lens := 0xdCbDb7306c6Ff46f77B349188dC18cEd9DF30299, cd_lens_window := window_from 13468648,
         cd_reward := evm_token Ethereum 0xc00e94Cb662C3520282E6f5717214004A7f26888 ''COMP'' 18\<rparr>)]),
     (''moonwell'', ''Moonwell'', [
        (Base, (comptroller_only Base 0xfBb21d0380beE3312B33c4353c8936a0F13EF26C 2162402
          0x4200000000000000000000000000000000000006 ''WETH'' [])
        \<lparr>cd_multi := 0xe9005b078701e2A0948D2EaC43010D35870Ad9d2, cd_multi_window := window_from 2162417,
         cd_staking := [\<lparr>sm_module = 0xe66e3a37c3274ac24fe8590f7d84a2427194dc17, sm_rewards = False, sm_window = window_from 12187715\<rparr>]\<rparr>),
        (Optimism, (comptroller_only Optimism 0xCa889f40aae37FFf165BccF69aeF1E82b5C511B9 122531304
          0x4200000000000000000000000000000000000006 ''WETH'' [])
        \<lparr>cd_multi := 0xF9524bfa18C19C3E605FbfE8DFd05C6e967574Aa, cd_multi_window := window_from 122531322\<rparr>)]),
     (''flux-finance'', ''Flux Finance'', [(Ethereum, comptroller_only Ethereum 0x95Af143a021DF745bc78e845b54591C53a8B3A51 16520940
          0xC02aaA39b223FE8D0A0e5C4F27eAD9083C756Cc2 ''ETH'' [])]),
     (''sonne'', ''Sonne'', [
        (Base, comptroller_only Base 0x1DB2466d9F5e10D7090E7152B68d62703a2245F0 2492954
          0x4200000000000000000000000000000000000006 ''WETH'' []),
        (Optimism, (comptroller_only Optimism 0x60CF091cD3f50420d50fD7f707414d0DF4751C58 26050163
          0x4200000000000000000000000000000000000006 ''WETH'' [])
        \<lparr>cd_distributors := [\<lparr>dm_module = 0xdc05d85069dc4aba65954008ff99f2d73ff12618, dm_window = window_from 25840175\<rparr>,
          \<lparr>dm_module = 0x41279e29586eb20f9a4f65e031af09fced171166, dm_window = window_from 25840274\<rparr>]\<rparr>)]),
     (''lodestar'', ''Lodestar'', [(Arbitrum, comptroller_only Arbitrum 0xa86DD95c210dd186Fa7639F93E4177E97d057576 111013008
          0x82aF49447D8a07e3bd95BD0d56f35241523fBab1 ''ETH'' [0x2193c45244AF12C280941281c8aa67dD08be0a64])])]"

section \<open>What the markets report\<close>

text \<open>A market by the answers of the block's state.\<close>

definition market_report :: "(contract_call \<Rightarrow> abi_value list option) \<Rightarrow> (address \<Rightarrow> rpc_error + token) \<Rightarrow> compoundV2Deployment \<Rightarrow> address
    \<Rightarrow> address \<Rightarrow> component list" where
  "market_report answer read_token d account market =
     (let supplied = held_balance answer account market * answered_int answer (view_call market ''exchangeRateStored'' []) 0;
          debt = answered_int answer (view_call market ''borrowBalanceStored'' [AbiAddress account]) 0;
          tk = (if market \<in> set (cd_native_markets d) then cd_native d
            else projr (read_token (answered answer (\<lambda>row. AddressAt row 0) 0 (view_call market ''underlying'' [])))) in
      (if supplied > 0 then [compoundV2SupplyComponent tk supplied market] else [])
      @ (if debt > 0 then [NewComponent ''debt'' tk debt (read_of market ''borrowBalanceStored'')] else []))"

text \<open>What the market at a position of the batch was read as.\<close>

context pinned_reads
begin

lemma market_at_read:
  assumes rows: "client_calls client (pre @ market_calls d account market @ post) = Inr rows"
    and at_row: "market_at d rows (length pre) market = Inr (amounts, j)"
  shows "ma_market amounts = market \<and> j = length (pre @ market_calls d account market)
    \<and> ma_supply amounts = held_balance answer account market * answered_int answer (view_call market ''exchangeRateStored'' []) 0
    \<and> ma_debt amounts = answered_int answer (view_call market ''borrowBalanceStored'' [AbiAddress account]) 0
    \<and> ma_underlying amounts = (if market \<in> set (cd_native_markets d) then None
        else Some (answered answer (\<lambda>row. AddressAt row 0) 0 (view_call market ''underlying'' [])))"
proof -
  note ints = row_int_state [OF rows] and addr = row_address_answered [OF rows]
  obtain shares rate debt where reads: "row_int ''shares'' rows (length pre) 0 = Inr shares"
      "row_int ''exchange rate'' rows (length pre + 1) 0 = Inr rate" "row_int ''debt'' rows (length pre + 2) 0 = Inr debt"
    using at_row by (auto simp: market_at_def bindR_Inr_iff)
  have sums: "shares = held_balance answer account market" "rate = answered_int answer (view_call market ''exchangeRateStored'' []) 0"
      "debt = answered_int answer (view_call market ''borrowBalanceStored'' [AbiAddress account]) 0"
    using ints [OF reads(1)] ints [OF reads(2)] ints [OF reads(3)] by (auto simp: nth_append market_calls_def held_balance_def)
  show ?thesis
  proof (cases "market \<in> set (cd_native_markets d)")
    case True
    then show ?thesis using at_row reads by (auto simp: market_at_def market_calls_def sums)
  next
    case False
    then obtain u where u: "row_address ''underlying'' rows (length pre + 3) 0 = Inr u"
        "amounts = \<lparr>ma_market = market, ma_supply = shares * rate, ma_debt = debt, ma_underlying = Some u\<rparr>" "j = length pre + 4"
      using at_row reads by (auto simp: market_at_def bindR_Inr_iff)
    then show ?thesis using addr [OF u(1)] False by (auto simp: nth_append market_calls_def answered_def sums)
  qed
qed

lemma market_components_read:
  assumes "market_components abi_text client block d amounts = Inr cs"
    and "client_calls client (pre @ market_calls d account market @ post) = Inr rows" "market_at d rows (length pre) market = Inr (amounts, j)"
  shows "cs = market_report answer (client_readToken abi_text client block) d account market"
proof -
  note amounts = market_at_read [OF assms(2,3)]
  show ?thesis
  proof (cases "ma_supply amounts = 0 \<and> ma_debt amounts = 0")
    case True
    then show ?thesis using assms(1) amounts by (auto simp: market_components_def market_report_def Let_def)
  next
    case False
    then show ?thesis using assms(1) amounts
      by (auto simp: market_components_def market_report_def bindR_Inr_iff liftE_Inr Let_def split: option.splits if_splits)
  qed
qed

lemma market_loop_read:
  assumes "client_calls client (pre @ concat (map (market_calls d account) markets)) = Inr rows"
    and "market_loop abi_text client block d rows (length pre) markets = Inr cs"
  shows "cs = concat (map (market_report answer (client_readToken abi_text client block) d account) markets)"
  using assms
proof (induction markets arbitrary: pre cs)
  case (Cons market markets)
  have calls: "client_calls client (pre @ market_calls d account market @ concat (map (market_calls d account) markets)) = Inr rows"
    using Cons.prems(1) by simp
  obtain amounts j own rest where steps: "market_at d rows (length pre) market = Inr (amounts, j)"
      "market_components abi_text client block d amounts = Inr own" "market_loop abi_text client block d rows j markets = Inr rest" "cs = own @ rest"
    using Cons.prems(2) by (auto simp: bindR_Inr_iff)
  have "j = length (pre @ market_calls d account market)" using market_at_read [OF calls steps(1)] by simp
  then show ?case
    using Cons.IH [of "pre @ market_calls d account market" rest] calls steps market_components_read [OF steps(2) calls steps(1)] by simp
qed simp

lemma lending_read:
  assumes "compoundV2MarketGroup abi_text client block d account markets = Inr groups"
  shows "length markets \<le> 512
    \<and> groups = lending_group d (concat (map (market_report answer (client_readToken abi_text client block) d account) markets))"
  using assms market_loop_read [of "[]" d account markets]
  by (auto simp: compoundV2MarketGroup_def bindR_Inr_iff liftE_Inr split: if_splits)

end

section \<open>Rewards\<close>

text \<open>
  The discovery keeps nonzero tokens, each once and at most 64, that the distributor answered at an index
  between 1 and 65; and nothing is summed twice or lost in the totals of outstanding rewards.
\<close>

definition tokens_bounded :: "address list \<Rightarrow> bool" where
  "tokens_bounded ts \<longleftrightarrow> distinct ts \<and> 0 \<notin> set ts \<and> length ts \<le> compoundDistributorMaxRewards"

text \<open>A row at a nonzero index answers the token.\<close>

definition token_row :: "nat \<Rightarrow> call_result list \<Rightarrow> address \<Rightarrow> bool" where
  "token_row i rows a \<longleftrightarrow> (\<exists>k < length rows. 0 < i + k \<and> (\<exists>vs. rows ! k = Inr vs \<and> AddressAt vs 0 = Inr a))"

lemma token_row_here: "0 < i \<Longrightarrow> AddressAt vs 0 = Inr a \<Longrightarrow> token_row i (Inr vs # rows) a"
  unfolding token_row_def by (rule exI [of _ 0]) simp

lemma token_row_later: "token_row (Suc i) rows a \<Longrightarrow> token_row i (r # rows) a"
proof -
  assume "token_row (Suc i) rows a"
  then obtain k vs where "k < length rows" "rows ! k = Inr vs" "AddressAt vs 0 = Inr a" by (auto simp: token_row_def)
  then show ?thesis unfolding token_row_def by (intro exI [of _ "Suc k"]) simp
qed

lemma reward_rows_sound:
  assumes "reward_rows i rows ts = (ended, ts')" "tokens_bounded ts"
  shows "tokens_bounded ts' \<and> (\<forall>a \<in> set ts' - set ts. token_row i rows a)"
  using assms
proof (induction i rows ts rule: reward_rows.induct)
  case (3 i vs rows ts)
  show ?case
  proof (cases "AddressAt vs 0")
    case (Inl e)
    then show ?thesis using 3 token_row_later by simp
  next
    case (Inr a)
    consider (skip) "i = 0 \<or> a = 0 \<or> a \<in> set ts \<and> length ts \<noteq> compoundDistributorMaxRewards"
      | (full) "i \<noteq> 0" "a \<noteq> 0" "length ts = compoundDistributorMaxRewards"
      | (new) "i \<noteq> 0" "a \<noteq> 0" "a \<notin> set ts" "length ts \<noteq> compoundDistributorMaxRewards" by blast
    then show ?thesis
    proof cases
      case skip
      then have "reward_rows (Suc i) rows ts = (ended, ts')" using 3(5) Inr by (auto split: if_splits)
      then have "tokens_bounded ts' \<and> (\<forall>b \<in> set ts' - set ts. token_row (Suc i) rows b)" using 3 Inr skip by (cases "i = 0 \<or> a = 0") simp_all
      then show ?thesis using token_row_later by blast
    next
      case full
      then show ?thesis using 3 Inr by simp
    next
      case new
      then have "tokens_bounded (ts @ [a])" using 3(6) by (auto simp: tokens_bounded_def)
      then have "tokens_bounded ts' \<and> (\<forall>b \<in> set ts' - set (ts @ [a]). token_row (Suc i) rows b)" using 3 Inr new by simp
      then show ?thesis using token_row_here [of i vs a rows] token_row_later new(1) Inr by fastforce
    qed
  qed
qed auto

lemma probe_indices_nth:
  assumes "k < length (probe_indices start)"
  shows "probe_indices start ! k = start + k" "start + k < compoundDistributorMaxRewards + 2"
proof -
  have below: "start + k < min (start + compoundDistributorRewardProbeSize) (compoundDistributorMaxRewards + 2)"
    using assms unfolding probe_indices_def length_upt by linarith
  then show "probe_indices start ! k = start + k" unfolding probe_indices_def by (rule nth_upt)
  show "start + k < compoundDistributorMaxRewards + 2" using below by linarith
qed

context pinned_reads
begin

lemma probe_rows_answered:
  assumes "client_tolerant client (probe_calls distributor start) = Inr rows" "reward_rows start rows ts = (ended, ts')" "tokens_bounded ts"
  shows "tokens_bounded ts' \<and> (\<forall>a \<in> set ts' - set ts. \<exists>i. 0 < i \<and> i < compoundDistributorMaxRewards + 2
    \<and> answered answer (\<lambda>row. AddressAt row 0) 0 (view_call distributor ''tokens'' [AbiInt (Some (int i))]) = a)"
proof -
  note results = tolerant_answered [OF assms(1)] and sound = reward_rows_sound [OF assms(2,3)]
  have len: "length rows = length (probe_indices start)" using list_all2_lengthD [OF results] by (simp add: probe_calls_def)
  have "\<exists>i. 0 < i \<and> i < compoundDistributorMaxRewards + 2
      \<and> answered answer (\<lambda>row. AddressAt row 0) 0 (view_call distributor ''tokens'' [AbiInt (Some (int i))]) = a"
    if "a \<in> set ts' - set ts" for a
  proof -
    have "token_row start rows a" using bspec [OF conjunct2 [OF sound] that] .
    then obtain k vs where k: "k < length rows" "0 < start + k" "rows ! k = Inr vs" "AddressAt vs 0 = Inr a"
      unfolding token_row_def by (elim exE conjE) rule
    have index: "probe_indices start ! k = start + k" "start + k < compoundDistributorMaxRewards + 2"
      using probe_indices_nth [of k start] k(1) len by metis+
    have "answer (probe_calls distributor start ! k) = Some vs" using results k(1,3) by (auto simp: list_all2_conv_all_nth)
    moreover have "probe_calls distributor start ! k = view_call distributor ''tokens'' [AbiInt (Some (int (start + k)))]"
      using k(1) len index(1) by (simp only: probe_calls_def nth_map)
    ultimately have "answered answer (\<lambda>row. AddressAt row 0) 0 (view_call distributor ''tokens'' [AbiInt (Some (int (start + k)))]) = a"
      using k(4) by (simp only: answered_def option.case sum.case)
    with k(2) index(2) show ?thesis by blast
  qed
  then show ?thesis using sound by blast
qed

lemma probe_loop_sound:
  assumes "probe_loop client distributor starts ts = Inr ts'" "tokens_bounded ts"
  shows "tokens_bounded ts' \<and> (\<forall>a \<in> set ts' - set ts. \<exists>i. 0 < i \<and> i < compoundDistributorMaxRewards + 2
    \<and> answered answer (\<lambda>row. AddressAt row 0) 0 (view_call distributor ''tokens'' [AbiInt (Some (int i))]) = a)"
  using assms
proof (induction starts arbitrary: ts ts')
  case (Cons start starts)
  obtain rows where rows: "client_tolerant client (probe_calls distributor start) = Inr rows"
    using Cons.prems(1) by (auto simp: bindR_Inr_iff liftE_Inr)
  obtain ended found where found: "reward_rows start rows ts = (ended, found)" by fastforce
  note here = probe_rows_answered [OF rows found Cons.prems(2)]
  show ?case
  proof (cases ended)
    case True
    then have "ts' = found" using Cons.prems(1) rows found by simp
    then show ?thesis using here by simp
  next
    case False
    then have "probe_loop client distributor starts found = Inr ts'" using Cons.prems(1) rows found by simp
    from Cons.IH [OF this] here show ?thesis by blast
  qed
qed simp

lemma reward_tokens_sound:
  assumes "compoundDistributorRewardTokens client distributor = Inr ts"
  shows "tokens_bounded ts \<and> (\<forall>a \<in> set ts. \<exists>i. 0 < i \<and> i < compoundDistributorMaxRewards + 2
    \<and> answered answer (\<lambda>row. AddressAt row 0) 0 (view_call distributor ''tokens'' [AbiInt (Some (int i))]) = a)"
  using probe_loop_sound [of distributor probe_starts "[]" ts] assms by (simp add: compoundDistributorRewardTokens_def tokens_bounded_def)

end

text \<open>The totals: every token with a positive amount, once, with the sum of its positive amounts.\<close>

definition owed_of :: "address \<Rightarrow> address \<times> int option \<Rightarrow> int" where
  "owed_of a r = (case snd r of None \<Rightarrow> 0 | Some n \<Rightarrow> if fst r = a then max 0 n else 0)"

definition total_in :: "(address \<times> int) list \<Rightarrow> address \<Rightarrow> int" where
  "total_in totals a = (case map_of totals a of None \<Rightarrow> 0 | Some n \<Rightarrow> n)"

lemma add_total_step:
  "total_in (add_total totals r) a = total_in totals a + owed_of a r"
  by (auto simp: add_total_def total_in_def owed_of_def update_conv' split: option.split)

lemma add_total_keys: "distinct (map fst totals) \<Longrightarrow> distinct (map fst (add_total totals r))"
  by (simp add: add_total_def distinct_update split: option.split)

lemma reward_totals_exact:
  "distinct (map fst (reward_totals rows)) \<and> total_in (reward_totals rows) a = sum_list (map (owed_of a) (concat (map snd rows)))"
proof -
  have "distinct (map fst totals) \<Longrightarrow> distinct (map fst (foldl add_total totals rs))
      \<and> total_in (foldl add_total totals rs) a = total_in totals a + sum_list (map (owed_of a) rs)" for totals rs
    by (induction rs arbitrary: totals) (simp_all add: add_total_step add_total_keys)
  from this [of "[]" "concat (map snd rows)"] show ?thesis by (simp add: reward_totals_def total_in_def)
qed

end
