(* ===== verification/AaveSidecars.thy ===== *)
theory AaveSidecars
  imports CompoundV3
begin

text \<open>
  \<open>aave_sidecars.go\<close>: safety modules, Umbrella stakes and static aTokens, which the Aave adapter reads beside
  its markets, and \<open>tokenMetadataAt\<close> of \<open>uniswap.go\<close>, the metadata of many tokens in two batches. What go-ethereum's
  \<open>ConvertType\<close> makes of a value is a parameter, \<open>None\<close> where it is no such value.
\<close>

section \<open>Token metadata in batches\<close>

text \<open>The elements of a list at their first places.\<close>

definition uniques :: "'a list \<Rightarrow> 'a list" where
  "uniques xs = rev (remdups (rev xs))"

definition metadata_calls :: "address list \<Rightarrow> contract_call list" where
  "metadata_calls addresses = concat (map (\<lambda>a. [view_call a ''symbol'' [], view_call a ''decimals'' []]) addresses)"

text \<open>A token whose symbol was not read or does not decode has none yet.\<close>

definition metadata_row :: "block_ref \<Rightarrow> address \<Rightarrow> call_result \<Rightarrow> call_result \<Rightarrow> token reading" where
  "metadata_row block a symbol decimals = (case decimals of Inl e \<Rightarrow> Inl (Fail (ReadFailed ''decimals'' e))
     | Inr row \<Rightarrow> bindR (liftE (Undecodable ''decimals'') (Uint8At row 0)) (\<lambda>d.
         Inr \<lparr>tok_chain = block_chain block, tok_address = a,
           tok_symbol = (case symbol of Inl e \<Rightarrow> [] | Inr vs \<Rightarrow> (case StringAt vs 0 of Inl e \<Rightarrow> [] | Inr s \<Rightarrow> s)), tok_decimals = d\<rparr>))"

fun metadata_rows :: "block_ref \<Rightarrow> call_result list \<Rightarrow> nat \<Rightarrow> address list \<Rightarrow> token list reading" where
  "metadata_rows block rows i [] = Inr []"
| "metadata_rows block rows i (a # as) =
     bindR (index_or_panic rows (2 * i + 1)) (\<lambda>decimals.
     bindR (index_or_panic rows (2 * i)) (\<lambda>symbol.
     bindR (metadata_row block a symbol decimals) (\<lambda>t.
     bindR (metadata_rows block rows (Suc i) as) (\<lambda>ts. Inr (t # ts)))))"

definition fallback_symbol :: "token \<times> abi_value list \<Rightarrow> token reading" where
  "fallback_symbol tr = (case Bytes32StringAt (snd tr) 0 of
     Inl e \<Rightarrow> Inl (Fail (Rejected ''bytes32 symbol is invalid''))
   | Inr s \<Rightarrow> if s = [] then Inl (Fail (Rejected ''bytes32 symbol is invalid'')) else Inr ((fst tr)\<lparr>tok_symbol := s\<rparr>))"

definition tokenMetadataAt :: "rpc_client \<Rightarrow> block_ref \<Rightarrow> address list \<Rightarrow> (address \<times> token) list reading" where
  "tokenMetadataAt client block addresses =
     bindR (liftE (ReadFailed []) (client_tolerant client (metadata_calls (uniques addresses)))) (\<lambda>rows.
     bindR (metadata_rows block rows 0 (uniques addresses)) (\<lambda>tokens.
     let missing = filter (\<lambda>t. tok_symbol t = []) tokens in
     if missing = [] then Inr (map (\<lambda>t. (tok_address t, t)) tokens)
     else bindR (liftE (ReadFailed ''token symbol fallback'')
         (client_calls client (map (\<lambda>t. view_call (tok_address t) ''symbol(bytes32)'' []) missing))) (\<lambda>fallback.
       bindR (mapR fallback_symbol (zip missing fallback)) (\<lambda>named.
         Inr (map (\<lambda>t. (tok_address t, t)) (named @ filter (\<lambda>t. tok_symbol t \<noteq> []) tokens))))))"

section \<open>Values\<close>

definition decodeBigInts :: "(abi_value \<Rightarrow> int option list option) \<Rightarrow> abi_value \<Rightarrow> int list reading" where
  "decodeBigInts convert v = (case convert v of None \<Rightarrow> Inl (Fail (Rejected ''unexpected uint256 array type''))
     | Some ns \<Rightarrow> if None \<in> set ns then Inl (Fail (Rejected ''uint256 array contains nil'')) else Inr (map the ns))"

definition read_holding :: "address \<Rightarrow> string \<Rightarrow> address list \<Rightarrow> source" where
  "read_holding contract meth holds = \<lparr>src_contract = contract, src_method = meth, src_holds = Some holds\<rparr>"

definition token_reading :: "(abi_error \<Rightarrow> string) \<Rightarrow> rpc_client \<Rightarrow> block_ref \<Rightarrow> address \<Rightarrow> token reading" where
  "token_reading abi_text client block a = liftE (ReadFailed ''token'') (client_readToken abi_text client block a)"

text \<open>The token a reward is paid in: what a receipt is of. A call that fails, for whatever reason, takes it for no receipt.\<close>

definition readAaveRewardToken :: "(abi_error \<Rightarrow> string) \<Rightarrow> rpc_client \<Rightarrow> block_ref \<Rightarrow> address \<Rightarrow> token reading" where
  "readAaveRewardToken abi_text client block a = (case client_call client a ''UNDERLYING_ASSET_ADDRESS'' [] of
     Inl e \<Rightarrow> token_reading abi_text client block a
   | Inr row \<Rightarrow> bindR (liftE (Undecodable ''underlying'') (AddressAt row 0)) (\<lambda>underlying.
       if underlying = 0 then Inl (Fail (Rejected ''reward receipt returned zero underlying'')) else token_reading abi_text client block underlying))"

section \<open>Safety modules\<close>

record aaveSafetyModuleDeployment =
  sd_window :: deploymentWindow
  sd_address :: address

definition safety_group :: "(address \<Rightarrow> string) \<Rightarrow> address \<Rightarrow> int \<Rightarrow> int \<Rightarrow> token \<Rightarrow> token \<Rightarrow> group" where
  "safety_group addr_hex contract staked reward stakedToken rewardToken =
     plain_group (''safety-module:'' @ ToLower (addr_hex contract)) (''safety-module:'' @ ToLower (addr_hex contract)) ''Staked''
       ((if staked > 0 then [NewComponent ''asset'' stakedToken staked (read_of contract ''balanceOf'')] else [])
        @ (if reward > 0 then [NewComponent ''reward'' rewardToken reward (read_of contract ''getTotalRewardsBalance'')] else []))
       [(''module'', MetaAddress contract)]"

definition read_safety_module :: "(address \<Rightarrow> string) \<Rightarrow> (abi_error \<Rightarrow> string) \<Rightarrow> rpc_client \<Rightarrow> block_ref \<Rightarrow> address \<Rightarrow> address \<Rightarrow> group list reading" where
  "read_safety_module addr_hex abi_text client block account contract =
     bindR (liftE (ReadFailed ''balances'') (client_calls client [view_call contract ''balanceOf'' [AbiAddress account],
       view_call contract ''getTotalRewardsBalance'' [AbiAddress account]])) (\<lambda>amounts.
     bindR (row_int ''staked amount'' amounts 0 0) (\<lambda>staked.
     bindR (row_int ''reward amount'' amounts 1 0) (\<lambda>reward.
     if staked = 0 \<and> reward = 0 then Inr []
     else bindR (liftE (ReadFailed ''token addresses'') (client_calls client [view_call contract ''STAKED_TOKEN'' [], view_call contract ''REWARD_TOKEN'' []])) (\<lambda>rows.
       bindR (row_address ''staked token'' rows 0 0) (\<lambda>stakedAddress.
       bindR (row_address ''reward token'' rows 1 0) (\<lambda>rewardAddress.
       let addresses = uniques [stakedAddress, rewardAddress] in
       bindR (mapR (token_reading abi_text client block) addresses) (\<lambda>tokens.
       Inr [safety_group addr_hex contract staked reward (token_in (zip addresses tokens) stakedAddress)
         (token_in (zip addresses tokens) rewardAddress)])))))))"

definition readAaveSafetyModulePositions :: "(address \<Rightarrow> string) \<Rightarrow> (abi_error \<Rightarrow> string) \<Rightarrow> rpc_client \<Rightarrow> block_ref \<Rightarrow> address
    \<Rightarrow> aaveSafetyModuleDeployment list \<Rightarrow> group list reading" where
  "readAaveSafetyModulePositions addr_hex abi_text client block account modules =
     bindR (mapR (\<lambda>d. read_safety_module addr_hex abi_text client block account (sd_address d))
       (filter (\<lambda>d. deployment_ActiveAt (sd_window d) (block_number block)) modules)) (\<lambda>gs. Inr (concat gs))"

section \<open>Umbrella\<close>

record aaveUmbrellaStakeAsset =
  us_window :: deploymentWindow
  us_label :: string
  us_stake :: address
  us_underlying :: address
  us_nested :: bool

record aaveUmbrellaDeployment =
  ud_controller :: address
  ud_stakes :: "aaveUmbrellaStakeAsset list"

text \<open>A vault's asset and what shares of it convert to, read together.\<close>

definition asset_and_amount :: "string \<Rightarrow> rpc_client \<Rightarrow> address \<Rightarrow> int \<Rightarrow> (address \<times> (int reading)) reading" where
  "asset_and_amount label client contract shares =
     bindR (liftE (ReadFailed label) (client_calls client [view_call contract ''asset'' [], view_call contract ''convertToAssets'' [AbiInt (Some shares)]])) (\<lambda>rows.
     bindR (row_address label rows 0 0) (\<lambda>asset. Inr (asset, row_int label rows 1 0)))"

definition readAaveUmbrellaPrincipal :: "(abi_error \<Rightarrow> string) \<Rightarrow> rpc_client \<Rightarrow> block_ref \<Rightarrow> aaveUmbrellaStakeAsset \<Rightarrow> int \<Rightarrow> component reading" where
  "readAaveUmbrellaPrincipal abi_text client block s shares =
     bindR (asset_and_amount ''principal'' client (us_stake s) shares) (\<lambda>(configuredAsset, amountRow).
     if configuredAsset \<noteq> us_underlying s then Inl (Fail (Rejected ''stake asset changed''))
     else bindR amountRow (\<lambda>amount.
       let metadata = [(''shares'', MetaString (show_int shares)), (''stakeToken'', MetaAddress (us_stake s))] in
       if us_nested s
       then bindR (asset_and_amount ''unwrap nested ERC-4626'' client configuredAsset amount) (\<lambda>(asset, nestedRow).
         bindR nestedRow (\<lambda>nested.
         bindR (token_reading abi_text client block asset) (\<lambda>tk.
         Inr ((NewComponent ''asset'' tk nested (read_holding configuredAsset ''convertToAssets'' [us_stake s]))
           \<lparr>comp_metadata := metadata @ [(''wrappedShares'', MetaString (show_int amount)), (''wrapper'', MetaAddress configuredAsset)]\<rparr>))))
       else bindR (token_reading abi_text client block configuredAsset) (\<lambda>tk.
         Inr ((NewComponent ''asset'' tk amount (read_holding (us_stake s) ''convertToAssets(balanceOf)'' [us_stake s]))
           \<lparr>comp_metadata := metadata\<rparr>))))"

definition umbrella_reward :: "(abi_error \<Rightarrow> string) \<Rightarrow> rpc_client \<Rightarrow> block_ref \<Rightarrow> address \<Rightarrow> address \<times> int \<Rightarrow> component list reading" where
  "umbrella_reward abi_text client block controller r = (if snd r = 0 then Inr []
     else bindR (readAaveRewardToken abi_text client block (fst r)) (\<lambda>tk.
       Inr [(NewComponent ''reward'' tk (snd r) (read_of controller ''calculateCurrentUserRewards''))
         \<lparr>comp_metadata := [(''rewardReceipt'', MetaAddress (fst r))]\<rparr>]))"

definition umbrella_group :: "(address \<Rightarrow> string) \<Rightarrow> aaveUmbrellaStakeAsset \<Rightarrow> component list \<Rightarrow> group list" where
  "umbrella_group addr_hex s cs = (if cs = [] then [] else [plain_group (ToLower (addr_hex (us_stake s))) (ToLower (addr_hex (us_stake s)))
     (yield_label (''Umbrella '' @ us_label s)) cs
     [(''stakeToken'', MetaAddress (us_stake s)), (''configuredAsset'', MetaAddress (us_underlying s)), (''nestedErc4626'', MetaBool (us_nested s))]])"

definition read_umbrella :: "(address \<Rightarrow> string) \<Rightarrow> (abi_error \<Rightarrow> string) \<Rightarrow> (abi_value \<Rightarrow> address list option) \<Rightarrow> (abi_value \<Rightarrow> int option list option)
    \<Rightarrow> rpc_client \<Rightarrow> block_ref \<Rightarrow> address \<Rightarrow> address \<Rightarrow> aaveUmbrellaStakeAsset \<Rightarrow> group list reading" where
  "read_umbrella addr_hex abi_text addresses bigints client block account controller s =
     bindR (liftE (ReadFailed (us_label s)) (client_calls client [view_call (us_stake s) ''balanceOf'' [AbiAddress account],
       view_call controller ''calculateCurrentUserRewards'' [AbiAddress (us_stake s), AbiAddress account]])) (\<lambda>rows.
     bindR (row_int (us_label s @ '' shares'') rows 0 0) (\<lambda>shares.
     bindR (index_or_panic rows 1) (\<lambda>rewardRow.
     bindR (bindR (index_or_panic rewardRow 0) (decodeAddresses addresses)) (\<lambda>rewardAddresses.
     bindR (bindR (index_or_panic rewardRow 1) (decodeBigInts bigints)) (\<lambda>rewardAmounts.
     if length rewardAddresses \<noteq> length rewardAmounts then Inl (Fail (Rejected (us_label s @ '' reward enumeration mismatch'')))
     else bindR (if shares > 0 then bindR (readAaveUmbrellaPrincipal abi_text client block s shares) (\<lambda>c. Inr [c]) else Inr []) (\<lambda>principals.
       bindR (mapR (umbrella_reward abi_text client block controller) (zip rewardAddresses rewardAmounts)) (\<lambda>rewards.
       Inr (umbrella_group addr_hex s (principals @ concat rewards)))))))))"

definition readAaveUmbrellaPositions :: "(address \<Rightarrow> string) \<Rightarrow> (abi_error \<Rightarrow> string) \<Rightarrow> (abi_value \<Rightarrow> address list option) \<Rightarrow> (abi_value \<Rightarrow> int option list option)
    \<Rightarrow> rpc_client \<Rightarrow> block_ref \<Rightarrow> address \<Rightarrow> aaveUmbrellaDeployment \<Rightarrow> group list reading" where
  "readAaveUmbrellaPositions addr_hex abi_text addresses bigints client block account d =
     bindR (mapR (read_umbrella addr_hex abi_text addresses bigints client block account (ud_controller d))
       (filter (\<lambda>s. deployment_ActiveAt (us_window s) (block_number block)) (ud_stakes d))) (\<lambda>gs. Inr (concat gs))"

section \<open>Static aTokens\<close>

definition aaveStataFactoryAddress :: address where "aaveStataFactoryAddress = 0x411D79b8cC43384FDE66CaBf9b6a17180c842511"
definition aaveStataFactoryActivation :: u64 where "aaveStataFactoryActivation = 18627030"
definition aaveStataMaximumTokens :: nat where "aaveStataMaximumTokens = 256"

text \<open>The wrappers held, by their balances.\<close>

definition stata_holdings :: "rpc_client \<Rightarrow> address \<Rightarrow> address list \<Rightarrow> (address \<times> int) list reading" where
  "stata_holdings client account statas =
     bindR (liftE (ReadFailed ''stata balances'') (client_calls client (map (\<lambda>a. view_call a ''balanceOf'' [AbiAddress account]) statas))) (\<lambda>rows.
     bindR (mapR (\<lambda>i. row_int ''stata balance'' rows i 0) [0..<length statas]) (\<lambda>shares.
     Inr (filter (\<lambda>(a, n). n > 0) (zip statas shares))))"

definition stata_calls :: "(address \<times> int) list \<Rightarrow> contract_call list" where
  "stata_calls holdings = concat (map (\<lambda>(a, n). [view_call a ''asset'' [], view_call a ''convertToAssets'' [AbiInt (Some n)]]) holdings)"

definition stata_group :: "(address \<Rightarrow> string) \<Rightarrow> address \<times> int \<Rightarrow> token \<Rightarrow> int \<Rightarrow> group list" where
  "stata_group addr_hex h tk amount = (if amount = 0 then [] else [plain_group (''stata:'' @ ToLower (addr_hex (fst h)))
     (''stata:'' @ ToLower (addr_hex (fst h))) (yield_label (''sta'' @ tok_symbol tk))
     [(NewComponent ''asset'' tk amount (read_of (fst h) ''convertToAssets(balanceOf)''))
       \<lparr>comp_metadata := [(''stataShares'', MetaString (show_int (snd h)))]\<rparr>] []])"

definition stata_row :: "(address \<Rightarrow> string) \<Rightarrow> (address \<times> int) list \<Rightarrow> abi_value list list \<Rightarrow> (address \<times> token) list \<Rightarrow> address list \<Rightarrow> nat \<Rightarrow> group list reading" where
  "stata_row addr_hex holdings details tokens assets i = bindR (row_int ''stata assets'' details (2 * i + 1) 0) (\<lambda>amount.
     Inr (stata_group addr_hex (holdings ! i) (token_in tokens (assets ! i)) amount))"

definition stata_groups :: "(address \<Rightarrow> string) \<Rightarrow> rpc_client \<Rightarrow> block_ref \<Rightarrow> (address \<times> int) list \<Rightarrow> group list reading" where
  "stata_groups addr_hex client block holdings =
     bindR (liftE (ReadFailed ''stata details'') (client_calls client (stata_calls holdings))) (\<lambda>details.
     bindR (mapR (\<lambda>i. row_address ''stata asset'' details (2 * i) 0) [0..<length holdings]) (\<lambda>assets.
     bindR (tokenMetadataAt client block assets) (\<lambda>tokens.
     bindR (mapR (stata_row addr_hex holdings details tokens assets) [0..<length holdings]) (\<lambda>gs. Inr (concat gs)))))"

definition readAaveStataPositions :: "(address \<Rightarrow> string) \<Rightarrow> (abi_value \<Rightarrow> address list option) \<Rightarrow> rpc_client \<Rightarrow> block_ref \<Rightarrow> address \<Rightarrow> group list reading" where
  "readAaveStataPositions addr_hex addresses client block account = (if block_number block < aaveStataFactoryActivation then Inr []
     else bindR (liftE (ReadFailed ''enumerate stata tokens'') (client_call client aaveStataFactoryAddress ''getStaticATokens'' [])) (\<lambda>row.
       case row of [v] \<Rightarrow> bindR (decodeAddresses addresses v) (\<lambda>statas.
           if length statas > aaveStataMaximumTokens then Inl (Fail (Rejected ''stata token count exceeds maximum''))
           else bindR (stata_holdings client account statas) (\<lambda>holdings.
             if holdings = [] then Inr [] else stata_groups addr_hex client block holdings))
       | _ \<Rightarrow> Inl (Fail (Rejected ''getStaticATokens returned other than one field''))))"

section \<open>The deployments\<close>

definition since :: "u64 \<Rightarrow> deploymentWindow" where
  "since n = \<lparr>ActivationBlock = n, DeactivationBlock = 0\<rparr>"

definition ethereumAaveV3Umbrella :: aaveUmbrellaDeployment where
  "ethereumAaveV3Umbrella = \<lparr>ud_controller = 0x4655Ce3D625a63d30bA704087E52B4C31E38188B, ud_stakes = [
     \<lparr>us_window = since 22638170, us_label = ''waUSDC'', us_stake = 0x6bf183243FdD1e306ad2C4450BC7dcf6f0bf8Aa6,
      us_underlying = 0xD4fa2D31b7968E448877f69A96DE69f5de8cD23E, us_nested = True\<rparr>,
     \<lparr>us_window = since 22638170, us_label = ''waUSDT'', us_stake = 0xA484Ab92fe32B143AEE7019fC1502b1dAA522D31,
      us_underlying = 0x7Bc3485026Ac48b6cf9BaF0A377477Fff5703Af8, us_nested = True\<rparr>,
     \<lparr>us_window = since 22638170, us_label = ''waWETH'', us_stake = 0xaAFD07D53A7365D3e9fb6F3a3B09EC19676B73Ce,
      us_underlying = 0x0bfc9d54Fc184518A81162F8fB99c2eACa081202, us_nested = True\<rparr>,
     \<lparr>us_window = since 22638170, us_label = ''GHO'', us_stake = 0x4f827A63755855cDf3e8f3bcD20265C833f15033,
      us_underlying = 0x40D16FC0246aD3160Ccc09B8D0D3A2cD28aE6C2f, us_nested = False\<rparr>]\<rparr>"

definition ethereumAaveV3SafetyModules :: "aaveSafetyModuleDeployment list" where
  "ethereumAaveV3SafetyModules = [\<lparr>sd_window = since 19027929, sd_address = 0x1a88Df1cFe15Af22B3c4c783D4e6F7F9e0C1885d\<rparr>]"

section \<open>Claimed holdings\<close>

text \<open>Each sidecar claims from the wallet only what it read a positive balance of.\<close>

lemma heldContracts_holding: "heldContracts (read_holding contract meth holds) = holds"
  by (simp add: heldContracts_def read_holding_def)

lemma reward_claims_nothing:
  "heldContracts (read_of contract ''getTotalRewardsBalance'') = []" "heldContracts (read_of contract ''calculateCurrentUserRewards'') = []"
proof -
  have "\<not> contains ''balanceOf'' ''getTotalRewardsBalance''" "\<not> contains ''balanceOf'' ''calculateCurrentUserRewards''" by code_simp+
  then show "heldContracts (read_of contract ''getTotalRewardsBalance'') = []" "heldContracts (read_of contract ''calculateCurrentUserRewards'') = []"
    by (simp_all add: no_holding_claimed)
qed

definition own_group :: "group \<Rightarrow> bool" where
  "own_group g \<longleftrightarrow> map_of (grp_metadata g) ''attributedAccount'' = None"

lemma plain_own: "own_group (plain_group i market label cs m) \<longleftrightarrow> map_of m ''attributedAccount'' = None"
  by (simp add: own_group_def plain_group_def)

lemma umbrella_principal_source:
  "readAaveUmbrellaPrincipal abi_text client block s shares = Inr c \<Longrightarrow> heldContracts (comp_source c) = [us_stake s]"
  by (auto simp: readAaveUmbrellaPrincipal_def bindR_Inr_iff Let_def heldContracts_holding split: if_splits)

lemma umbrella_reward_source:
  "umbrella_reward abi_text client block controller r = Inr cs \<Longrightarrow> c \<in> set cs \<Longrightarrow> heldContracts (comp_source c) = []"
  by (auto simp: umbrella_reward_def bindR_Inr_iff reward_claims_nothing split: if_splits)

lemma mapR_member: "mapR f xs = Inr ys \<Longrightarrow> y \<in> set ys \<Longrightarrow> \<exists>x \<in> set xs. f x = Inr y"
proof -
  assume run: "mapR f xs = Inr ys" "y \<in> set ys"
  then have all: "list_all2 (\<lambda>x y. f x = Inr y) xs ys" by (simp add: mapR_Inr_iff)
  obtain i where "i < length ys" "ys ! i = y" using run(2) by (auto simp: in_set_conv_nth)
  then show ?thesis using list_all2_nthD2 [OF all] list_all2_lengthD [OF all] by (metis nth_mem)
qed

lemma mapR_concat_member:
  assumes "bindR (mapR f xs) (\<lambda>gs. Inr (concat gs)) = Inr gs" "g \<in> set gs"
  shows "\<exists>x part. x \<in> set xs \<and> f x = Inr part \<and> g \<in> set part"
proof -
  obtain parts where parts: "mapR f xs = Inr parts" "gs = concat parts" using assms(1) by (auto simp: bindR_Inr_iff)
  then obtain part where "part \<in> set parts" "g \<in> set part" using assms(2) by auto
  then show ?thesis using mapR_member [OF parts(1)] by blast
qed

lemma single_Inr: "(case row of [v] \<Rightarrow> f v | _ \<Rightarrow> Inl e) = Inr x \<longleftrightarrow> (\<exists>v. row = [v] \<and> f v = Inr x)"
  by (auto split: list.splits)

lemma refused_Inr: "(if b then Inl e else m) = Inr x \<longleftrightarrow> \<not> b \<and> m = Inr x"
  by simp

context pinned_reads
begin

lemma safety_justified:
  assumes "readAaveSafetyModulePositions addr_hex abi_text client block account modules = Inr gs" "g \<in> set gs"
  shows "justified answer account g \<and> own_group g"
proof -
  obtain part and d :: aaveSafetyModuleDeployment where part: "g \<in> set part" "read_safety_module addr_hex abi_text client block account (sd_address d) = Inr part"
    using mapR_concat_member [OF assms [unfolded readAaveSafetyModulePositions_def]] by blast
  obtain amounts staked reward st rt where rows: "client_calls client [view_call (sd_address d) ''balanceOf'' [AbiAddress account],
       view_call (sd_address d) ''getTotalRewardsBalance'' [AbiAddress account]] = Inr amounts" "row_int ''staked amount'' amounts 0 0 = Inr staked"
      and g: "g = safety_group addr_hex (sd_address d) staked reward st rt"
    using part by (auto simp: read_safety_module_def bindR_Inr_iff liftE_Inr Let_def split: if_splits)
  have "staked = held_balance answer account (sd_address d)" using row_int_state [OF rows] by (simp add: held_balance_def)
  then show ?thesis using g heldContracts_read_of [of "sd_address d"]
    by (fastforce simp: safety_group_def justified_def plain_own reward_claims_nothing split: if_splits)
qed

lemma umbrella_justified:
  assumes "readAaveUmbrellaPositions addr_hex abi_text addresses bigints client block account d = Inr gs" "g \<in> set gs"
  shows "justified answer account g \<and> own_group g"
proof -
  obtain part s where part: "g \<in> set part" "read_umbrella addr_hex abi_text addresses bigints client block account (ud_controller d) s = Inr part"
    using mapR_concat_member [OF assms [unfolded readAaveUmbrellaPositions_def]] by blast
  obtain rows shares pairs principals rewards where rows: "client_calls client [view_call (us_stake s) ''balanceOf'' [AbiAddress account],
       view_call (ud_controller d) ''calculateCurrentUserRewards'' [AbiAddress (us_stake s), AbiAddress account]] = Inr rows"
      "row_int (us_label s @ '' shares'') rows 0 0 = Inr shares"
      and principals: "(if shares > 0 then bindR (readAaveUmbrellaPrincipal abi_text client block s shares) (\<lambda>c. Inr [c]) else Inr []) = Inr principals"
      and rewards: "mapR (umbrella_reward abi_text client block (ud_controller d)) pairs = Inr rewards"
      and g: "g \<in> set (umbrella_group addr_hex s (principals @ concat rewards))"
    using part unfolding read_umbrella_def bindR_Inr_iff liftE_Inr refused_Inr sum.inject by blast
  have held: "shares = held_balance answer account (us_stake s)" using row_int_state [OF rows] by (simp add: held_balance_def)
  have "held_balance answer account k \<noteq> 0" if "c \<in> set principals" "k \<in> set (heldContracts (comp_source c))" for c k
    using that principals held umbrella_principal_source [of abi_text client block s shares]
    by (auto simp: bindR_Inr_iff split: if_splits)
  moreover have "heldContracts (comp_source c) = []" if "cs \<in> set rewards" "c \<in> set cs" for cs c
    using that mapR_member [OF rewards] umbrella_reward_source by blast
  ultimately show ?thesis using g unfolding umbrella_group_def justified_def by (fastforce simp: plain_own split: if_splits)
qed

lemma stata_justified:
  assumes "readAaveStataPositions addr_hex addresses client block account = Inr gs" "g \<in> set gs"
  shows "justified answer account g \<and> own_group g"
proof -
  obtain statas holdings where read: "stata_holdings client account statas = Inr holdings" "stata_groups addr_hex client block holdings = Inr gs"
    using assms by (fastforce simp: readAaveStataPositions_def bindR_Inr_iff single_Inr split: if_splits)
  obtain rows shares where rows: "client_calls client (map (\<lambda>a. view_call a ''balanceOf'' [AbiAddress account]) statas) = Inr rows"
      "list_all2 (\<lambda>i n. row_int ''stata balance'' rows i 0 = Inr n) [0..<length statas] shares" "holdings = filter (\<lambda>(a, n). n > 0) (zip statas shares)"
    using read(1) by (auto simp: stata_holdings_def bindR_Inr_iff liftE_Inr mapR_Inr_iff)
  have held: "held_balance answer account a \<noteq> 0" if "(a, n) \<in> set holdings" for a n
  proof -
    have "(a, n) \<in> set (zip statas shares)" "n > 0" using that rows(3) by auto
    then obtain i where i: "i < length statas" "i < length shares" "statas ! i = a" "shares ! i = n" "n > 0" by (auto simp: set_zip)
    then have "row_int ''stata balance'' rows i 0 = Inr n" using rows(2) by (auto simp: list_all2_conv_all_nth)
    from row_int_state [OF rows(1) this] i show ?thesis by (simp add: held_balance_def)
  qed
  obtain details tokens assets i part where part: "i \<in> set [0..<length holdings]" "stata_row addr_hex holdings details tokens assets i = Inr part" "g \<in> set part"
    using read(2) mapR_concat_member [OF _ assms(2)] unfolding stata_groups_def bindR_Inr_iff [of "liftE a b" for a b]
      bindR_Inr_iff [of "mapR (\<lambda>i. row_address l d (2 * i) 0) xs" for l d xs] bindR_Inr_iff [of "tokenMetadataAt c b as" for c b as] by blast
  obtain a n where h: "holdings ! i = (a, n)" by fastforce
  then have "(a, n) \<in> set holdings" using part(1) by (metis atLeastLessThan_iff nth_mem set_upt)
  from held [OF this] show ?thesis
    using part(2,3) h heldContracts_read_of [of a]
    by (fastforce simp: stata_row_def stata_group_def bindR_Inr_iff justified_def plain_own split: if_splits)
qed

end

end
