(* ===== verification/Aave.thy ===== *)
theory Aave
  imports AaveSidecars
begin

text \<open>
  \<open>aave.go\<close>: the markets of Aave and its forks. The reserves of an active market are read in one batch, then the tokens the
  account holds its positions as, and become one group; rewards of two protocols are added to it, and the sidecars of
  \<open>aave_sidecars.go\<close> and savings vaults follow. What \<open>ConvertType\<close> makes of a value is a parameter.
\<close>

section \<open>Data\<close>

record aaveReserve =
  rv_symbol :: string
  rv_token :: address

record aaveMarket =
  am_window :: deploymentWindow
  am_label :: string
  am_pool :: address
  am_provider :: address

record aaveV2RewardDeployment =
  rd_window :: deploymentWindow
  rd_controller :: address
  rd_token :: token

record aave_decoders =
  av_addresses :: "abi_value \<Rightarrow> address list option"
  av_bigints :: "abi_value \<Rightarrow> int option list option"
  av_reserves :: "abi_value \<Rightarrow> aaveReserve list option"

text \<open>The active markets; two of one label are an error.\<close>

fun active_aave :: "u64 \<Rightarrow> string list \<Rightarrow> aaveMarket list \<Rightarrow> aaveMarket list reading" where
  "active_aave block labels [] = Inr []"
| "active_aave block labels (m # ms) = (if \<not> deployment_ActiveAt (am_window m) block then active_aave block labels ms
     else if am_label m \<in> set labels then Inl (Fail (Rejected (''multiple '' @ am_label m @ '' deployments are active'')))
     else bindR (active_aave block (am_label m # labels) ms) (\<lambda>rest. Inr (m # rest)))"

definition activeAaveMarkets :: "(chain_id \<times> aaveMarket list) list \<Rightarrow> chain_id \<Rightarrow> u64 \<Rightarrow> aaveMarket list reading" where
  "activeAaveMarkets markets chain block = active_aave block [] (chain_entries markets chain)"

definition decodeAaveReserves :: "aave_decoders \<Rightarrow> abi_value \<Rightarrow> aaveReserve list reading" where
  "decodeAaveReserves dec v = (case av_reserves dec v of None \<Rightarrow> Inl (Fail (Rejected ''unexpected Aave reserve list type'')) | Some rs \<Rightarrow> Inr rs)"

definition aaveReserveTokenKinds :: "string list" where
  "aaveReserveTokenKinds = [''aToken'', ''stable debt token'', ''variable debt token'']"

section \<open>Incentive assets\<close>

text \<open>The tokens of a row that pass, after those seen before; stable debt tokens only where asked for.\<close>

fun incentive_kinds :: "bool \<Rightarrow> string \<Rightarrow> abi_value list \<Rightarrow> nat list \<Rightarrow> address list \<Rightarrow> address list reading" where
  "incentive_kinds includeStableDebt symbol row [] seen = Inr seen"
| "incentive_kinds includeStableDebt symbol row (k # ks) seen = (if k = 1 \<and> \<not> includeStableDebt then incentive_kinds includeStableDebt symbol row ks seen
     else bindR (liftE (Undecodable (symbol @ '' '' @ aaveReserveTokenKinds ! k)) (AddressAt row (int k))) (\<lambda>a.
       if a = 0 then (if k = 0 then Inl (Fail (Rejected (symbol @ '' returned zero aToken''))) else incentive_kinds includeStableDebt symbol row ks seen)
       else if a \<in> set seen then incentive_kinds includeStableDebt symbol row ks seen
       else incentive_kinds includeStableDebt symbol row ks (seen @ [a])))"

fun incentive_rows :: "bool \<Rightarrow> (aaveReserve \<times> abi_value list) list \<Rightarrow> address list \<Rightarrow> address list reading" where
  "incentive_rows includeStableDebt [] seen = Inr seen"
| "incentive_rows includeStableDebt ((r, row) # rows) seen = (if length row \<noteq> 3 then Inl (Fail (Rejected (rv_symbol r @ '' reserve token tuple'')))
     else bindR (incentive_kinds includeStableDebt (rv_symbol r) row [0, 1, 2] seen) (incentive_rows includeStableDebt rows))"

definition decodeAaveIncentiveAssets :: "aaveReserve list \<Rightarrow> abi_value list list \<Rightarrow> bool \<Rightarrow> address list reading" where
  "decodeAaveIncentiveAssets reserves rows includeStableDebt =
     (if length rows \<noteq> length reserves then Inl (Fail (Rejected ''reserve token row count differs from reserve count''))
      else incentive_rows includeStableDebt (zip reserves rows) [])"

definition reserve_tokens_call :: "address \<Rightarrow> address \<Rightarrow> contract_call" where
  "reserve_tokens_call provider a = view_call provider ''getReserveTokensAddresses'' [AbiAddress a]"

definition readAaveIncentiveAssets :: "rpc_client \<Rightarrow> address \<Rightarrow> aaveReserve list \<Rightarrow> bool \<Rightarrow> address list reading" where
  "readAaveIncentiveAssets client provider reserves includeStableDebt =
     bindR (liftE (ReadFailed ''incentive assets'') (client_calls client (map (\<lambda>r. reserve_tokens_call provider (rv_token r)) reserves)))
       (\<lambda>rows. decodeAaveIncentiveAssets reserves rows includeStableDebt)"

section \<open>Reserves\<close>

record aaveUserReserve =
  ur_token :: token
  ur_supply :: int
  ur_stableDebt :: int
  ur_variableDebt :: int
  ur_collateral :: bool

definition reserve_calls :: "address \<Rightarrow> address \<Rightarrow> aaveReserve list \<Rightarrow> contract_call list" where
  "reserve_calls provider account reserves = concat (map (\<lambda>r. [view_call provider ''getUserReserveData'' [AbiAddress (rv_token r), AbiAddress account],
     view_call (rv_token r) ''decimals'' []]) reserves)"

text \<open>The reserve of a pair of rows, none where nothing is supplied or owed.\<close>

definition user_reserve :: "chain_id \<Rightarrow> aaveReserve \<Rightarrow> abi_value list \<Rightarrow> abi_value list \<Rightarrow> aaveUserReserve list reading" where
  "user_reserve chain r userData decimalsData =
     bindR (liftE (Undecodable (rv_symbol r @ '' supply'')) (BigIntAt userData 0)) (\<lambda>supplied.
     bindR (liftE (Undecodable (rv_symbol r @ '' stable debt'')) (BigIntAt userData 1)) (\<lambda>stableDebt.
     bindR (liftE (Undecodable (rv_symbol r @ '' variable debt'')) (BigIntAt userData 2)) (\<lambda>variableDebt.
     bindR (liftE (Undecodable (rv_symbol r @ '' collateral'')) (BoolAt userData 8)) (\<lambda>collateral.
     bindR (liftE (Undecodable (rv_symbol r @ '' decimals'')) (Uint8At decimalsData 0)) (\<lambda>decimals.
     Inr (if supplied = 0 \<and> stableDebt = 0 \<and> variableDebt = 0 then []
       else [\<lparr>ur_token = \<lparr>tok_chain = chain, tok_address = rv_token r, tok_symbol = rv_symbol r, tok_decimals = decimals\<rparr>,
         ur_supply = supplied, ur_stableDebt = stableDebt, ur_variableDebt = variableDebt, ur_collateral = collateral\<rparr>]))))))"

fun user_reserves :: "chain_id \<Rightarrow> abi_value list list \<Rightarrow> nat \<Rightarrow> aaveReserve list \<Rightarrow> aaveUserReserve list reading" where
  "user_reserves chain rows i [] = Inr []"
| "user_reserves chain rows i (r # rs) =
     bindR (index_or_panic rows (2 * i)) (\<lambda>userData.
     bindR (index_or_panic rows (2 * i + 1)) (\<lambda>decimalsData.
     bindR (user_reserve chain r userData decimalsData) (\<lambda>own.
     bindR (user_reserves chain rows (Suc i) rs) (\<lambda>rest. Inr (own @ rest)))))"

text \<open>The three tokens a position is held as; one with an amount is not the zero address.\<close>

definition held_token :: "aaveUserReserve \<Rightarrow> abi_value list \<Rightarrow> nat \<times> int \<Rightarrow> address reading" where
  "held_token p row ka = bindR (liftE (Undecodable (tok_symbol (ur_token p) @ '' '' @ aaveReserveTokenKinds ! fst ka)) (AddressAt row (int (fst ka)))) (\<lambda>a.
     if snd ka > 0 \<and> a = 0 then Inl (Fail (Rejected (tok_symbol (ur_token p) @ '' returned zero '' @ aaveReserveTokenKinds ! fst ka))) else Inr a)"

definition held_tokens :: "aaveUserReserve \<times> abi_value list \<Rightarrow> (aaveUserReserve \<times> address list) reading" where
  "held_tokens pr = (case pr of (p, row) \<Rightarrow>
     bindR (mapR (held_token p row) [(0, ur_supply p), (1, ur_stableDebt p), (2, ur_variableDebt p)]) (\<lambda>holds. Inr (p, holds)))"

definition readAaveHeldTokens :: "rpc_client \<Rightarrow> address \<Rightarrow> aaveUserReserve list \<Rightarrow> (aaveUserReserve \<times> address list) list reading" where
  "readAaveHeldTokens client provider ps =
     bindR (liftE (ReadFailed ''reserve tokens'') (client_calls client (map (\<lambda>p. reserve_tokens_call provider (tok_address (ur_token p))) ps)))
       (\<lambda>rows. mapR held_tokens (zip ps rows))"

definition reserve_component :: "address \<Rightarrow> string \<Rightarrow> aaveUserReserve \<Rightarrow> int \<Rightarrow> string \<Rightarrow> address \<Rightarrow> string \<times> meta_value \<Rightarrow> component list" where
  "reserve_component provider kind p amount field hold m = (if amount > 0
     then [(NewComponent kind (ur_token p) amount (read_holding provider (''getUserReserveData.'' @ field) [hold]))\<lparr>comp_metadata := [m]\<rparr>] else [])"

definition reserve_components :: "address \<Rightarrow> aaveUserReserve \<times> address list \<Rightarrow> component list" where
  "reserve_components provider ph = (case ph of (p, holds) \<Rightarrow>
     reserve_component provider ''asset'' p (ur_supply p) ''currentATokenBalance'' (holds ! 0) (''collateral'', MetaBool (ur_collateral p))
     @ reserve_component provider ''debt'' p (ur_stableDebt p) ''currentStableDebt'' (holds ! 1) (''debtType'', MetaString ''stable'')
     @ reserve_component provider ''debt'' p (ur_variableDebt p) ''currentVariableDebt'' (holds ! 2) (''debtType'', MetaString ''variable''))"

definition market_reserves :: "aave_decoders \<Rightarrow> rpc_client \<Rightarrow> aaveMarket \<Rightarrow> aaveReserve list reading" where
  "market_reserves dec client m =
     bindR (liftE (ReadFailed (am_label m @ '' reserve enumeration'')) (client_call client (am_provider m) ''getAllReservesTokens'' [])) (\<lambda>row.
     case row of [v] \<Rightarrow> bindR (decodeAaveReserves dec v) (\<lambda>reserves.
         if length reserves > 256 then Inl (Fail (Rejected (am_label m @ '' reserve count exceeds safety bound''))) else Inr reserves)
     | _ \<Rightarrow> Inl (Fail (Rejected (am_label m @ '' reserve enumeration returned other than one field''))))"

definition lending_components :: "rpc_client \<Rightarrow> block_ref \<Rightarrow> address \<Rightarrow> aaveMarket \<Rightarrow> aaveReserve list \<Rightarrow> component list reading" where
  "lending_components client block account m reserves =
     bindR (liftE (ReadFailed (am_label m @ '' user reserves'')) (client_calls client (reserve_calls (am_provider m) account reserves))) (\<lambda>rows.
     bindR (user_reserves (block_chain block) rows 0 reserves) (\<lambda>ps.
     bindR (readAaveHeldTokens client (am_provider m) ps) (\<lambda>held.
     Inr (concat (map (reserve_components (am_provider m)) held)))))"

section \<open>Rewards\<close>

definition aaveV2RewardDeployments :: "(chain_id \<times> aaveV2RewardDeployment) list" where
  "aaveV2RewardDeployments = [
     (Ethereum, \<lparr>rd_window = since 12251569, rd_controller = 0xd784927Ff2f95ba542BfC824c8a8a98F3495f6b5,
        rd_token = evm_token Ethereum 0x7Fc66500c84A76Ad7e9c93437bFc5Ac33E2dDaE9 ''AAVE'' 18\<rparr>),
     (Polygon, \<lparr>rd_window = since 12486774, rd_controller = 0x357D51124f59836DeD84c8a1730D72B749d8BC23,
        rd_token = evm_token Polygon 0x0d500B1d8E8eF31E21C99d1Db9A6444d3ADf1270 ''WPOL'' 18\<rparr>),
     (Avalanche, \<lparr>rd_window = since 3424262, rd_controller = 0x01D83Fe6A10D2f2B7AF17034343746188272cAc9,
        rd_token = evm_token Avalanche 0xB31f66AA3C1e785363F0875A1B74E27b85FD66c7 ''WAVAX'' 18\<rparr>)]"

definition aave_v2_reward :: "rpc_client \<Rightarrow> string \<Rightarrow> block_ref \<Rightarrow> address \<Rightarrow> aaveMarket \<Rightarrow> aaveReserve list \<Rightarrow> component list reading" where
  "aave_v2_reward client i block account m reserves = (case map_of aaveV2RewardDeployments (block_chain block) of
     None \<Rightarrow> Inr []
   | Some d \<Rightarrow> if i \<noteq> ''aave-v2'' \<or> \<not> deployment_ActiveAt (rd_window d) (block_number block) then Inr []
       else bindR (readAaveIncentiveAssets client (am_provider m) reserves False) (\<lambda>assets.
         bindR (call_int (am_label m @ '' rewards'') client (rd_controller d) ''getRewardsBalance'' [AbiAddresses assets, AbiAddress account]) (\<lambda>amount.
         Inr (if amount > 0 then [NewComponent ''reward'' (rd_token d) amount (read_of (rd_controller d) ''getRewardsBalance'')] else []))))"

definition ethereumSparkRewardsController :: address where "ethereumSparkRewardsController = 0x4370D3b6C9588E02ce9D22e684387859c7Ff5b34"
definition ethereumSparkRewardsDeployment :: deploymentWindow where "ethereumSparkRewardsDeployment = since 16776417"
definition lidoStETHAddress :: address where "lidoStETHAddress = 0xae7ab96520DE3A18E5e111B5EaAb095312D7fE84"
definition lidoWstETHAddress :: address where "lidoWstETHAddress = 0x7f39C581F595B53c5cb19bD0b3f8dA6c935E2Ca0"
definition lidoStETHToken :: token where "lidoStETHToken = evm_token Ethereum lidoStETHAddress ''stETH'' 18"

definition spark_reward :: "(abi_error \<Rightarrow> string) \<Rightarrow> rpc_client \<Rightarrow> block_ref \<Rightarrow> address \<times> int \<Rightarrow> component list reading" where
  "spark_reward abi_text client block r = (if snd r = 0 then Inr []
     else if fst r = lidoWstETHAddress
     then bindR (liftE (ReadFailed ''unwrap wstETH reward'') (client_calls client [view_call (fst r) ''stETH'' [],
         view_call (fst r) ''getStETHByWstETH'' [AbiInt (Some (snd r))]])) (\<lambda>rows.
       bindR (row_address ''wstETH underlying'' rows 0 0) (\<lambda>underlying.
       if underlying \<noteq> lidoStETHAddress then Inl (Fail (Rejected ''wstETH underlying changed''))
       else bindR (row_int ''wstETH reward conversion'' rows 1 0) (\<lambda>converted.
         Inr [(NewComponent ''reward'' lidoStETHToken converted (read_of ethereumSparkRewardsController ''getAllUserRewards + getStETHByWstETH''))
           \<lparr>comp_metadata := [(''rewardWrapper'', MetaAddress (fst r)), (''wrapperAmountRaw'', MetaString (show_int (snd r)))]\<rparr>])))
     else bindR (readAaveRewardToken abi_text client block (fst r)) (\<lambda>tk.
       Inr [NewComponent ''reward'' tk (snd r) (read_of ethereumSparkRewardsController ''getAllUserRewards'')]))"

definition readSparkRewardComponents :: "(abi_error \<Rightarrow> string) \<Rightarrow> aave_decoders \<Rightarrow> rpc_client \<Rightarrow> block_ref \<Rightarrow> address list \<Rightarrow> address \<Rightarrow> component list reading" where
  "readSparkRewardComponents abi_text dec client block assets account =
     bindR (liftE (ReadFailed ''rewards'') (client_call client ethereumSparkRewardsController ''getAllUserRewards'' [AbiAddresses assets, AbiAddress account])) (\<lambda>row.
     case row of [a, n] \<Rightarrow> bindR (decodeAddresses (av_addresses dec) a) (\<lambda>rewardAddresses.
         bindR (decodeBigInts (av_bigints dec) n) (\<lambda>amounts.
         if length rewardAddresses \<noteq> length amounts then Inl (Fail (Rejected ''reward result length differs''))
         else bindR (mapR (spark_reward abi_text client block) (zip rewardAddresses amounts)) (\<lambda>cs. Inr (concat cs))))
     | _ \<Rightarrow> Inl (Fail (Rejected ''getAllUserRewards returned other than two fields'')))"

definition spark_rewards :: "(abi_error \<Rightarrow> string) \<Rightarrow> aave_decoders \<Rightarrow> rpc_client \<Rightarrow> string \<Rightarrow> block_ref \<Rightarrow> address \<Rightarrow> aaveMarket \<Rightarrow> aaveReserve list
    \<Rightarrow> component list reading" where
  "spark_rewards abi_text dec client i block account m reserves =
     (if i = ''spark'' \<and> block_chain block = Ethereum \<and> deployment_ActiveAt ethereumSparkRewardsDeployment (block_number block)
      then bindR (readAaveIncentiveAssets client (am_provider m) reserves False) (\<lambda>assets.
        readSparkRewardComponents abi_text dec client block assets account)
      else Inr [])"

section \<open>\<open>Positions\<close>\<close>

definition market_id :: "(address \<Rightarrow> string) \<Rightarrow> aaveMarket \<Rightarrow> string" where
  "market_id addr_hex m = ToLower (addr_hex (if am_pool m \<noteq> 0 then am_pool m else am_provider m))"

text \<open>\<open>Lending \<cdot> \<close> and the label.\<close>

definition aave_group :: "(address \<Rightarrow> string) \<Rightarrow> aaveMarket \<Rightarrow> component list \<Rightarrow> group list" where
  "aave_group addr_hex m cs = (if cs = [] then [] else [(plain_group (market_id addr_hex m) (market_id addr_hex m)
     (''Lending '' @ [char_of (0xC2 :: nat), char_of (0xB7 :: nat)] @ '' '' @ am_label m) cs
     [(''dataProvider'', MetaAddress (am_provider m)), (''pool'', MetaAddress (am_pool m))])\<lparr>grp_policy := ''floor-zero''\<rparr>])"

definition read_aave_market :: "(address \<Rightarrow> string) \<Rightarrow> (abi_error \<Rightarrow> string) \<Rightarrow> aave_decoders \<Rightarrow> rpc_client \<Rightarrow> string \<Rightarrow> block_ref \<Rightarrow> address
    \<Rightarrow> aaveMarket \<Rightarrow> group list reading" where
  "read_aave_market addr_hex abi_text dec client i block account m =
     bindR (market_reserves dec client m) (\<lambda>reserves.
     bindR (lending_components client block account m reserves) (\<lambda>lent.
     bindR (aave_v2_reward client i block account m reserves) (\<lambda>reward.
     bindR (spark_rewards abi_text dec client i block account m reserves) (\<lambda>rewards.
     Inr (aave_group addr_hex m (lent @ reward @ rewards))))))"

definition ethereumAaveV2SafetyModules :: "aaveSafetyModuleDeployment list" where
  "ethereumAaveV2SafetyModules = [\<lparr>sd_window = since 10927018, sd_address = 0x4da27a545c0c5B758a6BA100e3a049001de870f5\<rparr>,
     \<lparr>sd_window = since 11751685, sd_address = 0xa1116930326D21fB917d5A27F1E9943A9595fb47\<rparr>,
     \<lparr>sd_window = since 19034135, sd_address = 0x9eDA81C21C273a82BE9Bbc19B6A6182212068101\<rparr>]"

definition sgho_vaults :: "vaultConfig list" where
  "sgho_vaults = [vault ''vault:0xe1753f2e00940cc31213dd92013cf019dfe4ca1d'' [] (yield_label ''sGHO'')
     0xE1753F2e00940cC31213dd92013cF019DFE4ca1d 25028623 (evm_token Ethereum 0x40D16FC0246aD3160Ccc09B8D0D3A2cD28aE6C2f ''GHO'' 18)]"

definition v3_sidecars :: "(address \<Rightarrow> string) \<Rightarrow> (abi_error \<Rightarrow> string) \<Rightarrow> aave_decoders \<Rightarrow> rpc_client \<Rightarrow> block_ref \<Rightarrow> address \<Rightarrow> group list reading" where
  "v3_sidecars addr_hex abi_text dec client block account =
     bindR (readAaveSafetyModulePositions addr_hex abi_text client block account ethereumAaveV3SafetyModules) (\<lambda>safety.
     bindR (readAaveUmbrellaPositions addr_hex abi_text (av_addresses dec) (av_bigints dec) client block account ethereumAaveV3Umbrella) (\<lambda>umbrella.
     bindR (readVaultPositions client block account sgho_vaults) (\<lambda>sgho.
     bindR (readAaveStataPositions addr_hex (av_addresses dec) client block account) (\<lambda>stata. Inr (safety @ umbrella @ sgho @ stata)))))"

definition Aave_Positions :: "(address \<Rightarrow> string) \<Rightarrow> (abi_error \<Rightarrow> string) \<Rightarrow> aave_decoders \<Rightarrow> string \<Rightarrow> (chain_id \<times> aaveMarket list) list
    \<Rightarrow> (chain_id \<times> vaultConfig list) list \<Rightarrow> rpc_client \<Rightarrow> block_ref \<Rightarrow> address \<Rightarrow> group list reading" where
  "Aave_Positions addr_hex abi_text dec i markets vaults client block account =
     bindR (activeAaveMarkets markets (block_chain block) (block_number block)) (\<lambda>active.
     bindR (mapR (read_aave_market addr_hex abi_text dec client i block account) active) (\<lambda>lending.
     bindR (if i = ''aave-v2'' \<and> block_chain block = Ethereum
       then readAaveSafetyModulePositions addr_hex abi_text client block account ethereumAaveV2SafetyModules else Inr []) (\<lambda>safety.
     bindR (readVaultPositions client block account (chain_entries vaults (block_chain block))) (\<lambda>savings.
     bindR (if i = ''aave-v3'' \<and> block_chain block = Ethereum then v3_sidecars addr_hex abi_text dec client block account else Inr []) (\<lambda>sidecars.
     Inr (concat lending @ safety @ savings @ sidecars))))))"

section \<open>The adapters\<close>

definition aaveMarketAt :: "string \<Rightarrow> address \<Rightarrow> address \<Rightarrow> u64 \<Rightarrow> u64 \<Rightarrow> aaveMarket" where
  "aaveMarketAt label pool provider activation deactivation = \<lparr>am_window = \<lparr>ActivationBlock = activation, DeactivationBlock = deactivation\<rparr>,
     am_label = label, am_pool = pool, am_provider = provider\<rparr>"

definition sparkSavingsVaults :: "(chain_id \<times> vaultConfig list) list" where
  "sparkSavingsVaults = [
     (Ethereum, [vault ''0xbc65ad17c5c0a2a4d159fa5a503f4992c7b545fe'' [] (yield_label ''sUSDC'') 0xbc65ad17c5c0a2a4d159fa5a503f4992c7b545fe 21969024 (evm_token Ethereum 0xa0b86991c6218b36c1d19d4a2e9eb0ce3606eb48 ''USDC'' 6),
        vault ''0x28b3a8fb53b741a8fd78c0fb9a6b2393d896a43d'' [] (yield_label ''spUSDC'') 0x28b3a8fb53b741a8fd78c0fb9a6b2393d896a43d 23484422 (evm_token Ethereum 0xa0b86991c6218b36c1d19d4a2e9eb0ce3606eb48 ''USDC'' 6),
        vault ''0x80128dbb9f07b93dde62a6daeadb69ed14a7d354'' [] (yield_label ''spPYUSD'') 0x80128dbb9f07b93dde62a6daeadb69ed14a7d354 23919207 (evm_token Ethereum 0x6c3ea9036406852006290770BEDFcAbA0e23A0e8 ''PYUSD'' 6),
        vault ''0xe2e7a17dff93280dec073c995595155283e3c372'' [] (yield_label ''spUSDT'') 0xe2e7a17dff93280dec073c995595155283e3c372 23484439 (evm_token Ethereum 0xdac17f958d2ee523a2206206994597c13d831ec7 ''USDT'' 6),
        vault ''0xfe6eb3b609a7c8352a241f7f3a21cea4e9209b8f'' [] (yield_label ''spETH'') 0xfe6eb3b609a7c8352a241f7f3a21cea4e9209b8f 23484474 (evm_token Ethereum 0xC02aaA39b223FE8D0A0e5C4F27eAD9083C756Cc2 ''WETH'' 18)]),
     (Base, [vault ''0x3128a0f7f0ea68e7b7c9b00afa7e41045828e858'' [] (yield_label ''sUSDC'') 0x3128a0F7f0ea68E7B7c9B00AFa7E41045828e858 27123520 (evm_token Base 0x833589fCD6eDb6E08f4c7C32D4f71b54bdA02913 ''USDC'' 6)]),
     (Arbitrum, [vault ''0x940098b108fb7d0a7e374f6eded7760787464609'' [] (yield_label ''sUSDC'') 0x940098b108fB7D0a7E374f6eDED7760787464609 311940473 (evm_token Arbitrum 0xaf88d065e77c8cC2239327C5EDb3A432268e5831 ''USDC'' 6),
        vault ''0x45d91340b3b7b96985a72b5c678f7d9e8d664b62'' [] (yield_label ''spUSDT'') 0x45d91340B3B7B96985A72b5c678F7D9e8D664b62 476542096 (evm_token Arbitrum 0xFd086bC7CD5C481DCC9C85ebE478A1C0b69FCbb9 ''USDT'' 6)]),
     (Avalanche, [vault ''0x28b3a8fb53b741a8fd78c0fb9a6b2393d896a43d'' [] (yield_label ''spUSDC'') 0x28B3a8fb53B741A8Fd78c0fb9A6B2393d896a43d 69983672 (evm_token Avalanche 0xB97EF9Ef8734C71904D8002F8b6Bc66Dd9c48a6E ''USDC'' 6)]),
     (Optimism, [vault ''0xcf9326e24ebffbef22ce1050007a43a3c0b6db55'' [] (yield_label ''sUSDC'') 0xCF9326e24EBfFBEF22ce1050007A43A3c0B6DB55 136322256 (evm_token Optimism 0x0b2C639c533813f4Aa9D7837CAf62653d097Ff85 ''USDC'' 6)])]"

definition aaveV3Markets :: "(chain_id \<times> aaveMarket list) list" where
  "aaveV3Markets = [
     (Ethereum, [aaveMarketAt ''Core'' 0x87870Bca3F3fD6335C3F4ce8392D69350B4fA4E2 0x7B4EB56E7CD4b454BA8ff71E4518426369a138a3 16291078 20261938,
        aaveMarketAt ''Core'' 0x87870Bca3F3fD6335C3F4ce8392D69350B4fA4E2 0x20e074F62EcBD8BC5E38211adCb6103006113A22 20261939 20827146,
        aaveMarketAt ''Core'' 0x87870Bca3F3fD6335C3F4ce8392D69350B4fA4E2 0x41393e5e337606dc3821075Af65AeE84D7688CBD 20827147 21780616,
        aaveMarketAt ''Core'' 0x87870Bca3F3fD6335C3F4ce8392D69350B4fA4E2 0x497a1994c46d4f6C864904A9f1fac6328Cb7C8a6 21780617 22686777,
        aaveMarketAt ''Core'' 0x87870Bca3F3fD6335C3F4ce8392D69350B4fA4E2 0x0a16f2FCC0D44FaE41cc54e079281D84A363bECD 22686778 0,
        aaveMarketAt ''Prime'' 0x4e033931ad43597d96D6bcc25c280717730B58B1 0x66FeAe868EBEd74A34A7043e88742AAE00D2bC53 21780567 22686914,
        aaveMarketAt ''Prime'' 0x4e033931ad43597d96D6bcc25c280717730B58B1 0xB85B2bFEbeC4F5f401dbf92ac147A3076391fCD5 22686915 0,
        aaveMarketAt ''EtherFi'' 0x0AA97c284e98396202b6A04024F5E2c65026F3c0 0x8Cb4b66f7B13F2Ae4D3c91338fC007dbF8C14208 20625515 20830503,
        aaveMarketAt ''EtherFi'' 0x0AA97c284e98396202b6A04024F5E2c65026F3c0 0xE7d490885A68f00d9886508DF281D67263ed5758 20830504 21780262,
        aaveMarketAt ''EtherFi'' 0x0AA97c284e98396202b6A04024F5E2c65026F3c0 0xECdA3F25B73261d1FdFa1E158967660AA29f00cC 21780263 22686935,
        aaveMarketAt ''EtherFi'' 0x0AA97c284e98396202b6A04024F5E2c65026F3c0 0x7c8509591f9693D21280d96e149a08A3bf69Cd0c 22686936 0,
        aaveMarketAt ''Horizon'' 0xAe05Cd22df81871bc7cC2a04BeCfb516bFe332C8 0x53519c32f73fE1797d10210c4950fFeBa3b21504 23125531 0]),
     (BSC, [aaveMarketAt ''Core'' 0x6807dc923806fE8Fd134338EABCA509979a7e0cB 0x1e26247502e90b4fab9D0d17e4775e90085D2A35 46367909 51262444,
        aaveMarketAt ''Core'' 0x6807dc923806fE8Fd134338EABCA509979a7e0cB 0xc90Df74A7c16245c5F5C5870327Ceb38Fe5d5328 51262445 0]),
     (Base, [aaveMarketAt ''Core'' 0xA238Dd80C259a72e81d7e4664a9801593F98d1c5 0xC4Fcf9893072d61Cc2899C0054877Cb752587981 25954709 31377574,
        aaveMarketAt ''Core'' 0xA238Dd80C259a72e81d7e4664a9801593F98d1c5 0x0F43731EB8d45A581f4a36DD74F5f358bc90C73A 31377575 0]),
     (Arbitrum, [aaveMarketAt ''Core'' 0x794a61358D6845594F94dc1DB02A252b5b4814aD 0x14496b405D62c24F91f04Cda1c69Dc526D56fDE5 302650382 345855960,
        aaveMarketAt ''Core'' 0x794a61358D6845594F94dc1DB02A252b5b4814aD 0x243Aa95cAC2a25651eda86e80bEe66114413c43b 345855961 0]),
     (Polygon, [aaveMarketAt ''Core'' 0x794a61358D6845594F94dc1DB02A252b5b4814aD 0x69FA688f1Dc47d4B5d8029D5a35FB7a548310654 25826028 41174631,
        aaveMarketAt ''Core'' 0x794a61358D6845594F94dc1DB02A252b5b4814aD 0x9441B65EE553F70df9C77d45d3283B6BC24F222d 41174632 59108788,
        aaveMarketAt ''Core'' 0x794a61358D6845594F94dc1DB02A252b5b4814aD 0x7deEB8aCE4220643D8edeC871a23807E4d006eE5 59108789 62249156,
        aaveMarketAt ''Core'' 0x794a61358D6845594F94dc1DB02A252b5b4814aD 0x7F23D86Ee20D869112572136221e173428DD740B 62249157 67532798,
        aaveMarketAt ''Core'' 0x794a61358D6845594F94dc1DB02A252b5b4814aD 0x14496b405D62c24F91f04Cda1c69Dc526D56fDE5 67532799 72592540,
        aaveMarketAt ''Core'' 0x794a61358D6845594F94dc1DB02A252b5b4814aD 0x243Aa95cAC2a25651eda86e80bEe66114413c43b 72592541 0]),
     (Monad, [aaveMarketAt ''Core'' 0x69a5F9AD4f96ebf0a0C792dD42a01cC5C0102fef 0xB65A68B98274ef7D9a60E0C0747dD1BEc3D32fad 81909763 0]),
     (Plasma, [aaveMarketAt ''Core'' 0x925a2A7214Ed92428B5b1B090F80b25700095e12 0xf2D6E38B407e31E7E7e4a16E6769728b76c7419F 489197 0]),
     (Avalanche, [aaveMarketAt ''Core'' 0x794a61358D6845594F94dc1DB02A252b5b4814aD 0x69FA688f1Dc47d4B5d8029D5a35FB7a548310654 11970506 28384510,
        aaveMarketAt ''Core'' 0x794a61358D6845594F94dc1DB02A252b5b4814aD 0x50ddd0Cd4266299527d25De9CBb55fE0EB8dAc30 28384511 47712700,
        aaveMarketAt ''Core'' 0x794a61358D6845594F94dc1DB02A252b5b4814aD 0x7deEB8aCE4220643D8edeC871a23807E4d006eE5 47712701 50972229,
        aaveMarketAt ''Core'' 0x794a61358D6845594F94dc1DB02A252b5b4814aD 0x7F23D86Ee20D869112572136221e173428DD740B 50972230 56836940,
        aaveMarketAt ''Core'' 0x794a61358D6845594F94dc1DB02A252b5b4814aD 0x14496b405D62c24F91f04Cda1c69Dc526D56fDE5 56836941 63632022,
        aaveMarketAt ''Core'' 0x794a61358D6845594F94dc1DB02A252b5b4814aD 0x243Aa95cAC2a25651eda86e80bEe66114413c43b 63632023 0]),
     (Optimism, [aaveMarketAt ''Core'' 0x794a61358D6845594F94dc1DB02A252b5b4814aD 0x69FA688f1Dc47d4B5d8029D5a35FB7a548310654 4365693 86483662,
        aaveMarketAt ''Core'' 0x794a61358D6845594F94dc1DB02A252b5b4814aD 0xd9Ca4878dd38B021583c1B669905592EAe76E044 86483663 122423343,
        aaveMarketAt ''Core'' 0x794a61358D6845594F94dc1DB02A252b5b4814aD 0x7deEB8aCE4220643D8edeC871a23807E4d006eE5 122423344 125827825,
        aaveMarketAt ''Core'' 0x794a61358D6845594F94dc1DB02A252b5b4814aD 0x7F23D86Ee20D869112572136221e173428DD740B 125827826 131542951,
        aaveMarketAt ''Core'' 0x794a61358D6845594F94dc1DB02A252b5b4814aD 0x14496b405D62c24F91f04Cda1c69Dc526D56fDE5 131542952 136976691,
        aaveMarketAt ''Core'' 0x794a61358D6845594F94dc1DB02A252b5b4814aD 0x243Aa95cAC2a25651eda86e80bEe66114413c43b 136976692 0])]"

text \<open>An adapter: its name, markets and vaults.\<close>

definition aaveAdapters :: "(string \<times> string \<times> (chain_id \<times> aaveMarket list) list \<times> (chain_id \<times> vaultConfig list) list) list" where
  "aaveAdapters = [(''aave-v3'', ''Aave v3'', aaveV3Markets, []),
   (''aave-v2'', ''Aave v2'', [
     (Ethereum, [aaveMarketAt ''Core'' 0x7d2768dE32b0b80b7a3454c06BdAc94A69DdC7A9 0x057835Ad21a177dbdd3090bB1CAE03EaCF78Fc6d 11362589 0]),
     (Polygon, [aaveMarketAt ''Core'' 0x8dFf5E27EA6b7AC08EbFdf9eB090F32ee9a30fcf 0x7551b5D2763519d4e37E8B81929D336De671d46d 12687302 0]),
     (Avalanche, [aaveMarketAt ''Core'' 0x4F01AeD16D97E3aB5ab2B501154DC9bb0F1A5A2C 0x65285E9dfab318f57051ab2b139ccCf232945451 4607174 0])], []),
   (''spark'', ''Spark'', [
     (Ethereum, [aaveMarketAt ''Core'' 0xC13e21B648A5Ee794902342038FF3aDAB66BE987 0xFc21d6d146E6086B8359705C8b28512a983db0cb 16776391 0])], sparkSavingsVaults),
   (''kinza'', ''Kinza'', [
     (BSC, [aaveMarketAt ''Core'' 0 0x09Ddc4AE826601b0F9671b9edffDf75e7E6f5D61 29232063 0])], []),
   (''seamless'', ''Seamless'', [
     (Base, [aaveMarketAt ''Core'' 0 0x2A0979257105834789bC6b9E1B00446DFbA8dFBa 3318562 0])], [])]"

section \<open>One deployment per label\<close>

text \<open>Windows that follow one another without a gap, the last one open.\<close>

fun chained :: "deploymentWindow list \<Rightarrow> bool" where
  "chained [] = False"
| "chained [w] = (DeactivationBlock w = 0)"
| "chained (w # v # ws) = (DeactivationBlock w \<noteq> 0 \<and> ActivationBlock w \<le> DeactivationBlock w
     \<and> ActivationBlock v = DeactivationBlock w + 1 \<and> DeactivationBlock w < ActivationBlock v \<and> chained (v # ws))"

lemma next_block: "d < d + 1 \<Longrightarrow> d + 1 \<le> b \<longleftrightarrow> d < b" for d b :: u64
  by unat_arith

lemma chained_active:
  "chained (w # ws) \<Longrightarrow> length (filter (\<lambda>v. deployment_ActiveAt v block) (w # ws)) = (if ActivationBlock w \<le> block then 1 else 0)"
proof (induction ws arbitrary: w)
  case Nil
  then show ?case by (auto simp: deployment_ActiveAt_def)
next
  case (Cons v ws)
  have w: "DeactivationBlock w \<noteq> 0" "ActivationBlock w \<le> DeactivationBlock w" and rest: "chained (v # ws)" using Cons.prems by auto
  have later: "ActivationBlock v \<le> block \<longleftrightarrow> DeactivationBlock w < block" using Cons.prems next_block [of "DeactivationBlock w" block] by auto
  have here: "deployment_ActiveAt w block \<longleftrightarrow> ActivationBlock w \<le> block \<and> block \<le> DeactivationBlock w"
    using w(1) by (auto simp: deployment_ActiveAt_def)
  have "length (filter (\<lambda>v. deployment_ActiveAt v block) (w # v # ws))
      = (if deployment_ActiveAt w block then 1 else 0) + length (filter (\<lambda>v. deployment_ActiveAt v block) (v # ws))" by simp
  also have "\<dots> = (if ActivationBlock w \<le> block \<and> block \<le> DeactivationBlock w then 1 else 0) + (if DeactivationBlock w < block then 1 else 0)"
    unfolding here Cons.IH [OF rest] later ..
  also have "\<dots> = (if ActivationBlock w \<le> block then 1 else 0)" using w(2) by auto
  finally show ?case .
qed

lemma active_aave_ok:
  assumes "distinct (map am_label (filter (\<lambda>m. deployment_ActiveAt (am_window m) block) ms))"
    and "set labels \<inter> am_label ` set (filter (\<lambda>m. deployment_ActiveAt (am_window m) block) ms) = {}"
  shows "active_aave block labels ms = Inr (filter (\<lambda>m. deployment_ActiveAt (am_window m) block) ms)"
  using assms
proof (induction block labels ms rule: active_aave.induct)
  case (2 block labels m ms)
  then show ?case by (cases "deployment_ActiveAt (am_window m) block") (auto simp: bindR_Inr_iff)
qed simp

definition labelled :: "string \<Rightarrow> aaveMarket list \<Rightarrow> deploymentWindow list" where
  "labelled l ms = map am_window (filter (\<lambda>m. am_label m = l) ms)"

definition labels_chained :: "aaveMarket list \<Rightarrow> bool" where
  "labels_chained ms \<longleftrightarrow> list_all (\<lambda>l. chained (labelled l ms)) (remdups (map am_label ms))"

lemma distinct_by_count: "(\<And>l. length (filter (\<lambda>x. x = l) xs) \<le> 1) \<Longrightarrow> distinct xs"
proof (induction xs)
  case (Cons x xs)
  have "length (filter (\<lambda>y. y = l) xs) \<le> 1" for l using Cons.prems [of l] by (auto split: if_splits)
  moreover have "filter (\<lambda>y. y = x) xs = []" using Cons.prems [of x] by simp
  ultimately show ?case using Cons.IH by (auto simp: filter_empty_conv)
qed simp

lemma labelled_active:
  "length (filter (\<lambda>x. x = l) (map am_label (filter (\<lambda>m. deployment_ActiveAt (am_window m) block) ms)))
     = length (filter (\<lambda>w. deployment_ActiveAt w block) (labelled l ms))"
  by (induction ms) (auto simp: labelled_def)

lemma chained_opened: "chained ws \<Longrightarrow> (\<exists>w \<in> set ws. ActivationBlock w \<le> block) \<longleftrightarrow> ActivationBlock (hd ws) \<le> block"
proof (induction ws rule: chained.induct)
  case (3 w v ws)
  have "ActivationBlock w \<le> ActivationBlock v" using 3(2) by auto
  then show ?case using 3 by (auto intro: order_trans)
qed auto

lemma one_per_label:
  assumes "labels_chained ms"
  shows "\<exists>active. active_aave block [] ms = Inr active \<and> distinct (map am_label active)
    \<and> set active = {m \<in> set ms. deployment_ActiveAt (am_window m) block}
    \<and> am_label ` set active = am_label ` {m \<in> set ms. ActivationBlock (am_window m) \<le> block}"
proof -
  let ?active = "filter (\<lambda>m. deployment_ActiveAt (am_window m) block) ms"
  have count: "length (filter (\<lambda>x. x = l) (map am_label ?active)) = (if \<exists>w \<in> set (labelled l ms). ActivationBlock w \<le> block then 1 else 0)" for l
  proof (cases "l \<in> am_label ` set ms")
    case True
    then have chain: "chained (labelled l ms)" using assms by (auto simp: labels_chained_def list_all_iff)
    then obtain w ws where "labelled l ms = w # ws" by (cases "labelled l ms") auto
    then show ?thesis unfolding labelled_active chained_opened [OF chain] using chained_active [of w ws block] chain by simp
  next
    case False
    then have "labelled l ms = []" by (auto simp: labelled_def filter_empty_conv)
    then show ?thesis unfolding labelled_active by simp
  qed
  have dist: "distinct (map am_label ?active)" by (rule distinct_by_count) (unfold count, simp)
  have "l \<in> am_label ` set ?active \<longleftrightarrow> l \<in> am_label ` {m \<in> set ms. ActivationBlock (am_window m) \<le> block}" for l
  proof -
    have "l \<in> set (map am_label ?active) \<longleftrightarrow> length (filter (\<lambda>x. x = l) (map am_label ?active)) \<noteq> 0" by (auto simp: filter_empty_conv)
    also have "\<dots> \<longleftrightarrow> (\<exists>w \<in> set (labelled l ms). ActivationBlock w \<le> block)" unfolding count by simp
    also have "\<dots> \<longleftrightarrow> l \<in> am_label ` {m \<in> set ms. ActivationBlock (am_window m) \<le> block}"
      by (auto simp: labelled_def intro: rev_image_eqI)
    finally show ?thesis by simp
  qed
  then show ?thesis using active_aave_ok [OF dist, of "[]"] dist by (intro exI [of _ ?active]) auto
qed

text \<open>The labels and windows of the tables, read off once.\<close>

definition market_windows :: "(chain_id \<times> aaveMarket list) list \<Rightarrow> (chain_id \<times> (string \<times> u64 \<times> u64) list) list" where
  "market_windows markets = map (\<lambda>(c, ms). (c, map (\<lambda>m. (am_label m, ActivationBlock (am_window m), DeactivationBlock (am_window m))) ms)) markets"

lemma aave_windows: "map (\<lambda>(i, name, markets, vaults). (i, market_windows markets)) aaveAdapters =
    [(''aave-v3'', [(Ethereum, [(''Core'', 16291078, 20261938), (''Core'', 20261939, 20827146), (''Core'', 20827147, 21780616), (''Core'', 21780617, 22686777), (''Core'', 22686778, 0), (''Prime'', 21780567, 22686914), (''Prime'', 22686915, 0), (''EtherFi'', 20625515, 20830503), (''EtherFi'', 20830504, 21780262), (''EtherFi'', 21780263, 22686935), (''EtherFi'', 22686936, 0), (''Horizon'', 23125531, 0)]),
       (BSC, [(''Core'', 46367909, 51262444), (''Core'', 51262445, 0)]),
       (Base, [(''Core'', 25954709, 31377574), (''Core'', 31377575, 0)]),
       (Arbitrum, [(''Core'', 302650382, 345855960), (''Core'', 345855961, 0)]),
       (Polygon, [(''Core'', 25826028, 41174631), (''Core'', 41174632, 59108788), (''Core'', 59108789, 62249156), (''Core'', 62249157, 67532798), (''Core'', 67532799, 72592540), (''Core'', 72592541, 0)]),
       (Monad, [(''Core'', 81909763, 0)]),
       (Plasma, [(''Core'', 489197, 0)]),
       (Avalanche, [(''Core'', 11970506, 28384510), (''Core'', 28384511, 47712700), (''Core'', 47712701, 50972229), (''Core'', 50972230, 56836940), (''Core'', 56836941, 63632022), (''Core'', 63632023, 0)]),
       (Optimism, [(''Core'', 4365693, 86483662), (''Core'', 86483663, 122423343), (''Core'', 122423344, 125827825), (''Core'', 125827826, 131542951), (''Core'', 131542952, 136976691), (''Core'', 136976692, 0)])]),
     (''aave-v2'', [(Ethereum, [(''Core'', 11362589, 0)]),
       (Polygon, [(''Core'', 12687302, 0)]),
       (Avalanche, [(''Core'', 4607174, 0)])]),
     (''spark'', [(Ethereum, [(''Core'', 16776391, 0)])]),
     (''kinza'', [(BSC, [(''Core'', 29232063, 0)])]),
     (''seamless'', [(Base, [(''Core'', 3318562, 0)])])]"
  by (simp add: aaveAdapters_def aaveV3Markets_def market_windows_def aaveMarketAt_def)

definition window_of :: "string \<times> u64 \<times> u64 \<Rightarrow> deploymentWindow" where
  "window_of r = \<lparr>ActivationBlock = fst (snd r), DeactivationBlock = snd (snd r)\<rparr>"

definition rows_chained :: "(string \<times> u64 \<times> u64) list \<Rightarrow> bool" where
  "rows_chained rows \<longleftrightarrow> list_all (\<lambda>l. chained (map window_of (filter (\<lambda>r. fst r = l) rows))) (remdups (map fst rows))"

lemma rows_chained_labels:
  "rows_chained (map (\<lambda>m. (am_label m, ActivationBlock (am_window m), DeactivationBlock (am_window m))) ms) = labels_chained ms"
proof -
  have "map window_of (filter (\<lambda>r. fst r = l) (map (\<lambda>m. (am_label m, ActivationBlock (am_window m), DeactivationBlock (am_window m))) ms)) = labelled l ms" for l
    by (induction ms) (simp_all add: labelled_def window_of_def)
  then show ?thesis by (simp add: rows_chained_def labels_chained_def comp_def)
qed

lemma aave_rows_chained:
  "list_all (\<lambda>(i, markets). list_all (\<lambda>(c, rows). rows_chained rows) markets)
     (map (\<lambda>(i, name, markets, vaults). (i, market_windows markets)) aaveAdapters)"
  unfolding aave_windows by code_simp

lemma aave_labels_chained:
  assumes "(i, name, markets, vaults) \<in> set aaveAdapters"
  shows "labels_chained (chain_entries markets chain)"
proof (cases "map_of markets chain")
  case None
  then show ?thesis by (simp add: chain_entries_def labels_chained_def)
next
  case (Some ms)
  have "list_all (\<lambda>(c, rows). rows_chained rows) (market_windows markets)"
    using aave_rows_chained assms unfolding list_all_iff set_map by fastforce
  then have "labels_chained ms" using map_of_SomeD [OF Some] by (auto simp: market_windows_def list_all_iff rows_chained_labels)
  then show ?thesis using Some by (simp add: chain_entries_def)
qed

section \<open>What a market reports\<close>

definition user_call :: "address \<Rightarrow> address \<Rightarrow> aaveReserve \<Rightarrow> contract_call" where
  "user_call provider account r = view_call provider ''getUserReserveData'' [AbiAddress (rv_token r), AbiAddress account]"

definition state_reserve :: "(contract_call \<Rightarrow> abi_value list option) \<Rightarrow> chain_id \<Rightarrow> address \<Rightarrow> address \<Rightarrow> aaveReserve \<Rightarrow> aaveUserReserve" where
  "state_reserve answer chain provider account r =
     \<lparr>ur_token = \<lparr>tok_chain = chain, tok_address = rv_token r, tok_symbol = rv_symbol r,
        tok_decimals = answered answer (\<lambda>row. Uint8At row 0) 0 (view_call (rv_token r) ''decimals'' [])\<rparr>,
      ur_supply = answered_int answer (user_call provider account r) 0, ur_stableDebt = answered_int answer (user_call provider account r) 1,
      ur_variableDebt = answered_int answer (user_call provider account r) 2,
      ur_collateral = answered answer (\<lambda>row. BoolAt row 8) False (user_call provider account r)\<rparr>"

definition state_holds :: "(contract_call \<Rightarrow> abi_value list option) \<Rightarrow> address \<Rightarrow> address \<Rightarrow> address list" where
  "state_holds answer provider a = map (\<lambda>k. answered answer (\<lambda>row. AddressAt row k) 0 (reserve_tokens_call provider a)) [0, 1, 2]"

definition reserve_state_report :: "(contract_call \<Rightarrow> abi_value list option) \<Rightarrow> chain_id \<Rightarrow> address \<Rightarrow> address \<Rightarrow> aaveReserve \<Rightarrow> component list" where
  "reserve_state_report answer chain provider account r =
     reserve_components provider (state_reserve answer chain provider account r, state_holds answer provider (rv_token r))"

definition has_amount :: "aaveUserReserve \<Rightarrow> bool" where
  "has_amount p \<longleftrightarrow> \<not> (ur_supply p = 0 \<and> ur_stableDebt p = 0 \<and> ur_variableDebt p = 0)"

lemma no_amount_components: "\<not> has_amount p \<Longrightarrow> reserve_components provider (p, holds) = []"
  by (simp add: has_amount_def reserve_components_def reserve_component_def)

lemma state_reserve_token: "tok_address (ur_token (state_reserve answer chain provider account r)) = rv_token r"
  by (simp add: state_reserve_def)

lemma answeredI: "answer c = Some row \<Longrightarrow> decode row = Inr a \<Longrightarrow> answered answer decode missing c = a"
  by (simp add: answered_def)

context pinned_reads
begin

lemma user_reserve_read:
  assumes "user_reserve chain r userData decimalsData = Inr own" "answer (user_call provider account r) = Some userData"
    "answer (view_call (rv_token r) ''decimals'' []) = Some decimalsData"
  shows "own = filter has_amount [state_reserve answer chain provider account r]"
  using assms
  by (auto simp: user_reserve_def bindR_Inr_iff liftE_Inr state_reserve_def has_amount_def answered_int_def answered_def)

lemma user_reserves_read:
  assumes "client_calls client (pre @ reserve_calls provider account rs) = Inr rows" "length pre = 2 * i"
    and "user_reserves chain rows i rs = Inr ps"
  shows "ps = filter has_amount (map (state_reserve answer chain provider account) rs)"
  using assms
proof (induction rs arbitrary: pre i ps)
  case (Cons r rs)
  have calls: "pre @ reserve_calls provider account (r # rs)
      = (pre @ [user_call provider account r, view_call (rv_token r) ''decimals'' []]) @ reserve_calls provider account rs"
    by (simp add: reserve_calls_def user_call_def)
  obtain own rest where steps: "2 * i < length rows" "2 * i + 1 < length rows" "user_reserve chain r (rows ! (2 * i)) (rows ! (2 * i + 1)) = Inr own"
      "user_reserves chain rows (Suc i) rs = Inr rest" "ps = own @ rest"
    using Cons.prems(3) by (auto simp: bindR_Inr_iff index_or_panic_Inr)
  note nth = calls_nth [OF Cons.prems(1)]
  have "answer (user_call provider account r) = Some (rows ! (2 * i))"
    using nth(2) [of "2 * i"] steps(1) nth(1) Cons.prems(2) unfolding calls by (simp add: nth_append)
  moreover have "answer (view_call (rv_token r) ''decimals'' []) = Some (rows ! (2 * i + 1))"
    using nth(2) [of "2 * i + 1"] steps(2) nth(1) Cons.prems(2) unfolding calls by (simp add: nth_append)
  ultimately have "own = filter has_amount [state_reserve answer chain provider account r]" by (rule user_reserve_read [OF steps(3)])
  moreover have "rest = filter has_amount (map (state_reserve answer chain provider account) rs)"
    using Cons.IH [OF Cons.prems(1) [unfolded calls] _ steps(4)] Cons.prems(2) by simp
  ultimately show ?case using steps(5) by simp
qed simp

lemma held_tokens_read:
  assumes "held_tokens (p, row) = Inr ph" "answer (reserve_tokens_call provider (tok_address (ur_token p))) = Some row"
  shows "ph = (p, state_holds answer provider (tok_address (ur_token p)))
    \<and> (\<forall>c \<in> set (reserve_components provider ph). \<exists>h. src_holds (comp_source c) = Some [h] \<and> h \<noteq> 0)"
proof -
  obtain a b c where abc: "held_token p row (0, ur_supply p) = Inr a" "held_token p row (1, ur_stableDebt p) = Inr b"
      "held_token p row (2, ur_variableDebt p) = Inr c" "ph = (p, [a, b, c])"
    using assms(1) by (auto simp: held_tokens_def bindR_Inr_iff)
  have one: "AddressAt row (int k) = Inr h \<and> (n > 0 \<longrightarrow> h \<noteq> 0)" if "held_token p row (k, n) = Inr h" for k n h
    using that by (auto simp: held_token_def bindR_Inr_iff liftE_Inr split: if_splits)
  have "state_holds answer provider (tok_address (ur_token p)) = [a, b, c]"
    using one [OF abc(1)] one [OF abc(2)] one [OF abc(3)] assms(2) by (simp add: state_holds_def answered_def)
  moreover have "\<forall>c \<in> set (reserve_components provider ph). \<exists>h. src_holds (comp_source c) = Some [h] \<and> h \<noteq> 0"
    using one [OF abc(1)] one [OF abc(2)] one [OF abc(3)]
    by (auto simp: abc(4) reserve_components_def reserve_component_def read_holding_def NewComponent_def)
  ultimately show ?thesis using abc(4) by simp
qed

lemma heldTokens_read:
  assumes "readAaveHeldTokens client provider ps = Inr held"
  shows "held = map (\<lambda>p. (p, state_holds answer provider (tok_address (ur_token p)))) ps
    \<and> (\<forall>ph \<in> set held. \<forall>c \<in> set (reserve_components provider ph). \<exists>h. src_holds (comp_source c) = Some [h] \<and> h \<noteq> 0)"
proof -
  obtain rows where rows: "client_calls client (map (\<lambda>p. reserve_tokens_call provider (tok_address (ur_token p))) ps) = Inr rows"
      "list_all2 (\<lambda>pr ph. held_tokens pr = Inr ph) (zip ps rows) held"
    using assms by (auto simp: readAaveHeldTokens_def bindR_Inr_iff liftE_Inr mapR_Inr_iff)
  note nth = calls_nth [OF rows(1)]
  have len: "length held = length ps" using list_all2_lengthD [OF rows(2)] nth(1) by simp
  have each: "held ! i = (ps ! i, state_holds answer provider (tok_address (ur_token (ps ! i))))
      \<and> (\<forall>c \<in> set (reserve_components provider (held ! i)). \<exists>h. src_holds (comp_source c) = Some [h] \<and> h \<noteq> 0)" if i: "i < length ps" for i
  proof -
    have "held_tokens (ps ! i, rows ! i) = Inr (held ! i)" using rows(2) i nth(1) by (auto simp: list_all2_conv_all_nth)
    moreover have "answer (reserve_tokens_call provider (tok_address (ur_token (ps ! i)))) = Some (rows ! i)" using nth(2) [of i] i by simp
    ultimately show ?thesis by (rule held_tokens_read)
  qed
  then have "held = map (\<lambda>p. (p, state_holds answer provider (tok_address (ur_token p)))) ps" using len by (simp add: list_eq_iff_nth_eq)
  moreover have "\<forall>ph \<in> set held. \<forall>c \<in> set (reserve_components provider ph). \<exists>h. src_holds (comp_source c) = Some [h] \<and> h \<noteq> 0"
    using each len by (metis in_set_conv_nth)
  ultimately show ?thesis by blast
qed

lemma aave_lending_read:
  assumes "lending_components client block account m reserves = Inr cs"
  shows "cs = concat (map (reserve_state_report answer (block_chain block) (am_provider m) account) reserves)
    \<and> (\<forall>c \<in> set cs. \<exists>h. src_holds (comp_source c) = Some [h] \<and> h \<noteq> 0)"
proof -
  obtain rows ps held where parts: "client_calls client (reserve_calls (am_provider m) account reserves) = Inr rows"
      "user_reserves (block_chain block) rows 0 reserves = Inr ps" "readAaveHeldTokens client (am_provider m) ps = Inr held"
      "cs = concat (map (reserve_components (am_provider m)) held)"
    using assms by (auto simp: lending_components_def bindR_Inr_iff liftE_Inr)
  have ps: "ps = filter has_amount (map (state_reserve answer (block_chain block) (am_provider m) account) reserves)"
    using user_reserves_read [of "[]"] parts(1,2) by simp
  note held = heldTokens_read [OF parts(3)]
  have report: "concat (map (reserve_components (am_provider m)) (map (\<lambda>p. (p, state_holds answer (am_provider m) (tok_address (ur_token p))))
      (filter has_amount (map (state_reserve answer (block_chain block) (am_provider m) account) rs))))
    = concat (map (reserve_state_report answer (block_chain block) (am_provider m) account) rs)" for rs
    by (induction rs) (simp_all add: reserve_state_report_def no_amount_components state_reserve_token)
  have "held = map (\<lambda>p. (p, state_holds answer (am_provider m) (tok_address (ur_token p)))) ps" using held by (rule conjunct1)
  then have "cs = concat (map (reserve_state_report answer (block_chain block) (am_provider m) account) reserves)"
    unfolding parts(4) ps by (simp only: report)
  moreover have "\<forall>c \<in> set cs. \<exists>h. src_holds (comp_source c) = Some [h] \<and> h \<noteq> 0" using conjunct2 [OF held] unfolding parts(4) by auto
  ultimately show ?thesis by (rule conjI)
qed

end

end
