(* ===== verification/EvmPositions.thy ===== *)
theory EvmPositions
  imports CompoundV2 Aave Availability Engine
begin

text \<open>
  What the modelled EVM adapters together promise the engine: the blocks they report from are those the
  availability table opens (\<open>protocol_availability.go\<close> against the adapters' own tables), and a holding they
  claim from the wallet was really there. The exactness of their reports is stated here over a node.
\<close>

section \<open>The envelope\<close>

text \<open>The first block of every independently gated part of an adapter on a chain.\<close>

definition window_starts :: "availabilityWindow list \<Rightarrow> u64 list" where
  "window_starts ws = map (\<lambda>w. ActivationBlock (window_bounds w)) (filter configured ws)"

definition compound_windows :: "compoundV2Deployment \<Rightarrow> availabilityWindow list" where
  "compound_windows d = cd_comptroller_window d # map sm_window (cd_staking d) @ map dm_window (cd_distributors d)
     @ (if cd_lens d \<noteq> 0 then [cd_lens_window d] else []) @ (if cd_multi d \<noteq> 0 then [cd_multi_window d] else [])"

definition adapter_table :: "(string \<times> string \<times> 'a list) list \<Rightarrow> string \<Rightarrow> 'a list" where
  "adapter_table adapters i = (case map_of adapters i of None \<Rightarrow> [] | Some (name, table) \<Rightarrow> table)"

text \<open>The Aave adapters by their markets, by their vaults, and what is read beside them on Ethereum.\<close>

definition aave_markets :: "(string \<times> string \<times> (chain_id \<times> aaveMarket list) list) list" where
  "aave_markets = map (\<lambda>(i, name, markets, vaults). (i, name, markets)) aaveAdapters"

definition aave_vaults :: "(string \<times> string \<times> (chain_id \<times> vaultConfig list) list) list" where
  "aave_vaults = map (\<lambda>(i, name, markets, vaults). (i, name, vaults)) aaveAdapters"

definition sidecar_runs :: "string \<Rightarrow> u64 \<Rightarrow> bool" where
  "sidecar_runs i block \<longleftrightarrow> i = ''aave-v2'' \<and> list_ex (\<lambda>d. deployment_ActiveAt (sd_window d) block) ethereumAaveV2SafetyModules
     \<or> i = ''aave-v3'' \<and> (list_ex (\<lambda>d. deployment_ActiveAt (sd_window d) block) ethereumAaveV3SafetyModules
       \<or> list_ex (\<lambda>s. deployment_ActiveAt (us_window s) block) (ud_stakes ethereumAaveV3Umbrella)
       \<or> activeVaultsAt sgho_vaults block \<noteq> [] \<or> aaveStataFactoryActivation \<le> block)"

definition sidecar_starts :: "string \<Rightarrow> u64 list" where
  "sidecar_starts i = (if i = ''aave-v2'' then [10927018, 11751685, 19034135]
     else if i = ''aave-v3'' then [19027929, 22638170, 22638170, 22638170, 22638170, 25028623, 18627030] else [])"

text \<open>Some part of the adapter reads a contract at the block.\<close>

definition runs_at :: "string \<Rightarrow> chain_id \<Rightarrow> u64 \<Rightarrow> bool" where
  "runs_at i chain block \<longleftrightarrow>
     activeVaultsAt (chain_entries (adapter_table erc4626Adapters i) chain) block \<noteq> []
     \<or> filter (\<lambda>p. cb_activation p \<le> block) (chain_entries (adapter_table lstAdapters i) chain) \<noteq> []
     \<or> i = ''compound-v3'' \<and> activeMarkets compoundV3Markets chain block \<noteq> []
     \<or> (case map_of (adapter_table compoundV2Adapters i) chain of None \<Rightarrow> False
         | Some d \<Rightarrow> list_ex (\<lambda>w. window_ActiveAt w block) (compound_windows d))
     \<or> list_ex (\<lambda>m. deployment_ActiveAt (am_window m) block) (chain_entries (adapter_table aave_markets i) chain)
     \<or> activeVaultsAt (chain_entries (adapter_table aave_vaults i) chain) block \<noteq> []
     \<or> chain = Ethereum \<and> sidecar_runs i block"

definition enveloped :: "string list" where
  "enveloped = map fst erc4626Adapters @ map fst lstAdapters @ ''compound-v3'' # map fst compoundV2Adapters @ map fst aaveAdapters"

definition run_starts :: "string \<Rightarrow> chain_id \<Rightarrow> u64 list" where
  "run_starts i chain = map vt_activation (chain_entries (adapter_table erc4626Adapters i) chain)
     @ map cb_activation (chain_entries (adapter_table lstAdapters i) chain)
     @ (if i = ''compound-v3'' then map (ActivationBlock \<circ> cm_window) (chain_entries compoundV3Markets chain) else [])
     @ (case map_of (adapter_table compoundV2Adapters i) chain of None \<Rightarrow> [] | Some d \<Rightarrow> window_starts (compound_windows d))
     @ map (ActivationBlock \<circ> am_window) (chain_entries (adapter_table aave_markets i) chain)
     @ map vt_activation (chain_entries (adapter_table aave_vaults i) chain)
     @ (if chain = Ethereum then sidecar_starts i else [])"

text \<open>No window of the other tables closes, so each is active from its start; of an Aave label the next takes over.\<close>

definition unclosed :: "availabilityWindow list \<Rightarrow> bool" where
  "unclosed ws \<longleftrightarrow> list_all (\<lambda>w. DeactivationBlock (window_bounds w) = 0) ws"

definition opened :: "u64 list \<Rightarrow> u64 \<Rightarrow> bool" where
  "opened starts block \<longleftrightarrow> list_ex (\<lambda>s. s \<le> block) starts"

lemma opened_windows: "unclosed ws \<Longrightarrow> list_ex (\<lambda>w. window_ActiveAt w block) ws \<longleftrightarrow> opened (window_starts ws) block"
  by (induction ws) (auto simp: unclosed_def opened_def window_starts_def window_ActiveAt_def deployment_ActiveAt_def)

definition first_start :: "u64 list \<Rightarrow> u64 option" where
  "first_start starts = (case starts of [] \<Rightarrow> None | s # ss \<Rightarrow> Some (foldl min s ss))"

lemma foldl_min_le: "foldl min s ss \<le> block \<longleftrightarrow> s \<le> block \<or> list_ex (\<lambda>t. t \<le> block) ss" for s block :: u64
  by (induction ss arbitrary: s) (auto simp: min_le_iff_disj)

lemma opened_first: "opened starts block \<longleftrightarrow> (case first_start starts of None \<Rightarrow> False | Some s \<Rightarrow> s \<le> block)"
  by (cases starts) (auto simp: opened_def first_start_def foldl_min_le)

lemma nonempty_filter: "filter P xs \<noteq> [] \<longleftrightarrow> list_ex P xs"
  by (induction xs) auto

lemma aave_market_labels: "labels_chained (chain_entries (adapter_table aave_markets i) chain)"
proof (cases "map_of aave_markets i")
  case None
  then show ?thesis by (simp add: adapter_table_def chain_entries_def labels_chained_def)
next
  case (Some e)
  obtain name markets where e: "e = (name, markets)" by fastforce
  have "(i, name, markets) \<in> set aave_markets" using Some e by (simp add: map_of_SomeD)
  then obtain vaults where "(i, name, markets, vaults) \<in> set aaveAdapters" by (auto simp: aave_markets_def)
  from aave_labels_chained [OF this] show ?thesis using Some e by (simp add: adapter_table_def)
qed

lemma labels_opened:
  assumes "labels_chained ms"
  shows "list_ex (\<lambda>m. deployment_ActiveAt (am_window m) block) ms \<longleftrightarrow> opened (map (ActivationBlock \<circ> am_window) ms) block"
proof -
  obtain active where active: "set active = {m \<in> set ms. deployment_ActiveAt (am_window m) block}"
      "am_label ` set active = am_label ` {m \<in> set ms. ActivationBlock (am_window m) \<le> block}"
    using one_per_label [OF assms] by blast
  have "set active = {} \<longleftrightarrow> {m \<in> set ms. ActivationBlock (am_window m) \<le> block} = {}"
    using active(2) by (simp only: image_is_empty [of am_label, symmetric])
  then have "(\<exists>m \<in> set ms. deployment_ActiveAt (am_window m) block) \<longleftrightarrow> (\<exists>m \<in> set ms. ActivationBlock (am_window m) \<le> block)"
    unfolding active(1) by blast
  then show ?thesis unfolding opened_def list_ex_iff set_map bex_simps comp_def .
qed

lemma since_ActiveAt: "deployment_ActiveAt (since n) block \<longleftrightarrow> n \<le> block"
  by (auto simp: deployment_ActiveAt_def since_def)

lemma sidecar_opened: "sidecar_runs i block \<longleftrightarrow> opened (sidecar_starts i) block"
proof -
  have "list_ex (\<lambda>d. deployment_ActiveAt (sd_window d) block) ethereumAaveV2SafetyModules \<longleftrightarrow> opened [10927018, 11751685, 19034135] block"
    unfolding ethereumAaveV2SafetyModules_def opened_def list_ex_Cons_iff list_ex_Nil_iff aaveSafetyModuleDeployment.select_convs since_ActiveAt ..
  moreover have "list_ex (\<lambda>d. deployment_ActiveAt (sd_window d) block) ethereumAaveV3SafetyModules \<longleftrightarrow> opened [19027929] block"
    unfolding ethereumAaveV3SafetyModules_def opened_def list_ex_Cons_iff list_ex_Nil_iff aaveSafetyModuleDeployment.select_convs since_ActiveAt ..
  moreover have "list_ex (\<lambda>s. deployment_ActiveAt (us_window s) block) (ud_stakes ethereumAaveV3Umbrella)
      \<longleftrightarrow> opened [22638170, 22638170, 22638170, 22638170] block"
    unfolding ethereumAaveV3Umbrella_def opened_def list_ex_Cons_iff list_ex_Nil_iff aaveUmbrellaDeployment.select_convs aaveUmbrellaStakeAsset.select_convs since_ActiveAt ..
  moreover have "activeVaultsAt sgho_vaults block \<noteq> [] \<longleftrightarrow> opened [25028623] block"
    by (simp add: activeVaultsAt_def sgho_vaults_def vault_def opened_def)
  moreover have "aaveStataFactoryActivation \<le> block \<longleftrightarrow> opened [18627030] block"
    by (simp add: aaveStataFactoryActivation_def opened_def)
  ultimately show ?thesis unfolding sidecar_runs_def sidecar_starts_def by (auto simp: opened_def)
qed

lemma opened_append: "opened (xs @ ys) block \<longleftrightarrow> opened xs block \<or> opened ys block"
  by (simp add: opened_def)

lemma opened_map: "opened (map f xs) block \<longleftrightarrow> list_ex (\<lambda>x. f x \<le> block) xs"
  by (simp add: opened_def list_ex_iff)

lemma opened_if: "opened (if b then xs else []) block \<longleftrightarrow> b \<and> opened xs block"
  by (simp add: opened_def)

lemma runs_opened:
  assumes "list_all (\<lambda>m. DeactivationBlock (cm_window m) = 0) (chain_entries compoundV3Markets chain)"
    and "case map_of (adapter_table compoundV2Adapters i) chain of None \<Rightarrow> True | Some d \<Rightarrow> unclosed (compound_windows d)"
  shows "runs_at i chain block \<longleftrightarrow> opened (run_starts i chain) block"
proof -
  have "list_ex (\<lambda>m. deployment_ActiveAt (cm_window m) block) ms \<longleftrightarrow> opened (map (ActivationBlock \<circ> cm_window) ms) block"
    if "list_all (\<lambda>m. DeactivationBlock (cm_window m) = 0) ms" for ms
    using that by (induction ms) (auto simp: opened_def deployment_ActiveAt_def)
  note markets = this [OF assms(1)]
  have compound: "(case map_of (adapter_table compoundV2Adapters i) chain of None \<Rightarrow> False | Some d \<Rightarrow> list_ex (\<lambda>w. window_ActiveAt w block) (compound_windows d))
      \<longleftrightarrow> opened (case map_of (adapter_table compoundV2Adapters i) chain of None \<Rightarrow> [] | Some d \<Rightarrow> window_starts (compound_windows d)) block"
    using assms(2) by (simp add: opened_windows opened_def [of "[]"] split: option.splits)
  show ?thesis
    unfolding runs_at_def run_starts_def opened_append opened_if compound labels_opened [OF aave_market_labels] sidecar_opened
      activeVaultsAt_def activeMarkets_def nonempty_filter markets opened_map [of vt_activation] opened_map [of cb_activation] ..
qed

text \<open>The starts of each adapter's table, read off once.\<close>

definition table_starts :: "('a \<Rightarrow> 'b) \<Rightarrow> (string \<times> string \<times> (chain_id \<times> 'a) list) list \<Rightarrow> (string \<times> (chain_id \<times> 'b) list) list" where
  "table_starts f adapters = map (\<lambda>(i, name, table). (i, map (\<lambda>(c, x). (c, f x)) table)) adapters"

definition starts_at :: "(string \<times> (chain_id \<times> u64 list) list) list \<Rightarrow> string \<Rightarrow> chain_id \<Rightarrow> u64 list" where
  "starts_at tables i chain = (case map_of tables i of None \<Rightarrow> [] | Some table \<Rightarrow> chain_entries table chain)"

lemma map_of_entries: "map_of (map (\<lambda>(c, x). (c, f x)) table) c = map_option f (map_of table c)"
  by (induction table) auto

lemma map_of_table_starts:
  "map_of (table_starts f adapters) i = map_option (\<lambda>(name, table). map (\<lambda>(c, x). (c, f x)) table) (map_of adapters i)"
  unfolding table_starts_def by (induction adapters) auto

lemma aave_starts: "table_starts (map (ActivationBlock \<circ> am_window)) aave_markets =
    [(''aave-v3'', [(Ethereum, [16291078, 20261939, 20827147, 21780617, 22686778, 21780567, 22686915, 20625515, 20830504, 21780263, 22686936, 23125531]), (BSC, [46367909, 51262445]), (Base, [25954709, 31377575]), (Arbitrum, [302650382, 345855961]), (Polygon, [25826028, 41174632, 59108789, 62249157, 67532799, 72592541]), (Monad, [81909763]), (Plasma, [489197]), (Avalanche, [11970506, 28384511, 47712701, 50972230, 56836941, 63632023]), (Optimism, [4365693, 86483663, 122423344, 125827826, 131542952, 136976692])]),
     (''aave-v2'', [(Ethereum, [11362589]), (Polygon, [12687302]), (Avalanche, [4607174])]),
     (''spark'', [(Ethereum, [16776391])]),
     (''kinza'', [(BSC, [29232063])]),
     (''seamless'', [(Base, [3318562])])]"
  by (simp add: table_starts_def aave_markets_def aaveAdapters_def aaveV3Markets_def aaveMarketAt_def)

lemma savings_starts: "table_starts (map vt_activation) aave_vaults =
    [(''aave-v3'', []), (''aave-v2'', []), (''spark'', [(Ethereum, [21969024, 23484422, 23919207, 23484439, 23484474]), (Base, [27123520]), (Arbitrum, [311940473, 476542096]), (Avalanche, [69983672]), (Optimism, [136322256])]),
     (''kinza'', []), (''seamless'', [])]"
  by (simp add: table_starts_def aave_vaults_def aaveAdapters_def sparkSavingsVaults_def vault_def)

lemma starts_at_entries:
  "starts_at (table_starts (map f) adapters) i chain = map f (chain_entries (adapter_table adapters i) chain)"
  by (simp add: starts_at_def map_of_table_starts adapter_table_def chain_entries_def map_of_entries split: option.split prod.split)

lemma starts_at_windows:
  "starts_at (table_starts (window_starts \<circ> compound_windows) adapters) i chain
     = (case map_of (adapter_table adapters i) chain of None \<Rightarrow> [] | Some d \<Rightarrow> window_starts (compound_windows d))"
  by (simp add: starts_at_def map_of_table_starts adapter_table_def chain_entries_def map_of_entries split: option.split prod.split)

lemma vault_starts: "table_starts (map vt_activation) erc4626Adapters =
    [(''fluid-lite'', [(Ethereum, [16609585])]), (''cap'', [(Ethereum, [22874057])]), (''ethena'', [(Ethereum, [18571359, 20713442])]),
     (''usdd'', [(Ethereum, [23275147]), (BSC, [63887220])]), (''unitas'', [(BSC, [69059010])])]"
  by (simp add: table_starts_def erc4626Adapters_def vault_def)

lemma converted_starts: "table_starts (map cb_activation) lstAdapters = [(''liquid-collective'', [(Ethereum, [15676402])])]"
  by (simp add: table_starts_def lstAdapters_def)

definition comet_starts :: "(chain_id \<times> u64 list) list" where
  "comet_starts = [(Ethereum, [15331586, 20987551, 20190637, 21820087, 16400710, 20683535]),
     (Base, [20852405, 2197588, 11699480, 26046502, 2495303]), (Arbitrum, [87335214, 122080500, 223796350, 219386101]),
     (Polygon, [39412367, 58479907]), (Optimism, [118406276, 120295564, 122730232])]"

lemma comets_read_off:
  "map (\<lambda>(c, ms). (c, map (ActivationBlock \<circ> cm_window) ms)) compoundV3Markets = comet_starts"
  "list_all (\<lambda>(c, ms). list_all (\<lambda>m. DeactivationBlock (cm_window m) = 0) ms) compoundV3Markets"
  by (simp_all add: compoundV3Markets_def comet_starts_def comet_def)

lemma compound_starts: "table_starts (window_starts \<circ> compound_windows) compoundV2Adapters =
    [(''compound-v2'', [(Ethereum, [10271924, 13468648])]),
     (''moonwell'', [(Base, [2162402, 12187715, 2162417]), (Optimism, [122531304, 122531322])]), (''flux-finance'', [(Ethereum, [16520940])]),
     (''sonne'', [(Base, [2492954]), (Optimism, [26050163, 25840175, 25840274])]), (''lodestar'', [(Arbitrum, [111013008])])]"
  by (simp add: table_starts_def compoundV2Adapters_def comptroller_only_def compound_windows_def window_starts_def window_from_def availableFrom_def
      no_window_def)

lemma compound_unclosed:
  "list_all (\<lambda>(i, name, table). list_all (\<lambda>(c, d). unclosed (compound_windows d)) table) compoundV2Adapters"
  by (simp add: compoundV2Adapters_def comptroller_only_def compound_windows_def unclosed_def window_from_def availableFrom_def no_window_def)

definition read_off :: "string \<Rightarrow> chain_id \<Rightarrow> u64 list" where
  "read_off i chain = starts_at (table_starts (map vt_activation) erc4626Adapters) i chain
     @ starts_at (table_starts (map cb_activation) lstAdapters) i chain
     @ (if i = ''compound-v3'' then chain_entries comet_starts chain else [])
     @ starts_at (table_starts (window_starts \<circ> compound_windows) compoundV2Adapters) i chain
     @ starts_at (table_starts (map (ActivationBlock \<circ> am_window)) aave_markets) i chain
     @ starts_at (table_starts (map vt_activation) aave_vaults) i chain
     @ (if chain = Ethereum then sidecar_starts i else [])"

lemma run_starts_read_off: "run_starts i chain = read_off i chain"
proof -
  have "chain_entries comet_starts chain = map (ActivationBlock \<circ> cm_window) (chain_entries compoundV3Markets chain)"
    by (simp add: comets_read_off(1) [symmetric] chain_entries_def map_of_entries split: option.split)
  then show ?thesis by (simp add: run_starts_def read_off_def starts_at_entries starts_at_windows)
qed

lemma markets_unclosed: "list_all (\<lambda>m. DeactivationBlock (cm_window m) = 0) (chain_entries compoundV3Markets chain)"
proof (cases "map_of compoundV3Markets chain")
  case (Some ms)
  then have "(chain, ms) \<in> set compoundV3Markets" by (rule map_of_SomeD)
  then show ?thesis using comets_read_off(2) Some by (auto simp: chain_entries_def list_all_iff)
qed (simp add: chain_entries_def)

lemma deployments_unclosed: "case map_of (adapter_table compoundV2Adapters i) chain of None \<Rightarrow> True | Some d \<Rightarrow> unclosed (compound_windows d)"
  using compound_unclosed by (fastforce simp: adapter_table_def list_all_iff split: option.split dest!: map_of_SomeD)

lemma runs_read_off: "runs_at i chain block \<longleftrightarrow> opened (read_off i chain) block"
  using runs_opened [OF markets_unclosed deployments_unclosed] by (simp add: run_starts_read_off)

text \<open>The check of every adapter and chain.\<close>

definition envelope_row :: "string \<Rightarrow> chain_availability \<Rightarrow> bool" where
  "envelope_row i row \<longleftrightarrow> list_all (\<lambda>(c, ws). unclosed ws \<and> first_start (window_starts ws) = first_start (read_off i c)) row
     \<and> list_all (\<lambda>c. c \<in> set (map fst row) \<or> read_off i c = []) SupportedChainIDs"

lemmas read_off_code = read_off_def [unfolded vault_starts converted_starts compound_starts aave_starts savings_starts]

lemma enveloped_code: "enveloped = [''fluid-lite'', ''cap'', ''ethena'', ''usdd'', ''unitas'', ''liquid-collective'', ''compound-v3'',
    ''compound-v2'', ''moonwell'', ''flux-finance'', ''sonne'', ''lodestar'', ''aave-v3'', ''aave-v2'', ''spark'', ''kinza'', ''seamless'']"
  by (simp add: enveloped_def erc4626Adapters_def lstAdapters_def compoundV2Adapters_def aaveAdapters_def)

declare enveloped_code [code] read_off_code [code]

lemma envelope_checked:
  "case protocolAvailabilityByID of None \<Rightarrow> False | Some table \<Rightarrow> list_all2 envelope_row enveloped (map (table_of table) enveloped)"
  by code_simp

lemma envelope_table: "\<exists>table. protocolAvailabilityByID = Some table \<and> list_all2 envelope_row enveloped (map (table_of table) enveloped)"
  using envelope_checked by (auto split: option.splits)

lemma envelope_row_opened:
  assumes "envelope_row i row" "chain \<in> set SupportedChainIDs"
  shows "list_ex (\<lambda>w. window_ActiveAt w block) (windows_of row chain) \<longleftrightarrow> opened (read_off i chain) block"
proof (cases "map_of row chain")
  case None
  then have "read_off i chain = []" using assms by (auto simp: envelope_row_def list_all_iff map_of_eq_None_iff)
  then show ?thesis using None by (simp add: windows_of_def opened_def)
next
  case (Some ws)
  then have "unclosed ws" "first_start (window_starts ws) = first_start (read_off i chain)"
    using assms(1) by (auto simp: envelope_row_def list_all_iff dest!: map_of_SomeD)
  then show ?thesis using Some by (simp add: windows_of_def opened_windows opened_first)
qed

text \<open>C35: For each of these protocols, on every chain and at every block the availability table runs it exactly when
  some part of its adapter is deployed there.\<close>

theorem envelope_exact:
  "case protocolAvailabilityByID of None \<Rightarrow> False | Some table \<Rightarrow>
     (\<forall>i \<in> set enveloped. \<forall>chain \<in> set SupportedChainIDs. \<forall>block.
        list_ex (\<lambda>w. window_ActiveAt w block) (windows_of (table_of table i) chain) \<longleftrightarrow> runs_at i chain block)"
proof -
  obtain table where table: "protocolAvailabilityByID = Some table" "list_all2 envelope_row enveloped (map (table_of table) enveloped)"
    using envelope_table by blast
  have "envelope_row i (table_of table i)" if "i \<in> set enveloped" for i
    using table(2) that by (simp add: list_all2_map2 list_all2_same)
  then show ?thesis unfolding table(1) option.case runs_read_off using envelope_row_opened by blast
qed

theorem envelope_exact_witness:
  "\<exists>table. protocolAvailabilityByID = Some table \<and> registered_ActiveAt \<lparr>reg_adapter = \<lparr>adapter_info = \<lparr>info_id = ''sonne'', info_name = ''Sonne'',
      info_chains = []\<rparr>, adapter_positions = (\<lambda>b a. ([], None))\<rparr>, reg_availability = table_of table ''sonne''\<rparr> Optimism 25840175"
proof -
  obtain table where table: "protocolAvailabilityByID = Some table" using envelope_table by blast
  have "''sonne'' \<in> set enveloped" by (simp add: enveloped_code)
  moreover have "Optimism \<in> set SupportedChainIDs" by code_simp
  moreover have "runs_at ''sonne'' Optimism 25840175" by (simp add: runs_read_off) code_simp
  ultimately have "list_ex (\<lambda>w. window_ActiveAt w 25840175) (windows_of (table_of table ''sonne'') Optimism)"
    using envelope_exact unfolding table option.case by blast
  then have "registered_ActiveAt \<lparr>reg_adapter = \<lparr>adapter_info = \<lparr>info_id = ''sonne'', info_name = ''Sonne'', info_chains = []\<rparr>,
      adapter_positions = (\<lambda>b a. ([], None))\<rparr>, reg_availability = table_of table ''sonne''\<rparr> Optimism 25840175"
    by (simp add: registered_ActiveAt_def)
  then show ?thesis using table by blast
qed

section \<open>A node\<close>

text \<open>A node that answers a call with the name of its method, which decodes to the name's length as a number or, for some methods, to
  an address or fixed values.\<close>

definition echo_transport :: transport where
  "echo_transport = \<lparr>abi_pack = (\<lambda>c. Inr (call_method c)),
     abi_unpack = (\<lambda>c raw. Inr (if call_method c = ''getUserReserveData'' then AbiInt (Some 5) # AbiInt (Some 0) # AbiInt (Some 2) # replicate 5 (AbiInt (Some 0)) @ [AbiBool True]
       else if call_method c = ''getReserveTokensAddresses'' then [AbiAddress 11, AbiAddress 0, AbiAddress 13] else [if call_method c \<in> set [''asset'', ''baseToken'', ''underlying''] then AbiAddress (of_nat (length raw))
       else if call_method c \<in> set [''decimals'', ''numAssets''] then AbiU8 (of_nat (length raw))
       else if call_method c = ''symbol'' then AbiString raw else AbiInt (Some (int (length raw)))]
       @ (if call_method c = ''cooldowns'' then [AbiInt (Some 2)] else []))),
     addr_text = (\<lambda>a. [])\<rparr>"

definition echo_state :: "call_object \<Rightarrow> element" where
  "echo_state ob = Inr (if fst (snd ob) = ''numAssets'' then ''n'' else fst (snd ob))"

definition echo_client :: rpc_client where
  "echo_client = node_client echo_transport (\<lambda>i obs. None) echo_state"

definition echo_block :: block_ref where
  "echo_block = \<lparr>block_chain = Ethereum, block_number = 25000000, block_hash = 0, block_timestamp = 0, block_fixed = False\<rparr>"

definition echo_vault :: vaultConfig where
  "echo_vault = vault ''v'' ''v:cooldown'' ''V'' 7 1 (evm_token Ethereum 5 ''T'' 18)"

definition echo_decoders :: comet_decoders where
  "echo_decoders = \<lparr>asset_info = (\<lambda>v. Some 3), reward_config = (\<lambda>v. Some 4), reward_owed = (\<lambda>v. Some (4, Some 2))\<rparr>"


section \<open>Reports\<close>



text \<open>
  The reports of a Comet market and of an Aave reserve, spelled out over the state's answers alone: no
  definition of the adapters that builds components takes part in them.
\<close>

definition reported :: "string \<Rightarrow> token \<Rightarrow> int \<Rightarrow> source \<Rightarrow> metadata \<Rightarrow> component" where
  "reported kind tok amount src meta = \<lparr>comp_kind = kind, comp_token = tok, comp_amount = show_int amount, comp_denominator = [],
     comp_price = None, comp_value = None, comp_basis = None, comp_source = src, comp_metadata = meta\<rparr>"

definition from_contract :: "address \<Rightarrow> string \<Rightarrow> source" where
  "from_contract contract meth = \<lparr>src_contract = contract, src_method = meth, src_holds = None\<rparr>"

text \<open>The collateral of an index, the reward where the market pays one, and the amounts of an account.\<close>

definition comet_collateral_amounts :: "(contract_call \<Rightarrow> abi_value list option) \<Rightarrow> comet_decoders \<Rightarrow> address \<Rightarrow> address \<Rightarrow> (address \<times> int) list" where
  "comet_collateral_amounts answer dec c account =
     map (\<lambda>i. let a = (case answer (view_call c ''getAssetInfo'' [AbiU8 (of_nat i)]) of Some [v] \<Rightarrow> (case asset_info dec v of None \<Rightarrow> 0 | Some a \<Rightarrow> a) | _ \<Rightarrow> 0) in
         (a, answered_int answer (view_call c ''collateralBalanceOf'' [AbiAddress account, AbiAddress a]) 0))
       [0..<unat (answered answer (\<lambda>row. Uint8At row 0) 0 (view_call c ''numAssets'' []))]"

definition comet_owed :: "(contract_call \<Rightarrow> abi_value list option) \<Rightarrow> comet_decoders \<Rightarrow> cometMarket \<Rightarrow> address \<Rightarrow> u64 \<Rightarrow> address \<times> int" where
  "comet_owed answer dec m account block =
     (if cm_rewards m = 0 \<or> block < cm_rewards_from m then (0, 0)
      else case (answer (view_call (cm_rewards m) ''rewardConfig'' [AbiAddress (cm_comet m)]),
          answer (view_call (cm_rewards m) ''getRewardOwed'' [AbiAddress (cm_comet m), AbiAddress account])) of
        (Some [config], Some [owed]) \<Rightarrow> (case (reward_config dec config, reward_owed dec owed) of
            (Some configured_token, Some (token, Some amount)) \<Rightarrow> if configured_token = 0 then (0, 0) else (token, amount) | _ \<Rightarrow> (0, 0))
      | _ \<Rightarrow> (0, 0))"

text \<open>
  A market of an account that supplies, owes, posts or is owed something is one group: what it supplies as an
  asset, what it owes as a debt, every collateral of a nonzero balance as an asset and what it is owed as a
  reward, in this order. The token of every positive amount was read.
\<close>

definition comet_report :: "(contract_call \<Rightarrow> abi_value list option) \<Rightarrow> (address \<Rightarrow> rpc_error + token) \<Rightarrow> comet_decoders \<Rightarrow> block_ref \<Rightarrow> address
    \<Rightarrow> cometMarket \<Rightarrow> group list" where
  "comet_report answer read_token dec block account m =
     (let c = cm_comet m;
          supplied = answered_int answer (view_call c ''balanceOf'' [AbiAddress account]) 0;
          borrowed = answered_int answer (view_call c ''borrowBalanceOf'' [AbiAddress account]) 0;
          collaterals = comet_collateral_amounts answer dec c account;
          (reward_token, owed) = comet_owed answer dec m account (block_number block);
          base = answered answer (\<lambda>row. AddressAt row 0) 0 (view_call c ''baseToken'' []);
          tok = (\<lambda>a. if a = base \<and> (0 < supplied \<or> 0 < borrowed) \<or> (\<exists>n. (a, n) \<in> set collaterals \<and> 0 < n) \<or> a = reward_token \<and> 0 < owed
            then projr (read_token a) else \<lparr>tok_chain = 0, tok_address = 0, tok_symbol = [], tok_decimals = 0\<rparr>)
      in if 0 < supplied \<or> 0 < borrowed \<or> (\<exists>a n. (a, n) \<in> set collaterals \<and> 0 < n) \<or> 0 < owed
         then [\<lparr>grp_id = hex_fixed 40 (unat c), grp_market = [], grp_label = cm_label m @ '' market'',
           grp_components =
             (if 0 < supplied then [reported ''asset'' (tok base) supplied (from_contract c ''balanceOf'') [(''role'', MetaString ''base-supply'')]] else [])
             @ (if 0 < borrowed then [reported ''debt'' (tok base) borrowed (from_contract c ''borrowBalanceOf'') [(''role'', MetaString ''base-borrow'')]] else [])
             @ concat (map (\<lambda>(a, n). if n = 0 then []
                 else [reported ''asset'' (tok a) n (from_contract c ''collateralBalanceOf'') [(''role'', MetaString ''collateral'')]]) collaterals)
             @ (if 0 < owed then [reported ''reward'' (tok reward_token) owed (from_contract (cm_rewards m) ''getRewardOwed'')
                 [(''role'', MetaString ''market-reward'')]] else []),
           grp_policy = ''floor-zero'', grp_value = None, grp_metadata = [(''comet'', MetaAddress c)]\<rparr>]
         else [])"

lemma comet_collateral_amounts_state:
  "comet_collateral_amounts answer dec (cm_comet m) account = cb_collaterals (state_balances answer dec m account)"
  by (simp add: comet_collateral_amounts_def state_balances_def state_collaterals_def collateral_calls_def Let_def comp_def)

lemma comet_owed_state: "comet_owed answer dec m account block = state_reward answer dec m account block"
  by (auto simp: comet_owed_def state_reward_def RewardsActiveAt_def reward_calls_def)

lemma token_in_reads:
  "token_in (map (\<lambda>a. (a, f a)) needed) a = (if a \<in> set needed then f a else \<lparr>tok_chain = 0, tok_address = 0, tok_symbol = [], tok_decimals = 0\<rparr>)"
  by (induction needed) (auto simp: token_in_def)

lemma reported_collaterals:
  "concat (map (\<lambda>(a, n). if n = 0 then [] else [f a n]) collaterals) = map (\<lambda>(a, n). f a n) (filter (\<lambda>(a, n). n \<noteq> 0) collaterals)"
  by (induction collaterals) auto

lemma comet_report_state: "comet_report answer read_token dec block account m = comet_state_report answer read_token dec block account m"
proof -
  define b where "b = state_balances answer dec m account"
  obtain reward_token owed where reward: "state_reward answer dec m account (block_number block) = (reward_token, owed)" by fastforce
  define base where "base = state_base answer m"
  have fields: "answered_int answer (view_call (cm_comet m) ''balanceOf'' [AbiAddress account]) 0 = cb_supply b"
      "answered_int answer (view_call (cm_comet m) ''borrowBalanceOf'' [AbiAddress account]) 0 = cb_debt b"
      "answered answer (\<lambda>row. AddressAt row 0) 0 (view_call (cm_comet m) ''baseToken'' []) = base"
      "comet_collateral_amounts answer dec (cm_comet m) account = cb_collaterals b"
    by (simp_all add: b_def state_balances_def held_balance_def base_def state_base_def comet_collateral_amounts_state [unfolded state_balances_def])
  have needed: "a \<in> set (comet_tokens base b (reward_token, owed)) \<longleftrightarrow> a = base \<and> (0 < cb_supply b \<or> 0 < cb_debt b)
      \<or> (\<exists>n. (a, n) \<in> set (cb_collaterals b) \<and> 0 < n) \<or> a = reward_token \<and> 0 < owed" for a
    by (force simp: comet_tokens_def image_iff)
  have tokens: "token_read read_token (comet_tokens base b (reward_token, owed)) = (\<lambda>a. if a = base \<and> (0 < cb_supply b \<or> 0 < cb_debt b)
        \<or> (\<exists>n. (a, n) \<in> set (cb_collaterals b) \<and> 0 < n) \<or> a = reward_token \<and> 0 < owed
      then projr (read_token a) else \<lparr>tok_chain = 0, tok_address = 0, tok_symbol = [], tok_decimals = 0\<rparr>)"
    unfolding token_read_def token_in_reads needed ..
  have some: "has_position b (reward_token, owed)
      \<longleftrightarrow> 0 < cb_supply b \<or> 0 < cb_debt b \<or> (\<exists>a n. (a, n) \<in> set (cb_collaterals b) \<and> 0 < n) \<or> 0 < owed"
    by (auto simp: has_position_def list_ex_iff)
  have lot: "comet_component tk contract kind meth role a amount = reported kind (tk a) amount (from_contract contract meth) [(''role'', MetaString role)]"
    for tk contract kind meth role a amount
    by (simp add: comet_component_def reported_def NewComponent_def from_contract_def read_of_def)
  show ?thesis
    unfolding comet_report_def comet_state_report_def Let_def fields comet_owed_state reward b_def [symmetric] base_def [symmetric] prod.case
      some tokens reported_collaterals comet_group_def plain_group_def comet_components_def fst_conv snd_conv lot by simp
qed

text \<open>C33: Over such a node, the Comet positions returned are those of the state, market by market in order over the chain's markets
  deployed at the block: a market where the account supplies, owes, posts or is owed something is one group of its supply as an asset,
  its debt as a debt, its collaterals of a nonzero balance as assets and its reward as a reward, with the amounts the state answers and
  the tokens read for them, and any other market is none.\<close>

theorem comet_positions_exact:
  assumes "CompoundV3_Positions abi_text dec markets (node_client t refuse state) block account = Inr groups"
  shows "groups = concat (map (comet_report (state_row t state) (client_readToken abi_text (node_client t refuse state) block) dec block account)
    (filter (\<lambda>m. ActivationBlock (cm_window m) \<le> block_number block
        \<and> (DeactivationBlock (cm_window m) = 0 \<or> block_number block \<le> DeactivationBlock (cm_window m)))
      (case map_of markets (block_chain block) of None \<Rightarrow> [] | Some ms \<Rightarrow> ms)))"
proof -
  have active: "activeMarkets markets (block_chain block) (block_number block)
      = filter (\<lambda>m. ActivationBlock (cm_window m) \<le> block_number block
        \<and> (DeactivationBlock (cm_window m) = 0 \<or> block_number block \<le> DeactivationBlock (cm_window m)))
      (case map_of markets (block_chain block) of None \<Rightarrow> [] | Some ms \<Rightarrow> ms)"
    unfolding activeMarkets_def chain_entries_def by (rule filter_cong) (auto simp: deployment_ActiveAt_def)
  have "groups = concat (map (comet_state_report (state_row t state) (client_readToken abi_text (node_client t refuse state) block) dec block account)
      (activeMarkets markets (block_chain block) (block_number block)))"
    using assms by (rule node.comets_read)
  then show ?thesis unfolding active comet_report_state .
qed

theorem comet_positions_exact_witness:
  "\<exists>groups. CompoundV3_Positions (\<lambda>e. []) echo_decoders [(Ethereum, [comet ''C'' 7 8 1 1])] echo_client echo_block 9 = Inr groups
     \<and> map (length \<circ> grp_components) groups = [4] \<and> map (map comp_kind \<circ> grp_components) groups = [[''asset'', ''debt'', ''asset'', ''reward'']]
     \<and> groups = concat (map (comet_report (state_row echo_transport echo_state) (client_readToken (\<lambda>e. []) echo_client echo_block)
         echo_decoders echo_block 9) [comet ''C'' 7 8 1 1])"
proof -
  let ?read = "CompoundV3_Positions (\<lambda>e. []) echo_decoders [(Ethereum, [comet ''C'' 7 8 1 1])] echo_client echo_block 9"
  have "\<not> isl ?read" by code_simp
  then obtain groups where groups: "?read = Inr groups" by (cases ?read) simp_all
  have active: "filter (\<lambda>m. ActivationBlock (cm_window m) \<le> block_number echo_block
        \<and> (DeactivationBlock (cm_window m) = 0 \<or> block_number echo_block \<le> DeactivationBlock (cm_window m)))
      (case map_of [(Ethereum, [comet ''C'' 7 8 1 1])] (block_chain echo_block) of None \<Rightarrow> [] | Some ms \<Rightarrow> ms) = [comet ''C'' 7 8 1 1]" by code_simp
  have "map (length \<circ> grp_components) (projr ?read) = [4]" "map (map comp_kind \<circ> grp_components) (projr ?read) = [[''asset'', ''debt'', ''asset'', ''reward'']]"
    by code_simp+
  then show ?thesis
    using groups comet_positions_exact [OF groups [unfolded echo_client_def]] unfolding active echo_client_def by simp
qed



text \<open>C36: On every chain and at every block each Aave market label that was ever deployed has exactly one active deployment: the
  adapters' tables leave no gap between a label's data providers and never trip the check against two of them.\<close>

theorem aave_one_per_label:
  assumes "(i, name, markets, vaults) \<in> set aaveAdapters"
  shows "\<exists>active. activeAaveMarkets markets chain block = Inr active \<and> distinct (map am_label active)
    \<and> set active = {m \<in> set (chain_entries markets chain). deployment_ActiveAt (am_window m) block}
    \<and> am_label ` set active = am_label ` {m \<in> set (chain_entries markets chain). ActivationBlock (am_window m) \<le> block}"
  unfolding activeAaveMarkets_def by (rule one_per_label [OF aave_labels_chained [OF assms]])

theorem aave_one_per_label_witness:
  "\<exists>active. activeAaveMarkets aaveV3Markets Ethereum 22686778 = Inr active \<and> distinct (map am_label active) \<and> ''Core'' \<in> am_label ` set active"
proof -
  have "(''aave-v3'', ''Aave v3'', aaveV3Markets, []) \<in> set aaveAdapters" by (simp add: aaveAdapters_def)
  from aave_one_per_label [OF this, of Ethereum 22686778] obtain active where active: "activeAaveMarkets aaveV3Markets Ethereum 22686778 = Inr active"
      "distinct (map am_label active)"
      "am_label ` set active = am_label ` {m \<in> set (chain_entries aaveV3Markets Ethereum). ActivationBlock (am_window m) \<le> 22686778}" by blast
  have "hd (chain_entries aaveV3Markets Ethereum) = aaveMarketAt ''Core'' 0x87870Bca3F3fD6335C3F4ce8392D69350B4fA4E2 0x7B4EB56E7CD4b454BA8ff71E4518426369a138a3 16291078 20261938
      \<and> chain_entries aaveV3Markets Ethereum \<noteq> []"
    by (simp add: chain_entries_def aaveV3Markets_def)
  then have "aaveMarketAt ''Core'' 0x87870Bca3F3fD6335C3F4ce8392D69350B4fA4E2 0x7B4EB56E7CD4b454BA8ff71E4518426369a138a3 16291078 20261938
      \<in> {m \<in> set (chain_entries aaveV3Markets Ethereum). ActivationBlock (am_window m) \<le> 22686778}"
    using hd_in_set [of "chain_entries aaveV3Markets Ethereum"] by (simp add: aaveMarketAt_def)
  from imageI [OF this, of am_label] active show ?thesis by (auto simp: aaveMarketAt_def)
qed

text \<open>
  A reserve of an account: its supply as an asset held in the reserve's aToken and marked as collateral or not,
  its stable and its variable debt as debts held in their debt tokens, each where it is positive.
\<close>

definition reserve_report :: "(contract_call \<Rightarrow> abi_value list option) \<Rightarrow> chain_id \<Rightarrow> address \<Rightarrow> address \<Rightarrow> aaveReserve \<Rightarrow> component list" where
  "reserve_report answer chain provider account r =
     (let user = view_call provider ''getUserReserveData'' [AbiAddress (rv_token r), AbiAddress account];
          tokens = view_call provider ''getReserveTokensAddresses'' [AbiAddress (rv_token r)];
          tok = \<lparr>tok_chain = chain, tok_address = rv_token r, tok_symbol = rv_symbol r,
            tok_decimals = answered answer (\<lambda>row. Uint8At row 0) 0 (view_call (rv_token r) ''decimals'' [])\<rparr>;
          held = (\<lambda>k. answered answer (\<lambda>row. AddressAt row k) 0 tokens);
          supplied = answered_int answer user 0; stable = answered_int answer user 1; variable = answered_int answer user 2;
          collateral = answered answer (\<lambda>row. BoolAt row 8) False user
      in (if 0 < supplied then [reported ''asset'' tok supplied
             \<lparr>src_contract = provider, src_method = ''getUserReserveData.currentATokenBalance'', src_holds = Some [held 0]\<rparr>
             [(''collateral'', MetaBool collateral)]] else [])
         @ (if 0 < stable then [reported ''debt'' tok stable
             \<lparr>src_contract = provider, src_method = ''getUserReserveData.currentStableDebt'', src_holds = Some [held 1]\<rparr>
             [(''debtType'', MetaString ''stable'')]] else [])
         @ (if 0 < variable then [reported ''debt'' tok variable
             \<lparr>src_contract = provider, src_method = ''getUserReserveData.currentVariableDebt'', src_holds = Some [held 2]\<rparr>
             [(''debtType'', MetaString ''variable'')]] else []))"

lemma reserve_report_state: "reserve_report answer chain provider account r = reserve_state_report answer chain provider account r"
  by (simp add: reserve_report_def reserve_state_report_def reserve_components_def reserve_component_def state_reserve_def Aave.state_holds_def
      user_call_def reserve_tokens_call_def reported_def NewComponent_def read_holding_def Let_def)

text \<open>C37: Over such a node, the lending components of an Aave market are those of the state, reserve by reserve in order: the supply
  as an asset held as the aToken and marked as collateral or not, the stable and the variable debt as debts held as their debt tokens,
  each where positive; and each names as held exactly one token, never the zero address.\<close>

theorem aave_lending_exact:
  assumes "lending_components (node_client t refuse state) block account m reserves = Inr cs"
  shows "cs = concat (map (reserve_report (state_row t state) (block_chain block) (am_provider m) account) reserves)
    \<and> (\<forall>c \<in> set cs. \<exists>h. src_holds (comp_source c) = Some [h] \<and> h \<noteq> 0)"
  unfolding reserve_report_state using assms by (rule node.aave_lending_read)

definition echo_reserve :: aaveReserve where
  "echo_reserve = \<lparr>rv_symbol = ''T'', rv_token = 5\<rparr>"

theorem aave_lending_exact_witness:
  "\<exists>cs. lending_components echo_client echo_block 9 (aaveMarketAt ''Core'' 1 2 3 0) [echo_reserve] = Inr cs
     \<and> map (heldContracts \<circ> comp_source) cs = [[11], [13]] \<and> map comp_kind cs = [''asset'', ''debt'']
     \<and> cs = reserve_report (state_row echo_transport echo_state) Ethereum 2 9 echo_reserve"
proof -
  let ?read = "lending_components echo_client echo_block 9 (aaveMarketAt ''Core'' 1 2 3 0) [echo_reserve]"
  have "\<not> isl ?read" by code_simp
  then obtain cs where cs: "?read = Inr cs" by (cases ?read) simp_all
  have "map (heldContracts \<circ> comp_source) (projr ?read) = [[11], [13]]" "map comp_kind (projr ?read) = [''asset'', ''debt'']" by code_simp+
  moreover have "block_chain echo_block = Ethereum" by (simp add: echo_block_def)
  ultimately show ?thesis
    using cs aave_lending_exact [OF cs [unfolded echo_client_def]] by (simp add: aaveMarketAt_def)
qed

section \<open>Claimed holdings\<close>

text \<open>The groups an adapter of these answers a client.\<close>

inductive adapter_answer :: "rpc_client \<Rightarrow> block_ref \<Rightarrow> address \<Rightarrow> group list \<Rightarrow> bool" where
  vaults: "ERC4626_Positions vaults client block account = Inr gs \<Longrightarrow> adapter_answer client block account gs"
| receipts: "readReceiptPositions client block account positions = Inr gs \<Longrightarrow> adapter_answer client block account gs"
| converted: "ConvertedBalance_Positions table client block account = Inr gs \<Longrightarrow> adapter_answer client block account gs"
| comets: "CompoundV3_Positions abi_text dec markets client block account = Inr gs \<Longrightarrow> adapter_answer client block account gs"
| lending: "compoundV2MarketGroup abi_text client block d account cmarkets = Inr gs \<Longrightarrow> adapter_answer client block account gs"
| safety: "readAaveSafetyModulePositions addr_hex abi_text client block account modules = Inr gs \<Longrightarrow> adapter_answer client block account gs"
| umbrella: "readAaveUmbrellaPositions addr_hex abi_text addresses bigints client block account deployment = Inr gs \<Longrightarrow> adapter_answer client block account gs"
| stata: "readAaveStataPositions addr_hex addresses client block account = Inr gs \<Longrightarrow> adapter_answer client block account gs"

lemma market_report_justified:
  assumes "g \<in> set (lending_group d (concat (map (market_report answer read_token d account) markets)))"
  shows "justified answer account g"
proof -
  have "\<not> contains ''balanceOf'' ''borrowBalanceStored''" by code_simp
  then have none: "heldContracts (read_of c ''borrowBalanceStored'') = []" for c by (rule no_holding_claimed)
  have comps: "held_balance answer account k \<noteq> 0"
    if "c \<in> set (market_report answer read_token d account market)" "k \<in> set (heldContracts (comp_source c))" for c k market
    using that heldContracts_read_of [of market]
    by (fastforce simp: market_report_def Let_def compoundV2SupplyComponent_def NewComponent_def none split: if_splits)
  have "grp_components g = concat (map (market_report answer read_token d account) markets)"
    using assms by (auto simp: lending_group_def split: if_splits)
  then show ?thesis using comps by (auto simp: justified_def)
qed

lemma policy_own [simp]: "own_group (g\<lparr>grp_policy := p\<rparr>) = own_group g"
  by (simp add: own_group_def)

lemma reports_own:
  "g \<in> set (vault_report answer account v) \<Longrightarrow> own_group g"
  "g \<in> set (receipt_report answer account r) \<Longrightarrow> own_group g"
  "g \<in> set (converted_report answer account p) \<Longrightarrow> own_group g"
  "g \<in> set (comet_state_report answer read_token dec block account m) \<Longrightarrow> own_group g"
  "g \<in> set (lending_group d cs) \<Longrightarrow> own_group g"
  by (auto simp: vault_report_def vault_group_def cooldown_group_def receipt_report_def receipt_group_def converted_report_def converted_group_def
      comet_state_report_def comet_group_def lending_group_def plain_own Let_def split: if_splits)

context pinned_reads
begin

lemma adapter_answer_justified:
  assumes "adapter_answer client block account gs" "g \<in> set gs"
  shows "justified answer account g \<and> own_group g"
  using assms(1)
proof cases
  case (vaults vaults)
  then have "gs = concat (map (vault_report answer account) (activeVaultsAt (chain_entries vaults (block_chain block)) (block_number block)))"
    unfolding ERC4626_Positions_def using vaults_read by blast
  then show ?thesis using assms(2) vault_report_justified reports_own(1) by fastforce
next
  case (receipts positions)
  from receipts_read [OF this] show ?thesis using assms(2) receipt_report_justified reports_own(2) by fastforce
next
  case (converted table)
  from converted_read [OF this [unfolded ConvertedBalance_Positions_def]] show ?thesis
    using assms(2) converted_report_justified reports_own(3) by fastforce
next
  case (comets abi_text dec markets)
  from comets_read [OF this] show ?thesis using assms(2) comet_state_report_justified reports_own(4) by fastforce
next
  case (lending abi_text d cmarkets)
  have gs: "gs = lending_group d (concat (map (market_report answer (client_readToken abi_text client block) d account) cmarkets))"
    using lending_read [OF lending] by simp
  show ?thesis using assms(2) market_report_justified [of g] reports_own(5) unfolding gs by blast
next
  case (safety addr_hex abi_text modules)
  from safety_justified [OF this assms(2)] show ?thesis .
next
  case (umbrella addr_hex abi_text addresses bigints deployment)
  from umbrella_justified [OF this assms(2)] show ?thesis .
next
  case (stata addr_hex addresses)
  from stata_justified [OF this assms(2)] show ?thesis .
qed

end

text \<open>A group of a snapshot, as the engine attributes it: of the snapshot's account itself or of one it controls.\<close>

definition scoped_answer :: "(address \<Rightarrow> string) \<Rightarrow> rpc_client \<Rightarrow> snapshot \<Rightarrow> group \<Rightarrow> bool" where
  "scoped_answer addr_hex client s g \<longleftrightarrow> (\<exists>block acct gs. adapter_answer client block (att_address acct) gs
     \<and> g \<in> set (attributedGroups addr_hex gs acct (snap_account s)))"

lemma scoped_answer_justified:
  assumes "scoped_answer addr_hex (node_client t refuse state) s g"
  shows "justified (state_row t state) (groupAccount s g) g"
proof -
  obtain block acct gs where answer: "adapter_answer (node_client t refuse state) block (att_address acct) gs"
      and g: "g \<in> set (attributedGroups addr_hex gs acct (snap_account s))"
    using assms by (auto simp: scoped_answer_def)
  note just = node.adapter_answer_justified [OF answer]
  show ?thesis
  proof (cases "att_address acct = snap_account s")
    case True
    then have "g \<in> set gs" using g by (simp add: attributedGroups_def)
    from just [OF this] True show ?thesis by (simp add: own_group_def groupAccount_def)
  next
    case False
    then obtain g' where g': "g' \<in> set gs" "g = attributed_group addr_hex acct g'" using g by (auto simp: attributedGroups_def)
    then have "groupAccount s g = att_address acct"
      by (simp add: attributed_group_def groupAccount_def map_of_update)
    then show ?thesis using just [OF g'(1)] g'(2) by (simp add: attributed_group_def justified_def)
  qed
qed

text \<open>C16: Where the protocol positions of a scan come from these adapters, reading each chain's one state, every wallet
  holding the scan drops as already counted is of a token contract that answered a nonzero \<open>balanceOf\<close> for that account: no
  holding is dropped on the word of a contract the account holds nothing of.\<close>

theorem claimed_holdings_real:
  assumes "\<And>s g. s \<in> set ss \<Longrightarrow> snap_protocol s \<noteq> walletProtocolID \<Longrightarrow> g \<in> set (snap_groups s)
      \<Longrightarrow> scoped_answer addr_hex (node_client t (refuse (snap_chain s)) (state (snap_chain s))) s g"
    and "sg \<in> set (placed_groups ss)" "sg \<notin> set (placed_groups (suppressDuplicateHoldings ss))"
  shows "snap_protocol (fst sg) = walletProtocolID \<and> length (grp_components (snd sg)) = 1
    \<and> held_balance (state_row t (state (snap_chain (fst sg)))) (groupAccount (fst sg) (snd sg))
        (tok_address (comp_token (grp_components (snd sg) ! 0))) \<noteq> 0"
proof -
  let ?token = "tok_address (comp_token (grp_components (snd sg) ! 0))"
  have "double_counted ss sg" using assms(2,3) suppressed_groups [of ss] by auto
  then have wallet: "snap_protocol (fst sg) = walletProtocolID" "length (grp_components (snd sg)) = 1"
      and held: "((snap_chain (fst sg), groupAccount (fst sg) (snd sg)), ?token) \<in> set (walletHeldContracts ss)"
    by (auto simp: double_counted_duplicate duplicate_holding_def)
  obtain s g where sg: "s \<in> set ss" "snap_protocol s \<noteq> walletProtocolID" "g \<in> set (snap_groups s)"
      "((snap_chain (fst sg), groupAccount (fst sg) (snd sg)), ?token) \<in> set (group_held s g)"
    using held by (auto simp: walletHeldContracts_def split: if_splits)
  have same: "snap_chain s = snap_chain (fst sg)" "groupAccount s g = groupAccount (fst sg) (snd sg)"
      and claimed: "\<exists>c \<in> set (grp_components g). ?token \<in> set (heldContracts (comp_source c))"
    using sg(4) by (auto simp: group_held_def)
  from scoped_answer_justified [OF assms(1) [OF sg(1-3)]] claimed show ?thesis
    using wallet same by (auto simp: justified_def)
qed

text \<open>A wallet that holds a vault's shares and a token, next to the vault's positions.\<close>

definition holding :: "address \<Rightarrow> group" where
  "holding a = plain_group ''token'' [] ''T'' [NewComponent ''asset'' (evm_token Ethereum a ''T'' 18) 9 (read_of a ''balanceOf'')]
     [(''holding'', MetaString ''token'')]"

definition echo_snapshot :: "string \<Rightarrow> group list \<Rightarrow> snapshot" where
  "echo_snapshot p gs = \<lparr>snap_protocol = p, snap_name = p, snap_chain = Ethereum, snap_account = 9, snap_block = echo_block, snap_groups = gs,
     snap_policy = [], snap_value = None\<rparr>"

definition echo_scan :: "snapshot list" where
  "echo_scan = [echo_snapshot walletProtocolID [holding 7, holding 8],
     echo_snapshot ''vaults'' (projr (ERC4626_Positions [(Ethereum, [echo_vault])] echo_client echo_block 9))]"

theorem claimed_holdings_real_witness:
  "(echo_snapshot walletProtocolID [], holding 7) \<notin> set (placed_groups (suppressDuplicateHoldings echo_scan))
   \<and> (echo_snapshot walletProtocolID [], holding 8) \<in> set (placed_groups (suppressDuplicateHoldings echo_scan))
   \<and> held_balance (state_row echo_transport echo_state) 9 7 \<noteq> 0"
proof -
  let ?read = "ERC4626_Positions [(Ethereum, [echo_vault])] echo_client echo_block 9"
  let ?wallet = "(echo_snapshot walletProtocolID [], holding 7)"
  have "\<not> isl ?read" by code_simp
  then have read: "?read = Inr (projr ?read)" by (cases ?read) simp_all
  have names: "walletProtocolID \<noteq> ''vaults''" by code_simp
  have dropped: "\<not> list_ex (\<lambda>sg. sg = ?wallet) (placed_groups (suppressDuplicateHoldings echo_scan))" by code_simp
  have kept: "list_ex (\<lambda>sg. sg = (echo_snapshot walletProtocolID [], holding 8)) (placed_groups (suppressDuplicateHoldings echo_scan))" by code_simp
  have "scoped_answer address_hex (node_client echo_transport (\<lambda>i obs. None) echo_state) s g"
    if "s \<in> set echo_scan" "snap_protocol s \<noteq> walletProtocolID" "g \<in> set (snap_groups s)" for s g
  proof -
    have g: "s = echo_snapshot ''vaults'' (projr ?read)" "g \<in> set (projr ?read)" using that by (auto simp: echo_scan_def echo_snapshot_def)
    have "adapter_answer echo_client echo_block 9 (projr ?read)" using read by (rule adapter_answer.vaults)
    then show ?thesis using g unfolding scoped_answer_def echo_client_def
      by (intro exI [of _ echo_block] exI [of _ "\<lparr>att_address = 9, att_attribution = [], att_source = []\<rparr>"] exI [of _ "projr ?read"])
        (simp add: attributedGroups_def echo_snapshot_def echo_client_def)
  qed
  moreover have "?wallet \<in> set (placed_groups echo_scan)" by (simp add: echo_scan_def placed_groups_def echo_snapshot_def)
  moreover have "?wallet \<notin> set (placed_groups (suppressDuplicateHoldings echo_scan))" using dropped by (auto simp: list_ex_iff)
  ultimately have "held_balance (state_row echo_transport echo_state) (groupAccount (fst ?wallet) (snd ?wallet))
      (tok_address (comp_token (grp_components (snd ?wallet) ! 0))) \<noteq> 0"
    using claimed_holdings_real [of echo_scan address_hex echo_transport "\<lambda>c i obs. None" "\<lambda>c. echo_state" ?wallet] by blast
  then show ?thesis using dropped kept by (simp add: list_ex_iff groupAccount_def echo_snapshot_def holding_def plain_group_def NewComponent_def evm_token_def)
qed

end
