(* ===== verification/Spec2Isabelle.thy ===== *)
theory Spec2Isabelle
  imports Redaction Registry Availability Accounts Pricing Valuation Wallet Rpc Utf8 WalletProvider
    WalletGroups Machines SentioClient ProcessorStatus StatusRefresh Engine Scan Checkpoint Index Presence
    FixedPoint Uniswap SuiClmm Lending Suilend SentioSQL MoveType Sui SuiSQL SuiSelect SuiView SuiSample SuiRange
    SuiPricing SuiWallet SuiEngine Contracts Vaults CompoundV3 CompoundV2 AaveSidecars Aave EvmPositions
begin

text \<open>
  A verification development for sentio-portfolio, the Go engine that reads what accounts hold and owe on
  many chains, values it and answers with one response. Every definition that models code keeps the code's
  name where it can; the theories are named after the files they model.

  \<^bold>\<open>The program.\<close> A scan (\<open>engine.go\<close>) asks each registered adapter (\<open>adapter.go\<close>) for an account's positions at a
  pinned block of each chain, where the table of \<open>protocol_availability.go\<close> opens it. An adapter reads contracts through
  the client of \<open>rpc.go\<close>, or a host's index through \<open>sentio*.go\<close>. The wallet (\<open>wallet.go\<close>, \<open>wallet_provider.go\<close>) is an
  adapter as well, whose holdings that a position already counted are suppressed. The groups of components found are
  priced (\<open>pricing.go\<close>), valued (\<open>valuation.go\<close>) and returned with every error that left something out. Sui has an engine of
  its own (\<open>sui_engine*.go\<close>) over an index read by SQL (\<open>sui_sql*.go\<close>), at one instant or at many.

  \<^bold>\<open>The theories.\<close>
    \<^item> Prelude, FixedPoint, Float64, GoText, Utf8: errors as sums (\<open>bindR\<close>, \<open>mapR\<close>; a Go panic is a value of its own in
      \<open>go\<close>), \<open>math/big\<close> division, rounding to float64, \<open>strings\<close> and \<open>unicode/utf8\<close> as the code uses them.
    \<^item> Types, Redaction (\<open>types.go\<close>): the data model; public errors show no endpoint.
    \<^item> Registry, Availability (\<open>adapter.go\<close>, \<open>protocol_availability.go\<close>): windows, registration, the whole table.
    \<^item> Abi, Rpc, Contracts (\<open>abi.go\<close>, \<open>rpc.go\<close>): typed readers, retries, batches of 16, token metadata. The locale
      \<open>pinned_reads\<close> is what an adapter relies on: a row it is given is the answer of the block's state; \<open>served_reads\<close>
      extends it for a node that refuses nothing. Both are interpreted on the client itself, over any node that answers
      from one state and refuses what it likes.
    \<^item> Vaults, CompoundV3, CompoundV2, AaveSidecars, Aave (\<open>erc4626.go\<close>, \<open>receipt.go\<close>, \<open>lst.go\<close>, \<open>compound_v3.go\<close>, \<open>compound_v2.go\<close>,
      \<open>aave_sidecars.go\<close>, \<open>aave.go\<close>): the adapters with their tables. In the locales, each report is the one the state's
      answers come to. EvmPositions states this over a node, that the availability table opens exactly the blocks at which
      some part of an adapter is deployed, that Aave's successive data providers leave no gap or overlap, and that what
      these adapters make the wallet drop was really held. The reports of a Comet market and an Aave reserve are spelled
      out there over the state's answers alone: kinds, tokens, amounts, sources and order.
    \<^item> Accounts (\<open>accounts.go\<close>): the accounts a wallet controls, a linked list walked for at most 256 entries.
    \<^item> Wallet, WalletProvider, WalletGroups (\<open>wallet.go\<close>, \<open>wallet_provider.go\<close>): suppression of exactly the holdings counted
      twice, \<open>double_counted\<close>, which is stated apart from the code's map of held contracts; when the host's balances are used
      directly; what becomes of every row.
    \<^item> Pricing, Valuation (\<open>pricing.go\<close>, \<open>valuation.go\<close>): queries and prices; the values of components, groups, snapshots and
      protocols against a reference valuation, with the error of a value: it is a nearest float64, within a relative
      \<open>2 ^ -53\<close> from \<open>2 ^ -1022\<close> on and an absolute \<open>2 ^ -1075\<close> below.
    \<^item> Engine, Scan (\<open>engine.go\<close>): set-up of chains, presence lifetimes, the reading of deployments by workers as a set of jobs
      in any order, the assembly of the response. What a scan may leave out, and the error it must then show, is spelled out
      per chain (\<open>chain_accounted\<close>) and per deployment (\<open>deployment_accounted\<close>), the wallet's included, from the options, the
      configuration and what the clients and adapters answered.
    \<^item> Machines (\<open>sentio_lane.go\<close>, \<open>scan_scope.go\<close>): the lane that bounds requests in flight and the memo that computes a key
      once, as step relations with their invariants by induction over reachable states. Taking a slot of the lane and being
      counted off as a waiter are two steps, as are the two reads of its statistics.
    \<^item> SentioClient, ProcessorStatus, StatusRefresh (\<open>sentio.go\<close>): round trips and attempts; statuses; the machine of status
      reads that callers share.
    \<^item> Checkpoint, Index, Presence (\<open>sentio_checkpoint.go\<close>, \<open>sentio_index.go\<close>, \<open>sentio_presence.go\<close>): the block a read asks at,
      paged streams, and the probe that spares reads of empty entities.
    \<^item> SentioSQL (\<open>sentio_sql.go\<close>): a statement's submission, polling and cancellation, refining a small contract.
    \<^item> Uniswap, SuiClmm, Lending, Suilend (\<open>uniswap_math.go\<close>, \<open>sui_clmm_math.go\<close>, \<open>morpho_math.go\<close>, \<open>navi_math.go\<close>,
      \<open>suilend_math.go\<close>): the fixed-point mathematics of positions, at the widths and roundings of the code.
    \<^item> MoveType, Sui (\<open>sui.go\<close>, \<open>sui_history.go\<close>, \<open>sui_objects.go\<close>): addresses and types in canonical form, balances.
    \<^item> SuiSQL, SuiSelect, SuiView, SuiSample, SuiRange (\<open>sui_sql.go\<close>, \<open>sui_sql_query.go\<close>, \<open>sui_sql_range.go\<close>): what the statements
      select, the view of one sample in the rows of a range, and the windowed read of a range. SuiView and SuiSample show
      that both ways of reading a sample select the same rows.
    \<^item> SuiPricing, SuiWallet, SuiEngine (\<open>sui_engine_pricing.go\<close>, \<open>sui_engine_wallet.go\<close>, \<open>sui_engine_history.go\<close>,
      \<open>sui_engine.go\<close>): quotes per instant, the shared dial of the node, wallet history, the pins that hold every snapshot of
      an instant to one checkpoint, and the responses. A valuation that panics at a price that is NaN, or infinite for a zero
      amount, ends the scan: a scan is a panic or its responses.

  \<^bold>\<open>How state and effects correspond.\<close> A Go struct is a record and a constructor of errors a datatype; the exact wording of
  most wrapped messages is kept only as a label. Unsigned and fixed-width integers are words and wrap; \<open>big.Int\<close> is
  \<^typ>\<open>int\<close>; float64 is its value with the infinities and NaN apart. A map is an association list or a function. Goroutines
  that share state are machines whose steps interleave freely; goroutines that only append are jobs in any order. A request
  is the sequence of its attempts, what each answered being a parameter.

  \<^bold>\<open>Bounds and termination.\<close> Every definition is total. \<open>page_loop\<close> takes fuel and \<open>index_pages\<close> gives it one round per row
  the streams may hold, which \<open>index_pages_end\<close> shows is never used up; \<open>executeSQL\<close> gives its rounds by the timeout and the
  least wait; the parser of Move types takes its input's length, and each step consumes some; \<open>pow_loop\<close> and the windows of
  \<open>ReadRange\<close> end by a measure; the walk of accounts, the 66 probes for reward tokens and the retries are bounded by the
  code's own constants.

  \<^bold>\<open>Parameters.\<close> What is not in the repository is an argument: go-ethereum's ABI packing, \<open>ConvertType\<close> and checksummed
  addresses, JSON decoding, the HTTP and gRPC transports, the host's price and balance providers, clocks. Where a property
  needs their documented behaviour it is a hypothesis, such as an endpoint answering from one store, a node answering from
  one state, or a table's invariant.

  \<^bold>\<open>Not modelled.\<close> The observers (\<open>observer.go\<close>), which only record timings. The gRPC readers of Sui (\<open>sui_grpc.go\<close>,
  \<open>sui_lineage_grpc.go\<close>, \<open>sui_objects_grpc.go\<close>) and their wiring, which translate generated protobuf messages. Of the client,
  its dialling and \<open>Logs\<close>. The other EVM adapters (Aave v4, Venus, Euler, Morpho, Fluid, Maker,
  Sky, Curve, Pendle, Uniswap, Lido, ether.fi, Renzo, Stader and smaller ones) and the Sui protocols' object decoders (NAVI,
  Suilend, CLMM pools): they are sequences of reads over the modelled client and indexes, each with its own formulae, of which
  the mathematics files are modelled. Instrumentation inside modelled functions is left out.
\<close>

end
